(* ===== verification/Guard_Prelude.thy ===== *)
theory Guard_Prelude
  imports Complex_Main "HOL-Library.AList"
begin

section \<open>Prelude: JavaScript strings, insertion-ordered maps, shared automation\<close>

text \<open>
  What every component of the guard engine shares.

  \<^item> JavaScript strings are \<open>string\<close> (lists of \<open>char\<close>, so code units below 256); the
    string methods the source calls are written out here.
  \<^item> A JavaScript \<open>Map\<close> iterates in insertion order and \<open>set\<close> on a present key keeps the
    key's place: an association list with distinct keys, \<open>AList.update\<close> for \<open>set\<close>,
    \<open>AList.delete\<close> for \<open>delete\<close>, \<open>map_of\<close> for \<open>get\<close>. The eviction idiom
    \<open>store.delete(store.keys().next().value)\<close> drops the head of the list.
  \<^item> \<open>store_simps\<close> collects the equations of the map operations, \<open>str_simps\<close> those of the
    string operations.
\<close>

named_theorems store_simps "equations of the insertion-ordered map operations"
named_theorems str_simps "equations of the string operations"

subsection \<open>String methods\<close>

definition starts_with :: "'a list \<Rightarrow> 'a list \<Rightarrow> bool" where
  "starts_with p s \<longleftrightarrow> take (length p) s = p"

definition ends_with :: "'a list \<Rightarrow> 'a list \<Rightarrow> bool" where
  "ends_with p s \<longleftrightarrow> length p \<le> length s \<and> drop (length s - length p) s = p"

text \<open>\<open>s.includes(sub)\<close>.\<close>

fun str_includes :: "string \<Rightarrow> string \<Rightarrow> bool" where
  "str_includes sub [] = (sub = [])"
| "str_includes sub (c # s) = (starts_with sub (c # s) \<or> str_includes sub s)"

text \<open>\<open>s.split(c)\<close> for a one-character separator: never the empty list.\<close>

fun split_on :: "'a \<Rightarrow> 'a list \<Rightarrow> 'a list list" where
  "split_on d [] = [[]]"
| "split_on d (c # s) =
     (if c = d then [] # split_on d s
      else (case split_on d s of [] \<Rightarrow> [[c]] | x # xs \<Rightarrow> (c # x) # xs))"

text \<open>\<open>xs.join(sep)\<close>.\<close>

fun join_with :: "'a list \<Rightarrow> 'a list list \<Rightarrow> 'a list" where
  "join_with sep [] = []"
| "join_with sep [x] = x"
| "join_with sep (x # y # xs) = x @ sep @ join_with sep (y # xs)"

definition is_ws :: "char \<Rightarrow> bool" where
  "is_ws c \<longleftrightarrow> (let n = (of_char c :: nat) in n = 32 \<or> (9 \<le> n \<and> n \<le> 13) \<or> n = 160)"

text \<open>\<open>s.trim()\<close>.\<close>

definition str_trim :: "string \<Rightarrow> string" where
  "str_trim s = rev (dropWhile is_ws (rev (dropWhile is_ws s)))"

text \<open>\<open>s.toLowerCase()\<close> on Latin-1: the ASCII letters and the accented capitals.\<close>

definition lower_char :: "char \<Rightarrow> char" where
  "lower_char c =
     (let n = (of_char c :: nat)
      in if (65 \<le> n \<and> n \<le> 90) \<or> (192 \<le> n \<and> n \<le> 222 \<and> n \<noteq> 215) then char_of (n + 32) else c)"

definition to_lower :: "string \<Rightarrow> string" where
  "to_lower s = map lower_char s"

definition is_digit :: "char \<Rightarrow> bool" where
  "is_digit c \<longleftrightarrow> (let n = (of_char c :: nat) in 48 \<le> n \<and> n \<le> 57)"

text \<open>Decimal rendering of numbers in template strings.\<close>

fun show_nat :: "nat \<Rightarrow> string" where
  "show_nat n = (if n < 10 then [char_of (48 + n)] else show_nat (n div 10) @ [char_of (48 + n mod 10)])"

declare show_nat.simps [simp del]

definition show_int :: "int \<Rightarrow> string" where
  "show_int i = (if i < 0 then ''-'' @ show_nat (nat (- i)) else show_nat (nat i))"

text \<open>Text in single quotes, as the messages show it.\<close>

definition quoted :: "string \<Rightarrow> string" where
  "quoted s = [CHR 0x27] @ s @ [CHR 0x27]"

lemma starts_with_Nil [simp, str_simps]: "starts_with [] s"
  by (simp add: starts_with_def)

lemma starts_with_Cons [simp, str_simps]:
  "starts_with (c # p) s = (case s of [] \<Rightarrow> False | d # t \<Rightarrow> c = d \<and> starts_with p t)"
  by (cases s) (auto simp: starts_with_def)

lemma starts_with_iff: "starts_with p s \<longleftrightarrow> (\<exists>t. s = p @ t)"
  by (metis append_eq_conv_conj append_take_drop_id starts_with_def)

lemma starts_with_append [simp]: "starts_with p (p @ t)"
  by (auto simp: starts_with_iff)

lemma ends_with_iff: "ends_with p s \<longleftrightarrow> (\<exists>t. s = t @ p)"
proof
  assume "ends_with p s"
  then have "s = take (length s - length p) s @ p"
    unfolding ends_with_def by (metis append_take_drop_id)
  then show "\<exists>t. s = t @ p" by blast
qed (auto simp: ends_with_def)

lemma split_on_not_Nil [simp]: "split_on d s \<noteq> []"
  by (induction s) (auto split: list.splits)

lemma split_on_no_sep: "x \<in> set (split_on d s) \<Longrightarrow> d \<notin> set x"
proof (induction s arbitrary: x)
  case (Cons c s)
  then show ?case by (cases "split_on d s") (auto split: if_splits)
qed simp

lemma split_on_chars: "x \<in> set (split_on d s) \<Longrightarrow> set x \<subseteq> set s"
proof (induction s arbitrary: x)
  case (Cons c s)
  then show ?case by (cases "split_on d s") (fastforce split: if_splits)+
qed simp

lemma split_on_id: "d \<notin> set s \<Longrightarrow> split_on d s = [s]"
  by (induction s) auto

lemma split_on_append_sep: "d \<notin> set x \<Longrightarrow> split_on d (x @ d # s) = x # split_on d s"
  by (induction x) auto

lemma split_on_append: "split_on d (x @ d # y) = split_on d x @ split_on d y"
proof (induction x)
  case (Cons c x)
  then show ?case by (cases "split_on d x") auto
qed simp

text \<open>Joining pieces that do not hold the separator and splitting again is the identity.\<close>

lemma split_on_join:
  "xs \<noteq> [] \<Longrightarrow> \<forall>x \<in> set xs. d \<notin> set x \<Longrightarrow> split_on d (join_with [d] xs) = xs"
proof (induction "[d]" xs rule: join_with.induct)
  case (3 x y xs)
  then show ?case by (simp add: split_on_append_sep)
qed (simp_all add: split_on_id)

lemma set_join_with: "set (join_with sep xs) \<subseteq> set sep \<union> \<Union> (set ` set xs)"
  by (induction sep xs rule: join_with.induct) auto

lemma join_with_append:
  "xs \<noteq> [] \<Longrightarrow> ys \<noteq> [] \<Longrightarrow> join_with sep (xs @ ys) = join_with sep xs @ sep @ join_with sep ys"
proof (induction sep xs rule: join_with.induct)
  case (2 sep x)
  then show ?case by (cases ys) auto
qed auto

lemma show_nat_not_Nil [simp]: "show_nat n \<noteq> []"
  by (subst show_nat.simps) simp

subsection \<open>Insertion-ordered maps\<close>

type_synonym ('k, 'v) omap = "('k \<times> 'v) list"

abbreviation om_keys :: "('k, 'v) omap \<Rightarrow> 'k list" where
  "om_keys m \<equiv> map fst m"

abbreviation om_ok :: "('k, 'v) omap \<Rightarrow> bool" where
  "om_ok m \<equiv> distinct (om_keys m)"

text \<open>\<open>map.get(k) ?? d\<close>.\<close>

definition om_get_or :: "'v \<Rightarrow> ('k, 'v) omap \<Rightarrow> 'k \<Rightarrow> 'v" where
  "om_get_or d m k = (case map_of m k of None \<Rightarrow> d | Some v \<Rightarrow> v)"

definition om_has :: "('k, 'v) omap \<Rightarrow> 'k \<Rightarrow> bool" where
  "om_has m k \<longleftrightarrow> map_of m k \<noteq> None"

text \<open>\<open>map.delete(map.keys().next().value)\<close>: drop the oldest entry.\<close>

definition om_drop_oldest :: "('k, 'v) omap \<Rightarrow> ('k, 'v) omap" where
  "om_drop_oldest m = (case m of [] \<Rightarrow> [] | (k, _) # _ \<Rightarrow> AList.delete k m)"

lemma om_get_update [simp, store_simps]:
  "map_of (AList.update k v m) k' = (if k' = k then Some v else map_of m k')"
  by (simp add: update_conv)

lemma om_get_delete [simp, store_simps]:
  "map_of (AList.delete k m) k' = (if k' = k then None else map_of m k')"
  by (simp add: delete_conv)

lemma om_ok_update [simp]: "om_ok m \<Longrightarrow> om_ok (AList.update k v m)"
  by (rule distinct_update)

lemma om_ok_delete [simp]: "om_ok m \<Longrightarrow> om_ok (AList.delete k m)"
  by (rule distinct_delete)

lemma om_delete_notin [simp]: "map_of m k = None \<Longrightarrow> AList.delete k m = m"
  by (induction m) (auto split: if_splits)

lemma om_drop_oldest_tl [simp]: "om_ok m \<Longrightarrow> om_drop_oldest m = tl m"
  by (cases m) (auto simp: om_drop_oldest_def map_of_eq_None_iff)

lemma om_size_update:
  "length (AList.update k v m) = (if map_of m k = None then Suc (length m) else length m)"
  by (induction m) auto

lemma om_update_new: "map_of m k = None \<Longrightarrow> AList.update k v m = m @ [(k, v)]"
  by (induction m) (auto split: if_splits)

lemma om_size_delete_le: "length (AList.delete k m) \<le> length m"
  by (rule length_delete_le)

lemma om_size_delete:
  "om_ok m \<Longrightarrow> length (AList.delete k m) = (if map_of m k = None then length m else length m - 1)"
proof (induction m)
  case (Cons p m)
  then show ?case
    by (cases p, cases "map_of m k") (auto simp: map_of_eq_None_iff Suc_diff_Suc rev_image_eqI
        dest: map_of_SomeD intro: Suc_pred)
qed simp

lemma om_keys_delete: "om_keys (AList.delete k m) = removeAll k (om_keys m)"
  by (induction m) auto

lemma om_dom_delete [simp]: "fst ` set (AList.delete k m) = fst ` set m - {k}"
  by (induction m) auto

lemma om_dom_update [simp]: "fst ` set (AList.update k v m) = insert k (fst ` set m)"
  by (induction m) auto

lemma om_get_tl:
  "om_ok m \<Longrightarrow> map_of (tl m) k = (if m \<noteq> [] \<and> k = fst (hd m) then None else map_of m k)"
  by (cases m) (auto simp: map_of_eq_None_iff)

lemma om_ok_tl [simp]: "om_ok m \<Longrightarrow> om_ok (tl m)"
  by (cases m) auto

end
