(* ===== verification/Guard_Types.thy ===== *)
theory Guard_Types
  imports Guard_Prelude
begin

section \<open>Data model: configuration, route configuration, requests, responses, events\<close>

text \<open>
  The interfaces of \<open>packages/core/src/models\<close> and \<open>packages/core/src/protocols\<close> as records:
  one field per property the engine reads. Thresholds, limits and windows are the integers
  the configuration schema admits; times are seconds as \<open>rat\<close> (\<open>Date.now() / 1000\<close>,
  with exact arithmetic instead of doubles). Callbacks the application supplies
  (\<open>onBlock\<close>, verifiers, validators, modifiers) are functions into a result that may be
  an exception.
\<close>

subsection \<open>Errors\<close>

text \<open>
  What a \<open>throw\<close> carries. \<open>RedisErr\<close> is \<open>GuardRedisError\<close> (\<open>errors.ts\<close>), the only class
  the failure policies distinguish; every other error is its name and message.
\<close>

datatype exn = RedisErr int string | OtherErr string string

definition exn_name :: "exn \<Rightarrow> string" where
  "exn_name e = (case e of RedisErr _ _ \<Rightarrow> ''GuardRedisError'' | OtherErr n _ \<Rightarrow> n)"

definition exn_message :: "exn \<Rightarrow> string" where
  "exn_message e = (case e of RedisErr _ m \<Rightarrow> m | OtherErr _ m \<Rightarrow> m)"

text \<open>\<open>String(error)\<close>.\<close>

definition exn_str :: "exn \<Rightarrow> string" where
  "exn_str e = exn_name e @ '': '' @ exn_message e"

subsection \<open>Requests, their mutable state, responses\<close>

datatype log_level = INFO | DEBUG | WARNING | ERROR | CRITICAL

datatype log_method = LogDebug | LogInfo | LogWarn | LogError

record request =
  rq_path :: string
  rq_scheme :: string
  rq_replace_scheme :: "string \<Rightarrow> string"
  rq_method :: string
  rq_host :: "string option"
  rq_headers :: "(string, string) omap"
  rq_query :: "(string, string) omap"

record response =
  rs_status :: int
  rs_headers :: "(string, string) omap"
  rs_body :: "string option"

definition set_header :: "string \<Rightarrow> string \<Rightarrow> response \<Rightarrow> response" where
  "set_header n v r = r\<lparr>rs_headers := AList.update n v (rs_headers r)\<rparr>"

text \<open>\<open>if (!request.clientHost)\<close>: null and the empty string are both absent.\<close>

definition client_host :: "request \<Rightarrow> string option" where
  "client_host r = (case rq_host r of None \<Rightarrow> None | Some h \<Rightarrow> if h = [] then None else Some h)"

text \<open>\<open>request.clientHost ?? 'unknown'\<close>.\<close>

definition host_or_unknown :: "request \<Rightarrow> string" where
  "host_or_unknown r = (case rq_host r of None \<Rightarrow> ''unknown'' | Some h \<Rightarrow> h)"

definition header_or :: "string \<Rightarrow> request \<Rightarrow> string \<Rightarrow> string" where
  "header_or d r h = om_get_or d (rq_headers r) h"

subsection \<open>Behavior rules\<close>

datatype rule_type = Usage | ReturnPattern | Frequency

datatype behavior_action = ActBan | ActLog | ActThrottle | ActAlert

definition rule_type_str :: "rule_type \<Rightarrow> string" where
  "rule_type_str t = (case t of Usage \<Rightarrow> ''usage'' | ReturnPattern \<Rightarrow> ''return_pattern''
     | Frequency \<Rightarrow> ''frequency'')"

definition action_str :: "behavior_action \<Rightarrow> string" where
  "action_str a = (case a of ActBan \<Rightarrow> ''ban'' | ActLog \<Rightarrow> ''log'' | ActThrottle \<Rightarrow> ''throttle''
     | ActAlert \<Rightarrow> ''alert'')"

record behavior_rule =
  br_type :: rule_type
  br_threshold :: int
  br_window :: int
  br_pattern :: "string option"
  br_action :: behavior_action
  br_custom :: "string option"
  br_ban_duration :: "int option"
  br_correlate :: bool

subsection \<open>Route configuration\<close>

type_synonym verifier = "request \<Rightarrow> string \<Rightarrow> exn + string option"
type_synonym validator = "request \<Rightarrow> exn + response option"

record route_config =
  rc_rate_limit :: "int option"
  rc_rate_window :: "int option"
  rc_ip_whitelist :: "string list option"
  rc_ip_blacklist :: "string list option"
  rc_blocked_countries :: "string list option"
  rc_whitelist_countries :: "string list option"
  rc_bypassed :: "string list"
  rc_require_https :: bool
  rc_auth_required :: "string option"
  rc_auth_verifier :: "verifier option"
  rc_api_key_verifier :: "verifier option"
  rc_api_key_header :: "string option"
  rc_auth_header_required :: "string option"
  rc_custom_validators :: "validator list"
  rc_blocked_uas :: "string list"
  rc_required_headers :: "(string, string) omap"
  rc_behavior_rules :: "behavior_rule list"
  rc_block_clouds :: "string list"
  rc_max_size :: "int option"
  rc_content_types :: "string list option"
  rc_time_window :: "(string \<times> string) option"
  rc_suspicious :: bool
  rc_referrers :: "string list option"
  rc_api_key_required :: bool
  rc_session_limits :: "(string, int) omap option"
  rc_geo_limits :: "(string, int \<times> int) omap option"
  rc_excl_headers :: "string list option"
  rc_excl_params :: "string list option"
  rc_excl_body :: "string list option"
  rc_enabled_cats :: "string list option"
  rc_scan_body :: "bool option"

text \<open>The field initialisers of \<open>class RouteConfig\<close>.\<close>

definition default_route :: route_config where
  "default_route = \<lparr>
     rc_rate_limit = None, rc_rate_window = None, rc_ip_whitelist = None, rc_ip_blacklist = None,
     rc_blocked_countries = None, rc_whitelist_countries = None, rc_bypassed = [],
     rc_require_https = False, rc_auth_required = None, rc_auth_verifier = None,
     rc_api_key_verifier = None, rc_api_key_header = None, rc_auth_header_required = None,
     rc_custom_validators = [], rc_blocked_uas = [], rc_required_headers = [],
     rc_behavior_rules = [], rc_block_clouds = [], rc_max_size = None, rc_content_types = None,
     rc_time_window = None, rc_suspicious = True, rc_referrers = None,
     rc_api_key_required = False, rc_session_limits = None, rc_geo_limits = None,
     rc_excl_headers = None, rc_excl_params = None, rc_excl_body = None,
     rc_enabled_cats = None, rc_scan_body = None\<rparr>"

text \<open>
  The guard decorator of a request or of the resolver: absent, an object without
  \<open>getRouteConfig\<close>, or its lookup, which may throw.
\<close>

datatype decorator =
  NoDecorator
| BadDecorator
| Decorator "string \<Rightarrow> exn + route_config option"

text \<open>\<open>request.state\<close>: the flags and cells the checks leave for one another.\<close>

record req_state =
  st_route_id :: "string option"
  st_endpoint_id :: "string option"
  st_decorator :: decorator
  st_direct_route :: "route_config option"
  st_route :: "route_config option"
  st_unresolved :: bool
  st_whitelisted :: bool
  st_exempt :: bool
  st_stash :: "(string \<times> string) option"
  st_client_ip :: "string option"
  st_client_ip_camel :: "string option"
  st_principal :: "string option"
  st_exclusion_scoped :: bool

subsection \<open>Events and hook payloads\<close>

datatype meta = MStr string | MNum int | MBool bool | MList "string list" | MNull

record agent_event =
  ev_time :: rat
  ev_type :: string
  ev_ip :: string
  ev_country :: "string option"
  ev_ua :: "string option"
  ev_action :: string
  ev_reason :: string
  ev_endpoint :: "string option"
  ev_method :: "string option"
  ev_decorator :: "string option"
  ev_rule :: "string option"
  ev_handler :: string
  ev_meta :: "(string, meta) omap"

record metric =
  mt_time :: rat
  mt_type :: string
  mt_value :: rat
  mt_tags :: "(string, string) omap"

record block_payload =
  bp_check :: string
  bp_reason :: string
  bp_trigger :: string
  bp_passive :: bool
  bp_ip :: string
  bp_path :: string
  bp_method :: string
  bp_status :: "int option"

subsection \<open>Configuration\<close>

text \<open>
  The fields of \<open>ResolvedSecurityConfig\<close> the modelled components read, with the callbacks of
  the application.
\<close>

record config =
  c_trusted_proxies :: "string list"
  c_trusted_depth :: int
  c_trust_xfp :: bool
  c_passive :: bool
  c_whitelist :: "string list option"
  c_blacklist :: "string list"
  c_exempt_ips :: "string list"
  c_whitelist_countries :: "string list"
  c_blocked_countries :: "string list"
  c_blocked_uas :: "string list"
  c_autoban_threshold :: int
  c_autoban_duration :: int
  c_threat_ban :: "(string, int \<times> int) omap"
  c_rl_autoban :: bool
  c_log_suspicious :: "log_level option"
  c_log_request :: "log_level option"
  c_log_country :: "log_level option"
  c_error_responses :: "(int, string) omap"
  c_rate_limit :: int
  c_rate_window :: int
  c_enforce_https :: bool
  c_sec_headers :: bool
  c_block_clouds :: "string list"
  c_cloud_interval :: int
  c_exclude_paths :: "string list"
  c_enable_ban :: bool
  c_enable_rl :: bool
  c_enable_pen :: bool
  c_emergency :: bool
  c_emergency_whitelist :: "string list"
  c_endpoint_limits :: "(string, int \<times> int) omap"
  c_global_rules :: "behavior_rule list"
  c_scan_resp_body :: bool
  c_max_resp_body :: nat
  c_excl_params :: "string list"
  c_excl_body :: "string list"
  c_excl_headers :: "string list"
  c_enabled_cats :: "string list"
  c_scan_body :: bool
  c_max_scan_values :: int
  c_max_scan_chars :: int
  c_max_json_depth :: int
  c_agent_events :: bool
  c_agent_metrics :: bool
  c_enable_redis :: bool
  c_muted_checks :: "string list"
  c_fail_secure :: bool
  c_redis_fail_open :: bool
  c_route_strict :: bool
  c_on_block :: "(request \<Rightarrow> block_payload \<Rightarrow> exn option) option"
  c_on_error :: "(string \<Rightarrow> exn \<Rightarrow> exn option) option"
  c_custom_check :: "(string \<times> (request \<Rightarrow> exn + response option)) option"
  c_modifier :: "(response \<Rightarrow> exn + response) option"
  c_auth_verifier :: "verifier option"

end
