(* ===== verification/Guard_Effects.thy ===== *)
theory Guard_Effects
  imports Guard_Types
begin

section \<open>The engine's state, its environment, and effects\<close>

text \<open>
  \<^item> \<open>env\<close>: what the engine calls and does not contain (ipaddr.js, \<open>RegExp\<close>, \<open>URL\<close>, the Redis
    client, the agent, the GeoIP handler, the response factory): functions, parameters of
    every definition that uses them. The Redis server's own state is the type \<open>'r\<close>.
  \<^item> \<open>world\<close>: the mutable state of the engine (the managers' maps, the request state) and the
    effects it emits (log lines, agent events, hook calls), with the clock.
  \<^item> \<open>('r, 'a) eff\<close>: an \<open>async\<close> method: it takes the world and returns an error (\<open>Inl\<close>,
    a rejected promise) or a value, and the new world. An error keeps the state changes made
    before it, as in the source.
\<close>

subsection \<open>The environment\<close>

type_synonym addr = "int list"

datatype ip_kind = V4 | V6

record 'r redis_client =
  cl_get :: "string \<Rightarrow> 'r \<Rightarrow> (exn + string option) \<times> 'r"
  cl_set :: "string \<Rightarrow> string \<Rightarrow> 'r \<Rightarrow> (exn + unit) \<times> 'r"
  cl_setex :: "string \<Rightarrow> int \<Rightarrow> string \<Rightarrow> 'r \<Rightarrow> (exn + unit) \<times> 'r"
  cl_set_px :: "string \<Rightarrow> string \<Rightarrow> int \<Rightarrow> 'r \<Rightarrow> (exn + unit) \<times> 'r"
  cl_del :: "string list \<Rightarrow> 'r \<Rightarrow> (exn + int) \<times> 'r"
  cl_keys :: "string \<Rightarrow> 'r \<Rightarrow> (exn + string list) \<times> 'r"
  cl_incr :: "string \<Rightarrow> 'r \<Rightarrow> (exn + int) \<times> 'r"
  cl_exists :: "string \<Rightarrow> 'r \<Rightarrow> (exn + int) \<times> 'r"
  cl_expire :: "string \<Rightarrow> int \<Rightarrow> 'r \<Rightarrow> (exn + int) \<times> 'r"
  cl_pttl :: "string \<Rightarrow> 'r \<Rightarrow> (exn + int) \<times> 'r"
  cl_zadd :: "string \<Rightarrow> rat \<Rightarrow> string \<Rightarrow> 'r \<Rightarrow> (exn + int) \<times> 'r"
  cl_zremrangebyscore :: "string \<Rightarrow> rat \<Rightarrow> rat \<Rightarrow> 'r \<Rightarrow> (exn + int) \<times> 'r"
  cl_zcard :: "string \<Rightarrow> 'r \<Rightarrow> (exn + int) \<times> 'r"
  cl_script_load :: "string \<Rightarrow> 'r \<Rightarrow> (exn + string) \<times> 'r"
  cl_evalsha :: "string \<Rightarrow> string \<Rightarrow> rat \<Rightarrow> int \<Rightarrow> int \<Rightarrow> 'r \<Rightarrow> (exn + int) \<times> 'r"
  cl_eval_expire :: "string \<Rightarrow> int \<Rightarrow> 'r \<Rightarrow> (exn + int) \<times> 'r"

record geo_handler =
  geo_initialized :: bool
  geo_initialize :: "exn option"
  geo_country :: "string \<Rightarrow> exn + string option"

text \<open>A pattern hit of the detection engine and its verdict on one value.\<close>

record threat =
  th_semantic :: bool
  th_pattern :: string
  th_content :: string

record detection =
  dt_threat :: bool
  dt_threats :: "threat list"
  dt_categories :: "string list"

datatype json =
  JNull
| JScalar string
| JStr string
| JArr "json list"
| JObj "(string \<times> json) list"

fun is_json_object :: "json \<Rightarrow> bool" where
  "is_json_object (JObj _) = True"
| "is_json_object (JArr _) = True"
| "is_json_object _ = False"

text \<open>One scanned entry of a multipart part: label, exclusion key, value.\<close>

type_synonym multipart_entry = "string \<times> string option \<times> string"

type_synonym detector = "string \<Rightarrow> string \<Rightarrow> string \<Rightarrow> string list \<Rightarrow> exn + detection"

record 'r env =
  e_ip_parse :: "string \<Rightarrow> addr option"
  e_ip_cidr :: "string \<Rightarrow> (addr \<times> int) option"
  e_ip_kind :: "addr \<Rightarrow> ip_kind"
  e_ip_match :: "addr \<Rightarrow> addr \<times> int \<Rightarrow> bool"
  e_ip_loopback :: "addr \<Rightarrow> bool"
  e_ip_str :: "addr \<Rightarrow> string"
  e_ip_mapped :: "addr \<Rightarrow> string option"
  e_ip_valid :: "string \<Rightarrow> bool"
  e_is_ip :: "string \<Rightarrow> bool"
  e_regex :: "string \<Rightarrow> string \<Rightarrow> bool option"
  e_url_host :: "string \<Rightarrow> string option"
  e_json_parse :: "string \<Rightarrow> json option"
  e_json_str :: "json \<Rightarrow> string"
  e_num_str :: "rat \<Rightarrow> string"
  e_parse_float :: "string \<Rightarrow> rat option"
  e_sha256 :: "string \<Rightarrow> string"
  e_hhmm :: "rat \<Rightarrow> string"
  e_redact_header :: "string \<Rightarrow> string"
  e_redact_url :: "string \<Rightarrow> string"
  e_mk_response :: "string \<Rightarrow> int \<Rightarrow> response"
  e_mk_redirect :: "string \<Rightarrow> int \<Rightarrow> response"
  e_security_headers :: "string \<Rightarrow> (string, string) omap"
  e_cors_headers :: "string \<Rightarrow> (string, string) omap"
  e_detect :: "detector option"
  e_detect_default :: detector
  e_score2 :: "string \<Rightarrow> string"
  e_form_pairs :: "string \<Rightarrow> (string \<times> string) list"
  e_multipart :: "string \<Rightarrow> string \<Rightarrow> multipart_entry list list"
  e_read_body :: "request \<Rightarrow> exn + string option"
  e_geo :: "geo_handler option"
  e_agent :: "(agent_event \<Rightarrow> exn option) option"
  e_agent_metric :: "metric \<Rightarrow> exn option"
  e_redis :: "'r redis_client option option"
  e_redis_prefix :: string
  e_fetch_ranges :: "string \<Rightarrow> exn + string list"
  e_ban_manager :: bool
  e_cloud_handler :: bool

subsection \<open>The world\<close>

record ban_entry =
  be_expires :: rat
  be_reason :: string
  be_at :: rat

record 'r world =
  w_now :: rat
  w_log :: "(log_method \<times> string) list"
  w_agent :: "agent_event list"
  w_metrics :: "metric list"
  w_hooks :: "block_payload list"
  w_errors :: "(string \<times> exn) list"
  w_calls :: "(string \<times> string \<times> string \<times> string) list"
  w_rate :: "(string, rat list) omap"
  w_sha :: "string option"
  w_bans :: "(string, ban_entry) omap"
  w_sus :: "(string, (string, int) omap) omap"
  w_usage :: "(string, (string, rat list) omap) omap"
  w_returns :: "(string, (string, rat list) omap) omap"
  w_by_ip :: "(string, rat list) omap"
  w_by_ip_bans :: "(string, int) omap"
  w_redis_warned :: bool
  w_cloud_refresh :: rat
  w_clouds :: "(string, string list) omap"
  w_cloud_store :: "(string, string list \<times> rat option) omap"
  w_cloud_regions :: "(string, (string, string) omap) omap"
  w_cloud_updated :: "(string, rat) omap"
  w_req :: req_state
  w_redis :: 'r

type_synonym ('r, 'a) eff = "'r world \<Rightarrow> (exn + 'a) \<times> 'r world"

subsection \<open>Effect combinators\<close>

definition ret :: "'a \<Rightarrow> ('r, 'a) eff" where
  "ret x = (\<lambda>w. (Inr x, w))"

definition raise_exn :: "exn \<Rightarrow> ('r, 'a) eff" where
  "raise_exn e = (\<lambda>w. (Inl e, w))"

text \<open>\<open>bnd m f\<close>: await \<open>m\<close>, go on with its value; a throw skips the rest.\<close>

definition bnd :: "('r, 'a) eff \<Rightarrow> ('a \<Rightarrow> ('r, 'b) eff) \<Rightarrow> ('r, 'b) eff" where
  "bnd m f = (\<lambda>w. case m w of (Inl e, w') \<Rightarrow> (Inl e, w') | (Inr x, w') \<Rightarrow> f x w')"

definition thn :: "('r, unit) eff \<Rightarrow> ('r, 'b) eff \<Rightarrow> ('r, 'b) eff" where
  "thn m n = bnd m (\<lambda>_. n)"

text \<open>\<open>try m catch (e) h e\<close>.\<close>

definition try_catch :: "('r, 'a) eff \<Rightarrow> (exn \<Rightarrow> ('r, 'a) eff) \<Rightarrow> ('r, 'a) eff" where
  "try_catch m h = (\<lambda>w. case m w of (Inl e, w') \<Rightarrow> h e w' | (Inr x, w') \<Rightarrow> (Inr x, w'))"

definition gets :: "('r world \<Rightarrow> 'a) \<Rightarrow> ('r, 'a) eff" where
  "gets f = (\<lambda>w. (Inr (f w), w))"

definition modify :: "('r world \<Rightarrow> 'r world) \<Rightarrow> ('r, unit) eff" where
  "modify f = (\<lambda>w. (Inr (), f w))"

definition when_eff :: "bool \<Rightarrow> ('r, unit) eff \<Rightarrow> ('r, unit) eff" where
  "when_eff b m = (if b then m else ret ())"

definition lift_res :: "exn + 'a \<Rightarrow> ('r, 'a) eff" where
  "lift_res r = (\<lambda>w. (r, w))"

text \<open>Run a Redis client call against the server's state.\<close>

definition on_redis :: "('r \<Rightarrow> (exn + 'a) \<times> 'r) \<Rightarrow> ('r, 'a) eff" where
  "on_redis f = (\<lambda>w. let (x, s) = f (w_redis w) in (x, w\<lparr>w_redis := s\<rparr>))"

text \<open>
  \<open>for (const x of xs) { const r = await f(x); if (r !== null) return r; } return null;\<close>
\<close>

fun first_some :: "('x \<Rightarrow> ('r, 'a option) eff) \<Rightarrow> 'x list \<Rightarrow> ('r, 'a option) eff" where
  "first_some f [] = ret None"
| "first_some f (x # xs) =
     bnd (f x) (\<lambda>r. case r of None \<Rightarrow> first_some f xs | Some y \<Rightarrow> ret (Some y))"

text \<open>\<open>for (const x of xs) await f(x);\<close>\<close>

fun for_each :: "('x \<Rightarrow> ('r, unit) eff) \<Rightarrow> 'x list \<Rightarrow> ('r, unit) eff" where
  "for_each f [] = ret ()"
| "for_each f (x # xs) = thn (f x) (for_each f xs)"

named_theorems eff_simps "unfolding of the effect combinators on a world"

lemma ret_run [eff_simps]: "ret x w = (Inr x, w)"
  by (simp add: ret_def)

lemma raise_run [eff_simps]: "raise_exn e w = (Inl e, w)"
  by (simp add: raise_exn_def)

lemma bnd_run [eff_simps]:
  "bnd m f w = (case m w of (Inl e, w') \<Rightarrow> (Inl e, w') | (Inr x, w') \<Rightarrow> f x w')"
  by (simp add: bnd_def)

lemma thn_run [eff_simps]:
  "thn m n w = (case m w of (Inl e, w') \<Rightarrow> (Inl e, w') | (Inr _, w') \<Rightarrow> n w')"
  by (simp add: thn_def bnd_def)

lemma try_catch_run [eff_simps]:
  "try_catch m h w = (case m w of (Inl e, w') \<Rightarrow> h e w' | (Inr x, w') \<Rightarrow> (Inr x, w'))"
  by (simp add: try_catch_def)

lemma gets_run [simp, eff_simps]: "gets f w = (Inr (f w), w)"
  by (simp add: gets_def)

lemma modify_run [simp, eff_simps]: "modify f w = (Inr (), f w)"
  by (simp add: modify_def)

lemma when_eff_run [eff_simps]: "when_eff b m w = (if b then m w else (Inr (), w))"
  by (simp add: when_eff_def ret_run)

lemma lift_res_run [eff_simps]: "lift_res r w = (r, w)"
  by (simp add: lift_res_def)

lemma bnd_ret [simp]: "bnd (ret x) f = f x"
  by (simp add: bnd_def ret_def)

lemma bnd_assoc: "bnd (bnd m f) g = bnd m (\<lambda>x. bnd (f x) g)"
  by (rule ext) (simp add: bnd_def split: prod.splits sum.splits)

subsection \<open>Reasoning about effects\<close>

text \<open>
  \<open>keeps P m\<close>: whatever \<open>m\<close> does, error or not, it carries \<open>P\<close> from the world before to the
  world after. \<open>returns Q m\<close>: every value \<open>m\<close> returns satisfies \<open>Q\<close>. \<open>never_raises m\<close>:
  \<open>m\<close> always returns a value. The rules compose them over the combinators, so that a fact
  about a check is one application of \<open>auto intro!\<close> with the collection.
\<close>

definition keeps :: "('r world \<Rightarrow> bool) \<Rightarrow> ('r, 'a) eff \<Rightarrow> bool" where
  "keeps P m \<longleftrightarrow> (\<forall>w. P w \<longrightarrow> P (snd (m w)))"

definition returns :: "('a \<Rightarrow> bool) \<Rightarrow> ('r, 'a) eff \<Rightarrow> bool" where
  "returns Q m \<longleftrightarrow> (\<forall>w x. fst (m w) = Inr x \<longrightarrow> Q x)"

definition never_raises :: "('r, 'a) eff \<Rightarrow> bool" where
  "never_raises m \<longleftrightarrow> (\<forall>w. \<exists>x. fst (m w) = Inr x)"

named_theorems keeps_intros "rules for keeps"
named_theorems returns_intros "rules for returns"
named_theorems calm_intros "rules for never_raises"

lemma keepsI: "(\<And>w. P w \<Longrightarrow> P (snd (m w))) \<Longrightarrow> keeps P m"
  by (simp add: keeps_def)

lemma keepsD: "keeps P m \<Longrightarrow> P w \<Longrightarrow> P (snd (m w))"
  by (simp add: keeps_def)

lemma keeps_ret [keeps_intros, simp]: "keeps P (ret x)"
  by (simp add: keeps_def ret_run)

lemma keeps_raise [keeps_intros, simp]: "keeps P (raise_exn e)"
  by (simp add: keeps_def raise_run)

lemma keeps_gets [keeps_intros, simp]: "keeps P (gets f)"
  by (simp add: keeps_def)

lemma keeps_lift [keeps_intros, simp]: "keeps P (lift_res r)"
  by (simp add: keeps_def lift_res_run)

lemma keeps_modify: "(\<And>w. P w \<Longrightarrow> P (f w)) \<Longrightarrow> keeps P (modify f)"
  by (simp add: keeps_def)

lemma keeps_on_redis:
  "(\<And>w s. P w \<Longrightarrow> P (w\<lparr>w_redis := s\<rparr>)) \<Longrightarrow> keeps P (on_redis f)"
  by (simp add: keeps_def on_redis_def Let_def split: prod.splits)

lemma keeps_bnd [keeps_intros]:
  "keeps P m \<Longrightarrow> (\<And>x. keeps P (f x)) \<Longrightarrow> keeps P (bnd m f)"
  unfolding keeps_def bnd_def by (metis (no_types, lifting) prod.case_eq_if snd_conv sum.case_eq_if)

lemma keeps_thn [keeps_intros]: "keeps P m \<Longrightarrow> keeps P n \<Longrightarrow> keeps P (thn m n)"
  by (simp add: thn_def keeps_bnd)

lemma keeps_try [keeps_intros]:
  "keeps P m \<Longrightarrow> (\<And>e. keeps P (h e)) \<Longrightarrow> keeps P (try_catch m h)"
  unfolding keeps_def try_catch_def
  by (metis (no_types, lifting) prod.case_eq_if snd_conv sum.case_eq_if)

lemma keeps_when [keeps_intros]: "(b \<Longrightarrow> keeps P m) \<Longrightarrow> keeps P (when_eff b m)"
  by (simp add: when_eff_def)

lemma keeps_if [keeps_intros]:
  "(b \<Longrightarrow> keeps P m) \<Longrightarrow> (\<not> b \<Longrightarrow> keeps P n) \<Longrightarrow> keeps P (if b then m else n)"
  by simp

lemma keeps_option [keeps_intros]:
  "(x = None \<Longrightarrow> keeps P m) \<Longrightarrow> (\<And>y. x = Some y \<Longrightarrow> keeps P (f y)) \<Longrightarrow>
   keeps P (case x of None \<Rightarrow> m | Some y \<Rightarrow> f y)"
  by (cases x) simp_all

lemma keeps_prod [keeps_intros]:
  "(\<And>a b. x = (a, b) \<Longrightarrow> keeps P (f a b)) \<Longrightarrow> keeps P (case x of (a, b) \<Rightarrow> f a b)"
  by (cases x) simp

lemma keeps_sum [keeps_intros]:
  "(\<And>e. x = Inl e \<Longrightarrow> keeps P (h e)) \<Longrightarrow> (\<And>y. x = Inr y \<Longrightarrow> keeps P (f y)) \<Longrightarrow>
   keeps P (case x of Inl e \<Rightarrow> h e | Inr y \<Rightarrow> f y)"
  by (cases x) simp_all

lemma keeps_first_some [keeps_intros]: "(\<And>x. keeps P (f x)) \<Longrightarrow> keeps P (first_some f xs)"
  by (induction xs) (auto intro!: keeps_intros)

lemma keeps_for_each [keeps_intros]: "(\<And>x. keeps P (f x)) \<Longrightarrow> keeps P (for_each f xs)"
  by (induction xs) (auto intro!: keeps_intros)

lemma returnsI: "(\<And>w x w'. m w = (Inr x, w') \<Longrightarrow> Q x) \<Longrightarrow> returns Q m"
  by (metis eq_fst_iff returns_def)

lemma returnsD: "returns Q m \<Longrightarrow> m w = (Inr x, w') \<Longrightarrow> Q x"
  by (metis eq_fst_iff returns_def)

lemma returns_ret [returns_intros]: "Q x \<Longrightarrow> returns Q (ret x)"
  by (simp add: returns_def ret_run)

lemma returns_raise [returns_intros, simp]: "returns Q (raise_exn e)"
  by (simp add: returns_def raise_run)

lemma returns_bnd [returns_intros]: "(\<And>x. returns Q (f x)) \<Longrightarrow> returns Q (bnd m f)"
  unfolding returns_def bnd_def by (auto split: prod.splits sum.splits)

lemma returns_thn [returns_intros]: "returns Q n \<Longrightarrow> returns Q (thn m n)"
  by (simp add: thn_def returns_bnd)

lemma returns_try [returns_intros]:
  "returns Q m \<Longrightarrow> (\<And>e. returns Q (h e)) \<Longrightarrow> returns Q (try_catch m h)"
  unfolding returns_def try_catch_def by (auto split: prod.splits sum.splits) (metis fst_conv)+

lemma returns_if [returns_intros]:
  "(b \<Longrightarrow> returns Q m) \<Longrightarrow> (\<not> b \<Longrightarrow> returns Q n) \<Longrightarrow> returns Q (if b then m else n)"
  by simp

lemma returns_option [returns_intros]:
  "(x = None \<Longrightarrow> returns Q m) \<Longrightarrow> (\<And>y. x = Some y \<Longrightarrow> returns Q (f y)) \<Longrightarrow>
   returns Q (case x of None \<Rightarrow> m | Some y \<Rightarrow> f y)"
  by (cases x) simp_all

lemma returns_prod [returns_intros]:
  "(\<And>a b. x = (a, b) \<Longrightarrow> returns Q (f a b)) \<Longrightarrow> returns Q (case x of (a, b) \<Rightarrow> f a b)"
  by (cases x) simp

lemma returns_first_some [returns_intros]:
  "Q None \<Longrightarrow> (\<And>x. returns Q (f x)) \<Longrightarrow> returns Q (first_some f xs)"
proof (induction xs)
  case Nil
  then show ?case by (simp add: returns_ret)
next
  case (Cons x xs)
  have "returns Q (first_some f xs)" by (rule Cons.IH [OF Cons.prems])
  with Cons.prems(2) [of x] show ?case
    unfolding returns_def
    by (auto simp: bnd_run ret_run split: prod.splits sum.splits option.splits)
       (metis fst_conv snd_conv)+
qed

lemma never_raisesD: "never_raises m \<Longrightarrow> \<exists>x w'. m w = (Inr x, w')"
  by (metis never_raises_def prod.collapse)

lemma calm_ret [calm_intros, simp]: "never_raises (ret x)"
  by (simp add: never_raises_def ret_run)

lemma calm_gets [calm_intros, simp]: "never_raises (gets f)"
  by (simp add: never_raises_def)

lemma calm_modify [calm_intros, simp]: "never_raises (modify f)"
  by (simp add: never_raises_def)

lemma calm_bnd [calm_intros]:
  "never_raises m \<Longrightarrow> (\<And>x. never_raises (f x)) \<Longrightarrow> never_raises (bnd m f)"
  by (auto simp: never_raises_def bnd_run split: prod.splits sum.splits)
     (metis Inl_Inr_False fst_conv)

lemma calm_thn [calm_intros]: "never_raises m \<Longrightarrow> never_raises n \<Longrightarrow> never_raises (thn m n)"
  by (simp add: thn_def calm_bnd)

lemma calm_when [calm_intros]: "(b \<Longrightarrow> never_raises m) \<Longrightarrow> never_raises (when_eff b m)"
  by (simp add: when_eff_def)

lemma calm_try [calm_intros]: "(\<And>e. never_raises (h e)) \<Longrightarrow> never_raises (try_catch m h)"
  by (auto simp: never_raises_def try_catch_run split: prod.splits sum.splits)

lemma calm_if [calm_intros]:
  "(b \<Longrightarrow> never_raises m) \<Longrightarrow> (\<not> b \<Longrightarrow> never_raises n) \<Longrightarrow>
   never_raises (if b then m else n)"
  by simp

lemma calm_option [calm_intros]:
  "(x = None \<Longrightarrow> never_raises m) \<Longrightarrow> (\<And>y. x = Some y \<Longrightarrow> never_raises (f y)) \<Longrightarrow>
   never_raises (case x of None \<Rightarrow> m | Some y \<Rightarrow> f y)"
  by (cases x) simp_all

text \<open>\<open>yields Q m\<close>: \<open>m\<close> always returns a value, and it satisfies \<open>Q\<close>.\<close>

definition yields :: "('a \<Rightarrow> bool) \<Rightarrow> ('r, 'a) eff \<Rightarrow> bool" where
  "yields Q m \<longleftrightarrow> (\<forall>w. \<exists>x. fst (m w) = Inr x \<and> Q x)"

named_theorems yields_intros "rules for yields"

lemma yieldsD: "yields Q m \<Longrightarrow> \<exists>x. fst (m w) = Inr x \<and> Q x"
  by (simp add: yields_def)

lemma yields_ret [yields_intros]: "Q x \<Longrightarrow> yields Q (ret x)"
  by (simp add: yields_def ret_run)

lemma yields_bnd_calm:
  "never_raises m \<Longrightarrow> (\<And>x. yields Q (f x)) \<Longrightarrow> yields Q (bnd m f)"
  by (auto simp: never_raises_def yields_def bnd_run split: prod.splits sum.splits)
     (metis Inl_Inr_False fst_conv)

lemma yields_thn [yields_intros]: "never_raises m \<Longrightarrow> yields Q n \<Longrightarrow> yields Q (thn m n)"
  by (simp add: thn_def yields_bnd_calm)

lemma yields_bnd: "yields P m \<Longrightarrow> (\<And>x. P x \<Longrightarrow> yields Q (f x)) \<Longrightarrow> yields Q (bnd m f)"
  by (auto simp: yields_def bnd_run split: prod.splits sum.splits) (metis Inl_Inr_False fst_conv sum.inject(2))+

lemma yields_lift: "r = Inr x \<Longrightarrow> Q x \<Longrightarrow> yields Q (lift_res r)"
  by (simp add: yields_def lift_res_run)

lemma yields_if [yields_intros]:
  "(b \<Longrightarrow> yields Q m) \<Longrightarrow> (\<not> b \<Longrightarrow> yields Q n) \<Longrightarrow> yields Q (if b then m else n)"
  by simp

lemma yields_option [yields_intros]:
  "(x = None \<Longrightarrow> yields Q m) \<Longrightarrow> (\<And>y. x = Some y \<Longrightarrow> yields Q (f y)) \<Longrightarrow>
   yields Q (case x of None \<Rightarrow> m | Some y \<Rightarrow> f y)"
  by (cases x) simp_all

lemma yields_calm: "yields Q m \<Longrightarrow> never_raises m"
  by (auto simp: yields_def never_raises_def)

lemma calm_prod [calm_intros]:
  "(\<And>a b. x = (a, b) \<Longrightarrow> never_raises (f a b)) \<Longrightarrow> never_raises (case x of (a, b) \<Rightarrow> f a b)"
  by (cases x) simp

lemma calm_for_each [calm_intros]: "(\<And>x. never_raises (f x)) \<Longrightarrow> never_raises (for_each f xs)"
  by (induction xs) (auto intro!: calm_intros)

lemma calm_first_some [calm_intros]: "(\<And>x. never_raises (f x)) \<Longrightarrow> never_raises (first_some f xs)"
  by (induction xs) (auto intro!: calm_intros)

end
