(* ===== verification/Guard_Logging.thy ===== *)
theory Guard_Logging
  imports Guard_Effects
begin

section \<open>Logging, block hooks, agent events (utils.ts, core/block-events.ts, core/events)\<close>

text \<open>
  The reporting side of every check: the logger, \<open>logActivity\<close> with its block stash, the
  \<open>on_block\<close> hook, the security event bus and the direct agent events. The theorems say when
  a report can raise (it never does) and what of the engine's state it may touch.
\<close>

subsection \<open>The logger\<close>

definition log_line :: "log_method \<Rightarrow> string \<Rightarrow> ('r, unit) eff" where
  "log_line m s = modify (\<lambda>w. w\<lparr>w_log := w_log w @ [(m, s)]\<rparr>)"

subsection \<open>sanitizeForLog\<close>

definition hex_digit :: "nat \<Rightarrow> char" where
  "hex_digit n = (if n < 10 then char_of (48 + n) else char_of (87 + n))"

text \<open>\<open>code.toString(16).padStart(4, '0')\<close> for a code below 256.\<close>

definition hex4 :: "nat \<Rightarrow> string" where
  "hex4 n = [CHR ''0'', CHR ''0'', hex_digit (n div 16), hex_digit (n mod 16)]"

definition replace_char :: "char \<Rightarrow> string \<Rightarrow> string \<Rightarrow> string" where
  "replace_char c r s = concat (map (\<lambda>d. if d = c then r else [d]) s)"

definition sanitize_char :: "char \<Rightarrow> string" where
  "sanitize_char c =
     (let n = (of_char c :: nat) in if 32 \<le> n \<and> n \<le> 126 then [c] else [CHR 0x5C, CHR ''u''] @ hex4 n)"

definition sanitizeForLog :: "string \<Rightarrow> string" where
  "sanitizeForLog s =
     concat (map sanitize_char
       (replace_char (CHR 0x09) [CHR 0x5C, CHR ''t''] (replace_char (CHR 0x0D) [CHR 0x5C, CHR ''r'']
         (replace_char (CHR 0x0A) [CHR 0x5C, CHR ''n''] s))))"

lemma hex_digit_printable:
  "n < 16 \<Longrightarrow> 32 \<le> (of_char (hex_digit n) :: nat) \<and> (of_char (hex_digit n) :: nat) \<le> 126"
  by (auto simp: hex_digit_def)

lemma sanitize_char_printable:
  "c \<in> set (sanitize_char d) \<Longrightarrow> 32 \<le> (of_char c :: nat) \<and> (of_char c :: nat) \<le> 126"
proof -
  have "of_char d div 16 < (16 :: nat)"
    using nat_of_char_less_256 [of d] by (simp add: less_mult_imp_div_less)
  moreover assume "c \<in> set (sanitize_char d)"
  ultimately show ?thesis
    using hex_digit_printable [of "of_char d div 16"] hex_digit_printable [of "of_char d mod 16"]
    by (auto simp: sanitize_char_def Let_def hex4_def split: if_splits)
qed

subsection \<open>on_block hooks\<close>

definition on_block_excluded :: "string list" where
  "on_block_excluded = [''custom_request'', ''custom_validators'', ''https_enforcement'']"

definition build_block_payload ::
  "'r env \<Rightarrow> request \<Rightarrow> string \<Rightarrow> string \<Rightarrow> string \<Rightarrow> bool \<Rightarrow> int option \<Rightarrow> req_state \<Rightarrow> block_payload"
where
  "build_block_payload E rq check reason trigger passive st rs =
     \<lparr>bp_check = check, bp_reason = reason, bp_trigger = trigger, bp_passive = passive,
      bp_ip = (case st_client_ip rs of
                 Some ip \<Rightarrow> if ip = [] then host_or_unknown rq else ip
               | None \<Rightarrow> host_or_unknown rq),
      bp_path = e_redact_url E (rq_path rq), bp_method = rq_method rq, bp_status = st\<rparr>"

text \<open>
  \<open>invokeBlockHook\<close>: the call is recorded in \<open>w_hooks\<close>; a hook that throws is logged.
\<close>

definition invoke_block_hook ::
  "(request \<Rightarrow> block_payload \<Rightarrow> exn option) option \<Rightarrow> request \<Rightarrow> block_payload \<Rightarrow> ('r, unit) eff"
where
  "invoke_block_hook hook rq p =
     (case hook of
        None \<Rightarrow> ret ()
      | Some h \<Rightarrow>
          thn (modify (\<lambda>w. w\<lparr>w_hooks := w_hooks w @ [p]\<rparr>))
            (case h rq p of
               None \<Rightarrow> ret ()
             | Some e \<Rightarrow> log_line LogError (''on_block hook raised: '' @ exn_str e)))"

definition fire_block_hook ::
  "'r env \<Rightarrow> (request \<Rightarrow> block_payload \<Rightarrow> exn option) option \<Rightarrow> request \<Rightarrow> string \<Rightarrow> string \<Rightarrow> string
     \<Rightarrow> bool \<Rightarrow> int option \<Rightarrow> ('r, unit) eff"
where
  "fire_block_hook E hook rq check reason trigger passive st =
     (if hook = None \<or> check \<in> set on_block_excluded then ret ()
      else bnd (gets w_req) (\<lambda>rs.
        invoke_block_hook hook rq (build_block_payload E rq check reason trigger passive st rs)))"

subsection \<open>logActivity\<close>

text \<open>The \<open>hooks\<close> argument: the check's name, the hook and the muted check names.\<close>

type_synonym log_hooks =
  "string \<times> (request \<Rightarrow> block_payload \<Rightarrow> exn option) option \<times> string list option"

datatype log_type = LogRequest | LogSuspicious | LogOther string

definition level_method :: "log_level \<Rightarrow> log_method" where
  "level_method l = (case l of WARNING \<Rightarrow> LogWarn | CRITICAL \<Rightarrow> LogError | DEBUG \<Rightarrow> LogDebug
     | ERROR \<Rightarrow> LogError | INFO \<Rightarrow> LogInfo)"

definition activity_message :: "request \<Rightarrow> log_type \<Rightarrow> string \<Rightarrow> bool \<Rightarrow> string \<Rightarrow> string" where
  "activity_message rq t reason passive trigger =
     (let ip = host_or_unknown rq;
          url = sanitizeForLog (rq_path rq);
          ua = sanitizeForLog (header_or [] rq ''user-agent'')
      in case t of
           LogRequest \<Rightarrow> ''Request from '' @ ip @ '': '' @ rq_method rq @ '' '' @ url
             @ '' [UA: '' @ ua @ '']''
         | LogSuspicious \<Rightarrow> (if passive then ''[PASSIVE MODE]'' else [])
             @ '' Suspicious request from '' @ ip @ '': '' @ rq_method rq @ '' '' @ url @ '' - ''
             @ reason @ (if trigger = [] then [] else '' | Trigger: '' @ trigger)
         | LogOther n \<Rightarrow> n @ '' from '' @ ip @ '': '' @ rq_method rq @ '' '' @ url @ '' - '' @ reason)"

definition log_hook_part ::
  "'r env \<Rightarrow> request \<Rightarrow> log_type \<Rightarrow> string \<Rightarrow> bool \<Rightarrow> string \<Rightarrow> log_hooks option \<Rightarrow> ('r, unit) eff"
where
  "log_hook_part E rq t reason passive trigger hooks =
     (case hooks of
        None \<Rightarrow> ret ()
      | Some (name, hook, muted) \<Rightarrow>
          if t \<noteq> LogSuspicious then ret ()
          else if \<not> passive then
            modify (\<lambda>w. w\<lparr>w_req := (w_req w)\<lparr>st_stash := Some (reason, trigger)\<rparr>\<rparr>)
          else if hook = None then ret ()
          else if name \<noteq> [] \<and> (case muted of None \<Rightarrow> False | Some ms \<Rightarrow> name \<in> set ms) then ret ()
          else fire_block_hook E hook rq name reason trigger True None)"

definition logActivity ::
  "'r env \<Rightarrow> request \<Rightarrow> log_type \<Rightarrow> string \<Rightarrow> bool \<Rightarrow> string \<Rightarrow> log_level option \<Rightarrow> log_hooks option
     \<Rightarrow> ('r, unit) eff"
where
  "logActivity E rq t reason passive trigger level hooks =
     thn (log_hook_part E rq t reason passive trigger hooks)
       (case level of
          None \<Rightarrow> ret ()
        | Some l \<Rightarrow> log_line (level_method l) (activity_message rq t reason passive trigger))"

subsection \<open>on_error hook\<close>

definition invoke_error_hook ::
  "(string \<Rightarrow> exn \<Rightarrow> exn option) option \<Rightarrow> string \<Rightarrow> exn \<Rightarrow> ('r, unit) eff"
where
  "invoke_error_hook hook stage e =
     (case hook of
        None \<Rightarrow> ret ()
      | Some h \<Rightarrow>
          thn (modify (\<lambda>w. w\<lparr>w_errors := w_errors w @ [(stage, e)]\<rparr>))
            (case h stage e of
               None \<Rightarrow> ret ()
             | Some e' \<Rightarrow> log_line LogError
                 (''on_error hook raised while handling '' @ [CHR 0x27] @ stage @ [CHR 0x27]
                  @ '': '' @ exn_str e')))"

subsection \<open>The security event bus\<close>

text \<open>
  \<open>agentHandler.sendEvent(event)\<close>: a delivered event is appended to \<open>w_agent\<close>; a rejected
  one raises.
\<close>

definition agent_deliver :: "(agent_event \<Rightarrow> exn option) \<Rightarrow> agent_event \<Rightarrow> ('r, unit) eff" where
  "agent_deliver send ev =
     (case send ev of
        None \<Rightarrow> modify (\<lambda>w. w\<lparr>w_agent := w_agent w @ [ev]\<rparr>)
      | Some e \<Rightarrow> raise_exn e)"

text \<open>
  The direct events of the managers (\<open>handlerName\<close> set, most fields absent): dispatch failures
  never propagate.
\<close>

definition send_direct_event ::
  "'r env \<Rightarrow> string \<Rightarrow> string \<Rightarrow> string \<Rightarrow> string \<Rightarrow> string option \<Rightarrow> string option \<Rightarrow> string option
     \<Rightarrow> string \<Rightarrow> string option \<Rightarrow> (string, meta) omap \<Rightarrow> (exn \<Rightarrow> ('r, unit) eff) \<Rightarrow> ('r, unit) eff"
where
  "send_direct_event E ty ip action reason endpoint meth rule handler ua mt on_fail =
     (case e_agent E of
        None \<Rightarrow> ret ()
      | Some send \<Rightarrow>
          try_catch
            (bnd (gets w_now) (\<lambda>now.
               agent_deliver send
                 \<lparr>ev_time = now, ev_type = ty, ev_ip = ip, ev_country = None, ev_ua = ua,
                  ev_action = action, ev_reason = reason, ev_endpoint = endpoint,
                  ev_method = meth, ev_decorator = None, ev_rule = rule, ev_handler = handler,
                  ev_meta = mt\<rparr>))
            on_fail)"

text \<open>\<open>sendAgentEvent\<close> (utils.ts): the shared helper with the \<open>ip_extraction\<close> handler name.\<close>

definition sendAgentEvent ::
  "'r env \<Rightarrow> string \<Rightarrow> string \<Rightarrow> string \<Rightarrow> string \<Rightarrow> request option \<Rightarrow> (string, meta) omap \<Rightarrow> ('r, unit) eff"
where
  "sendAgentEvent E ty ip action reason rq mt =
     send_direct_event E ty ip action reason (map_option rq_path rq) (map_option rq_method rq) None
       ''ip_extraction''
       (case rq of None \<Rightarrow> None | Some q \<Rightarrow> map_of (rq_headers q) ''user-agent'') mt (\<lambda>_. ret ())"

definition meta_str :: "(string, meta) omap \<Rightarrow> string \<Rightarrow> string option" where
  "meta_str mt k = (case map_of mt k of Some (MStr s) \<Rightarrow> Some s | _ \<Rightarrow> None)"

text \<open>
  \<open>SecurityEventBus.sendMiddlewareEvent\<close>; a GeoIP lookup that throws reports to the error hook
  and leaves the country null.
\<close>

definition event_country :: "'r env \<Rightarrow> config \<Rightarrow> request \<Rightarrow> ('r, string option) eff" where
  "event_country E C rq =
     (case e_geo E of
        None \<Rightarrow> ret None
      | Some g \<Rightarrow>
          (case geo_country g (host_or_unknown rq) of
             Inl e \<Rightarrow> thn (invoke_error_hook (c_on_error C) ''geoip'' e) (ret None)
           | Inr c \<Rightarrow> ret c))"

definition sendMiddlewareEvent ::
  "'r env \<Rightarrow> config \<Rightarrow> string \<Rightarrow> request \<Rightarrow> string \<Rightarrow> string \<Rightarrow> (string, meta) omap \<Rightarrow> ('r, unit) eff"
where
  "sendMiddlewareEvent E C ty rq action reason mt =
     (case e_agent E of
        None \<Rightarrow> ret ()
      | Some send \<Rightarrow>
          if \<not> c_agent_events C then ret ()
          else
            try_catch
              (bnd (event_country E C rq) (\<lambda>country. bnd (gets w_now) (\<lambda>now.
                 agent_deliver send
                   \<lparr>ev_time = now, ev_type = ty, ev_ip = host_or_unknown rq,
                    ev_country = country,
                    ev_ua = map_of (rq_headers rq) ''user-agent'',
                    ev_action = action, ev_reason = reason,
                    ev_endpoint = Some (rq_path rq), ev_method = Some (rq_method rq),
                    ev_decorator = meta_str mt ''decoratorType'', ev_rule = meta_str mt ''ruleType'',
                    ev_handler = ''middleware'', ev_meta = mt\<rparr>)))
              (\<lambda>e. thn (log_line LogError (''Failed to send security event: '' @ exn_str e))
                     (invoke_error_hook (c_on_error C) ''transport_send'' e)))"

definition sendHttpsViolationEvent ::
  "'r env \<Rightarrow> config \<Rightarrow> request \<Rightarrow> bool \<Rightarrow> ('r, unit) eff"
where
  "sendHttpsViolationEvent E C rq route_specific =
     (let url = rq_replace_scheme rq ''https''
      in if route_specific then
           sendMiddlewareEvent E C ''decorator_violation'' rq ''https_redirect''
             ''Route requires HTTPS but request was HTTP''
             [(''decoratorType'', MStr ''authentication''), (''violationType'', MStr ''require_https''),
              (''redirectUrl'', MStr url)]
         else
           sendMiddlewareEvent E C ''https_enforced'' rq ''https_redirect''
             ''HTTP request redirected to HTTPS for security''
             [(''originalScheme'', MStr (rq_scheme rq)), (''redirectUrl'', MStr url)])"

subsection \<open>Event filter and metrics\<close>

definition isEventAllowed :: "string list \<Rightarrow> string \<Rightarrow> bool" where
  "isEventAllowed muted ty \<longleftrightarrow> ty \<notin> set muted"

definition sendMetric ::
  "'r env \<Rightarrow> config \<Rightarrow> string \<Rightarrow> rat \<Rightarrow> (string, string) omap \<Rightarrow> ('r, unit) eff"
where
  "sendMetric E C ty v tags =
     (if e_agent E = None \<or> \<not> c_agent_metrics C then ret ()
      else
        bnd (gets w_now) (\<lambda>now.
          let m = \<lparr>mt_time = now, mt_type = ty, mt_value = v, mt_tags = tags\<rparr>
          in case e_agent_metric E m of
               None \<Rightarrow> modify (\<lambda>w. w\<lparr>w_metrics := w_metrics w @ [m]\<rparr>)
             | Some e \<Rightarrow> log_line LogError (''Failed to send metric: '' @ exn_str e)))"

definition collectRequestMetrics ::
  "'r env \<Rightarrow> config \<Rightarrow> request \<Rightarrow> rat \<Rightarrow> int \<Rightarrow> ('r, unit) eff"
where
  "collectRequestMetrics E C rq time st =
     (if e_agent E = None \<or> \<not> c_agent_metrics C then ret ()
      else
        (let base = [(''endpoint'', rq_path rq), (''method'', rq_method rq)];
             tags = base @ [(''status'', show_int st)]
         in thn (sendMetric E C ''response_time'' time tags)
              (thn (sendMetric E C ''request_count'' 1 base)
                 (when_eff (st \<ge> 400) (sendMetric E C ''error_rate'' 1 tags)))))"

subsection \<open>Reporting never raises and leaves the managers alone\<close>

text \<open>
  \<open>same_managers\<close>: what reporting may change is the log, the delivered events, the metrics, the
  hook calls and the stash of the request. A property of the rest (\<open>unaffected\<close>) is kept by
  every reporting operation.
\<close>

definition same_managers :: "'r world \<Rightarrow> 'r world \<Rightarrow> bool" where
  "same_managers w w' \<longleftrightarrow>
     w_now w' = w_now w \<and> w_calls w' = w_calls w \<and> w_rate w' = w_rate w \<and> w_sha w' = w_sha w \<and>
     w_bans w' = w_bans w \<and> w_sus w' = w_sus w \<and> w_usage w' = w_usage w \<and>
     w_returns w' = w_returns w \<and> w_by_ip w' = w_by_ip w \<and> w_by_ip_bans w' = w_by_ip_bans w \<and>
     w_redis_warned w' = w_redis_warned w \<and> w_cloud_refresh w' = w_cloud_refresh w \<and>
     w_clouds w' = w_clouds w \<and> w_cloud_store w' = w_cloud_store w \<and>
     w_cloud_regions w' = w_cloud_regions w \<and> w_cloud_updated w' = w_cloud_updated w \<and>
     w_redis w' = w_redis w \<and>
     (w_req w')\<lparr>st_stash := None\<rparr> = (w_req w)\<lparr>st_stash := None\<rparr>"

definition unaffected :: "('r world \<Rightarrow> bool) \<Rightarrow> bool" where
  "unaffected P \<longleftrightarrow> (\<forall>w w'. same_managers w w' \<longrightarrow> P w \<longrightarrow> P w')"

lemma same_managers_refl [simp]: "same_managers w w"
  by (simp add: same_managers_def)

lemma unaffectedD: "unaffected P \<Longrightarrow> same_managers w w' \<Longrightarrow> P w \<Longrightarrow> P w'"
  unfolding unaffected_def by blast

lemma unaffected_same_managers [simp]: "unaffected (same_managers w0)"
  by (simp add: unaffected_def same_managers_def)

lemma unaffected_conj:
  "unaffected P \<Longrightarrow> unaffected Q \<Longrightarrow> unaffected (\<lambda>w. P w \<and> Q w)"
  by (auto simp: unaffected_def)

named_theorems report_intros "rules for keeps about reporting operations"

lemma keeps_log [report_intros]: "unaffected P \<Longrightarrow> keeps P (log_line m s)"
  unfolding log_line_def
  by (rule keeps_modify, erule unaffectedD) (simp_all add: same_managers_def)

lemma keeps_hook_call: "unaffected P \<Longrightarrow> keeps P (modify (\<lambda>w. w\<lparr>w_hooks := f w\<rparr>))"
  by (rule keeps_modify, erule unaffectedD) (simp_all add: same_managers_def)

lemma keeps_error_call: "unaffected P \<Longrightarrow> keeps P (modify (\<lambda>w. w\<lparr>w_errors := f w\<rparr>))"
  by (rule keeps_modify, erule unaffectedD) (simp_all add: same_managers_def)

lemma keeps_stash: "unaffected P \<Longrightarrow> keeps P (modify (\<lambda>w. w\<lparr>w_req := (w_req w)\<lparr>st_stash := s\<rparr>\<rparr>))"
  by (rule keeps_modify, erule unaffectedD) (simp_all add: same_managers_def)

lemma keeps_agent_append: "unaffected P \<Longrightarrow> keeps P (modify (\<lambda>w. w\<lparr>w_agent := f w\<rparr>))"
  by (rule keeps_modify, erule unaffectedD) (simp_all add: same_managers_def)

lemma keeps_metric_append: "unaffected P \<Longrightarrow> keeps P (modify (\<lambda>w. w\<lparr>w_metrics := f w\<rparr>))"
  by (rule keeps_modify, erule unaffectedD) (simp_all add: same_managers_def)

lemmas keeps_reports = keeps_hook_call keeps_error_call keeps_stash keeps_agent_append
  keeps_metric_append

lemma calm_log [calm_intros]: "never_raises (log_line m s)"
  by (simp add: log_line_def)

lemma keeps_fire [report_intros]: "unaffected P \<Longrightarrow> keeps P (fire_block_hook E h rq c r t p st)"
  by (auto simp: fire_block_hook_def invoke_block_hook_def intro!: keeps_intros report_intros keeps_reports)

lemma calm_fire [calm_intros]: "never_raises (fire_block_hook E h rq c r t p st)"
  by (auto simp: fire_block_hook_def invoke_block_hook_def intro!: calm_intros)

lemma keeps_activity [report_intros]: "unaffected P \<Longrightarrow> keeps P (logActivity E rq t r p tr l hs)"
  unfolding logActivity_def log_hook_part_def by (intro keeps_intros report_intros keeps_reports)

lemma calm_activity [calm_intros]: "never_raises (logActivity E rq t r p tr l hs)"
  by (auto simp: logActivity_def log_hook_part_def intro!: calm_intros split: prod.splits)

lemma keeps_deliver [report_intros]: "unaffected P \<Longrightarrow> keeps P (agent_deliver s ev)"
  by (auto simp: agent_deliver_def intro!: keeps_intros report_intros keeps_reports)

lemma keeps_direct [report_intros]:
  "unaffected P \<Longrightarrow> (\<And>e. keeps P (h e)) \<Longrightarrow>
   keeps P (send_direct_event E ty ip a r ep m ru hn ua mt h)"
  unfolding send_direct_event_def by (intro keeps_intros report_intros)

lemma calm_direct [calm_intros]:
  "(\<And>e. never_raises (h e)) \<Longrightarrow> never_raises (send_direct_event E ty ip a r ep m ru hn ua mt h)"
  by (auto simp: send_direct_event_def intro!: calm_intros)

lemma keeps_agent_event [report_intros]: "unaffected P \<Longrightarrow> keeps P (sendAgentEvent E ty ip a r q mt)"
  unfolding sendAgentEvent_def by (intro keeps_intros report_intros)

lemma calm_agent_event [calm_intros]: "never_raises (sendAgentEvent E ty ip a r q mt)"
  by (auto simp: sendAgentEvent_def intro!: calm_intros)

lemma keeps_error_hook [report_intros]: "unaffected P \<Longrightarrow> keeps P (invoke_error_hook h st e)"
  by (auto simp: invoke_error_hook_def intro!: keeps_intros report_intros keeps_reports)

lemma calm_error_hook [calm_intros]: "never_raises (invoke_error_hook h st e)"
  by (auto simp: invoke_error_hook_def intro!: calm_intros)

lemma keeps_event [report_intros]: "unaffected P \<Longrightarrow> keeps P (sendMiddlewareEvent E C ty rq a r mt)"
  unfolding sendMiddlewareEvent_def event_country_def by (intro keeps_intros report_intros)

lemma calm_event [calm_intros]: "never_raises (sendMiddlewareEvent E C ty rq a r mt)"
  by (auto simp: sendMiddlewareEvent_def intro!: calm_intros)

lemma keeps_https_event [report_intros]: "unaffected P \<Longrightarrow> keeps P (sendHttpsViolationEvent E C rq b)"
  unfolding sendHttpsViolationEvent_def Let_def by (intro keeps_intros report_intros)

lemma calm_https_event [calm_intros]: "never_raises (sendHttpsViolationEvent E C rq b)"
  by (auto simp: sendHttpsViolationEvent_def Let_def intro!: calm_intros)

lemma keeps_metrics [report_intros]: "unaffected P \<Longrightarrow> keeps P (collectRequestMetrics E C rq t s)"
  unfolding collectRequestMetrics_def sendMetric_def Let_def
  by (intro keeps_intros report_intros keeps_reports)

lemma calm_metrics [calm_intros]: "never_raises (collectRequestMetrics E C rq t s)"
  by (auto simp: collectRequestMetrics_def sendMetric_def Let_def intro!: calm_intros)

end
