(* ===== verification/Redis_Manager.thy ===== *)
theory Redis_Manager
  imports Guard_Logging
begin

section \<open>RedisManager (handlers/redis.ts)\<close>

text \<open>
  The key-value operations the managers use. \<open>e_redis E\<close> is \<open>None\<close> when a manager has no
  Redis handler, \<open>Some None\<close> when the handler lost its client, \<open>Some (Some c)\<close> with a live
  client \<open>c\<close>. Every failure of a client call is logged, reported as an agent event, and
  rethrown as a \<open>GuardRedisError\<close>, the one error the fail-open policy recognises.
\<close>

definition redisRetryStrategy :: "int \<Rightarrow> int" where
  "redisRetryStrategy retries = min (retries * 200) 2000"

definition sendRedisEvent ::
  "'r env \<Rightarrow> string \<Rightarrow> string \<Rightarrow> string \<Rightarrow> (string, meta) omap \<Rightarrow> ('r, unit) eff"
where
  "sendRedisEvent E ty action reason mt =
     send_direct_event E ty ''system'' action reason None None None ''redis'' None mt (\<lambda>_. ret ())"

definition redis_key :: "'r env \<Rightarrow> string \<Rightarrow> string \<Rightarrow> string" where
  "redis_key E ns key = e_redis_prefix E @ ns @ '':'' @ key"

definition redis_failed :: exn where
  "redis_failed = RedisErr 503 ''Redis operation failed''"

definition reportOperationError :: "'r env \<Rightarrow> string \<Rightarrow> exn \<Rightarrow> ('r, 'a) eff" where
  "reportOperationError E op e =
     thn (log_line LogError (''Redis '' @ op @ '' failed: '' @ exn_str e))
      (thn (sendRedisEvent E ''redis_error'' ''operation_failed''
              (''Redis operation failed: '' @ exn_str e)
              [(''errorType'', MStr ''operation_error''), (''operation'', MStr op)])
        (raise_exn redis_failed))"

text \<open>The shape shared by the operations: null without a client, else the guarded call.\<close>

definition redis_op ::
  "'r env \<Rightarrow> string \<Rightarrow> ('r redis_client \<Rightarrow> ('r, 'a) eff) \<Rightarrow> ('r, 'a option) eff"
where
  "redis_op E op f =
     (case e_redis E of
        Some (Some c) \<Rightarrow>
          try_catch (bnd (f c) (\<lambda>x. ret (Some x))) (\<lambda>e. reportOperationError E op e)
      | _ \<Rightarrow> ret None)"

definition redis_getKey :: "'r env \<Rightarrow> string \<Rightarrow> string \<Rightarrow> ('r, string option) eff" where
  "redis_getKey E ns key =
     bnd (redis_op E ''get'' (\<lambda>c. on_redis (cl_get c (redis_key E ns key))))
       (\<lambda>r. ret (case r of None \<Rightarrow> None | Some v \<Rightarrow> v))"

text \<open>\<open>setKey\<close>: a positive ttl writes with \<open>SETEX\<close>, otherwise \<open>SET\<close>.\<close>

definition redis_setKey ::
  "'r env \<Rightarrow> string \<Rightarrow> string \<Rightarrow> string \<Rightarrow> int option \<Rightarrow> ('r, bool option) eff"
where
  "redis_setKey E ns key v ttl =
     redis_op E ''set'' (\<lambda>c.
       thn (case ttl of
              Some t \<Rightarrow> if t > 0 then on_redis (cl_setex c (redis_key E ns key) t v)
                        else on_redis (cl_set c (redis_key E ns key) v)
            | None \<Rightarrow> on_redis (cl_set c (redis_key E ns key) v))
         (ret True))"

definition redis_incr :: "'r env \<Rightarrow> string \<Rightarrow> string \<Rightarrow> int option \<Rightarrow> ('r, int option) eff" where
  "redis_incr E ns key ttl =
     redis_op E ''incr'' (\<lambda>c.
       bnd (on_redis (cl_incr c (redis_key E ns key))) (\<lambda>n.
         thn (case ttl of
                Some t \<Rightarrow> if t > 0 then bnd (on_redis (cl_expire c (redis_key E ns key) t)) (\<lambda>_. ret ())
                          else ret ()
              | None \<Rightarrow> ret ())
           (ret n)))"

definition redis_exists :: "'r env \<Rightarrow> string \<Rightarrow> string \<Rightarrow> ('r, bool option) eff" where
  "redis_exists E ns key =
     redis_op E ''exists'' (\<lambda>c.
       bnd (on_redis (cl_exists c (redis_key E ns key))) (\<lambda>n. ret (n > 0)))"

definition redis_delete :: "'r env \<Rightarrow> string \<Rightarrow> string \<Rightarrow> ('r, int option) eff" where
  "redis_delete E ns key =
     redis_op E ''delete'' (\<lambda>c. on_redis (cl_del c [redis_key E ns key]))"

definition redis_keys :: "'r env \<Rightarrow> string \<Rightarrow> ('r, string list option) eff" where
  "redis_keys E pat = redis_op E ''keys'' (\<lambda>c. on_redis (cl_keys c (e_redis_prefix E @ pat)))"

definition redis_deletePattern :: "'r env \<Rightarrow> string \<Rightarrow> ('r, int option) eff" where
  "redis_deletePattern E pat =
     redis_op E ''deletePattern'' (\<lambda>c.
       bnd (on_redis (cl_keys c (e_redis_prefix E @ pat))) (\<lambda>ks.
         if ks = [] then ret 0 else on_redis (cl_del c ks)))"

subsection \<open>Failures are GuardRedisErrors; a missing client is null\<close>

text \<open>\<open>raises_only p m\<close>: every error \<open>m\<close> throws satisfies \<open>p\<close>.\<close>

definition raises_only :: "(exn \<Rightarrow> bool) \<Rightarrow> ('r, 'a) eff \<Rightarrow> bool" where
  "raises_only p m \<longleftrightarrow> (\<forall>w e w'. m w = (Inl e, w') \<longrightarrow> p e)"

definition is_redis_error :: "exn \<Rightarrow> bool" where
  "is_redis_error e \<longleftrightarrow> (\<exists>s m. e = RedisErr s m)"

named_theorems raises_intros "rules for raises_only"

lemma raises_calm: "never_raises m \<Longrightarrow> raises_only p m"
  unfolding raises_only_def never_raises_def by (metis fst_conv sum.distinct(1))

lemma raises_ret [raises_intros]: "raises_only p (ret x)"
  by (simp add: raises_calm)

lemma raises_raise [raises_intros]: "p e \<Longrightarrow> raises_only p (raise_exn e)"
  by (simp add: raises_only_def raise_run)

lemma raises_bnd [raises_intros]:
  "raises_only p m \<Longrightarrow> (\<And>x. raises_only p (f x)) \<Longrightarrow> raises_only p (bnd m f)"
  unfolding raises_only_def by (auto simp: bnd_run split: prod.splits sum.splits)

lemma raises_thn [raises_intros]:
  "raises_only p m \<Longrightarrow> raises_only p n \<Longrightarrow> raises_only p (thn m n)"
  by (simp add: thn_def raises_bnd)

lemma raises_try [raises_intros]: "(\<And>e. raises_only p (h e)) \<Longrightarrow> raises_only p (try_catch m h)"
  unfolding raises_only_def by (auto simp: try_catch_run split: prod.splits sum.splits)

lemma raises_option [raises_intros]:
  "(x = None \<Longrightarrow> raises_only p m) \<Longrightarrow> (\<And>y. x = Some y \<Longrightarrow> raises_only p (f y)) \<Longrightarrow>
   raises_only p (case x of None \<Rightarrow> m | Some y \<Rightarrow> f y)"
  by (cases x) simp_all

lemma raises_prod [raises_intros]:
  "(\<And>a b. x = (a, b) \<Longrightarrow> raises_only p (f a b)) \<Longrightarrow> raises_only p (case x of (a, b) \<Rightarrow> f a b)"
  by (cases x) simp

lemma raises_if [raises_intros]:
  "(b \<Longrightarrow> raises_only p m) \<Longrightarrow> (\<not> b \<Longrightarrow> raises_only p n) \<Longrightarrow>
   raises_only p (if b then m else n)"
  by simp

lemma report_raises_redis: "raises_only is_redis_error (reportOperationError E op e)"
  unfolding reportOperationError_def
  by (intro raises_intros raises_calm calm_intros)
     (auto simp: is_redis_error_def redis_failed_def sendRedisEvent_def intro!: calm_intros)

lemma redis_op_raises [raises_intros]: "raises_only is_redis_error (redis_op E op f)"
  unfolding redis_op_def by (intro raises_intros report_raises_redis)

lemma redis_op_no_client [simp]:
  "e_redis E = None \<Longrightarrow> redis_op E op f = ret None"
  "e_redis E = Some None \<Longrightarrow> redis_op E op f = ret None"
  by (simp_all add: redis_op_def)

lemma getKey_raises [raises_intros]: "raises_only is_redis_error (redis_getKey E ns k)"
  unfolding redis_getKey_def by (intro raises_intros)

lemma setKey_raises [raises_intros]: "raises_only is_redis_error (redis_setKey E ns k v t)"
  unfolding redis_setKey_def by (intro raises_intros)

lemma delete_raises [raises_intros]: "raises_only is_redis_error (redis_delete E ns k)"
  unfolding redis_delete_def by (intro raises_intros)

lemma getKey_absent [simp]: "e_redis E = None \<Longrightarrow> redis_getKey E ns k = ret None"
  by (simp add: redis_getKey_def)

lemma setKey_absent [simp]: "e_redis E = None \<Longrightarrow> redis_setKey E ns k v t = ret None"
  by (simp add: redis_setKey_def)

lemma delete_absent [simp]: "e_redis E = None \<Longrightarrow> redis_delete E ns k = ret None"
  by (simp add: redis_delete_def)

subsection \<open>What a Redis operation leaves alone\<close>

text \<open>
  \<open>offline P\<close>: \<open>P\<close> depends neither on what reporting writes nor on the server's state. Every
  manager's invariant is of this kind.
\<close>

definition offline :: "('r world \<Rightarrow> bool) \<Rightarrow> bool" where
  "offline P \<longleftrightarrow> unaffected P \<and> (\<forall>w s. P w \<longrightarrow> P (w\<lparr>w_redis := s\<rparr>))"

lemma offline_unaffected: "offline P \<Longrightarrow> unaffected P"
  by (simp add: offline_def)

lemmas offline_reports [keeps_intros] = report_intros [OF offline_unaffected]

lemma keeps_server [keeps_intros]: "offline P \<Longrightarrow> keeps P (on_redis f)"
  by (simp add: offline_def keeps_on_redis)

lemma keeps_redis_op [keeps_intros]:
  "offline P \<Longrightarrow> (\<And>c. keeps P (f c)) \<Longrightarrow> keeps P (redis_op E op f)"
  unfolding redis_op_def reportOperationError_def sendRedisEvent_def
  by (intro keeps_intros)

lemma keeps_getKey [keeps_intros]: "offline P \<Longrightarrow> keeps P (redis_getKey E ns k)"
  unfolding redis_getKey_def by (intro keeps_intros keeps_redis_op keeps_server)

lemma keeps_setKey [keeps_intros]: "offline P \<Longrightarrow> keeps P (redis_setKey E ns k v t)"
  unfolding redis_setKey_def by (intro keeps_intros keeps_redis_op keeps_server)

lemma keeps_delete [keeps_intros]: "offline P \<Longrightarrow> keeps P (redis_delete E ns k)"
  unfolding redis_delete_def by (intro keeps_intros keeps_redis_op keeps_server)

lemma keeps_deletePattern [keeps_intros]: "offline P \<Longrightarrow> keeps P (redis_deletePattern E p)"
  unfolding redis_deletePattern_def by (intro keeps_intros keeps_redis_op keeps_server)

end
