(* ===== verification/Guard_Examples.thy ===== *)
theory Guard_Examples
  imports Redis_Manager
begin

section \<open>A concrete environment for the witnesses\<close>

text \<open>
  One small deployment on which the witnesses of the properties are evaluated: no Redis, no
  agent, no GeoIP, an address parser that reads dotted text of the digits 0 to 9 as one number
  per part, a CIDR parser for \<open>a/8\<close> style entries on the first part, and pass-through
  redaction. Nothing here models the program; every property quantifies over all environments.
\<close>

definition ex_digit :: "char \<Rightarrow> int" where
  "ex_digit c = of_nat (of_char c) - 48"

definition ex_num :: "string \<Rightarrow> int option" where
  "ex_num s = (if s = [] \<or> \<not> list_all is_digit s then None
     else Some (foldl (\<lambda>a c. 10 * a + ex_digit c) 0 s))"

definition ex_parse :: "string \<Rightarrow> addr option" where
  "ex_parse s = (let ps = map ex_num (split_on (CHR ''.'') s)
     in if length ps = 4 \<and> list_all (\<lambda>p. p \<noteq> None) ps then Some (map the ps) else None)"

definition ex_cidr :: "string \<Rightarrow> (addr \<times> int) option" where
  "ex_cidr s = (case split_on (CHR ''/'') s of
       [a, p] \<Rightarrow> (case (ex_parse a, ex_num p) of (Some x, Some n) \<Rightarrow> Some (x, n) | _ \<Rightarrow> None)
     | _ \<Rightarrow> None)"

definition ex_match :: "addr \<Rightarrow> addr \<times> int \<Rightarrow> bool" where
  "ex_match a b = (take (nat (snd b) div 8) a = take (nat (snd b) div 8) (fst b))"

definition ex_response :: "string \<Rightarrow> int \<Rightarrow> response" where
  "ex_response body st = \<lparr>rs_status = st, rs_headers = [], rs_body = Some body\<rparr>"

definition ex_clean :: detection where
  "ex_clean = \<lparr>dt_threat = False, dt_threats = [], dt_categories = []\<rparr>"

definition ex_hit :: "string \<Rightarrow> string \<Rightarrow> detection" where
  "ex_hit pat cat = \<lparr>dt_threat = True,
     dt_threats = [\<lparr>th_semantic = False, th_pattern = pat, th_content = []\<rparr>],
     dt_categories = [cat]\<rparr>"

definition ex_detect :: detector where
  "ex_detect v ip ctx skip =
     (if str_includes ''<script'' v \<and> ''xss'' \<notin> set skip then Inr (ex_hit ''<script'' ''xss'')
      else Inr ex_clean)"

definition ex_env :: "unit env" where
  "ex_env = \<lparr>
     e_ip_parse = ex_parse, e_ip_cidr = ex_cidr, e_ip_kind = (\<lambda>_. V4), e_ip_match = ex_match,
     e_ip_loopback = (\<lambda>a. take 1 a = [127]), e_ip_str = (\<lambda>a. join_with ''.'' (map show_int a)),
     e_ip_mapped = (\<lambda>_. None), e_ip_valid = (\<lambda>s. ex_parse s \<noteq> None),
     e_is_ip = (\<lambda>s. ex_parse s \<noteq> None),
     e_regex = (\<lambda>p s. Some (str_includes (to_lower p) (to_lower s))),
     e_url_host = (\<lambda>_. None), e_json_parse = (\<lambda>_. None), e_json_str = (\<lambda>_. []),
     e_num_str = (\<lambda>_. []), e_parse_float = (\<lambda>_. None), e_sha256 = (\<lambda>s. ''#'' @ s),
     e_hhmm = (\<lambda>_. ''12:00''), e_redact_header = (\<lambda>s. s), e_redact_url = (\<lambda>s. s),
     e_mk_response = ex_response, e_mk_redirect = ex_response,
     e_security_headers = (\<lambda>_. []), e_cors_headers = (\<lambda>_. []),
     e_detect = Some ex_detect, e_detect_default = ex_detect, e_score2 = (\<lambda>s. s),
     e_form_pairs = (\<lambda>_. []), e_multipart = (\<lambda>_ _. []), e_read_body = (\<lambda>_. Inr None),
     e_geo = None, e_agent = None, e_agent_metric = (\<lambda>_. None), e_redis = None,
     e_redis_prefix = ''guard_core:'', e_fetch_ranges = (\<lambda>_. Inr []),
     e_ban_manager = True, e_cloud_handler = True\<rparr>"

definition ex_state :: req_state where
  "ex_state = \<lparr>st_route_id = None, st_endpoint_id = None, st_decorator = NoDecorator, st_direct_route = None, st_route = None,
     st_unresolved = False, st_whitelisted = False, st_exempt = False, st_stash = None,
     st_client_ip = None, st_client_ip_camel = None, st_principal = None,
     st_exclusion_scoped = False\<rparr>"

definition ex_world :: "unit world" where
  "ex_world = \<lparr>w_now = 1000, w_log = [], w_agent = [], w_metrics = [], w_hooks = [],
     w_errors = [], w_calls = [], w_rate = [], w_sha = None, w_bans = [], w_sus = [],
     w_usage = [], w_returns = [], w_by_ip = [], w_by_ip_bans = [], w_redis_warned = False,
     w_cloud_refresh = 0, w_clouds = [], w_cloud_store = [],
     w_cloud_regions = [], w_cloud_updated = [], w_req = ex_state, w_redis = ()\<rparr>"

text \<open>The schema defaults of \<open>models/config.ts\<close>.\<close>

definition ex_config :: config where
  "ex_config = \<lparr>
     c_trusted_proxies = [], c_trusted_depth = 1, c_trust_xfp = False, c_passive = False,
     c_whitelist = None, c_blacklist = [], c_exempt_ips = [], c_whitelist_countries = [],
     c_blocked_countries = [], c_blocked_uas = [], c_autoban_threshold = 10,
     c_autoban_duration = 3600, c_threat_ban = [], c_rl_autoban = False,
     c_log_suspicious = Some WARNING, c_log_request = None, c_log_country = Some INFO,
     c_error_responses = [], c_rate_limit = 10, c_rate_window = 60, c_enforce_https = False,
     c_sec_headers = True, c_block_clouds = [], c_cloud_interval = 3600, c_exclude_paths = [],
     c_enable_ban = True, c_enable_rl = True, c_enable_pen = True, c_emergency = False,
     c_emergency_whitelist = [], c_endpoint_limits = [], c_global_rules = [],
     c_scan_resp_body = False, c_max_resp_body = 262144, c_excl_params = [], c_excl_body = [],
     c_excl_headers = [], c_enabled_cats = [''xss'', ''sqli''], c_scan_body = True,
     c_max_scan_values = 512, c_max_scan_chars = 65536, c_max_json_depth = 32,
     c_agent_events = True, c_agent_metrics = True, c_enable_redis = False, c_muted_checks = [],
     c_fail_secure = True, c_redis_fail_open = False, c_route_strict = False,
     c_on_block = None, c_on_error = None, c_custom_check = None, c_modifier = None,
     c_auth_verifier = None\<rparr>"

definition ex_request :: request where
  "ex_request = \<lparr>rq_path = ''/items'', rq_scheme = ''https'', rq_replace_scheme = (\<lambda>s. s),
     rq_method = ''GET'', rq_host = Some ''10.0.0.7'', rq_headers = [], rq_query = []\<rparr>"

lemmas ex_simps = ex_env_def ex_world_def ex_config_def ex_request_def ex_state_def ex_response_def

end
