(* ===== verification/Ip_Access.thy ===== *)
theory Ip_Access
  imports Guard_Examples
begin

section \<open>IP lists, client IP, countries, clouds (utils.ts, ip-access.ts, handlers/cloud.ts)\<close>

text \<open>
  Every list test of the engine: the tolerant loops (a malformed entry or address is skipped) and
  the strict ones (it throws), the client IP behind trusted proxies, the country verdict, the
  cloud-range lookup, and the two full verdicts \<open>isIpAllowed\<close> and \<open>checkIpAccess\<close>.
  Address parsing and matching are ipaddr.js, parameters of the environment.
\<close>

subsection \<open>List membership\<close>

text \<open>\<open>parsed.kind() === addr.kind() && parsed.match([addr, prefixLen])\<close>.\<close>

definition cidr_match :: "'r env \<Rightarrow> addr \<Rightarrow> addr \<times> int \<Rightarrow> bool" where
  "cidr_match E a c \<longleftrightarrow> e_ip_kind E a = e_ip_kind E (fst c) \<and> e_ip_match E a c"

text \<open>One entry of the tolerant loops: a parse failure means no match.\<close>

definition entry_matches :: "'r env \<Rightarrow> string \<Rightarrow> string \<Rightarrow> bool" where
  "entry_matches E ip entry =
     (if CHR ''/'' \<in> set entry then
        (case e_ip_parse E ip of
           None \<Rightarrow> False
         | Some a \<Rightarrow> (case e_ip_cidr E entry of None \<Rightarrow> False | Some c \<Rightarrow> cidr_match E a c))
      else ip = entry)"

fun isIpInBlacklist :: "'r env \<Rightarrow> string \<Rightarrow> string list \<Rightarrow> bool" where
  "isIpInBlacklist E ip [] = False"
| "isIpInBlacklist E ip (e # es) = (if entry_matches E ip e then True else isIpInBlacklist E ip es)"

definition isIpInWhitelist :: "'r env \<Rightarrow> string \<Rightarrow> string list \<Rightarrow> bool option" where
  "isIpInWhitelist E ip whitelist =
     (if whitelist = [] then None else Some (list_ex (entry_matches E ip) whitelist))"

fun isTrustedProxy :: "'r env \<Rightarrow> string \<Rightarrow> string list \<Rightarrow> bool" where
  "isTrustedProxy E ip [] = False"
| "isTrustedProxy E ip (p # ps) = (if entry_matches E ip p then True else isTrustedProxy E ip ps)"

text \<open>The strict loop: \<open>None\<close> is the throw of \<open>parseCIDR\<close> on a malformed entry.\<close>

fun ipInList :: "'r env \<Rightarrow> addr \<Rightarrow> string \<Rightarrow> string list \<Rightarrow> bool option" where
  "ipInList E a ip [] = Some False"
| "ipInList E a ip (e # es) =
     (if CHR ''/'' \<in> set e then
        (case e_ip_cidr E e of
           None \<Rightarrow> None
         | Some c \<Rightarrow> if cidr_match E a c then Some True else ipInList E a ip es)
      else if ip = e then Some True
      else ipInList E a ip es)"

lemma blacklist_ex: "isIpInBlacklist E ip xs \<longleftrightarrow> list_ex (entry_matches E ip) xs"
  by (induction xs) auto

lemma trusted_ex: "isTrustedProxy E ip xs \<longleftrightarrow> list_ex (entry_matches E ip) xs"
  by (induction xs) auto

text \<open>Where the strict loop answers, it agrees with the tolerant ones.\<close>

lemma strict_tolerant:
  "e_ip_parse E ip = Some a \<Longrightarrow> ipInList E a ip xs = Some b \<Longrightarrow> b = list_ex (entry_matches E ip) xs"
  by (induction xs) (auto simp: entry_matches_def split: if_splits option.splits)

subsection \<open>The client IP behind proxies (utils.ts)\<close>

definition forwarded_ips :: "string \<Rightarrow> string list" where
  "forwarded_ips s = filter (\<lambda>x. x \<noteq> []) (map str_trim (split_on (CHR '','') s))"

definition extractFromForwardedHeader :: "string \<Rightarrow> int \<Rightarrow> string option" where
  "extractFromForwardedHeader forwardedFor proxyDepth =
     (let ips = forwarded_ips forwardedFor; i = int (length ips) - proxyDepth
      in if ips = [] then None
         else if i < 0 then Some (ips ! 0)
         else if nat i < length ips then Some (ips ! nat i) else None)"

definition extractClientIp :: "'r env \<Rightarrow> config \<Rightarrow> request \<Rightarrow> ('r, string) eff" where
  "extractClientIp E C rq =
     (case client_host rq of
        None \<Rightarrow> ret ''unknown''
      | Some ip \<Rightarrow>
          (case map_of (rq_headers rq) ''x-forwarded-for'' of
             None \<Rightarrow> ret ip
           | Some f \<Rightarrow>
               if f = [] then ret ip
               else if \<not> (c_trusted_proxies C \<noteq> [] \<and> isTrustedProxy E ip (c_trusted_proxies C)) then
                 thn (sendAgentEvent E ''suspicious_request'' ip ''spoofing_detected''
                        (''Potential IP spoof attempt: X-Forwarded-For header '' @ f) (Some rq) [])
                   (ret ip)
               else
                 (case extractFromForwardedHeader f (c_trusted_depth C) of
                    None \<Rightarrow> ret ip
                  | Some x \<Rightarrow> ret (if x \<noteq> [] \<and> e_ip_valid E x then x else ip))))"

definition isUserAgentAllowed :: "'r env \<Rightarrow> string \<Rightarrow> config \<Rightarrow> ('r, bool) eff" where
  "isUserAgentAllowed E ua C =
     lift_res (fold (\<lambda>p acc. case acc of
                 Inr True \<Rightarrow> (case e_regex E p ua of
                                None \<Rightarrow> Inl (OtherErr ''SyntaxError'' (''Invalid regular expression: '' @ p))
                              | Some hit \<Rightarrow> Inr (\<not> hit))
               | _ \<Rightarrow> acc) (c_blocked_uas C) (Inr True))"

subsection \<open>Countries\<close>

datatype country_result = NoRules | NoGeolocation | LoopbackExempt | Whitelisted | NotAffected

definition logCountryCheckResult ::
  "string \<Rightarrow> string \<Rightarrow> country_result \<Rightarrow> config \<Rightarrow> ('r, unit) eff"
where
  "logCountryCheckResult ip country r C =
     (case r of
        NoRules \<Rightarrow> log_line LogDebug
          (''No countries blocked or whitelisted '' @ ip @ '' - No countries blocked or whitelisted'')
      | NoGeolocation \<Rightarrow> log_line LogDebug (''IP not geolocated '' @ ip @ '' - IP geolocation failed'')
      | LoopbackExempt \<Rightarrow> log_line LogDebug (''Loopback IP exempt from country allowlist check '' @ ip)
      | _ \<Rightarrow>
          (case c_log_country C of
             None \<Rightarrow> ret ()
           | Some level \<Rightarrow> log_line (level_method level)
               (if r = Whitelisted
                then ''IP from whitelisted country '' @ ip @ '' - '' @ country @ '' - IP from whitelisted country''
                else ''IP not from blocked or whitelisted country '' @ ip @ '' - '' @ country
                  @ '' - IP not from blocked or whitelisted country'')))"

text \<open>\<open>if (!country)\<close>: null and the empty code.\<close>

definition country_or_none :: "string option \<Rightarrow> string option" where
  "country_or_none c = (case c of None \<Rightarrow> None | Some s \<Rightarrow> if s = [] then None else Some s)"

definition country_verdict :: "geo_handler \<Rightarrow> string \<Rightarrow> config \<Rightarrow> ('r, bool) eff" where
  "country_verdict g ip C =
     bnd (lift_res (geo_country g ip)) (\<lambda>c.
       case country_or_none c of
         None \<Rightarrow> thn (logCountryCheckResult ip [] NoGeolocation C) (ret False)
       | Some country \<Rightarrow>
           if c_whitelist_countries C \<noteq> [] then
             (if country \<notin> set (c_whitelist_countries C) then ret True
              else thn (logCountryCheckResult ip country Whitelisted C) (ret False))
           else if c_blocked_countries C \<noteq> [] then
             (if country \<in> set (c_blocked_countries C) then ret True
              else thn (logCountryCheckResult ip country NotAffected C) (ret False))
           else ret False)"

definition checkIpCountry :: "'r env \<Rightarrow> geo_handler \<Rightarrow> string \<Rightarrow> config \<Rightarrow> ('r, bool) eff" where
  "checkIpCountry E g ip C =
     (if c_blocked_countries C = [] \<and> c_whitelist_countries C = []
      then thn (logCountryCheckResult ip [] NoRules C) (ret False)
      else if (case e_ip_parse E ip of None \<Rightarrow> False | Some a \<Rightarrow> e_ip_kind E a = V4 \<and> e_ip_loopback E a)
      then thn (logCountryCheckResult ip [] LoopbackExempt C) (ret False)
      else
        bnd (if geo_initialized g then ret ()
             else (case geo_initialize g of None \<Rightarrow> ret () | Some e \<Rightarrow> raise_exn e))
          (\<lambda>_. country_verdict g ip C))"

subsection \<open>isIpAllowed (utils.ts)\<close>

definition parse_error :: exn where
  "parse_error = OtherErr ''Error'' ''ipaddr: the address has neither IPv6 nor IPv4 format''"

definition opt_raise :: "'a option \<Rightarrow> ('r, 'a) eff" where
  "opt_raise x = (case x of None \<Rightarrow> raise_exn parse_error | Some y \<Rightarrow> ret y)"

definition whitelist_of :: "config \<Rightarrow> string list" where
  "whitelist_of C = (case c_whitelist C of None \<Rightarrow> [] | Some l \<Rightarrow> l)"

definition isIpAllowed :: "'r env \<Rightarrow> string \<Rightarrow> config \<Rightarrow> ('r, bool) eff" where
  "isIpAllowed E ip C =
     try_catch
       (bnd (opt_raise (e_ip_parse E ip)) (\<lambda>a.
        bnd (opt_raise (ipInList E a ip (c_blacklist C))) (\<lambda>blocked.
          if blocked then ret False
          else
            bnd (if whitelist_of C \<noteq> [] then opt_raise (ipInList E a ip (whitelist_of C)) else ret True)
              (\<lambda>found.
                if \<not> found then ret False
                else
                  (case e_geo E of
                     None \<Rightarrow> ret True
                   | Some g \<Rightarrow> bnd (checkIpCountry E g ip C) (\<lambda>b. ret (\<not> b)))))))
       (\<lambda>_. ret False)"

subsection \<open>Cloud ranges (handlers/cloud.ts)\<close>

text \<open>The first range of a provider's list that holds the address; malformed ranges are skipped.\<close>

definition range_hit :: "'r env \<Rightarrow> addr \<Rightarrow> string \<Rightarrow> bool" where
  "range_hit E a cidr = (case e_ip_cidr E cidr of None \<Rightarrow> False | Some c \<Rightarrow> cidr_match E a c)"

fun cloud_any :: "'r env \<Rightarrow> addr \<Rightarrow> (string, string list) omap \<Rightarrow> string list \<Rightarrow> bool" where
  "cloud_any E a m [] = False"
| "cloud_any E a m (p # ps) =
     (case map_of m p of
        None \<Rightarrow> cloud_any E a m ps
      | Some ranges \<Rightarrow> if list_ex (range_hit E a) ranges then True else cloud_any E a m ps)"

definition isCloudIp :: "'r env \<Rightarrow> (string, string list) omap \<Rightarrow> string \<Rightarrow> string list \<Rightarrow> bool" where
  "isCloudIp E m ip providers =
     (case e_ip_parse E ip of None \<Rightarrow> False | Some a \<Rightarrow> cloud_any E a m providers)"

fun cloud_first ::
  "'r env \<Rightarrow> addr \<Rightarrow> (string, string list) omap \<Rightarrow> string list \<Rightarrow> (string \<times> string) option"
where
  "cloud_first E a m [] = None"
| "cloud_first E a m (p # ps) =
     (case map_of m p of
        None \<Rightarrow> cloud_first E a m ps
      | Some ranges \<Rightarrow>
          (case find (range_hit E a) ranges of
             Some cidr \<Rightarrow> Some (p, cidr)
           | None \<Rightarrow> cloud_first E a m ps))"

definition getCloudProviderDetails ::
  "'r env \<Rightarrow> (string, string list) omap \<Rightarrow> string \<Rightarrow> string list \<Rightarrow> (string \<times> string) option"
where
  "getCloudProviderDetails E m ip providers =
     (case e_ip_parse E ip of None \<Rightarrow> None | Some a \<Rightarrow> cloud_first E a m providers)"

definition sendCloudDetectionEvent ::
  "'r env \<Rightarrow> string \<Rightarrow> string \<Rightarrow> string \<Rightarrow> string \<Rightarrow> ('r, unit) eff"
where
  "sendCloudDetectionEvent E ip provider network action =
     send_direct_event E ''cloud_blocked'' ip action
       (''IP belongs to blocked cloud provider: '' @ provider) None None None ''cloud'' None
       [(''cloudProvider'', MStr provider), (''network'', MStr network)] (\<lambda>_. ret ())"

subsection \<open>checkIpAccess (core/checks/ip-access.ts)\<close>

record ip_access_result =
  ar_allowed :: bool
  ar_reason :: string
  ar_provider :: "string option"
  ar_network :: "string option"

definition allowedResult :: ip_access_result where
  "allowedResult = \<lparr>ar_allowed = True, ar_reason = [], ar_provider = None, ar_network = None\<rparr>"

definition blockedResult :: "string \<Rightarrow> ip_access_result" where
  "blockedResult reason =
     \<lparr>ar_allowed = False, ar_reason = reason, ar_provider = None, ar_network = None\<rparr>"

definition genericListBlockReason :: "string \<Rightarrow> string" where
  "genericListBlockReason ip = ''IP '' @ ip @ '' not in global allowlist/blocklist''"

definition checkCloudProvidersDetail ::
  "'r env \<Rightarrow> (string, string list) omap \<Rightarrow> string \<Rightarrow> config \<Rightarrow> ip_access_result option"
where
  "checkCloudProvidersDetail E m ip C =
     (if \<not> e_cloud_handler E \<or> c_block_clouds C = [] then None
      else if \<not> isCloudIp E m ip (c_block_clouds C) then None
      else (case getCloudProviderDetails E m ip (c_block_clouds C) of
              None \<Rightarrow> Some (blockedResult (genericListBlockReason ip))
            | Some (provider, network) \<Rightarrow>
                Some \<lparr>ar_allowed = False,
                  ar_reason = ''IP belongs to blocked cloud provider: '' @ provider,
                  ar_provider = Some provider, ar_network = Some network\<rparr>))"

definition checkUnknownIdentityAccess ::
  "string \<Rightarrow> config \<Rightarrow> bool \<Rightarrow> bool \<Rightarrow> ip_access_result option"
where
  "checkUnknownIdentityAccess ip C skipIpLists skipCountries =
     (if ip \<noteq> ''unknown'' then None
      else if (\<not> skipIpLists \<and> whitelist_of C \<noteq> []) \<or> (\<not> skipCountries \<and> c_whitelist_countries C \<noteq> [])
      then Some (blockedResult (genericListBlockReason ip))
      else Some allowedResult)"

text \<open>The list tier: \<open>Inl r\<close> ends the check, \<open>Inr b\<close> goes on with \<open>skipCountryVerdict = b\<close>.\<close>

definition list_tier ::
  "'r env \<Rightarrow> config \<Rightarrow> addr \<Rightarrow> string \<Rightarrow> bool \<Rightarrow> bool \<Rightarrow> ('r, ip_access_result + bool) eff"
where
  "list_tier E C a ip skipIpLists skipCountries =
     (if skipIpLists then ret (Inr skipCountries)
      else if whitelist_of C \<noteq> [] then
        bnd (opt_raise (ipInList E a ip (whitelist_of C))) (\<lambda>listed.
          ret (if listed then Inr True else Inl (blockedResult (genericListBlockReason ip))))
      else
        bnd (opt_raise (ipInList E a ip (c_blacklist C))) (\<lambda>listed.
          ret (if listed then Inl (blockedResult (genericListBlockReason ip)) else Inr skipCountries)))"

definition country_tier ::
  "'r env \<Rightarrow> config \<Rightarrow> string \<Rightarrow> bool \<Rightarrow> ('r, ip_access_result option) eff"
where
  "country_tier E C ip skip =
     (if skip \<or> (c_blocked_countries C = [] \<and> c_whitelist_countries C = []) then ret None
      else (case e_geo E of
              None \<Rightarrow> ret None
            | Some g \<Rightarrow>
                bnd (checkIpCountry E g ip C) (\<lambda>blocked.
                  if \<not> blocked then ret None
                  else bnd (lift_res (geo_country g ip)) (\<lambda>c.
                    ret (Some (blockedResult
                      (case country_or_none c of
                         Some s \<Rightarrow> ''IP from blocked country: '' @ s
                       | None \<Rightarrow> genericListBlockReason ip)))))))"

definition checkIpAccess ::
  "'r env \<Rightarrow> string \<Rightarrow> config \<Rightarrow> bool \<Rightarrow> bool \<Rightarrow> ('r, ip_access_result) eff"
where
  "checkIpAccess E ip C skipIpLists skipCountries =
     (case checkUnknownIdentityAccess ip C skipIpLists skipCountries of
        Some r \<Rightarrow> ret r
      | None \<Rightarrow>
          try_catch
            (bnd (opt_raise (e_ip_parse E ip)) (\<lambda>a.
             bnd (list_tier E C a ip skipIpLists skipCountries) (\<lambda>t.
               case t of
                 Inl r \<Rightarrow> ret r
               | Inr skip \<Rightarrow>
                   bnd (country_tier E C ip skip) (\<lambda>v.
                     case v of
                       Some r \<Rightarrow> ret r
                     | None \<Rightarrow>
                         bnd (gets w_clouds) (\<lambda>m.
                           ret (case checkCloudProvidersDetail E m ip C of
                                  Some r \<Rightarrow> r | None \<Rightarrow> allowedResult))))))
            (\<lambda>_. ret (blockedResult (genericListBlockReason ip))))"

subsection \<open>Properties\<close>

lemma cloud_first_any: "cloud_any E a m ps \<longleftrightarrow> cloud_first E a m ps \<noteq> None"
proof (induction ps)
  case (Cons p ps)
  have "list_ex P xs \<longleftrightarrow> find P xs \<noteq> None" for P and xs :: "string list"
    by (induction xs) auto
  with Cons show ?case by (auto split: option.splits)
qed simp

lemma cloud_first_sound:
  "cloud_first E a m ps = Some (p, c) \<Longrightarrow>
   p \<in> set ps \<and> (\<exists>rs. map_of m p = Some rs \<and> c \<in> set rs) \<and> range_hit E a c"
proof (induction ps)
  case (Cons q ps)
  then show ?case
    by (auto simp: find_Some_iff split: option.splits)
qed simp

text \<open>
  The cloud test and the provider lookup agree: an address is a cloud address exactly when the
  lookup names a provider and a range, and then that provider was asked for, the range is one of
  its ranges and holds the address.
\<close>

theorem cloud_lookup_consistent:
  "(isCloudIp E m ip ps \<longleftrightarrow> getCloudProviderDetails E m ip ps \<noteq> None) \<and>
   (\<forall>(p, c) \<in> set_option (getCloudProviderDetails E m ip ps).
      p \<in> set ps \<and> c \<in> set (om_get_or [] m p) \<and> (\<exists>a. e_ip_parse E ip = Some a \<and> range_hit E a c))"
proof (cases "e_ip_parse E ip")
  case (Some a)
  then show ?thesis
    using cloud_first_sound [of E a m ps]
    by (auto simp: isCloudIp_def getCloudProviderDetails_def cloud_first_any om_get_or_def)
qed (simp add: isCloudIp_def getCloudProviderDetails_def)

theorem cloud_lookup_consistent_witness:
  "isCloudIp ex_env [(''AWS'', [''52.0.0.0/8'']), (''GCP'', [''10.0.0.0/8''])] ''10.0.0.7'' [''AWS'', ''GCP'']"
proof -
  have "getCloudProviderDetails ex_env [(''AWS'', [''52.0.0.0/8'']), (''GCP'', [''10.0.0.0/8''])]
      ''10.0.0.7'' [''AWS'', ''GCP''] = Some (''GCP'', ''10.0.0.0/8'')"
    by code_simp
  then show ?thesis
    using cloud_lookup_consistent [of ex_env "[(''AWS'', [''52.0.0.0/8'']), (''GCP'', [''10.0.0.0/8''])]"
      "''10.0.0.7''" "[''AWS'', ''GCP'']"] by simp
qed

lemma forwarded_join:
  assumes "\<forall>x \<in> set proxied. x \<noteq> [] \<and> str_trim x = x \<and> CHR '','' \<notin> set x" and "proxied \<noteq> []"
  shows "forwarded_ips (attacker @ '','' @ join_with '','' proxied) = forwarded_ips attacker @ proxied"
proof -
  have "split_on (CHR '','') (join_with '','' proxied) = proxied"
    using assms by (intro split_on_join) auto
  moreover have "filter (\<lambda>x. x \<noteq> []) (map str_trim proxied) = proxied"
    using assms(1) by (induction proxied) auto
  ultimately show ?thesis
    by (simp add: forwarded_ips_def split_on_append)
qed

text \<open>
  With depth d, the last d entries of X-Forwarded-For, appended by the d trusted proxies,
  decide alone: whatever a client put before them, the first of those d entries is the address
  extracted.
\<close>

theorem forwarded_prefix_irrelevant:
  assumes "\<forall>x \<in> set proxied. x \<noteq> [] \<and> str_trim x = x \<and> CHR '','' \<notin> set x" and "proxied \<noteq> []"
  shows "extractFromForwardedHeader (attacker @ '','' @ join_with '','' proxied) (int (length proxied)) =
    Some (proxied ! 0)"
  unfolding extractFromForwardedHeader_def forwarded_join [OF assms] Let_def
  using assms(2) by (simp add: nth_append)

theorem forwarded_prefix_irrelevant_witness:
  "extractFromForwardedHeader (''1.1.1.1, 9.9.9.9'' @ '','' @ join_with '','' [''5.6.7.8'', ''10.0.0.1'']) 2 =
    Some ''5.6.7.8''"
proof -
  have trim: "str_trim ''5.6.7.8'' = ''5.6.7.8''" "str_trim ''10.0.0.1'' = ''10.0.0.1''"
    by code_simp+
  then show ?thesis
    using forwarded_prefix_irrelevant [of "[''5.6.7.8'', ''10.0.0.1'']" "''1.1.1.1, 9.9.9.9''"] by simp
qed

text \<open>
  C22: the extracted client IP is the peer's own address unless the peer is a listed trusted proxy,
  and then a forwarded value is used only if it is a valid address; without a peer address it
  is the word unknown. Reporting a spoofing attempt cannot make the extraction fail.
\<close>

theorem client_ip_trust:
  "\<exists>ip. fst (extractClientIp E C rq w) = Inr ip \<and>
     (client_host rq = None \<longrightarrow> ip = ''unknown'') \<and>
     (\<forall>h. client_host rq = Some h \<longrightarrow> ip = h \<or>
        (\<exists>p \<in> set (c_trusted_proxies C). entry_matches E h p) \<and> e_ip_valid E ip)"
proof -
  have "yields (\<lambda>ip. (client_host rq = None \<longrightarrow> ip = ''unknown'') \<and>
     (\<forall>h. client_host rq = Some h \<longrightarrow> ip = h \<or>
        (\<exists>p \<in> set (c_trusted_proxies C). entry_matches E h p) \<and> e_ip_valid E ip)) (extractClientIp E C rq)"
    unfolding extractClientIp_def
    by (intro yields_intros calm_intros) (auto simp: trusted_ex list_ex_iff)
  from yieldsD [OF this] show ?thesis by blast
qed

theorem client_ip_trust_witness:
  "\<exists>ip. fst (extractClientIp ex_env ex_config ex_request ex_world) = Inr ip \<and>
     (ip = ''10.0.0.7'' \<or> e_ip_valid ex_env ip)"
proof -
  have "client_host ex_request = Some ''10.0.0.7''"
    by (simp add: client_host_def ex_request_def)
  then show ?thesis
    using client_ip_trust [of ex_env ex_config ex_request ex_world] by auto
qed

lemma returns_opt_bnd:
  "(\<And>y. x = Some y \<Longrightarrow> returns Q (f y)) \<Longrightarrow> returns Q (bnd (opt_raise x) f)"
  by (cases x) (auto simp: opt_raise_def returns_def bnd_run raise_run)

lemma calm_isIpAllowed: "never_raises (isIpAllowed E ip C)"
  unfolding isIpAllowed_def by (intro calm_intros)

lemma ip_allowed_sound:
  "\<exists>b. fst (isIpAllowed E ip C w) = Inr b \<and>
     (b \<longrightarrow> e_ip_parse E ip \<noteq> None \<and> \<not> isIpInBlacklist E ip (c_blacklist C) \<and>
       isIpInWhitelist E ip (whitelist_of C) \<noteq> Some False)"
proof -
  let ?Q = "\<lambda>b. b \<longrightarrow> e_ip_parse E ip \<noteq> None \<and> \<not> isIpInBlacklist E ip (c_blacklist C) \<and>
       isIpInWhitelist E ip (whitelist_of C) \<noteq> Some False"
  have inner: "returns ?Q
      (bnd (if whitelist_of C \<noteq> [] then opt_raise (ipInList E a ip (whitelist_of C)) else ret True)
        (\<lambda>found. if \<not> found then ret False
          else (case e_geo E of None \<Rightarrow> ret True
                | Some g \<Rightarrow> bnd (checkIpCountry E g ip C) (\<lambda>b. ret (\<not> b)))))"
    if a: "e_ip_parse E ip = Some a" and black: "ipInList E a ip (c_blacklist C) = Some False" for a
  proof (cases "whitelist_of C = []")
    case True
    then show ?thesis
      using a strict_tolerant [OF a black]
      by (auto simp: blacklist_ex isIpInWhitelist_def intro!: returns_intros)
  next
    case False
    have "returns ?Q (if \<not> found then ret False
          else (case e_geo E of None \<Rightarrow> ret True
                | Some g \<Rightarrow> bnd (checkIpCountry E g ip C) (\<lambda>b. ret (\<not> b))))"
      if "ipInList E a ip (whitelist_of C) = Some found" for found
      using a strict_tolerant [OF a black] strict_tolerant [OF a that]
      by (auto simp: blacklist_ex isIpInWhitelist_def intro!: returns_intros)
    with False show ?thesis by (simp add: returns_opt_bnd)
  qed
  have "returns ?Q (isIpAllowed E ip C)"
    unfolding isIpAllowed_def
    by (intro returns_try returns_opt_bnd returns_if returns_ret inner) simp_all
  then show ?thesis
    using never_raisesD [OF calm_isIpAllowed] unfolding returns_def by (metis fst_conv)
qed

text \<open>The strict loop answers no only if every range parses, and yes only if those before the match do.\<close>

definition well_formed_entry :: "'r env \<Rightarrow> string \<Rightarrow> bool" where
  "well_formed_entry E e \<longleftrightarrow> CHR ''/'' \<notin> set e \<or> e_ip_cidr E e \<noteq> None"

lemma strict_step:
  "e_ip_parse E ip = Some a \<Longrightarrow>
   ipInList E a ip (e # es) =
     (if entry_matches E ip e then Some True
      else if well_formed_entry E e then ipInList E a ip es else None)"
  by (auto simp: entry_matches_def well_formed_entry_def split: option.splits)

lemma strict_no:
  "e_ip_parse E ip = Some a \<Longrightarrow>
   ipInList E a ip xs = Some False \<longleftrightarrow> list_all (\<lambda>e. well_formed_entry E e \<and> \<not> entry_matches E ip e) xs"
  by (induction xs) (simp_all add: strict_step del: ipInList.simps(2))

lemma strict_yes:
  "e_ip_parse E ip = Some a \<Longrightarrow>
   ipInList E a ip xs = Some True \<longleftrightarrow> list_ex (entry_matches E ip) xs \<and>
     list_all (well_formed_entry E) (takeWhile (\<lambda>e. \<not> entry_matches E ip e) xs)"
  by (induction xs) (auto simp add: strict_step simp del: ipInList.simps(2))

text \<open>
  C23: the boolean verdict never throws, and it lets an IP through exactly if the IP parses, the
  blacklist holds no malformed range and no entry that matches, the whitelist, where one is configured,
  has an entry that matches and no malformed range before it, and the country check, where a GeoIP
  handler is configured, answers without an error that the country is not blocked. So an
  unparseable IP, a malformed range that is reached and a GeoIP error each deny.
\<close>

theorem ip_allowed_safe:
  "fst (isIpAllowed E ip C w) = Inr
     (e_ip_parse E ip \<noteq> None \<and>
      list_all (\<lambda>e. well_formed_entry E e \<and> \<not> entry_matches E ip e) (c_blacklist C) \<and>
      (whitelist_of C = [] \<or>
       list_ex (entry_matches E ip) (whitelist_of C) \<and>
       list_all (well_formed_entry E) (takeWhile (\<lambda>e. \<not> entry_matches E ip e) (whitelist_of C))) \<and>
      (case e_geo E of None \<Rightarrow> True | Some g \<Rightarrow> fst (checkIpCountry E g ip C w) = Inr False))"
proof (cases "e_ip_parse E ip")
  case None
  then show ?thesis by (simp add: isIpAllowed_def opt_raise_def try_catch_run bnd_run raise_run ret_run)
next
  case (Some a)
  let ?geo = "case e_geo E of None \<Rightarrow> True | Some g \<Rightarrow> fst (checkIpCountry E g ip C w) = Inr False"
  have run: "fst (isIpAllowed E ip C w) = Inr (ipInList E a ip (c_blacklist C) = Some False \<and>
      (whitelist_of C = [] \<or> ipInList E a ip (whitelist_of C) = Some True) \<and> ?geo)"
    using Some
    by (auto simp: isIpAllowed_def opt_raise_def try_catch_run bnd_run raise_run ret_run
        split: option.splits prod.splits sum.splits)
  show ?thesis unfolding run strict_no [OF Some] strict_yes [OF Some] using Some by simp
qed

theorem ip_allowed_safe_witness:
  "fst (isIpAllowed ex_env ''10.0.0.7'' (ex_config\<lparr>c_blacklist := [''10.0.0.7'']\<rparr>) ex_world) = Inr False"
  by (simp add: ip_allowed_safe entry_matches_def well_formed_entry_def)

lemma plain_list: "\<forall>e \<in> set xs. CHR ''/'' \<notin> set e \<Longrightarrow> ipInList E a ip xs = Some (ip \<in> set xs)"
  by (induction xs) auto

text \<open>
  The two verdicts disagree on an IP that is both whitelisted and blacklisted: with plain lists
  the boolean one denies it, and the detailed one, where a non-empty whitelist makes it skip the
  blacklist, allows it.
\<close>

theorem verdicts_disagree:
  assumes "e_ip_parse E ip = Some a" and "ip \<noteq> ''unknown''"
    and "ip \<in> set (c_blacklist C)" and "ip \<in> set (whitelist_of C)"
    and "\<forall>e \<in> set (c_blacklist C) \<union> set (whitelist_of C). CHR ''/'' \<notin> set e"
    and "c_block_clouds C = []"
  shows "fst (isIpAllowed E ip C w) = Inr False \<and>
    fst (checkIpAccess E ip C False False w) = Inr allowedResult"
proof
  have "ipInList E a ip (c_blacklist C) = Some True"
    and wl: "ipInList E a ip (whitelist_of C) = Some True" and ne: "whitelist_of C \<noteq> []"
    using assms by (auto simp: plain_list)
  then show "fst (isIpAllowed E ip C w) = Inr False"
    using assms(1) by (simp add: isIpAllowed_def opt_raise_def try_catch_run ret_run)
  show "fst (checkIpAccess E ip C False False w) = Inr allowedResult"
    using assms(1,2,6) wl ne
    by (simp add: checkIpAccess_def checkUnknownIdentityAccess_def opt_raise_def list_tier_def
        country_tier_def checkCloudProvidersDetail_def try_catch_run bnd_run ret_run)
qed

theorem verdicts_disagree_witness:
  "let C = ex_config\<lparr>c_blacklist := [''10.0.0.7''], c_whitelist := Some [''10.0.0.7'']\<rparr>
   in fst (isIpAllowed ex_env ''10.0.0.7'' C ex_world) = Inr False \<and>
      fst (checkIpAccess ex_env ''10.0.0.7'' C False False ex_world) = Inr allowedResult"
proof -
  let ?C = "ex_config\<lparr>c_blacklist := [''10.0.0.7''], c_whitelist := Some [''10.0.0.7'']\<rparr>"
  have "e_ip_parse ex_env ''10.0.0.7'' = Some [10, 0, 0, 7]"
    by code_simp
  moreover have "c_block_clouds ?C = []" by (simp add: ex_config_def)
  ultimately show ?thesis
    using verdicts_disagree [of ex_env "''10.0.0.7''" "[10, 0, 0, 7]" ?C ex_world]
    by (simp add: whitelist_of_def Let_def)
qed

end
