(* ===== verification/Path_Matching.thy ===== *)
theory Path_Matching
  imports Guard_Prelude "HOL-Library.Sublist"
begin

section \<open>URL path normalisation and exclusion (core/validation/path-matching.ts)\<close>

text \<open>
  Paths here are lists of code points (\<open>codes\<close>), because percent-decoding yields characters
  beyond Latin-1; \<open>text_of\<close> embeds the engine's strings. A supplementary character is one
  element instead of two UTF-16 units: no operation here looks inside a pair.
\<close>

type_synonym codes = "nat list"

definition text_of :: "string \<Rightarrow> codes" where
  "text_of s = map of_char s"

subsection \<open>The fatal UTF-8 decoder\<close>

definition cont :: "nat \<Rightarrow> bool" where
  "cont b \<longleftrightarrow> 0x80 \<le> b \<and> b \<le> 0xBF"

text \<open>
  \<open>new TextDecoder('utf-8', fatal: true)\<close>: well-formed UTF-8 only (no overlong forms, no
  surrogates, nothing above U+10FFFF), \<open>None\<close> where the decoder throws.
\<close>

fun utf8 :: "nat list \<Rightarrow> codes option" where
  "utf8 [] = Some []"
| "utf8 (a # s) =
     (if a < 0x80 then map_option (Cons a) (utf8 s)
      else if 0xC2 \<le> a \<and> a \<le> 0xDF then
        (case s of
           b # t \<Rightarrow> if cont b then map_option (Cons ((a - 0xC0) * 64 + (b - 0x80))) (utf8 t) else None
         | [] \<Rightarrow> None)
      else if 0xE0 \<le> a \<and> a \<le> 0xEF then
        (case s of
           b # c # t \<Rightarrow>
             if (if a = 0xE0 then 0xA0 \<le> b \<and> b \<le> 0xBF
                 else if a = 0xED then 0x80 \<le> b \<and> b \<le> 0x9F else cont b) \<and> cont c
             then map_option (Cons ((a - 0xE0) * 4096 + (b - 0x80) * 64 + (c - 0x80))) (utf8 t)
             else None
         | _ \<Rightarrow> None)
      else if 0xF0 \<le> a \<and> a \<le> 0xF4 then
        (case s of
           b # c # d # t \<Rightarrow>
             if (if a = 0xF0 then 0x90 \<le> b \<and> b \<le> 0xBF
                 else if a = 0xF4 then 0x80 \<le> b \<and> b \<le> 0x8F else cont b) \<and> cont c \<and> cont d
             then map_option (Cons ((a - 0xF0) * 262144 + (b - 0x80) * 4096 + (c - 0x80) * 64 + (d - 0x80)))
                    (utf8 t)
             else None
         | _ \<Rightarrow> None)
      else None)"

text \<open>Without \<open>ignoreBOM\<close> the decoder drops a leading byte order mark.\<close>

definition text_decode :: "nat list \<Rightarrow> codes option" where
  "text_decode bs = (if starts_with [0xEF, 0xBB, 0xBF] bs then utf8 (drop 3 bs) else utf8 bs)"

subsection \<open>Percent decoding\<close>

definition hex_value :: "nat \<Rightarrow> nat option" where
  "hex_value c =
     (if 48 \<le> c \<and> c \<le> 57 then Some (c - 48)
      else if 65 \<le> c \<and> c \<le> 70 then Some (c - 55)
      else if 97 \<le> c \<and> c \<le> 102 then Some (c - 87)
      else None)"

text \<open>The bytes of the maximal \<open>%XX\<close> run at the head of the text, and what follows it.\<close>

fun percent_run :: "codes \<Rightarrow> nat list \<times> codes" where
  "percent_run (p # a # b # s) =
     (if p = 37 then
        (case (hex_value a, hex_value b) of
           (Some x, Some y) \<Rightarrow> (let (bs, r) = percent_run s in ((16 * x + y) # bs, r))
         | _ \<Rightarrow> ([], p # a # b # s))
      else ([], p # a # b # s))"
| "percent_run s = ([], s)"

lemma percent_run_rest: "length (snd (percent_run s)) + 3 * length (fst (percent_run s)) = length s"
  by (induction s rule: percent_run.induct) (auto simp: case_prod_beta Let_def split: option.splits)

definition decodePercentRun :: "nat list \<Rightarrow> codes option" where
  "decodePercentRun bs = text_decode bs"

text \<open>One pass: every maximal run is replaced by its decoded text, or the pass fails.\<close>

function decodePercentOnce :: "codes \<Rightarrow> codes option" where
  "decodePercentOnce [] = Some []"
| "decodePercentOnce (c # s) =
     (case percent_run (c # s) of
        (bs, r) \<Rightarrow>
          if bs = [] then map_option (Cons c) (decodePercentOnce s)
          else (case decodePercentRun bs of
                  None \<Rightarrow> None
                | Some d \<Rightarrow> map_option (append d) (decodePercentOnce r)))"
  by pat_completeness auto

termination
proof (relation "measure length", goal_cases)
  case (3 c s x bs r)
  then show ?case
    using percent_run_rest [of "c # s"] by (cases x; cases "percent_run (c # s)") auto
qed auto

text \<open>\<open>PERCENT_RUN.test(s)\<close>.\<close>

fun has_run :: "codes \<Rightarrow> bool" where
  "has_run [] = False"
| "has_run (c # s) = (fst (percent_run (c # s)) \<noteq> [] \<or> has_run s)"

definition MAX_DECODE_ROUNDS :: nat where "MAX_DECODE_ROUNDS = 4"

fun decode_rounds :: "nat \<Rightarrow> codes \<Rightarrow> codes option" where
  "decode_rounds 0 s = Some s"
| "decode_rounds (Suc n) s =
     (case decodePercentOnce s of None \<Rightarrow> None | Some t \<Rightarrow> decode_rounds n t)"

definition decodePercentRecursive :: "codes \<Rightarrow> codes option" where
  "decodePercentRecursive s =
     (case decode_rounds MAX_DECODE_ROUNDS s of
        None \<Rightarrow> None
      | Some t \<Rightarrow> if has_run t then None else Some t)"

subsection \<open>Dot segments\<close>

definition foldDotSegmentParams :: "codes \<Rightarrow> codes" where
  "foldDotSegmentParams seg =
     (let base = takeWhile (\<lambda>c. c \<noteq> 59) seg
      in if 59 \<notin> set seg then seg else if base = [46] \<or> base = [46, 46] then base else seg)"

definition collapse_step :: "codes list \<Rightarrow> codes \<Rightarrow> codes list" where
  "collapse_step segs raw =
     (let seg = foldDotSegmentParams raw
      in if seg = [] \<or> seg = [46] then segs
         else if seg = [46, 46] then butlast segs
         else segs @ [seg])"

definition slashed :: "codes \<Rightarrow> codes" where
  "slashed s = map (\<lambda>c. if c = 92 then 47 else c) s"

definition collapse_segments :: "codes \<Rightarrow> codes list" where
  "collapse_segments s = foldl collapse_step [] (split_on 47 (slashed s))"

definition collapseDotSegments :: "codes \<Rightarrow> codes" where
  "collapseDotSegments s = 47 # join_with [47] (collapse_segments s)"

definition normalizeUrlPath :: "codes \<Rightarrow> codes option" where
  "normalizeUrlPath raw = map_option collapseDotSegments (decodePercentRecursive raw)"

subsection \<open>Exclusion\<close>

definition isSubtreeOrEqual :: "codes \<Rightarrow> codes \<Rightarrow> bool" where
  "isSubtreeOrEqual path excluded \<longleftrightarrow>
     (if excluded = [47] then True else path = excluded \<or> starts_with (excluded @ [47]) path)"

definition normalizeExcludePaths :: "codes list \<Rightarrow> codes list" where
  "normalizeExcludePaths entries = List.map_filter normalizeUrlPath entries"

definition pathMatchesExclusions :: "codes \<Rightarrow> codes list \<Rightarrow> bool" where
  "pathMatchesExclusions path exclusions \<longleftrightarrow> list_ex (isSubtreeOrEqual path) exclusions"

definition pathIsExcluded :: "codes \<Rightarrow> codes list \<Rightarrow> bool" where
  "pathIsExcluded path excludePaths =
     (case normalizeUrlPath path of
        None \<Rightarrow> False
      | Some p \<Rightarrow> pathMatchesExclusions p (normalizeExcludePaths excludePaths))"

subsection \<open>Normal segments\<close>

definition normal_segment :: "codes \<Rightarrow> bool" where
  "normal_segment s \<longleftrightarrow> s \<noteq> [] \<and> s \<noteq> [46] \<and> s \<noteq> [46, 46] \<and> 47 \<notin> set s \<and> 92 \<notin> set s \<and>
     foldDotSegmentParams s = s"

lemma fold_idem: "foldDotSegmentParams (foldDotSegmentParams s) = foldDotSegmentParams s"
  by (auto simp: foldDotSegmentParams_def Let_def)

lemma fold_chars: "set (foldDotSegmentParams s) \<subseteq> set s"
proof -
  have "foldDotSegmentParams s = s \<or> foldDotSegmentParams s = takeWhile (\<lambda>c. c \<noteq> 59) s"
    by (auto simp: foldDotSegmentParams_def Let_def)
  then show ?thesis by (metis set_takeWhileD subsetI)
qed

lemma collapse_step_normal:
  assumes "\<forall>s \<in> set segs. normal_segment s" and "47 \<notin> set raw" and "92 \<notin> set raw"
  shows "\<forall>s \<in> set (collapse_step segs raw). normal_segment s"
  using assms fold_chars [of raw]
  by (auto simp: collapse_step_def Let_def normal_segment_def fold_idem dest: in_set_butlastD)

lemma collapse_fold_normal:
  "\<forall>s \<in> set segs. normal_segment s \<Longrightarrow> \<forall>r \<in> set raws. 47 \<notin> set r \<and> 92 \<notin> set r \<Longrightarrow>
   \<forall>s \<in> set (foldl collapse_step segs raws). normal_segment s"
proof (induction raws arbitrary: segs)
  case (Cons r raws)
  then have "\<forall>s \<in> set (collapse_step segs r). normal_segment s"
    by (intro collapse_step_normal) auto
  with Cons show ?case by simp
qed simp

lemma collapse_normal: "s \<in> set (collapse_segments p) \<Longrightarrow> normal_segment s"
proof -
  have "92 \<notin> set (slashed p)" by (auto simp: slashed_def)
  then have "\<forall>r \<in> set (split_on 47 (slashed p)). 47 \<notin> set r \<and> 92 \<notin> set r"
    using split_on_no_sep [of _ 47 "slashed p"] split_on_chars [of _ 47 "slashed p"] by blast
  then show "s \<in> set (collapse_segments p) \<Longrightarrow> normal_segment s"
    unfolding collapse_segments_def using collapse_fold_normal [of "[]"] by auto
qed

text \<open>Collapsing the rendering of normal segments gives them back.\<close>

lemma collapse_step_id: "normal_segment s \<Longrightarrow> collapse_step segs s = segs @ [s]"
  by (auto simp: collapse_step_def normal_segment_def)

lemma collapse_fold_id:
  "\<forall>s \<in> set raws. normal_segment s \<Longrightarrow> foldl collapse_step segs raws = segs @ raws"
  by (induction raws arbitrary: segs) (auto simp: collapse_step_id)

lemma slashed_id: "92 \<notin> set s \<Longrightarrow> slashed s = s"
  by (auto simp: slashed_def intro: map_idI)

lemma collapse_render:
  assumes "\<forall>s \<in> set segs. normal_segment s"
  shows "collapse_segments (47 # join_with [47] segs) = segs"
proof (cases segs)
  case Nil
  then show ?thesis
    by (simp add: collapse_segments_def slashed_def collapse_step_def foldDotSegmentParams_def)
next
  case (Cons x xs)
  have "92 \<notin> set (join_with [47] segs)"
    using assms set_join_with [of "[47]" segs] by (auto simp: normal_segment_def)
  then have "slashed (47 # join_with [47] segs) = 47 # join_with [47] segs"
    by (intro slashed_id) auto
  moreover have "split_on 47 (join_with [47] segs) = segs"
    using assms Cons by (intro split_on_join) (auto simp: normal_segment_def)
  moreover have "collapse_step [] [] = []"
    by (simp add: collapse_step_def foldDotSegmentParams_def)
  ultimately show ?thesis
    using collapse_fold_id [OF assms, of "[]"] by (simp add: collapse_segments_def)
qed

subsection \<open>Percent runs and normal paths\<close>

lemma no_run_decode: "\<not> has_run s \<Longrightarrow> decodePercentOnce s = Some s"
proof (induction s)
  case (Cons c s)
  then show ?case by (cases "percent_run (c # s)") auto
qed simp

lemma no_run_recursive: "\<not> has_run s \<Longrightarrow> decodePercentRecursive s = Some s"
proof -
  assume a: "\<not> has_run s"
  then have "decode_rounds n s = Some s" for n
    by (induction n) (simp_all add: no_run_decode)
  with a show ?thesis by (simp add: decodePercentRecursive_def)
qed

definition escape :: "codes \<Rightarrow> bool" where
  "escape x \<longleftrightarrow> (\<exists>a b. x = [37, a, b] \<and> hex_value a \<noteq> None \<and> hex_value b \<noteq> None)"

lemma percent_run_escape: "fst (percent_run s) \<noteq> [] \<longleftrightarrow> (\<exists>x t. escape x \<and> s = x @ t)"
proof -
  have "(\<exists>x t. escape x \<and> s = x @ t) \<longleftrightarrow>
      (\<exists>a b t. s = 37 # a # b # t \<and> hex_value a \<noteq> None \<and> hex_value b \<noteq> None)"
    unfolding escape_def by (metis append_Cons append_Nil)
  then show ?thesis
    by (cases s rule: percent_run.cases) (auto simp: case_prod_beta Let_def split: option.splits)
qed

lemma has_run_iff: "has_run s \<longleftrightarrow> (\<exists>x. escape x \<and> sublist x s)"
proof (induction s)
  case (Cons c s)
  have "(\<exists>x. escape x \<and> sublist x (c # s)) \<longleftrightarrow>
      (\<exists>x. escape x \<and> prefix x (c # s)) \<or> (\<exists>x. escape x \<and> sublist x s)"
    by (auto simp: sublist_Cons_right)
  with Cons show ?case
    by (simp add: percent_run_escape prefix_def)
qed (auto simp: escape_def)

lemma sublist_sep:
  "d \<notin> set x \<Longrightarrow> sublist x (a @ d # b) \<Longrightarrow> sublist x a \<or> sublist x b"
  by (auto simp: sublist_append sublist_Cons_right prefix_Cons)

lemma sublist_join:
  "x \<noteq> [] \<Longrightarrow> d \<notin> set x \<Longrightarrow> sublist x (join_with [d] xs) \<Longrightarrow> \<exists>s \<in> set xs. sublist x s"
proof (induction "[d]" xs rule: join_with.induct)
  case (3 y z xs)
  then show ?case using sublist_sep [of d x y "join_with [d] (z # xs)"] by auto
qed auto

lemma split_on_sublist: "x \<in> set (split_on d s) \<Longrightarrow> sublist x s"
proof -
  have "x \<in> set (split_on d s) \<Longrightarrow> sublist x s \<and> (x = hd (split_on d s) \<longrightarrow> prefix x s)"
  proof (induction s arbitrary: x)
    case (Cons c s)
    obtain y ys where y: "split_on d s = y # ys" by (cases "split_on d s") auto
    then have "prefix y s" using Cons.IH [of y] by auto
    with Cons y show ?case by (auto simp: sublist_Cons_right split: if_splits)
  qed simp
  then show "x \<in> set (split_on d s) \<Longrightarrow> sublist x s" by blast
qed

lemma escape_slashed:
  assumes "escape x" and "sublist x (slashed s)" shows "sublist x s"
proof -
  obtain a b u v where x: "x = [37, a, b]" and h: "hex_value a \<noteq> None" "hex_value b \<noteq> None"
    and s: "slashed s = u @ x @ v"
    using assms by (auto simp: escape_def sublist_def)
  define x' where "x' = take (length x) (drop (length u) s)"
  have s': "s = take (length u) s @ x' @ drop (length x) (drop (length u) s)" "slashed x' = x"
    using s by (simp_all add: x'_def slashed_def take_map [symmetric] drop_map [symmetric])
      (metis append_take_drop_id drop_drop)
  have "a \<noteq> 47" and "b \<noteq> 47" using h by (auto simp: hex_value_def)
  then have "x' = x"
    using s'(2) unfolding x slashed_def by (auto simp: Cons_eq_map_conv map_eq_Cons_conv split: if_splits)
  with s'(1) show ?thesis unfolding sublist_def by blast
qed

lemma fold_raw_cases:
  "foldDotSegmentParams r = r \<or> foldDotSegmentParams r \<in> {[46], [46, 46]}"
  by (auto simp: foldDotSegmentParams_def Let_def)

lemma collapse_from_raw:
  "s \<in> set (foldl collapse_step segs raws) \<Longrightarrow> s \<in> set segs \<or> s \<in> set raws"
proof (induction raws arbitrary: segs)
  case (Cons r raws)
  have "set (collapse_step segs r) \<subseteq> insert r (set segs)"
    using fold_raw_cases [of r] by (auto simp: collapse_step_def Let_def dest: in_set_butlastD)
  with Cons show ?case by fastforce
qed simp

lemma normal_no_run:
  assumes "\<not> has_run s" shows "\<not> has_run (collapseDotSegments s)"
proof
  assume "has_run (collapseDotSegments s)"
  then obtain x where x: "escape x" "sublist x (47 # join_with [47] (collapse_segments s))"
    by (auto simp: has_run_iff collapseDotSegments_def)
  have ne: "x \<noteq> []" "47 \<notin> set x"
    using x(1) by (auto simp: escape_def hex_value_def)
  have "sublist x (join_with [47] (collapse_segments s))"
    using sublist_sep [of 47 x "[]"] x(2) ne by auto
  then obtain seg where seg: "seg \<in> set (collapse_segments s)" "sublist x seg"
    using sublist_join [OF ne] by blast
  then have "seg \<in> set (split_on 47 (slashed s))"
    unfolding collapse_segments_def using collapse_from_raw [of seg "[]"] by auto
  then have "sublist seg (slashed s)"
    by (rule split_on_sublist)
  with seg(2) have "sublist x (slashed s)"
    by (rule sublist_order.order.trans)
  then show False
    using assms escape_slashed [OF x(1)] x(1) by (auto simp: has_run_iff)
qed

lemma decoded_no_run: "decodePercentRecursive s = Some t \<Longrightarrow> \<not> has_run t"
  by (auto simp: decodePercentRecursive_def split: option.splits if_splits)

lemma render_split:
  "xs \<noteq> [] \<Longrightarrow> \<forall>s \<in> set xs. normal_segment s \<Longrightarrow> split_on 47 (join_with [47] xs) = xs"
  by (intro split_on_join) (auto simp: normal_segment_def)

lemma render_not_Nil:
  assumes "xs \<noteq> []" and "\<forall>s \<in> set xs. normal_segment s"
  shows "join_with [47] xs \<noteq> []"
proof
  assume "join_with [47] xs = []"
  then have "xs = [[]]" using render_split [OF assms] by simp
  with assms(2) show False by (simp add: normal_segment_def)
qed

lemma subtree_join:
  "e \<noteq> [] \<Longrightarrow> isSubtreeOrEqual (47 # q) (47 # e) \<longleftrightarrow> q = e \<or> (\<exists>t. q = e @ 47 # t)"
  by (simp add: isSubtreeOrEqual_def starts_with_iff)

lemma prefix_join:
  assumes "\<forall>s \<in> set qs. normal_segment s" and "join_with [47] qs = e @ 47 # t"
  shows "qs = split_on 47 e @ split_on 47 t"
proof -
  have "qs \<noteq> []" using assms(2) by (cases qs) simp_all
  from render_split [OF this assms(1)] show ?thesis
    unfolding assms(2) by (simp add: split_on_append)
qed

lemma subtree_prefix:
  assumes "\<forall>s \<in> set es. normal_segment s" and "\<forall>s \<in> set qs. normal_segment s"
  shows "isSubtreeOrEqual (47 # join_with [47] qs) (47 # join_with [47] es) \<longleftrightarrow> prefix es qs"
proof (cases "es = []")
  case True
  then show ?thesis by (simp add: isSubtreeOrEqual_def)
next
  case False
  note es = render_split [OF False assms(1)]
  show ?thesis
    unfolding subtree_join [OF render_not_Nil [OF False assms(1)]]
  proof
    assume "join_with [47] qs = join_with [47] es \<or> (\<exists>t. join_with [47] qs = join_with [47] es @ 47 # t)"
    then show "prefix es qs"
    proof
      assume eq: "join_with [47] qs = join_with [47] es"
      with render_not_Nil [OF False assms(1)] have "qs \<noteq> []" by (cases qs) simp_all
      from render_split [OF this assms(2)] show ?thesis
        using es unfolding eq by simp
    next
      assume "\<exists>t. join_with [47] qs = join_with [47] es @ 47 # t"
      then obtain t where "join_with [47] qs = join_with [47] es @ 47 # t" ..
      from prefix_join [OF assms(2) this] show ?thesis unfolding es by (rule prefixI)
    qed
  next
    assume "prefix es qs"
    then obtain rs where "qs = es @ rs" by (rule prefixE)
    with False show "join_with [47] qs = join_with [47] es \<or>
        (\<exists>t. join_with [47] qs = join_with [47] es @ 47 # t)"
      by (cases "rs = []") (simp_all add: join_with_append)
  qed
qed

subsection \<open>Properties\<close>

text \<open>The abstract meaning of a path: its normal segments, if it can be decoded.\<close>

definition path_segments :: "codes \<Rightarrow> codes list option" where
  "path_segments p = map_option collapse_segments (decodePercentRecursive p)"

lemma normalize_segments:
  "normalizeUrlPath p = map_option (\<lambda>segs. 47 # join_with [47] segs) (path_segments p)"
  by (cases "decodePercentRecursive p")
     (simp_all add: normalizeUrlPath_def path_segments_def collapseDotSegments_def)

lemma path_segments_normal: "path_segments p = Some segs \<Longrightarrow> \<forall>s \<in> set segs. normal_segment s"
  by (auto simp: path_segments_def intro: collapse_normal)

text \<open>
  A normalised path is a slash and segments joined by slashes, none empty, a dot, a
  double dot or holding a slash or backslash, with no percent escape left; normalising it again
  changes nothing.
\<close>

theorem normalize_idempotent:
  assumes "normalizeUrlPath p = Some q"
  shows "normalizeUrlPath q = Some q \<and> \<not> has_run q \<and>
    (\<exists>segs. q = 47 # join_with [47] segs \<and> list_all normal_segment segs)"
proof -
  obtain t where t: "decodePercentRecursive p = Some t" and q: "q = collapseDotSegments t"
    using assms by (auto simp: normalizeUrlPath_def)
  have "\<not> has_run q"
    unfolding q by (rule normal_no_run [OF decoded_no_run [OF t]])
  moreover have "collapseDotSegments q = q"
    using collapse_render [of "collapse_segments t"] collapse_normal
    by (simp add: q collapseDotSegments_def)
  moreover have "q = 47 # join_with [47] (collapse_segments t) \<and>
      list_all normal_segment (collapse_segments t)"
    using collapse_normal by (auto simp: q collapseDotSegments_def list_all_iff)
  ultimately show ?thesis
    by (auto simp: normalizeUrlPath_def no_run_recursive)
qed

theorem normalize_idempotent_witness:
  "normalizeUrlPath (text_of ''/a//b/%2e%2E/./c'') = Some (text_of ''/a/c'') \<and>
   normalizeUrlPath (text_of ''/a/c'') = Some (text_of ''/a/c'')"
proof -
  have "normalizeUrlPath (text_of ''/a//b/%2e%2E/./c'') = Some (text_of ''/a/c'')"
    by code_simp
  then show ?thesis
    using normalize_idempotent [of "text_of ''/a//b/%2e%2E/./c''" "text_of ''/a/c''"] by simp
qed

text \<open>
  C21: a path is excluded exactly when it and some configured entry can be decoded and
  the entry's segments are an initial part of the path's segments; so no textual prefix, no
  encoding and no dot segment decides, and an undecodable path is never excluded.
\<close>

theorem exclusion_is_segment_prefix:
  "pathIsExcluded p entries \<longleftrightarrow>
     (\<exists>qs. path_segments p = Some qs \<and>
       (\<exists>e \<in> set entries. \<exists>es. path_segments e = Some es \<and> prefix es qs))"
proof (cases "path_segments p")
  case None
  then show ?thesis by (simp add: pathIsExcluded_def normalize_segments)
next
  case (Some qs)
  have mem: "x \<in> set (normalizeExcludePaths entries) \<longleftrightarrow>
      (\<exists>e \<in> set entries. \<exists>es. path_segments e = Some es \<and> x = 47 # join_with [47] es)" for x
    by (induction entries)
       (auto simp: normalizeExcludePaths_def map_filter_def normalize_segments)
  have sub: "isSubtreeOrEqual (47 # join_with [47] qs) (47 # join_with [47] es) \<longleftrightarrow> prefix es qs"
    if "path_segments e = Some es" for e es
    using path_segments_normal [OF that] path_segments_normal [OF Some] by (rule subtree_prefix)
  have "pathIsExcluded p entries \<longleftrightarrow>
      (\<exists>x \<in> set (normalizeExcludePaths entries). isSubtreeOrEqual (47 # join_with [47] qs) x)"
    using Some by (simp add: pathIsExcluded_def normalize_segments pathMatchesExclusions_def list_ex_iff)
  also have "\<dots> \<longleftrightarrow> (\<exists>e \<in> set entries. \<exists>es. path_segments e = Some es \<and>
      isSubtreeOrEqual (47 # join_with [47] qs) (47 # join_with [47] es))"
    unfolding Bex_def mem by blast
  also have "\<dots> \<longleftrightarrow> (\<exists>e \<in> set entries. \<exists>es. path_segments e = Some es \<and> prefix es qs)"
    using sub by blast
  finally show ?thesis using Some by simp
qed

lemma percent_run_before:
  assumes "percent_run (c # s) = ([], c # s)" and "run = 37 # r"
  shows "fst (percent_run (c # s @ run)) = []"
proof -
  have h: "hex_value 37 = None" by (simp add: hex_value_def)
  consider "s = []" | a where "s = [a]" | a b t where "s = a # b # t"
    by (metis list.exhaust)
  then show ?thesis
  proof cases
    case 1
    then show ?thesis using assms(2) h by (cases r) auto
  next
    case 2
    then show ?thesis using assms(2) h by (auto split: option.splits)
  next
    case 3
    then show ?thesis
      using assms(1) by (auto simp: case_prod_beta Let_def split: option.splits if_splits)
  qed
qed

text \<open>
  A percent-encoded byte order mark vanishes when it ends a path without other escapes (the
  browser decoder drops it, the reference's does not), so such a path matches the exclusions of
  the path without it.
\<close>

theorem encoded_bom_vanishes:
  assumes "\<not> has_run p"
  shows "normalizeUrlPath (p @ text_of ''%EF%BB%BF'') = normalizeUrlPath p"
proof -
  let ?bom = "[37, 69, 70, 37, 66, 66, 37, 66, 70] :: codes"
  have bom: "text_of ''%EF%BB%BF'' = ?bom"
    by (simp add: text_of_def)
  have dec: "decodePercentOnce ?bom = Some []"
    by (simp add: hex_value_def decodePercentRun_def text_decode_def)
  have "decodePercentOnce (p @ ?bom) = Some p"
    using assms
  proof (induction p)
    case (Cons c s)
    have "percent_run (c # s) = ([], c # s)"
      using Cons.prems by (cases "c # s" rule: percent_run.cases)
        (auto simp: case_prod_beta Let_def split: option.splits if_splits)
    then have "fst (percent_run (c # s @ ?bom)) = []"
      by (rule percent_run_before) simp
    with Cons show ?case
      by (cases "percent_run (c # s @ ?bom)") (simp add: case_prod_beta del: percent_run.simps)
  qed (use dec in simp)
  moreover have "decode_rounds n p = Some p" for n
    using no_run_decode [OF assms] by (induction n) simp_all
  ultimately have "decode_rounds 4 (p @ ?bom) = Some p" and "decode_rounds 4 p = Some p"
    by (simp_all add: numeral_eq_Suc)
  then show ?thesis
    unfolding bom normalizeUrlPath_def decodePercentRecursive_def MAX_DECODE_ROUNDS_def by simp
qed

theorem encoded_bom_vanishes_witness:
  "normalizeUrlPath (text_of ''/docs'' @ text_of ''%EF%BB%BF'') = normalizeUrlPath (text_of ''/docs'')"
  by (rule encoded_bom_vanishes) code_simp

end
