(* ===== verification/Response_Factory.thy ===== *)
theory Response_Factory
  imports Redis_Manager
begin

section \<open>ErrorResponseFactory (core/responses/factory.ts), response building\<close>

text \<open>
  The error, redirect and decorated responses. The response object is the record of
  \<open>Guard_Types\<close>; a \<open>customResponseModifier\<close> that throws makes the result an error. The
  behavioral part of \<open>processResponse\<close> is in \<open>Behavior_Processor\<close>.
\<close>

definition set_headers :: "(string, string) omap \<Rightarrow> response \<Rightarrow> response" where
  "set_headers hs r = fold (\<lambda>(n, v). set_header n v) hs r"

definition applySecurityHeaders :: "'r env \<Rightarrow> config \<Rightarrow> response \<Rightarrow> string option \<Rightarrow> response" where
  "applySecurityHeaders E C r path =
     (if c_sec_headers C
      then set_headers (e_security_headers E (case path of None \<Rightarrow> ''/'' | Some p \<Rightarrow> p)) r
      else r)"

definition applyCorsHeaders :: "'r env \<Rightarrow> response \<Rightarrow> string \<Rightarrow> response" where
  "applyCorsHeaders E r origin = set_headers (e_cors_headers E origin) r"

definition applyModifier :: "config \<Rightarrow> response \<Rightarrow> exn + response" where
  "applyModifier C r = (case c_modifier C of None \<Rightarrow> Inr r | Some f \<Rightarrow> f r)"

definition createErrorResponse :: "'r env \<Rightarrow> config \<Rightarrow> int \<Rightarrow> string \<Rightarrow> exn + response" where
  "createErrorResponse E C status dflt =
     (let message = om_get_or dflt (c_error_responses C) status
      in applyModifier C (applySecurityHeaders E C (e_mk_response E message status) None))"

definition createHttpsRedirect :: "'r env \<Rightarrow> config \<Rightarrow> request \<Rightarrow> exn + response" where
  "createHttpsRedirect E C rq = applyModifier C (e_mk_redirect E (rq_replace_scheme rq ''https'') 301)"

subsection \<open>Decoration never changes the status or the body\<close>

lemma set_header_sel [simp]:
  "rs_status (set_header n v r) = rs_status r" "rs_body (set_header n v r) = rs_body r"
  by (simp_all add: set_header_def)

lemma set_header_get: "map_of (rs_headers (set_header n v r)) n = Some v"
  by (simp add: set_header_def)

lemma set_headers_sel [simp]:
  "rs_status (set_headers hs r) = rs_status r" "rs_body (set_headers hs r) = rs_body r"
  by (induction hs arbitrary: r) (auto simp: set_headers_def)

lemma security_headers_sel [simp]:
  "rs_status (applySecurityHeaders E C r p) = rs_status r"
  "rs_body (applySecurityHeaders E C r p) = rs_body r"
  by (simp_all add: applySecurityHeaders_def)

lemma cors_sel [simp]:
  "rs_status (applyCorsHeaders E r p) = rs_status r" "rs_body (applyCorsHeaders E r p) = rs_body r"
  by (simp_all add: applyCorsHeaders_def)

text \<open>Without a modifier an error response always exists.\<close>

lemma error_response_plain:
  "c_modifier C = None \<Longrightarrow>
   createErrorResponse E C st msg =
     Inr (applySecurityHeaders E C (e_mk_response E (om_get_or msg (c_error_responses C) st) st) None)"
  by (simp add: createErrorResponse_def applyModifier_def)

end
