(* ===== verification/Routing.thy ===== *)
theory Routing
  imports Ip_Access Path_Matching Response_Factory
begin

section \<open>Route resolution, request validation, bypass (core/routing, core/validation, core/bypass)\<close>

subsection \<open>RouteConfigResolver (core/routing/resolver.ts)\<close>

record path_entry =
  pe_method :: "string option"
  pe_path :: string
  pe_config :: route_config
  pe_lower_method :: "string option"

record resolver =
  rr_decorator :: decorator
  rr_entries :: "path_entry list"

definition setGuardDecorator :: "decorator \<Rightarrow> resolver \<Rightarrow> resolver" where
  "setGuardDecorator d R = R\<lparr>rr_decorator := d\<rparr>"

text \<open>\<open>entry.method ? entry.method.toLowerCase() : null\<close>.\<close>

definition lower_method :: "path_entry \<Rightarrow> path_entry" where
  "lower_method e = e\<lparr>pe_lower_method :=
     (case pe_method e of None \<Rightarrow> None | Some m \<Rightarrow> if m = [] then None else Some (to_lower m))\<rparr>"

text \<open>\<open>Array.prototype.sort\<close> is stable, as \<open>sort_key\<close> is; longest path first.\<close>

definition registerPathRouteConfigs :: "path_entry list \<Rightarrow> resolver \<Rightarrow> resolver" where
  "registerPathRouteConfigs entries R =
     R\<lparr>rr_entries := sort_key (\<lambda>e. - int (length (pe_path e))) (rr_entries R @ map lower_method entries)\<rparr>"

definition entry_applies :: "string \<Rightarrow> string \<Rightarrow> path_entry \<Rightarrow> bool" where
  "entry_applies m path e \<longleftrightarrow>
     (case pe_lower_method e of None \<Rightarrow> True | Some lm \<Rightarrow> lm = m) \<and>
     (if ends_with ''/*'' (pe_path e)
      then (let prefix = take (length (pe_path e) - 2) (pe_path e)
            in path = prefix \<or> starts_with (prefix @ ''/'') path)
      else pe_path e = path)"

fun first_entry :: "string \<Rightarrow> string \<Rightarrow> path_entry list \<Rightarrow> route_config option" where
  "first_entry m path [] = None"
| "first_entry m path (e # es) =
     (if entry_applies m path e then Some (pe_config e) else first_entry m path es)"

definition matchPathEntry :: "resolver \<Rightarrow> request \<Rightarrow> route_config option" where
  "matchPathEntry R rq = first_entry (to_lower (rq_method rq)) (rq_path rq) (rr_entries R)"

definition mark_unresolved :: "('r, unit) eff" where
  "mark_unresolved = modify (\<lambda>w. w\<lparr>w_req := (w_req w)\<lparr>st_unresolved := True\<rparr>\<rparr>)"

definition lookupRouteId :: "resolver \<Rightarrow> string \<Rightarrow> ('r, route_config option) eff" where
  "lookupRouteId R routeId =
     bnd (gets (\<lambda>w. case rr_decorator R of NoDecorator \<Rightarrow> st_decorator (w_req w) | d \<Rightarrow> d)) (\<lambda>decorator.
       case decorator of
         NoDecorator \<Rightarrow> ret None
       | BadDecorator \<Rightarrow> thn mark_unresolved (ret None)
       | Decorator getConfig \<Rightarrow>
           (case getConfig routeId of
              Inl _ \<Rightarrow> thn mark_unresolved (ret None)
            | Inr None \<Rightarrow> thn mark_unresolved (ret None)
            | Inr (Some rc) \<Rightarrow> ret (Some rc)))"

definition getRouteConfig :: "resolver \<Rightarrow> request \<Rightarrow> ('r, route_config option) eff" where
  "getRouteConfig R rq =
     bnd (gets w_req) (\<lambda>rs.
       case st_direct_route rs of
         Some rc \<Rightarrow> ret (Some rc)
       | None \<Rightarrow>
           (case st_route_id rs of
              None \<Rightarrow> ret (matchPathEntry R rq)
            | Some routeId \<Rightarrow>
                if routeId = [] then ret (matchPathEntry R rq)
                else bnd (lookupRouteId R routeId) (\<lambda>routed.
                  case routed of
                    Some rc \<Rightarrow> ret (Some rc)
                  | None \<Rightarrow> ret (matchPathEntry R rq))))"

definition shouldBypassCheck :: "string \<Rightarrow> route_config option \<Rightarrow> bool" where
  "shouldBypassCheck name rc =
     (case rc of None \<Rightarrow> False | Some r \<Rightarrow> name \<in> set (rc_bypassed r) \<or> ''all'' \<in> set (rc_bypassed r))"

definition getCloudProvidersToCheck :: "config \<Rightarrow> route_config option \<Rightarrow> string list option" where
  "getCloudProvidersToCheck C rc =
     (if (case rc of None \<Rightarrow> False | Some r \<Rightarrow> rc_block_clouds r \<noteq> [])
      then Some (rc_block_clouds (the rc))
      else if c_block_clouds C \<noteq> [] then Some (c_block_clouds C)
      else None)"

subsection \<open>Detection exclusions (core/routing/detection-exclusions.ts)\<close>

record exclusions =
  de_params :: "string list"
  de_body :: "string list"
  de_headers :: "string list"
  de_enabled :: "string list option"
  de_scan_body :: bool

definition EXCLUDED_HEADERS :: "string list" where
  "EXCLUDED_HEADERS = [
     ''host'', ''user-agent'', ''accept'', ''accept-encoding'', ''connection'',
     ''origin'', ''referer'', ''sec-fetch-site'', ''sec-fetch-mode'', ''sec-fetch-dest'',
     ''sec-ch-ua'', ''sec-ch-ua-mobile'', ''sec-ch-ua-platform'',
     ''forwarded'', ''x-forwarded-for'', ''x-forwarded-host'', ''x-forwarded-proto'',
     ''x-real-ip'', ''x-client-ip'', ''x-cluster-client-ip'', ''cf-connecting-ip'',
     ''true-client-ip'', ''fly-client-ip'', ''x-envoy-external-address'']"

definition ALL_DETECTION_CATEGORIES :: "string list" where
  "ALL_DETECTION_CATEGORIES = [
     ''xss'', ''sqli'', ''dir_traversal'', ''path_traversal'', ''cmd_injection'', ''file_inclusion'',
     ''ldap'', ''xml'', ''ssrf'', ''nosql'', ''file_upload'', ''template'', ''http_split'',
     ''sensitive_file'', ''cms_probing'', ''recon'', ''proto_pollution'', ''code_injection'',
     ''deserialization'']"

text \<open>The route half of the resolution, over what the global configuration gave.\<close>

definition route_override :: "config option \<Rightarrow> route_config \<Rightarrow> exclusions \<Rightarrow> exclusions" where
  "route_override C r x = \<lparr>
     de_params = (case rc_excl_params r of None \<Rightarrow> de_params x | Some l \<Rightarrow> map to_lower l),
     de_body = (case rc_excl_body r of None \<Rightarrow> de_body x | Some l \<Rightarrow> map to_lower l),
     de_headers = de_headers x @ (case rc_excl_headers r of None \<Rightarrow> [] | Some l \<Rightarrow> map to_lower l),
     de_enabled = (case rc_enabled_cats r of None \<Rightarrow> de_enabled x | Some l \<Rightarrow> Some l),
     de_scan_body = (case rc_scan_body r of
        Some b \<Rightarrow> b
      | None \<Rightarrow> (case C of None \<Rightarrow> de_scan_body x | Some c \<Rightarrow> c_scan_body c))\<rparr>"

definition resolveDetectionExclusions :: "config option \<Rightarrow> route_config option \<Rightarrow> exclusions" where
  "resolveDetectionExclusions C route =
     (let base = (case C of
          None \<Rightarrow> \<lparr>de_params = [], de_body = [], de_headers = EXCLUDED_HEADERS, de_enabled = None,
                   de_scan_body = True\<rparr>
        | Some c \<Rightarrow> \<lparr>de_params = map to_lower (c_excl_params c), de_body = map to_lower (c_excl_body c),
                   de_headers = EXCLUDED_HEADERS @ map to_lower (c_excl_headers c),
                   de_enabled = Some (c_enabled_cats c), de_scan_body = True\<rparr>)
      in case route of
           Some r \<Rightarrow> route_override C r base
         | None \<Rightarrow> (case C of None \<Rightarrow> base | Some c \<Rightarrow> base\<lparr>de_scan_body := c_scan_body c\<rparr>))"

definition disabledCategoriesOf :: "exclusions \<Rightarrow> string list" where
  "disabledCategoriesOf x =
     (case de_enabled x of
        None \<Rightarrow> []
      | Some on \<Rightarrow> filter (\<lambda>c. c \<notin> set on) ALL_DETECTION_CATEGORIES)"

subsection \<open>RequestValidator (core/validation/validator.ts)\<close>

definition isRequestHttps :: "'r env \<Rightarrow> config \<Rightarrow> request \<Rightarrow> bool" where
  "isRequestHttps E C rq =
     (let direct = (rq_scheme rq = ''https'')
      in if c_trust_xfp C \<and> c_trusted_proxies C \<noteq> [] then
           (case client_host rq of
              None \<Rightarrow> direct
            | Some h \<Rightarrow>
                if isTrustedProxy E h (c_trusted_proxies C)
                then direct \<or> to_lower (header_or [] rq ''x-forwarded-proto'') = ''https''
                else direct)
         else direct)"

text \<open>JavaScript's order on strings: code unit by code unit, a proper prefix first.\<close>

fun str_less :: "string \<Rightarrow> string \<Rightarrow> bool" where
  "str_less _ [] = False"
| "str_less [] (_ # _) = True"
| "str_less (a # s) (b # t) =
     (let x = (of_char a :: nat); y = of_char b in if x = y then str_less s t else x < y)"

definition checkTimeWindow :: "'r env \<Rightarrow> string \<times> string \<Rightarrow> rat \<Rightarrow> bool" where
  "checkTimeWindow E tw now =
     (let start = fst tw; stop = snd tw; currentTime = e_hhmm E now
      in if str_less stop start
         then \<not> str_less currentTime start \<or> \<not> str_less stop currentTime
         else \<not> str_less currentTime start \<and> \<not> str_less stop currentTime)"

definition isPathExcluded :: "'r env \<Rightarrow> config \<Rightarrow> request \<Rightarrow> ('r, bool) eff" where
  "isPathExcluded E C rq =
     (let excluded = pathIsExcluded (text_of (rq_path rq)) (map text_of (c_exclude_paths C))
      in thn (when_eff excluded
                (sendMiddlewareEvent E C ''path_excluded'' rq ''security_checks_bypassed''
                   (''Path '' @ rq_path rq @ '' excluded from security checks'')
                   [(''excludedPath'', MStr (rq_path rq)),
                    (''configuredExclusions'', MList (c_exclude_paths C))]))
           (ret excluded))"

subsection \<open>BypassHandler (core/bypass/handler.ts)\<close>

definition handlePassthrough ::
  "'r env \<Rightarrow> config \<Rightarrow> request \<Rightarrow> (request \<Rightarrow> ('r, response) eff) \<Rightarrow> ('r, response option) eff"
where
  "handlePassthrough E C rq callNext =
     (let pass = bnd (callNext rq) (\<lambda>r. bnd (lift_res (applyModifier C r)) (\<lambda>r'. ret (Some r')))
      in if client_host rq = None then pass
         else bnd (isPathExcluded E C rq) (\<lambda>excluded. if excluded then pass else ret None))"

definition handleSecurityBypass ::
  "'r env \<Rightarrow> config \<Rightarrow> request \<Rightarrow> (request \<Rightarrow> ('r, response) eff) \<Rightarrow> route_config option
     \<Rightarrow> ('r, response option) eff"
where
  "handleSecurityBypass E C rq callNext route =
     (if \<not> shouldBypassCheck ''all'' route then ret None
      else
        thn (sendMiddlewareEvent E C ''security_bypass'' rq ''all_checks_bypassed''
               ''Route configured to bypass all security checks''
               [(''bypassedChecks'', MList (rc_bypassed (the route))), (''endpoint'', MStr (rq_path rq))])
          (if \<not> c_passive C
           then bnd (callNext rq) (\<lambda>r. bnd (lift_res (applyModifier C r)) (\<lambda>r'. ret (Some r')))
           else ret None))"

subsection \<open>What resolution and validation keep\<close>

lemma calm_getRouteConfig [calm_intros]: "never_raises (getRouteConfig R rq)"
  unfolding getRouteConfig_def lookupRouteId_def mark_unresolved_def
  by (intro calm_intros) (auto split: decorator.splits sum.splits option.splits intro!: calm_intros)

lemma keeps_path_excluded [keeps_intros]: "offline P \<Longrightarrow> keeps P (isPathExcluded E C rq)"
  unfolding isPathExcluded_def Let_def by (intro keeps_intros)

lemma calm_path_excluded [calm_intros]: "never_raises (isPathExcluded E C rq)"
  unfolding isPathExcluded_def Let_def by (intro calm_intros)

subsection \<open>Properties\<close>

lemma first_entry_None: "first_entry m path es = None \<longleftrightarrow> \<not> (\<exists>e \<in> set es. entry_applies m path e)"
  by (induction es) auto

lemma first_entry_longest:
  "sorted (map (\<lambda>e. - int (length (pe_path e))) es) \<Longrightarrow> first_entry m path es = Some rc \<Longrightarrow>
   \<exists>e \<in> set es. pe_config e = rc \<and> entry_applies m path e \<and>
     (\<forall>e' \<in> set es. entry_applies m path e' \<longrightarrow> length (pe_path e') \<le> length (pe_path e))"
proof (induction es)
  case (Cons e es)
  show ?case
  proof (cases "entry_applies m path e")
    case True
    with Cons.prems show ?thesis by (intro bexI [of _ e]) auto
  next
    case False
    with Cons show ?thesis by auto
  qed
qed simp

text \<open>
  After a registration the path entry that decides a request is one that applies to its method
  and path and no applying entry has a longer path; no configuration is found exactly when no
  entry applies.
\<close>

theorem longest_route_wins:
  "let R' = registerPathRouteConfigs entries R;
       applies = entry_applies (to_lower (rq_method rq)) (rq_path rq)
   in case matchPathEntry R' rq of
        None \<Rightarrow> \<not> list_ex applies (rr_entries R')
      | Some rc \<Rightarrow> list_ex (\<lambda>e. pe_config e = rc \<and> applies e \<and>
          list_all (\<lambda>e'. length (pe_path e') \<le> length (pe_path e)) (filter applies (rr_entries R')))
          (rr_entries R')"
proof -
  let ?R = "registerPathRouteConfigs entries R"
  have sorted: "sorted (map (\<lambda>e. - int (length (pe_path e))) (rr_entries ?R))"
    by (simp add: registerPathRouteConfigs_def)
  show ?thesis
  proof (cases "matchPathEntry ?R rq")
    case None
    then have "\<not> list_ex (entry_applies (to_lower (rq_method rq)) (rq_path rq)) (rr_entries ?R)"
      by (simp add: matchPathEntry_def first_entry_None list_ex_iff)
    with None show ?thesis by (simp add: Let_def)
  next
    case (Some rc)
    from first_entry_longest [OF sorted this [unfolded matchPathEntry_def]] Some show ?thesis
      by (auto simp: Let_def list_ex_iff list_all_iff)
  qed
qed

text \<open>
  The request-wide exclusions: a route list replaces the global one for parameters and body
  fields, header exclusions only ever grow (the built-in set stays excluded whatever the
  configuration), and the categories switched off are exactly the known ones outside the list in
  force, the route's if it has one.
\<close>

theorem exclusions_resolved:
  "let x = resolveDetectionExclusions (Some C) (Some r);
       or_else = (\<lambda>l d. case l of None \<Rightarrow> d | Some y \<Rightarrow> y)
   in set (de_params x) = to_lower ` set (or_else (rc_excl_params r) (c_excl_params C)) \<and>
      set (de_body x) = to_lower ` set (or_else (rc_excl_body r) (c_excl_body C)) \<and>
      set (de_headers x) = set EXCLUDED_HEADERS \<union> to_lower ` set (c_excl_headers C)
        \<union> to_lower ` set (or_else (rc_excl_headers r) []) \<and>
      set (disabledCategoriesOf x) =
        set ALL_DETECTION_CATEGORIES - set (or_else (rc_enabled_cats r) (c_enabled_cats C)) \<and>
      de_scan_body x = (case rc_scan_body r of None \<Rightarrow> c_scan_body C | Some b \<Rightarrow> b)"
proof -
  let ?x = "resolveDetectionExclusions (Some C) (Some r)"
  have "set (disabledCategoriesOf ?x) = set ALL_DETECTION_CATEGORIES
      - set (case rc_enabled_cats r of None \<Rightarrow> c_enabled_cats C | Some l \<Rightarrow> l)"
    unfolding disabledCategoriesOf_def resolveDetectionExclusions_def route_override_def Let_def
    by (cases "rc_enabled_cats r") auto
  then show ?thesis
    unfolding resolveDetectionExclusions_def route_override_def Let_def
    by (auto split: option.splits)
qed

text \<open>Clock times as text, minutes of the day as numbers.\<close>

definition two_digits :: "nat \<Rightarrow> string" where
  "two_digits n = [char_of (48 + n div 10), char_of (48 + n mod 10)]"

definition hhmm :: "nat \<Rightarrow> string" where
  "hhmm m = two_digits (m div 60) @ '':'' @ two_digits (m mod 60)"

lemma div_mod_less:
  assumes "0 < (k :: nat)"
  shows "a < b \<longleftrightarrow> a div k < b div k \<or> (a div k = b div k \<and> a mod k < b mod k)"
proof -
  consider "a div k < b div k" | "b div k < a div k" | "a div k = b div k" by linarith
  then show ?thesis
  proof cases
    case 1
    then have "\<not> b \<le> a" using div_le_mono leD by blast
    with 1 show ?thesis by simp
  next
    case 2
    then have "\<not> a \<le> b" using div_le_mono leD by blast
    with 2 show ?thesis by simp
  next
    case 3
    have "a = k * (a div k) + a mod k" and "b = k * (b div k) + b mod k" by simp_all
    then show ?thesis unfolding 3 by linarith
  qed
qed

lemma less_two_digits:
  assumes "a < 100" and "b < 100"
  shows "str_less (two_digits a @ s) (two_digits b @ t) \<longleftrightarrow> a < b \<or> (a = b \<and> str_less s t)"
proof -
  have lt: "a div 10 < 10" "b div 10 < 10" using assms by simp_all
  have "str_less (two_digits a @ s) (two_digits b @ t) \<longleftrightarrow>
      (if a div 10 = b div 10 then (if a mod 10 = b mod 10 then str_less s t else a mod 10 < b mod 10)
       else a div 10 < b div 10)"
    using lt by (simp add: two_digits_def Let_def)
  moreover have "a = b \<longleftrightarrow> a div 10 = b div 10 \<and> a mod 10 = b mod 10"
    by (metis div_mult_mod_eq)
  ultimately show ?thesis
    using div_mod_less [of 10 a b] by auto
qed

lemma less_hhmm:
  assumes "a < 1440" and "b < 1440"
  shows "str_less (hhmm a) (hhmm b) \<longleftrightarrow> a < b"
proof -
  have "a div 60 < 100" "b div 60 < 100"
    using assms by (simp_all add: less_mult_imp_div_less)
  moreover have "a mod 60 < 100" "b mod 60 < 100"
    by (rule less_trans [OF mod_less_divisor], simp_all)+
  ultimately have "str_less (hhmm a) (hhmm b) \<longleftrightarrow>
      a div 60 < b div 60 \<or> (a div 60 = b div 60 \<and> a mod 60 < b mod 60)"
    using less_two_digits [of "a mod 60" "b mod 60" "[]" "[]"]
    by (simp add: hhmm_def less_two_digits Let_def)
  then show ?thesis using div_mod_less [of 60 a b] by simp
qed

lemma mod_day:
  assumes "(0 :: int) \<le> x" and "x < 1440" and "0 \<le> y" and "y < 1440"
  shows "(x - y) mod 1440 = (if y \<le> x then x - y else x - y + 1440)"
proof (cases "y \<le> x")
  case True
  then show ?thesis using assms by simp
next
  case False
  have "(x - y) mod 1440 = (x - y + 1440) mod 1440" by simp
  also have "\<dots> = x - y + 1440" using False assms by (intro mod_pos_pos_trivial) auto
  finally show ?thesis using False by simp
qed

text \<open>
  A time window written as two clock times is tested by text comparison, and the answer is the
  circular one: the clock is inside when it is no further after the start, counted in minutes
  around the day, than the end is; a window across midnight included.
\<close>

theorem time_window_circular:
  assumes "s < 1440" and "e < 1440" and "n < 1440" and "e_hhmm E now = hhmm n"
  shows "checkTimeWindow E (hhmm s, hhmm e) now \<longleftrightarrow>
    (int n - int s) mod 1440 \<le> (int e - int s) mod 1440"
proof -
  have "checkTimeWindow E (hhmm s, hhmm e) now \<longleftrightarrow>
      (if e < s then s \<le> n \<or> n \<le> e else s \<le> n \<and> n \<le> e)"
    using assms by (auto simp: checkTimeWindow_def less_hhmm not_less)
  also have "\<dots> \<longleftrightarrow> (int n - int s) mod 1440 \<le> (int e - int s) mod 1440"
    using assms(1-3) by (simp add: mod_day)
  finally show ?thesis .
qed

theorem time_window_circular_witness:
  "checkTimeWindow (ex_env\<lparr>e_hhmm := (\<lambda>_. hhmm 30)\<rparr>) (hhmm 1320, hhmm 360) 0"
  using time_window_circular [of 1320 360 30 "ex_env\<lparr>e_hhmm := (\<lambda>_. hhmm 30)\<rparr>" 0] by simp

end
