(* ===== verification/Request_Scan.thy ===== *)
theory Request_Scan
  imports Routing
begin

section \<open>The request scan (utils.ts, the penetration detection surface)\<close>

text \<open>
  Which values of a request reach the detection engine, in which order, under which context and
  with which categories switched off: query parameters, path, headers, then the body as form,
  multipart, JSON or blob, with JSON inside any value walked first. The engine's verdict on one
  value (\<open>SusPatternsManager.detect\<close>), the form and multipart splitters and the bounded body read
  are parameters. A scan takes the budget and returns the first hit's message, if any, and the
  new budget.
\<close>

definition MAX_SCAN_VALUES :: nat where "MAX_SCAN_VALUES = 512"
definition MAX_SCAN_CHARS :: nat where "MAX_SCAN_CHARS = 65536"
definition MAX_JSON_DEPTH :: nat where "MAX_JSON_DEPTH = 32"

record budget =
  sb_values :: nat
  sb_chars :: nat
  sb_cats :: "string list"

type_synonym scan = "budget \<Rightarrow> string option \<times> budget"

text \<open>The scan that finds nothing and counts nothing.\<close>

definition no_hit :: scan where
  "no_hit b = (None, b)"

subsection \<open>Header routing\<close>

definition ADDRESS_HEADERS :: "string list" where
  "ADDRESS_HEADERS = [
     ''host'', ''origin'', ''x-forwarded-for'', ''x-forwarded-host'', ''x-real-ip'',
     ''x-client-ip'', ''x-cluster-client-ip'', ''cf-connecting-ip'',
     ''true-client-ip'', ''fly-client-ip'', ''x-envoy-external-address'', ''via'']"

definition SSRF_SKIP_CATEGORIES :: "string list" where
  "SSRF_SKIP_CATEGORIES = [''ssrf'']"

text \<open>A colon followed by digits only, as the whole text.\<close>

definition is_port_suffix :: "string \<Rightarrow> bool" where
  "is_port_suffix s \<longleftrightarrow> (case s of [] \<Rightarrow> False
     | c # ds \<Rightarrow> c = CHR '':'' \<and> ds \<noteq> [] \<and> list_all is_digit ds)"

definition stripForwardedEntryPort :: "string \<Rightarrow> string" where
  "stripForwardedEntryPort v =
     (if starts_with ''['' v then
        (let inside = takeWhile (\<lambda>c. c \<noteq> CHR '']'') v;
             remainder = drop (Suc (length inside)) v
         in if CHR '']'' \<notin> set v then v
            else if remainder \<noteq> [] \<and> \<not> is_port_suffix remainder then v
            else drop 1 inside)
      else if count_list v (CHR '':'') = 1 then
        (let host = takeWhile (\<lambda>c. c \<noteq> CHR '':'') v
         in if is_port_suffix (drop (length host) v) then host else v)
      else v)"

definition valueLooksLikeAddressChain :: "'r env \<Rightarrow> string \<Rightarrow> bool" where
  "valueLooksLikeAddressChain E v =
     (let tokens = forwarded_ips v
      in if tokens = [] then False else list_all (\<lambda>t. e_is_ip E (stripForwardedEntryPort t)) tokens)"

definition excludedHeaderSkipCategories :: "'r env \<Rightarrow> string \<Rightarrow> string \<Rightarrow> string list option" where
  "excludedHeaderSkipCategories E nameLower v =
     (if nameLower \<in> set ADDRESS_HEADERS then Some SSRF_SKIP_CATEGORIES
      else if valueLooksLikeAddressChain E v then Some SSRF_SKIP_CATEGORIES
      else None)"

definition effectiveSkipCategories :: "exclusions \<Rightarrow> string list option \<Rightarrow> string list" where
  "effectiveSkipCategories x skip =
     (case skip of None \<Rightarrow> disabledCategoriesOf x | Some s \<Rightarrow> disabledCategoriesOf x @ s)"

definition isExcludedParam :: "exclusions \<Rightarrow> string \<Rightarrow> bool" where
  "isExcludedParam x key \<longleftrightarrow> to_lower key \<in> set (de_params x)"

definition isExcludedBodyField :: "exclusions \<Rightarrow> string \<Rightarrow> bool" where
  "isExcludedBodyField x name \<longleftrightarrow> to_lower name \<in> set (de_body x)"

subsection \<open>Budget and one value\<close>

definition scanBudgetExhausted :: "budget \<Rightarrow> string \<Rightarrow> bool \<times> budget" where
  "scanBudgetExhausted b v =
     (let b1 = b\<lparr>sb_values := sb_values b + 1\<rparr>
      in if sb_values b1 > MAX_SCAN_VALUES then (True, b1)
         else if sb_chars b1 \<ge> MAX_SCAN_CHARS then (True, b1)
         else (False, b1\<lparr>sb_chars := sb_chars b1 + length v\<rparr>))"

text \<open>\<open>/score=([\d.]+)/.exec(s)\<close>: the first match's group.\<close>

definition is_score_char :: "char \<Rightarrow> bool" where
  "is_score_char c \<longleftrightarrow> is_digit c \<or> c = CHR ''.''"

fun score_match :: "string \<Rightarrow> string option" where
  "score_match [] = None"
| "score_match (c # s) =
     (let ds = takeWhile is_score_char (drop 6 (c # s))
      in if starts_with ''score='' (c # s) \<and> ds \<noteq> [] then Some ds else score_match s)"

definition buildThreatMessage :: "'r env \<Rightarrow> detection \<Rightarrow> string" where
  "buildThreatMessage E r =
     (case dt_threats r of
        [] \<Rightarrow> ''Threat detected''
      | t # _ \<Rightarrow>
          if th_semantic t then
            (let kind = drop 9 (th_pattern t);
                 score = (case score_match (th_content t) of None \<Rightarrow> ''0.00'' | Some s \<Rightarrow> e_score2 E s)
             in ''Semantic attack: '' @ (if kind = [] then ''suspicious'' else kind) @ '' (score: '' @ score @ '')'')
          else ''Value matched pattern '' @ quoted (th_pattern t))"

definition recordHitCategories :: "budget \<Rightarrow> detection \<Rightarrow> budget" where
  "recordHitCategories b r =
     b\<lparr>sb_cats := fold (\<lambda>c acc. if c \<in> set acc then acc else acc @ [c]) (dt_categories r) (sb_cats b)\<rparr>"

text \<open>The guarded engine call: an engine error reads as no threat.\<close>

definition run_detect :: "'r env \<Rightarrow> detector \<Rightarrow> string \<Rightarrow> string list \<Rightarrow> string \<Rightarrow> string \<Rightarrow> scan" where
  "run_detect E D ip skip ctx v b =
     (case D v ip ctx skip of
        Inl _ \<Rightarrow> (None, b)
      | Inr r \<Rightarrow>
          if \<not> dt_threat r then (None, b)
          else (Some (buildThreatMessage E r), recordHitCategories b r))"

definition detectComponent :: "'r env \<Rightarrow> detector \<Rightarrow> string \<Rightarrow> string list \<Rightarrow> string \<Rightarrow> string \<Rightarrow> scan" where
  "detectComponent E D ip skip ctx v b =
     (case scanBudgetExhausted b v of
        (True, b1) \<Rightarrow> (None, b1)
      | (False, b1) \<Rightarrow> run_detect E D ip skip ctx v b1)"

subsection \<open>The JSON walk\<close>

text \<open>Sequencing: the first hit ends the scan.\<close>

definition scan_then :: "scan \<Rightarrow> scan \<Rightarrow> scan" where
  "scan_then f g b = (case f b of (Some m, b') \<Rightarrow> (Some m, b') | (None, b') \<Rightarrow> g b')"

definition scan_label :: "(string \<Rightarrow> string) \<Rightarrow> scan \<Rightarrow> scan" where
  "scan_label f g b = (case g b of (h, b') \<Rightarrow> (map_option f h, b'))"

fun scan_first :: "('x \<Rightarrow> scan) \<Rightarrow> 'x list \<Rightarrow> scan" where
  "scan_first f [] b = (None, b)"
| "scan_first f (x # xs) b = scan_then (f x) (scan_first f xs) b"

definition MONGO_OPERATORS :: "string list" where
  "MONGO_OPERATORS = [''ne'', ''gt'', ''gte'', ''lt'', ''lte'', ''eq'', ''in'', ''nin'', ''nor'',
     ''and'', ''or'', ''not'', ''all'', ''size'', ''exists'', ''type'', ''mod'', ''options'',
     ''where'', ''regex'', ''expr'', ''function'', ''elemMatch'']"

definition is_mongo_key :: "string \<Rightarrow> bool" where
  "is_mongo_key k \<longleftrightarrow> (case k of [] \<Rightarrow> False | c # s \<Rightarrow> c = CHR ''$'' \<and> s \<in> set MONGO_OPERATORS)"

definition mongo_source :: string where
  "mongo_source = ''^'' @ [CHR 0x5C] @ ''$(?:'' @ join_with ''|'' MONGO_OPERATORS @ '')$''"

definition scanJsonKey :: "'r env \<Rightarrow> detector \<Rightarrow> string \<Rightarrow> string list \<Rightarrow> string \<Rightarrow> string \<Rightarrow> scan" where
  "scanJsonKey E D ip skip ctx key b =
     (if is_mongo_key key
      then (Some (''JSON operator key '' @ quoted key @ '': matched pattern '' @ quoted mongo_source), b)
      else detectComponent E D ip skip (ctx @ '':'' @ key) key b)"

text \<open>\<open>String(value)\<close> of a scalar.\<close>

fun scalar_text :: "json \<Rightarrow> string" where
  "scalar_text JNull = ''null''"
| "scalar_text (JScalar s) = s"
| "scalar_text (JStr s) = s"
| "scalar_text _ = []"

definition field_message :: "string \<Rightarrow> string \<Rightarrow> string" where
  "field_message label m = (if label \<noteq> [] then ''Request body field '' @ quoted label @ '': '' @ m else m)"

text \<open>
  The walk over a parsed value. \<open>leaf\<close> scans a scalar's text, \<open>keyf\<close> a key, \<open>capped\<close> the
  serialised subtree at the depth cap; keys in \<open>excl\<close> skip their subtree.
\<close>

fun scan_json_value :: "(string \<Rightarrow> scan) \<Rightarrow> (string \<Rightarrow> scan) \<Rightarrow> (json \<Rightarrow> scan) \<Rightarrow> string list \<Rightarrow> nat
    \<Rightarrow> string \<Rightarrow> json \<Rightarrow> scan"
  and scan_json_items :: "(string \<Rightarrow> scan) \<Rightarrow> (string \<Rightarrow> scan) \<Rightarrow> (json \<Rightarrow> scan) \<Rightarrow> string list \<Rightarrow> nat
    \<Rightarrow> string \<Rightarrow> json list \<Rightarrow> scan"
  and scan_json_fields :: "(string \<Rightarrow> scan) \<Rightarrow> (string \<Rightarrow> scan) \<Rightarrow> (json \<Rightarrow> scan) \<Rightarrow> string list \<Rightarrow> nat
    \<Rightarrow> (string \<times> json) list \<Rightarrow> scan"
where
  "scan_json_value leaf keyf capped excl depth label (JArr xs) b =
     (if depth \<ge> MAX_JSON_DEPTH then scan_label (field_message label) (capped (JArr xs)) b
      else scan_json_items leaf keyf capped excl (depth + 1) label xs b)"
| "scan_json_value leaf keyf capped excl depth label (JObj kvs) b =
     (if depth \<ge> MAX_JSON_DEPTH then scan_label (field_message label) (capped (JObj kvs)) b
      else scan_json_fields leaf keyf capped excl (depth + 1) kvs b)"
| "scan_json_value leaf keyf capped excl depth label JNull b =
     scan_label (field_message label) (leaf (scalar_text JNull)) b"
| "scan_json_value leaf keyf capped excl depth label (JScalar s) b =
     scan_label (field_message label) (leaf (scalar_text (JScalar s))) b"
| "scan_json_value leaf keyf capped excl depth label (JStr s) b =
     scan_label (field_message label) (leaf (scalar_text (JStr s))) b"
| "scan_json_items leaf keyf capped excl depth label [] b = (None, b)"
| "scan_json_items leaf keyf capped excl depth label (x # xs) b =
     (case scan_json_value leaf keyf capped excl depth label x b of
        (Some m, b') \<Rightarrow> (Some m, b')
      | (None, b') \<Rightarrow> scan_json_items leaf keyf capped excl depth label xs b')"
| "scan_json_fields leaf keyf capped excl depth [] b = (None, b)"
| "scan_json_fields leaf keyf capped excl depth ((k, v) # kvs) b =
     (if to_lower k \<in> set excl then scan_json_fields leaf keyf capped excl depth kvs b
      else (case keyf k b of
              (Some m, b') \<Rightarrow> (Some (''JSON key '' @ quoted k @ '': '' @ m), b')
            | (None, b') \<Rightarrow>
                (case scan_json_value leaf keyf capped excl depth k v b' of
                   (Some m, b'') \<Rightarrow> (Some m, b'')
                 | (None, b'') \<Rightarrow> scan_json_fields leaf keyf capped excl depth kvs b'')))"

text \<open>
  \<open>scanJsonContent\<close> over a value scanner \<open>dv excl ctx v\<close>: the hit and whether the text parsed
  to an object or array.
\<close>

definition scanJsonContent ::
  "'r env \<Rightarrow> detector \<Rightarrow> string \<Rightarrow> string list \<Rightarrow> (string list \<Rightarrow> string \<Rightarrow> string \<Rightarrow> scan)
     \<Rightarrow> string list \<Rightarrow> string \<Rightarrow> string \<Rightarrow> budget \<Rightarrow> (string option \<times> bool) \<times> budget"
where
  "scanJsonContent E D ip skip dv excl ctx raw b =
     (case e_json_parse E raw of
        None \<Rightarrow> ((None, False), b)
      | Some j \<Rightarrow>
          if \<not> is_json_object j then ((None, False), b)
          else
            (let (h, b') = scan_json_value (dv excl ctx) (scanJsonKey E D ip skip ctx)
                   (\<lambda>v. dv [] ctx (e_json_str E v)) excl 1 [] j b
             in ((h, True), b')))"

text \<open>
  \<open>detectValueEnhanced\<close>: JSON found inside a value is walked first, and its leaves are values
  again. Every nested value has counted against the budget, so the nesting is at most
  \<open>MAX_SCAN_VALUES\<close> deep; the first argument bounds it, and at 0 the value is only counted.
\<close>

primrec detect_value ::
  "nat \<Rightarrow> 'r env \<Rightarrow> detector \<Rightarrow> string \<Rightarrow> string list \<Rightarrow> string list \<Rightarrow> string \<Rightarrow> string \<Rightarrow> scan"
where
  "detect_value 0 E D ip skip excl ctx v = (\<lambda>b. (None, snd (scanBudgetExhausted b v)))"
| "detect_value (Suc n) E D ip skip excl ctx v =
     (\<lambda>b. case scanBudgetExhausted b v of
        (True, b1) \<Rightarrow> (None, b1)
      | (False, b1) \<Rightarrow>
          scan_then
            (\<lambda>b2. if ctx = ''request_body'' then (None, b2)
              else (let ((h, _), b3) = scanJsonContent E D ip skip (detect_value n E D ip skip) excl
                          (ctx @ '':embedded_json'') v b2 in (h, b3)))
            (run_detect E D ip skip ctx v) b1)"

definition detectValueEnhanced ::
  "'r env \<Rightarrow> detector \<Rightarrow> string \<Rightarrow> string list \<Rightarrow> string list \<Rightarrow> string \<Rightarrow> string \<Rightarrow> scan"
where
  "detectValueEnhanced = detect_value MAX_SCAN_VALUES"

declare detect_value.simps [simp del]

subsection \<open>The surfaces\<close>

definition scan_query ::
  "'r env \<Rightarrow> detector \<Rightarrow> string \<Rightarrow> exclusions \<Rightarrow> string \<times> string \<Rightarrow> scan"
where
  "scan_query E D ip x kv =
     (let (key, v) = kv; skip = disabledCategoriesOf x; ctx = ''query_param:'' @ key
      in if isExcludedParam x key then no_hit
         else scan_then
           (scan_label (\<lambda>m. ''Query param name '' @ quoted key @ '': '' @ m)
             (detectComponent E D ip skip ctx key))
           (scan_label (\<lambda>m. ''Query param '' @ quoted key @ '': '' @ m)
             (detectValueEnhanced E D ip skip (de_body x) ctx v)))"

definition scan_path :: "'r env \<Rightarrow> detector \<Rightarrow> string \<Rightarrow> exclusions \<Rightarrow> string \<Rightarrow> scan" where
  "scan_path E D ip x path =
     (if path = [] \<or> path = ''/'' then no_hit
      else scan_label (\<lambda>m. ''URL path: '' @ m)
        (detectValueEnhanced E D ip (disabledCategoriesOf x) [] ''url_path'' path))"

definition scan_header ::
  "'r env \<Rightarrow> detector \<Rightarrow> string \<Rightarrow> exclusions \<Rightarrow> string \<times> string \<Rightarrow> scan"
where
  "scan_header E D ip x kv =
     (let (name, v) = kv; lower = to_lower name;
          headerSkip = (if lower \<in> set (de_headers x) then excludedHeaderSkipCategories E lower v else None);
          skip = effectiveSkipCategories x headerSkip; ctx = ''header:'' @ name
      in if headerSkip = None \<and> starts_with ''sec-'' lower then no_hit
         else scan_then
           (scan_label (\<lambda>m. ''Header name '' @ quoted name @ '': '' @ m)
             (detectComponent E D ip skip ctx name))
           (scan_label (\<lambda>m. ''Header '' @ quoted name @ '': '' @ m)
             (detectValueEnhanced E D ip skip (de_body x) ctx v)))"

definition scan_blob :: "'r env \<Rightarrow> detector \<Rightarrow> string \<Rightarrow> exclusions \<Rightarrow> string \<Rightarrow> scan" where
  "scan_blob E D ip x raw =
     scan_label (\<lambda>m. ''Request body: '' @ m)
       (detectValueEnhanced E D ip (disabledCategoriesOf x) [] ''request_body'' raw)"

definition scan_form_pair ::
  "'r env \<Rightarrow> detector \<Rightarrow> string \<Rightarrow> exclusions \<Rightarrow> string \<times> string \<Rightarrow> scan"
where
  "scan_form_pair E D ip x kv =
     (let (name, v) = kv; skip = disabledCategoriesOf x
      in if isExcludedBodyField x name then no_hit
         else scan_then
           (scan_label (\<lambda>m. ''Form field name '' @ quoted name @ '': '' @ m)
             (detectComponent E D ip skip ''request_body'' name))
           (scan_label (\<lambda>m. ''Request body field '' @ quoted name @ '': '' @ m)
             (detectValueEnhanced E D ip skip (de_body x) ''request_body:form_field'' v)))"

definition scan_part ::
  "'r env \<Rightarrow> detector \<Rightarrow> string \<Rightarrow> exclusions \<Rightarrow> multipart_entry list \<Rightarrow> scan"
where
  "scan_part E D ip x entries =
     (case entries of
        [] \<Rightarrow> no_hit
      | (label, key, _) # _ \<Rightarrow>
          if (case key of None \<Rightarrow> False | Some k \<Rightarrow> isExcludedBodyField x k) then no_hit
          else scan_then
            (scan_label (\<lambda>m. ''Multipart field name '' @ quoted label @ '': '' @ m)
              (detectComponent E D ip (disabledCategoriesOf x) ''request_body'' label))
            (scan_first (\<lambda>(_, _, v). scan_label (\<lambda>m. ''Request body field '' @ quoted label @ '': '' @ m)
               (detectValueEnhanced E D ip (disabledCategoriesOf x) (de_body x)
                  ''request_body:multipart_field'' v)) entries))"

definition scanMultipartBody ::
  "'r env \<Rightarrow> detector \<Rightarrow> string \<Rightarrow> exclusions \<Rightarrow> string \<Rightarrow> string \<Rightarrow> scan"
where
  "scanMultipartBody E D ip x raw rawType =
     (let parts = e_multipart E raw rawType
      in if parts = [] then scan_blob E D ip x raw else scan_first (scan_part E D ip x) parts)"

text \<open>The body: unreadable, empty and blank bodies are skipped.\<close>

definition scan_body_text ::
  "'r env \<Rightarrow> detector \<Rightarrow> string \<Rightarrow> exclusions \<Rightarrow> string \<Rightarrow> string \<Rightarrow> scan"
where
  "scan_body_text E D ip x raw rawType =
     (let contentType = to_lower rawType
      in if str_includes ''application/x-www-form-urlencoded'' contentType
         then scan_first (scan_form_pair E D ip x) (e_form_pairs E raw)
         else if str_includes ''multipart/form-data'' contentType
         then scanMultipartBody E D ip x raw rawType
         else if str_includes ''json'' contentType
         then (\<lambda>b. case scanJsonContent E D ip (disabledCategoriesOf x)
                  (detectValueEnhanced E D ip (disabledCategoriesOf x)) (de_body x) ''request_body'' raw b of
                  ((h, True), b') \<Rightarrow> (h, b')
                | ((_, False), b') \<Rightarrow> scan_blob E D ip x raw b')
         else scan_blob E D ip x raw)"

definition scanBodySurface ::
  "'r env \<Rightarrow> detector \<Rightarrow> request \<Rightarrow> string \<Rightarrow> exclusions \<Rightarrow> scan"
where
  "scanBodySurface E D rq ip x =
     (case e_read_body E rq of
        Inl _ \<Rightarrow> no_hit
      | Inr None \<Rightarrow> no_hit
      | Inr (Some raw) \<Rightarrow>
          if raw = [] \<or> str_trim raw = [] then no_hit
          else scan_body_text E D ip x raw (header_or [] rq ''content-type''))"

definition runRequestSurfaceScan ::
  "'r env \<Rightarrow> detector \<Rightarrow> request \<Rightarrow> string \<Rightarrow> exclusions \<Rightarrow> scan"
where
  "runRequestSurfaceScan E D rq ip x =
     scan_then (scan_first (scan_query E D ip x) (rq_query rq))
    (scan_then (scan_path E D ip x (rq_path rq))
    (scan_then (scan_first (scan_header E D ip x) (rq_headers rq))
      (if \<not> de_scan_body x then no_hit else scanBodySurface E D rq ip x)))"

definition empty_budget :: budget where
  "empty_budget = \<lparr>sb_values = 0, sb_chars = 0, sb_cats = []\<rparr>"

definition scanRequestWithManager ::
  "'r env \<Rightarrow> detector \<Rightarrow> request \<Rightarrow> exclusions \<Rightarrow> bool \<times> string \<times> string list"
where
  "scanRequestWithManager E D rq x =
     (case runRequestSurfaceScan E D rq (host_or_unknown rq) x empty_budget of
        (None, b) \<Rightarrow> (False, [], sb_cats b)
      | (Some m, b) \<Rightarrow> (True, m, sb_cats b))"

subsection \<open>Relations between scans\<close>

text \<open>
  Everything a scan does is built from single engine calls with \<open>scan_then\<close> and
  \<open>scan_label\<close>. So a relation between scans that these two keep holds between two whole
  request scans as soon as it holds between their single calls. The bound on the nesting, the silence of
  clean scans and the independence of disabled categories are instances.
\<close>

definition scan_rel :: "(scan \<Rightarrow> scan \<Rightarrow> bool) \<Rightarrow> bool" where
  "scan_rel R \<longleftrightarrow> R no_hit no_hit \<and>
     (\<forall>f f' g g'. R f f' \<longrightarrow> R g g' \<longrightarrow> R (scan_then f g) (scan_then f' g')) \<and>
     (\<forall>h f f'. R f f' \<longrightarrow> R (scan_label h f) (scan_label h f'))"

lemma rel_none: "scan_rel R \<Longrightarrow> R no_hit no_hit"
  by (simp add: scan_rel_def)

lemma rel_then: "scan_rel R \<Longrightarrow> R f f' \<Longrightarrow> R g g' \<Longrightarrow> R (scan_then f g) (scan_then f' g')"
  by (simp add: scan_rel_def)

lemma rel_label: "scan_rel R \<Longrightarrow> R f f' \<Longrightarrow> R (scan_label h f) (scan_label h f')"
  by (simp add: scan_rel_def)

lemma first_simps:
  "scan_first f [] = no_hit"
  "scan_first f (x # xs) = scan_then (f x) (scan_first f xs)"
  by (rule ext, simp add: no_hit_def)+

lemma rel_first:
  assumes R: "scan_rel R" and "\<And>x. x \<in> set xs \<Longrightarrow> R (f x) (f' x)"
  shows "R (scan_first f xs) (scan_first f' xs)"
  using assms(2) by (induction xs) (auto simp: first_simps intro: rel_none [OF R] rel_then [OF R])

text \<open>The walk as combinators.\<close>

lemma walk_arr: "scan_json_value leaf keyf capped excl depth label (JArr xs) =
    (if depth \<ge> MAX_JSON_DEPTH then scan_label (field_message label) (capped (JArr xs))
     else scan_json_items leaf keyf capped excl (depth + 1) label xs)"
  by (rule ext) simp

lemma walk_obj: "scan_json_value leaf keyf capped excl depth label (JObj kvs) =
    (if depth \<ge> MAX_JSON_DEPTH then scan_label (field_message label) (capped (JObj kvs))
     else scan_json_fields leaf keyf capped excl (depth + 1) kvs)"
  by (rule ext) simp

lemma walk_leaf: "\<not> is_json_object j \<Longrightarrow> scan_json_value leaf keyf capped excl depth label j =
    scan_label (field_message label) (leaf (scalar_text j))"
  by (rule ext, cases j) simp_all

lemma walk_items:
  "scan_json_items leaf keyf capped excl depth label [] = no_hit"
  "scan_json_items leaf keyf capped excl depth label (x # xs) =
     scan_then (scan_json_value leaf keyf capped excl depth label x)
       (scan_json_items leaf keyf capped excl depth label xs)"
  by (rule ext, simp add: scan_then_def no_hit_def)+

lemma walk_fields:
  "scan_json_fields leaf keyf capped excl depth [] = no_hit"
  "scan_json_fields leaf keyf capped excl depth ((k, v) # kvs) =
     (if to_lower k \<in> set excl then scan_json_fields leaf keyf capped excl depth kvs
      else scan_then (scan_label (\<lambda>m. ''JSON key '' @ quoted k @ '': '' @ m) (keyf k))
        (scan_then (scan_json_value leaf keyf capped excl depth k v)
          (scan_json_fields leaf keyf capped excl depth kvs)))"
  by (rule ext, simp add: scan_then_def scan_label_def no_hit_def split: prod.splits option.splits)+

lemma rel_walk:
  assumes R: "scan_rel R" and "\<And>v. R (leaf v) (leaf' v)" and "\<And>k. R (keyf k) (keyf' k)"
    and "\<And>j. R (capped j) (capped' j)"
  shows "R (scan_json_value leaf keyf capped excl depth label j)
    (scan_json_value leaf' keyf' capped' excl depth label j)"
proof (induction j arbitrary: depth label)
  case (JArr xs)
  have "R (scan_json_items leaf keyf capped excl d l ys) (scan_json_items leaf' keyf' capped' excl d l ys)"
    if "set ys \<subseteq> set xs" for d l ys
    using that JArr.IH by (induction ys) (auto simp: walk_items intro: rel_none [OF R] rel_then [OF R])
  then show ?case using assms(4) rel_label [OF R] by (simp add: walk_arr)
next
  case (JObj kvs)
  have "R (scan_json_fields leaf keyf capped excl d ys) (scan_json_fields leaf' keyf' capped' excl d ys)"
    if "set ys \<subseteq> set kvs" for d ys
    using that
  proof (induction ys)
    case (Cons p ys)
    obtain k v where p: "p = (k, v)" by (cases p)
    have "(k, v) \<in> set kvs" using Cons.prems p by auto
    then have "R (scan_json_value leaf keyf capped excl d k v) (scan_json_value leaf' keyf' capped' excl d k v)"
      using JObj.IH [of "(k, v)" v] by simp
    with Cons p show ?case
      by (auto simp: walk_fields intro!: rel_then [OF R] rel_label [OF R] assms(3))
  qed (simp add: walk_fields rel_none [OF R])
  then show ?case using assms(4) rel_label [OF R] by (simp add: walk_obj)
qed (simp_all add: walk_leaf rel_label [OF R] assms(2))

text \<open>\<open>scanJsonContent\<close> is the walk of the parsed value, or nothing.\<close>

lemma content_parsed:
  "e_json_parse E raw = Some j \<Longrightarrow> is_json_object j \<Longrightarrow>
   scanJsonContent E D ip skip dv excl ctx raw b =
     (case scan_json_value (dv excl ctx) (scanJsonKey E D ip skip ctx)
        (\<lambda>v. dv [] ctx (e_json_str E v)) excl 1 [] j b of (h, b') \<Rightarrow> ((h, True), b'))"
  by (simp add: scanJsonContent_def)

lemma content_plain:
  "\<not> (\<exists>j. e_json_parse E raw = Some j \<and> is_json_object j) \<Longrightarrow>
   scanJsonContent E D ip skip dv excl ctx raw b = ((None, False), b)"
  by (auto simp: scanJsonContent_def split: option.splits)

lemma rel_content:
  assumes R: "scan_rel R" and "\<And>x v. R (dv x ctx v) (dv' x ctx v)"
    and "\<And>k. R (scanJsonKey E D ip skip ctx k) (scanJsonKey E D' ip skip ctx k)" and "R g g'"
  shows "R (\<lambda>b. case scanJsonContent E D ip skip dv excl ctx raw b of
              ((h, True), b') \<Rightarrow> (h, b') | ((_, False), b') \<Rightarrow> g b')
    (\<lambda>b. case scanJsonContent E D' ip skip dv' excl ctx raw b of
              ((h, True), b') \<Rightarrow> (h, b') | ((_, False), b') \<Rightarrow> g' b')"
proof (cases "\<exists>j. e_json_parse E raw = Some j \<and> is_json_object j")
  case True
  then obtain j where j: "e_json_parse E raw = Some j" "is_json_object j" by blast
  have "R (scan_json_value (dv excl ctx) (scanJsonKey E D ip skip ctx)
        (\<lambda>v. dv [] ctx (e_json_str E v)) excl 1 [] j)
    (scan_json_value (dv' excl ctx) (scanJsonKey E D' ip skip ctx)
        (\<lambda>v. dv' [] ctx (e_json_str E v)) excl 1 [] j)"
    by (intro rel_walk [OF R] assms)
  then show ?thesis by (simp add: content_parsed [OF j] case_prod_beta)
next
  case False
  with assms(4) show ?thesis by (simp add: content_plain)
qed

text \<open>The embedded walk of a value, without the flag.\<close>

definition embedded ::
  "'r env \<Rightarrow> detector \<Rightarrow> string \<Rightarrow> string list \<Rightarrow> (string list \<Rightarrow> string \<Rightarrow> string \<Rightarrow> scan)
     \<Rightarrow> string list \<Rightarrow> string \<Rightarrow> string \<Rightarrow> scan"
where
  "embedded E D ip skip dv excl ctx v =
     (\<lambda>b2. if ctx = ''request_body'' then (None, b2)
        else (let ((h, _), b3) = scanJsonContent E D ip skip dv excl (ctx @ '':embedded_json'') v b2
              in (h, b3)))"

lemma embedded_flag:
  "ctx \<noteq> ''request_body'' \<Longrightarrow> embedded E D ip skip dv excl ctx v =
     (\<lambda>b. case scanJsonContent E D ip skip dv excl (ctx @ '':embedded_json'') v b of
        ((h, True), b') \<Rightarrow> (h, b') | ((_, False), b') \<Rightarrow> no_hit b')"
  by (rule ext) (auto simp: no_hit_def embedded_def scanJsonContent_def Let_def split: option.splits prod.splits)

lemma rel_embedded:
  assumes R: "scan_rel R" and "\<And>x c v. R (dv x c v) (dv' x c v)"
    and "\<And>c k. R (scanJsonKey E D ip skip c k) (scanJsonKey E D' ip skip c k)"
  shows "R (embedded E D ip skip dv excl ctx v) (embedded E D' ip skip dv' excl ctx v)"
proof (cases "ctx = ''request_body''")
  case True
  then have "embedded E D ip skip dv excl ctx v = no_hit" for D dv
    by (simp add: embedded_def no_hit_def [abs_def])
  then show ?thesis by (simp add: rel_none [OF R])
next
  case False
  show ?thesis
    unfolding embedded_flag [OF False] by (intro rel_content [OF R] assms rel_none [OF R])
qed

lemma detect_value_Suc:
  "detect_value (Suc n) E D ip skip excl ctx v =
     (\<lambda>b. case scanBudgetExhausted b v of
        (True, b1) \<Rightarrow> (None, b1)
      | (False, b1) \<Rightarrow> scan_then (embedded E D ip skip (detect_value n E D ip skip) excl ctx v)
          (run_detect E D ip skip ctx v) b1)"
  unfolding detect_value.simps embedded_def by (rule refl)

subsection \<open>The nesting bound is exact\<close>

text \<open>Scans never un-count a value, and agree from a number of counted values on.\<close>

definition grows :: "scan \<Rightarrow> bool" where
  "grows f \<longleftrightarrow> (\<forall>b. sb_values b \<le> sb_values (snd (f b)))"

definition agree :: "nat \<Rightarrow> scan \<Rightarrow> scan \<Rightarrow> bool" where
  "agree m f g \<longleftrightarrow> grows f \<and> (\<forall>b. m \<le> sb_values b \<longrightarrow> f b = g b)"

lemma grows_then: "grows f \<Longrightarrow> grows g \<Longrightarrow> grows (scan_then f g)"
  unfolding grows_def scan_then_def
proof (intro allI)
  fix b
  assume f: "\<forall>b. sb_values b \<le> sb_values (snd (f b))" and g: "\<forall>b. sb_values b \<le> sb_values (snd (g b))"
  obtain h b' where fb: "f b = (h, b')" by (cases "f b")
  from f [rule_format, of b] g [rule_format, of b'] fb
  show "sb_values b \<le> sb_values (snd (case f b of (None, b') \<Rightarrow> g b' | (Some m, b') \<Rightarrow> (Some m, b')))"
    by (cases h) auto
qed

lemma agree_rel: "scan_rel (agree m)"
  unfolding scan_rel_def
proof (intro conjI allI impI)
  fix f f' g g' assume f: "agree m f f'" and g: "agree m g g'"
  have "scan_then f g b = scan_then f' g' b" if "m \<le> sb_values b" for b
  proof -
    obtain h b' where fb: "f b = (h, b')" by (cases "f b")
    moreover have "f' b = f b" using f that by (simp add: agree_def)
    moreover have "sb_values b \<le> sb_values b'" using f fb unfolding agree_def grows_def by (metis snd_conv)
    then have "g b' = g' b'" using g that by (simp add: agree_def)
    ultimately show ?thesis by (cases h) (simp_all add: scan_then_def)
  qed
  then show "agree m (scan_then f g) (scan_then f' g')"
    using f g by (simp add: agree_def grows_then)
next
  fix h f f' assume "agree m f f'"
  then show "agree m (scan_label h f) (scan_label h f')"
    by (simp add: agree_def grows_def scan_label_def case_prod_beta)
qed (simp add: agree_def grows_def no_hit_def)

lemma exhausted_values: "scanBudgetExhausted b v = (x, b') \<Longrightarrow> sb_values b' = sb_values b + 1"
  by (auto simp: scanBudgetExhausted_def Let_def split: if_splits)

lemma run_detect_values [simp]: "sb_values (snd (run_detect E D ip skip ctx v b)) = sb_values b"
  by (auto simp: run_detect_def recordHitCategories_def split: sum.splits)

lemma agree_run: "agree m (run_detect E D ip skip ctx v) (run_detect E D ip skip ctx v)"
  by (simp add: agree_def grows_def)

lemma agree_key: "agree m (scanJsonKey E D ip skip ctx k) (scanJsonKey E D ip skip ctx k)"
proof -
  have "sb_values b \<le> sb_values (snd (detectComponent E D ip skip (ctx @ '':'' @ k) k b))" for b
    using exhausted_values [of b k]
    by (cases "scanBudgetExhausted b k") (auto simp: detectComponent_def split: bool.split)
  then show ?thesis
    by (simp add: agree_def grows_def scanJsonKey_def)
qed

text \<open>From \<open>512 - n\<close> counted values on, one more level of nesting changes nothing.\<close>

lemma nesting_agree:
  "MAX_SCAN_VALUES \<le> n + m \<Longrightarrow>
   agree m (detect_value n E D ip skip excl ctx v) (detect_value (Suc n) E D ip skip excl ctx v)"
proof (induction n arbitrary: m excl ctx v)
  case 0
  have "sb_values b \<le> sb_values (snd (scanBudgetExhausted b v))" for b
    using exhausted_values [of b v] by (cases "scanBudgetExhausted b v") simp
  then have "grows (detect_value 0 E D ip skip excl ctx v)"
    by (simp add: grows_def detect_value.simps)
  moreover have "detect_value 0 E D ip skip excl ctx v b = detect_value (Suc 0) E D ip skip excl ctx v b"
    if "m \<le> sb_values b" for b
  proof -
    have "MAX_SCAN_VALUES < sb_values b + 1" using 0 that by simp
    then have "scanBudgetExhausted b v = (True, b\<lparr>sb_values := sb_values b + 1\<rparr>)"
      by (simp add: scanBudgetExhausted_def)
    then show ?thesis
      unfolding detect_value_Suc by (simp only: detect_value.simps(1) prod.case bool.case snd_conv)
  qed
  ultimately show ?case unfolding agree_def by blast
next
  case (Suc n)
  have emb: "agree (Suc m) (embedded E D ip skip (detect_value n E D ip skip) excl ctx v)
      (embedded E D ip skip (detect_value (Suc n) E D ip skip) excl ctx v)"
    using Suc.prems by (intro rel_embedded [OF agree_rel] Suc.IH agree_key) simp
  then have body: "agree (Suc m)
      (scan_then (embedded E D ip skip (detect_value n E D ip skip) excl ctx v) (run_detect E D ip skip ctx v))
      (scan_then (embedded E D ip skip (detect_value (Suc n) E D ip skip) excl ctx v) (run_detect E D ip skip ctx v))"
    by (intro rel_then [OF agree_rel] agree_run)
  show ?case
    unfolding agree_def grows_def
  proof (intro conjI allI impI)
    fix b
    obtain x b1 where b1: "scanBudgetExhausted b v = (x, b1)" by (cases "scanBudgetExhausted b v")
    note vals = exhausted_values [OF b1]
    show "sb_values b \<le> sb_values (snd (detect_value (Suc n) E D ip skip excl ctx v b))"
    proof -
      have "sb_values b1 \<le> sb_values (snd (scan_then (embedded E D ip skip (detect_value n E D ip skip) excl ctx v)
          (run_detect E D ip skip ctx v) b1))"
        using body by (simp add: agree_def grows_def)
      with b1 vals show ?thesis by (cases x) (simp_all add: detect_value_Suc)
    qed
    show "detect_value (Suc n) E D ip skip excl ctx v b = detect_value (Suc (Suc n)) E D ip skip excl ctx v b"
      if "m \<le> sb_values b"
    proof -
      have "Suc m \<le> sb_values b1" using that vals by simp
      then show ?thesis
        using body b1 unfolding agree_def
        by (cases x) (simp_all add: detect_value_Suc [of "Suc n"] detect_value_Suc [of n])
    qed
  qed
qed

subsection \<open>Relations between request scans\<close>

definition rel_calls ::
  "(scan \<Rightarrow> scan \<Rightarrow> bool) \<Rightarrow> 'r env \<Rightarrow> detector \<Rightarrow> detector \<Rightarrow> string \<Rightarrow> exclusions \<Rightarrow> bool"
where
  "rel_calls R E D D' ip x \<longleftrightarrow>
     (\<forall>skip. set (disabledCategoriesOf x) \<subseteq> set skip \<longrightarrow>
        (\<forall>ctx v. R (detectComponent E D ip skip ctx v) (detectComponent E D' ip skip ctx v)) \<and>
        (\<forall>ctx k. R (scanJsonKey E D ip skip ctx k) (scanJsonKey E D' ip skip ctx k)) \<and>
        (\<forall>excl ctx v. R (detectValueEnhanced E D ip skip excl ctx v) (detectValueEnhanced E D' ip skip excl ctx v)))"

lemma skip_disabled: "set (disabledCategoriesOf x) \<subseteq> set (effectiveSkipCategories x h)"
  by (auto simp: effectiveSkipCategories_def split: option.splits)

lemma rel_request:
  assumes R: "scan_rel R" and calls: "rel_calls R E D D' ip x"
  shows "R (runRequestSurfaceScan E D rq ip x) (runRequestSurfaceScan E D' rq ip x)"
proof -
  note none = rel_none [OF R] and lab = rel_label [OF R] and seq = rel_then [OF R]
    and first = rel_first [OF R]
  have comp: "R (detectComponent E D ip skip ctx v) (detectComponent E D' ip skip ctx v)"
    and key: "R (scanJsonKey E D ip skip ctx v) (scanJsonKey E D' ip skip ctx v)"
    and val: "R (detectValueEnhanced E D ip skip excl ctx v) (detectValueEnhanced E D' ip skip excl ctx v)"
    if "set (disabledCategoriesOf x) \<subseteq> set skip" for skip excl ctx v
    using calls that by (simp_all add: rel_calls_def)
  have query: "R (scan_query E D ip x kv) (scan_query E D' ip x kv)" for kv
    by (cases kv) (simp add: scan_query_def Let_def none lab seq comp val)
  have path: "R (scan_path E D ip x p) (scan_path E D' ip x p)" for p
    unfolding scan_path_def by (cases "p = [] \<or> p = ''/''") (simp_all only: if_True if_False none lab val order_refl)
  have header: "R (scan_header E D ip x kv) (scan_header E D' ip x kv)" for kv
    by (cases kv) (simp add: scan_header_def Let_def none lab seq comp val skip_disabled)
  have blob: "R (scan_blob E D ip x raw) (scan_blob E D' ip x raw)" for raw
    by (simp add: scan_blob_def lab val)
  have pair: "R (scan_form_pair E D ip x kv) (scan_form_pair E D' ip x kv)" for kv
    by (cases kv) (simp add: scan_form_pair_def Let_def none lab seq comp val)
  have part: "R (scan_part E D ip x es) (scan_part E D' ip x es)" for es
    unfolding scan_part_def
    by (cases es) (auto simp: none intro!: none lab seq comp val first split: prod.splits)
  have multi: "R (scanMultipartBody E D ip x raw t) (scanMultipartBody E D' ip x raw t)" for raw t
    by (simp add: scanMultipartBody_def Let_def blob first part)
  have body: "R (scan_body_text E D ip x raw t) (scan_body_text E D' ip x raw t)" for raw t
    unfolding scan_body_text_def Let_def
    by (simp add: first pair multi blob rel_content [OF R] val key)
  have "R (scanBodySurface E D rq ip x) (scanBodySurface E D' rq ip x)"
    unfolding scanBodySurface_def by (auto simp: none body split: sum.splits option.splits)
  then show ?thesis
    unfolding runRequestSurfaceScan_def by (auto intro!: seq first query path header none)
qed

subsection \<open>Properties\<close>

text \<open>
  C28: the bound on the nesting of JSON inside values is exact: a bound of 512 and any larger one
  give the same scan, because every nested value has already counted against the value budget. So
  the recursion of the source through JSON in strings in JSON always ends.
\<close>

theorem scan_nesting_bound_exact:
  "MAX_SCAN_VALUES \<le> n \<Longrightarrow>
   detect_value n E D ip skip excl ctx v b = detectValueEnhanced E D ip skip excl ctx v b"
proof (induction n)
  case (Suc n)
  show ?case
  proof (cases "MAX_SCAN_VALUES \<le> n")
    case True
    then have "detect_value n E D ip skip excl ctx v b = detect_value (Suc n) E D ip skip excl ctx v b"
      using nesting_agree [of n 0 E D ip skip excl ctx v] by (simp add: agree_def)
    with Suc.IH [OF True] show ?thesis by simp
  next
    case False
    with Suc.prems have "Suc n = MAX_SCAN_VALUES" by simp
    then show ?thesis by (simp add: detectValueEnhanced_def)
  qed
qed (simp add: MAX_SCAN_VALUES_def)

theorem scan_nesting_bound_exact_witness:
  "detect_value 600 ex_env ex_detect ''10.0.0.7'' [] [] ''url_path'' ''/a'' empty_budget =
   detectValueEnhanced ex_env ex_detect ''10.0.0.7'' [] [] ''url_path'' ''/a'' empty_budget"
  by (rule scan_nesting_bound_exact) (simp add: MAX_SCAN_VALUES_def)

definition quiet :: "scan \<Rightarrow> scan \<Rightarrow> bool" where
  "quiet f g \<longleftrightarrow> f = g \<and> (\<forall>b. fst (f b) = None \<longrightarrow> sb_cats (snd (f b)) = sb_cats b)"

lemma quiet_rel: "scan_rel quiet"
proof -
  have "quiet (scan_then f g) (scan_then f g)" if "quiet f f" "quiet g g" for f g
    unfolding quiet_def
  proof (intro conjI refl allI impI)
    fix b assume *: "fst (scan_then f g b) = None"
    obtain h b' where fb: "f b = (h, b')" by (cases "f b")
    with * have h: "h = None" by (cases h) (auto simp: scan_then_def)
    have "sb_cats b' = sb_cats b"
      using that(1) [unfolded quiet_def, THEN conjunct2, rule_format, of b] fb h by simp
    moreover have "sb_cats (snd (g b')) = sb_cats b'"
      using that(2) * fb h by (simp add: quiet_def scan_then_def)
    ultimately show "sb_cats (snd (scan_then f g b)) = sb_cats b"
      using fb h by (simp add: scan_then_def)
  qed
  then show ?thesis
    by (auto simp: scan_rel_def quiet_def scan_label_def case_prod_beta no_hit_def)
qed

lemma exhausted_cats: "scanBudgetExhausted b v = (x, b') \<Longrightarrow> sb_cats b' = sb_cats b"
  by (auto simp: scanBudgetExhausted_def Let_def split: if_splits)

lemma quiet_run: "quiet (run_detect E D ip skip ctx v) (run_detect E D ip skip ctx v)"
  by (auto simp: quiet_def run_detect_def split: sum.splits)

lemma quiet_after:
  "quiet f f \<Longrightarrow> quiet (\<lambda>b. case scanBudgetExhausted b v of (True, b1) \<Rightarrow> (None, b1) | (False, b1) \<Rightarrow> f b1)
     (\<lambda>b. case scanBudgetExhausted b v of (True, b1) \<Rightarrow> (None, b1) | (False, b1) \<Rightarrow> f b1)"
  unfolding quiet_def by (auto dest: exhausted_cats split: prod.splits bool.splits)

lemma quiet_component: "quiet (detectComponent E D ip skip ctx v) (detectComponent E D ip skip ctx v)"
  using quiet_after [OF quiet_run [of E D ip skip ctx v], of v]
  by (simp add: detectComponent_def [abs_def])

lemma quiet_key: "quiet (scanJsonKey E D ip skip ctx k) (scanJsonKey E D ip skip ctx k)"
  using quiet_component [of E D ip skip "ctx @ '':'' @ k" k]
  by (auto simp: quiet_def scanJsonKey_def)

lemma quiet_value: "quiet (detect_value n E D ip skip excl ctx v) (detect_value n E D ip skip excl ctx v)"
proof (induction n arbitrary: excl ctx v)
  case 0
  have "sb_cats (snd (scanBudgetExhausted b v)) = sb_cats b" for b
    using exhausted_cats [of b v] by (cases "scanBudgetExhausted b v") simp
  then show ?case by (simp add: quiet_def detect_value.simps)
next
  case (Suc n)
  show ?case
    unfolding detect_value_Suc
    by (intro quiet_after rel_then [OF quiet_rel] rel_embedded [OF quiet_rel] Suc.IH quiet_key quiet_run)
qed

text \<open>
  C27: a scan that reports no threat reports no reason and no category, so a clean request can
  never feed the violation counters.
\<close>

theorem clean_scan_is_silent:
  "fst (scanRequestWithManager E D rq x) \<or> scanRequestWithManager E D rq x = (False, [], [])"
proof -
  have "rel_calls quiet E D D (host_or_unknown rq) x"
    by (simp add: rel_calls_def quiet_component quiet_key quiet_value detectValueEnhanced_def)
  from rel_request [OF quiet_rel this, of rq]
  have "fst (runRequestSurfaceScan E D rq (host_or_unknown rq) x empty_budget) = None \<longrightarrow>
      sb_cats (snd (runRequestSurfaceScan E D rq (host_or_unknown rq) x empty_budget)) = []"
    by (simp add: quiet_def empty_budget_def)
  then show ?thesis
    by (cases "runRequestSurfaceScan E D rq (host_or_unknown rq) x empty_budget")
       (auto simp: scanRequestWithManager_def split: option.splits)
qed

lemma same_calls:
  assumes "\<forall>v ctx. D v ip ctx skip = D' v ip ctx skip"
  shows "run_detect E D ip skip c v = run_detect E D' ip skip c v"
    and "detectComponent E D ip skip c v = detectComponent E D' ip skip c v"
    and "scanJsonKey E D ip skip c v = scanJsonKey E D' ip skip c v"
proof -
  have run: "run_detect E D ip skip c v = run_detect E D' ip skip c v" for c v
    by (rule ext) (simp only: run_detect_def assms)
  have comp: "detectComponent E D ip skip c v = detectComponent E D' ip skip c v" for c v
    by (rule ext) (simp only: detectComponent_def run)
  show "run_detect E D ip skip c v = run_detect E D' ip skip c v" by (rule run)
  show "detectComponent E D ip skip c v = detectComponent E D' ip skip c v" by (rule comp)
  show "scanJsonKey E D ip skip c v = scanJsonKey E D' ip skip c v"
    by (rule ext) (simp only: scanJsonKey_def comp)
qed

lemma eq_rel: "scan_rel (=)"
  by (simp add: scan_rel_def)

lemma same_value:
  assumes "\<forall>v ctx. D v ip ctx skip = D' v ip ctx skip"
  shows "detect_value n E D ip skip excl ctx v = detect_value n E D' ip skip excl ctx v"
proof (induction n arbitrary: excl ctx v)
  case (Suc n)
  have "embedded E D ip skip (detect_value n E D ip skip) excl ctx v =
      embedded E D' ip skip (detect_value n E D' ip skip) excl ctx v"
    by (intro rel_embedded [OF eq_rel] Suc.IH same_calls assms)
  moreover have "run_detect E D ip skip ctx v = run_detect E D' ip skip ctx v"
    by (rule same_calls) (rule assms)
  ultimately show ?case unfolding detect_value_Suc by (simp only:)
qed (simp add: detect_value.simps)

text \<open>
  The scan consults the engine only with the categories switched off for the request skipped:
  two engines that agree whenever those are skipped give the same verdict, message and
  categories on every request. So an engine that honours its skip set cannot report a disabled
  category.
\<close>

theorem disabled_categories_never_consulted:
  assumes "\<And>v ctx skip. set (disabledCategoriesOf x) \<subseteq> set skip \<Longrightarrow>
    D v (host_or_unknown rq) ctx skip = D' v (host_or_unknown rq) ctx skip"
  shows "scanRequestWithManager E D rq x = scanRequestWithManager E D' rq x"
proof -
  have "rel_calls (=) E D D' (host_or_unknown rq) x"
    unfolding rel_calls_def detectValueEnhanced_def
    using assms by (intro allI impI conjI same_calls same_value) simp_all
  from rel_request [OF eq_rel this, of rq] show ?thesis
    by (simp add: scanRequestWithManager_def)
qed

lemma then_no_hit: "scan_then no_hit g = g"
  by (rule ext) (simp add: scan_then_def no_hit_def)

lemma first_filter:
  "(\<And>x. \<not> P x \<Longrightarrow> f x = no_hit) \<Longrightarrow> scan_first f (filter P xs) = scan_first f xs"
proof (induction xs)
  case (Cons x xs)
  show ?case
  proof (cases "P x")
    case False
    then have "scan_first f (x # xs) = scan_first f xs"
      using Cons.prems by (simp add: first_simps then_no_hit)
    with False Cons show ?thesis by simp
  qed (use Cons in \<open>simp add: first_simps\<close>)
qed simp

text \<open>
  Query parameters whose names are excluded are invisible: dropping them all from the request
  changes nothing of the verdict, the message or the categories, as long as the body read
  does not change.
\<close>

theorem excluded_params_invisible:
  assumes "rq' = rq\<lparr>rq_query := filter (\<lambda>(k, _). \<not> isExcludedParam x k) (rq_query rq)\<rparr>"
    and "e_read_body E rq' = e_read_body E rq"
  shows "scanRequestWithManager E D rq' x = scanRequestWithManager E D rq x"
proof -
  have "scan_first (scan_query E D ip x) (rq_query rq') = scan_first (scan_query E D ip x) (rq_query rq)" for ip
    unfolding assms(1) by (simp, rule first_filter) (auto simp: scan_query_def split: prod.splits)
  moreover have "header_or [] rq' = header_or [] rq" and "rq_path rq' = rq_path rq"
    and "rq_headers rq' = rq_headers rq" and "host_or_unknown rq' = host_or_unknown rq"
    by (simp_all add: assms(1) header_or_def [abs_def] host_or_unknown_def)
  ultimately show ?thesis
    by (simp only: scanRequestWithManager_def runRequestSurfaceScan_def scanBodySurface_def assms(2))
qed

definition ex_attack :: request where
  "ex_attack = ex_request\<lparr>rq_query := [(''q'', ''<script>''), (''page'', ''2'')]\<rparr>"

theorem excluded_params_invisible_witness:
  "let x = resolveDetectionExclusions (Some (ex_config\<lparr>c_excl_params := [''Q'']\<rparr>)) None
   in scanRequestWithManager ex_env ex_detect (ex_attack\<lparr>rq_query := [(''page'', ''2'')]\<rparr>) x =
      scanRequestWithManager ex_env ex_detect ex_attack x"
proof -
  let ?x = "resolveDetectionExclusions (Some (ex_config\<lparr>c_excl_params := [''Q'']\<rparr>)) None"
  have "to_lower ''Q'' = ''q''" and "to_lower ''q'' = ''q''" and "to_lower ''page'' = ''page''"
    by code_simp+
  then have "filter (\<lambda>(k, _). \<not> isExcludedParam ?x k) (rq_query ex_attack) = [(''page'', ''2'')]"
    by (simp add: isExcludedParam_def resolveDetectionExclusions_def ex_attack_def)
  then show ?thesis
    using excluded_params_invisible [of "ex_attack\<lparr>rq_query := [(''page'', ''2'')]\<rparr>" ?x ex_attack ex_env]
    by (simp add: ex_env_def Let_def)
qed

theorem disabled_categories_never_consulted_witness:
  "let x = resolveDetectionExclusions (Some (ex_config\<lparr>c_enabled_cats := [''sqli'']\<rparr>)) None
   in scanRequestWithManager ex_env ex_detect ex_attack x =
      scanRequestWithManager ex_env (\<lambda>_ _ _ _. Inr ex_clean) ex_attack x"
proof -
  let ?x = "resolveDetectionExclusions (Some (ex_config\<lparr>c_enabled_cats := [''sqli'']\<rparr>)) None"
  have "''xss'' \<in> set (disabledCategoriesOf ?x)"
    by (simp add: disabledCategoriesOf_def resolveDetectionExclusions_def ALL_DETECTION_CATEGORIES_def)
  then have "ex_detect v ip ctx skip = Inr ex_clean" if "set (disabledCategoriesOf ?x) \<subseteq> set skip" for v ip ctx skip
    using that by (auto simp: ex_detect_def)
  then show ?thesis
    unfolding Let_def by (intro disabled_categories_never_consulted) auto
qed

end
