(* ===== verification/Bounded_Store.thy ===== *)
theory Bounded_Store
  imports Guard_Prelude
begin

section \<open>The contract of the bounded stores\<close>

text \<open>
  The engine keeps several per-client maps with a cap: bans, violation counters, the windows and
  counters of the stand-alone limiter, the behavior tracker's rows. Each evicts its oldest entry
  to make room. Their shared contract: writing a key makes exactly that value readable, the size
  stays within the cap, and another key's entry is either untouched or evicted, never altered.
\<close>

locale bounded_store =
  fixes put :: "'k \<Rightarrow> 'v \<Rightarrow> 's \<Rightarrow> 's"
    and look :: "'s \<Rightarrow> 'k \<Rightarrow> 'v option"
    and size_of :: "'s \<Rightarrow> nat"
    and ok :: "'s \<Rightarrow> bool"
    and key_ok :: "'k \<Rightarrow> bool"
    and cap :: nat
  assumes ok_put: "ok s \<Longrightarrow> key_ok k \<Longrightarrow> ok (put k v s)"
    and size_ok: "ok s \<Longrightarrow> size_of s \<le> cap"
    and look_put: "ok s \<Longrightarrow> key_ok k \<Longrightarrow> look (put k v s) k = Some v"
    and look_other: "ok s \<Longrightarrow> key_ok k \<Longrightarrow> k' \<noteq> k \<Longrightarrow>
      look (put k v s) k' = look s k' \<or> look (put k v s) k' = None"
    and look_room: "ok s \<Longrightarrow> key_ok k \<Longrightarrow> k' \<noteq> k \<Longrightarrow> size_of s < cap \<Longrightarrow>
      look (put k v s) k' = look s k'"

fun put_all :: "('k \<Rightarrow> 'v \<Rightarrow> 's \<Rightarrow> 's) \<Rightarrow> ('k \<times> 'v) list \<Rightarrow> 's \<Rightarrow> 's" where
  "put_all put [] s = s"
| "put_all put ((k, v) # xs) s = put_all put xs (put k v s)"

context bounded_store
begin

lemma ok_put_all: "ok s \<Longrightarrow> \<forall>(k, v) \<in> set xs. key_ok k \<Longrightarrow> ok (put_all put xs s)"
proof (induction xs arbitrary: s)
  case (Cons x xs)
  obtain k1 v1 where x: "x = (k1, v1)" by (cases x)
  then have "ok (put k1 v1 s)" using Cons.prems by (auto intro!: ok_put)
  with Cons x show ?case by auto
qed simp

lemma size_put_all: "ok s \<Longrightarrow> \<forall>(k, v) \<in> set xs. key_ok k \<Longrightarrow> size_of (put_all put xs s) \<le> cap"
  by (rule size_ok, rule ok_put_all)

text \<open>
  After any sequence of writes, what a key reads is the last value written to it, or nothing
  (it was evicted), or, when it was never written, what it read at the start.
\<close>

lemma look_put_all:
  "ok s \<Longrightarrow> \<forall>(k, v) \<in> set xs. key_ok k \<Longrightarrow> look (put_all put xs s) k = Some v \<Longrightarrow>
   map_of (rev xs) k = Some v \<or> (map_of (rev xs) k = None \<and> look s k = Some v)"
proof (induction xs arbitrary: s)
  case (Cons x xs)
  obtain k1 v1 where x: "x = (k1, v1)" by (cases x)
  have okk: "key_ok k1" and rest: "\<forall>(k, v) \<in> set xs. key_ok k"
    using Cons.prems(2) x by auto
  have "ok (put k1 v1 s)" using Cons.prems(1) okk by (rule ok_put)
  then have IH: "map_of (rev xs) k = Some v \<or>
      (map_of (rev xs) k = None \<and> look (put k1 v1 s) k = Some v)"
    using Cons.IH Cons.prems(3) rest x by auto
  show ?case
  proof (cases "k = k1")
    case True
    with IH x show ?thesis using look_put [OF Cons.prems(1) okk] by (auto simp: map_add_def)
  next
    case False
    with IH x show ?thesis
      using look_other [OF Cons.prems(1) okk, of k v1] by (auto simp: map_add_def)
  qed
qed simp

end

end
