(* ===== verification/IP_Ban.thy ===== *)
theory IP_Ban
  imports Guard_Examples Bounded_Store
begin

section \<open>IPBanManager (handlers/ip-ban.ts)\<close>

text \<open>
  The in-memory ban map (at most \<open>max_bans\<close> entries, oldest evicted first) in front of Redis.
  The pure map operations come first, then the methods with their Redis calls, agent events and
  log lines, then the migration of legacy keys.
\<close>

definition max_bans :: nat where "max_bans = 10000"

subsection \<open>Canonical IP text\<close>

definition strip_brackets :: "string \<Rightarrow> string" where
  "strip_brackets v =
     (if starts_with ''['' v \<and> ends_with '']'' v then take (length v - 2) (drop 1 v) else v)"

definition canonicalizeIp :: "'r env \<Rightarrow> string \<Rightarrow> string" where
  "canonicalizeIp E v =
     (case e_ip_parse E (strip_brackets v) of
        None \<Rightarrow> v
      | Some a \<Rightarrow>
          (if e_ip_kind E a = V6
           then (case e_ip_mapped E a of Some s \<Rightarrow> s | None \<Rightarrow> e_ip_str E a)
           else e_ip_str E a))"

subsection \<open>The ban map\<close>

text \<open>
  \<open>if (oldestKey) delete\<close>: the JavaScript test is truthiness, so an empty-string key at the
  head stays.
\<close>

definition evict_oldest_ban :: "(string, ban_entry) omap \<Rightarrow> (string, ban_entry) omap" where
  "evict_oldest_ban m =
     (if length m \<ge> max_bans
      then (case m of [] \<Rightarrow> [] | (k, _) # _ \<Rightarrow> if k = [] then m else AList.delete k m)
      else m)"

definition ban_store :: "string \<Rightarrow> ban_entry \<Rightarrow> (string, ban_entry) omap \<Rightarrow> (string, ban_entry) omap"
where
  "ban_store ip b m = AList.update ip b (evict_oldest_ban m)"

definition ban_put ::
  "string \<Rightarrow> rat \<Rightarrow> int \<Rightarrow> string \<Rightarrow> (string, ban_entry) omap \<Rightarrow> (string, ban_entry) omap"
where
  "ban_put ip now duration reason m =
     ban_store ip \<lparr>be_expires = now + of_int duration, be_reason = reason, be_at = now\<rparr> m"

definition ban_live :: "rat \<Rightarrow> string \<Rightarrow> (string, ban_entry) omap \<Rightarrow> bool" where
  "ban_live now ip m = (case map_of m ip of None \<Rightarrow> False | Some b \<Rightarrow> now \<le> be_expires b)"

subsection \<open>Methods\<close>

definition set_bans :: "(string, ban_entry) omap \<Rightarrow> 'r world \<Rightarrow> 'r world" where
  "set_bans m w = w\<lparr>w_bans := m\<rparr>"

definition banIp :: "'r env \<Rightarrow> string \<Rightarrow> int \<Rightarrow> string \<Rightarrow> ('r, bool) eff" where
  "banIp E ip duration reason =
     bnd (gets w_now) (\<lambda>now.
       thn (modify (\<lambda>w. set_bans (ban_put ip now duration reason (w_bans w)) w))
      (thn (when_eff (e_redis E \<noteq> None)
              (bnd (redis_setKey E ''banned_ips'' ip (e_num_str E (now + of_int duration)) (Some duration))
                 (\<lambda>_. ret ())))
      (thn (send_direct_event E ''ip_banned'' ip ''banned'' reason None None None ''ip_ban'' None
              [(''duration'', MNum duration)] (\<lambda>_. ret ()))
      (thn (log_line LogInfo (''IP banned: '' @ ip @ '' for '' @ show_int duration @ ''s - '' @ reason))
        (ret True)))))"

text \<open>
  \<open>isIpBanned\<close>: a live local entry answers; an expired one is dropped; then Redis is asked, a
  live answer is restored to the local map, an expired one deleted.
\<close>

definition redis_ban_check :: "'r env \<Rightarrow> string \<Rightarrow> rat \<Rightarrow> ('r, bool) eff" where
  "redis_ban_check E ip now =
     (if e_redis E = None then ret False
      else bnd (redis_getKey E ''banned_ips'' ip) (\<lambda>v.
        case v of
          None \<Rightarrow> ret False
        | Some s \<Rightarrow>
            (case e_parse_float E s of
               Some x \<Rightarrow>
                 if now \<le> x then
                   thn (modify (\<lambda>w. set_bans (AList.update ip
                          \<lparr>be_expires = x, be_reason = ''restored_from_redis'', be_at = now\<rparr>
                          (w_bans w)) w))
                     (ret True)
                 else bnd (redis_delete E ''banned_ips'' ip) (\<lambda>_. ret False)
             | None \<Rightarrow> bnd (redis_delete E ''banned_ips'' ip) (\<lambda>_. ret False))))"

definition isIpBanned :: "'r env \<Rightarrow> string \<Rightarrow> ('r, bool) eff" where
  "isIpBanned E ip =
     bnd (gets w_now) (\<lambda>now.
     bnd (gets (\<lambda>w. map_of (w_bans w) ip)) (\<lambda>entry.
       case entry of
         Some b \<Rightarrow>
           if now \<le> be_expires b then ret True
           else thn (modify (\<lambda>w. set_bans (AList.delete ip (w_bans w)) w)) (redis_ban_check E ip now)
       | None \<Rightarrow> redis_ban_check E ip now))"

definition unbanIp :: "'r env \<Rightarrow> string \<Rightarrow> ('r, unit) eff" where
  "unbanIp E ip =
     thn (modify (\<lambda>w. set_bans (AList.delete ip (w_bans w)) w))
    (thn (when_eff (e_redis E \<noteq> None) (bnd (redis_delete E ''banned_ips'' ip) (\<lambda>_. ret ())))
    (thn (send_direct_event E ''ip_unbanned'' ip ''unbanned'' ''dynamic_rule_whitelist'' None None None
            ''ip_ban'' None [(''action'', MStr ''unban'')] (\<lambda>_. ret ()))
      (log_line LogInfo (''IP unbanned: '' @ ip))))"

definition ban_reset :: "'r env \<Rightarrow> ('r, unit) eff" where
  "ban_reset E =
     thn (modify (set_bans []))
       (when_eff (e_redis E \<noteq> None) (bnd (redis_deletePattern E ''banned_ips:*'') (\<lambda>_. ret ())))"

subsection \<open>Migration of legacy ban keys\<close>

text \<open>
  A key whose raw IP is canonical stays. Otherwise an expired legacy key is deleted; the
  canonical key keeps the longer of the two remaining times; the legacy key goes. \<open>pttl\<close> is the
  client's remaining time in milliseconds (negative for a missing key).
\<close>

definition migrateOneBanKey :: "'r env \<Rightarrow> 'r redis_client \<Rightarrow> string \<Rightarrow> string \<Rightarrow> ('r, unit) eff" where
  "migrateOneBanKey E c key prefix =
     (let raw = drop (length prefix) key; canon = canonicalizeIp E raw
      in if canon = raw then ret ()
         else
           bnd (on_redis (cl_get c key)) (\<lambda>value.
           bnd (on_redis (cl_pttl c key)) (\<lambda>old.
             if old \<le> 0 then bnd (on_redis (cl_del c [key])) (\<lambda>_. ret ())
             else
               bnd (on_redis (cl_pttl c (prefix @ canon))) (\<lambda>new.
                 thn (when_eff (new < old)
                        (on_redis (cl_set_px c (prefix @ canon)
                           (case value of None \<Rightarrow> [] | Some v \<Rightarrow> v) old)))
                (thn (bnd (on_redis (cl_del c [key])) (\<lambda>_. ret ()))
                  (log_line LogInfo (''Migrated legacy ban key '' @ raw @ '' to canonical '' @ canon)))))))"

definition migrateLegacyBanKeys :: "'r env \<Rightarrow> ('r, unit) eff" where
  "migrateLegacyBanKeys E =
     (case e_redis E of
        Some (Some c) \<Rightarrow>
          try_catch
            (let prefix = e_redis_prefix E @ ''banned_ips:''
             in bnd (on_redis (cl_keys c (prefix @ ''*'')))
                  (\<lambda>keys. for_each (\<lambda>k. migrateOneBanKey E c k prefix) keys))
            (\<lambda>e. log_line LogWarn (''Legacy ban-key migration skipped: '' @ exn_str e))
      | _ \<Rightarrow> ret ())"

subsection \<open>The map stays within its bound\<close>

definition bans_ok :: "'r world \<Rightarrow> bool" where
  "bans_ok w \<longleftrightarrow> om_ok (w_bans w)"

lemma set_bans_sel [simp]: "w_bans (set_bans m w) = m"
  by (simp add: set_bans_def)

lemma offline_bans_ok [keeps_intros, simp]: "offline bans_ok"
  by (auto simp: offline_def unaffected_def same_managers_def bans_ok_def)

lemma max_bans_pos [simp]: "0 < max_bans"
  by (simp add: max_bans_def)

lemma evict_Nil [simp]: "evict_oldest_ban [] = []"
  by (simp add: evict_oldest_ban_def)

lemma evict_Cons:
  "evict_oldest_ban (p # m) =
     (if Suc (length m) \<ge> max_bans \<and> fst p \<noteq> [] then AList.delete (fst p) (p # m) else p # m)"
  by (cases p) (simp add: evict_oldest_ban_def)

lemma evict_below: "length m < max_bans \<Longrightarrow> evict_oldest_ban m = m"
  by (cases m) (simp_all add: evict_Cons)

lemma om_ok_evict [simp]: "om_ok m \<Longrightarrow> om_ok (evict_oldest_ban m)"
  by (cases m) (auto simp: evict_Cons)

lemma ban_store_get [simp]: "map_of (ban_store ip b m) ip = Some b"
  by (simp add: ban_store_def)

lemma om_ok_ban_store [simp]: "om_ok m \<Longrightarrow> om_ok (ban_store ip b m)"
  by (simp add: ban_store_def)

lemma evict_size:
  assumes "length m \<le> max_bans" and "[] \<notin> set (om_keys m)"
  shows "length (evict_oldest_ban m) < max_bans"
proof (cases m)
  case (Cons p ps)
  have "length (AList.delete (fst p) ps) \<le> length ps"
    by (rule length_delete_le)
  with assms Cons show ?thesis by (cases p) (auto simp: evict_Cons)
qed simp

lemma ban_store_size:
  assumes "length m \<le> max_bans" and "[] \<notin> set (om_keys m)"
  shows "length (ban_store ip b m) \<le> max_bans"
  using evict_size [OF assms] by (simp add: ban_store_def om_size_update)

text \<open>Below the bound nobody else's ban is lost; at the bound only the oldest entry is.\<close>

lemma ban_store_other:
  assumes "ip' \<noteq> ip" and "length m < max_bans \<or> ip' \<noteq> fst (hd m)"
  shows "map_of (ban_store ip b m) ip' = map_of m ip'"
proof (cases m)
  case (Cons p ps)
  then show ?thesis
    using assms by (cases p) (auto simp: ban_store_def evict_Cons)
next
  case Nil
  then show ?thesis
    using assms by (simp add: ban_store_def)
qed

lemma ban_store_either:
  assumes "ip' \<noteq> ip"
  shows "map_of (ban_store ip b m) ip' = map_of m ip' \<or> map_of (ban_store ip b m) ip' = None"
  using assms by (cases m) (auto simp: ban_store_def evict_Cons)

lemma ban_put_live [simp]: "ban_live t ip (ban_put ip now d r m) \<longleftrightarrow> t \<le> now + of_int d"
  by (simp add: ban_live_def ban_put_def)

text \<open>
  The ban map is a bounded store (an empty IP is never banned: every caller tests the client
  host first).
\<close>

definition ban_map_ok :: "(string, ban_entry) omap \<Rightarrow> bool" where
  "ban_map_ok m \<longleftrightarrow> om_ok m \<and> length m \<le> max_bans \<and> [] \<notin> set (om_keys m)"

lemma keys_evict: "set (om_keys (evict_oldest_ban m)) \<subseteq> set (om_keys m)"
  by (cases m) (auto simp: evict_Cons)

lemma ban_map_ok_store:
  assumes "ban_map_ok m" and "ip \<noteq> []"
  shows "ban_map_ok (ban_store ip b m)"
proof -
  have "[] \<notin> set (om_keys (evict_oldest_ban m))"
    using assms(1) keys_evict by (auto simp: ban_map_ok_def)
  then have "[] \<notin> set (om_keys (ban_store ip b m))"
    using assms(2) by (auto simp: ban_store_def)
  then show ?thesis
    using assms by (simp add: ban_map_ok_def ban_store_size)
qed

interpretation bans: bounded_store ban_store map_of length ban_map_ok "\<lambda>ip. ip \<noteq> []" max_bans
proof unfold_locales
  fix s :: "(string, ban_entry) omap" and k k' :: string and v
  assume ok: "ban_map_ok s" and k: "k \<noteq> []"
  show "ban_map_ok (ban_store k v s)" using ok k by (rule ban_map_ok_store)
  show "map_of (ban_store k v s) k = Some v" by simp
  assume neq: "k' \<noteq> k"
  show "map_of (ban_store k v s) k' = map_of s k'" if "length s < max_bans"
    using neq that by (simp add: ban_store_other)
  show "map_of (ban_store k v s) k' = map_of s k' \<or> map_of (ban_store k v s) k' = None"
    using neq by (rule ban_store_either)
qed (simp add: ban_map_ok_def)

subsection \<open>What the methods keep\<close>

lemma keeps_banIp:
  assumes "offline P" and "\<And>w now. P w \<Longrightarrow> P (set_bans (ban_put ip now d r (w_bans w)) w)"
  shows "keeps P (banIp E ip d r)"
  unfolding banIp_def using assms by (intro keeps_intros keeps_modify) auto

lemma keeps_isIpBanned:
  assumes "offline P" and "\<And>w. P w \<Longrightarrow> P (set_bans (AList.delete ip (w_bans w)) w)"
    and "\<And>w b. P w \<Longrightarrow> P (set_bans (AList.update ip b (w_bans w)) w)"
  shows "keeps P (isIpBanned E ip)"
  unfolding isIpBanned_def redis_ban_check_def
  using assms by (intro keeps_intros keeps_modify) auto

lemma banIp_raises: "raises_only is_redis_error (banIp E ip d r)"
  unfolding banIp_def when_eff_def
  by (intro raises_intros raises_calm calm_intros)

lemma isIpBanned_raises: "raises_only is_redis_error (isIpBanned E ip)"
  unfolding isIpBanned_def redis_ban_check_def
  by (intro raises_intros raises_calm calm_intros)

subsection \<open>A ban holds until it expires, whatever Redis and the agent do\<close>

lemma keeps_after_modify: "keeps Q m \<Longrightarrow> Q (f w) \<Longrightarrow> Q (snd (thn (modify f) m w))"
  by (simp add: thn_run keepsD)

lemma offline_bans_now [simp]: "offline (\<lambda>u. w_bans u = m \<and> w_now u = n)"
  by (auto simp: offline_def unaffected_def same_managers_def)

text \<open>The write to the local map survives a failing Redis write.\<close>

lemma banIp_state:
  "w_bans (snd (banIp E ip d r w)) = ban_put ip (w_now w) d r (w_bans w) \<and>
   w_now (snd (banIp E ip d r w)) = w_now w"
  unfolding banIp_def bnd_run [of "gets w_now"] gets_run prod.case sum.case
  by (rule keeps_after_modify) (auto simp: set_bans_def intro!: keeps_intros)

lemma banIp_true:
  assumes "banIp E ip d r w = (Inr b, w')" shows b
proof -
  have "returns id (banIp E ip d r)"
    unfolding banIp_def by (auto intro!: returns_intros)
  from returnsD [OF this assms] show ?thesis by simp
qed

lemma isIpBanned_local:
  "isIpBanned E ip w =
     (if ban_live (w_now w) ip (w_bans w) then (Inr True, w)
      else redis_ban_check E ip (w_now w) (set_bans (AList.delete ip (w_bans w)) w))"
proof -
  have "AList.delete ip (w_bans w) = w_bans w" if "map_of (w_bans w) ip = None"
    using that by simp
  then show ?thesis
    by (auto simp: isIpBanned_def bnd_run thn_run ret_run ban_live_def set_bans_def
        split: option.splits)
qed

text \<open>
  C10: after \<open>banIp(ip, duration)\<close>, even when its Redis write or its agent event failed, a
  check at any time up to the expiry answers banned; without Redis a later check answers not
  banned and drops the entry.
\<close>

theorem ban_holds_until_expiry:
  assumes "t \<le> w_now w + of_int duration \<or> e_redis E = None"
  shows "let after = isIpBanned E ip ((snd (banIp E ip duration reason w))\<lparr>w_now := t\<rparr>)
    in fst after = Inr (t \<le> w_now w + of_int duration) \<and>
       (t \<le> w_now w + of_int duration \<or> map_of (w_bans (snd after)) ip = None)"
  using assms banIp_state [of E ip duration reason w]
  by (auto simp: Let_def isIpBanned_local redis_ban_check_def ret_run)

theorem ban_holds_until_expiry_witness:
  "fst (isIpBanned ex_env ''10.0.0.7'' ((snd (banIp ex_env ''10.0.0.7'' 60 ''test'' ex_world))\<lparr>w_now := 1050\<rparr>))
     = Inr True \<and>
   fst (isIpBanned ex_env ''10.0.0.7'' ((snd (banIp ex_env ''10.0.0.7'' 60 ''test'' ex_world))\<lparr>w_now := 1061\<rparr>))
     = Inr False"
proof -
  have "e_redis ex_env = None" and now: "w_now ex_world = 1000"
    by (simp_all add: ex_simps)
  then show ?thesis
    using ban_holds_until_expiry [of 1050 ex_world 60 ex_env "''10.0.0.7''" "''test''"]
      ban_holds_until_expiry [of 1061 ex_world 60 ex_env "''10.0.0.7''" "''test''"]
    by (simp add: Let_def)
qed

text \<open>
  C36: from an empty map, any sequence of bans keeps at most \<open>maxSize\<close> entries, and an entry that is
  read is the last one written for its IP: eviction loses bans, it never alters one.
\<close>

theorem bans_bounded_and_faithful:
  assumes "\<forall>(k, v) \<in> set xs. k \<noteq> []"
  shows "length (put_all ban_store xs []) \<le> max_bans \<and>
    (\<forall>ip b. map_of (put_all ban_store xs []) ip = Some b \<longrightarrow> map_of (rev xs) ip = Some b)"
proof -
  have empty: "ban_map_ok []" by (simp add: ban_map_ok_def)
  show ?thesis
    using bans.size_put_all [OF empty assms] bans.look_put_all [OF empty assms] by fastforce
qed

theorem bans_bounded_and_faithful_witness:
  "length (put_all ban_store [(''10.0.0.7'', \<lparr>be_expires = 2, be_reason = [], be_at = 1\<rparr>)] []) \<le> max_bans"
  using bans_bounded_and_faithful [of "[(''10.0.0.7'', \<lparr>be_expires = 2, be_reason = [], be_at = 1\<rparr>)]"]
  by simp

text \<open>
  With the map full, banning an IP that is banned already still evicts the oldest entry, so an
  unrelated client's ban is lifted although no room was needed.
\<close>

theorem reban_lifts_an_unrelated_ban:
  assumes "om_ok m" and "length m = max_bans" and "m = (old, b) # rest" and "old \<noteq> []"
    and "ip \<in> set (om_keys rest)"
  shows "map_of m old = Some b \<and> map_of m ip \<noteq> None \<and> map_of (ban_put ip now d r m) old = None"
proof -
  have "ip \<noteq> old" using assms(1,3,5) by auto
  then show ?thesis
    using assms by (auto simp: ban_put_def ban_store_def evict_oldest_ban_def map_of_eq_None_iff)
qed

definition ex_full_bans :: "(string, ban_entry) omap" where
  "ex_full_bans = map (\<lambda>i. (replicate (Suc i) CHR ''a'', \<lparr>be_expires = 9, be_reason = [], be_at = 1\<rparr>)) [0..<max_bans]"

theorem reban_lifts_an_unrelated_ban_witness:
  "map_of (ban_put ''aa'' 5 60 [] ex_full_bans) ''a'' = None"
proof -
  have keys: "om_keys ex_full_bans = map (\<lambda>i. replicate (Suc i) CHR ''a'') [0..<max_bans]"
    by (simp add: ex_full_bans_def)
  have ok: "om_ok ex_full_bans"
    unfolding keys by (simp add: distinct_map inj_on_def del: replicate.simps)
  have two: "[0..<max_bans] = 0 # 1 # [2..<max_bans]"
  proof -
    have "Suc 0 < max_bans" by (simp add: max_bans_def)
    then show ?thesis by (simp add: upt_conv_Cons numeral_2_eq_2)
  qed
  have shape: "ex_full_bans = (''a'', \<lparr>be_expires = 9, be_reason = [], be_at = 1\<rparr>) # tl ex_full_bans"
    and second: "''aa'' \<in> set (om_keys (tl ex_full_bans))"
    by (simp_all add: ex_full_bans_def two numeral_2_eq_2)
  have size: "length ex_full_bans = max_bans" by (simp add: ex_full_bans_def)
  show ?thesis
    using reban_lifts_an_unrelated_ban [OF ok size shape _ second] by simp
qed

end
