(* ===== verification/Violation_Counts.thy ===== *)
theory Violation_Counts
  imports IP_Ban
begin

section \<open>Violation counters and threshold bans (core/checks/helpers.ts)\<close>

text \<open>
  \<open>middleware.suspiciousRequestCounts\<close>: per client, per category counts, in recency order with a
  cap on the tracked clients, and the escalation from counts to bans.
\<close>

definition max_tracked_ips :: nat where "max_tracked_ips = 10000"

subsection \<open>incrementSuspiciousCounts\<close>

text \<open>\<open>updated.set(category, (updated.get(category) ?? 0) + 1)\<close> for each category.\<close>

definition bump :: "string \<Rightarrow> (string, int) omap \<Rightarrow> (string, int) omap" where
  "bump c m = AList.update c (om_get_or 0 m c + 1) m"

definition resolved_categories :: "string list \<Rightarrow> string list" where
  "resolved_categories cs = (if cs = [] then [''uncategorized''] else cs)"

text \<open>The recency write shared with the eviction: pop, evict when a new client finds no room, append.\<close>

definition recency_put :: "nat \<Rightarrow> 'k \<Rightarrow> 'v \<Rightarrow> ('k, 'v) omap \<Rightarrow> ('k, 'v) omap" where
  "recency_put cap k v m =
     (let popped = AList.delete k m;
          roomy = (if map_of m k = None \<and> length popped \<ge> cap then om_drop_oldest popped else popped)
      in AList.update k v roomy)"

definition increment_counts ::
  "string \<Rightarrow> string list \<Rightarrow> (string, (string, int) omap) omap \<Rightarrow> (string, (string, int) omap) omap"
where
  "increment_counts ip cs m =
     recency_put max_tracked_ips ip (fold bump (resolved_categories cs) (om_get_or [] m ip)) m"

definition set_sus :: "(string, (string, int) omap) omap \<Rightarrow> 'r world \<Rightarrow> 'r world" where
  "set_sus m w = w\<lparr>w_sus := m\<rparr>"

definition incrementSuspiciousCounts :: "string \<Rightarrow> string list \<Rightarrow> ('r, unit) eff" where
  "incrementSuspiciousCounts ip cs = modify (\<lambda>w. set_sus (increment_counts ip cs (w_sus w)) w)"

definition counts_total :: "(string, int) omap \<Rightarrow> int" where
  "counts_total m = foldl (+) 0 (map snd m)"

definition totalSuspiciousCount :: "(string, (string, int) omap) omap \<Rightarrow> string \<Rightarrow> int" where
  "totalSuspiciousCount m ip = (case map_of m ip of None \<Rightarrow> 0 | Some c \<Rightarrow> counts_total c)"

subsection \<open>resolveThresholdBan, tryThresholdBan\<close>

text \<open>
  The pure decision: the first category, in order, whose \<open>threatBanConfig\<close> entry is crossed; else
  the flat threshold against the total. The result is duration, reason and category.
\<close>

fun category_ban ::
  "config \<Rightarrow> (string, int) omap \<Rightarrow> string \<Rightarrow> string list \<Rightarrow> (int \<times> string \<times> string) option"
where
  "category_ban C counts reason [] = None"
| "category_ban C counts reason (c # cs) =
     (case map_of (c_threat_ban C) c of
        None \<Rightarrow> category_ban C counts reason cs
      | Some (threshold, duration) \<Rightarrow>
          if om_get_or 0 counts c < threshold then category_ban C counts reason cs
          else Some (duration, reason @ '':'' @ c, c))"

definition threshold_decision ::
  "config \<Rightarrow> (string, int) omap \<Rightarrow> string \<Rightarrow> string list \<Rightarrow> (int \<times> string \<times> string option) option"
where
  "threshold_decision C counts reason cs =
     (case category_ban C counts reason cs of
        Some (d, r, c) \<Rightarrow> Some (d, r, Some c)
      | None \<Rightarrow>
          if counts_total counts < c_autoban_threshold C then None
          else Some (c_autoban_duration C, reason, None))"

definition resolveThresholdBan ::
  "'r env \<Rightarrow> config \<Rightarrow> (string, int) omap \<Rightarrow> string \<Rightarrow> string list \<Rightarrow> string
     \<Rightarrow> ('r, (int \<times> string \<times> string option) option) eff"
where
  "resolveThresholdBan E C counts ip cs reason =
     (if \<not> c_enable_ban C then ret None
      else if \<not> e_ban_manager E then ret None
      else (case threshold_decision C counts reason cs of
              None \<Rightarrow> ret None
            | Some (d, r, c) \<Rightarrow>
                bnd (banIp E ip d r) (\<lambda>applied. ret (if applied then Some (d, r, c) else None))))"

definition tryThresholdBan ::
  "'r env \<Rightarrow> config \<Rightarrow> request \<Rightarrow> string \<Rightarrow> string \<Rightarrow> string list \<Rightarrow> string \<Rightarrow> ('r, bool) eff"
where
  "tryThresholdBan E C rq ip trigger cs reason =
     bnd (gets (\<lambda>w. om_get_or [] (w_sus w) ip)) (\<lambda>counts.
     bnd (resolveThresholdBan E C counts ip cs reason) (\<lambda>result.
       case result of
         None \<Rightarrow> ret False
       | Some (d, r, c) \<Rightarrow>
           thn (logActivity E rq LogSuspicious
                  (case c of
                     Some cat \<Rightarrow> ''IP banned due to '' @ cat @ '' threshold: '' @ ip @ '' - '' @ trigger
                   | None \<Rightarrow> ''IP banned due to suspicious activity: '' @ ip @ '' - '' @ trigger)
                  (c_passive C) [] (c_log_suspicious C) None)
             (ret True)))"

definition emitBanEscalationFailed ::
  "'r env \<Rightarrow> config \<Rightarrow> request \<Rightarrow> string \<Rightarrow> exn \<Rightarrow> ('r, unit) eff"
where
  "emitBanEscalationFailed E C rq ip e =
     sendMiddlewareEvent E C ''ip_ban_failed'' rq ''ban_not_applied''
       (''Escalation ban failed for '' @ ip @ '': '' @ exn_message e) [(''ipAddress'', MStr ip)]"

subsection \<open>The counters are a bounded store\<close>

lemma om_ok_recency [simp]: "om_ok m \<Longrightarrow> om_ok (recency_put cap k v m)"
  by (auto simp: recency_put_def Let_def)

lemma recency_get [simp]: "map_of (recency_put cap k v m) k = Some v"
  by (simp add: recency_put_def Let_def)

lemma recency_size:
  assumes "om_ok m" and "length m \<le> cap" and "0 < cap"
  shows "length (recency_put cap k v m) \<le> cap"
proof (cases "map_of m k")
  case None
  then show ?thesis
    using assms by (auto simp: recency_put_def Let_def om_size_update om_get_tl)
next
  case (Some x)
  then have "length m > 0" by (cases m) auto
  then show ?thesis
    using Some assms by (auto simp: recency_put_def Let_def om_size_update om_size_delete)
qed

lemma recency_other:
  assumes "om_ok m" and "k' \<noteq> k"
  shows "map_of (recency_put cap k v m) k' = map_of m k' \<or> map_of (recency_put cap k v m) k' = None"
  using assms by (auto simp: recency_put_def Let_def om_get_tl)

lemma recency_room:
  assumes "om_ok m" and "k' \<noteq> k" and "length m < cap"
  shows "map_of (recency_put cap k v m) k' = map_of m k'"
  using assms by (auto simp: recency_put_def Let_def)

text \<open>The key just written is the last to be evicted.\<close>

lemma recency_last: "om_keys (recency_put cap k v m) = om_keys (butlast (recency_put cap k v m)) @ [k]"
proof -
  have "map_of (if map_of m k = None \<and> length (AList.delete k m) \<ge> cap
      then om_drop_oldest (AList.delete k m) else AList.delete k m) k = None"
    by (auto simp: om_drop_oldest_def split: list.splits)
  then show ?thesis
    by (simp add: recency_put_def Let_def om_update_new)
qed

definition counters_ok :: "('k, 'v) omap \<Rightarrow> bool" where
  "counters_ok m \<longleftrightarrow> om_ok m \<and> length m \<le> max_tracked_ips"

lemma max_tracked_pos [simp]: "0 < max_tracked_ips"
  by (simp add: max_tracked_ips_def)

interpretation counters: bounded_store "recency_put max_tracked_ips" map_of length counters_ok
  "\<lambda>_. True" max_tracked_ips
  by unfold_locales (auto simp: counters_ok_def recency_size recency_other recency_room)

lemma bump_get: "om_get_or 0 (bump c m) c' = om_get_or 0 m c' + (if c' = c then 1 else 0)"
  by (simp add: bump_def om_get_or_def)

lemma fold_bump_get:
  "om_get_or 0 (fold bump cs m) c = om_get_or 0 m c + int (count_list cs c)"
  by (induction cs arbitrary: m) (auto simp: bump_get)

lemma om_ok_fold_bump: "om_ok m \<Longrightarrow> om_ok (fold bump cs m)"
  by (induction cs arbitrary: m) (auto simp: bump_def)

lemma counts_total_sum: "counts_total m = sum_list (map snd m)"
  unfolding counts_total_def by (simp add: fold_plus_sum_list_rev foldl_conv_fold add.commute)

lemma sum_update:
  "om_ok m \<Longrightarrow> sum_list (map snd (AList.update k v m)) =
     sum_list (map snd m) - (om_get_or 0 m k :: int) + v"
proof (induction m)
  case (Cons p m)
  then have "fst p = k \<Longrightarrow> map_of m k = None"
    by (auto simp: map_of_eq_None_iff)
  with Cons show ?case by (cases p) (auto simp: om_get_or_def)
qed (simp add: om_get_or_def)

lemma counts_total_bump: "om_ok m \<Longrightarrow> counts_total (bump c m) = counts_total m + 1"
  by (simp add: counts_total_sum bump_def sum_update)

lemma counts_total_fold_bump:
  "om_ok m \<Longrightarrow> counts_total (fold bump cs m) = counts_total m + int (length cs)"
proof (induction cs arbitrary: m)
  case (Cons c cs)
  have "om_ok (bump c m)" using Cons.prems by (simp add: bump_def)
  with Cons show ?case by (simp add: counts_total_bump)
qed simp

subsection \<open>What the operations keep and raise\<close>

lemma keeps_increment:
  "(\<And>w m. P w \<Longrightarrow> P (set_sus m w)) \<Longrightarrow> keeps P (incrementSuspiciousCounts ip cs)"
  unfolding incrementSuspiciousCounts_def by (intro keeps_modify) auto

lemma calm_increment [calm_intros]: "never_raises (incrementSuspiciousCounts ip cs)"
  by (simp add: incrementSuspiciousCounts_def)

lemma keeps_tryThresholdBan:
  assumes "offline P" and "\<And>w m. P w \<Longrightarrow> P (set_bans m w)"
  shows "keeps P (tryThresholdBan E C rq ip tr cs reason)"
  unfolding tryThresholdBan_def resolveThresholdBan_def
  using assms by (intro keeps_intros keeps_banIp) auto

lemma tryThresholdBan_raises: "raises_only is_redis_error (tryThresholdBan E C rq ip tr cs reason)"
  unfolding tryThresholdBan_def resolveThresholdBan_def
  by (intro raises_intros banIp_raises raises_prod raises_calm calm_intros)

subsection \<open>Properties\<close>

text \<open>
  C35: recording a violation raises the count of each listed category by its number of
  occurrences (an empty list counts once as uncategorized) and the client's total by the length of
  the list, keeps at most 10000 clients, and leaves every other client's counts as they
  were or evicts that client whole.
\<close>

theorem violation_counting:
  assumes "counters_ok m" and "om_ok (om_get_or [] m ip)"
  shows "om_get_or 0 (om_get_or [] (increment_counts ip cs m) ip) c =
      om_get_or 0 (om_get_or [] m ip) c + int (count_list (resolved_categories cs) c) \<and>
    totalSuspiciousCount (increment_counts ip cs m) ip =
      totalSuspiciousCount m ip + int (length (resolved_categories cs)) \<and>
    counters_ok (increment_counts ip cs m) \<and>
    (ip' = ip \<or> map_of (increment_counts ip cs m) ip' \<in> {None, map_of m ip'})"
proof (intro conjI)
  let ?old = "om_get_or [] m ip" and ?cs = "resolved_categories cs"
  have new: "map_of (increment_counts ip cs m) ip = Some (fold bump ?cs ?old)"
    unfolding increment_counts_def by (rule recency_get)
  have "om_get_or [] (increment_counts ip cs m) ip = fold bump ?cs ?old"
    unfolding om_get_or_def [of "[]" "increment_counts ip cs m"] new by simp
  then show "om_get_or 0 (om_get_or [] (increment_counts ip cs m) ip) c =
      om_get_or 0 ?old c + int (count_list ?cs c)"
    by (simp only: fold_bump_get)
  have "totalSuspiciousCount m ip = counts_total ?old"
    by (cases "map_of m ip") (simp_all add: totalSuspiciousCount_def om_get_or_def counts_total_def)
  then show "totalSuspiciousCount (increment_counts ip cs m) ip =
      totalSuspiciousCount m ip + int (length ?cs)"
    using counts_total_fold_bump [OF assms(2)]
    unfolding totalSuspiciousCount_def [of "increment_counts ip cs m"] new by simp
  show "counters_ok (increment_counts ip cs m)"
    unfolding increment_counts_def by (rule counters.ok_put [OF assms(1) TrueI])
  show "ip' = ip \<or> map_of (increment_counts ip cs m) ip' \<in> {None, map_of m ip'}"
    unfolding increment_counts_def
    using counters.look_other [OF assms(1) TrueI, of ip' ip "fold bump ?cs ?old"] by auto
qed

theorem violation_counting_witness:
  "om_get_or 0 (om_get_or [] (increment_counts ''10.0.0.7'' [''xss'', ''sqli'', ''xss'']
      [(''10.0.0.7'', [(''xss'', 3)]), (''10.0.0.8'', [(''lfi'', 1)])]) ''10.0.0.7'') ''xss'' = 5"
proof -
  let ?m = "[(''10.0.0.7'', [(''xss'', 3)]), (''10.0.0.8'', [(''lfi'', 1)])]
    :: (string, (string, int) omap) omap"
  have "counters_ok ?m" and "om_ok (om_get_or [] ?m ''10.0.0.7'')"
    and "om_get_or 0 (om_get_or [] ?m ''10.0.0.7'') ''xss'' = 3"
    by (simp_all add: counters_ok_def max_tracked_ips_def om_get_or_def)
  moreover have "count_list (resolved_categories [''xss'', ''sqli'', ''xss'']) ''xss'' = 2"
    by (simp add: resolved_categories_def)
  ultimately show ?thesis
    using violation_counting [of ?m "''10.0.0.7''" "[''xss'', ''sqli'', ''xss'']" "''xss''" "''xss''"]
    by linarith
qed

text \<open>The category that decides is the first one crossed.\<close>

definition crosses :: "config \<Rightarrow> (string, int) omap \<Rightarrow> string \<Rightarrow> bool" where
  "crosses C counts c =
     (case map_of (c_threat_ban C) c of None \<Rightarrow> False | Some (t, _) \<Rightarrow> t \<le> om_get_or 0 counts c)"

lemma category_ban_find:
  "category_ban C counts reason cs =
     (case find (crosses C counts) cs of
        None \<Rightarrow> None
      | Some c \<Rightarrow> Some (snd (the (map_of (c_threat_ban C) c)), reason @ '':'' @ c, c))"
  by (induction cs) (auto simp: crosses_def split: option.splits)

text \<open>
  With banning enabled, the threshold ban that reaches the ban map, whatever Redis or the agent
  do, is the one of the first listed category whose own threshold is crossed (its duration, the
  reason extended by the category), else the flat ban when the total of all categories reaches the
  flat threshold, else none.
\<close>

theorem threshold_ban_resolution:
  assumes "c_enable_ban C" and "e_ban_manager E"
  shows "w_bans (snd (resolveThresholdBan E C counts ip cs reason w)) =
    (case find (crosses C counts) cs of
       Some c \<Rightarrow> ban_put ip (w_now w) (snd (the (map_of (c_threat_ban C) c))) (reason @ '':'' @ c) (w_bans w)
     | None \<Rightarrow> if sum_list (map snd counts) < c_autoban_threshold C then w_bans w
               else ban_put ip (w_now w) (c_autoban_duration C) reason (w_bans w))"
proof -
  have run: "w_bans (snd (bnd (banIp E ip d r) (\<lambda>applied. ret (if applied then x else y)) w)) =
      ban_put ip (w_now w) d r (w_bans w)" for d r and x y :: "(int \<times> string \<times> string option) option"
    using banIp_state [of E ip d r w]
    by (cases "banIp E ip d r w") (auto simp: bnd_run ret_run split: sum.splits)
  show ?thesis
    using assms
    by (auto simp: resolveThresholdBan_def threshold_decision_def category_ban_find run ret_run
        counts_total_sum split: option.splits)
qed

theorem threshold_ban_resolution_witness:
  "w_bans (snd (resolveThresholdBan ex_env
      (ex_config\<lparr>c_threat_ban := [(''sqli'', (5, 7200)), (''xss'', (2, 600))]\<rparr>)
      [(''sqli'', 1), (''xss'', 2)] ''10.0.0.7'' [''sqli'', ''xss''] ''penetration_attempt'' ex_world)) =
    ban_put ''10.0.0.7'' 1000 600 ''penetration_attempt:xss'' []"
proof -
  have "w_now ex_world = 1000" and "w_bans ex_world = []" and "e_ban_manager ex_env"
    and "c_enable_ban (ex_config\<lparr>c_threat_ban := [(''sqli'', (5, 7200)), (''xss'', (2, 600))]\<rparr>)"
    by (simp_all add: ex_simps)
  then show ?thesis
    using threshold_ban_resolution [of "ex_config\<lparr>c_threat_ban := [(''sqli'', (5, 7200)), (''xss'', (2, 600))]\<rparr>"
        ex_env "[(''sqli'', 1), (''xss'', 2)]" "''10.0.0.7''" "[''sqli'', ''xss'']"
        "''penetration_attempt''" ex_world]
    by (simp add: crosses_def om_get_or_def)
qed

end
