(* ===== verification/Sliding_Window.thy ===== *)
theory Sliding_Window
  imports Guard_Prelude
begin

section \<open>Sliding windows of timestamps\<close>

text \<open>
  The rate limiter, the stand-alone limiter and the behavior tracker all keep arrays of
  timestamps, prune the expired prefix and push the current time. This theory holds the two
  pruning routines of the source, the plain store of \<open>RateLimitManager\<close>, and the contract
  \<open>window_counter\<close> the limiters are proved against: a hit counts the earlier hits of its key
  that are younger than the window.
\<close>

subsection \<open>Pruning\<close>

text \<open>\<open>xs.findIndex(p)\<close>: the first index where \<open>p\<close> holds, else -1.\<close>

fun find_index :: "('a \<Rightarrow> bool) \<Rightarrow> 'a list \<Rightarrow> int" where
  "find_index p [] = -1"
| "find_index p (x # xs) =
     (if p x then 0 else (let i = find_index p xs in if i = -1 then -1 else i + 1))"

text \<open>
  The pruning of \<open>getInMemoryRequestCount\<close>, \<open>trackEndpointUsage\<close> and
  \<open>trackReturnPattern\<close>: splice up to the first live timestamp, or clear when none is live.
\<close>

definition prune_expired :: "rat \<Rightarrow> rat list \<Rightarrow> rat list" where
  "prune_expired start ts =
     (let i = find_index (\<lambda>t. t > start) ts
      in if i > 0 then drop (nat i) ts else if i = -1 then [] else ts)"

text \<open>The pruning of \<open>inMemoryRequestCountByIp\<close>: \<open>while (ts[0] <= start) ts.shift()\<close>.\<close>

fun shift_expired :: "rat \<Rightarrow> rat list \<Rightarrow> rat list" where
  "shift_expired start [] = []"
| "shift_expired start (t # ts) = (if t \<le> start then shift_expired start ts else t # ts)"

lemma find_index_bounds: "find_index p xs \<ge> -1"
  by (induction xs) (auto simp: Let_def)

lemma drop_find_index:
  "(let i = find_index p xs in if i = -1 then [] else drop (nat i) xs) = dropWhile (Not \<circ> p) xs"
proof (induction xs)
  case (Cons x xs)
  have "find_index p xs \<noteq> -1 \<Longrightarrow> nat (find_index p xs + 1) = Suc (nat (find_index p xs))"
    using find_index_bounds [of p xs] by (simp add: Suc_nat_eq_nat_zadd1 add.commute)
  with Cons show ?case by (auto simp: Let_def split: if_splits)
qed simp

lemma prune_dropWhile: "prune_expired start ts = dropWhile (\<lambda>t. t \<le> start) ts"
proof -
  have *: "dropWhile (Not \<circ> (\<lambda>t. t > start)) ts = dropWhile (\<lambda>t. t \<le> start) ts"
    by (rule arg_cong [where f = "\<lambda>p. dropWhile p ts"]) (auto simp: fun_eq_iff)
  show ?thesis
    using find_index_bounds [of "\<lambda>t. t > start" ts] drop_find_index [of "\<lambda>t. t > start" ts]
    unfolding prune_expired_def * by (auto simp: Let_def split: if_splits)
qed

text \<open>The two pruning routines agree.\<close>

lemma shift_dropWhile: "shift_expired start ts = dropWhile (\<lambda>t. t \<le> start) ts"
  by (induction ts) auto

lemma dropWhile_sorted_filter:
  "sorted (ts :: rat list) \<Longrightarrow> dropWhile (\<lambda>t. t \<le> a) ts = filter (\<lambda>t. a < t) ts"
proof (induction ts)
  case (Cons t ts)
  show ?case
  proof (cases "t \<le> a")
    case False
    with Cons.prems have "filter (\<lambda>t. a < t) ts = ts"
      by (intro filter_True) force
    with False show ?thesis by simp
  qed (use Cons in simp)
qed simp

lemmas prune_filter = trans [OF prune_dropWhile dropWhile_sorted_filter]
lemmas shift_filter = trans [OF shift_dropWhile dropWhile_sorted_filter]

subsection \<open>The plain store: RateLimitManager.requestTimestamps\<close>

definition window_hit ::
  "'k \<Rightarrow> rat \<Rightarrow> rat \<Rightarrow> ('k, rat list) omap \<Rightarrow> nat \<times> ('k, rat list) omap"
where
  "window_hit key now window m =
     (let ts = prune_expired (now - window) (om_get_or [] m key) @ [now]
      in (length ts, AList.update key ts m))"

subsection \<open>The contract of a window counter\<close>

text \<open>
  \<open>hit k now W s\<close> records a hit and answers a count; \<open>times s k\<close> are the recorded hits of a
  key; \<open>room k s\<close> says that recording \<open>k\<close> evicts nobody; \<open>self\<close> is 1 when the answer
  counts the new hit and 0 when it does not.
\<close>

locale window_counter =
  fixes hit :: "'k \<Rightarrow> rat \<Rightarrow> rat \<Rightarrow> 's \<Rightarrow> nat \<times> 's"
    and times :: "'s \<Rightarrow> 'k \<Rightarrow> rat list"
    and room :: "'k \<Rightarrow> 's \<Rightarrow> bool"
    and self :: nat
  assumes times_hit: "sorted (times s k) \<Longrightarrow>
      times (snd (hit k now W s)) k = filter (\<lambda>t. now - W < t) (times s k) @ [now]"
    and times_other: "room k s \<Longrightarrow> k' \<noteq> k \<Longrightarrow> times (snd (hit k now W s)) k' = times s k'"
    and count_hit: "sorted (times s k) \<Longrightarrow>
      fst (hit k now W s) = self + length (filter (\<lambda>t. now - W < t) (times s k))"

text \<open>A run of hits, one after the other, and whether each found room.\<close>

fun run_hits :: "('k \<Rightarrow> rat \<Rightarrow> rat \<Rightarrow> 's \<Rightarrow> nat \<times> 's) \<Rightarrow> rat \<Rightarrow> ('k \<times> rat) list \<Rightarrow> 's \<Rightarrow> 's" where
  "run_hits hit W [] s = s"
| "run_hits hit W ((k, now) # xs) s = run_hits hit W xs (snd (hit k now W s))"

fun all_room ::
  "('k \<Rightarrow> rat \<Rightarrow> rat \<Rightarrow> 's \<Rightarrow> nat \<times> 's) \<Rightarrow> ('k \<Rightarrow> 's \<Rightarrow> bool) \<Rightarrow> rat \<Rightarrow> ('k \<times> rat) list \<Rightarrow> 's \<Rightarrow> bool"
where
  "all_room hit room W [] s = True"
| "all_room hit room W ((k, now) # xs) s =
     (room k s \<and> all_room hit room W xs (snd (hit k now W s)))"

text \<open>A run of hits each with a window of its own, as several tiers make them on one store.\<close>

fun run_windows :: "('k \<Rightarrow> rat \<Rightarrow> rat \<Rightarrow> 's \<Rightarrow> nat \<times> 's) \<Rightarrow> ('k \<times> rat \<times> rat) list \<Rightarrow> 's \<Rightarrow> 's" where
  "run_windows hit [] s = s"
| "run_windows hit ((k, now, V) # xs) s = run_windows hit xs (snd (hit k now V s))"

text \<open>The hits of key \<open>k\<close> in a trace that are younger than \<open>now - W\<close>.\<close>

definition live_hits :: "'k \<Rightarrow> rat \<Rightarrow> ('k \<times> rat) list \<Rightarrow> nat" where
  "live_hits k start xs = length (filter (\<lambda>(k', t). k' = k \<and> start < t) xs)"

context window_counter
begin

lemma sorted_hit:
  assumes "sorted (times s k)" and "\<forall>t \<in> set (times s k). t \<le> now"
  shows "sorted (times (snd (hit k now W s)) k)"
  using assms by (auto simp: times_hit sorted_append sorted_wrt_filter)

text \<open>
  What a run of hits in clock order leaves for a key: seen from any later time, its recorded
  hits are the initial ones and those of the trace that are still live.
\<close>

lemma times_run:
  assumes "sorted (map snd xs)" and "all_room hit room W xs s"
    and "sorted (times s k)" and "\<forall>t \<in> set (times s k). \<forall>u \<in> set (map snd xs). t \<le> u"
    and "\<forall>u \<in> set (map snd xs). u \<le> now"
  shows "sorted (times (run_hits hit W xs s) k) \<and>
    filter (\<lambda>t. now - W < t) (times (run_hits hit W xs s) k) =
    filter (\<lambda>t. now - W < t) (times s k @ map snd (filter (\<lambda>(k', _). k' = k) xs))"
  using assms
proof (induction xs arbitrary: s)
  case (Cons x xs)
  obtain k1 u where x: "x = (k1, u)" by (cases x)
  let ?s = "snd (hit k1 u W s)"
  have le: "u \<le> now" and later: "\<forall>v \<in> set (map snd xs). u \<le> v"
    using Cons.prems x by auto
  have new: "times ?s k = (if k1 = k then filter (\<lambda>t. u - W < t) (times s k) @ [u] else times s k)"
    using Cons.prems x times_hit times_other [of k1 s k] by auto
  have below: "\<forall>t \<in> set (times s k). t \<le> u"
    using Cons.prems x by auto
  have "sorted (times ?s k)"
    using Cons.prems(3) below by (auto simp: new sorted_append sorted_wrt_filter)
  moreover have "\<forall>t \<in> set (times ?s k). \<forall>v \<in> set (map snd xs). t \<le> v"
    using Cons.prems(4) later x by (auto simp: new)
  ultimately have IH: "sorted (times (run_hits hit W xs ?s) k) \<and>
    filter (\<lambda>t. now - W < t) (times (run_hits hit W xs ?s) k) =
    filter (\<lambda>t. now - W < t) (times ?s k @ map snd (filter (\<lambda>(k', _). k' = k) xs))"
    using Cons.prems x by (intro Cons.IH) auto
  have "filter (\<lambda>t. now - W < t) (filter (\<lambda>t. u - W < t) (times s k)) =
      filter (\<lambda>t. now - W < t) (times s k)"
    using le by (auto intro!: filter_cong)
  with IH x show ?case by (auto simp: new)
qed simp

text \<open>
  The answer of a hit after a trace that started from an empty store: the hits of the same
  key younger than the window, plus \<open>self\<close>.
\<close>

lemma count_run:
  assumes "sorted (map snd xs @ [now])" and "all_room hit room W xs s"
    and "times s k = []"
  shows "fst (hit k now W (run_hits hit W xs s)) = self + live_hits k (now - W) xs"
proof -
  have "sorted (times (run_hits hit W xs s) k) \<and>
    filter (\<lambda>t. now - W < t) (times (run_hits hit W xs s) k) =
    filter (\<lambda>t. now - W < t) (times s k @ map snd (filter (\<lambda>(k', _). k' = k) xs))"
    using assms by (intro times_run) (auto simp: sorted_append)
  moreover have "length (filter (\<lambda>t. now - W < t) (map snd (filter (\<lambda>(k', _). k' = k) xs)))
      = live_hits k (now - W) xs"
    by (induction xs) (auto simp: live_hits_def)
  ultimately show ?thesis
    by (simp add: count_hit assms(3))
qed

text \<open>
  With windows of their own: a hit of a key discards only what is older than its own window, so what
  it discards is dead for every later hit of that key with no longer a window.
\<close>

lemma times_windows:
  assumes "\<And>k s. room k s" and "sorted (map (fst \<circ> snd) xs)" and "\<forall>(k', t, V) \<in> set xs. k' = k \<longrightarrow> W \<le> V"
    and "sorted (times s k)" and "\<forall>t \<in> set (times s k). \<forall>(k', u, V) \<in> set xs. t \<le> u"
    and "\<forall>(k', u, V) \<in> set xs. u \<le> now"
  shows "sorted (times (run_windows hit xs s) k) \<and>
    filter (\<lambda>t. now - W < t) (times (run_windows hit xs s) k) =
    filter (\<lambda>t. now - W < t) (times s k @ map (fst \<circ> snd) (filter (\<lambda>(k', _). k' = k) xs))"
  using assms(2-)
proof (induction xs arbitrary: s)
  case (Cons x xs)
  obtain k1 u V where x: "x = (k1, u, V)" by (cases x)
  let ?s = "snd (hit k1 u V s)"
  have le: "u \<le> now" and later: "\<forall>(k', v, V) \<in> set xs. u \<le> v"
    using Cons.prems x by auto
  have new: "times ?s k = (if k1 = k then filter (\<lambda>t. u - V < t) (times s k) @ [u] else times s k)"
    using Cons.prems x times_hit times_other [OF assms(1)] by (metis (no_types, lifting))
  have below: "\<forall>t \<in> set (times s k). t \<le> u"
    using Cons.prems x by auto
  have "sorted (times ?s k)"
    using Cons.prems(3) below by (auto simp: new sorted_append sorted_wrt_filter)
  moreover have "\<forall>t \<in> set (times ?s k). \<forall>(k', v, V) \<in> set xs. t \<le> v"
    using Cons.prems(4) later x by (auto simp: new)
  ultimately have IH: "sorted (times (run_windows hit xs ?s) k) \<and>
    filter (\<lambda>t. now - W < t) (times (run_windows hit xs ?s) k) =
    filter (\<lambda>t. now - W < t) (times ?s k @ map (fst \<circ> snd) (filter (\<lambda>(k', _). k' = k) xs))"
    using Cons.prems x by (intro Cons.IH) auto
  have dead: "filter (\<lambda>t. now - W < t) (filter (\<lambda>t. u - V < t) (times s k)) =
      filter (\<lambda>t. now - W < t) (times s k)" if "k1 = k"
    using le that Cons.prems(2) x by (auto intro!: filter_cong)
  have "filter (\<lambda>t. now - W < t) (times ?s k) =
      filter (\<lambda>t. now - W < t) (times s k @ (if k1 = k then [u] else []))"
    unfolding new using dead by (auto simp del: filter_filter)
  then have "filter (\<lambda>t. now - W < t) (times ?s k @ map (fst \<circ> snd) (filter (\<lambda>(k', _). k' = k) xs)) =
      filter (\<lambda>t. now - W < t) (times s k @ map (fst \<circ> snd) (filter (\<lambda>(k', _). k' = k) (x # xs)))"
    by (simp add: x)
  with IH show ?case by (simp only: x run_windows.simps)
qed simp

lemma count_windows:
  assumes "\<And>k s. room k s" and "sorted (map (fst \<circ> snd) xs @ [now])"
    and "\<forall>(k', t, V) \<in> set xs. k' = k \<longrightarrow> W \<le> V" and "times s k = []"
  shows "fst (hit k now W (run_windows hit xs s)) =
    self + live_hits k (now - W) (map (\<lambda>(k, t, V). (k, t)) xs)"
proof -
  have "sorted (times (run_windows hit xs s) k) \<and>
    filter (\<lambda>t. now - W < t) (times (run_windows hit xs s) k) =
    filter (\<lambda>t. now - W < t) (times s k @ map (fst \<circ> snd) (filter (\<lambda>(k', _). k' = k) xs))"
    using assms by (intro times_windows) (auto simp: sorted_append)
  moreover have "length (filter (\<lambda>t. now - W < t) (map (fst \<circ> snd) (filter (\<lambda>(k', _). k' = k) xs)))
      = live_hits k (now - W) (map (\<lambda>(k, t, V). (k, t)) xs)"
    by (induction xs) (auto simp: live_hits_def)
  ultimately show ?thesis
    by (simp add: count_hit assms(4))
qed

end

interpretation plain: window_counter window_hit "\<lambda>m k. om_get_or [] m k" "\<lambda>_ _. True" 1
  by unfold_locales (auto simp: window_hit_def Let_def om_get_or_def prune_filter)

lemma all_room_plain [simp]: "all_room window_hit (\<lambda>_ _. True) W xs s"
  by (induction xs arbitrary: s) auto

end
