(* ===== verification/Behavior.thy ===== *)
theory Behavior
  imports Violation_Counts Routing Sliding_Window
begin

section \<open>Behavior rules (handlers/behavior.ts, core/behavioral/processor.ts)\<close>

text \<open>
  The tracker keeps timestamps per endpoint and client (\<open>w_usage\<close>) and per endpoint-pattern and
  client (\<open>w_returns\<close>), both bounded; the processor runs a route's usage rules before and its
  return rules after the handler, and the global return rules with their correlation to earlier
  detections. \<open>processResponse\<close> of the response factory closes the theory.
\<close>

definition MAX_TRACKED_ENDPOINTS :: nat where "MAX_TRACKED_ENDPOINTS = 10000"
definition MAX_TRACKED_CLIENTS_PER_ENDPOINT :: nat where "MAX_TRACKED_CLIENTS_PER_ENDPOINT = 10000"
definition DEFAULT_BEHAVIOR_BAN_DURATION_SECONDS :: int where
  "DEFAULT_BEHAVIOR_BAN_DURATION_SECONDS = 3600"

subsection \<open>Local rows\<close>

type_synonym row_store = "(string, (string, rat list) omap) omap"

text \<open>
  \<open>localRow\<close> hands out the array of a bucket and client, creating the two levels with room for
  them; the callers then change the array in place. Reading and the write-back are
  \<open>row_times\<close> and \<open>row_write\<close>; a fresh level drops its oldest entry when it is full.
\<close>

definition row_times :: "row_store \<Rightarrow> string \<times> string \<Rightarrow> rat list" where
  "row_times store bk = om_get_or [] (om_get_or [] store (fst bk)) (snd bk)"

definition room_for :: "nat \<Rightarrow> 'k \<Rightarrow> ('k, 'v) omap \<Rightarrow> ('k, 'v) omap" where
  "room_for cap k m =
     (case map_of m k of
        Some _ \<Rightarrow> m
      | None \<Rightarrow> if length m \<ge> cap then om_drop_oldest m else m)"

definition row_write :: "string \<times> string \<Rightarrow> rat list \<Rightarrow> row_store \<Rightarrow> row_store" where
  "row_write bk ts store =
     (let rows = om_get_or [] store (fst bk);
          rows' = AList.update (snd bk) ts (room_for MAX_TRACKED_CLIENTS_PER_ENDPOINT (snd bk) rows)
      in AList.update (fst bk) rows' (room_for MAX_TRACKED_ENDPOINTS (fst bk) store))"

text \<open>Prune, push, and the resulting length.\<close>

definition row_hit :: "string \<times> string \<Rightarrow> rat \<Rightarrow> rat \<Rightarrow> row_store \<Rightarrow> nat \<times> row_store" where
  "row_hit bk now window store =
     (let ts = prune_expired (now - window) (row_times store bk) @ [now]
      in (length ts, row_write bk ts store))"

subsection \<open>Tracking\<close>

definition set_usage :: "row_store \<Rightarrow> 'r world \<Rightarrow> 'r world" where
  "set_usage m w = w\<lparr>w_usage := m\<rparr>"

definition set_returns :: "row_store \<Rightarrow> 'r world \<Rightarrow> 'r world" where
  "set_returns m w = w\<lparr>w_returns := m\<rparr>"

definition trackEndpointUsage :: "string \<Rightarrow> string \<Rightarrow> behavior_rule \<Rightarrow> ('r, bool) eff" where
  "trackEndpointUsage endpointId ip rule =
     bnd (gets (\<lambda>w. row_hit (endpointId, ip) (w_now w) (of_int (br_window rule)) (w_usage w)))
       (\<lambda>(n, m). thn (modify (set_usage m)) (ret (int n > br_threshold rule)))"

text \<open>\<open>parseInt(s, 10)\<close>: leading white space, a sign, the longest digit prefix; \<open>None\<close> is NaN.\<close>

definition parse_digits :: "string \<Rightarrow> int option" where
  "parse_digits s =
     (let ds = takeWhile is_digit s
      in if ds = [] then None else Some (foldl (\<lambda>n c. 10 * n + (of_nat (of_char c) - 48)) 0 ds))"

definition parseInt10 :: "string \<Rightarrow> int option" where
  "parseInt10 s =
     (case dropWhile is_ws s of
        [] \<Rightarrow> None
      | c # t \<Rightarrow>
          if c = CHR ''-'' then map_option uminus (parse_digits t)
          else if c = CHR ''+'' then parse_digits t
          else parse_digits (c # t))"

text \<open>\<open>pattern.indexOf('==')\<close> and the two slices around it.\<close>

fun cut_eq :: "string \<Rightarrow> (string \<times> string) option" where
  "cut_eq (c # d # s) =
     (if c = CHR ''='' \<and> d = CHR ''='' then Some ([], s)
      else map_option (\<lambda>(a, b). (c # a, b)) (cut_eq (d # s)))"
| "cut_eq _ = None"

definition is_quote :: "char \<Rightarrow> bool" where
  "is_quote c \<longleftrightarrow> c = CHR 0x22 \<or> c = CHR 0x27"

text \<open>\<open>replace(/^["']|["']$/g, '')\<close>.\<close>

definition strip_quotes :: "string \<Rightarrow> string" where
  "strip_quotes s =
     (let t = (case s of [] \<Rightarrow> [] | c # r \<Rightarrow> if is_quote c then r else s)
      in if t \<noteq> [] \<and> is_quote (last t) then butlast t else t)"

text \<open>
  \<open>current[part]\<close> on an object or an array (its indices and its length); properties inherited
  from the prototypes are not modelled.
\<close>

fun json_prop :: "json \<Rightarrow> string \<Rightarrow> json option" where
  "json_prop (JObj kvs) k = map_of kvs k"
| "json_prop (JArr xs) k =
     (if k = ''length'' then Some (JScalar (show_nat (length xs)))
      else (case find (\<lambda>i. show_nat i = k) [0..<length xs] of None \<Rightarrow> None | Some i \<Rightarrow> Some (xs ! i)))"
| "json_prop _ k = None"

definition jsonScalar :: "'r env \<Rightarrow> json \<Rightarrow> string" where
  "jsonScalar E v =
     (case v of
        JStr s \<Rightarrow> to_lower s
      | JNull \<Rightarrow> ''none''
      | JScalar s \<Rightarrow> to_lower s
      | _ \<Rightarrow> to_lower (e_json_str E v))"

fun match_json_path :: "'r env \<Rightarrow> string \<Rightarrow> json \<Rightarrow> string list \<Rightarrow> bool" where
  "match_json_path E expected current [] = (jsonScalar E current = expected)"
| "match_json_path E expected current (part # parts) =
     (if ends_with ''[]'' part then
        (if \<not> is_json_object current then False
         else (case json_prop current (take (length part - 2) part) of
                 Some (JArr xs) \<Rightarrow> list_ex (\<lambda>x. jsonScalar E x = expected) xs
               | _ \<Rightarrow> False))
      else if \<not> is_json_object current then False
      else (case json_prop current part of
              None \<Rightarrow> False
            | Some v \<Rightarrow> match_json_path E expected v parts))"

definition matchJsonPattern :: "'r env \<Rightarrow> json \<Rightarrow> string \<Rightarrow> bool" where
  "matchJsonPattern E data pattern =
     (case cut_eq pattern of
        None \<Rightarrow> False
      | Some (a, b) \<Rightarrow>
          match_json_path E (to_lower (strip_quotes (str_trim b))) data
            (split_on (CHR ''.'') (str_trim a)))"

text \<open>\<open>None\<close> is the null verdict: with body scanning off only status patterns are evaluated.\<close>

definition checkResponsePattern ::
  "'r env \<Rightarrow> config \<Rightarrow> response \<Rightarrow> string \<Rightarrow> ('r, bool option) eff"
where
  "checkResponsePattern E C rs pattern =
     (if starts_with ''status:'' pattern then
        ret (Some (case parseInt10 (drop 7 pattern) of None \<Rightarrow> False | Some code \<Rightarrow> rs_status rs = code))
      else if \<not> c_scan_resp_body C then ret None
      else
        (let body = (case rs_body rs of None \<Rightarrow> [] | Some b \<Rightarrow> take (c_max_resp_body C) b)
         in if body = [] then ret (Some False)
            else if starts_with ''json:'' pattern then
              ret (Some (case e_json_parse E body of
                           None \<Rightarrow> False
                         | Some data \<Rightarrow> matchJsonPattern E data (drop 5 pattern)))
            else if starts_with ''regex:'' pattern then
              (case e_regex E (drop 6 pattern) body of
                 Some b \<Rightarrow> ret (Some b)
               | None \<Rightarrow>
                   thn (log_line LogError (''Error checking response pattern: SyntaxError: ''
                          @ ''Invalid regular expression: '' @ drop 6 pattern))
                     (ret (Some False)))
            else ret (Some (str_includes (to_lower pattern) (to_lower body)))))"

definition trackReturnPattern ::
  "'r env \<Rightarrow> config \<Rightarrow> string \<Rightarrow> string \<Rightarrow> response \<Rightarrow> behavior_rule \<Rightarrow> int \<Rightarrow> ('r, bool option) eff"
where
  "trackReturnPattern E C endpointId ip rs rule effectiveThreshold =
     (case br_pattern rule of
        None \<Rightarrow> ret (Some False)
      | Some pattern \<Rightarrow>
          if pattern = [] then ret (Some False)
          else bnd (checkResponsePattern E C rs pattern) (\<lambda>matched.
            case matched of
              None \<Rightarrow> ret None
            | Some False \<Rightarrow> ret (Some False)
            | Some True \<Rightarrow>
                bnd (gets (\<lambda>w. row_hit (endpointId @ '':'' @ pattern, ip) (w_now w)
                       (of_int (br_window rule)) (w_returns w)))
                  (\<lambda>(n, m). thn (modify (set_returns m)) (ret (Some (int n > effectiveThreshold))))))"

subsection \<open>Actions\<close>

definition logAtSuspiciousLevel :: "config \<Rightarrow> string \<Rightarrow> ('r, unit) eff" where
  "logAtSuspiciousLevel C s =
     log_line (level_method (case c_log_suspicious C of None \<Rightarrow> WARNING | Some l \<Rightarrow> l)) s"

definition logPassiveModeAction :: "config \<Rightarrow> behavior_rule \<Rightarrow> string \<Rightarrow> string \<Rightarrow> ('r, unit) eff" where
  "logPassiveModeAction C rule ip details =
     (if br_action rule = ActAlert
      then log_line LogError (''[PASSIVE MODE] ALERT - Behavioral anomaly: '' @ details)
      else (case c_log_suspicious C of
              None \<Rightarrow> ret ()
            | Some level \<Rightarrow>
                log_line (level_method level)
                  (case br_action rule of
                     ActBan \<Rightarrow> ''[PASSIVE MODE] Would ban IP '' @ ip @ '' for behavioral violation: '' @ details
                   | ActThrottle \<Rightarrow> ''[PASSIVE MODE] Would throttle IP '' @ ip @ '': '' @ details
                   | _ \<Rightarrow> ''[PASSIVE MODE] Behavioral anomaly detected: '' @ details)))"

text \<open>A custom action is recorded in \<open>w_calls\<close>; whatever it throws is swallowed.\<close>

definition executeActiveModeAction ::
  "'r env \<Rightarrow> config \<Rightarrow> behavior_rule \<Rightarrow> string \<Rightarrow> string \<Rightarrow> string \<Rightarrow> ('r, string) eff"
where
  "executeActiveModeAction E C rule ip endpointId details =
     (if br_custom rule \<noteq> None then
        thn (modify (\<lambda>w. w\<lparr>w_calls := w_calls w @ [(action_str (br_action rule), ip, endpointId, details)]\<rparr>))
          (ret (action_str (br_action rule)))
      else
        (case br_action rule of
           ActBan \<Rightarrow>
             bnd (if e_ban_manager E
                  then banIp E ip (case br_ban_duration rule of
                                     None \<Rightarrow> DEFAULT_BEHAVIOR_BAN_DURATION_SECONDS | Some d \<Rightarrow> d)
                         ''behavioral_violation''
                  else ret False)
               (\<lambda>applied.
                  if \<not> applied then ret ''tracked''
                  else thn (logAtSuspiciousLevel C
                         (''IP '' @ ip @ '' banned for behavioral violation: '' @ details))
                         (ret ''ban''))
         | ActAlert \<Rightarrow>
             thn (log_line LogError (''ALERT - Behavioral anomaly: '' @ details)) (ret ''alert'')
         | ActLog \<Rightarrow>
             thn (logAtSuspiciousLevel C (''Behavioral anomaly detected: '' @ details)) (ret ''log'')
         | ActThrottle \<Rightarrow>
             thn (logAtSuspiciousLevel C (''Throttling IP '' @ ip @ '': '' @ details)) (ret ''throttle'')))"

definition applyAction ::
  "'r env \<Rightarrow> config \<Rightarrow> behavior_rule \<Rightarrow> string \<Rightarrow> string \<Rightarrow> string \<Rightarrow> ('r, unit) eff"
where
  "applyAction E C rule ip endpointId details =
     bnd (if c_passive C then thn (logPassiveModeAction C rule ip details) (ret ''logged_only'')
          else executeActiveModeAction E C rule ip endpointId details)
       (\<lambda>actionTaken.
          send_direct_event E ''behavioral_violation'' ip actionTaken
            (''Behavioral rule violated: '' @ details) None None (Some (rule_type_str (br_type rule)))
            ''behavior'' None
            [(''endpoint'', MStr endpointId), (''ruleType'', MStr (rule_type_str (br_type rule))),
             (''threshold'', MNum (br_threshold rule)), (''window'', MNum (br_window rule))]
            (\<lambda>_. ret ()))"

definition tracker_reset :: "('r, unit) eff" where
  "tracker_reset = modify (\<lambda>w. set_returns [] (set_usage [] w))"

definition getRecentEventCount :: "row_store \<Rightarrow> rat \<Rightarrow> string \<Rightarrow> rat \<Rightarrow> nat" where
  "getRecentEventCount usage now ip windowSeconds =
     (if ip = [] then 0
      else sum_list (map (\<lambda>(_, clients).
             length (filter (\<lambda>ts. ts \<ge> now - windowSeconds) (om_get_or [] clients ip))) usage))"

subsection \<open>The processor (core/behavioral/processor.ts)\<close>

definition configToRule :: "behavior_rule \<Rightarrow> behavior_rule" where
  "configToRule cfg = cfg\<lparr>br_custom := None\<rparr>"

definition getEndpointId :: "request \<Rightarrow> req_state \<Rightarrow> string" where
  "getEndpointId rq rs =
     (case st_endpoint_id rs of Some e \<Rightarrow> e | None \<Rightarrow> rq_method rq @ '':'' @ rq_path rq)"

text \<open>One usage rule; \<open>tracker\<close> says whether a tracker is wired.\<close>

definition run_usage_rule ::
  "'r env \<Rightarrow> config \<Rightarrow> request \<Rightarrow> string \<Rightarrow> string \<Rightarrow> behavior_rule \<Rightarrow> ('r, unit) eff"
where
  "run_usage_rule E C rq ip endpointId rule =
     (if br_type rule \<noteq> Usage \<and> br_type rule \<noteq> Frequency then ret ()
      else bnd (trackEndpointUsage endpointId ip rule) (\<lambda>exceeded.
        if \<not> exceeded then ret ()
        else
          (let details = show_int (br_threshold rule) @ '' calls in '' @ show_int (br_window rule) @ ''s''
           in thn (sendMiddlewareEvent E C ''decorator_violation'' rq ''behavioral_action_triggered''
                     (''Behavioral '' @ rule_type_str (br_type rule) @ '' threshold exceeded: '' @ details)
                     [(''decoratorType'', MStr ''behavioral''),
                      (''violationType'', MStr (rule_type_str (br_type rule))),
                      (''threshold'', MNum (br_threshold rule)), (''window'', MNum (br_window rule)),
                      (''action'', MStr (action_str (br_action rule))), (''endpointId'', MStr endpointId)])
                (applyAction E C rule ip endpointId (''Usage threshold exceeded: '' @ details)))))"

definition processUsageRules ::
  "'r env \<Rightarrow> config \<Rightarrow> bool \<Rightarrow> request \<Rightarrow> string \<Rightarrow> route_config \<Rightarrow> ('r, unit) eff"
where
  "processUsageRules E C tracker rq ip rc =
     (if \<not> tracker then ret ()
      else bnd (gets (\<lambda>w. getEndpointId rq (w_req w))) (\<lambda>endpointId.
        for_each (run_usage_rule E C rq ip endpointId) (rc_behavior_rules rc)))"

definition run_return_rule ::
  "'r env \<Rightarrow> config \<Rightarrow> request \<Rightarrow> response \<Rightarrow> string \<Rightarrow> string \<Rightarrow> behavior_rule \<Rightarrow> ('r, unit) eff"
where
  "run_return_rule E C rq rs ip endpointId rule =
     (if br_type rule \<noteq> ReturnPattern then ret ()
      else bnd (trackReturnPattern E C endpointId ip rs rule (br_threshold rule)) (\<lambda>detected.
        if detected \<noteq> Some True then ret ()
        else
          (let pat = (case br_pattern rule of None \<Rightarrow> ''null'' | Some p \<Rightarrow> p);
               details = show_int (br_threshold rule) @ '' for '' @ quoted pat @ '' in ''
                 @ show_int (br_window rule) @ ''s''
           in thn (sendMiddlewareEvent E C ''decorator_violation'' rq ''behavioral_action_triggered''
                     (''Return pattern threshold exceeded: '' @ details)
                     [(''decoratorType'', MStr ''behavioral''), (''violationType'', MStr ''return_pattern''),
                      (''threshold'', MNum (br_threshold rule)), (''window'', MNum (br_window rule)),
                      (''pattern'', MStr pat), (''action'', MStr (action_str (br_action rule))),
                      (''endpointId'', MStr endpointId)])
                (applyAction E C rule ip endpointId (''Return pattern threshold exceeded: '' @ details)))))"

definition processReturnRules ::
  "'r env \<Rightarrow> config \<Rightarrow> bool \<Rightarrow> request \<Rightarrow> response \<Rightarrow> string \<Rightarrow> route_config \<Rightarrow> ('r, unit) eff"
where
  "processReturnRules E C tracker rq rs ip rc =
     (if \<not> tracker then ret ()
      else bnd (gets (\<lambda>w. getEndpointId rq (w_req w))) (\<lambda>endpointId.
        for_each (run_return_rule E C rq rs ip endpointId) (rc_behavior_rules rc)))"

fun insort_str :: "string \<Rightarrow> string list \<Rightarrow> string list" where
  "insort_str x [] = [x]"
| "insort_str x (y # ys) = (if str_less y x then y # insort_str x ys else x # y # ys)"

definition collectCorrelatedCategories :: "(string, (string, int) omap) omap \<Rightarrow> string \<Rightarrow> string list" where
  "collectCorrelatedCategories counts ip =
     (case map_of counts ip of
        None \<Rightarrow> []
      | Some perIp \<Rightarrow> foldr insort_str (map fst (filter (\<lambda>(_, n). n > 0) perIp)) [])"

definition effective_threshold :: "behavior_rule \<Rightarrow> string list \<Rightarrow> int" where
  "effective_threshold rule cats =
     (if br_correlate rule \<and> cats \<noteq> [] then max 1 (br_threshold rule div 2) else br_threshold rule)"

definition run_global_rule ::
  "'r env \<Rightarrow> config \<Rightarrow> request \<Rightarrow> response \<Rightarrow> string \<Rightarrow> string \<Rightarrow> string list \<Rightarrow> behavior_rule
     \<Rightarrow> ('r, unit) eff"
where
  "run_global_rule E C rq rs ip endpointId cats rule =
     (if br_type rule \<noteq> ReturnPattern then ret ()
      else
        (let active = br_correlate rule \<and> cats \<noteq> []; thr = effective_threshold rule cats
         in bnd (trackReturnPattern E C endpointId ip rs rule thr) (\<lambda>detected.
          if detected \<noteq> Some True then ret ()
          else
            (let pat = (case br_pattern rule of None \<Rightarrow> ''null'' | Some p \<Rightarrow> p);
                 details = show_int thr @ '' for '' @ quoted pat @ '' in '' @ show_int (br_window rule) @ ''s''
                   @ (if active then '' (correlated)'' else [])
             in thn (sendMiddlewareEvent E C ''decorator_violation'' rq ''behavioral_action_triggered''
                       (''Global return pattern threshold exceeded: '' @ details)
                       [(''decoratorType'', MStr ''behavioral_global''),
                        (''violationType'', MStr ''return_pattern''), (''threshold'', MNum thr),
                        (''window'', MNum (br_window rule)), (''pattern'', MStr pat),
                        (''action'', MStr (action_str (br_action rule))), (''endpointId'', MStr endpointId),
                        (''correlation'', MBool active),
                        (''correlatedCategories'', MList (if active then cats else []))])
                  (applyAction E C rule ip endpointId
                    (''Global return pattern threshold exceeded: '' @ details))))))"

definition processGlobalReturnRules ::
  "'r env \<Rightarrow> config \<Rightarrow> bool \<Rightarrow> request \<Rightarrow> response \<Rightarrow> string \<Rightarrow> behavior_rule list \<Rightarrow> ('r, unit) eff"
where
  "processGlobalReturnRules E C tracker rq rs ip rules =
     (if \<not> tracker then ret ()
      else
        bnd (gets (\<lambda>w. getEndpointId rq (w_req w))) (\<lambda>endpointId.
        bnd (gets (\<lambda>w. collectCorrelatedCategories (w_sus w) ip)) (\<lambda>cats.
          for_each (run_global_rule E C rq rs ip endpointId cats) rules)))"

subsection \<open>processResponse (core/responses/factory.ts)\<close>

text \<open>\<open>processor\<close> says whether the engine's behavioral processor is wired; \<open>callback\<close> is the
  adapter's own rule runner, if it passes one.\<close>

definition processResponse ::
  "'r env \<Rightarrow> config \<Rightarrow> bool \<Rightarrow> bool \<Rightarrow> request \<Rightarrow> response \<Rightarrow> rat \<Rightarrow> route_config option
     \<Rightarrow> (request \<Rightarrow> response \<Rightarrow> string \<Rightarrow> route_config \<Rightarrow> ('r, unit) eff) option \<Rightarrow> ('r, response) eff"
where
  "processResponse E C processor tracker rq rs time route callback =
     (let ip = host_or_unknown rq
      in thn (case route of
                None \<Rightarrow> ret ()
              | Some rc \<Rightarrow>
                  if rc_behavior_rules rc = [] then ret ()
                  else (case callback of
                          Some f \<Rightarrow> f rq rs ip rc
                        | None \<Rightarrow> when_eff processor (processReturnRules E C tracker rq rs ip rc)))
        (thn (when_eff (c_global_rules C \<noteq> [] \<and> processor)
                (processGlobalReturnRules E C tracker rq rs ip (map configToRule (c_global_rules C))))
        (thn (collectRequestMetrics E C rq time (rs_status rs))
          (let secured = applySecurityHeaders E C rs (Some (rq_path rq));
               origin = header_or [] rq ''origin'';
               final = (if origin \<noteq> [] then applyCorsHeaders E secured origin else secured)
           in lift_res (applyModifier C final)))))"

subsection \<open>The rows: bounds and windows\<close>

definition room_put :: "nat \<Rightarrow> 'k \<Rightarrow> 'v \<Rightarrow> ('k, 'v) omap \<Rightarrow> ('k, 'v) omap" where
  "room_put cap k v m = AList.update k v (room_for cap k m)"

definition level_ok :: "nat \<Rightarrow> ('k, 'v) omap \<Rightarrow> bool" where
  "level_ok cap m \<longleftrightarrow> om_ok m \<and> length m \<le> cap"

lemma room_put_ok: "0 < cap \<Longrightarrow> level_ok cap m \<Longrightarrow> level_ok cap (room_put cap k v m)"
  by (auto simp: level_ok_def room_put_def room_for_def om_size_update om_get_tl split: option.splits)

lemma room_put_get [simp]: "map_of (room_put cap k v m) k = Some v"
  by (simp add: room_put_def)

lemma level_size: "level_ok cap m \<Longrightarrow> length m \<le> cap"
  by (simp add: level_ok_def)

lemma room_put_other:
  "level_ok cap m \<Longrightarrow> k' \<noteq> k \<Longrightarrow>
   map_of (room_put cap k v m) k' = map_of m k' \<or> map_of (room_put cap k v m) k' = None"
  by (auto simp: level_ok_def room_put_def room_for_def om_get_tl split: option.splits)

lemma room_put_room:
  "k' \<noteq> k \<Longrightarrow> map_of m k \<noteq> None \<or> length m < cap \<Longrightarrow> map_of (room_put cap k v m) k' = map_of m k'"
  by (auto simp: room_put_def room_for_def split: option.splits)

lemma tracked_pos [simp]: "0 < MAX_TRACKED_ENDPOINTS" "0 < MAX_TRACKED_CLIENTS_PER_ENDPOINT"
  by (simp_all add: MAX_TRACKED_ENDPOINTS_def MAX_TRACKED_CLIENTS_PER_ENDPOINT_def)

interpretation endpoint_rows: bounded_store "room_put MAX_TRACKED_ENDPOINTS" map_of length
  "level_ok MAX_TRACKED_ENDPOINTS" "\<lambda>_. True" MAX_TRACKED_ENDPOINTS
  by unfold_locales (auto simp: room_put_ok level_size room_put_other room_put_room)

interpretation client_rows: bounded_store "room_put MAX_TRACKED_CLIENTS_PER_ENDPOINT" map_of length
  "level_ok MAX_TRACKED_CLIENTS_PER_ENDPOINT" "\<lambda>_. True" MAX_TRACKED_CLIENTS_PER_ENDPOINT
  by unfold_locales (auto simp: room_put_ok level_size room_put_other room_put_room)

lemma row_write_put:
  "row_write bk ts s = room_put MAX_TRACKED_ENDPOINTS (fst bk)
     (room_put MAX_TRACKED_CLIENTS_PER_ENDPOINT (snd bk) ts (om_get_or [] s (fst bk))) s"
  by (simp add: row_write_def room_put_def Let_def)

definition rows_ok :: "row_store \<Rightarrow> bool" where
  "rows_ok s \<longleftrightarrow> level_ok MAX_TRACKED_ENDPOINTS s \<and>
     (\<forall>b. level_ok MAX_TRACKED_CLIENTS_PER_ENDPOINT (om_get_or [] s b))"

lemma rows_ok_write:
  assumes "rows_ok s" shows "rows_ok (row_write bk ts s)"
proof -
  have inner: "level_ok MAX_TRACKED_CLIENTS_PER_ENDPOINT
      (room_put MAX_TRACKED_CLIENTS_PER_ENDPOINT (snd bk) ts (om_get_or [] s (fst bk)))"
    using assms by (intro client_rows.ok_put) (auto simp: rows_ok_def)
  have outer: "level_ok MAX_TRACKED_ENDPOINTS s"
    using assms by (simp add: rows_ok_def)
  have "level_ok MAX_TRACKED_CLIENTS_PER_ENDPOINT (om_get_or [] (row_write bk ts s) b)" for b
  proof (cases "b = fst bk")
    case True
    with inner show ?thesis by (simp add: row_write_put om_get_or_def)
  next
    case False
    have "level_ok MAX_TRACKED_CLIENTS_PER_ENDPOINT (om_get_or [] s b)"
      using assms by (simp add: rows_ok_def)
    moreover have "level_ok MAX_TRACKED_CLIENTS_PER_ENDPOINT []" by (simp add: level_ok_def)
    ultimately show ?thesis
      using endpoint_rows.look_other [OF outer TrueI False] unfolding row_write_put om_get_or_def
      by (metis option.simps(4))
  qed
  then show ?thesis
    using endpoint_rows.ok_put [OF outer TrueI] by (simp add: rows_ok_def row_write_put)
qed

definition row_room :: "string \<times> string \<Rightarrow> row_store \<Rightarrow> bool" where
  "row_room bk s \<longleftrightarrow>
     (map_of s (fst bk) \<noteq> None \<or> length s < MAX_TRACKED_ENDPOINTS) \<and>
     (map_of (om_get_or [] s (fst bk)) (snd bk) \<noteq> None \<or>
      length (om_get_or [] s (fst bk)) < MAX_TRACKED_CLIENTS_PER_ENDPOINT)"

lemma row_times_write [simp]: "row_times (row_write bk ts s) bk = ts"
  by (simp add: row_times_def row_write_put om_get_or_def)

lemma row_times_other:
  assumes "row_room bk s" and "bk' \<noteq> bk"
  shows "row_times (row_write bk ts s) bk' = row_times s bk'"
proof (cases "fst bk' = fst bk")
  case True
  then have "snd bk' \<noteq> snd bk" using assms(2) by (simp add: prod_eq_iff)
  then have "map_of (room_put MAX_TRACKED_CLIENTS_PER_ENDPOINT (snd bk) ts (om_get_or [] s (fst bk))) (snd bk') =
      map_of (om_get_or [] s (fst bk)) (snd bk')"
    using assms(1) by (intro room_put_room) (auto simp: row_room_def)
  with True show ?thesis
    by (simp add: row_times_def row_write_put om_get_or_def)
next
  case False
  then have "map_of (row_write bk ts s) (fst bk') = map_of s (fst bk')"
    unfolding row_write_put using assms(1) by (intro room_put_room) (auto simp: row_room_def)
  then show ?thesis by (simp add: row_times_def om_get_or_def)
qed

interpretation rows: window_counter row_hit row_times row_room 1
  by unfold_locales (auto simp: row_hit_def Let_def row_times_other prune_filter)

subsection \<open>What tracking and actions keep\<close>

lemma usage_run:
  "trackEndpointUsage ep ip rule w =
     (Inr (int (fst (row_hit (ep, ip) (w_now w) (of_int (br_window rule)) (w_usage w))) > br_threshold rule),
      set_usage (snd (row_hit (ep, ip) (w_now w) (of_int (br_window rule)) (w_usage w))) w)"
  by (simp add: trackEndpointUsage_def bnd_run thn_run ret_run case_prod_beta)

lemma keeps_usage:
  "(\<And>w m. P w \<Longrightarrow> P (set_usage m w)) \<Longrightarrow> keeps P (trackEndpointUsage ep ip rule)"
  unfolding trackEndpointUsage_def by (intro keeps_intros keeps_modify) auto

lemma keeps_response_pattern [keeps_intros]: "offline P \<Longrightarrow> keeps P (checkResponsePattern E C rs p)"
  unfolding checkResponsePattern_def Let_def by (intro keeps_intros)

lemma keeps_bool [keeps_intros]:
  "keeps P m \<Longrightarrow> keeps P n \<Longrightarrow> keeps P (case b of True \<Rightarrow> m | False \<Rightarrow> n)"
  by (cases b) simp_all

lemma keeps_return_pattern:
  "offline P \<Longrightarrow> (\<And>w m. P w \<Longrightarrow> P (set_returns m w)) \<Longrightarrow>
   keeps P (trackReturnPattern E C ep ip rs rule t)"
  unfolding trackReturnPattern_def by (intro keeps_intros keeps_modify) auto

lemma keeps_passive_action:
  "c_passive C \<Longrightarrow> offline P \<Longrightarrow> keeps P (applyAction E C rule ip ep d)"
  unfolding applyAction_def logPassiveModeAction_def by (intro keeps_intros) simp_all

subsection \<open>Properties\<close>

text \<open>
  A usage rule fires on a request exactly when this request and the earlier ones of the same
  endpoint and client within the rule's window outnumber its threshold, after any hits in clock
  order that the bounded rows had room for.
\<close>

theorem usage_threshold_exact:
  assumes "sorted (map snd xs @ [w_now w])"
    and "w_usage w = run_hits row_hit (of_int (br_window rule)) xs []"
    and "all_room row_hit row_room (of_int (br_window rule)) xs []"
  shows "fst (trackEndpointUsage ep ip rule w) =
    Inr (1 + int (live_hits (ep, ip) (w_now w - of_int (br_window rule)) xs) > br_threshold rule)"
proof -
  have "fst (row_hit (ep, ip) (w_now w) (of_int (br_window rule)) (w_usage w)) =
      1 + live_hits (ep, ip) (w_now w - of_int (br_window rule)) xs"
    unfolding assms(2) using assms(1,3) by (intro rows.count_run) (auto simp: row_times_def om_get_or_def)
  then show ?thesis by (simp add: usage_run)
qed

definition ex_rule :: behavior_rule where
  "ex_rule = \<lparr>br_type = Usage, br_threshold = 1, br_window = 60, br_pattern = None,
     br_action = ActBan, br_custom = None, br_ban_duration = None, br_correlate = False\<rparr>"

theorem usage_threshold_exact_witness:
  "fst (trackEndpointUsage ''GET:/a'' ''10.0.0.7'' ex_rule
      (ex_world\<lparr>w_usage := run_hits row_hit 60 [((''GET:/a'', ''10.0.0.7''), 990)] []\<rparr>)) = Inr True"
proof -
  let ?xs = "[((''GET:/a'', ''10.0.0.7''), 990)] :: ((string \<times> string) \<times> rat) list"
  have "all_room row_hit row_room 60 ?xs []"
    by (simp add: row_room_def om_get_or_def)
  moreover have "w_now ex_world = 1000" "br_window ex_rule = 60" "br_threshold ex_rule = 1"
    by (simp_all add: ex_world_def ex_rule_def)
  moreover have "live_hits (''GET:/a'', ''10.0.0.7'') (1000 - 60) ?xs = 1"
    by (simp add: live_hits_def)
  ultimately show ?thesis
    using usage_threshold_exact [of ?xs "ex_world\<lparr>w_usage := run_hits row_hit 60 ?xs []\<rparr>" ex_rule
        "''GET:/a''" "''10.0.0.7''"] by simp
qed

text \<open>
  Every usage rule of a route records its own hit in the same row, so two rules count
  one request twice: right after the first rule the second sees the earlier hits of the first
  rule's window plus two.
\<close>

theorem usage_rules_double_count:
  assumes "sorted (row_times (w_usage w) (ep, ip))"
    and "\<forall>t \<in> set (row_times (w_usage w) (ep, ip)). t \<le> w_now w"
    and "0 < br_window r1" and "br_window r1 \<le> br_window r2"
  shows "fst (bnd (trackEndpointUsage ep ip r1) (\<lambda>_. trackEndpointUsage ep ip r2) w) =
    Inr (2 + int (length (filter (\<lambda>t. w_now w - of_int (br_window r1) < t)
      (row_times (w_usage w) (ep, ip)))) > br_threshold r2)"
proof -
  let ?ts = "row_times (w_usage w) (ep, ip)" and ?now = "w_now w"
  let ?live = "filter (\<lambda>t. ?now - of_int (br_window r1) < t) ?ts"
  let ?m = "snd (row_hit (ep, ip) ?now (of_int (br_window r1)) (w_usage w))"
  have ts: "row_times ?m (ep, ip) = ?live @ [?now]"
    by (rule rows.times_hit [OF assms(1)])
  have "sorted (row_times ?m (ep, ip))"
    by (rule rows.sorted_hit [OF assms(1,2)])
  then have "fst (row_hit (ep, ip) ?now (of_int (br_window r2)) ?m) =
      1 + length (filter (\<lambda>t. ?now - of_int (br_window r2) < t) (?live @ [?now]))"
    using rows.count_hit [of ?m "(ep, ip)" ?now "of_int (br_window r2)"] unfolding ts by blast
  moreover have "filter (\<lambda>t. ?now - of_int (br_window r2) < t) (?live @ [?now]) = ?live @ [?now]"
  proof -
    have "(of_int (br_window r1) :: rat) \<le> of_int (br_window r2)" and "(0 :: rat) < of_int (br_window r1)"
      using assms(3,4) by simp_all
    then show ?thesis by (intro filter_True) auto
  qed
  ultimately have "fst (row_hit (ep, ip) ?now (of_int (br_window r2)) ?m) = 1 + length (?live @ [?now])"
    by (simp only:)
  then show ?thesis
    by (simp add: bnd_run usage_run set_usage_def)
qed

theorem usage_rules_double_count_witness:
  "fst (bnd (trackEndpointUsage ''GET:/a'' ''10.0.0.7'' ex_rule)
     (\<lambda>_. trackEndpointUsage ''GET:/a'' ''10.0.0.7'' ex_rule) ex_world) = Inr True"
  using usage_rules_double_count [of ex_world "''GET:/a''" "''10.0.0.7''" ex_rule ex_rule]
  by (simp add: row_times_def om_get_or_def ex_world_def ex_rule_def)

text \<open>
  The two-level rows stay within their caps whatever is recorded: at most 10000 endpoints and
  at most 10000 clients in each, and a fresh tracker is within them.
\<close>

theorem behavior_rows_bounded:
  "rows_ok s \<Longrightarrow> rows_ok (snd (row_hit bk now window s)) \<and>
     length (snd (row_hit bk now window s)) \<le> MAX_TRACKED_ENDPOINTS \<and>
     length (om_get_or [] (snd (row_hit bk now window s)) b) \<le> MAX_TRACKED_CLIENTS_PER_ENDPOINT"
  using rows_ok_write [of s bk] by (simp add: row_hit_def Let_def rows_ok_def level_ok_def)

theorem behavior_rows_bounded_witness:
  "length (snd (row_hit (''GET:/a'', ''10.0.0.7'') 1000 60 [])) \<le> MAX_TRACKED_ENDPOINTS"
  using behavior_rows_bounded [of "[]" "(''GET:/a'', ''10.0.0.7'')" 1000 60 "[]"]
  by (simp add: rows_ok_def level_ok_def om_get_or_def)

lemma offline_bans_are: "offline (\<lambda>w. w_bans w = m)"
  by (auto simp: offline_def unaffected_def same_managers_def)

lemma passive_rules_keep_bans:
  assumes "c_passive C"
  shows "keeps (\<lambda>w. w_bans w = m) (run_usage_rule E C rq ip ep rule)"
    and "keeps (\<lambda>w. w_bans w = m) (run_return_rule E C rq rs ip ep rule)"
    and "keeps (\<lambda>w. w_bans w = m) (run_global_rule E C rq rs ip ep cats rule)"
  unfolding run_usage_rule_def run_return_rule_def run_global_rule_def Let_def
  by (intro keeps_intros keeps_usage keeps_return_pattern keeps_passive_action [OF assms] offline_bans_are;
      simp add: set_usage_def set_returns_def)+

text \<open>
  C38: in passive mode no behavior rule, usage, return or global, ever changes the ban
  map.
\<close>

theorem passive_behavior_never_bans:
  assumes "c_passive C"
  shows "w_bans (snd (processUsageRules E C tracker rq ip rc w)) = w_bans w \<and>
    w_bans (snd (processReturnRules E C tracker rq rs ip rc w)) = w_bans w \<and>
    w_bans (snd (processGlobalReturnRules E C tracker rq rs ip rules w)) = w_bans w"
proof -
  have "keeps (\<lambda>u. w_bans u = w_bans w) (processUsageRules E C tracker rq ip rc)"
    "keeps (\<lambda>u. w_bans u = w_bans w) (processReturnRules E C tracker rq rs ip rc)"
    "keeps (\<lambda>u. w_bans u = w_bans w) (processGlobalReturnRules E C tracker rq rs ip rules)"
    unfolding processUsageRules_def processReturnRules_def processGlobalReturnRules_def
    by (intro keeps_intros passive_rules_keep_bans [OF assms])+
  from this [THEN keepsD, of w] show ?thesis by simp
qed

theorem passive_behavior_never_bans_witness:
  "w_bans (snd (processUsageRules ex_env (ex_config\<lparr>c_passive := True\<rparr>) True ex_request ''10.0.0.7''
     (default_route\<lparr>rc_behavior_rules := [ex_rule]\<rparr>) ex_world)) = []"
  using passive_behavior_never_bans [of "ex_config\<lparr>c_passive := True\<rparr>" ex_env True ex_request "''10.0.0.7''"
    "default_route\<lparr>rc_behavior_rules := [ex_rule]\<rparr>" ex_world]
  by (simp add: ex_world_def)

end
