(* ===== verification/Cloud_Refresh.thy ===== *)
theory Cloud_Refresh
  imports Behavior
begin

section \<open>Cloud ranges: stores and refresh (handlers/cloud.ts, cloud-ip-stores.ts)\<close>

text \<open>
  The part of \<open>CloudHandler\<close> that fills the live ranges: the in-memory and the Redis store with
  their entry encoding, the three refresh paths, the status. The download itself
  (\<open>fetchProviderRanges\<close>: HTTP and the providers' JSON) is the parameter \<open>e_fetch_ranges\<close>. The
  in-memory store keeps ranges and expiry under the same keys, one map here. Times are seconds.
\<close>

subsection \<open>Entries\<close>

text \<open>\<open>[...new Set(xs)]\<close>: the first occurrence of each element.\<close>

definition js_set :: "'a list \<Rightarrow> 'a list" where
  "js_set xs = rev (remdups (rev xs))"

lemma set_js_set [simp]: "set (js_set xs) = set xs"
  by (simp add: js_set_def)

lemma distinct_js_set [simp]: "distinct (js_set xs)"
  by (simp add: js_set_def)

lemma js_set_id [simp]: "distinct xs \<Longrightarrow> js_set xs = xs"
  by (simp add: js_set_def distinct_remdups_id)

definition encode_entry :: "(string, string) omap \<Rightarrow> string \<Rightarrow> string" where
  "encode_entry regions network =
     (case map_of regions network of
        None \<Rightarrow> network
      | Some region \<Rightarrow> if region = [] then network else network @ ''|'' @ region)"

definition encodeCachedEntries :: "string list \<Rightarrow> (string, string) omap \<Rightarrow> string list" where
  "encodeCachedEntries ranges regions = js_set (map (encode_entry regions) ranges)"

definition entry_prefix :: "string \<Rightarrow> string" where
  "entry_prefix entry = takeWhile (\<lambda>c. c \<noteq> CHR ''|'') entry"

definition entry_region :: "string \<Rightarrow> string" where
  "entry_region entry = drop (Suc (length (entry_prefix entry))) entry"

definition add_region :: "string \<Rightarrow> (string, string) omap \<Rightarrow> (string, string) omap" where
  "add_region entry regions =
     (if CHR ''|'' \<in> set entry \<and> entry_region entry \<noteq> []
      then AList.update (entry_prefix entry) (entry_region entry) regions else regions)"

definition decodeCachedEntries :: "string list \<Rightarrow> string list \<times> (string, string) omap" where
  "decodeCachedEntries entries = (js_set (map entry_prefix entries), fold add_region entries [])"

subsection \<open>The two stores\<close>

definition set_store ::
  "(string, string list \<times> rat option) omap \<Rightarrow> 'r world \<Rightarrow> 'r world"
where
  "set_store m w = w\<lparr>w_cloud_store := m\<rparr>"

definition memory_store_get :: "string \<Rightarrow> ('r, string list option) eff" where
  "memory_store_get provider =
     bnd (gets w_now) (\<lambda>now.
     bnd (gets (\<lambda>w. map_of (w_cloud_store w) provider)) (\<lambda>entry.
       case entry of
         None \<Rightarrow> ret None
       | Some (ranges, None) \<Rightarrow> ret (Some ranges)
       | Some (ranges, Some expiresAt) \<Rightarrow>
           if expiresAt \<le> now
           then thn (modify (\<lambda>w. set_store (AList.delete provider (w_cloud_store w)) w)) (ret None)
           else ret (Some ranges)))"

definition memory_store_set :: "string \<Rightarrow> string list \<Rightarrow> int option \<Rightarrow> ('r, unit) eff" where
  "memory_store_set provider ranges ttl =
     bnd (gets w_now) (\<lambda>now.
       modify (\<lambda>w. set_store
         (AList.update provider (ranges, map_option (\<lambda>t. now + of_int t) ttl) (w_cloud_store w)) w))"

definition memory_store_clear :: "('r, unit) eff" where
  "memory_store_clear = modify (set_store [])"

text \<open>\<open>String(x)\<close> of a parsed JSON value.\<close>

fun json_to_string :: "json \<Rightarrow> string" where
  "json_to_string JNull = ''null''"
| "json_to_string (JScalar s) = s"
| "json_to_string (JStr s) = s"
| "json_to_string (JArr xs) =
     join_with '','' (map (\<lambda>x. if x = JNull then [] else json_to_string x) xs)"
| "json_to_string (JObj _) = ''[object Object]''"

definition store_prefix :: string where
  "store_prefix = ''cloud_ip_v2''"

definition redis_store_get :: "'r env \<Rightarrow> string \<Rightarrow> ('r, string list option) eff" where
  "redis_store_get E provider =
     bnd (redis_getKey E store_prefix provider) (\<lambda>raw.
       ret (case raw of
              None \<Rightarrow> None
            | Some s \<Rightarrow>
                (case e_json_parse E s of
                   Some (JArr xs) \<Rightarrow> Some (js_set (map json_to_string xs))
                 | _ \<Rightarrow> None)))"

text \<open>\<open>[...ranges].sort()\<close> compares code units, as \<open>str_less\<close> does.\<close>

definition js_sort :: "string list \<Rightarrow> string list" where
  "js_sort xs = foldr insort_str xs []"

definition redis_store_set :: "'r env \<Rightarrow> string \<Rightarrow> string list \<Rightarrow> int option \<Rightarrow> ('r, unit) eff" where
  "redis_store_set E provider ranges ttl =
     bnd (redis_setKey E store_prefix provider
            (''['' @ join_with '', '' (map (\<lambda>r. e_json_str E (JStr r)) (js_sort ranges)) @ '']'') ttl)
       (\<lambda>_. ret ())"

text \<open>\<open>s.indexOf(sub)\<close>, and \<open>s.slice(i)\<close> for an index that may be negative.\<close>

fun index_of :: "string \<Rightarrow> string \<Rightarrow> nat option" where
  "index_of sub [] = (if sub = [] then Some 0 else None)"
| "index_of sub (c # s) =
     (if starts_with sub (c # s) then Some 0 else map_option Suc (index_of sub s))"

definition key_provider :: "string \<Rightarrow> string" where
  "key_provider key =
     (case index_of (store_prefix @ '':'') key of
        Some i \<Rightarrow> drop (i + length store_prefix + 1) key
      | None \<Rightarrow> drop (length store_prefix) key)"

definition redis_store_clear :: "'r env \<Rightarrow> ('r, unit) eff" where
  "redis_store_clear E =
     bnd (redis_keys E (store_prefix @ '':*'')) (\<lambda>keys.
       case keys of
         None \<Rightarrow> ret ()
       | Some ks \<Rightarrow>
           for_each (\<lambda>k. if key_provider k = [] then ret ()
                         else bnd (redis_delete E store_prefix (key_provider k)) (\<lambda>_. ret ())) ks)"

text \<open>The handler keeps the in-memory store until a Redis handler is installed.\<close>

definition store_get :: "'r env \<Rightarrow> string \<Rightarrow> ('r, string list option) eff" where
  "store_get E p = (if e_redis E = None then memory_store_get p else redis_store_get E p)"

definition store_set :: "'r env \<Rightarrow> string \<Rightarrow> string list \<Rightarrow> int option \<Rightarrow> ('r, unit) eff" where
  "store_set E p rs ttl =
     (if e_redis E = None then memory_store_set p rs ttl else redis_store_set E p rs ttl)"

definition store_clear :: "'r env \<Rightarrow> ('r, unit) eff" where
  "store_clear E = (if e_redis E = None then memory_store_clear else redis_store_clear E)"

subsection \<open>Refresh\<close>

definition logRangeChanges :: "string \<Rightarrow> string list \<Rightarrow> string list \<Rightarrow> ('r, unit) eff" where
  "logRangeChanges provider oldRanges newRanges =
     (let old = js_set oldRanges; new = js_set newRanges
      in if length old = length new \<and> list_all (\<lambda>r. r \<in> set new) old then ret ()
         else log_line LogInfo
           (''Cloud IP range update for '' @ provider @ '': +''
            @ show_nat (length (filter (\<lambda>r. r \<notin> set old) new)) @ '' added, -''
            @ show_nat (length (filter (\<lambda>r. r \<notin> set new) old)) @ '' removed''))"

definition ranges_of :: "string \<Rightarrow> 'r world \<Rightarrow> string list" where
  "ranges_of p w = om_get_or [] (w_clouds w) p"

text \<open>The writes to \<open>ipRanges\<close>, \<open>networkRegions\<close> and \<open>lastUpdated\<close>.\<close>

definition put_ranges :: "string \<Rightarrow> string list \<Rightarrow> 'r world \<Rightarrow> 'r world" where
  "put_ranges p rs w = w\<lparr>w_clouds := AList.update p rs (w_clouds w)\<rparr>"

definition put_regions :: "string \<Rightarrow> (string, string) omap \<Rightarrow> 'r world \<Rightarrow> 'r world" where
  "put_regions p m w = w\<lparr>w_cloud_regions := AList.update p m (w_cloud_regions w)\<rparr>"

definition put_updated :: "string \<Rightarrow> 'r world \<Rightarrow> 'r world" where
  "put_updated p w = w\<lparr>w_cloud_updated := AList.update p (w_now w) (w_cloud_updated w)\<rparr>"

definition use_cached :: "string \<Rightarrow> string list \<Rightarrow> ('r, unit) eff" where
  "use_cached p entries =
     modify (\<lambda>w. put_regions p (snd (decodeCachedEntries entries))
       (put_ranges p (fst (decodeCachedEntries entries)) w))"

text \<open>What follows a successful download, over the write to the cache in use.\<close>

definition install_fetched ::
  "string \<Rightarrow> string list \<Rightarrow> (string list \<Rightarrow> ('r, unit) eff) \<Rightarrow> ('r, unit) eff"
where
  "install_fetched p rs persist =
     (if rs = [] then ret ()
      else
        bnd (gets (\<lambda>w. om_get_or [] (w_cloud_regions w) p)) (\<lambda>regions.
          thn (persist (encodeCachedEntries rs regions))
         (bnd (gets (ranges_of p)) (\<lambda>old.
            thn (logRangeChanges p old rs)
              (modify (\<lambda>w. put_updated p (put_ranges p rs w)))))))"

definition refresh_failed :: "string \<Rightarrow> string \<Rightarrow> exn \<Rightarrow> ('r, unit) eff" where
  "refresh_failed verb p e =
     thn (log_line LogError (''Failed to '' @ verb @ '' '' @ p @ '' IP ranges: '' @ exn_str e))
       (modify (\<lambda>w. if om_has (w_clouds w) p then w else put_ranges p [] w))"

definition refresh_stored :: "'r env \<Rightarrow> int \<Rightarrow> string \<Rightarrow> ('r, unit) eff" where
  "refresh_stored E ttl p =
     try_catch
       (bnd (store_get E p) (\<lambda>cached.
          case cached of
            Some entries \<Rightarrow> use_cached p entries
          | None \<Rightarrow>
              bnd (lift_res (e_fetch_ranges E p)) (\<lambda>rs.
                install_fetched p rs (\<lambda>entries. store_set E p entries (Some ttl)))))
       (refresh_failed ''refresh'' p)"

definition refreshProvidersDirect :: "'r env \<Rightarrow> string list \<Rightarrow> ('r, unit) eff" where
  "refreshProvidersDirect E providers =
     for_each (\<lambda>p. try_catch
       (bnd (lift_res (e_fetch_ranges E p)) (\<lambda>rs. install_fetched p rs (\<lambda>_. ret ())))
       (refresh_failed ''fetch'' p)) providers"

definition legacy_fetch :: "'r env \<Rightarrow> int \<Rightarrow> string \<Rightarrow> ('r, unit) eff" where
  "legacy_fetch E ttl p =
     bnd (lift_res (e_fetch_ranges E p)) (\<lambda>rs.
       install_fetched p rs (\<lambda>entries.
         bnd (redis_setKey E ''cloud_ranges_v2'' p (join_with '','' (js_sort entries)) (Some ttl))
           (\<lambda>_. ret ())))"

definition refresh_legacy :: "'r env \<Rightarrow> int \<Rightarrow> string \<Rightarrow> ('r, unit) eff" where
  "refresh_legacy E ttl p =
     try_catch
       (bnd (redis_getKey E ''cloud_ranges_v2'' p) (\<lambda>cached.
          case cached of
            None \<Rightarrow> legacy_fetch E ttl p
          | Some s \<Rightarrow> if s \<noteq> [] then use_cached p (split_on (CHR '','') s) else legacy_fetch E ttl p))
       (refresh_failed ''refresh'' p)"

definition refreshViaRedisHandler :: "'r env \<Rightarrow> string list \<Rightarrow> int \<Rightarrow> ('r, unit) eff" where
  "refreshViaRedisHandler E providers ttl = for_each (refresh_legacy E ttl) providers"

text \<open>\<open>refreshAsync\<close>; \<open>has_store\<close> is false after \<open>setStore(null)\<close>.\<close>

definition refreshAsync :: "'r env \<Rightarrow> bool \<Rightarrow> string list \<Rightarrow> int \<Rightarrow> ('r, unit) eff" where
  "refreshAsync E has_store providers ttl =
     (if \<not> has_store then
        (if e_redis E \<noteq> None then refreshViaRedisHandler E providers ttl
         else refreshProvidersDirect E providers)
      else for_each (refresh_stored E ttl) providers)"

definition cloud_refresh :: "'r env \<Rightarrow> string list \<Rightarrow> ('r, unit) eff" where
  "cloud_refresh E providers =
     (if e_redis E \<noteq> None
      then raise_exn (OtherErr ''Error'' ''Use refreshAsync() when Redis is enabled'')
      else refreshProvidersDirect E providers)"

definition BUILT_IN_PROVIDERS :: "string list" where
  "BUILT_IN_PROVIDERS = [''AWS'', ''GCP'', ''Azure'']"

record provider_status =
  ps_ready :: bool
  ps_refreshed :: "rat option"
  ps_entries :: nat

definition getStatus :: "'r world \<Rightarrow> (string, provider_status) omap" where
  "getStatus w =
     map (\<lambda>p. (p, \<lparr>ps_ready = (length (ranges_of p w) > 0),
                  ps_refreshed = map_of (w_cloud_updated w) p,
                  ps_entries = length (ranges_of p w)\<rparr>)) BUILT_IN_PROVIDERS"

definition cloud_reset :: "'r env \<Rightarrow> bool \<Rightarrow> ('r, unit) eff" where
  "cloud_reset E has_store =
     thn (modify (\<lambda>w. w\<lparr>w_clouds := [], w_cloud_updated := [], w_cloud_regions := []\<rparr>))
    (thn (when_eff has_store (store_clear E))
      (when_eff (e_redis E \<noteq> None)
         (bnd (redis_deletePattern E ''cloud_ranges:*'') (\<lambda>_. ret ()))))"

text \<open>
  \<open>GuardMiddlewareProtocol.refreshCloudIpRanges\<close> (\<open>middleware-support.ts\<close>): the default \<open>ttl\<close> of
  3600 seconds, whatever \<open>cloudIpRefreshInterval\<close> is.
\<close>

definition refreshCloudIpRanges :: "'r env \<Rightarrow> config \<Rightarrow> ('r, unit) eff" where
  "refreshCloudIpRanges E C =
     (if e_cloud_handler E \<and> c_block_clouds C \<noteq> []
      then refreshAsync E True (c_block_clouds C) 3600 else ret ())"

subsection \<open>What a refresh touches\<close>

text \<open>The conditions under which a property survives the refresh of provider \<open>q\<close>.\<close>

definition refresh_stable :: "string \<Rightarrow> ('r world \<Rightarrow> bool) \<Rightarrow> bool" where
  "refresh_stable q P \<longleftrightarrow> offline P \<and>
     (\<forall>w. P w \<longrightarrow> P (set_store (AList.delete q (w_cloud_store w)) w)) \<and>
     (\<forall>w e. P w \<longrightarrow> P (set_store (AList.update q e (w_cloud_store w)) w)) \<and>
     (\<forall>w rs. P w \<longrightarrow> P (put_ranges q rs w)) \<and>
     (\<forall>w m. P w \<longrightarrow> P (put_regions q m w)) \<and> (\<forall>w. P w \<longrightarrow> P (put_updated q w))"

lemma keeps_memory_get: "refresh_stable q P \<Longrightarrow> keeps P (memory_store_get q)"
  unfolding memory_store_get_def refresh_stable_def by (intro keeps_intros keeps_modify) auto

lemma keeps_store_get: "refresh_stable q P \<Longrightarrow> keeps P (store_get E q)"
  unfolding store_get_def redis_store_get_def
  by (intro keeps_intros keeps_memory_get) (auto simp: refresh_stable_def)

lemma keeps_store_set: "refresh_stable q P \<Longrightarrow> keeps P (store_set E q rs ttl)"
  unfolding store_set_def memory_store_set_def redis_store_set_def
  by (intro keeps_intros keeps_modify) (auto simp: refresh_stable_def)

lemma keeps_range_log [report_intros]: "unaffected P \<Longrightarrow> keeps P (logRangeChanges p old new)"
  unfolding logRangeChanges_def Let_def by (intro keeps_intros report_intros)

lemma keeps_install:
  assumes "refresh_stable q P" and "\<And>es. keeps P (persist es)"
  shows "keeps P (install_fetched q rs persist)"
proof -
  have "unaffected P" using assms(1) by (simp add: refresh_stable_def offline_unaffected)
  then show ?thesis unfolding install_fetched_def
    by (intro keeps_intros keeps_modify assms(2) keeps_range_log)
       (use assms(1) in \<open>auto simp: refresh_stable_def\<close>)
qed

lemma keeps_refresh_failed: "refresh_stable q P \<Longrightarrow> keeps P (refresh_failed v q e)"
  unfolding refresh_failed_def by (intro keeps_intros keeps_modify) (auto simp: refresh_stable_def)

lemma keeps_refresh_stored: "refresh_stable q P \<Longrightarrow> keeps P (refresh_stored E ttl q)"
  unfolding refresh_stored_def use_cached_def
  by (intro keeps_intros keeps_modify keeps_store_get keeps_store_set keeps_install keeps_refresh_failed)
     (auto simp: refresh_stable_def)

lemma calm_refresh_stored [calm_intros]: "never_raises (refresh_stored E ttl q)"
  unfolding refresh_stored_def refresh_failed_def by (intro calm_intros)

lemma keeps_each: "(\<And>x. x \<in> set xs \<Longrightarrow> keeps P (f x)) \<Longrightarrow> keeps P (for_each f xs)"
  by (induction xs) (auto intro!: keeps_intros)

lemma keeps_refreshCloudIpRanges:
  "(\<And>q. q \<in> set (c_block_clouds C) \<Longrightarrow> refresh_stable q P) \<Longrightarrow> keeps P (refreshCloudIpRanges E C)"
  unfolding refreshCloudIpRanges_def refreshAsync_def if_False simp_thms
  by (intro keeps_if keeps_each keeps_refresh_stored keeps_ret) auto

lemma calm_refreshCloudIpRanges [calm_intros]: "never_raises (refreshCloudIpRanges E C)"
  unfolding refreshCloudIpRanges_def refreshAsync_def if_False simp_thms by (intro calm_intros)

subsection \<open>A live cache entry is authoritative\<close>

definition cached_live :: "string \<Rightarrow> string list \<Rightarrow> rat \<Rightarrow> 'r world \<Rightarrow> bool" where
  "cached_live p es expires w \<longleftrightarrow> map_of (w_cloud_store w) p = Some (es, Some expires) \<and> w_now w < expires"

lemmas world_writes = set_store_def put_ranges_def put_regions_def put_updated_def

lemma offline_clouds [simp]: "offline (\<lambda>w. Q (w_cloud_store w) (w_clouds w) (w_now w))"
  by (auto simp: offline_def unaffected_def same_managers_def)

lemma offline_live [simp]: "offline (cached_live p es expires)"
  by (auto simp: offline_def unaffected_def same_managers_def cached_live_def)

lemma refresh_live:
  assumes "e_redis E = None" and "cached_live p es expires w"
  shows "refresh_stored E ttl p w = (Inr (), put_regions p (snd (decodeCachedEntries es))
    (put_ranges p (fst (decodeCachedEntries es)) w))"
proof -
  have "memory_store_get p w = (Inr (Some es), w)"
    using assms(2) by (simp add: memory_store_get_def bnd_run cached_live_def ret_run)
  then show ?thesis
    using assms(1) by (simp add: refresh_stored_def store_get_def try_catch_run bnd_run use_cached_def)
qed

lemma keeps_live:
  assumes "e_redis E = None"
  shows "keeps (cached_live p es expires) (refresh_stored E ttl q)"
proof (cases "q = p")
  case True
  then show ?thesis
    using refresh_live [OF assms] by (auto simp: keeps_def cached_live_def world_writes)
next
  case False
  then have "refresh_stable q (cached_live p es expires)"
    unfolding refresh_stable_def by (intro conjI offline_live) (auto simp: cached_live_def world_writes)
  then show ?thesis by (rule keeps_refresh_stored)
qed

definition served :: "string \<Rightarrow> string list \<Rightarrow> rat \<Rightarrow> 'r world \<Rightarrow> bool" where
  "served p es expires w \<longleftrightarrow> cached_live p es expires w \<and>
     map_of (w_clouds w) p = Some (fst (decodeCachedEntries es))"

lemma offline_served [simp]: "offline (served p es expires)"
  by (auto simp: offline_def unaffected_def same_managers_def served_def cached_live_def)

lemma keeps_served:
  assumes "e_redis E = None"
  shows "keeps (served p es expires) (refresh_stored E ttl q)"
proof (cases "q = p")
  case True
  then show ?thesis
    using refresh_live [OF assms] by (auto simp: keeps_def served_def cached_live_def world_writes)
next
  case False
  then have "refresh_stable q (served p es expires)"
    unfolding refresh_stable_def
    by (intro conjI offline_served) (auto simp: served_def cached_live_def world_writes)
  then show ?thesis by (rule keeps_refresh_stored)
qed

lemma for_each_Cons_run:
  "never_raises (f x) \<Longrightarrow> snd (for_each f (x # xs) w) = snd (for_each f xs (snd (f x w)))"
  using never_raisesD [of "f x" w] by (auto simp: thn_run)

lemma for_each_append_run:
  "(\<And>x. never_raises (f x)) \<Longrightarrow>
   snd (for_each f (xs @ ys) w) = snd (for_each f ys (snd (for_each f xs w)))"
  by (induction xs arbitrary: w)
     (simp_all add: for_each_Cons_run ret_run del: for_each.simps(2))

text \<open>A refresh of a list that names \<open>p\<close> serves a live entry of \<open>p\<close>.\<close>

lemma refresh_serves:
  assumes "e_redis E = None" and "cached_live p es expires w" and "p \<in> set ps"
  shows "served p es expires (snd (for_each (refresh_stored E ttl) ps w))"
proof -
  obtain as bs where ps: "ps = as @ p # bs" using split_list [OF assms(3)] by blast
  let ?u = "snd (for_each (refresh_stored E ttl) as w)"
  have live: "cached_live p es expires ?u"
    by (rule keepsD [where P = "cached_live p es expires"]) (intro keeps_each keeps_live assms(1,2))+
  have "served p es expires (snd (refresh_stored E ttl p ?u))"
    using live by (auto simp: refresh_live [OF assms(1) live] served_def cached_live_def world_writes)
  then have "served p es expires (snd (for_each (refresh_stored E ttl) bs (snd (refresh_stored E ttl p ?u))))"
    by (rule keepsD [rotated]) (intro keeps_each keeps_served assms(1))
  then show ?thesis
    by (simp add: ps for_each_append_run [OF calm_refresh_stored] for_each_Cons_run [OF calm_refresh_stored]
        del: for_each.simps(2))
qed

subsection \<open>Properties\<close>

lemma prefix_encode: "CHR ''|'' \<notin> set n \<Longrightarrow> entry_prefix (encode_entry regions n) = n"
proof -
  assume *: "CHR ''|'' \<notin> set n"
  have "takeWhile (\<lambda>c. c \<noteq> CHR ''|'') (n @ ''|'' @ r) = n" for r
    using * by (induction n) auto
  moreover have "takeWhile (\<lambda>c. c \<noteq> CHR ''|'') n = n"
    using * by auto
  ultimately show ?thesis
    by (auto simp: encode_entry_def entry_prefix_def split: option.splits)
qed

lemma inj_encode:
  "\<forall>n \<in> set rs. CHR ''|'' \<notin> set n \<Longrightarrow> distinct rs \<Longrightarrow> distinct (map (encode_entry regions) rs)"
  by (metis (no_types, lifting) distinct_map inj_onI prefix_encode)

lemma decode_encode_ranges:
  assumes "distinct rs" and "\<forall>n \<in> set rs. CHR ''|'' \<notin> set n"
  shows "fst (decodeCachedEntries (encodeCachedEntries rs regions)) = rs"
proof -
  have "map (entry_prefix \<circ> encode_entry regions) rs = rs"
    using assms(2) by (simp add: map_idI prefix_encode)
  then show ?thesis
    using assms inj_encode [OF assms(2,1)] by (simp add: decodeCachedEntries_def encodeCachedEntries_def)
qed

definition named_region :: "(string, string) omap \<Rightarrow> string \<Rightarrow> string option" where
  "named_region regions n = (case map_of regions n of Some r \<Rightarrow> if r = [] then None else Some r | None \<Rightarrow> None)"

lemma add_region_encode:
  assumes "CHR ''|'' \<notin> set n"
  shows "map_of (add_region (encode_entry regions n) m) k =
    (if k = n \<and> named_region regions n \<noteq> None then named_region regions n else map_of m k)"
proof (cases "named_region regions n")
  case None
  then have "encode_entry regions n = n"
    by (auto simp: encode_entry_def named_region_def split: option.splits if_splits)
  with None assms show ?thesis by (simp add: add_region_def)
next
  case (Some r)
  then have e: "encode_entry regions n = n @ ''|'' @ r" and "r \<noteq> []"
    by (auto simp: encode_entry_def named_region_def split: option.splits if_splits)
  moreover have "entry_prefix (n @ ''|'' @ r) = n"
    using prefix_encode [OF assms, of regions] e by simp
  ultimately show ?thesis
    using Some by (auto simp: add_region_def entry_region_def)
qed

lemma fold_regions:
  "\<forall>n \<in> set rs. CHR ''|'' \<notin> set n \<Longrightarrow>
   map_of (fold add_region (map (encode_entry regions) rs) m) k =
     (if k \<in> set rs \<and> named_region regions k \<noteq> None then named_region regions k else map_of m k)"
  by (induction rs arbitrary: m) (auto simp: add_region_encode)

text \<open>
  What the range store reads back is what was written: the same ranges in the same order, and for
  each range its region, where it has a non-empty one.
\<close>

theorem cached_entries_roundtrip:
  assumes "distinct rs" and "\<forall>n \<in> set rs. CHR ''|'' \<notin> set n"
  shows "fst (decodeCachedEntries (encodeCachedEntries rs regions)) = rs \<and>
    map_of (snd (decodeCachedEntries (encodeCachedEntries rs regions))) n =
      (if n \<in> set rs then named_region regions n else None)"
  using assms inj_encode [OF assms(2,1)] fold_regions [OF assms(2), of regions "[]" n]
  by (simp add: decode_encode_ranges) (simp add: decodeCachedEntries_def encodeCachedEntries_def)

theorem cached_entries_roundtrip_witness:
  "map_of (snd (decodeCachedEntries (encodeCachedEntries [''10.0.0.0/8'', ''11.0.0.0/8'']
     [(''11.0.0.0/8'', ''eu'')]))) ''11.0.0.0/8'' = Some ''eu''"
  using cached_entries_roundtrip [of "[''10.0.0.0/8'', ''11.0.0.0/8'']" "[(''11.0.0.0/8'', ''eu'')]"
      "''11.0.0.0/8''"]
  by (simp add: named_region_def)

text \<open>What follows the write to the store.\<close>

definition announce :: "string \<Rightarrow> string list \<Rightarrow> ('r, unit) eff" where
  "announce p rs = bnd (gets (ranges_of p)) (\<lambda>old. thn (logRangeChanges p old rs)
     (modify (\<lambda>w. put_updated p (put_ranges p rs w))))"

lemma install_run:
  assumes "rs \<noteq> []"
    and "persist (encodeCachedEntries rs (om_get_or [] (w_cloud_regions w) p)) w = (Inr (), w1)"
  shows "install_fetched p rs persist w = announce p rs w1"
  using assms by (simp add: install_fetched_def announce_def bnd_run thn_run)

lemma calm_announce: "never_raises (announce p rs)"
  unfolding announce_def logRangeChanges_def Let_def by (intro calm_intros)

lemma keeps_announce: "keeps (cached_live q es expires) (announce p rs)"
  unfolding announce_def
  by (intro keeps_intros keeps_range_log keeps_modify offline_unaffected offline_live)
     (auto simp: cached_live_def world_writes)

lemma refresh_stored_calm:
  assumes "bnd (store_get E p) (\<lambda>cached. case cached of
      Some entries \<Rightarrow> use_cached p entries
    | None \<Rightarrow> bnd (lift_res (e_fetch_ranges E p)) (\<lambda>rs.
        install_fetched p rs (\<lambda>entries. store_set E p entries (Some ttl)))) w = (Inr x, u)"
  shows "refresh_stored E ttl p w = (Inr x, u)"
  unfolding refresh_stored_def try_catch_run assms by simp

lemma refresh_fetches:
  assumes "e_redis E = None" and "map_of (w_cloud_store w) p = None"
    and "e_fetch_ranges E p = Inr rs" and "rs \<noteq> []"
  shows "\<exists>regions. cached_live p (encodeCachedEntries rs regions) (w_now w + 3600)
    (snd (refresh_stored E 3600 p w))"
proof -
  let ?es = "encodeCachedEntries rs (om_get_or [] (w_cloud_regions w) p)"
  let ?w1 = "set_store (AList.update p (?es, Some (w_now w + 3600)) (w_cloud_store w)) w"
  let ?persist = "\<lambda>entries. store_set E p entries (Some 3600)"
  obtain x u where u: "announce p rs ?w1 = (Inr x, u)"
    using never_raisesD [OF calm_announce] by blast
  have "?persist ?es w = (Inr (), ?w1)"
    using assms(1) by (simp add: store_set_def memory_store_set_def bnd_run)
  then have "install_fetched p rs ?persist w = (Inr x, u)"
    using install_run [OF assms(4), of ?persist w p ?w1] u by simp
  moreover have "store_get E p w = (Inr None, w)"
    using assms(1,2) by (simp add: store_get_def memory_store_get_def bnd_run ret_run)
  ultimately have "snd (refresh_stored E 3600 p w) = u"
    using assms(3) by (subst refresh_stored_calm [of _ _ _ w x u]) (simp_all add: bnd_run lift_res_run)
  moreover have "cached_live p ?es (w_now w + 3600) ?w1"
    by (simp add: cached_live_def set_store_def)
  then have "cached_live p ?es (w_now w + 3600) u"
    using keepsD [OF keeps_announce, of p ?es "w_now w + 3600" ?w1 p rs] u by simp
  ultimately show ?thesis by blast
qed

text \<open>
  Once a refresh has downloaded a provider's ranges, every refresh of the next 3600 seconds serves
  those same ranges, whatever the provider publishes by then and whatever \<open>cloudIpRefreshInterval\<close> is
  configured: the configured interval below an hour has no effect.
\<close>

theorem ranges_frozen_for_an_hour:
  assumes "e_redis E = None" and "e_redis E' = None" and "e_cloud_handler E" and "e_cloud_handler E'"
    and "p \<in> set (c_block_clouds C)" and "map_of (w_cloud_store w) p = None"
    and "e_fetch_ranges E p = Inr rs" and "rs \<noteq> []" and "distinct rs"
    and "\<forall>n \<in> set rs. CHR ''|'' \<notin> set n" and "t < w_now w + 3600"
  shows "map_of (w_clouds (snd (refreshCloudIpRanges E' C
    ((snd (refreshCloudIpRanges E C w))\<lparr>w_now := t\<rparr>)))) p = Some rs"
proof -
  obtain as bs where ps: "c_block_clouds C = as @ p # bs" and as: "p \<notin> set as"
    using split_list_first [OF assms(5)] by blast
  let ?f = "refresh_stored E 3600"
  let ?fresh = "\<lambda>u :: 'a world. map_of (w_cloud_store u) p = None \<and> w_now u = w_now w"
  let ?u = "snd (for_each ?f as w)" and ?after = "snd (for_each ?f (c_block_clouds C) w)"
  have "?fresh ?u"
  proof (rule keepsD [of ?fresh])
    show "keeps ?fresh (for_each ?f as)"
      using as by (intro keeps_each keeps_refresh_stored)
        (auto simp: refresh_stable_def world_writes
          intro: offline_clouds [of "\<lambda>s c n. map_of s p = None \<and> n = w_now w"])
  qed (use assms(6) in simp)
  then obtain regions where
    "cached_live p (encodeCachedEntries rs regions) (w_now w + 3600) (snd (?f p ?u))"
    using refresh_fetches [OF assms(1) _ assms(7,8), of ?u] by auto
  then have "cached_live p (encodeCachedEntries rs regions) (w_now w + 3600)
      (snd (for_each ?f bs (snd (?f p ?u))))"
    by (rule keepsD [rotated]) (intro keeps_each keeps_live assms(1))
  then have "cached_live p (encodeCachedEntries rs regions) (w_now w + 3600) (?after\<lparr>w_now := t\<rparr>)"
    using assms(11) by (simp add: ps cached_live_def for_each_append_run [OF calm_refresh_stored]
        for_each_Cons_run [OF calm_refresh_stored] del: for_each.simps(2))
  from refresh_serves [OF assms(2) this assms(5), of 3600] show ?thesis
    using assms(3-5) decode_encode_ranges [OF assms(9,10)]
    by (auto simp: refreshCloudIpRanges_def refreshAsync_def served_def)
qed

theorem ranges_frozen_for_an_hour_witness:
  "map_of (w_clouds (snd (refreshCloudIpRanges (ex_env\<lparr>e_fetch_ranges := (\<lambda>_. Inr [''11.0.0.0/8''])\<rparr>)
      (ex_config\<lparr>c_block_clouds := [''AWS''], c_cloud_interval := 60\<rparr>)
      ((snd (refreshCloudIpRanges (ex_env\<lparr>e_fetch_ranges := (\<lambda>_. Inr [''10.0.0.0/8''])\<rparr>)
         (ex_config\<lparr>c_block_clouds := [''AWS''], c_cloud_interval := 60\<rparr>) ex_world))\<lparr>w_now := 4000\<rparr>)))) ''AWS''
     = Some [''10.0.0.0/8'']"
  by (rule ranges_frozen_for_an_hour) (simp_all add: ex_simps)

end
