(* ===== verification/Rate_Limit.thy ===== *)
theory Rate_Limit
  imports Guard_Examples Response_Factory Sliding_Window
begin

section \<open>RateLimitManager (handlers/rate-limit.ts)\<close>

text \<open>
  The sliding-window limiter of the pipeline: the Redis script with its reload on NOSCRIPT, the
  plain-command fallback, the in-memory window used whenever Redis gives no count, and the 429.
\<close>

definition RATE_LIMIT_SCRIPT :: string where
  "RATE_LIMIT_SCRIPT = join_with [CHR 0x0A]
     [[], ''local key = KEYS[1]'', ''local now = tonumber(ARGV[1])'',
      ''local window = tonumber(ARGV[2])'', ''local limit = tonumber(ARGV[3])'',
      ''local window_start = now - window'', [],
      ''redis.call('' @ [CHR 0x27] @ ''ZADD'' @ [CHR 0x27] @ '', key, now, now)'',
      ''redis.call('' @ [CHR 0x27] @ ''ZREMRANGEBYSCORE'' @ [CHR 0x27] @ '', key, 0, window_start)'',
      ''local count = redis.call('' @ [CHR 0x27] @ ''ZCARD'' @ [CHR 0x27] @ '', key)'',
      ''redis.call('' @ [CHR 0x27] @ ''EXPIRE'' @ [CHR 0x27] @ '', key, window * 2)'', [],
      ''return count'', []]"

definition set_rate :: "(string, rat list) omap \<Rightarrow> 'r world \<Rightarrow> 'r world" where
  "set_rate m w = w\<lparr>w_rate := m\<rparr>"

definition set_sha :: "string option \<Rightarrow> 'r world \<Rightarrow> 'r world" where
  "set_sha s w = w\<lparr>w_sha := s\<rparr>"

definition rate_initializeRedis :: "'r env \<Rightarrow> ('r, unit) eff" where
  "rate_initializeRedis E =
     (case e_redis E of
        Some (Some c) \<Rightarrow>
          try_catch
            (bnd (on_redis (cl_script_load c RATE_LIMIT_SCRIPT)) (\<lambda>sha. modify (set_sha (Some sha))))
            (\<lambda>e. log_line LogWarn (''Failed to load rate limit Lua script: '' @ exn_str e))
      | _ \<Rightarrow> ret ())"

definition emitScriptReloadedEvent :: "'r env \<Rightarrow> ('r, unit) eff" where
  "emitScriptReloadedEvent E =
     send_direct_event E ''rate_limit_script_reloaded'' ''system'' ''script_reloaded''
       ''NOSCRIPT recovery: Lua script re-cached on Redis'' None None None ''rate_limit'' None []
       (\<lambda>_. ret ())"

text \<open>The scripted count: on NOSCRIPT the script is loaded again and the call retried once.\<close>

definition scripted_count ::
  "'r env \<Rightarrow> 'r redis_client \<Rightarrow> string \<Rightarrow> string \<Rightarrow> rat \<Rightarrow> int \<Rightarrow> int \<Rightarrow> ('r, int) eff"
where
  "scripted_count E c sha key now window limit =
     try_catch (on_redis (cl_evalsha c sha key now window limit))
       (\<lambda>e. if \<not> str_includes ''NOSCRIPT'' (exn_str e) then raise_exn e
            else bnd (on_redis (cl_script_load c RATE_LIMIT_SCRIPT)) (\<lambda>sha'.
              thn (modify (set_sha (Some sha')))
             (thn (emitScriptReloadedEvent E)
               (on_redis (cl_evalsha c sha' key now window limit)))))"

definition plain_count :: "'r env \<Rightarrow> 'r redis_client \<Rightarrow> string \<Rightarrow> rat \<Rightarrow> int \<Rightarrow> ('r, int) eff" where
  "plain_count E c key now window =
     bnd (on_redis (cl_zadd c key now (e_num_str E now))) (\<lambda>_.
     bnd (on_redis (cl_zremrangebyscore c key 0 (now - of_int window))) (\<lambda>_.
     bnd (on_redis (cl_zcard c key)) (\<lambda>count.
     bnd (on_redis (cl_eval_expire c key (window * 2))) (\<lambda>_. ret count))))"

definition getRedisRequestCount ::
  "'r env \<Rightarrow> string \<Rightarrow> rat \<Rightarrow> int \<Rightarrow> int \<Rightarrow> ('r, int option) eff"
where
  "getRedisRequestCount E key now window limit =
     (case e_redis E of
        Some (Some c) \<Rightarrow>
          try_catch
            (bnd (gets w_sha) (\<lambda>sha.
               bnd (case sha of
                      Some s \<Rightarrow>
                        if s \<noteq> [] then
                          scripted_count E c s (e_redis_prefix E @ ''rate_limit:rate:'' @ key) now window limit
                        else plain_count E c (e_redis_prefix E @ ''rate_limit:rate:'' @ key) now window
                    | None \<Rightarrow> plain_count E c (e_redis_prefix E @ ''rate_limit:rate:'' @ key) now window)
                 (\<lambda>n. ret (Some n))))
            (\<lambda>e. thn (log_line LogWarn
                    (''Redis rate limit check failed, falling back to in-memory: '' @ exn_str e))
                  (ret None))
      | _ \<Rightarrow> ret None)"

definition getInMemoryRequestCount :: "string \<Rightarrow> rat \<Rightarrow> int \<Rightarrow> ('r, int) eff" where
  "getInMemoryRequestCount key now window =
     bnd (gets (\<lambda>w. window_hit key now (of_int window) (w_rate w))) (\<lambda>(n, m).
       thn (modify (set_rate m)) (ret (int n)))"

definition sendRateLimitEvent :: "'r env \<Rightarrow> config \<Rightarrow> request \<Rightarrow> string \<Rightarrow> int \<Rightarrow> ('r, unit) eff" where
  "sendRateLimitEvent E C rq ip count =
     send_direct_event E ''rate_limited'' ip ''request_blocked''
       (''Rate limit exceeded: '' @ show_int count @ '' requests in '' @ show_int (c_rate_window C)
        @ ''s window'')
       (Some (rq_path rq)) (Some (rq_method rq)) None ''rate_limit'' None
       [(''requestCount'', MNum count), (''rateLimit'', MNum (c_rate_limit C)),
        (''window'', MNum (c_rate_window C))]
       (\<lambda>e. log_line LogError (''Failed to send rate limit event to agent: '' @ exn_str e))"

text \<open>
  \<open>displayConfig?.logSuspiciousLevel ?? 'WARNING'\<close>: a null level (logging off) is WARNING here,
  unlike in the checks.
\<close>

definition handleRateLimitExceeded ::
  "'r env \<Rightarrow> config \<Rightarrow> (int \<Rightarrow> string \<Rightarrow> exn + response) \<Rightarrow> request \<Rightarrow> string \<Rightarrow> int \<Rightarrow> int
     \<Rightarrow> ('r, response) eff"
where
  "handleRateLimitExceeded E C mk rq ip count window =
     thn (logActivity E rq LogSuspicious
            (''Rate limit exceeded for IP: '' @ ip @ '' ('' @ show_int count @ '' requests in ''
             @ show_int window @ ''s window)'')
            (c_passive C) []
            (Some (case c_log_suspicious C of None \<Rightarrow> WARNING | Some l \<Rightarrow> l))
            (Some (''rate_limit'', c_on_block C, Some (c_muted_checks C))))
    (thn (sendRateLimitEvent E C rq ip count)
      (bnd (lift_res (mk 429 ''Too many requests'')) (\<lambda>r.
        ret (set_header ''Retry-After'' (show_int window) r))))"

text \<open>\<open>endpointPath ? `${clientIp}:${endpointPath}` : clientIp\<close>.\<close>

definition rate_key :: "string \<Rightarrow> string option \<Rightarrow> string" where
  "rate_key ip endpoint =
     (case endpoint of None \<Rightarrow> ip | Some p \<Rightarrow> if p = [] then ip else ip @ '':'' @ p)"

definition checkRateLimit ::
  "'r env \<Rightarrow> config \<Rightarrow> (int \<Rightarrow> string \<Rightarrow> exn + response) \<Rightarrow> request \<Rightarrow> string \<Rightarrow> string option
     \<Rightarrow> int \<Rightarrow> int \<Rightarrow> ('r, response option) eff"
where
  "checkRateLimit E C mk rq ip endpoint limit window =
     bnd (gets w_now) (\<lambda>now.
     bnd (getRedisRequestCount E (rate_key ip endpoint) now window limit) (\<lambda>rc.
     bnd (case rc of Some n \<Rightarrow> ret n
          | None \<Rightarrow> getInMemoryRequestCount (rate_key ip endpoint) now window) (\<lambda>count.
       if count > limit then
         bnd (handleRateLimitExceeded E C mk rq ip count window) (\<lambda>r. ret (Some r))
       else ret None)))"

definition rate_reset :: "'r env \<Rightarrow> ('r, unit) eff" where
  "rate_reset E =
     thn (modify (set_rate []))
       (when_eff (e_redis E \<noteq> None) (bnd (redis_deletePattern E ''rate_limit:rate:*'') (\<lambda>_. ret ())))"

subsection \<open>What a check keeps, and what it can raise\<close>

lemma keeps_redis_count [keeps_intros]:
  assumes "offline P" and "\<And>w s. P w \<Longrightarrow> P (set_sha s w)"
  shows "keeps P (getRedisRequestCount E key now window limit)"
  unfolding getRedisRequestCount_def scripted_count_def plain_count_def emitScriptReloadedEvent_def
  using assms by (intro keeps_intros keeps_modify) auto

lemma keeps_memory_count:
  "(\<And>w m. P w \<Longrightarrow> P (set_rate m w)) \<Longrightarrow> keeps P (getInMemoryRequestCount key now window)"
  unfolding getInMemoryRequestCount_def by (intro keeps_intros keeps_modify) auto

lemma keeps_exceeded [keeps_intros]:
  "offline P \<Longrightarrow> keeps P (handleRateLimitExceeded E C mk rq ip n window)"
  unfolding handleRateLimitExceeded_def sendRateLimitEvent_def by (intro keeps_intros)

lemma keeps_checkRateLimit:
  assumes "offline P" and "\<And>w s. P w \<Longrightarrow> P (set_sha s w)" and "\<And>w m. P w \<Longrightarrow> P (set_rate m w)"
  shows "keeps P (checkRateLimit E C mk rq ip ep limit window)"
  unfolding checkRateLimit_def
  using assms by (intro keeps_intros keeps_memory_count) auto

lemma calm_redis_count [calm_intros]: "never_raises (getRedisRequestCount E key now window limit)"
  unfolding getRedisRequestCount_def by (intro calm_intros)

lemma calm_memory_count [calm_intros]: "never_raises (getInMemoryRequestCount key now window)"
  by (simp add: getInMemoryRequestCount_def never_raises_def bnd_run thn_run ret_run
      split: prod.splits)

lemma redis_count_absent [simp]:
  "e_redis E = None \<Longrightarrow> getRedisRequestCount E key now window limit = ret None"
  "e_redis E = Some None \<Longrightarrow> getRedisRequestCount E key now window limit = ret None"
  by (simp_all add: getRedisRequestCount_def)

text \<open>The in-memory windows survive a Redis call unchanged.\<close>

lemma offline_rate_now [simp]: "offline (\<lambda>u. w_rate u = m \<and> w_now u = n)"
  by (auto simp: offline_def unaffected_def same_managers_def)

lemma redis_count_windows:
  "w_rate (snd (getRedisRequestCount E key now window limit w)) = w_rate w \<and>
   w_now (snd (getRedisRequestCount E key now window limit w)) = w_now w"
proof -
  have "keeps (\<lambda>u. w_rate u = w_rate w \<and> w_now u = w_now w) (getRedisRequestCount E key now window limit)"
    by (intro keeps_redis_count offline_rate_now) (simp add: set_sha_def)
  from keepsD [OF this, of w] show ?thesis by simp
qed

lemma memory_count_run:
  "getInMemoryRequestCount key now window w =
     (Inr (int (fst (window_hit key now (of_int window) (w_rate w)))),
      set_rate (snd (window_hit key now (of_int window) (w_rate w))) w)"
  by (simp add: getInMemoryRequestCount_def bnd_run thn_run ret_run case_prod_beta)

lemma exceeded_not_None:
  "returns (\<lambda>r. r \<noteq> None) (bnd (handleRateLimitExceeded E C mk rq ip n W) (\<lambda>r. ret (Some r)))"
  by (auto intro!: returns_intros)

text \<open>The decision on the two sources of the count.\<close>

lemma checkRateLimit_memory:
  assumes "getRedisRequestCount E (rate_key ip ep) (w_now w) W limit w = (Inr None, w')"
  shows "fst (checkRateLimit E C mk rq ip ep limit W w) = Inr None \<longleftrightarrow>
    int (fst (window_hit (rate_key ip ep) (w_now w) (of_int W) (w_rate w))) \<le> limit"
proof -
  have "w_rate w' = w_rate w"
    using redis_count_windows [of E "rate_key ip ep" "w_now w" W limit w] assms by simp
  then show ?thesis
    using exceeded_not_None [of E C mk rq ip] unfolding returns_def
    by (cases "limit < int (fst (window_hit (rate_key ip ep) (w_now w) (of_int W) (w_rate w)))")
       (auto simp: checkRateLimit_def bnd_run [of "gets w_now"] bnd_run [of "getRedisRequestCount _ _ _ _ _"]
        bnd_run [of "getInMemoryRequestCount _ _ _"] assms memory_count_run ret_run)
qed

lemma exceeded_429:
  assumes "\<And>st msg r. mk st msg = Inr r \<Longrightarrow> rs_status r = st"
  shows "returns (\<lambda>r. rs_status r = 429 \<and> map_of (rs_headers r) ''Retry-After'' = Some (show_int W))
    (handleRateLimitExceeded E C mk rq ip n W)"
proof -
  have *: "returns (\<lambda>r. rs_status r = 429 \<and> map_of (rs_headers r) ''Retry-After'' = Some (show_int W))
    (bnd (lift_res (mk 429 ''Too many requests'')) (\<lambda>r. ret (set_header ''Retry-After'' (show_int W) r)))"
    using assms [of 429 "''Too many requests''"]
    by (cases "mk 429 ''Too many requests''")
       (auto simp: returns_def bnd_run lift_res_run ret_run set_header_get)
  show ?thesis
    unfolding handleRateLimitExceeded_def by (intro returns_thn *)
qed

subsection \<open>Properties\<close>

lemma exceeded_yields:
  assumes "c_modifier C = None"
  shows "yields (\<lambda>r. map_of (rs_headers r) ''Retry-After'' = Some (show_int W))
    (handleRateLimitExceeded E C (createErrorResponse E C) rq ip n W)"
  unfolding handleRateLimitExceeded_def sendRateLimitEvent_def
  by (intro yields_intros calm_intros yields_bnd [where P = "\<lambda>_. True"]
      yields_lift [OF error_response_plain [OF assms]] TrueI set_header_get)

text \<open>
  C13: whenever Redis yields no count (no Redis, no client, or any failure of the script and of the
  plain commands), a rate-limit check that follows earlier hits of the store in clock order, those of
  its own key made with windows no shorter than its own and those of other keys with any, lets the
  request through exactly when it and the earlier hits of its key inside the window are at most
  the limit; otherwise it answers, where no response modifier is configured, a response that carries
  the window as Retry-After.
\<close>

theorem rate_limit_exact:
  assumes "sorted (map (fst \<circ> snd) xs @ [w_now w])"
    and "\<forall>(k, t, V) \<in> set xs. k = rate_key ip ep \<longrightarrow> of_int W \<le> V"
    and "w_rate w = run_windows window_hit xs []"
    and "getRedisRequestCount E (rate_key ip ep) (w_now w) W limit w = (Inr None, w')"
    and "c_modifier C = None"
  shows "\<exists>r. map_of (rs_headers r) ''Retry-After'' = Some (show_int W) \<and>
    fst (checkRateLimit E C (createErrorResponse E C) rq ip ep limit W w) =
      Inr (if 1 + int (live_hits (rate_key ip ep) (w_now w - of_int W) (map (\<lambda>(k, t, V). (k, t)) xs)) \<le> limit then None
           else Some r)"
proof -
  let ?n = "1 + live_hits (rate_key ip ep) (w_now w - of_int W) (map (\<lambda>(k, t, V). (k, t)) xs)"
  have rate: "w_rate w' = w_rate w"
    using redis_count_windows [of E "rate_key ip ep" "w_now w" W limit w] assms(4) by simp
  have n: "fst (window_hit (rate_key ip ep) (w_now w) (of_int W) (w_rate w)) = ?n"
    unfolding assms(3) by (rule plain.count_windows [OF _ assms(1,2)]) (simp_all add: om_get_or_def)
  let ?w = "set_rate (snd (window_hit (rate_key ip ep) (w_now w) (of_int W) (w_rate w))) w'"
  obtain r where "fst (handleRateLimitExceeded E C (createErrorResponse E C) rq ip (int ?n) W ?w) = Inr r"
    and "map_of (rs_headers r) ''Retry-After'' = Some (show_int W)"
    using yieldsD [OF exceeded_yields [OF assms(5)]] by blast
  then show ?thesis
    using n by (intro exI [of _ r])
      (auto simp: checkRateLimit_def bnd_run assms(4) rate memory_count_run ret_run
        split: prod.splits)
qed

theorem rate_limit_exact_witness:
  "\<exists>r. fst (checkRateLimit ex_env ex_config (createErrorResponse ex_env ex_config) ex_request
      ''10.0.0.7'' None 2 60
      (ex_world\<lparr>w_rate := run_windows window_hit
          [(''10.0.0.7'', 900, 60), (''10.0.0.7'', 950, 300), (''10.0.0.8'', 960, 5), (''10.0.0.7'', 990, 60)] []\<rparr>))
    = Inr (Some r) \<and> map_of (rs_headers r) ''Retry-After'' = Some (show_int 60)"
proof -
  let ?xs = "[(''10.0.0.7'', 900, 60), (''10.0.0.7'', 950, 300), (''10.0.0.8'', 960, 5), (''10.0.0.7'', 990, 60)]
    :: (string \<times> rat \<times> rat) list"
  let ?w = "ex_world\<lparr>w_rate := run_windows window_hit ?xs []\<rparr>"
  have n: "live_hits ''10.0.0.7'' (1000 - 60) (map (\<lambda>(k, t, V). (k, t)) ?xs) = 2"
    by (simp add: live_hits_def)
  have k: "rate_key ''10.0.0.7'' None = ''10.0.0.7''"
    by (simp add: rate_key_def)
  have now0: "w_now ex_world = 1000" and now: "w_now ?w = 1000" and m: "c_modifier ex_config = None" and r: "e_redis ex_env = None"
    by (simp_all add: ex_simps)
  have "\<exists>r. map_of (rs_headers r) ''Retry-After'' = Some (show_int 60) \<and>
    fst (checkRateLimit ex_env ex_config (createErrorResponse ex_env ex_config) ex_request
      ''10.0.0.7'' None 2 60 ?w) =
      Inr (if 1 + int (live_hits (rate_key ''10.0.0.7'' None) (w_now ?w - of_int 60) (map (\<lambda>(k, t, V). (k, t)) ?xs)) \<le> 2
           then None else Some r)"
    using m r by (intro rate_limit_exact) (simp_all add: now now0 ret_run k)
  then show ?thesis
    unfolding k now using n by auto
qed

text \<open>
  Two tiers that share a key (the route, endpoint and geo tiers all count under
  client and path) disturb each other: a narrow-window tier that runs first discards the
  timestamps the wide tier needs, and the request itself is counted twice, so the wide tier
  sees the hits of the narrow window plus two, never its own window's hits.
\<close>

theorem shared_key_tiers_interfere:
  assumes "sorted (om_get_or [] (w_rate w) key)"
    and "\<forall>t \<in> set (om_get_or [] (w_rate w) key). t \<le> now"
    and "0 < Wn" and "Wn \<le> Ww"
  shows "fst (bnd (getInMemoryRequestCount key now Wn) (\<lambda>_. getInMemoryRequestCount key now Ww) w) =
    Inr (2 + int (length (filter (\<lambda>t. now - of_int Wn < t) (om_get_or [] (w_rate w) key))))"
proof -
  let ?ts = "om_get_or [] (w_rate w) key"
  let ?live = "filter (\<lambda>t. now - of_int Wn < t) ?ts"
  let ?m = "snd (window_hit key now (of_int Wn) (w_rate w))"
  have ts: "om_get_or [] ?m key = ?live @ [now]"
    using plain.times_hit [OF assms(1)] by simp
  have "sorted (om_get_or [] ?m key)"
    using plain.sorted_hit [OF assms(1,2)] by simp
  then have "fst (window_hit key now (of_int Ww) ?m) =
      1 + length (filter (\<lambda>t. now - of_int Ww < t) (?live @ [now]))"
    using plain.count_hit [of ?m key now "of_int Ww"] unfolding ts by blast
  moreover have "filter (\<lambda>t. now - of_int Ww < t) (?live @ [now]) = ?live @ [now]"
  proof -
    have "(of_int Wn :: rat) \<le> of_int Ww" and "(0 :: rat) < of_int Wn"
      using assms(3,4) by simp_all
    then show ?thesis by (intro filter_True) auto
  qed
  ultimately have "fst (window_hit key now (of_int Ww) ?m) = 1 + length (?live @ [now])"
    by (simp only:)
  then show ?thesis
    by (simp add: bnd_run memory_count_run set_rate_def)
qed

theorem shared_key_tiers_interfere_witness:
  "fst (bnd (getInMemoryRequestCount ''10.0.0.7:/items'' 1000 10)
     (\<lambda>_. getInMemoryRequestCount ''10.0.0.7:/items'' 1000 3600)
     (ex_world\<lparr>w_rate := [(''10.0.0.7:/items'', [500, 600, 700, 995])]\<rparr>)) = Inr 3"
  using shared_key_tiers_interfere [of "ex_world\<lparr>w_rate := [(''10.0.0.7:/items'', [500, 600, 700, 995])]\<rparr>"
      "''10.0.0.7:/items''" 1000 10 3600]
  by (simp add: om_get_or_def)

end
