(* ===== verification/Check_Helpers.thy ===== *)
theory Check_Helpers
  imports Request_Scan Cloud_Refresh Violation_Counts Rate_Limit
begin

section \<open>Shared helpers of the checks (core/checks/helpers.ts, core/checks/base.ts)\<close>

text \<open>
  The access, user-agent, credential and referrer tests the checks call, the detection verdict of
  a request, the escalation of an identity violation, and the members every check inherits.
\<close>

subsection \<open>Members of SecurityCheck\<close>

definition action_taken :: "config \<Rightarrow> string" where
  "action_taken C = (if c_passive C then ''logged_only'' else ''request_blocked'')"

text \<open>\<open>return this.createErrorResponse(status, message)\<close>.\<close>

definition deny :: "'r env \<Rightarrow> config \<Rightarrow> int \<Rightarrow> string \<Rightarrow> ('r, response option) eff" where
  "deny E C st msg = bnd (lift_res (createErrorResponse E C st msg)) (\<lambda>r. ret (Some r))"

text \<open>\<open>if (!passiveMode) return this.createErrorResponse(...); return null;\<close>\<close>

definition deny_active :: "'r env \<Rightarrow> config \<Rightarrow> int \<Rightarrow> string \<Rightarrow> ('r, response option) eff" where
  "deny_active E C st msg = (if c_passive C then ret None else deny E C st msg)"

text \<open>The truthiness of a string that may be null.\<close>

definition truthy :: "string option \<Rightarrow> string option" where
  "truthy x = (case x of None \<Rightarrow> None | Some s \<Rightarrow> if s = [] then None else Some s)"

definition route_of :: "'r world \<Rightarrow> route_config option" where
  "route_of w = st_route (w_req w)"

definition suspicious_log ::
  "'r env \<Rightarrow> config \<Rightarrow> request \<Rightarrow> string \<Rightarrow> log_hooks option \<Rightarrow> ('r, unit) eff"
where
  "suspicious_log E C rq reason hooks =
     logActivity E rq LogSuspicious reason (c_passive C) [] (c_log_suspicious C) hooks"

text \<open>\<open>blockHooks()\<close> of the check of this name.\<close>

definition blockHooks :: "config \<Rightarrow> string \<Rightarrow> log_hooks option" where
  "blockHooks C name = Some (name, c_on_block C, Some (c_muted_checks C))"

subsection \<open>Access\<close>

definition checkCountryAccess ::
  "string \<Rightarrow> route_config \<Rightarrow> geo_handler option \<Rightarrow> exn + bool option"
where
  "checkCountryAccess ip rc geo =
     (case geo of
        None \<Rightarrow> Inr None
      | Some g \<Rightarrow>
          (let blocked = (case rc_blocked_countries rc of None \<Rightarrow> [] | Some l \<Rightarrow> l);
               allowed = (case rc_whitelist_countries rc of None \<Rightarrow> [] | Some l \<Rightarrow> l)
           in case (if blocked \<noteq> [] then geo_country g ip else Inr None) of
                Inl e \<Rightarrow> Inl e
              | Inr country \<Rightarrow>
                  if (case truthy country of None \<Rightarrow> False | Some s \<Rightarrow> s \<in> set blocked)
                  then Inr (Some False)
                  else if allowed \<noteq> [] then
                    (case (if country = None then geo_country g ip else Inr country) of
                       Inl e \<Rightarrow> Inl e
                     | Inr c \<Rightarrow> Inr (Some (case truthy c of None \<Rightarrow> False | Some s \<Rightarrow> s \<in> set allowed)))
                  else Inr None))"

definition checkRouteIpAccess :: "'r env \<Rightarrow> string \<Rightarrow> route_config \<Rightarrow> bool option" where
  "checkRouteIpAccess E ip rc =
     (let black = (case rc_ip_blacklist rc of None \<Rightarrow> [] | Some l \<Rightarrow> l);
          white = (case rc_ip_whitelist rc of None \<Rightarrow> [] | Some l \<Rightarrow> l);
          listed = (if white = [] then None else isIpInWhitelist E ip white)
      in if black \<noteq> [] \<and> isIpInBlacklist E ip black then Some False
         else if listed \<noteq> None then listed
         else (case checkCountryAccess ip rc (e_geo E) of
                 Inl _ \<Rightarrow> Some False
               | Inr r \<Rightarrow> r))"

text \<open>\<open>new RegExp(pattern, 'i').test(userAgent)\<close>: \<open>None\<close> is the SyntaxError of a bad pattern.\<close>

fun ua_matches :: "'r env \<Rightarrow> string \<Rightarrow> string list \<Rightarrow> exn + bool" where
  "ua_matches E ua [] = Inr False"
| "ua_matches E ua (p # ps) =
     (case e_regex E p ua of
        None \<Rightarrow> Inl (OtherErr ''SyntaxError'' (''Invalid regular expression: '' @ p))
      | Some hit \<Rightarrow> if hit then Inr True else ua_matches E ua ps)"

definition checkUserAgentAllowed :: "'r env \<Rightarrow> string \<Rightarrow> route_config option \<Rightarrow> config \<Rightarrow> exn + bool" where
  "checkUserAgentAllowed E ua rc C =
     (case ua_matches E ua (case rc of None \<Rightarrow> [] | Some r \<Rightarrow> rc_blocked_uas r) of
        Inl e \<Rightarrow> Inl e
      | Inr True \<Rightarrow> Inr False
      | Inr False \<Rightarrow>
          (case ua_matches E ua (c_blocked_uas C) of Inl e \<Rightarrow> Inl e | Inr hit \<Rightarrow> Inr (\<not> hit)))"

subsection \<open>Credentials and referrers\<close>

definition validateAuthHeader :: "string \<Rightarrow> string \<Rightarrow> bool \<times> string" where
  "validateAuthHeader header authType =
     (if authType = ''bearer'' then
        (if starts_with ''Bearer '' header then (True, []) else (False, ''Missing or invalid Bearer token''))
      else if authType = ''basic'' then
        (if starts_with ''Basic '' header then (True, [])
         else (False, ''Missing or invalid Basic authentication''))
      else if header = [] then (False, ''Missing '' @ authType @ '' authentication'')
      else (True, []))"

definition extractCredential :: "string \<Rightarrow> string \<Rightarrow> string option \<times> string" where
  "extractCredential header authType =
     (if authType = ''bearer'' then
        (if starts_with ''Bearer '' header then (Some (drop (length ''Bearer '') header), [])
         else (None, ''Missing or invalid Bearer token''))
      else if authType = ''basic'' then
        (if starts_with ''Basic '' header then (Some (drop (length ''Basic '') header), [])
         else (None, ''Missing or invalid Basic authentication''))
      else if header = [] then (None, ''Missing '' @ authType @ '' authentication'')
      else (Some header, []))"

definition isReferrerDomainAllowed :: "'r env \<Rightarrow> string \<Rightarrow> string list \<Rightarrow> bool" where
  "isReferrerDomainAllowed E referrer allowed =
     (case e_url_host E referrer of
        None \<Rightarrow> False
      | Some h \<Rightarrow>
          (let domain = to_lower h
           in list_ex (\<lambda>a. domain = to_lower a \<or> ends_with (''.'' @ to_lower a) domain) allowed))"

subsection \<open>Detection and escalation\<close>

text \<open>
  The exclusions of the standalone entry point \<open>detectPenetrationAttempt\<close>: those of the schema's
  defaults, not of the running configuration.
\<close>

definition default_exclusions :: exclusions where
  "default_exclusions = \<lparr>de_params = [], de_body = [], de_headers = EXCLUDED_HEADERS,
     de_enabled = Some ALL_DETECTION_CATEGORIES, de_scan_body = True\<rparr>"

definition detectPenetrationAttempt :: "'r env \<Rightarrow> request \<Rightarrow> bool \<times> string \<times> string list" where
  "detectPenetrationAttempt E rq = scanRequestWithManager E (e_detect_default E) rq default_exclusions"

definition detectPenetrationPatterns ::
  "'r env \<Rightarrow> config \<Rightarrow> request \<Rightarrow> route_config option \<Rightarrow> detector option \<Rightarrow> bool \<times> string \<times> string list"
where
  "detectPenetrationPatterns E C rq route manager =
     (let enabled = (case route of None \<Rightarrow> c_enable_pen C | Some r \<Rightarrow> rc_suspicious r)
      in if enabled \<and> \<not> shouldBypassCheck ''penetration'' route then
           (case manager of
              Some D \<Rightarrow> scanRequestWithManager E D rq (resolveDetectionExclusions (Some C) route)
            | None \<Rightarrow> detectPenetrationAttempt E rq)
         else if (case route of None \<Rightarrow> False | Some r \<Rightarrow> \<not> rc_suspicious r) \<and> c_enable_pen C
         then (False, ''disabled_by_decorator'', [])
         else (False, ''not_enabled'', []))"

definition escalation_report ::
  "'r env \<Rightarrow> config \<Rightarrow> request \<Rightarrow> string \<Rightarrow> string \<Rightarrow> string \<Rightarrow> bool \<Rightarrow> ('r, unit) eff"
where
  "escalation_report E C rq ip category trigger banned =
     bnd (gets (\<lambda>w. totalSuspiciousCount (w_sus w) ip)) (\<lambda>n.
       sendMiddlewareEvent E C ''penetration_attempt'' rq (if banned then ''banned'' else ''tracked'')
         (''Identity violation escalated: '' @ trigger)
         [(''requestCount'', MNum n), (''triggerInfo'', MStr trigger),
          (''violationCategory'', MStr category)])"

text \<open>No manager is passed to \<open>detectPenetrationPatterns\<close>: the default engine scans.\<close>

definition escalate_body ::
  "'r env \<Rightarrow> config \<Rightarrow> request \<Rightarrow> string \<Rightarrow> string \<Rightarrow> string \<Rightarrow> ('r, unit) eff"
where
  "escalate_body E C rq ip category trigger =
     bnd (gets route_of) (\<lambda>route.
       case detectPenetrationPatterns E C rq route None of
         (isThreat, scanTrigger, cats) \<Rightarrow>
           if \<not> isThreat \<or> scanTrigger = ''disabled_by_decorator'' then ret ()
           else
             thn (incrementSuspiciousCounts ip (resolved_categories cats))
               (bnd (tryThresholdBan E C rq ip trigger (resolved_categories cats) ''penetration_attempt'')
                  (escalation_report E C rq ip category trigger)))"

definition escalateIdentityViolation ::
  "'r env \<Rightarrow> config \<Rightarrow> request \<Rightarrow> string \<Rightarrow> string \<Rightarrow> string \<Rightarrow> ('r, unit) eff"
where
  "escalateIdentityViolation E C rq ip category trigger =
     (if ip = [] then ret ()
      else
        bnd (gets w_req) (\<lambda>rs.
          if st_whitelisted rs then ret ()
          else
            try_catch (escalate_body E C rq ip category trigger)
              (\<lambda>e. thn (log_line LogError (''escalateIdentityViolation failed for '' @ ip @ '': '' @ exn_str e))
                (try_catch (emitBanEscalationFailed E C rq ip e)
                  (\<lambda>e'. log_line LogError
                     (''Failed to report ban escalation failure for '' @ ip @ '': '' @ exn_str e'))))))"

subsection \<open>What the helpers keep\<close>

lemma calm_emit_failed [calm_intros]: "never_raises (emitBanEscalationFailed E C rq ip e)"
  unfolding emitBanEscalationFailed_def by (intro calm_intros)

lemma keeps_emit_failed [report_intros]: "unaffected P \<Longrightarrow> keeps P (emitBanEscalationFailed E C rq ip e)"
  unfolding emitBanEscalationFailed_def by (intro report_intros)

lemma calm_suspicious [calm_intros]: "never_raises (suspicious_log E C rq reason hooks)"
  unfolding suspicious_log_def by (intro calm_intros)

lemma keeps_suspicious [report_intros]: "unaffected P \<Longrightarrow> keeps P (suspicious_log E C rq reason hooks)"
  unfolding suspicious_log_def by (intro report_intros)

lemma keeps_deny [keeps_intros]: "keeps P (deny E C st msg)"
  unfolding deny_def by (intro keeps_intros)

lemma keeps_deny_active [keeps_intros]: "keeps P (deny_active E C st msg)"
  unfolding deny_active_def by (intro keeps_intros)

lemma deny_passive [simp]: "c_passive C \<Longrightarrow> deny_active E C st msg = ret None"
  by (simp add: deny_active_def)

text \<open>An escalation never takes the request down, whatever fails in it.\<close>

lemma calm_escalate [calm_intros]: "never_raises (escalateIdentityViolation E C rq ip c t)"
  unfolding escalateIdentityViolation_def by (intro calm_intros)

lemma keeps_escalate:
  assumes "offline P" and "\<And>w m. P w \<Longrightarrow> P (set_bans m w)" and "\<And>w m. P w \<Longrightarrow> P (set_sus m w)"
  shows "keeps P (escalateIdentityViolation E C rq ip c t)"
proof -
  have "keeps P (escalation_report E C rq ip c t b)" for b
    unfolding escalation_report_def by (intro keeps_intros offline_reports assms(1))
  then have "keeps P (escalate_body E C rq ip c t)"
    unfolding escalate_body_def
    by (intro keeps_intros keeps_increment keeps_tryThresholdBan assms)
  then show ?thesis
    unfolding escalateIdentityViolation_def
    by (intro keeps_intros offline_reports keeps_emit_failed offline_unaffected assms(1))
qed

subsection \<open>Refusals\<close>

text \<open>\<open>refuses m\<close>: whatever happens, \<open>m\<close> does not let the request go on. \<open>waves m\<close>: it never blocks.\<close>

abbreviation refuses :: "('r, response option) eff \<Rightarrow> bool" where
  "refuses m \<equiv> returns (\<lambda>r. r \<noteq> None) m"

abbreviation waves :: "('r, response option) eff \<Rightarrow> bool" where
  "waves m \<equiv> returns (\<lambda>r. r = None) m"

definition passes :: "('r, response option) eff \<Rightarrow> 'r world \<Rightarrow> bool" where
  "passes m w \<longleftrightarrow> fst (m w) = Inr None"

lemma refuses_not_passes: "refuses m \<Longrightarrow> \<not> passes m w"
  by (auto simp: returns_def passes_def)

lemma passes_ret [simp]: "passes (ret x) w \<longleftrightarrow> x = None"
  by (simp add: passes_def ret_run)

lemma passes_gets [simp]: "passes (bnd (gets f) g) w \<longleftrightarrow> passes (g (f w)) w"
  by (simp add: passes_def bnd_run)

lemma passes_modify [simp]: "passes (thn (modify f) m) w \<longleftrightarrow> passes m (f w)"
  by (simp add: passes_def thn_run)

lemma refuses_deny [returns_intros]: "refuses (deny E C st msg)"
  unfolding deny_def by (intro returns_intros) simp

lemma refuses_deny_active [returns_intros]: "\<not> c_passive C \<Longrightarrow> refuses (deny_active E C st msg)"
  unfolding deny_active_def if_not_P by (simp only: if_False refuses_deny)

lemma waves_deny_active [returns_intros]: "c_passive C \<Longrightarrow> waves (deny_active E C st msg)"
  by (simp add: returns_ret)

text \<open>A step and, when it passes, the next.\<close>

lemma passes_seq:
  "passes (bnd m (\<lambda>r. case r of Some x \<Rightarrow> ret (Some x) | None \<Rightarrow> k)) w \<longleftrightarrow>
    passes m w \<and> passes k (snd (m w))"
  by (auto simp: passes_def bnd_run ret_run split: prod.splits sum.splits option.splits)

end
