(* ===== verification/Request_Checks.thy ===== *)
theory Request_Checks
  imports Check_Helpers
begin

section \<open>Checks on the request itself (core/checks/implementations)\<close>

text \<open>
  The checks that look at the request and its route only: route resolution, emergency mode, HTTPS,
  logging, size and content type, required headers, authentication, referrer, validators, time
  window, the custom check. A check returns \<open>None\<close> to let the request go on, or its response.
\<close>

subsection \<open>route-config.ts\<close>

definition UNRESOLVED_ROUTE_REASON :: string where
  "UNRESOLVED_ROUTE_REASON = ''Route resolution failed; per-route decorator config could not be applied''"

definition handleUnresolvedRoute :: "'r env \<Rightarrow> config \<Rightarrow> request \<Rightarrow> ('r, response option) eff" where
  "handleUnresolvedRoute E C rq =
     thn (log_line LogWarn (''Suspicious request from '' @ host_or_unknown rq @ '': '' @ rq_method rq
            @ '' '' @ rq_path rq @ '' - '' @ UNRESOLVED_ROUTE_REASON))
    (thn (sendMiddlewareEvent E C ''route_unresolved'' rq (action_taken C) UNRESOLVED_ROUTE_REASON [])
    (thn (fire_block_hook E (c_on_block C) rq ''route_config'' UNRESOLVED_ROUTE_REASON [] (c_passive C)
            (if c_passive C then None else Some 500))
      (deny_active E C 500 ''Route resolution failed'')))"

definition store_route :: "route_config option \<Rightarrow> ('r, unit) eff" where
  "store_route rc = (case rc of None \<Rightarrow> ret ()
     | Some r \<Rightarrow> modify (\<lambda>w. w\<lparr>w_req := (w_req w)\<lparr>st_route := Some r\<rparr>\<rparr>))"

definition RouteConfigCheck :: "'r env \<Rightarrow> config \<Rightarrow> resolver \<Rightarrow> request \<Rightarrow> ('r, response option) eff" where
  "RouteConfigCheck E C R rq =
     bnd (getRouteConfig R rq) (\<lambda>rc.
       thn (store_route rc)
      (bnd (gets w_req) (\<lambda>rs.
         if c_route_strict C \<and> st_unresolved rs then handleUnresolvedRoute E C rq else ret None)))"

subsection \<open>emergency-mode.ts\<close>

definition EmergencyModeCheck :: "'r env \<Rightarrow> config \<Rightarrow> request \<Rightarrow> ('r, response option) eff" where
  "EmergencyModeCheck E C rq =
     (let ip = (case rq_host rq of None \<Rightarrow> [] | Some h \<Rightarrow> h)
      in if \<not> c_emergency C then ret None
         else if ip \<in> set (c_emergency_whitelist C) then ret None
         else
           thn (log_line LogInfo (''[EMERGENCY MODE] Access denied for IP '' @ ip))
          (thn (sendMiddlewareEvent E C ''emergency_mode_block'' rq (action_taken C)
                  (''[EMERGENCY MODE] IP '' @ ip @ '' not in whitelist'')
                  [(''emergencyWhitelistCount'', MNum (int (length (c_emergency_whitelist C)))),
                   (''emergencyActive'', MBool True)])
            (deny_active E C 503 ''Service temporarily unavailable'')))"

subsection \<open>https-enforcement.ts\<close>

definition HttpsEnforcementCheck :: "'r env \<Rightarrow> config \<Rightarrow> request \<Rightarrow> ('r, response option) eff" where
  "HttpsEnforcementCheck E C rq =
     bnd (gets route_of) (\<lambda>route.
       if \<not> (case route of Some r \<Rightarrow> rc_require_https r | None \<Rightarrow> c_enforce_https C) then ret None
       else if isRequestHttps E C rq then ret None
       else
         thn (sendHttpsViolationEvent E C rq
                (case route of Some r \<Rightarrow> rc_require_https r | None \<Rightarrow> False))
           (if c_passive C
            then thn (log_line LogInfo (''[PASSIVE] Would redirect to HTTPS: '' @ rq_path rq)) (ret None)
            else bnd (lift_res (createHttpsRedirect E C rq)) (\<lambda>r. ret (Some r))))"

subsection \<open>request-logging.ts\<close>

definition RequestLoggingCheck :: "'r env \<Rightarrow> config \<Rightarrow> request \<Rightarrow> ('r, response option) eff" where
  "RequestLoggingCheck E C rq =
     (case c_log_request C of
        None \<Rightarrow> ret None
      | Some l \<Rightarrow>
          thn (logActivity E rq LogRequest [] False [] (Some l) None)
         (thn (sendMiddlewareEvent E C ''request_logged'' rq ''logged'' ''Request logged'' [])
           (ret None)))"

subsection \<open>request-size-content.ts\<close>

text \<open>A \<open>NaN\<close> content length is not \<open>\<le>\<close> the limit, so it is over it.\<close>

definition content_length :: "request \<Rightarrow> int option" where
  "content_length rq = parseInt10 (header_or ''0'' rq ''content-length'')"

definition number_str :: "int option \<Rightarrow> string" where
  "number_str n = (case n of None \<Rightarrow> ''NaN'' | Some i \<Rightarrow> show_int i)"

definition checkRequestSizeLimit ::
  "'r env \<Rightarrow> config \<Rightarrow> request \<Rightarrow> route_config \<Rightarrow> ('r, response option) eff"
where
  "checkRequestSizeLimit E C rq rc =
     (case rc_max_size rc of
        None \<Rightarrow> ret None
      | Some limit \<Rightarrow>
          if (case content_length rq of None \<Rightarrow> False | Some n \<Rightarrow> n \<le> limit) then ret None
          else
            thn (sendMiddlewareEvent E C ''content_filtered'' rq (action_taken C)
                   (''Request size '' @ number_str (content_length rq) @ '' exceeds limit: '' @ show_int limit)
                   [(''decoratorType'', MStr ''content_filtering''), (''violationType'', MStr ''max_request_size'')])
              (if c_passive C
               then thn (log_line LogInfo (''[PASSIVE] Request too large: ''
                      @ number_str (content_length rq) @ '' > '' @ show_int limit)) (ret None)
               else deny E C 413 ''Request entity too large''))"

definition checkContentTypeAllowed ::
  "'r env \<Rightarrow> config \<Rightarrow> request \<Rightarrow> route_config \<Rightarrow> ('r, response option) eff"
where
  "checkContentTypeAllowed E C rq rc =
     (case rc_content_types rc of
        None \<Rightarrow> ret None
      | Some types \<Rightarrow>
          (let ct = header_or [] rq ''content-type''
           in if ct \<noteq> [] \<and> list_ex (\<lambda>t. str_includes t ct) types then ret None
              else
                thn (sendMiddlewareEvent E C ''content_filtered'' rq (action_taken C)
                       (''Content type not in allowed types: '' @ join_with '', '' types)
                       [(''decoratorType'', MStr ''content_filtering''), (''violationType'', MStr ''content_type'')])
                  (if c_passive C
                   then thn (log_line LogInfo (''[PASSIVE] Invalid content type: '' @ e_redact_header E ct))
                          (ret None)
                   else deny E C 415 ''Unsupported media type'')))"

definition RequestSizeContentCheck :: "'r env \<Rightarrow> config \<Rightarrow> request \<Rightarrow> ('r, response option) eff" where
  "RequestSizeContentCheck E C rq =
     bnd (gets route_of) (\<lambda>route.
       case route of
         None \<Rightarrow> ret None
       | Some rc \<Rightarrow>
           bnd (checkRequestSizeLimit E C rq rc) (\<lambda>r.
             case r of Some x \<Rightarrow> ret (Some x) | None \<Rightarrow> checkContentTypeAllowed E C rq rc))"

subsection \<open>required-headers.ts\<close>

definition classifyHeaderViolation :: "string \<Rightarrow> string \<times> string" where
  "classifyHeaderViolation header =
     (let h = to_lower header
      in if h = ''x-api-key'' then (''authentication'', ''api_key_required'')
         else if h = ''authorization'' then (''authentication'', ''required_header'')
         else (''advanced'', ''required_header''))"

definition reportHeaderViolation ::
  "'r env \<Rightarrow> config \<Rightarrow> request \<Rightarrow> string \<Rightarrow> string \<Rightarrow> string \<Rightarrow> ('r, response option) eff"
where
  "reportHeaderViolation E C rq header reason field =
     thn (suspicious_log E C rq reason None)
    (thn (sendMiddlewareEvent E C ''decorator_violation'' rq (action_taken C) reason
            [(''decoratorType'', MStr (fst (classifyHeaderViolation header))),
             (''violationType'', MStr (snd (classifyHeaderViolation header))), (field, MStr header)])
      (deny_active E C 400 reason))"

fun check_headers ::
  "'r env \<Rightarrow> config \<Rightarrow> request \<Rightarrow> (string \<times> string) list \<Rightarrow> ('r, response option) eff"
where
  "check_headers E C rq [] = ret None"
| "check_headers E C rq ((header, expected) # rest) =
     (case truthy (map_of (rq_headers rq) (to_lower header)) of
        None \<Rightarrow>
          reportHeaderViolation E C rq header (''Missing required header: '' @ header) ''missing_header''
      | Some actual \<Rightarrow>
          if expected \<noteq> ''required'' \<and> actual \<noteq> expected then
            reportHeaderViolation E C rq header
              (''Header '' @ quoted header @ '' does not match the required value'') ''mismatched_header''
          else check_headers E C rq rest)"

definition RequiredHeadersCheck :: "'r env \<Rightarrow> config \<Rightarrow> request \<Rightarrow> ('r, response option) eff" where
  "RequiredHeadersCheck E C rq =
     bnd (gets route_of) (\<lambda>route.
       case route of None \<Rightarrow> ret None | Some rc \<Rightarrow> check_headers E C rq (rc_required_headers rc))"

subsection \<open>authentication.ts\<close>

definition handleAuthFailure ::
  "'r env \<Rightarrow> config \<Rightarrow> request \<Rightarrow> string \<Rightarrow> route_config \<Rightarrow> string \<Rightarrow> ('r, response option) eff"
where
  "handleAuthFailure E C rq reason rc violation =
     thn (suspicious_log E C rq (''Authentication failure: '' @ reason) None)
    (thn (sendMiddlewareEvent E C ''decorator_violation'' rq (action_taken C) reason
            [(''decoratorType'', MStr ''authentication''), (''violationType'', MStr violation),
             (''authType'', MStr (case rc_auth_required rc of
                Some a \<Rightarrow> a
              | None \<Rightarrow> (case rc_auth_header_required rc of Some a \<Rightarrow> a | None \<Rightarrow> ''api_key'')))])
      (deny_active E C 401 ''Authentication required''))"

definition checkPresence ::
  "'r env \<Rightarrow> config \<Rightarrow> request \<Rightarrow> route_config \<Rightarrow> string \<Rightarrow> ('r, response option) eff"
where
  "checkPresence E C rq rc scheme =
     (case extractCredential (header_or [] rq ''authorization'') scheme of
        (None, reason) \<Rightarrow> handleAuthFailure E C rq reason rc ''authorization_header''
      | (Some _, _) \<Rightarrow> ret None)"

text \<open>\<open>a ?? b\<close> on verifiers.\<close>

definition or_verifier :: "verifier option \<Rightarrow> verifier option \<Rightarrow> verifier option" where
  "or_verifier a b = (case a of Some v \<Rightarrow> Some v | None \<Rightarrow> b)"

text \<open>The credential of the route, and the report with the verifier it leaves when there is none.\<close>

definition credential_of :: "request \<Rightarrow> route_config \<Rightarrow> string option \<times> string" where
  "credential_of rq rc =
     (case truthy (rc_auth_required rc) of
        Some scheme \<Rightarrow> extractCredential (header_or [] rq ''authorization'') scheme
      | None \<Rightarrow>
          (case truthy (map_of (rq_headers rq)
                  (to_lower (case rc_api_key_header rc of None \<Rightarrow> [] | Some h \<Rightarrow> h))) of
             None \<Rightarrow> (None, ''Missing API key'')
           | Some c \<Rightarrow> (Some c, [])))"

definition verifier_of :: "config \<Rightarrow> route_config \<Rightarrow> verifier option" where
  "verifier_of C rc =
     (case truthy (rc_auth_required rc) of
        Some _ \<Rightarrow> or_verifier (rc_auth_verifier rc) (c_auth_verifier C)
      | None \<Rightarrow> or_verifier (rc_api_key_verifier rc) (c_auth_verifier C))"

definition resolveCredential ::
  "'r env \<Rightarrow> config \<Rightarrow> request \<Rightarrow> route_config
     \<Rightarrow> ('r, response option \<times> verifier option \<times> string) eff"
where
  "resolveCredential E C rq rc =
     (case credential_of rq rc of
        (None, reason) \<Rightarrow>
          bnd (handleAuthFailure E C rq reason rc ''require_auth'') (\<lambda>r. ret (r, None, []))
      | (Some c, _) \<Rightarrow> ret (None, verifier_of C rc, c))"

definition verify_credential ::
  "'r env \<Rightarrow> config \<Rightarrow> request \<Rightarrow> route_config \<Rightarrow> verifier \<Rightarrow> string \<Rightarrow> ('r, response option) eff"
where
  "verify_credential E C rq rc v credential =
     (case v rq credential of
        Inl _ \<Rightarrow> handleAuthFailure E C rq ''Authentication error'' rc ''require_auth''
      | Inr result \<Rightarrow>
          (case truthy result of
             None \<Rightarrow> handleAuthFailure E C rq ''Authentication failed'' rc ''require_auth''
           | Some who \<Rightarrow>
               thn (modify (\<lambda>w. w\<lparr>w_req := (w_req w)\<lparr>st_principal := Some who\<rparr>\<rparr>)) (ret None)))"

definition authenticate ::
  "'r env \<Rightarrow> config \<Rightarrow> request \<Rightarrow> route_config \<Rightarrow> ('r, response option) eff"
where
  "authenticate E C rq rc =
     bnd (resolveCredential E C rq rc) (\<lambda>(failure, verifier, credential).
       case failure of
         Some r \<Rightarrow> ret (Some r)
       | None \<Rightarrow>
           (case verifier of
              None \<Rightarrow> handleAuthFailure E C rq ''No auth verifier configured'' rc ''require_auth''
            | Some v \<Rightarrow> verify_credential E C rq rc v credential))"

definition AuthenticationCheck :: "'r env \<Rightarrow> config \<Rightarrow> request \<Rightarrow> ('r, response option) eff" where
  "AuthenticationCheck E C rq =
     bnd (gets route_of) (\<lambda>route.
       case route of
         None \<Rightarrow> ret None
       | Some rc \<Rightarrow>
           (case truthy (rc_auth_header_required rc) of
              Some scheme \<Rightarrow> checkPresence E C rq rc scheme
            | None \<Rightarrow>
                if truthy (rc_auth_required rc) = None \<and> \<not> rc_api_key_required rc then ret None
                else authenticate E C rq rc))"

subsection \<open>referrer.ts, custom-validators.ts, time-window.ts, custom-request.ts\<close>

definition ReferrerCheck :: "'r env \<Rightarrow> config \<Rightarrow> request \<Rightarrow> ('r, response option) eff" where
  "ReferrerCheck E C rq =
     bnd (gets route_of) (\<lambda>route.
       let allowed = (case route of None \<Rightarrow> [] | Some rc \<Rightarrow> (case rc_referrers rc of None \<Rightarrow> [] | Some l \<Rightarrow> l));
           referrer = (case map_of (rq_headers rq) ''referer'' of
                         Some r \<Rightarrow> r | None \<Rightarrow> header_or [] rq ''referrer'')
       in if allowed = [] then ret None
          else if referrer = [] \<or> \<not> isReferrerDomainAllowed E referrer allowed then
            (if c_passive C
             then thn (log_line LogInfo (''[PASSIVE] Invalid referrer: '' @ referrer)) (ret None)
             else deny E C 403 ''Invalid referrer'')
          else ret None)"

definition CustomValidatorsCheck :: "request \<Rightarrow> ('r, response option) eff" where
  "CustomValidatorsCheck rq =
     bnd (gets route_of) (\<lambda>route.
       case route of
         None \<Rightarrow> ret None
       | Some rc \<Rightarrow> first_some (\<lambda>v. lift_res (v rq)) (rc_custom_validators rc))"

definition TimeWindowCheck :: "'r env \<Rightarrow> config \<Rightarrow> request \<Rightarrow> ('r, response option) eff" where
  "TimeWindowCheck E C rq =
     bnd (gets route_of) (\<lambda>route.
       case (case route of None \<Rightarrow> None | Some rc \<Rightarrow> rc_time_window rc) of
         None \<Rightarrow> ret None
       | Some tw \<Rightarrow>
           bnd (gets w_now) (\<lambda>now.
             if checkTimeWindow E tw now then ret None
             else if c_passive C
             then thn (log_line LogInfo ''[PASSIVE] Request outside time window'') (ret None)
             else deny E C 403 ''Access denied: outside allowed time window''))"

definition CustomRequestCheck :: "'r env \<Rightarrow> config \<Rightarrow> request \<Rightarrow> ('r, response option) eff" where
  "CustomRequestCheck E C rq =
     (case c_custom_check C of
        None \<Rightarrow> ret None
      | Some (name, f) \<Rightarrow>
          bnd (lift_res (f rq)) (\<lambda>r.
            case r of
              None \<Rightarrow> ret None
            | Some resp \<Rightarrow>
                thn (sendMiddlewareEvent E C ''custom_request_check'' rq (action_taken C)
                       ''Custom request check returned blocking response''
                       [(''responseStatus'', MNum (rs_status resp)),
                        (''checkFunction'', MStr (if name = [] then ''anonymous'' else name))])
                  (ret (Some resp))))"

subsection \<open>When a check refuses, and when it cannot\<close>

lemma refuses_auth_failure [returns_intros]:
  "\<not> c_passive C \<Longrightarrow> refuses (handleAuthFailure E C rq reason rc v)"
  unfolding handleAuthFailure_def by (intro returns_intros)

lemma waves_auth_failure [returns_intros]: "c_passive C \<Longrightarrow> waves (handleAuthFailure E C rq reason rc v)"
  unfolding handleAuthFailure_def by (intro returns_intros)

lemma refuses_header [returns_intros]:
  "\<not> c_passive C \<Longrightarrow> refuses (reportHeaderViolation E C rq h reason f)"
  unfolding reportHeaderViolation_def by (intro returns_intros)

lemma waves_header [returns_intros]: "c_passive C \<Longrightarrow> waves (reportHeaderViolation E C rq h reason f)"
  unfolding reportHeaderViolation_def by (intro returns_intros)

lemma waves_headers: "c_passive C \<Longrightarrow> waves (check_headers E C rq hs)"
  by (induction hs) (auto intro!: returns_intros)

subsection \<open>Properties\<close>

definition header_satisfied :: "request \<Rightarrow> string \<times> string \<Rightarrow> bool" where
  "header_satisfied rq he \<longleftrightarrow>
     (case truthy (map_of (rq_headers rq) (to_lower (fst he))) of
        None \<Rightarrow> False | Some v \<Rightarrow> snd he = ''required'' \<or> v = snd he)"

lemma check_headers_passes:
  assumes "\<not> c_passive C"
  shows "passes (check_headers E C rq hs) w \<longleftrightarrow> list_all (header_satisfied rq) hs"
proof (induction hs)
  case (Cons he hs)
  have "\<not> passes (reportHeaderViolation E C rq h r f) w" for h r f
    by (rule refuses_not_passes) (rule refuses_header [OF assms])
  with Cons show ?case
    by (cases he) (auto simp: header_satisfied_def split: option.splits)
qed simp

text \<open>
  In active mode the required-headers check lets a request of a route through exactly when every
  required header is present, not empty and, unless the route asks for presence only, equal to the
  required value.
\<close>

theorem required_headers_exact:
  assumes "route_of w = Some rc" and "\<not> c_passive C"
  shows "passes (RequiredHeadersCheck E C rq) w \<longleftrightarrow>
    list_all (header_satisfied rq) (rc_required_headers rc)"
  using assms by (simp add: RequiredHeadersCheck_def check_headers_passes)

definition ex_route_world :: "route_config \<Rightarrow> unit world" where
  "ex_route_world rc = ex_world\<lparr>w_req := ex_state\<lparr>st_route := Some rc\<rparr>\<rparr>"

lemma route_of_ex [simp]: "route_of (ex_route_world rc) = Some rc"
  by (simp add: ex_route_world_def route_of_def)

theorem required_headers_exact_witness:
  "\<not> passes (RequiredHeadersCheck ex_env ex_config (ex_request\<lparr>rq_headers := [(''x-tenant'', ''b'')]\<rparr>))
     (ex_route_world (default_route\<lparr>rc_required_headers := [(''X-Tenant'', ''a'')]\<rparr>))"
  using required_headers_exact [of "ex_route_world (default_route\<lparr>rc_required_headers := [(''X-Tenant'', ''a'')]\<rparr>)"
      "default_route\<lparr>rc_required_headers := [(''X-Tenant'', ''a'')]\<rparr>" ex_config ex_env
      "ex_request\<lparr>rq_headers := [(''x-tenant'', ''b'')]\<rparr>"]
  by (simp add: header_satisfied_def to_lower_def lower_char_def truthy_def ex_config_def)

definition accepts :: "config \<Rightarrow> request \<Rightarrow> route_config \<Rightarrow> string option" where
  "accepts C rq rc =
     (case (fst (credential_of rq rc), verifier_of C rc) of
        (Some c, Some v) \<Rightarrow> (case v rq c of Inl _ \<Rightarrow> None | Inr result \<Rightarrow> truthy result)
      | _ \<Rightarrow> None)"

lemma refuses_first:
  assumes "refuses m"
  shows "\<not> passes (bnd m (\<lambda>r. case r of Some y \<Rightarrow> ret (Some y) | None \<Rightarrow> k)) w"
  using refuses_not_passes [OF assms] by (simp add: passes_seq)

text \<open>
  C34: in active mode, on a route that asks for authentication, the check lets the request go on
  exactly when the credential is there and the route's verifier (else the global one) accepts it; a
  verifier that throws, a false verdict, or no verifier at all refuses. The accepted principal is stored.
\<close>

theorem authentication_exact:
  assumes "route_of w = Some rc" and "\<not> c_passive C"
    and "truthy (rc_auth_header_required rc) = None"
    and "truthy (rc_auth_required rc) \<noteq> None \<or> rc_api_key_required rc"
  shows "(passes (AuthenticationCheck E C rq) w \<longleftrightarrow> accepts C rq rc \<noteq> None) \<and>
    (accepts C rq rc = None \<or>
     st_principal (w_req (snd (AuthenticationCheck E C rq w))) = accepts C rq rc)"
proof -
  have run: "AuthenticationCheck E C rq w = authenticate E C rq rc w"
    using assms(1,3,4) by (auto simp: AuthenticationCheck_def bnd_run)
  have no: "\<not> passes (handleAuthFailure E C rq r rc v) w" for r v
    by (rule refuses_not_passes) (rule refuses_auth_failure [OF assms(2)])
  show ?thesis
  proof (cases "credential_of rq rc")
    case (Pair c reason)
    show ?thesis
    proof (cases c)
      case None
      have "\<not> passes (authenticate E C rq rc) w"
        using Pair None
        by (simp add: authenticate_def resolveCredential_def bnd_assoc
            refuses_first [OF refuses_auth_failure [OF assms(2)]] cong: option.case_cong)
      then show ?thesis
        using Pair None run by (simp add: accepts_def passes_def)
    next
      case (Some cred)
      then have "authenticate E C rq rc = (case verifier_of C rc of
          None \<Rightarrow> handleAuthFailure E C rq ''No auth verifier configured'' rc ''require_auth''
        | Some v \<Rightarrow> verify_credential E C rq rc v cred)"
        using Pair by (simp add: authenticate_def resolveCredential_def)
      then show ?thesis
        using Pair Some run no
        by (auto simp: accepts_def verify_credential_def passes_def thn_run ret_run
            split: option.splits sum.splits)
    qed
  qed
qed

definition ex_verifier :: verifier where
  "ex_verifier rq c = (if c = ''k1'' then Inr (Some ''alice'') else Inr None)"

definition ex_auth_route :: route_config where
  "ex_auth_route = default_route\<lparr>rc_auth_required := Some ''bearer'', rc_auth_verifier := Some ex_verifier\<rparr>"

theorem authentication_exact_witness:
  "passes (AuthenticationCheck ex_env ex_config
     (ex_request\<lparr>rq_headers := [(''authorization'', ''Bearer k1'')]\<rparr>)) (ex_route_world ex_auth_route)"
proof -
  have "truthy (rc_auth_header_required ex_auth_route) = None"
    and "truthy (rc_auth_required ex_auth_route) \<noteq> None"
    and "accepts ex_config (ex_request\<lparr>rq_headers := [(''authorization'', ''Bearer k1'')]\<rparr>) ex_auth_route
      = Some ''alice''"
    by (simp_all add: ex_auth_route_def default_route_def truthy_def accepts_def credential_of_def
        extractCredential_def header_or_def om_get_or_def starts_with_def verifier_of_def
        or_verifier_def ex_verifier_def)
  moreover have "\<not> c_passive ex_config" by (simp add: ex_config_def)
  ultimately show ?thesis
    using authentication_exact [OF route_of_ex, of ex_config ex_auth_route ex_env
        "ex_request\<lparr>rq_headers := [(''authorization'', ''Bearer k1'')]\<rparr>"]
    by simp
qed

text \<open>
  In passive mode a request without a credential is reported twice: after the missing
  credential, a second failure says that no verifier is configured, although one may be.
\<close>

theorem passive_auth_reported_twice:
  assumes "c_passive C" and "e_agent E = None" and "c_log_suspicious C = Some level"
    and "credential_of rq rc = (None, reason)"
  shows "w_log (snd (authenticate E C rq rc w)) = w_log w @
    map (\<lambda>why. (level_method level, activity_message rq LogSuspicious (''Authentication failure: '' @ why) True []))
      [reason, ''No auth verifier configured'']"
  using assms
  by (simp add: authenticate_def resolveCredential_def handleAuthFailure_def suspicious_log_def
      logActivity_def log_hook_part_def sendMiddlewareEvent_def bnd_run thn_run ret_run log_line_def)

theorem passive_auth_reported_twice_witness:
  "length (w_log (snd (authenticate ex_env (ex_config\<lparr>c_passive := True\<rparr>) ex_request ex_auth_route ex_world))) = 2"
proof -
  have "credential_of ex_request ex_auth_route = (None, ''Missing or invalid Bearer token'')"
    and "c_log_suspicious (ex_config\<lparr>c_passive := True\<rparr>) = Some WARNING"
    and "e_agent ex_env = None" and "w_log ex_world = []"
    by (simp_all add: credential_of_def ex_auth_route_def truthy_def extractCredential_def header_or_def
        om_get_or_def starts_with_def ex_simps)
  then show ?thesis
    using passive_auth_reported_twice [of "ex_config\<lparr>c_passive := True\<rparr>" ex_env WARNING ex_request
        ex_auth_route "''Missing or invalid Bearer token''" ex_world]
    by simp
qed

end
