(* ===== verification/Client_Checks.thy ===== *)
theory Client_Checks
  imports Request_Checks
begin

section \<open>Checks on the client (core/checks/implementations)\<close>

text \<open>
  The stateful checks: the cloud-range refresh, IP security (bans, lists, countries), cloud
  providers, user agents, the four rate-limit tiers, penetration detection with its ban
  escalation. They read and set the whitelist and exemption flags of the request.
\<close>

subsection \<open>cloud-ip-refresh.ts\<close>

definition CloudIpRefreshCheck :: "'r env \<Rightarrow> config \<Rightarrow> ('r, response option) eff" where
  "CloudIpRefreshCheck E C =
     (if c_block_clouds C = [] then ret None
      else
        bnd (gets w_now) (\<lambda>now.
        bnd (gets w_cloud_refresh) (\<lambda>last.
          if of_int (c_cloud_interval C) \<le> now - last then
            thn (modify (\<lambda>w. w\<lparr>w_cloud_refresh := now\<rparr>))
           (thn (try_catch (refreshCloudIpRanges E C)
                   (\<lambda>e. log_line LogError (''Cloud IP refresh failed: '' @ exn_str e)))
             (ret None))
          else ret None)))"

subsection \<open>ip-security.ts\<close>

definition checkBannedIp ::
  "'r env \<Rightarrow> config \<Rightarrow> request \<Rightarrow> string \<Rightarrow> route_config option \<Rightarrow> ('r, response option) eff"
where
  "checkBannedIp E C rq ip route =
     (if \<not> e_ban_manager E then ret None
      else if shouldBypassCheck ''ip_ban'' route then ret None
      else
        bnd (isIpBanned E ip) (\<lambda>banned.
          if \<not> banned then ret None
          else
            thn (suspicious_log E C rq (''Banned IP attempted access: '' @ ip) (blockHooks C ''ip_security''))
           (thn (sendMiddlewareEvent E C ''ip_blocked'' rq (action_taken C)
                   (''Banned IP attempted access: '' @ ip)
                   [(''ipAddress'', MStr ip), (''filterType'', MStr ''banned'')])
             (deny_active E C 403 ''IP address banned''))))"

definition checkRouteIpRestrictions ::
  "'r env \<Rightarrow> config \<Rightarrow> request \<Rightarrow> string \<Rightarrow> route_config \<Rightarrow> ('r, response option) eff"
where
  "checkRouteIpRestrictions E C rq ip rc =
     (if checkRouteIpAccess E ip rc \<noteq> Some False then ret None
      else
        thn (suspicious_log E C rq (''IP not allowed by route config: '' @ ip) (blockHooks C ''ip_security''))
       (thn (sendMiddlewareEvent E C ''decorator_violation'' rq (action_taken C) (''IP '' @ ip @ '' blocked'') [])
         (if c_passive C then ret None
          else
            thn (escalateIdentityViolation E C rq ip ''ip_restriction''
                   (''IP not allowed by route config: '' @ ip))
              (deny E C 403 ''Forbidden''))))"

definition resolveCountryVerdict ::
  "'r env \<Rightarrow> config \<Rightarrow> string \<Rightarrow> ('r, bool \<times> string option) eff"
where
  "resolveCountryVerdict E C ip =
     (if c_blocked_countries C = [] \<and> c_whitelist_countries C = [] then ret (False, None)
      else
        (case e_ip_parse E ip of
           None \<Rightarrow> ret (False, None)
         | Some a \<Rightarrow>
             if e_ip_kind E a = V4 \<and> e_ip_loopback E a then ret (False, None)
             else
               (case e_geo E of
                  None \<Rightarrow> ret (False, None)
                | Some g \<Rightarrow>
                    thn (if geo_initialized g then ret ()
                         else (case geo_initialize g of None \<Rightarrow> ret () | Some e \<Rightarrow> raise_exn e))
                      (bnd (lift_res (geo_country g ip)) (\<lambda>c.
                         ret (case truthy c of
                                None \<Rightarrow> (c_whitelist_countries C \<noteq> [], None)
                              | Some country \<Rightarrow>
                                  (if c_whitelist_countries C \<noteq> []
                                   then country \<notin> set (c_whitelist_countries C)
                                   else country \<in> set (c_blocked_countries C), Some country)))))))"

text \<open>The check's own list loop: an unparsable client is listed, a malformed entry is not.\<close>

definition checkIpInList :: "'r env \<Rightarrow> string \<Rightarrow> string list \<Rightarrow> bool" where
  "checkIpInList E ip entries =
     (if e_ip_parse E ip = None then True else list_ex (entry_matches E ip) entries)"

definition checkIpAccessDetail ::
  "'r env \<Rightarrow> config \<Rightarrow> string \<Rightarrow> bool \<Rightarrow> bool \<Rightarrow> ('r, bool \<times> string) eff"
where
  "checkIpAccessDetail E C ip skipIpLists skipCountries =
     (let whitelist = whitelist_of C;
          listed = \<not> skipIpLists \<and> whitelist \<noteq> [];
          denied = (if skipIpLists then False
                    else if whitelist \<noteq> [] then isIpInWhitelist E ip whitelist \<noteq> Some True
                    else checkIpInList E ip (c_blacklist C))
      in if denied then ret (False, genericListBlockReason ip)
         else if skipCountries \<or> listed then ret (True, [])
         else
           bnd (resolveCountryVerdict E C ip) (\<lambda>(blocked, country).
             ret (if blocked
                  then (False, (case country of
                                  Some c \<Rightarrow> ''IP from blocked country: '' @ c
                                | None \<Rightarrow> genericListBlockReason ip))
                  else (True, []))))"

definition set_flags :: "bool \<Rightarrow> bool \<Rightarrow> 'r world \<Rightarrow> 'r world" where
  "set_flags white exempt w = w\<lparr>w_req := (w_req w)\<lparr>st_whitelisted := white, st_exempt := exempt\<rparr>\<rparr>"

definition route_overrides_lists :: "route_config option \<Rightarrow> bool" where
  "route_overrides_lists route =
     (case route of None \<Rightarrow> False
      | Some r \<Rightarrow> (case rc_ip_whitelist r of None \<Rightarrow> False | Some l \<Rightarrow> l \<noteq> []))"

definition global_ip_denied ::
  "'r env \<Rightarrow> config \<Rightarrow> request \<Rightarrow> string \<Rightarrow> string \<Rightarrow> ('r, response option) eff"
where
  "global_ip_denied E C rq ip reason =
     thn (suspicious_log E C rq (''IP not allowed: '' @ ip @ '' - '' @ reason) (blockHooks C ''ip_security''))
    (thn (sendMiddlewareEvent E C ''ip_blocked'' rq (action_taken C) reason
            [(''ipAddress'', MStr ip), (''filterType'', MStr ''global'')])
      (if c_passive C then ret None
       else thn (escalateIdentityViolation E C rq ip ''ip_blocked'' reason) (deny E C 403 ''Forbidden'')))"

text \<open>From the access verdict on: flags, route restrictions, global denial.\<close>

definition ip_restrictions ::
  "'r env \<Rightarrow> config \<Rightarrow> request \<Rightarrow> string \<Rightarrow> route_config option \<Rightarrow> ('r, response option) eff"
where
  "ip_restrictions E C rq ip route =
     bnd (checkIpAccessDetail E C ip (route_overrides_lists route) False) (\<lambda>(allowed, reason).
       thn (modify (set_flags
              (allowed \<and> \<not> route_overrides_lists route \<and> whitelist_of C \<noteq> [])
              (allowed \<and> \<not> route_overrides_lists route \<and> c_exempt_ips C \<noteq> []
                 \<and> isIpInWhitelist E ip (c_exempt_ips C) = Some True)))
         (bnd (case route of None \<Rightarrow> ret None | Some rc \<Rightarrow> checkRouteIpRestrictions E C rq ip rc) (\<lambda>r.
            case r of
              Some x \<Rightarrow> ret (Some x)
            | None \<Rightarrow> if allowed then ret None else global_ip_denied E C rq ip reason)))"

definition IpSecurityCheck :: "'r env \<Rightarrow> config \<Rightarrow> request \<Rightarrow> ('r, response option) eff" where
  "IpSecurityCheck E C rq =
     (case client_host rq of
        None \<Rightarrow> ret None
      | Some ip \<Rightarrow>
          bnd (gets route_of) (\<lambda>route.
            bnd (checkBannedIp E C rq ip route) (\<lambda>r.
              case r of
                Some x \<Rightarrow> ret (Some x)
              | None \<Rightarrow> if shouldBypassCheck ''ip'' route then ret None
                        else ip_restrictions E C rq ip route)))"

subsection \<open>cloud-provider.ts\<close>

definition sendCloudDetectionEvents ::
  "'r env \<Rightarrow> config \<Rightarrow> request \<Rightarrow> string \<Rightarrow> string list \<Rightarrow> route_config option \<Rightarrow> ('r, unit) eff"
where
  "sendCloudDetectionEvents E C rq ip providers route =
     bnd (gets w_clouds) (\<lambda>m.
       thn (if \<not> e_cloud_handler E then ret ()
            else (case getCloudProviderDetails E m ip providers of
                    None \<Rightarrow> ret ()
                  | Some (provider, network) \<Rightarrow>
                      when_eff (e_agent E \<noteq> None)
                        (sendCloudDetectionEvent E ip provider network (action_taken C))))
         (when_eff (case route of None \<Rightarrow> False | Some r \<Rightarrow> rc_block_clouds r \<noteq> [])
            (sendMiddlewareEvent E C ''decorator_violation'' rq (action_taken C)
               (''Cloud provider IP '' @ ip @ '' blocked'')
               [(''decoratorType'', MStr ''block_clouds''), (''violationType'', MStr ''cloud_provider''),
                (''blockedProviders'', MList providers)])))"

text \<open>Whitelist and exemption flags, as the later checks read them.\<close>

definition privileged :: "req_state \<Rightarrow> bool" where
  "privileged rs \<longleftrightarrow> st_whitelisted rs \<or> st_exempt rs"

definition cloud_block ::
  "'r env \<Rightarrow> config \<Rightarrow> request \<Rightarrow> string \<Rightarrow> route_config option \<Rightarrow> ('r, response option) eff"
where
  "cloud_block E C rq ip route =
     (case getCloudProvidersToCheck C route of
        None \<Rightarrow> ret None
      | Some providers \<Rightarrow>
          if providers = [] \<or> \<not> e_cloud_handler E then ret None
          else
            bnd (gets w_clouds) (\<lambda>m.
              if \<not> isCloudIp E m ip providers then ret None
              else
                thn (suspicious_log E C rq (''Blocked cloud provider IP: '' @ ip) None)
               (thn (sendCloudDetectionEvents E C rq ip providers route)
                 (deny_active E C 403 ''Cloud provider IP not allowed''))))"

definition CloudProviderCheck :: "'r env \<Rightarrow> config \<Rightarrow> request \<Rightarrow> ('r, response option) eff" where
  "CloudProviderCheck E C rq =
     bnd (gets w_req) (\<lambda>rs.
       if privileged rs then ret None
       else
         (case client_host rq of
            None \<Rightarrow> ret None
          | Some ip \<Rightarrow>
              if shouldBypassCheck ''clouds'' (st_route rs) then ret None
              else cloud_block E C rq ip (st_route rs)))"

subsection \<open>user-agent.ts\<close>

definition user_agent_event ::
  "'r env \<Rightarrow> config \<Rightarrow> request \<Rightarrow> string \<Rightarrow> route_config option \<Rightarrow> ('r, unit) eff"
where
  "user_agent_event E C rq ua route =
     (if (case route of None \<Rightarrow> False | Some r \<Rightarrow> rc_blocked_uas r \<noteq> [])
      then sendMiddlewareEvent E C ''decorator_violation'' rq (action_taken C)
             (''User agent '' @ quoted ua @ '' blocked'')
             [(''decoratorType'', MStr ''content_filtering''), (''violationType'', MStr ''user_agent''),
              (''blockedUserAgent'', MStr ua)]
      else sendMiddlewareEvent E C ''user_agent_blocked'' rq (action_taken C)
             (''User agent '' @ quoted ua @ '' in global blocklist'')
             [(''userAgent'', MStr ua), (''filterType'', MStr ''global'')])"

definition user_agent_denied ::
  "'r env \<Rightarrow> config \<Rightarrow> request \<Rightarrow> string \<Rightarrow> req_state \<Rightarrow> ('r, response option) eff"
where
  "user_agent_denied E C rq ua rs =
     thn (suspicious_log E C rq (''Blocked user agent: '' @ ua) (blockHooks C ''user_agent''))
    (thn (user_agent_event E C rq ua (st_route rs))
      (if c_passive C then ret None
       else
         thn (case truthy (case st_client_ip_camel rs of Some ip \<Rightarrow> Some ip | None \<Rightarrow> rq_host rq) of
                None \<Rightarrow> ret ()
              | Some ip \<Rightarrow>
                  escalateIdentityViolation E C rq ip ''user_agent'' (''Blocked user agent: '' @ ua))
           (deny E C 403 ''User-Agent not allowed'')))"

definition UserAgentCheck :: "'r env \<Rightarrow> config \<Rightarrow> request \<Rightarrow> ('r, response option) eff" where
  "UserAgentCheck E C rq =
     bnd (gets w_req) (\<lambda>rs.
       if privileged rs then ret None
       else
         (case truthy (map_of (rq_headers rq) ''user-agent'') of
            None \<Rightarrow> ret None
          | Some ua \<Rightarrow>
              bnd (lift_res (checkUserAgentAllowed E ua (st_route rs) C)) (\<lambda>allowed.
                if allowed then ret None else user_agent_denied E C rq (e_redact_header E ua) rs)))"

subsection \<open>rate-limit.ts\<close>

definition recordRateLimitAutoBan ::
  "'r env \<Rightarrow> config \<Rightarrow> request \<Rightarrow> string \<Rightarrow> string \<Rightarrow> ('r, unit) eff"
where
  "recordRateLimitAutoBan E C rq ip trigger =
     (if \<not> c_rl_autoban C then ret ()
      else
        thn (incrementSuspiciousCounts ip [''rate_limit''])
          (bnd (tryThresholdBan E C rq ip trigger [''rate_limit''] ''rate_limit_exceeded'') (\<lambda>_. ret ())))"

definition applyRateLimitCheck ::
  "'r env \<Rightarrow> config \<Rightarrow> request \<Rightarrow> string \<Rightarrow> int \<Rightarrow> int \<Rightarrow> string \<Rightarrow> string \<Rightarrow> string option
     \<Rightarrow> (string, meta) omap \<Rightarrow> ('r, response option) eff"
where
  "applyRateLimitCheck E C rq ip limit window ty reason endpoint mt =
     bnd (checkRateLimit E C (createErrorResponse E C) rq ip endpoint limit window) (\<lambda>response.
       case response of
         None \<Rightarrow> ret None
       | Some r \<Rightarrow>
           thn (when_eff (ty \<noteq> []) (sendMiddlewareEvent E C ty rq (action_taken C) reason mt))
             (if c_passive C then ret None
              else
                thn (recordRateLimitAutoBan E C rq ip
                       (if reason \<noteq> [] then reason else ''Global rate limit exceeded''))
                  (ret (Some r))))"

definition limit_meta :: "string \<Rightarrow> string \<Rightarrow> int \<Rightarrow> int \<Rightarrow> (string, meta) omap" where
  "limit_meta decoratorType violationType limit window =
     [(''decoratorType'', MStr decoratorType), (''violationType'', MStr violationType),
      (''rateLimit'', MNum limit), (''window'', MNum window)]"

definition per_window :: "int \<Rightarrow> int \<Rightarrow> string" where
  "per_window limit window = show_int limit @ '' requests per '' @ show_int window @ ''s''"

definition route_tier ::
  "'r env \<Rightarrow> config \<Rightarrow> request \<Rightarrow> string \<Rightarrow> route_config option \<Rightarrow> ('r, response option) eff"
where
  "route_tier E C rq ip route =
     (case route of
        None \<Rightarrow> ret None
      | Some rc \<Rightarrow>
          (case rc_rate_limit rc of
             None \<Rightarrow> ret None
           | Some limit \<Rightarrow>
               (let window = (case rc_rate_window rc of None \<Rightarrow> 60 | Some x \<Rightarrow> x)
                in applyRateLimitCheck E C rq ip limit window ''decorator_violation''
                     (''Route-specific rate limit exceeded: '' @ per_window limit window)
                     (Some (rq_path rq)) (limit_meta ''rate_limiting'' ''rate_limit'' limit window))))"

definition session_window :: "config \<Rightarrow> route_config \<Rightarrow> int" where
  "session_window C rc = (case rc_rate_window rc of None \<Rightarrow> c_rate_window C | Some x \<Rightarrow> x)"

definition session_header ::
  "'r env \<Rightarrow> config \<Rightarrow> request \<Rightarrow> string \<Rightarrow> route_config \<Rightarrow> string \<times> int \<Rightarrow> ('r, response option) eff"
where
  "session_header E C rq ip rc hl =
     (let name = fst hl; limit = snd hl; window = session_window C rc
      in if limit \<le> 0 then
           thn (log_line LogWarn (''Ignoring invalid sessionLimits entry '' @ quoted name @ '' (''
                  @ show_int limit @ ''): the limit must be a positive number''))
             (ret None)
         else
           (case truthy (map_of (rq_headers rq) (to_lower name)) of
              None \<Rightarrow> ret None
            | Some sessionValue \<Rightarrow>
                applyRateLimitCheck E C rq ip limit window ''decorator_violation''
                  (''Session rate limit exceeded for header '' @ quoted name @ '': ''
                   @ per_window limit window @ '' per session'')
                  (Some (''session:'' @ to_lower name @ '':'' @ sessionValue))
                  (limit_meta ''rate_limiting'' ''session_rate_limit'' limit window)))"

definition checkSessionLimit ::
  "'r env \<Rightarrow> config \<Rightarrow> request \<Rightarrow> string \<Rightarrow> route_config option \<Rightarrow> ('r, response option) eff"
where
  "checkSessionLimit E C rq ip route =
     (case route of
        None \<Rightarrow> ret None
      | Some rc \<Rightarrow>
          first_some (session_header E C rq ip rc)
            (case rc_session_limits rc of None \<Rightarrow> [] | Some l \<Rightarrow> l))"

definition endpoint_tier :: "'r env \<Rightarrow> config \<Rightarrow> request \<Rightarrow> string \<Rightarrow> ('r, response option) eff" where
  "endpoint_tier E C rq ip =
     (case map_of (c_endpoint_limits C) (rq_path rq) of
        None \<Rightarrow> ret None
      | Some (limit, window) \<Rightarrow>
          applyRateLimitCheck E C rq ip limit window ''dynamic_rule_violation''
            (''Endpoint-specific rate limit exceeded: '' @ per_window limit window @ '' for '' @ rq_path rq)
            (Some (rq_path rq))
            [(''ruleType'', MStr ''endpoint_rate_limit''), (''endpoint'', MStr (rq_path rq)),
             (''rateLimit'', MNum limit), (''window'', MNum window)])"

text \<open>The tier of a country: its own entry, else the \<open>*\<close> entry.\<close>

definition geo_tier :: "(string, int \<times> int) omap \<Rightarrow> string option \<Rightarrow> (int \<times> int) option" where
  "geo_tier limits country =
     (case country of
        None \<Rightarrow> map_of limits ''*''
      | Some c \<Rightarrow> if om_has limits c then map_of limits c else map_of limits ''*'')"

definition checkGeoRateLimit ::
  "'r env \<Rightarrow> config \<Rightarrow> request \<Rightarrow> string \<Rightarrow> route_config option \<Rightarrow> ('r, response option) eff"
where
  "checkGeoRateLimit E C rq ip route =
     (case (case route of None \<Rightarrow> None | Some rc \<Rightarrow> rc_geo_limits rc) of
        None \<Rightarrow> ret None
      | Some limits \<Rightarrow>
          if limits = [] then ret None
          else
            (case e_geo E of
               None \<Rightarrow> ret None
             | Some g \<Rightarrow>
                 bnd (lift_res (geo_country g ip)) (\<lambda>country.
                   case geo_tier limits country of
                     None \<Rightarrow> ret None
                   | Some (limit, window) \<Rightarrow>
                       applyRateLimitCheck E C rq ip limit window ''decorator_violation''
                         (''Geo rate limit exceeded for '' @ (case country of None \<Rightarrow> ''unknown'' | Some c \<Rightarrow> c)
                          @ '': '' @ per_window limit window)
                         (Some (rq_path rq))
                         (limit_meta ''geo_rate_limiting'' ''geo_rate_limit'' limit window))))"

definition global_tier :: "'r env \<Rightarrow> config \<Rightarrow> request \<Rightarrow> string \<Rightarrow> ('r, response option) eff" where
  "global_tier E C rq ip =
     applyRateLimitCheck E C rq ip (c_rate_limit C) (c_rate_window C) [] [] None []"

definition RateLimitCheck :: "'r env \<Rightarrow> config \<Rightarrow> request \<Rightarrow> ('r, response option) eff" where
  "RateLimitCheck E C rq =
     bnd (gets w_req) (\<lambda>rs.
       if privileged rs then ret None
       else if \<not> c_enable_rl C then ret None
       else
         (case client_host rq of
            None \<Rightarrow> ret None
          | Some ip \<Rightarrow>
              first_some (\<lambda>tier. tier)
                [route_tier E C rq ip (st_route rs), checkSessionLimit E C rq ip (st_route rs),
                 endpoint_tier E C rq ip, checkGeoRateLimit E C rq ip (st_route rs),
                 global_tier E C rq ip]))"

subsection \<open>suspicious-activity.ts\<close>

definition threat_found ::
  "'r env \<Rightarrow> config \<Rightarrow> request \<Rightarrow> string \<Rightarrow> string \<Rightarrow> string list \<Rightarrow> ('r, response option) eff"
where
  "threat_found E C rq ip trigger cats =
     thn (incrementSuspiciousCounts ip cats)
    (bnd (gets (\<lambda>w. totalSuspiciousCount (w_sus w) ip)) (\<lambda>n.
       if c_passive C then
         thn (logActivity E rq LogSuspicious (''Suspicious activity detected: '' @ ip) True trigger
                (c_log_suspicious C) (blockHooks C ''suspicious_activity''))
        (thn (sendMiddlewareEvent E C ''penetration_attempt'' rq ''logged_only''
                (''Suspicious pattern detected (passive mode): '' @ trigger)
                [(''triggerInfo'', MStr trigger), (''requestCount'', MNum n), (''passiveMode'', MBool True)])
          (ret None))
       else
         bnd (tryThresholdBan E C rq ip trigger cats ''penetration_attempt'') (\<lambda>banned.
           if banned then deny E C 403 ''IP has been banned''
           else
             thn (logActivity E rq LogSuspicious
                    (''Suspicious activity detected for IP: '' @ ip @ '' - '' @ trigger) False []
                    (c_log_suspicious C) (blockHooks C ''suspicious_activity''))
            (thn (sendMiddlewareEvent E C ''penetration_attempt'' rq ''request_blocked''
                    (''Penetration attempt detected: '' @ trigger)
                    [(''triggerInfo'', MStr trigger), (''requestCount'', MNum n)])
              (deny E C 400 ''Suspicious activity detected'')))))"

definition SuspiciousActivityCheck :: "'r env \<Rightarrow> config \<Rightarrow> request \<Rightarrow> ('r, response option) eff" where
  "SuspiciousActivityCheck E C rq =
     bnd (gets w_req) (\<lambda>rs.
       if st_whitelisted rs then ret None
       else if \<not> c_enable_pen C then ret None
       else
         (case client_host rq of
            None \<Rightarrow> ret None
          | Some ip \<Rightarrow>
              (case detectPenetrationPatterns E C rq (st_route rs) (e_detect E) of
                 (isThreat, trigger, cats) \<Rightarrow>
                   if \<not> isThreat \<and> trigger = ''disabled_by_decorator'' then
                     thn (sendMiddlewareEvent E C ''decorator_violation'' rq ''detection_disabled''
                            ''Suspicious pattern detection disabled by route decorator''
                            [(''decoratorType'', MStr ''advanced''),
                             (''violationType'', MStr ''suspicious_detection_disabled'')])
                       (ret None)
                   else if \<not> isThreat then ret None
                   else threat_found E C rq ip trigger cats)))"

subsection \<open>What the checks keep\<close>

text \<open>
  \<open>engine_stable C P\<close>: \<open>P\<close> survives every write the checks make outside the request state. Each
  check then keeps \<open>P\<close>; the two that write request flags ask for those writes too.
\<close>

definition engine_stable :: "config \<Rightarrow> ('r world \<Rightarrow> bool) \<Rightarrow> bool" where
  "engine_stable C P \<longleftrightarrow> offline P \<and>
     (\<forall>w m. P w \<longrightarrow> P (set_bans m w)) \<and> (\<forall>w m. P w \<longrightarrow> P (set_sus m w)) \<and>
     (\<forall>w m. P w \<longrightarrow> P (set_rate m w)) \<and> (\<forall>w s. P w \<longrightarrow> P (set_sha s w)) \<and>
     (\<forall>w t. P w \<longrightarrow> P (w\<lparr>w_cloud_refresh := t\<rparr>)) \<and>
     (\<forall>q \<in> set (c_block_clouds C). refresh_stable q P)"

lemma stable_offline: "engine_stable C P \<Longrightarrow> offline P"
  by (simp add: engine_stable_def)

lemma stable_unaffected: "engine_stable C P \<Longrightarrow> unaffected P"
  by (simp add: engine_stable_def offline_unaffected)

lemmas stable_reports = report_intros [OF stable_unaffected] keeps_intros

lemma stable_bans: "engine_stable C P \<Longrightarrow> P w \<Longrightarrow> P (set_bans m w)"
  and stable_sus: "engine_stable C P \<Longrightarrow> P w \<Longrightarrow> P (set_sus c w)"
  and stable_rate: "engine_stable C P \<Longrightarrow> P w \<Longrightarrow> P (set_rate r w)"
  and stable_sha: "engine_stable C P \<Longrightarrow> P w \<Longrightarrow> P (set_sha s w)"
  by (simp_all add: engine_stable_def)

lemma stable_escalate: "engine_stable C P \<Longrightarrow> keeps P (escalateIdentityViolation E C rq ip c t)"
  by (rule keeps_escalate, erule stable_offline, erule (1) stable_bans, erule (1) stable_sus)

lemma stable_tryBan: "engine_stable C P \<Longrightarrow> keeps P (tryThresholdBan E C rq ip tr cs reason)"
  by (rule keeps_tryThresholdBan, erule stable_offline, erule (1) stable_bans)

lemma stable_increment: "engine_stable C P \<Longrightarrow> keeps P (incrementSuspiciousCounts ip cs)"
  by (rule keeps_increment, erule (1) stable_sus)

lemma stable_rate_check: "engine_stable C P \<Longrightarrow> keeps P (checkRateLimit E C mk rq ip ep limit window)"
  by (rule keeps_checkRateLimit, erule stable_offline, erule (1) stable_sha, erule (1) stable_rate)

lemma stable_banned: "engine_stable C P \<Longrightarrow> keeps P (isIpBanned E ip)"
  by (rule keeps_isIpBanned, erule stable_offline, (erule (1) stable_bans)+)

lemmas stable_intros = stable_escalate stable_tryBan stable_increment stable_rate_check stable_banned

lemma keeps_cloud_refresh_check: "engine_stable C P \<Longrightarrow> keeps P (CloudIpRefreshCheck E C)"
  unfolding CloudIpRefreshCheck_def
  by (intro stable_reports keeps_modify keeps_refreshCloudIpRanges) (auto simp: engine_stable_def)

lemma keeps_banned_check: "engine_stable C P \<Longrightarrow> keeps P (checkBannedIp E C rq ip route)"
  unfolding checkBannedIp_def by (intro stable_reports stable_intros)

lemma keeps_route_restrictions: "engine_stable C P \<Longrightarrow> keeps P (checkRouteIpRestrictions E C rq ip rc)"
  unfolding checkRouteIpRestrictions_def by (intro stable_reports stable_intros)

lemma keeps_denied: "engine_stable C P \<Longrightarrow> keeps P (global_ip_denied E C rq ip reason)"
  unfolding global_ip_denied_def by (intro stable_reports stable_intros)

lemma keeps_access_detail: "keeps P (checkIpAccessDetail E C ip a b)"
  unfolding checkIpAccessDetail_def Let_def resolveCountryVerdict_def by (intro keeps_intros)

definition earned_white :: "'r env \<Rightarrow> config \<Rightarrow> string \<Rightarrow> route_config option \<Rightarrow> bool" where
  "earned_white E C ip route \<longleftrightarrow> \<not> route_overrides_lists route \<and> whitelist_of C \<noteq> [] \<and>
     isIpInWhitelist E ip (whitelist_of C) = Some True"

definition earned_exempt :: "'r env \<Rightarrow> config \<Rightarrow> string \<Rightarrow> route_config option \<Rightarrow> bool" where
  "earned_exempt E C ip route \<longleftrightarrow> \<not> route_overrides_lists route \<and>
     isIpInWhitelist E ip (c_exempt_ips C) = Some True"

text \<open>An allowed verdict over the lists comes from the whitelist when there is one.\<close>

lemma access_allowed_listed:
  assumes "fst (checkIpAccessDetail E C ip False b w) = Inr (True, reason)" and "whitelist_of C \<noteq> []"
  shows "isIpInWhitelist E ip (whitelist_of C) = Some True"
  using assms by (auto simp: checkIpAccessDetail_def Let_def ret_run split: if_splits)

lemma keeps_ip_restrictions:
  assumes "engine_stable C P"
    and "\<And>w white exempt. P w \<Longrightarrow> (white \<Longrightarrow> earned_white E C ip route) \<Longrightarrow>
      (exempt \<Longrightarrow> earned_exempt E C ip route) \<Longrightarrow> P (set_flags white exempt w)"
  shows "keeps P (ip_restrictions E C rq ip route)"
proof (rule keepsI)
  fix w assume "P w"
  obtain v u where detail: "checkIpAccessDetail E C ip (route_overrides_lists route) False w = (v, u)"
    by fastforce
  have "P u" using keepsD [of P, OF keeps_access_detail \<open>P w\<close>] detail by (metis snd_conv)
  show "P (snd (ip_restrictions E C rq ip route w))"
  proof (cases v)
    case (Inl e)
    then show ?thesis using detail \<open>P u\<close> by (simp add: ip_restrictions_def bnd_run)
  next
    case (Inr ar)
    obtain allowed reason where ar: "ar = (allowed, reason)" by fastforce
    have white: "earned_white E C ip route"
      if "allowed \<and> \<not> route_overrides_lists route \<and> whitelist_of C \<noteq> []"
      using that access_allowed_listed [of E C ip False w reason] detail Inr ar
      by (auto simp: earned_white_def)
    let ?rest = "bnd (case route of None \<Rightarrow> ret None | Some rc \<Rightarrow> checkRouteIpRestrictions E C rq ip rc)
      (\<lambda>r. case r of Some x \<Rightarrow> ret (Some x)
       | None \<Rightarrow> if allowed then ret None else global_ip_denied E C rq ip reason)"
    have rest: "keeps P ?rest"
      by (intro keeps_intros keeps_route_restrictions keeps_denied assms(1))
    have "P (snd (?rest (set_flags
        (allowed \<and> \<not> route_overrides_lists route \<and> whitelist_of C \<noteq> [])
        (allowed \<and> \<not> route_overrides_lists route \<and> c_exempt_ips C \<noteq> []
           \<and> isIpInWhitelist E ip (c_exempt_ips C) = Some True) u)))"
      by (rule keepsD [OF rest], rule assms(2) [OF \<open>P u\<close>]) (use white in \<open>auto simp: earned_exempt_def\<close>)
    then show ?thesis
      using detail Inr ar by (simp add: ip_restrictions_def bnd_run [of "checkIpAccessDetail _ _ _ _ _"] thn_run)
  qed
qed

lemma keeps_IpSecurity:
  assumes "engine_stable C P"
    and "\<And>ip w white exempt. client_host rq = Some ip \<Longrightarrow> P w \<Longrightarrow>
      (white \<Longrightarrow> earned_white E C ip (route_of w)) \<Longrightarrow>
      (exempt \<Longrightarrow> earned_exempt E C ip (route_of w)) \<Longrightarrow> P (set_flags white exempt w)"
    and "\<And>r. engine_stable C (\<lambda>w. P w \<and> route_of w = r)"
  shows "keeps P (IpSecurityCheck E C rq)"
proof (cases "client_host rq")
  case None
  then show ?thesis by (simp add: IpSecurityCheck_def)
next
  case (Some ip)
  show ?thesis
  proof (rule keepsI)
    fix w assume "P w"
    define route where "route = route_of w"
    let ?P = "\<lambda>u. P u \<and> route_of u = route"
    have stable: "engine_stable C ?P" by (rule assms(3))
    have "keeps ?P (ip_restrictions E C rq ip route)"
    proof (rule keeps_ip_restrictions [OF stable])
      fix u white exempt
      assume "?P u" and "white \<Longrightarrow> earned_white E C ip route" and "exempt \<Longrightarrow> earned_exempt E C ip route"
      then have "P (set_flags white exempt u)" using assms(2) [OF Some, of u] by auto
      with \<open>?P u\<close> show "?P (set_flags white exempt u)" by (simp add: set_flags_def route_of_def)
    qed
    then have "keeps ?P (bnd (checkBannedIp E C rq ip route) (\<lambda>r. case r of
        Some x \<Rightarrow> ret (Some x)
      | None \<Rightarrow> if shouldBypassCheck ''ip'' route then ret None else ip_restrictions E C rq ip route))"
      by (intro keeps_intros keeps_banned_check stable)
    from keepsD [OF this, of w] \<open>P w\<close> have "P (snd (bnd (checkBannedIp E C rq ip route) (\<lambda>r. case r of
        Some x \<Rightarrow> ret (Some x)
      | None \<Rightarrow> if shouldBypassCheck ''ip'' route then ret None else ip_restrictions E C rq ip route) w))"
      by (simp only: route_def simp_thms)
    then show "P (snd (IpSecurityCheck E C rq w))"
      unfolding IpSecurityCheck_def Some option.case bnd_run [of "gets _"] gets_run prod.case sum.case
        route_def .
  qed
qed

lemma keeps_CloudProvider: "engine_stable C P \<Longrightarrow> keeps P (CloudProviderCheck E C rq)"
  unfolding CloudProviderCheck_def cloud_block_def sendCloudDetectionEvents_def sendCloudDetectionEvent_def
  by (intro stable_reports)

lemma keeps_UserAgent: "engine_stable C P \<Longrightarrow> keeps P (UserAgentCheck E C rq)"
  unfolding UserAgentCheck_def user_agent_denied_def user_agent_event_def
  by (intro stable_reports stable_intros)

lemma keeps_apply: "engine_stable C P \<Longrightarrow> keeps P (applyRateLimitCheck E C rq ip l wn ty r ep mt)"
  unfolding applyRateLimitCheck_def recordRateLimitAutoBan_def by (intro stable_reports stable_intros)

lemma keeps_RateLimit: "engine_stable C P \<Longrightarrow> keeps P (RateLimitCheck E C rq)"
  unfolding RateLimitCheck_def route_tier_def checkSessionLimit_def session_header_def Let_def
    endpoint_tier_def checkGeoRateLimit_def global_tier_def first_some.simps
  by (intro stable_reports keeps_apply)

lemma keeps_Suspicious: "engine_stable C P \<Longrightarrow> keeps P (SuspiciousActivityCheck E C rq)"
  unfolding SuspiciousActivityCheck_def threat_found_def by (intro stable_reports stable_intros)

subsection \<open>In passive mode no client check blocks\<close>

lemma waves_cloud_refresh: "waves (CloudIpRefreshCheck E C)"
  unfolding CloudIpRefreshCheck_def by (intro returns_intros refl)

lemma waves_seq:
  "waves m \<Longrightarrow> waves k \<Longrightarrow>
   waves (bnd m (\<lambda>r. case r of Some x \<Rightarrow> ret (Some x) | None \<Rightarrow> k))"
  using returnsD [of "\<lambda>r. r = None" m]
  by (intro returnsI) (fastforce simp: bnd_run ret_run split: prod.splits sum.splits option.splits
    dest: returnsD)

lemma waves_tiers: "(\<And>m. m \<in> set ms \<Longrightarrow> waves m) \<Longrightarrow> waves (first_some (\<lambda>m. m) ms)"
  by (induction ms) (auto intro!: returns_ret waves_seq)

lemma waves_banned: "c_passive C \<Longrightarrow> waves (checkBannedIp E C rq ip route)"
  unfolding checkBannedIp_def by (intro returns_intros refl)

lemma waves_route_restrictions: "c_passive C \<Longrightarrow> waves (checkRouteIpRestrictions E C rq ip rc)"
  unfolding checkRouteIpRestrictions_def by (intro returns_intros refl) simp_all

lemma waves_denied: "c_passive C \<Longrightarrow> waves (global_ip_denied E C rq ip reason)"
  unfolding global_ip_denied_def by (intro returns_intros refl) simp_all

lemma waves_IpSecurity: "c_passive C \<Longrightarrow> waves (IpSecurityCheck E C rq)"
  unfolding IpSecurityCheck_def ip_restrictions_def
  by (intro returns_option returns_if returns_prod returns_bnd [of _ _ "gets _"]
      returns_bnd [of _ _ "checkIpAccessDetail _ _ _ _ _"] returns_thn returns_ret refl
      waves_seq waves_banned waves_route_restrictions waves_denied)

lemma waves_CloudProvider: "c_passive C \<Longrightarrow> waves (CloudProviderCheck E C rq)"
  unfolding CloudProviderCheck_def cloud_block_def by (intro returns_intros refl)

lemma waves_UserAgent: "c_passive C \<Longrightarrow> waves (UserAgentCheck E C rq)"
  unfolding UserAgentCheck_def user_agent_denied_def by (intro returns_intros refl) simp_all

lemma waves_apply: "c_passive C \<Longrightarrow> waves (applyRateLimitCheck E C rq ip l wn ty r ep mt)"
  unfolding applyRateLimitCheck_def by (intro returns_intros refl) simp_all

lemma waves_RateLimit: "c_passive C \<Longrightarrow> waves (RateLimitCheck E C rq)"
  unfolding RateLimitCheck_def route_tier_def checkSessionLimit_def session_header_def Let_def
    endpoint_tier_def checkGeoRateLimit_def global_tier_def
  by (intro returns_option returns_if returns_bnd [of _ _ "gets _"] returns_ret refl waves_tiers)
     (auto intro!: returns_intros waves_apply split: option.splits)

lemma waves_Suspicious: "c_passive C \<Longrightarrow> waves (SuspiciousActivityCheck E C rq)"
  unfolding SuspiciousActivityCheck_def threat_found_def by (intro returns_intros refl) simp_all

subsection \<open>Properties\<close>

lemma passes_thn_refuses: "refuses n \<Longrightarrow> \<not> passes (thn m n) w"
  by (rule refuses_not_passes) (rule returns_thn)

lemma calm_waves_passes: "never_raises m \<Longrightarrow> waves m \<Longrightarrow> passes m w"
  by (auto simp: passes_def never_raises_def returns_def)

lemma banned_passes:
  assumes "e_ban_manager E" and "e_redis E = None" and "\<not> c_passive C"
    and "\<not> shouldBypassCheck ''ip_ban'' route"
  shows "passes (checkBannedIp E C rq ip route) w \<longleftrightarrow> \<not> ban_live (w_now w) ip (w_bans w)"
proof -
  have "\<not> passes (thn (suspicious_log E C rq a b) (thn (sendMiddlewareEvent E C c rq d e f)
      (deny_active E C 403 ''IP address banned''))) w" for a b c d e f
    by (intro passes_thn_refuses returns_thn refuses_deny_active assms(3))
  then show ?thesis
    using assms by (simp add: checkBannedIp_def passes_def bnd_run isIpBanned_local redis_ban_check_def ret_run)
qed

lemma route_restrictions_pass:
  assumes "\<not> c_passive C"
  shows "passes (checkRouteIpRestrictions E C rq ip rc) w \<longleftrightarrow> checkRouteIpAccess E ip rc \<noteq> Some False"
proof -
  have "\<not> passes (thn (suspicious_log E C rq a b) (thn (sendMiddlewareEvent E C c rq d e f)
      (thn (escalateIdentityViolation E C rq ip g h) (deny E C 403 ''Forbidden'')))) w" for a b c d e f g h
    by (intro passes_thn_refuses returns_thn refuses_deny)
  then show ?thesis using assms by (simp add: checkRouteIpRestrictions_def)
qed

lemma global_denied_refuses: "\<not> c_passive C \<Longrightarrow> refuses (global_ip_denied E C rq ip reason)"
  unfolding global_ip_denied_def by (intro returns_thn) (simp only: if_False returns_thn refuses_deny)

lemma ip_restrictions_pass:
  assumes "\<not> c_passive C"
    and "checkIpAccessDetail E C ip (route_overrides_lists route) False = ret (allowed, reason)"
  shows "passes (ip_restrictions E C rq ip route) w \<longleftrightarrow>
    allowed \<and> (case route of None \<Rightarrow> True | Some rc \<Rightarrow> checkRouteIpAccess E ip rc \<noteq> Some False)"
  using assms
  by (cases route) (auto simp: ip_restrictions_def passes_seq route_restrictions_pass
    refuses_not_passes [OF global_denied_refuses])

text \<open>
  C7: in active mode, without Redis, the IP security check of a route that bypasses nothing lets a
  client through exactly when no unexpired ban of it is in force, the global lists and countries allow
  it, and the route's own lists do not refuse it.
\<close>

theorem ip_security_exact:
  assumes "client_host rq = Some ip" and "e_ban_manager E" and "e_redis E = None" and "\<not> c_passive C"
    and "\<not> shouldBypassCheck ''ip_ban'' (route_of w)" and "\<not> shouldBypassCheck ''ip'' (route_of w)"
    and "checkIpAccessDetail E C ip (route_overrides_lists (route_of w)) False = ret (allowed, reason)"
  shows "passes (IpSecurityCheck E C rq) w \<longleftrightarrow>
    \<not> ban_live (w_now w) ip (w_bans w) \<and> allowed \<and>
    (case route_of w of None \<Rightarrow> True | Some rc \<Rightarrow> checkRouteIpAccess E ip rc \<noteq> Some False)"
  using assms(1,6)
  by (simp add: IpSecurityCheck_def passes_seq banned_passes [OF assms(2-5)]
      ip_restrictions_pass [OF assms(4,7)])

theorem ip_security_exact_witness:
  "\<not> passes (IpSecurityCheck ex_env (ex_config\<lparr>c_blacklist := [''10.0.0.0/8'']\<rparr>) ex_request) ex_world \<and>
   passes (IpSecurityCheck ex_env (ex_config\<lparr>c_blacklist := [''11.0.0.0/8'']\<rparr>) ex_request) ex_world"
proof -
  have detail: "checkIpAccessDetail ex_env (ex_config\<lparr>c_blacklist := [b]\<rparr>) ''10.0.0.7'' False False =
      ret (\<not> entry_matches ex_env ''10.0.0.7'' b,
        if entry_matches ex_env ''10.0.0.7'' b then genericListBlockReason ''10.0.0.7'' else [])" for b
    by (simp add: checkIpAccessDetail_def whitelist_of_def checkIpInList_def resolveCountryVerdict_def
        ex_config_def ex_env_def ex_parse_def ex_num_def is_digit_def Let_def)
  have env: "client_host ex_request = Some ''10.0.0.7''" "e_ban_manager ex_env" "e_redis ex_env = None"
    "\<not> c_passive (ex_config\<lparr>c_blacklist := [b]\<rparr>)" "route_of ex_world = None"
    "\<not> ban_live (w_now ex_world) ''10.0.0.7'' (w_bans ex_world)" for b
    by (simp_all add: ex_simps client_host_def route_of_def ban_live_def)
  have match: "entry_matches ex_env ''10.0.0.7'' ''10.0.0.0/8''" "\<not> entry_matches ex_env ''10.0.0.7'' ''11.0.0.0/8''"
    by (simp_all add: entry_matches_def cidr_match_def ex_env_def ex_parse_def ex_cidr_def ex_num_def
        ex_digit_def ex_match_def is_digit_def)
  have "passes (IpSecurityCheck ex_env (ex_config\<lparr>c_blacklist := [b]\<rparr>) ex_request) ex_world \<longleftrightarrow>
      \<not> entry_matches ex_env ''10.0.0.7'' b" for b
    using ip_security_exact [of ex_request "''10.0.0.7''" ex_env "ex_config\<lparr>c_blacklist := [b]\<rparr>" ex_world]
      detail env by (simp add: shouldBypassCheck_def route_overrides_lists_def)
  with match show ?thesis by simp
qed

lemma stable_sus_is: "offline (\<lambda>w. w_sus w = m)"
  by (auto simp: offline_def unaffected_def same_managers_def)

lemma keeps_sus_report: "keeps (\<lambda>w. w_sus w = m) (escalation_report E C rq ip c t b)"
  unfolding escalation_report_def by (intro keeps_intros offline_reports stable_sus_is)

lemma keeps_sus_ban: "keeps (\<lambda>w. w_sus w = m) (tryThresholdBan E C rq ip tr cs reason)"
  by (rule keeps_tryThresholdBan [OF stable_sus_is]) (simp add: set_bans_def)

lemma after_increment:
  assumes "\<And>m. keeps (\<lambda>w. w_sus w = m) n"
  shows "w_sus (snd (thn (incrementSuspiciousCounts ip cs) n w)) = increment_counts ip cs (w_sus w)"
  using keepsD [OF assms [of "increment_counts ip cs (w_sus w)"], of "set_sus (increment_counts ip cs (w_sus w)) w"]
  by (simp add: thn_run incrementSuspiciousCounts_def set_sus_def)

text \<open>
  C26: a threat the engine finds is counted against its client in both modes, under the categories of the
  hit; in active mode the request does not pass, in passive mode it does.
\<close>

theorem threats_counted_in_both_modes:
  assumes "client_host rq = Some ip" and "c_enable_pen C" and "\<not> st_whitelisted (w_req w)"
    and "detectPenetrationPatterns E C rq (route_of w) (e_detect E) = (True, trigger, cs)"
  shows "w_sus (snd (SuspiciousActivityCheck E C rq w)) = increment_counts ip cs (w_sus w) \<and>
    (passes (SuspiciousActivityCheck E C rq) w \<longleftrightarrow> c_passive C)"
proof -
  have run: "SuspiciousActivityCheck E C rq w = threat_found E C rq ip trigger cs w"
    using assms by (simp add: SuspiciousActivityCheck_def bnd_run route_of_def)
  have sus: "w_sus (snd (threat_found E C rq ip trigger cs w)) = increment_counts ip cs (w_sus w)"
    unfolding threat_found_def
    by (intro after_increment keeps_intros keeps_sus_ban offline_reports stable_sus_is)
  have "refuses (threat_found E C rq ip trigger cs)" if "\<not> c_passive C"
    unfolding threat_found_def using that by (intro returns_intros) simp_all
  moreover have "passes (threat_found E C rq ip trigger cs) w" if "c_passive C"
  proof (rule calm_waves_passes)
    show "never_raises (threat_found E C rq ip trigger cs)"
      unfolding threat_found_def by (intro calm_intros) (simp_all add: that)
    show "waves (threat_found E C rq ip trigger cs)"
      unfolding threat_found_def by (intro returns_intros refl) (simp_all add: that)
  qed
  ultimately show ?thesis
    using run sus refuses_not_passes by (auto simp: passes_def)
qed

text \<open>A hit on the name of the first query parameter ends the scan.\<close>

lemma first_name_hit:
  assumes "rq_query rq = (k, v) # rest" and "\<not> isExcludedParam x k"
    and "D k (host_or_unknown rq) (''query_param:'' @ k) (disabledCategoriesOf x) = Inr (ex_hit pat cat)"
  shows "scanRequestWithManager E D rq x = (True, ''Query param name '' @ quoted k @ '': ''
    @ ''Value matched pattern '' @ quoted pat, [cat])"
proof -
  let ?b = "\<lparr>sb_values = 1, sb_chars = length k, sb_cats = [cat]\<rparr>"
  have hit: "detectComponent E D (host_or_unknown rq) (disabledCategoriesOf x) (''query_param:'' @ k) k
      empty_budget = (Some (''Value matched pattern '' @ quoted pat), ?b)"
    unfolding detectComponent_def run_detect_def scanBudgetExhausted_def
    by (simp add: assms(3) [simplified] empty_budget_def MAX_SCAN_VALUES_def MAX_SCAN_CHARS_def ex_hit_def
        buildThreatMessage_def recordHitCategories_def)
  have "scan_query E D (host_or_unknown rq) x (k, v) empty_budget =
      (Some (''Query param name '' @ quoted k @ '': '' @ ''Value matched pattern '' @ quoted pat), ?b)"
    using assms(2) by (simp only: scan_query_def Let_def prod.case if_False scan_then_def scan_label_def hit
        option.map option.case)
  then show ?thesis
    by (simp only: scanRequestWithManager_def runRequestSurfaceScan_def scan_then_def assms(1)
        scan_first.simps prod.case option.case budget.select_convs)
qed

definition ex_probe :: request where
  "ex_probe = ex_request\<lparr>rq_query := [(''<script'', ''1'')]\<rparr>"

definition ex_probe_message :: string where
  "ex_probe_message = ''Query param name '' @ quoted ''<script'' @ '': ''
     @ ''Value matched pattern '' @ quoted ''<script''"

lemma ex_detect_probe: "''xss'' \<notin> set skip \<Longrightarrow> ex_detect ''<script'' ip ctx skip = Inr (ex_hit ''<script'' ''xss'')"
  by (simp add: ex_detect_def starts_with_def)

lemma ex_probe_found:
  "detectPenetrationPatterns ex_env ex_config ex_probe None (Some ex_detect) =
     (True, ex_probe_message, [''xss''])"
proof -
  have "scanRequestWithManager ex_env ex_detect ex_probe (resolveDetectionExclusions (Some ex_config) None) =
      (True, ex_probe_message, [''xss''])"
    unfolding ex_probe_message_def
    by (rule first_name_hit [where v = "''1''" and rest = "[]"])
       (simp_all add: ex_probe_def isExcludedParam_def resolveDetectionExclusions_def ex_config_def
         ex_detect_probe disabledCategoriesOf_def)
  then show ?thesis
    by (simp add: detectPenetrationPatterns_def shouldBypassCheck_def) (simp add: ex_config_def)
qed

theorem threats_counted_in_both_modes_witness:
  "w_sus (snd (SuspiciousActivityCheck ex_env ex_config ex_probe ex_world)) =
     increment_counts ''10.0.0.7'' [''xss''] []"
proof -
  have "route_of ex_world = None" and "e_detect ex_env = Some ex_detect"
    and "client_host ex_probe = Some ''10.0.0.7''" and "c_enable_pen ex_config"
    and "\<not> st_whitelisted (w_req ex_world)" and "w_sus ex_world = []"
    by (simp_all add: ex_simps ex_probe_def route_of_def client_host_def)
  then show ?thesis
    using threats_counted_in_both_modes [of ex_probe "''10.0.0.7''" ex_config ex_world ex_env]
      ex_probe_found by simp
qed

text \<open>
  The escalation after a refused client counts what the default engine finds, not what the
  configured one would: excluded parameters, disabled categories and custom engine settings of the
  configuration have no effect on it.
\<close>

theorem escalation_ignores_configuration:
  assumes "detectPenetrationAttempt E rq = (True, trigger, cs)" and "c_enable_pen C"
    and "route_of w = None" and "\<not> st_whitelisted (w_req w)" and "ip \<noteq> []"
    and "trigger \<noteq> ''disabled_by_decorator''"
  shows "w_sus (snd (escalateIdentityViolation E C rq ip category why w)) =
    increment_counts ip (resolved_categories cs) (w_sus w)"
proof -
  let ?cs = "resolved_categories cs"
  let ?rest = "bnd (tryThresholdBan E C rq ip why ?cs ''penetration_attempt'')
    (escalation_report E C rq ip category why)"
  have body: "escalate_body E C rq ip category why w = thn (incrementSuspiciousCounts ip ?cs) ?rest w"
    using assms(1-3,6)
    by (simp add: escalate_body_def detectPenetrationPatterns_def shouldBypassCheck_def bnd_run [of "gets _"])
  have keep: "keeps (\<lambda>w. w_sus w = m) ?rest" for m
    by (intro keeps_intros keeps_sus_ban keeps_sus_report)
  let ?P = "\<lambda>u. w_sus u = increment_counts ip ?cs (w_sus w)"
  have P: "?P (snd (escalate_body E C rq ip category why w))"
    unfolding body by (rule after_increment) (rule keep)
  have handler: "keeps ?P (thn (log_line LogError a) (try_catch (emitBanEscalationFailed E C rq ip e) h))"
    if "\<And>e. keeps ?P (h e)" for a e h
    using that by (intro keeps_intros offline_reports keeps_emit_failed offline_unaffected stable_sus_is)
  have log: "keeps ?P (log_line LogError (g e))" for g and e :: exn
    by (intro offline_reports stable_sus_is)
  obtain r u where u: "escalate_body E C rq ip category why w = (r, u)" by fastforce
  then have "?P u" using P by simp
  then show ?thesis
    using assms(4,5) u keepsD [OF handler [OF log], of u]
    by (cases r) (simp_all add: escalateIdentityViolation_def bnd_run [of "gets _"] try_catch_run [of "escalate_body _ _ _ _ _ _"])
qed

theorem escalation_ignores_configuration_witness:
  "w_sus (snd (escalateIdentityViolation ex_env
      (ex_config\<lparr>c_excl_params := [''<script''], c_enabled_cats := [''sqli'']\<rparr>) ex_probe ''10.0.0.7''
      ''user_agent'' ''agent'' ex_world)) = increment_counts ''10.0.0.7'' [''xss''] []"
proof -
  have hit: "detectPenetrationAttempt ex_env ex_probe = (True, ex_probe_message, [''xss''])"
    unfolding detectPenetrationAttempt_def ex_probe_message_def
    by (rule first_name_hit [where v = "''1''" and rest = "[]"])
       (simp_all add: ex_probe_def isExcludedParam_def default_exclusions_def ex_env_def
         ex_detect_probe disabledCategoriesOf_def)
  have "ex_probe_message \<noteq> ''disabled_by_decorator''"
    by (simp add: ex_probe_message_def)
  with hit escalation_ignores_configuration [of ex_env ex_probe ex_probe_message "[''xss'']"
      "ex_config\<lparr>c_excl_params := [''<script''], c_enabled_cats := [''sqli'']\<rparr>" ex_world "''10.0.0.7''"
      "''user_agent''" "''agent''"]
  show ?thesis by (simp add: ex_config_def ex_world_def ex_state_def route_of_def resolved_categories_def)
qed

end
