(* ===== verification/Pipeline.thy ===== *)
theory Pipeline
  imports Client_Checks
begin

section \<open>The check pipeline (core/checks/pipeline.ts, middleware-support.ts)\<close>

text \<open>
  The pipeline runs the checks in order; the first response ends it. A check that throws is
  skipped, refused with a 500 or waved through, as the failure policy says. \<open>security_pipeline\<close> is
  the list of checks \<open>initializeSecurityMiddleware\<close> builds.
\<close>

record 'r check =
  ck_name :: string
  ck_config :: config
  ck_run :: "request \<Rightarrow> ('r, response option) eff"

text \<open>\<open>try { response = await check.check(request) } catch (e) ...\<close>: the outcome as a value.\<close>

definition attempt :: "('r, 'a) eff \<Rightarrow> ('r, exn + 'a) eff" where
  "attempt m = (\<lambda>w. case m w of (r, w') \<Rightarrow> (Inr r, w'))"

text \<open>\<open>error instanceof GuardRedisError && config.redisFailOpen\<close>.\<close>

definition redis_skips :: "config \<Rightarrow> exn \<Rightarrow> bool" where
  "redis_skips C e \<longleftrightarrow> c_redis_fail_open C \<and> (case e of RedisErr _ _ \<Rightarrow> True | OtherErr _ _ \<Rightarrow> False)"

definition handleCheckError ::
  "'r env \<Rightarrow> 'r check \<Rightarrow> exn \<Rightarrow> config \<Rightarrow> ('r, response option) eff"
where
  "handleCheckError E ck e C =
     (if redis_skips C e then
        thn (log_line LogWarn (''Skipping check '' @ ck_name ck
               @ '': Redis unavailable, failing open (redis_fail_open=True)'')) (ret None)
      else
        thn (log_line LogError (''Error in security check '' @ ck_name ck @ '' ('' @ exn_name e @ ''): ''
               @ e_redact_header E (exn_str e)))
          (if c_fail_secure C then
             thn (log_line LogWarn (''Blocking request due to check error in fail-secure mode: '' @ ck_name ck))
               (deny E C 500 ''Security check failed'')
           else ret None))"

definition fireBlockHookFor ::
  "'r env \<Rightarrow> 'r check \<Rightarrow> request \<Rightarrow> response \<Rightarrow> config \<Rightarrow> ('r, unit) eff"
where
  "fireBlockHookFor E ck rq r C =
     bnd (gets w_req) (\<lambda>rs.
       let (reason, trigger) = (case st_stash rs of None \<Rightarrow> ([], []) | Some s \<Rightarrow> s)
       in fire_block_hook E (c_on_block C) rq (ck_name ck) reason trigger False (Some (rs_status r)))"

fun execute :: "'r env \<Rightarrow> 'r check list \<Rightarrow> request \<Rightarrow> ('r, response option) eff" where
  "execute E [] rq = ret None"
| "execute E (ck # cks) rq =
     bnd (attempt (ck_run ck rq)) (\<lambda>outcome.
       case outcome of
         Inl e \<Rightarrow>
           bnd (handleCheckError E ck e (ck_config ck)) (\<lambda>blocked.
             case blocked of Some r \<Rightarrow> ret (Some r) | None \<Rightarrow> execute E cks rq)
       | Inr (Some r) \<Rightarrow> thn (fireBlockHookFor E ck rq r (ck_config ck)) (ret (Some r))
       | Inr None \<Rightarrow> execute E cks rq)"

definition pipeline_add :: "'r check \<Rightarrow> 'r check list \<Rightarrow> 'r check list" where
  "pipeline_add ck cks = cks @ [ck]"

text \<open>\<open>splice(index, 0, check)\<close>: a negative index counts from the end, both ends clamp.\<close>

definition splice_at :: "int \<Rightarrow> nat \<Rightarrow> nat" where
  "splice_at i n = (if i < 0 then nat (max 0 (int n + i)) else min (nat i) n)"

definition pipeline_insert :: "int \<Rightarrow> 'r check \<Rightarrow> 'r check list \<Rightarrow> 'r check list" where
  "pipeline_insert i ck cks =
     (let k = splice_at i (length cks) in take k cks @ [ck] @ drop k cks)"

fun pipeline_remove :: "string \<Rightarrow> 'r check list \<Rightarrow> bool \<times> 'r check list" where
  "pipeline_remove name [] = (False, [])"
| "pipeline_remove name (ck # cks) =
     (if ck_name ck = name then (True, cks)
      else (case pipeline_remove name cks of (found, rest) \<Rightarrow> (found, ck # rest)))"

definition getCheckNames :: "'r check list \<Rightarrow> string list" where
  "getCheckNames cks = map ck_name cks"

definition mk_check :: "config \<Rightarrow> string \<Rightarrow> (request \<Rightarrow> ('r, response option) eff) \<Rightarrow> 'r check" where
  "mk_check C name f = \<lparr>ck_name = name, ck_config = C, ck_run = f\<rparr>"

definition security_pipeline :: "'r env \<Rightarrow> config \<Rightarrow> resolver \<Rightarrow> 'r check list" where
  "security_pipeline E C R =
     [mk_check C ''route_config'' (RouteConfigCheck E C R),
      mk_check C ''emergency_mode'' (EmergencyModeCheck E C),
      mk_check C ''https_enforcement'' (HttpsEnforcementCheck E C),
      mk_check C ''request_logging'' (RequestLoggingCheck E C),
      mk_check C ''request_size_content'' (RequestSizeContentCheck E C),
      mk_check C ''required_headers'' (RequiredHeadersCheck E C),
      mk_check C ''authentication'' (AuthenticationCheck E C),
      mk_check C ''referrer'' (ReferrerCheck E C),
      mk_check C ''custom_validators'' (\<lambda>rq. CustomValidatorsCheck rq),
      mk_check C ''time_window'' (TimeWindowCheck E C),
      mk_check C ''cloud_ip_refresh'' (\<lambda>_. CloudIpRefreshCheck E C),
      mk_check C ''ip_security'' (IpSecurityCheck E C),
      mk_check C ''cloud_provider'' (CloudProviderCheck E C),
      mk_check C ''user_agent'' (UserAgentCheck E C),
      mk_check C ''rate_limit'' (RateLimitCheck E C),
      mk_check C ''suspicious_activity'' (SuspiciousActivityCheck E C),
      mk_check C ''custom_request'' (CustomRequestCheck E C)]"

subsection \<open>Runs of the loop\<close>

lemma attempt_run: "attempt m w = (Inr (fst (m w)), snd (m w))"
  by (cases "m w") (simp add: attempt_def)

lemma calm_fire_for [calm_intros]: "never_raises (fireBlockHookFor E ck rq r C)"
  unfolding fireBlockHookFor_def Let_def by (intro calm_intros)

lemma execute_pass: "ck_run ck rq w = (Inr None, w1) \<Longrightarrow> execute E (ck # cks) rq w = execute E cks rq w1"
  by (simp add: bnd_run attempt_run)

lemma execute_block:
  "ck_run ck rq w = (Inr (Some r), w1) \<Longrightarrow>
   execute E (ck # cks) rq w = (Inr (Some r), snd (fireBlockHookFor E ck rq r (ck_config ck) w1))"
  using never_raisesD [OF calm_fire_for, of E ck rq r "ck_config ck" w1]
  by (auto simp: bnd_run thn_run ret_run attempt_run)

lemma execute_error:
  "ck_run ck rq w = (Inl e, w1) \<Longrightarrow>
   execute E (ck # cks) rq w =
     (case handleCheckError E ck e (ck_config ck) w1 of
        (Inl e', w2) \<Rightarrow> (Inl e', w2)
      | (Inr (Some r), w2) \<Rightarrow> (Inr (Some r), w2)
      | (Inr None, w2) \<Rightarrow> execute E cks rq w2)"
  by (simp add: bnd_run ret_run attempt_run split: prod.splits sum.splits option.splits)

lemma handle_error_cases:
  "handleCheckError E ck e C w =
     (if redis_skips C e \<or> \<not> c_fail_secure C
      then (Inr None, snd (handleCheckError E ck e C w))
      else (case createErrorResponse E C 500 ''Security check failed'' of Inl e' \<Rightarrow> Inl e' | Inr r \<Rightarrow> Inr (Some r),
            snd (handleCheckError E ck e C w)))"
  by (auto simp: handleCheckError_def thn_run bnd_run ret_run log_line_def deny_def lift_res_run
      split: sum.splits)

subsection \<open>What a run keeps, and when it cannot block\<close>

lemma keeps_handle: "unaffected P \<Longrightarrow> keeps P (handleCheckError E ck e C)"
  unfolding handleCheckError_def by (intro keeps_intros report_intros)

lemma keeps_fire_for: "unaffected P \<Longrightarrow> keeps P (fireBlockHookFor E ck rq r C)"
  unfolding fireBlockHookFor_def Let_def by (intro keeps_intros report_intros)

lemma keeps_attempt [keeps_intros]: "keeps P m \<Longrightarrow> keeps P (attempt m)"
  by (simp add: keeps_def attempt_run)

lemma keeps_execute:
  assumes "unaffected P" and "\<forall>ck \<in> set cks. keeps P (ck_run ck rq)"
  shows "keeps P (execute E cks rq)"
  using assms(2)
proof (induction cks)
  case (Cons ck cks)
  then show ?case
    unfolding execute.simps
    by (intro keeps_intros keeps_handle keeps_fire_for assms(1)) simp_all
qed simp

lemma waves_handle: "\<not> c_fail_secure C \<Longrightarrow> waves (handleCheckError E ck e C)"
  unfolding handleCheckError_def by (intro returns_intros refl) simp

lemma waves_execute:
  assumes "\<forall>ck \<in> set cks. waves (ck_run ck rq) \<and> \<not> c_fail_secure (ck_config ck)"
  shows "waves (execute E cks rq)"
  using assms
proof (induction cks)
  case (Cons ck cks)
  then have IH: "waves (execute E cks rq)" and ck: "waves (ck_run ck rq)"
    and no: "\<not> c_fail_secure (ck_config ck)" by simp_all
  show ?case
  proof (rule returnsI)
    fix w x w' assume run: "execute E (ck # cks) rq w = (Inr x, w')"
    obtain o1 w1 where o1: "ck_run ck rq w = (o1, w1)" by fastforce
    then show "x = None"
    proof (cases o1)
      case (Inl e)
      obtain w2 where "handleCheckError E ck e (ck_config ck) w1 = (Inr None, w2)"
        using handle_error_cases [of E ck e "ck_config ck" w1] no by metis
      then have "execute E cks rq w2 = (Inr x, w')"
        using run execute_error [OF o1 [unfolded Inl], of E cks] by (simp del: execute.simps)
      then show ?thesis by (rule returnsD [OF IH])
    next
      case (Inr y)
      then have "y = None" using returnsD [OF ck] o1 by blast
      then have "ck_run ck rq w = (Inr None, w1)" using o1 Inr by simp
      then have "execute E cks rq w1 = (Inr x, w')" using run execute_pass by metis
      then show ?thesis by (rule returnsD [OF IH])
    qed
  qed
qed (simp add: returns_ret)

subsection \<open>Properties\<close>

text \<open>All checks pass, each on the world the ones before it leave.\<close>

fun all_pass :: "'r check list \<Rightarrow> request \<Rightarrow> 'r world \<Rightarrow> bool" where
  "all_pass [] rq w = True"
| "all_pass (ck # cks) rq w \<longleftrightarrow> passes (ck_run ck rq) w \<and> all_pass cks rq (snd (ck_run ck rq w))"

definition fails_secure :: "config \<Rightarrow> bool" where
  "fails_secure C \<longleftrightarrow> c_fail_secure C \<and> \<not> c_redis_fail_open C"

lemma execute_all_pass:
  assumes "\<forall>ck \<in> set cks. fails_secure (ck_config ck)"
  shows "passes (execute E cks rq) w \<longleftrightarrow> all_pass cks rq w"
  using assms
proof (induction cks arbitrary: w)
  case (Cons ck cks)
  obtain o1 w1 where o1: "ck_run ck rq w = (o1, w1)" by fastforce
  have secure: "c_fail_secure (ck_config ck)" "\<not> redis_skips (ck_config ck) e" for e
    using Cons.prems by (auto simp: fails_secure_def redis_skips_def)
  show ?case
  proof (cases o1)
    case (Inl e)
    have "fst (handleCheckError E ck e (ck_config ck) w1) \<noteq> Inr None"
      by (subst handle_error_cases) (simp add: secure split: sum.splits)
    then show ?thesis
      using o1 Inl execute_error [OF o1 [unfolded Inl], of E cks]
      by (auto simp: passes_def simp del: execute.simps split: prod.splits sum.splits option.splits)
  next
    case (Inr y)
    then show ?thesis
      using o1 Cons.IH [of w1] Cons.prems execute_pass [of ck rq w w1 E cks]
        execute_block [of ck rq w "the y" w1 E cks]
      by (cases y) (simp_all add: passes_def del: execute.simps)
  qed
qed simp

lemma pipeline_config: "ck \<in> set (security_pipeline E C R) \<Longrightarrow> ck_config ck = C"
  by (auto simp: security_pipeline_def mk_check_def)

text \<open>
  C2: failing secure and not failing open on Redis, the pipeline lets a request through exactly when
  all seventeen checks pass in sequence: no error of a check lets it through.
\<close>

theorem fail_secure_complete:
  assumes "c_fail_secure C" and "\<not> c_redis_fail_open C"
  shows "passes (execute E (security_pipeline E C R) rq) w \<longleftrightarrow> all_pass (security_pipeline E C R) rq w"
  by (rule execute_all_pass) (simp add: pipeline_config fails_secure_def assms)

definition ex_resolver :: resolver where
  "ex_resolver = \<lparr>rr_decorator = NoDecorator, rr_entries = []\<rparr>"

theorem fail_secure_complete_witness:
  "passes (execute ex_env (security_pipeline ex_env ex_config ex_resolver) ex_request) ex_world \<longleftrightarrow>
   all_pass (security_pipeline ex_env ex_config ex_resolver) ex_request ex_world"
  by (rule fail_secure_complete) (simp_all add: ex_config_def)

lemma waves_route_config: "c_passive C \<Longrightarrow> waves (RouteConfigCheck E C R rq)"
  unfolding RouteConfigCheck_def handleUnresolvedRoute_def by (intro returns_intros refl)

lemma waves_emergency: "c_passive C \<Longrightarrow> waves (EmergencyModeCheck E C rq)"
  unfolding EmergencyModeCheck_def Let_def by (intro returns_intros refl)

lemma waves_https: "c_passive C \<Longrightarrow> waves (HttpsEnforcementCheck E C rq)"
  unfolding HttpsEnforcementCheck_def by (intro returns_intros refl) simp

lemma waves_logging: "waves (RequestLoggingCheck E C rq)"
  unfolding RequestLoggingCheck_def by (intro returns_intros refl)

lemma waves_size_content: "c_passive C \<Longrightarrow> waves (RequestSizeContentCheck E C rq)"
  unfolding RequestSizeContentCheck_def checkRequestSizeLimit_def checkContentTypeAllowed_def Let_def
  by (intro returns_option returns_if returns_bnd [of _ _ "gets _"] returns_thn returns_ret refl waves_seq) simp_all

lemma waves_required_headers: "c_passive C \<Longrightarrow> waves (RequiredHeadersCheck E C rq)"
  unfolding RequiredHeadersCheck_def by (intro returns_intros refl waves_headers)

lemma waves_verify: "c_passive C \<Longrightarrow> waves (verify_credential E C rq rc v c)"
  unfolding verify_credential_def
  by (auto split: sum.splits option.splits intro!: returns_intros)

lemma waves_resolve:
  "c_passive C \<Longrightarrow> returns (\<lambda>(failure, v, c). failure = None) (resolveCredential E C rq rc)"
  using returnsD [OF waves_auth_failure, of C]
  by (intro returnsI)
     (fastforce simp: resolveCredential_def bnd_run ret_run split: prod.splits option.splits sum.splits)

lemma waves_authenticate: "c_passive C \<Longrightarrow> waves (authenticate E C rq rc)"
proof (rule returnsI)
  fix w x w' assume pm: "c_passive C" and run: "authenticate E C rq rc w = (Inr x, w')"
  obtain o1 w1 where o1: "resolveCredential E C rq rc w = (o1, w1)" by fastforce
  then obtain v c where "o1 = Inr (None, v, c)"
    using run returnsD [OF waves_resolve [OF pm], of E rq rc w _ w1]
    by (cases o1) (auto simp: authenticate_def bnd_run)
  then have "(case v of None \<Rightarrow> handleAuthFailure E C rq ''No auth verifier configured'' rc ''require_auth''
      | Some f \<Rightarrow> verify_credential E C rq rc f c) w1 = (Inr x, w')"
    using run o1 by (simp add: authenticate_def bnd_run)
  then show "x = None"
    using returnsD [OF waves_auth_failure [OF pm]] returnsD [OF waves_verify [OF pm]]
    by (cases v) auto
qed

lemma waves_authentication: "c_passive C \<Longrightarrow> waves (AuthenticationCheck E C rq)"
  unfolding AuthenticationCheck_def checkPresence_def
  by (auto split: option.splits prod.splits intro!: returns_intros waves_authenticate)

lemma waves_referrer: "c_passive C \<Longrightarrow> waves (ReferrerCheck E C rq)"
  unfolding ReferrerCheck_def Let_def by (intro returns_intros refl) simp

lemma waves_time_window: "c_passive C \<Longrightarrow> waves (TimeWindowCheck E C rq)"
  unfolding TimeWindowCheck_def by (intro returns_intros refl) simp

lemmas passive_waves = waves_route_config waves_emergency waves_https waves_logging
  waves_size_content waves_required_headers waves_authentication waves_referrer waves_time_window
  waves_cloud_refresh waves_IpSecurity waves_CloudProvider waves_UserAgent waves_RateLimit
  waves_Suspicious

text \<open>The pipeline without the two checks that run the application's own code.\<close>

definition own_checks :: "'r env \<Rightarrow> config \<Rightarrow> resolver \<Rightarrow> 'r check list" where
  "own_checks E C R =
     snd (pipeline_remove ''custom_request'' (snd (pipeline_remove ''custom_validators'' (security_pipeline E C R))))"

lemma own_checks_waves:
  "c_passive C \<Longrightarrow> ck \<in> set (own_checks E C R) \<Longrightarrow> waves (ck_run ck rq) \<and> ck_config ck = C"
  by (auto simp: own_checks_def security_pipeline_def mk_check_def passive_waves)

text \<open>
  C3: in passive mode, without the fail-secure policy, the pipeline blocks nothing once the two checks
  that run the application's own code are removed from it.
\<close>

theorem passive_never_blocks:
  assumes "c_passive C" and "\<not> c_fail_secure C"
  shows "waves (execute E (snd (pipeline_remove ''custom_request''
    (snd (pipeline_remove ''custom_validators'' (security_pipeline E C R))))) rq)"
  using assms by (intro waves_execute) (auto dest: own_checks_waves simp flip: own_checks_def)

theorem passive_never_blocks_witness:
  "waves (execute ex_env (snd (pipeline_remove ''custom_request''
     (snd (pipeline_remove ''custom_validators''
       (security_pipeline ex_env (ex_config\<lparr>c_passive := True, c_fail_secure := False\<rparr>) ex_resolver))))) ex_request)"
  by (rule passive_never_blocks) simp_all

subsection \<open>Privileges of a request\<close>

text \<open>The parts of the request state that grant something, and what the checks keep of them.\<close>

definition on_flags :: "(bool \<Rightarrow> bool \<Rightarrow> route_config option \<Rightarrow> bool) \<Rightarrow> 'r world \<Rightarrow> bool" where
  "on_flags Q w \<longleftrightarrow> Q (st_whitelisted (w_req w)) (st_exempt (w_req w)) (route_of w)"

lemma same_request:
  assumes "same_managers w w'"
  shows "st_whitelisted (w_req w') = st_whitelisted (w_req w)" "st_exempt (w_req w') = st_exempt (w_req w)"
    "route_of w' = route_of w"
proof -
  have "(w_req w')\<lparr>st_stash := None\<rparr> = (w_req w)\<lparr>st_stash := None\<rparr>"
    using assms by (simp add: same_managers_def)
  then show "st_whitelisted (w_req w') = st_whitelisted (w_req w)" "st_exempt (w_req w') = st_exempt (w_req w)"
    "route_of w' = route_of w"
    by (metis req_state.select_convs(5,7,8) req_state.surjective req_state.update_convs(9)
        route_of_def)+
qed

lemma offline_flags [simp]: "offline (on_flags Q)"
  by (auto simp: offline_def unaffected_def on_flags_def same_request) (simp add: route_of_def)

lemma stable_flags: "engine_stable C (on_flags Q)"
  unfolding engine_stable_def refresh_stable_def
  by simp
     (simp add: on_flags_def route_of_def set_bans_def set_sus_def set_rate_def set_sha_def world_writes)

lemma keeps_principal: "keeps (on_flags Q) (modify (\<lambda>w. w\<lparr>w_req := (w_req w)\<lparr>st_principal := p\<rparr>\<rparr>))"
  by (rule keeps_modify) (simp add: on_flags_def route_of_def)

lemma keeps_auth_failure [report_intros]: "unaffected P \<Longrightarrow> keeps P (handleAuthFailure E C rq r rc v)"
  unfolding handleAuthFailure_def by (intro keeps_intros report_intros)

lemma keeps_verify: "keeps (on_flags Q) (verify_credential E C rq rc v c)"
  unfolding verify_credential_def
  by (intro keeps_intros keeps_principal report_intros) (simp_all add: offline_unaffected)

lemma keeps_authentication: "keeps (on_flags Q) (AuthenticationCheck E C rq)"
  unfolding AuthenticationCheck_def checkPresence_def authenticate_def resolveCredential_def
  by (intro keeps_intros keeps_verify report_intros) (simp_all add: offline_unaffected)

lemma keeps_headers: "unaffected P \<Longrightarrow> keeps P (check_headers E C rq hs)"
  by (induction hs)
     (auto simp: reportHeaderViolation_def intro!: keeps_intros report_intros split: option.splits)

lemma keeps_request_checks:
  assumes "unaffected P"
  shows "keeps P (EmergencyModeCheck E C rq)" "keeps P (HttpsEnforcementCheck E C rq)"
    "keeps P (RequestLoggingCheck E C rq)" "keeps P (RequestSizeContentCheck E C rq)"
    "keeps P (RequiredHeadersCheck E C rq)" "keeps P (ReferrerCheck E C rq)"
    "keeps P (CustomValidatorsCheck rq)" "keeps P (TimeWindowCheck E C rq)" "keeps P (CustomRequestCheck E C rq)"
  unfolding EmergencyModeCheck_def HttpsEnforcementCheck_def RequestLoggingCheck_def
    RequestSizeContentCheck_def checkRequestSizeLimit_def checkContentTypeAllowed_def
    RequiredHeadersCheck_def ReferrerCheck_def CustomValidatorsCheck_def TimeWindowCheck_def
    CustomRequestCheck_def Let_def
  by (intro keeps_intros keeps_headers report_intros assms)+

lemma keeps_route_config: "keeps (on_flags (\<lambda>white exempt _. Q white exempt)) (RouteConfigCheck E C R rq)"
  unfolding RouteConfigCheck_def store_route_def getRouteConfig_def lookupRouteId_def mark_unresolved_def
    handleUnresolvedRoute_def
  by (intro keeps_intros keeps_modify report_intros)
     (auto simp: on_flags_def offline_unaffected split: decorator.splits sum.splits option.splits
       intro!: keeps_intros keeps_modify)

text \<open>A run whose first check brings \<open>P\<close> about, and whose other checks keep it.\<close>

lemma execute_establishes:
  assumes "P (snd (ck_run ck rq w))" and "unaffected P" and "\<forall>c \<in> set cks. keeps P (ck_run c rq)"
  shows "P (snd (execute E (ck # cks) rq w))"
proof -
  have "keeps P (execute E [] rq)" by simp
  have run: "snd (execute E (ck # cks) rq w) = snd ((case fst (ck_run ck rq w) of
        Inl e \<Rightarrow> bnd (handleCheckError E ck e (ck_config ck)) (\<lambda>blocked.
             case blocked of Some r \<Rightarrow> ret (Some r) | None \<Rightarrow> execute E cks rq)
      | Inr (Some r) \<Rightarrow> thn (fireBlockHookFor E ck rq r (ck_config ck)) (ret (Some r))
      | Inr None \<Rightarrow> execute E cks rq) (snd (ck_run ck rq w)))"
    by (simp add: bnd_run [of "attempt _"] attempt_run)
  show ?thesis unfolding run
    by (rule keepsD [of P], intro keeps_intros keeps_handle keeps_fire_for keeps_execute assms)
       (rule assms(1))
qed

definition earned_flags :: "'r env \<Rightarrow> config \<Rightarrow> request \<Rightarrow> bool \<Rightarrow> bool \<Rightarrow> route_config option \<Rightarrow> bool" where
  "earned_flags E C rq white exempt route \<longleftrightarrow>
     (white \<longrightarrow> (\<exists>ip. client_host rq = Some ip \<and> earned_white E C ip route)) \<and>
     (exempt \<longrightarrow> (\<exists>ip. client_host rq = Some ip \<and> earned_exempt E C ip route))"

lemma keeps_IpSecurity_earned:
  fixes E :: "'r env"
  shows "keeps (on_flags (earned_flags E C rq)) (IpSecurityCheck E C rq)"
proof (rule keeps_IpSecurity [OF stable_flags])
  fix r
  have "(\<lambda>w :: 'r world. on_flags (earned_flags E C rq) w \<and> route_of w = r) =
      on_flags (\<lambda>a b c. earned_flags E C rq a b c \<and> c = r)"
    by (auto simp: on_flags_def)
  then show "engine_stable C (\<lambda>w :: 'r world. on_flags (earned_flags E C rq) w \<and> route_of w = r)"
    by (simp only: stable_flags)
qed (auto simp: on_flags_def set_flags_def earned_flags_def route_of_def)

text \<open>
  C4: a request that starts without flags ends a run of the pipeline whitelisted only when its client
  is on the whitelist, and exempt only when it is on the exemption list, and never on a route that
  brings its own whitelist.
\<close>

theorem privileges_earned:
  assumes "\<not> privileged (w_req w)"
  shows "earned_flags E C rq
    (st_whitelisted (w_req (snd (execute E (security_pipeline E C R) rq w))))
    (st_exempt (w_req (snd (execute E (security_pipeline E C R) rq w))))
    (route_of (snd (execute E (security_pipeline E C R) rq w)))"
proof -
  let ?P = "on_flags (earned_flags E C rq)"
  have "on_flags (\<lambda>white exempt _. \<not> white \<and> \<not> exempt) w"
    using assms by (simp add: on_flags_def privileged_def)
  then have start: "?P (snd (RouteConfigCheck E C R rq w))"
    using keepsD [OF keeps_route_config, of "\<lambda>white exempt. \<not> white \<and> \<not> exempt" w E C R rq]
    by (simp add: on_flags_def earned_flags_def)
  have un: "unaffected ?P" by (simp add: offline_unaffected)
  have "?P (snd (execute E (security_pipeline E C R) rq w))"
    unfolding security_pipeline_def
    by (rule execute_establishes)
       (simp_all add: start un mk_check_def keeps_request_checks keeps_authentication
         keeps_IpSecurity_earned stable_flags keeps_cloud_refresh_check keeps_CloudProvider
         keeps_UserAgent keeps_RateLimit keeps_Suspicious)
  then show ?thesis by (simp add: on_flags_def)
qed

theorem privileges_earned_witness:
  "earned_flags ex_env ex_config ex_request
    (st_whitelisted (w_req (snd (execute ex_env (security_pipeline ex_env ex_config ex_resolver) ex_request ex_world))))
    (st_exempt (w_req (snd (execute ex_env (security_pipeline ex_env ex_config ex_resolver) ex_request ex_world))))
    (route_of (snd (execute ex_env (security_pipeline ex_env ex_config ex_resolver) ex_request ex_world)))"
  by (rule privileges_earned) (simp add: ex_world_def ex_state_def privileged_def)

subsection \<open>Two gaps between the configuration and the run\<close>

lemma stable_no_clouds: "c_block_clouds C = [] \<Longrightarrow> engine_stable C (\<lambda>w. w_clouds w = [])"
  by (auto simp: engine_stable_def offline_def unaffected_def same_managers_def
      set_bans_def set_sus_def set_rate_def set_sha_def)

lemma no_clouds_pass: "w_clouds w = [] \<Longrightarrow> passes (CloudProviderCheck E C rq) w"
proof -
  assume "w_clouds w = []"
  moreover have "cloud_any E a [] ps = False" for a and ps :: "string list"
    by (induction ps) simp_all
  ultimately show ?thesis
    by (auto simp: CloudProviderCheck_def cloud_block_def passes_def bnd_run ret_run isCloudIp_def
        split: option.splits)
qed

text \<open>
  Cloud providers blocked by a route only are never loaded: without global providers a run leaves
  the range cache empty, and the cloud-provider check of any request after it passes.
\<close>

theorem route_only_cloud_block_is_inert:
  assumes "c_block_clouds C = []" and "w_clouds w = []"
  shows "w_clouds (snd (execute E (security_pipeline E C R) rq w)) = [] \<and>
    passes (CloudProviderCheck E C rq') (snd (execute E (security_pipeline E C R) rq w))"
proof -
  let ?P = "\<lambda>w. w_clouds w = []"
  have stable: "engine_stable C ?P" by (rule stable_no_clouds [OF assms(1)])
  have un: "unaffected ?P" by (rule stable_unaffected [OF stable])
  have req: "\<And>w r. ?P w \<Longrightarrow> ?P (w\<lparr>w_req := r\<rparr>)" by simp
  have route: "keeps ?P (RouteConfigCheck E C R rq)"
    unfolding RouteConfigCheck_def store_route_def getRouteConfig_def lookupRouteId_def mark_unresolved_def
      handleUnresolvedRoute_def
    by (intro keeps_intros keeps_modify report_intros un)
       (auto split: decorator.splits sum.splits option.splits intro!: keeps_intros keeps_modify un)
  have auth: "keeps ?P (AuthenticationCheck E C rq)"
    unfolding AuthenticationCheck_def checkPresence_def authenticate_def resolveCredential_def
      verify_credential_def
    by (intro keeps_intros keeps_modify report_intros un) simp
  have ip: "keeps ?P (IpSecurityCheck E C rq)"
  proof (rule keeps_IpSecurity [OF stable])
    show "engine_stable C (\<lambda>w. ?P w \<and> route_of w = r)" for r
      using assms(1)
      by (auto simp: engine_stable_def offline_def unaffected_def same_request
          set_bans_def set_sus_def set_rate_def set_sha_def)
         (simp_all add: same_managers_def route_of_def)
  qed (simp add: set_flags_def)
  have "keeps ?P (execute E (security_pipeline E C R) rq)"
    by (rule keeps_execute [OF un])
       (simp add: security_pipeline_def mk_check_def route auth ip keeps_request_checks [OF un] stable
         keeps_cloud_refresh_check keeps_CloudProvider keeps_UserAgent keeps_RateLimit keeps_Suspicious)
  then have "?P (snd (execute E (security_pipeline E C R) rq w))" by (rule keepsD) (rule assms(2))
  then show ?thesis by (simp add: no_clouds_pass)
qed

theorem route_only_cloud_block_is_inert_witness:
  "passes (CloudProviderCheck ex_env ex_config ex_request) (snd (execute ex_env
     (security_pipeline ex_env ex_config ex_resolver) ex_request
     (ex_route_world (default_route\<lparr>rc_block_clouds := [''AWS'']\<rparr>))))"
  using route_only_cloud_block_is_inert [of ex_config "ex_route_world (default_route\<lparr>rc_block_clouds := [''AWS'']\<rparr>)"
      ex_env ex_resolver ex_request ex_request]
  by (simp add: ex_config_def ex_route_world_def ex_world_def)

text \<open>
  The application's custom request check blocks in passive mode too, and the event it sends says
  the request was only logged.
\<close>

theorem custom_request_blocks_in_passive:
  assumes "c_passive C" and "c_custom_check C = Some (name, f)" and "f rq = Inr (Some r)"
    and "e_agent E = Some (\<lambda>_. None)" and "c_agent_events C" and "e_geo E = None"
  shows "case CustomRequestCheck E C rq w of (out, w') \<Rightarrow>
    out = Inr (Some r) \<and> (\<exists>ev. w_agent w' = w_agent w @ [ev] \<and> ev_action ev = ''logged_only'')"
  using assms
  by (simp add: CustomRequestCheck_def sendMiddlewareEvent_def event_country_def agent_deliver_def
      bnd_run thn_run try_catch_run ret_run lift_res_run action_taken_def)

theorem custom_request_blocks_in_passive_witness:
  "fst (CustomRequestCheck (ex_env\<lparr>e_agent := Some (\<lambda>_. None)\<rparr>)
     (ex_config\<lparr>c_passive := True, c_custom_check := Some (''guard'', \<lambda>_. Inr (Some (ex_response [] 418)))\<rparr>)
     ex_request ex_world) = Inr (Some (ex_response [] 418))"
  using custom_request_blocks_in_passive [of "ex_config\<lparr>c_passive := True, c_custom_check :=
      Some (''guard'', \<lambda>_. Inr (Some (ex_response [] 418)))\<rparr>" "''guard''" "\<lambda>_. Inr (Some (ex_response [] 418))"
      ex_request "ex_response [] 418" "ex_env\<lparr>e_agent := Some (\<lambda>_. None)\<rparr>" ex_world]
  by (simp add: ex_config_def ex_env_def split: prod.splits)

lemma unresolved_run:
  assumes "rr_decorator R = BadDecorator" and "st_direct_route (w_req w) = None"
    and "st_route_id (w_req w) = Some i" and "i \<noteq> []" and "matchPathEntry R rq = None"
    and "c_route_strict C" and "\<not> c_passive C" and "e_agent E = None"
    and "c_on_block C = Some h" and "\<forall>p. h rq p = None"
    and "createErrorResponse E C 500 ''Route resolution failed'' = Inr r"
  shows "\<exists>w1 p. RouteConfigCheck E C R rq w = (Inr (Some r), w1) \<and> w_hooks w1 = w_hooks w @ [p] \<and>
    bp_check p = ''route_config''"
  using assms
  by (simp add: RouteConfigCheck_def getRouteConfig_def lookupRouteId_def mark_unresolved_def store_route_def
      handleUnresolvedRoute_def log_line_def sendMiddlewareEvent_def fire_block_hook_def on_block_excluded_def
      invoke_block_hook_def build_block_payload_def deny_active_def deny_def bnd_run thn_run ret_run lift_res_run)

lemma fire_for_hooks:
  assumes "c_on_block C = Some h" and "\<forall>p. h rq p = None" and "ck_name ck \<notin> set on_block_excluded"
  shows "map bp_check (w_hooks (snd (fireBlockHookFor E ck rq r C w))) = map bp_check (w_hooks w) @ [ck_name ck]"
  using assms
  by (cases "case st_stash (w_req w) of None \<Rightarrow> ([], []) | Some s \<Rightarrow> s")
     (simp add: fireBlockHookFor_def fire_block_hook_def invoke_block_hook_def build_block_payload_def
        bnd_run thn_run ret_run Let_def)

text \<open>
  A request whose route cannot be resolved under the strict policy fires the application's block
  hook twice: the check calls it, and so does the pipeline for the response the check returns.
\<close>

theorem unresolved_route_hook_twice:
  assumes "rr_decorator R = BadDecorator" and "st_direct_route (w_req w) = None"
    and "st_route_id (w_req w) = Some i" and "i \<noteq> []" and "matchPathEntry R rq = None"
    and "c_route_strict C" and "\<not> c_passive C" and "e_agent E = None"
    and "c_on_block C = Some h" and "\<forall>p. h rq p = None"
    and "createErrorResponse E C 500 ''Route resolution failed'' = Inr r"
  shows "map bp_check (w_hooks (snd (execute E (security_pipeline E C R) rq w))) =
    map bp_check (w_hooks w) @ [''route_config'', ''route_config'']"
proof -
  obtain w1 p where w1: "RouteConfigCheck E C R rq w = (Inr (Some r), w1)"
    and hooks: "w_hooks w1 = w_hooks w @ [p]" and p: "bp_check p = ''route_config''"
    using unresolved_run [OF assms] by blast
  let ?ck = "mk_check C ''route_config'' (RouteConfigCheck E C R)"
  have "ck_run ?ck rq w = (Inr (Some r), w1)" and C: "ck_config ?ck = C"
    using w1 by (simp_all add: mk_check_def)
  then have "snd (execute E (security_pipeline E C R) rq w) = snd (fireBlockHookFor E ?ck rq r C w1)"
    unfolding security_pipeline_def by (simp only: execute_block snd_conv C)
  moreover have "ck_name ?ck = ''route_config''" and "ck_name ?ck \<notin> set on_block_excluded"
    by (simp_all add: mk_check_def on_block_excluded_def)
  ultimately show ?thesis
    using fire_for_hooks [OF assms(9,10), of ?ck E r w1] hooks p by simp
qed

theorem unresolved_route_hook_twice_witness:
  "map bp_check (w_hooks (snd (execute ex_env (security_pipeline ex_env
      (ex_config\<lparr>c_route_strict := True, c_on_block := Some (\<lambda>_ _. None)\<rparr>)
      \<lparr>rr_decorator = BadDecorator, rr_entries = []\<rparr>) ex_request
      (ex_world\<lparr>w_req := ex_state\<lparr>st_route_id := Some ''r1''\<rparr>\<rparr>)))) = [''route_config'', ''route_config'']"
proof -
  let ?C = "ex_config\<lparr>c_route_strict := True, c_on_block := Some (\<lambda>_ _. None)\<rparr>"
  let ?R = "\<lparr>rr_decorator = BadDecorator, rr_entries = []\<rparr> :: resolver"
  let ?w = "ex_world\<lparr>w_req := ex_state\<lparr>st_route_id := Some ''r1''\<rparr>\<rparr>"
  obtain r where "createErrorResponse ex_env ?C 500 ''Route resolution failed'' = Inr r"
    by (simp add: createErrorResponse_def applyModifier_def ex_config_def)
  moreover have "c_on_block ?C = Some (\<lambda>_ _. None)" and "c_route_strict ?C" and "\<not> c_passive ?C"
    and "e_agent ex_env = None" and "w_hooks ?w = []"
    by (simp_all add: ex_config_def ex_env_def ex_world_def)
  moreover have "st_direct_route (w_req ?w) = None" and "st_route_id (w_req ?w) = Some ''r1''"
    and "matchPathEntry ?R ex_request = None"
    by (simp_all add: ex_state_def matchPathEntry_def)
  ultimately have "map bp_check (w_hooks (snd (execute ex_env (security_pipeline ex_env ?C ?R) ex_request ?w))) =
      map bp_check (w_hooks ?w) @ [''route_config'', ''route_config'']"
    by (intro unresolved_route_hook_twice [where i = "''r1''" and h = "\<lambda>_ _. None" and r = r])
      (simp_all only: resolver.select_convs refl simp_thms list.distinct)
  then show ?thesis using \<open>w_hooks ?w = []\<close> by (simp only: list.map append_Nil)
qed

lemma remove_middle:
  "\<forall>c \<in> set xs. ck_name c \<noteq> ck_name ck \<Longrightarrow> pipeline_remove (ck_name ck) (xs @ ck # ys) = (True, xs @ ys)"
  by (induction xs) auto

text \<open>
  A check inserted at any index, under a name the pipeline does not have, is what removal by that
  name takes out, and the pipeline is as before.
\<close>

theorem insert_remove_roundtrip:
  assumes "ck_name ck \<notin> set (getCheckNames cks)"
  shows "pipeline_remove (ck_name ck) (pipeline_insert i ck cks) = (True, cks)"
proof -
  let ?k = "splice_at i (length cks)"
  have "\<forall>c \<in> set (take ?k cks). ck_name c \<noteq> ck_name ck"
    using assms by (auto simp: getCheckNames_def image_iff dest!: in_set_takeD)
  from remove_middle [OF this, of "drop ?k cks"] show ?thesis
    by (simp add: pipeline_insert_def Let_def)
qed

theorem insert_remove_roundtrip_witness:
  "pipeline_remove ''extra'' (pipeline_insert (- 1) (mk_check ex_config ''extra'' (\<lambda>_. ret None))
     (security_pipeline ex_env ex_config ex_resolver)) = (True, security_pipeline ex_env ex_config ex_resolver)"
  using insert_remove_roundtrip [of "mk_check ex_config ''extra'' (\<lambda>_. ret None)"
      "security_pipeline ex_env ex_config ex_resolver" "- 1"]
  by (simp add: getCheckNames_def security_pipeline_def mk_check_def)

end
