(* ===== verification/WebSocket_Guard.thy ===== *)
theory WebSocket_Guard
  imports Pipeline
begin

section \<open>The WebSocket upgrade guard (core/websocket-guard.ts)\<close>

text \<open>
  \<open>guardWebSocketUpgrade\<close>: the client identity, its ban, the access lists, the rate limit of the
  \<open>ws\<close> endpoint and penetration detection decide whether the handshake goes on.
\<close>

record close_reason =
  cr_code :: int
  cr_reason :: string

definition WS_CLOSE_IP_BANNED :: close_reason where
  "WS_CLOSE_IP_BANNED = \<lparr>cr_code = 1008, cr_reason = ''IP banned''\<rparr>"

definition WS_CLOSE_IP_NOT_ALLOWED :: close_reason where
  "WS_CLOSE_IP_NOT_ALLOWED = \<lparr>cr_code = 1008, cr_reason = ''IP not allowed''\<rparr>"

definition WS_CLOSE_RATE_LIMIT_EXCEEDED :: close_reason where
  "WS_CLOSE_RATE_LIMIT_EXCEEDED = \<lparr>cr_code = 1008, cr_reason = ''Rate limit exceeded''\<rparr>"

definition WS_CLOSE_CLIENT_ADDRESS_UNKNOWN :: close_reason where
  "WS_CLOSE_CLIENT_ADDRESS_UNKNOWN =
     \<lparr>cr_code = 1008, cr_reason = ''Client address could not be determined''\<rparr>"

definition WS_CLOSE_SECURITY_CHECK_FAILED :: close_reason where
  "WS_CLOSE_SECURITY_CHECK_FAILED = \<lparr>cr_code = 1013, cr_reason = ''Security check failed''\<rparr>"

definition WS_CLOSE_SUSPICIOUS_ACTIVITY :: close_reason where
  "WS_CLOSE_SUSPICIOUS_ACTIVITY = \<lparr>cr_code = 1008, cr_reason = ''Suspicious activity detected''\<rparr>"

datatype ws_verdict =
  WsAllowed string
| WsRejected close_reason int string

definition ws_reject :: "close_reason \<Rightarrow> ws_verdict" where
  "ws_reject close = WsRejected close 403
     (''WebSocket upgrade rejected: '' @ cr_reason close @ '' (ws close '' @ show_int (cr_code close) @ '')'')"

definition set_state :: "(req_state \<Rightarrow> req_state) \<Rightarrow> ('r, unit) eff" where
  "set_state f = modify (\<lambda>w. w\<lparr>w_req := f (w_req w)\<rparr>)"

definition ws_client :: "request \<Rightarrow> string" where
  "ws_client rq = (case rq_host rq of None \<Rightarrow> [] | Some h \<Rightarrow> h)"

definition runPenetrationDetection :: "'r env \<Rightarrow> config \<Rightarrow> request \<Rightarrow> ('r, ws_verdict) eff" where
  "runPenetrationDetection E C rq =
     (if \<not> c_enable_pen C then ret (WsAllowed (ws_client rq))
      else
        bnd (isPathExcluded E C rq) (\<lambda>excluded.
          if excluded then
            thn (set_state (\<lambda>rs. rs\<lparr>st_exclusion_scoped := True\<rparr>)) (ret (WsAllowed (ws_client rq)))
          else
            bnd (execute E [mk_check C ''suspicious_activity'' (SuspiciousActivityCheck E C)] rq) (\<lambda>response.
              ret (case response of
                     None \<Rightarrow> WsAllowed (ws_client rq)
                   | Some r \<Rightarrow> if rs_status r = 500 then ws_reject WS_CLOSE_SECURITY_CHECK_FAILED
                               else ws_reject WS_CLOSE_SUSPICIOUS_ACTIVITY))))"

text \<open>The ban lookup under the failure policies: \<open>None\<close> rejects the handshake.\<close>

definition ws_banned :: "'r env \<Rightarrow> config \<Rightarrow> string \<Rightarrow> ('r, bool option) eff" where
  "ws_banned E C ip =
     (if \<not> e_ban_manager E then ret (Some False)
      else
        try_catch (bnd (isIpBanned E ip) (\<lambda>b. ret (Some b)))
          (\<lambda>e. if redis_skips C e then
                 thn (log_line LogWarn ''Skipping ip_ban check: Redis unavailable, failing open (redisFailOpen=true)'')
                   (ret (Some False))
               else if c_fail_secure C then
                 thn (log_line LogWarn ''Blocking websocket handshake due to redis error in fail-secure mode'')
                   (ret None)
               else thn (log_line LogError (''Error in ip ban check: '' @ exn_str e)) (ret (Some False))))"

definition ws_rate_limited :: "'r env \<Rightarrow> config \<Rightarrow> request \<Rightarrow> string \<Rightarrow> ('r, bool) eff" where
  "ws_rate_limited E C rq ip =
     (if ip = ''unknown'' \<or> whitelist_of C \<noteq> [] then ret False
      else
        bnd (checkRateLimit E C (createErrorResponse E C) rq ip (Some ''ws'') (c_rate_limit C) (c_rate_window C))
          (\<lambda>limited. ret (limited \<noteq> None)))"

definition guardWebSocketUpgrade :: "'r env \<Rightarrow> config \<Rightarrow> request \<Rightarrow> ('r, ws_verdict) eff" where
  "guardWebSocketUpgrade E C rq =
     bnd (extractClientIp E C rq) (\<lambda>ip.
     thn (set_state (\<lambda>rs. rs\<lparr>st_client_ip_camel := Some ip\<rparr>))
       (if ip = ''unknown'' \<and> c_fail_secure C then ret (ws_reject WS_CLOSE_CLIENT_ADDRESS_UNKNOWN)
        else
          bnd (ws_banned E C ip) (\<lambda>banned.
            case banned of
              None \<Rightarrow> ret (ws_reject WS_CLOSE_SECURITY_CHECK_FAILED)
            | Some b \<Rightarrow>
                if b then ret (ws_reject WS_CLOSE_IP_BANNED)
                else
                  bnd (isIpAllowed E ip C) (\<lambda>allowed.
                    if \<not> allowed then ret (ws_reject WS_CLOSE_IP_NOT_ALLOWED)
                    else
                      thn (set_state (\<lambda>rs. rs\<lparr>st_whitelisted := ip \<noteq> ''unknown'' \<and> whitelist_of C \<noteq> []\<rparr>))
                        (bnd (ws_rate_limited E C rq ip) (\<lambda>limited.
                           if limited then ret (ws_reject WS_CLOSE_RATE_LIMIT_EXCEEDED)
                           else runPenetrationDetection E C rq))))))"

subsection \<open>Properties\<close>

lemma keeps_extract: "unaffected P \<Longrightarrow> keeps P (extractClientIp E C rq)"
  unfolding extractClientIp_def by (intro keeps_intros report_intros)

lemma ws_ban_live:
  assumes "e_ban_manager E" and "ban_live (w_now w) ip (w_bans w)"
  shows "ws_banned E C ip w = (Inr (Some True), w)"
  using assms by (simp add: ws_banned_def try_catch_run bnd_run ret_run isIpBanned_local)

text \<open>The steps up to the ban check, on the world the identification leaves.\<close>

lemma ws_identified:
  assumes "extractClientIp E C rq w = (Inr ip, w1)"
  shows "w_now w1 = w_now w \<and> w_bans w1 = w_bans w"
  using keepsD [OF keeps_extract, of "\<lambda>u. w_now u = w_now w \<and> w_bans u = w_bans w" w E C rq] assms
  by (simp add: unaffected_def same_managers_def)

lemma ws_live_ban_rejects:
  assumes "extractClientIp E C rq w = (Inr ip, w1)" and "ip \<noteq> ''unknown''"
    and "e_ban_manager E" and "ban_live (w_now w) ip (w_bans w)"
  shows "fst (guardWebSocketUpgrade E C rq w) = Inr (ws_reject WS_CLOSE_IP_BANNED)"
proof -
  let ?w = "w1\<lparr>w_req := (w_req w1)\<lparr>st_client_ip_camel := Some ip\<rparr>\<rparr>"
  have "ws_banned E C ip ?w = (Inr (Some True), ?w)"
    using ws_identified [OF assms(1)] assms(3,4) by (intro ws_ban_live) simp_all
  then show ?thesis
    using assms(1,2) by (simp add: guardWebSocketUpgrade_def set_state_def bnd_run thn_run ret_run)
qed

text \<open>
  C39: in fail-secure mode a WebSocket upgrade goes on only for an identified client whose address
  parses, which no live ban and no blacklist entry covers, and which the whitelist, if any, holds.
\<close>

theorem websocket_upgrade_safe:
  assumes "fst (guardWebSocketUpgrade E C rq w) = Inr (WsAllowed host)" and "c_fail_secure C"
    and "e_ban_manager E" and "extractClientIp E C rq w = (Inr ip, w1)"
  shows "ip \<noteq> ''unknown'' \<and> \<not> ban_live (w_now w) ip (w_bans w) \<and> e_ip_parse E ip \<noteq> None \<and>
    \<not> isIpInBlacklist E ip (c_blacklist C) \<and> isIpInWhitelist E ip (whitelist_of C) \<noteq> Some False"
proof -
  have known: "ip \<noteq> ''unknown''"
    using assms by (auto simp: guardWebSocketUpgrade_def set_state_def bnd_run thn_run ret_run ws_reject_def)
  moreover have "\<not> ban_live (w_now w) ip (w_bans w)"
    using ws_live_ban_rejects [OF assms(4) known assms(3)] assms(1) by (auto simp: ws_reject_def)
  moreover obtain u where "fst (isIpAllowed E ip C u) = Inr True"
    using assms(1,4) known
    by (simp add: guardWebSocketUpgrade_def set_state_def bnd_run thn_run ret_run ws_reject_def
        split: prod.splits sum.splits option.splits if_splits) (metis fst_conv)
  ultimately show ?thesis
    using ip_allowed_sound [of E ip C u] by auto
qed

lemma ex_upgrade:
  assumes "w_bans w = []" and "st_whitelisted (w_req w) = False"
  shows "\<exists>w1. guardWebSocketUpgrade ex_env (ex_config\<lparr>c_enable_pen := False, c_whitelist := Some [''10.0.0.7'']\<rparr>)
    ex_request w = (Inr (WsAllowed ''10.0.0.7''), w1)"
proof -
  let ?C = "ex_config\<lparr>c_enable_pen := False, c_whitelist := Some [''10.0.0.7'']\<rparr>"
  have parse: "e_ip_parse ex_env ''10.0.0.7'' = Some [10, 0, 0, 7]"
    by (simp add: ex_env_def ex_parse_def ex_num_def ex_digit_def is_digit_def)
  have ident: "extractClientIp ex_env ?C ex_request w = (Inr ''10.0.0.7'', w)"
    by (simp add: extractClientIp_def client_host_def ex_request_def ret_run)
  have cfg: "c_blacklist ?C = []" "whitelist_of ?C = [''10.0.0.7'']" "e_geo ex_env = None"
    "c_enable_pen ?C = False" "e_redis ex_env = None" "e_ban_manager ex_env"
    by (simp_all add: ex_config_def ex_env_def whitelist_of_def)
  have allowed: "isIpAllowed ex_env ''10.0.0.7'' ?C u = (Inr True, u)" for u
    unfolding isIpAllowed_def cfg parse
    by (simp add: opt_raise_def ret_run try_catch_run bnd_run)
  have free: "ws_banned ex_env ?C ''10.0.0.7'' u = (Inr (Some False), u)" if "w_bans u = []" for u
    using that cfg by (simp add: ws_banned_def try_catch_run bnd_run ret_run isIpBanned_local ban_live_def
        redis_ban_check_def set_bans_def)
  have host: "ws_client ex_request = ''10.0.0.7''" by (simp add: ws_client_def ex_request_def)
  show ?thesis
    using assms
    by (simp add: guardWebSocketUpgrade_def ident set_state_def free allowed cfg ws_rate_limited_def
        runPenetrationDetection_def host bnd_run thn_run ret_run)
qed

theorem websocket_upgrade_safe_witness:
  "\<not> ban_live (w_now ex_world) ''10.0.0.7'' (w_bans ex_world) \<and>
   isIpInWhitelist ex_env ''10.0.0.7'' (whitelist_of
     (ex_config\<lparr>c_enable_pen := False, c_whitelist := Some [''10.0.0.7'']\<rparr>)) \<noteq> Some False"
proof -
  let ?C = "ex_config\<lparr>c_enable_pen := False, c_whitelist := Some [''10.0.0.7'']\<rparr>"
  have "fst (guardWebSocketUpgrade ex_env ?C ex_request ex_world) = Inr (WsAllowed ''10.0.0.7'')"
    using ex_upgrade [of ex_world] by (auto simp: ex_world_def ex_state_def)
  moreover have "c_fail_secure ?C" and "e_ban_manager ex_env"
    and "extractClientIp ex_env ?C ex_request ex_world = (Inr ''10.0.0.7'', ex_world)"
    by (simp_all add: ex_config_def ex_env_def extractClientIp_def client_host_def ex_request_def ret_run)
  ultimately show ?thesis using websocket_upgrade_safe by blast
qed

text \<open>
  The upgrade guard rejects in passive mode as well: a live ban of an identified client ends the
  handshake with the ban's close code whatever the mode of the configuration.
\<close>

theorem websocket_rejects_in_passive:
  assumes "c_passive C" and "extractClientIp E C rq w = (Inr ip, w1)" and "ip \<noteq> ''unknown''"
    and "e_ban_manager E" and "ban_live (w_now w) ip (w_bans w)"
  shows "fst (guardWebSocketUpgrade E C rq w) = Inr (WsRejected \<lparr>cr_code = 1008, cr_reason = ''IP banned''\<rparr> 403
    ''WebSocket upgrade rejected: IP banned (ws close 1008)'')"
proof -
  have "show_int 1008 = ''1008''" by code_simp
  then show ?thesis
    using ws_live_ban_rejects [OF assms(2-5)] by (simp add: ws_reject_def WS_CLOSE_IP_BANNED_def)
qed

theorem websocket_rejects_in_passive_witness:
  "fst (guardWebSocketUpgrade ex_env (ex_config\<lparr>c_passive := True\<rparr>) ex_request
     (ex_world\<lparr>w_bans := [(''10.0.0.7'', \<lparr>be_expires = 2000, be_reason = [], be_at = 900\<rparr>)]\<rparr>)) =
   Inr (WsRejected \<lparr>cr_code = 1008, cr_reason = ''IP banned''\<rparr> 403
     ''WebSocket upgrade rejected: IP banned (ws close 1008)'')"
proof -
  let ?w = "ex_world\<lparr>w_bans := [(''10.0.0.7'', \<lparr>be_expires = 2000, be_reason = [], be_at = 900\<rparr>)]\<rparr>"
  have "extractClientIp ex_env (ex_config\<lparr>c_passive := True\<rparr>) ex_request ?w = (Inr ''10.0.0.7'', ?w)"
    by (simp add: extractClientIp_def client_host_def ex_request_def ret_run)
  moreover have "ban_live (w_now ?w) ''10.0.0.7'' (w_bans ?w)"
    by (simp add: ban_live_def ex_world_def)
  moreover have "e_ban_manager ex_env" by (simp add: ex_env_def)
  ultimately show ?thesis by (intro websocket_rejects_in_passive) simp_all
qed

end
