(* ===== verification/Rate_Limit_By_Ip.thy ===== *)
theory Rate_Limit_By_Ip
  imports Violation_Counts Sliding_Window
begin

section \<open>The stand-alone limiter (handlers/rate-limit-by-ip.ts)\<close>

text \<open>
  \<open>checkRateLimitByIp\<close>: check and record a hit for a raw IP outside the pipeline, with its own
  LRU-capped windows (\<open>w_by_ip\<close>) and its own violation counter (\<open>w_by_ip_bans\<close>). Its answer is
  the count before the hit. The module variable \<open>MAX_TRACKED_RATE_LIMIT_KEYS\<close> keeps its
  initial value (only tests change it).
\<close>

definition MAX_TRACKED_RATE_LIMIT_KEYS :: nat where "MAX_TRACKED_RATE_LIMIT_KEYS = 10000"

definition hashIdentitySegment :: "'r env \<Rightarrow> string \<Rightarrow> string" where
  "hashIdentitySegment E v = e_sha256 E v"

text \<open>The value found or created, and the store without the key and with room for it.\<close>

definition lruPopOrCreate :: "('k, 'v) omap \<Rightarrow> 'k \<Rightarrow> nat \<Rightarrow> 'v \<Rightarrow> 'v \<times> ('k, 'v) omap" where
  "lruPopOrCreate store key maxSize create =
     (case map_of store key of
        Some existing \<Rightarrow> (existing, AList.delete key store)
      | None \<Rightarrow> (create, if length store \<ge> maxSize then om_drop_oldest store else store))"

definition warnRedisFailOpenOnce :: "('r, unit) eff" where
  "warnRedisFailOpenOnce =
     bnd (gets w_redis_warned) (\<lambda>warned.
       if warned then ret ()
       else thn (modify (\<lambda>w. w\<lparr>w_redis_warned := True\<rparr>))
         (log_line LogWarn (''Redis unavailable for rate limiting; using the in-memory window ''
            @ ''(redis_fail_open=True); with several workers the effective limit ''
            @ ''is workers x rate_limit'')))"

definition by_ip_redis_error :: exn where
  "by_ip_redis_error = RedisErr 503 ''Redis rate limiting unavailable''"

definition resolveRedisFailure :: "exn \<Rightarrow> bool \<Rightarrow> string \<Rightarrow> ('r, unit) eff" where
  "resolveRedisFailure e failOpen ctx =
     (if failOpen then warnRedisFailOpenOnce
      else thn (log_line LogError (ctx @ '': '' @ exn_str e)) (raise_exn by_ip_redis_error))"

definition by_ip_key :: "'r env \<Rightarrow> string \<Rightarrow> string \<Rightarrow> string" where
  "by_ip_key E ip ep = (if ep = [] then ip else ip @ '':'' @ hashIdentitySegment E ep)"

definition redisRequestCountByIp ::
  "'r env \<Rightarrow> string \<Rightarrow> rat \<Rightarrow> rat \<Rightarrow> int \<Rightarrow> string \<Rightarrow> bool \<Rightarrow> ('r, int option) eff"
where
  "redisRequestCountByIp E ip now start window ep failOpen =
     (case e_redis E of
        Some (Some c) \<Rightarrow>
          (let key = e_redis_prefix E @ ''rate_limit:rate:'' @ by_ip_key E ip ep
           in try_catch
                (bnd (on_redis (cl_zadd c key now (e_num_str E now))) (\<lambda>_.
                 bnd (on_redis (cl_zremrangebyscore c key 0 start)) (\<lambda>_.
                 bnd (on_redis (cl_zcard c key)) (\<lambda>count.
                 bnd (on_redis (cl_expire c key (window * 2))) (\<lambda>_. ret (Some count))))))
                (\<lambda>e. thn (resolveRedisFailure e failOpen ''Redis rate limiting error'') (ret None)))
      | _ \<Rightarrow> ret None)"

text \<open>The in-memory window: the count before the hit, and the store after it.\<close>

definition by_ip_hit ::
  "string \<Rightarrow> rat \<Rightarrow> rat \<Rightarrow> (string, rat list) omap \<Rightarrow> nat \<times> (string, rat list) omap"
where
  "by_ip_hit key start now m =
     (let (ts, m') = lruPopOrCreate m key MAX_TRACKED_RATE_LIMIT_KEYS [];
          live = shift_expired start ts
      in (length live, AList.update key (live @ [now]) m'))"

definition set_by_ip :: "(string, rat list) omap \<Rightarrow> 'r world \<Rightarrow> 'r world" where
  "set_by_ip m w = w\<lparr>w_by_ip := m\<rparr>"

definition inMemoryRequestCountByIp :: "'r env \<Rightarrow> string \<Rightarrow> rat \<Rightarrow> rat \<Rightarrow> string \<Rightarrow> ('r, nat) eff" where
  "inMemoryRequestCountByIp E ip start now ep =
     bnd (gets (\<lambda>w. by_ip_hit (by_ip_key E ip ep) start now (w_by_ip w))) (\<lambda>(n, m).
       thn (modify (set_by_ip m)) (ret n))"

subsection \<open>The auto-ban feed\<close>

text \<open>
  \<open>new IPBanManager(defaultLogger)\<close>: a manager with an empty ban map, without Redis and
  without an agent, that is dropped when the call returns.
\<close>

definition fresh_manager_env :: "'r env \<Rightarrow> 'r env" where
  "fresh_manager_env E = E\<lparr>e_redis := None, e_agent := None, e_ban_manager := True\<rparr>"

definition on_fresh_manager :: "('r, 'a) eff \<Rightarrow> ('r, 'a) eff" where
  "on_fresh_manager m =
     (\<lambda>w. let (r, w') = m (set_bans [] w) in (r, set_bans (w_bans w) w'))"

definition count_autoban :: "string \<Rightarrow> ('r, int) eff" where
  "count_autoban ip =
     bnd (gets (\<lambda>w. lruPopOrCreate (w_by_ip_bans w) ip MAX_TRACKED_RATE_LIMIT_KEYS 0)) (\<lambda>(n, m).
       thn (modify (\<lambda>w. w\<lparr>w_by_ip_bans := AList.update ip (n + 1) m\<rparr>)) (ret (n + 1)))"

definition feedRateLimitAutoban :: "'r env \<Rightarrow> config \<Rightarrow> string \<Rightarrow> ('r, unit) eff" where
  "feedRateLimitAutoban E C ip =
     (if \<not> (c_rl_autoban C \<and> c_enable_ban C) then ret ()
      else if c_passive C then ret ()
      else on_fresh_manager
        (bnd (isIpBanned (fresh_manager_env E) ip) (\<lambda>banned.
           if banned then ret ()
           else bnd (count_autoban ip) (\<lambda>count.
             bnd (resolveThresholdBan (fresh_manager_env E) C [(''rate_limit'', count)] ip
                    [''rate_limit''] ''rate_limit_exceeded'') (\<lambda>result.
               case result of
                 None \<Rightarrow> ret ()
               | Some _ \<Rightarrow> log_line LogWarn
                   (''check_rate_limit_by_ip: auto-banned '' @ ip @ '' (rate_limit_exceeded)''))))))"

subsection \<open>checkRateLimitByIp\<close>

definition isValidIp :: "'r env \<Rightarrow> string \<Rightarrow> bool" where
  "isValidIp E ip = (case e_ip_parse E ip of None \<Rightarrow> False
     | Some a \<Rightarrow> e_ip_kind E a = V4 \<or> e_ip_kind E a = V6)"

definition by_ip_check_window :: "'r env \<Rightarrow> config \<Rightarrow> string \<Rightarrow> string \<Rightarrow> ('r, bool) eff" where
  "by_ip_check_window E C ip ep =
     bnd (gets w_now) (\<lambda>now.
       let start = now - of_int (c_rate_window C) in
       bnd (if c_enable_redis C \<and> e_redis E \<noteq> None
            then redisRequestCountByIp E ip now start (c_rate_window C) ep (c_redis_fail_open C)
            else ret None) (\<lambda>count.
         case count of
           Some n \<Rightarrow> ret (n \<le> c_rate_limit C)
         | None \<Rightarrow> bnd (inMemoryRequestCountByIp E ip start now ep) (\<lambda>n.
             ret (int n < c_rate_limit C))))"

definition checkRateLimitByIp :: "'r env \<Rightarrow> config \<Rightarrow> string \<Rightarrow> string \<Rightarrow> ('r, bool) eff" where
  "checkRateLimitByIp E C ip ep =
     (if \<not> isValidIp E ip
      then raise_exn (OtherErr ''TypeError''
             (''check_rate_limit_by_ip: invalid ip '' @ e_json_str E (JStr ip)))
      else if CHR '':'' \<in> set ep
      then raise_exn (OtherErr ''TypeError''
             (''check_rate_limit_by_ip: endpoint_path must not contain '' @ [CHR 0x27] @ '':''
              @ [CHR 0x27] @ '' (got '' @ e_json_str E (JStr (e_redact_url E ep)) @ '')''))
      else if \<not> c_enable_rl C then ret True
      else bnd (by_ip_check_window E C ip ep) (\<lambda>allowed.
             thn (when_eff (\<not> allowed) (feedRateLimitAutoban E C ip)) (ret allowed)))"

subsection \<open>The window contract\<close>

text \<open>The pop-or-create and the write that follows it are one recency write.\<close>

lemma lru_put:
  "AList.update k v (snd (lruPopOrCreate m k cap d)) = recency_put cap k v m"
  by (auto simp: lruPopOrCreate_def recency_put_def Let_def split: option.splits)

lemma lru_value: "fst (lruPopOrCreate m k cap d) = om_get_or d m k"
  by (auto simp: lruPopOrCreate_def om_get_or_def split: option.splits)

lemma by_ip_hit_eq:
  "by_ip_hit k start now m =
     (length (shift_expired start (om_get_or [] m k)),
      recency_put MAX_TRACKED_RATE_LIMIT_KEYS k (shift_expired start (om_get_or [] m k) @ [now]) m)"
  by (simp add: by_ip_hit_def Let_def case_prod_beta lru_put lru_value)

text \<open>A hit has room when its key is tracked or the store is below its cap.\<close>

definition by_ip_room :: "string \<Rightarrow> (string, rat list) omap \<Rightarrow> bool" where
  "by_ip_room k m \<longleftrightarrow> map_of m k \<noteq> None \<or> length m < MAX_TRACKED_RATE_LIMIT_KEYS"

lemma recency_other_room:
  "map_of m k \<noteq> None \<or> length m < cap \<Longrightarrow> k' \<noteq> k \<Longrightarrow>
   map_of (recency_put cap k v m) k' = map_of m k'"
  by (auto simp: recency_put_def Let_def)

interpretation by_ip: window_counter "\<lambda>k now W m. by_ip_hit k (now - W) now m"
  "\<lambda>m k. om_get_or [] m k" by_ip_room 0
proof unfold_locales
  fix m :: "(string, rat list) omap" and k k' :: string and now W :: rat
  show "om_get_or [] (snd (by_ip_hit k (now - W) now m)) k =
      filter (\<lambda>t. now - W < t) (om_get_or [] m k) @ [now]" if "sorted (om_get_or [] m k)"
    using that by (simp add: by_ip_hit_eq om_get_or_def [of "[]" "recency_put _ _ _ _"] shift_filter)
  show "om_get_or [] (snd (by_ip_hit k (now - W) now m)) k' = om_get_or [] m k'"
    if "by_ip_room k m" and "k' \<noteq> k"
    using that by (simp add: by_ip_hit_eq om_get_or_def by_ip_room_def recency_other_room)
  show "fst (by_ip_hit k (now - W) now m) =
      0 + length (filter (\<lambda>t. now - W < t) (om_get_or [] m k))" if "sorted (om_get_or [] m k)"
    using that by (simp add: by_ip_hit_eq shift_filter)
qed

subsection \<open>The auto-ban feed never raises and bans nobody else's map\<close>

lemma calm_banIp_local [calm_intros]: "e_redis E = None \<Longrightarrow> never_raises (banIp E ip d r)"
  unfolding banIp_def by (intro calm_intros) simp_all

lemma calm_isIpBanned_local [calm_intros]: "e_redis E = None \<Longrightarrow> never_raises (isIpBanned E ip)"
  unfolding isIpBanned_def redis_ban_check_def by (intro calm_intros) simp_all

lemma calm_resolve_local [calm_intros]:
  "e_redis E = None \<Longrightarrow> never_raises (resolveThresholdBan E C counts ip cs r)"
  unfolding resolveThresholdBan_def by (intro calm_intros)

lemma calm_fresh [calm_intros]: "never_raises m \<Longrightarrow> never_raises (on_fresh_manager m)"
  unfolding never_raises_def on_fresh_manager_def Let_def
  by (metis (no_types, lifting) fst_conv prod.case_eq_if)

lemma fresh_env_no_redis [simp]: "e_redis (fresh_manager_env E) = None"
  by (simp add: fresh_manager_env_def)

lemma calm_count_autoban [calm_intros]: "never_raises (count_autoban ip)"
  unfolding count_autoban_def by (intro calm_intros)

lemma calm_feed [calm_intros]: "never_raises (feedRateLimitAutoban E C ip)"
  unfolding feedRateLimitAutoban_def
  by (intro calm_intros) simp_all

lemma on_fresh_bans: "w_bans (snd (on_fresh_manager m w)) = w_bans w"
  by (simp add: on_fresh_manager_def Let_def case_prod_beta)

lemma feed_bans: "w_bans (snd (feedRateLimitAutoban E C ip w)) = w_bans w"
  by (simp add: feedRateLimitAutoban_def on_fresh_bans ret_run)

lemma memory_by_ip_run:
  "inMemoryRequestCountByIp E ip start now ep w =
     (Inr (fst (by_ip_hit (by_ip_key E ip ep) start now (w_by_ip w))),
      set_by_ip (snd (by_ip_hit (by_ip_key E ip ep) start now (w_by_ip w))) w)"
  by (simp add: inMemoryRequestCountByIp_def bnd_run thn_run ret_run case_prod_beta)

lemma after_calm: "never_raises m \<Longrightarrow> fst (thn m (ret x) w) = Inr x"
  by (drule never_raisesD [where w = w]) (auto simp: thn_run ret_run)

definition by_ip_accepts :: "'r env \<Rightarrow> config \<Rightarrow> string \<Rightarrow> string \<Rightarrow> bool" where
  "by_ip_accepts E C ip ep \<longleftrightarrow> isValidIp E ip \<and> CHR '':'' \<notin> set ep \<and> c_enable_rl C"

lemma by_ip_accepted:
  "by_ip_accepts E C ip ep \<Longrightarrow>
   checkRateLimitByIp E C ip ep =
     bnd (by_ip_check_window E C ip ep)
       (\<lambda>allowed. thn (when_eff (\<not> allowed) (feedRateLimitAutoban E C ip)) (ret allowed))"
  unfolding checkRateLimitByIp_def by_ip_accepts_def by (simp only: if_False if_True simp_thms)

lemma by_ip_answer:
  assumes "by_ip_accepts E C ip ep"
  shows "fst (checkRateLimitByIp E C ip ep w) = fst (by_ip_check_window E C ip ep w)"
proof (cases "by_ip_check_window E C ip ep w")
  case (Pair r w')
  have "fst (thn (when_eff b (feedRateLimitAutoban E C ip)) (ret (c :: bool)) w') = Inr c" for b c
    by (rule after_calm) (intro calm_intros)
  with Pair show ?thesis
    by (cases r) (simp_all add: by_ip_accepted [OF assms] bnd_run)
qed

subsection \<open>Properties\<close>

text \<open>
  C40: for accepted input without Redis, after any hits in clock order that the capped store had
  room for, the stand-alone check answers allowed exactly when the earlier hits of the
  same IP and endpoint inside the window are fewer than the limit (this hit not counted).
\<close>

theorem by_ip_limit_exact:
  assumes "by_ip_accepts E C ip ep" and "\<not> c_enable_redis C \<or> e_redis E = None"
    and "sorted (map snd xs @ [w_now w])"
    and "w_by_ip w = run_hits (\<lambda>k now W m. by_ip_hit k (now - W) now m) (of_int (c_rate_window C)) xs []"
    and "all_room (\<lambda>k now W m. by_ip_hit k (now - W) now m) by_ip_room (of_int (c_rate_window C)) xs []"
  shows "fst (checkRateLimitByIp E C ip ep w) =
    Inr (int (live_hits (by_ip_key E ip ep) (w_now w - of_int (c_rate_window C)) xs) < c_rate_limit C)"
proof -
  let ?W = "of_int (c_rate_window C) :: rat"
  have "fst (by_ip_hit (by_ip_key E ip ep) (w_now w - ?W) (w_now w) (w_by_ip w)) =
      0 + live_hits (by_ip_key E ip ep) (w_now w - ?W) xs"
    unfolding assms(4) using assms(3,5) by (intro by_ip.count_run) (auto simp: om_get_or_def)
  then show ?thesis
    using assms(2)
    by (auto simp: by_ip_answer [OF assms(1)] by_ip_check_window_def bnd_run ret_run memory_by_ip_run
        Let_def)
qed

theorem by_ip_limit_exact_witness:
  "fst (checkRateLimitByIp ex_env (ex_config\<lparr>c_rate_limit := 2\<rparr>) ''10.0.0.7'' []
      (ex_world\<lparr>w_by_ip := run_hits (\<lambda>k now W m. by_ip_hit k (now - W) now m) 60
          [(''10.0.0.7'', 900), (''10.0.0.7'', 990)] []\<rparr>)) = Inr True"
proof -
  let ?C = "ex_config\<lparr>c_rate_limit := 2\<rparr>"
  let ?hit = "\<lambda>k now W m. by_ip_hit k (now - W) now m"
  let ?xs = "[(''10.0.0.7'', 900), (''10.0.0.7'', 990)] :: (string \<times> rat) list"
  have acc: "by_ip_accepts ex_env ?C ''10.0.0.7'' []"
    by (simp add: by_ip_accepts_def isValidIp_def ex_simps ex_parse_def ex_num_def is_digit_def)
  have C: "c_rate_window ?C = 60" "c_rate_limit ?C = 2" "\<not> c_enable_redis ?C" "w_now ex_world = 1000"
    by (simp_all add: ex_simps)
  have room: "all_room ?hit by_ip_room 60 ?xs []"
    by (simp add: by_ip_room_def by_ip_hit_eq MAX_TRACKED_RATE_LIMIT_KEYS_def recency_put_def)
  have n: "live_hits (by_ip_key ex_env ''10.0.0.7'' []) (1000 - 60) ?xs = 1"
    by (simp add: live_hits_def by_ip_key_def)
  show ?thesis
    using by_ip_limit_exact [OF acc, of ?xs "ex_world\<lparr>w_by_ip := run_hits ?hit 60 ?xs []\<rparr>"] C room n
    by simp
qed

text \<open>
  The auto-ban of the stand-alone limiter reaches no ban map: the manager it fills is built for
  the call and dropped. So the engine's bans are untouched by any call, and with
  auto-banning on each fed violation of an IP only counts up, also far beyond the threshold.
\<close>

theorem by_ip_autoban_not_enforced:
  assumes "c_rl_autoban C" and "c_enable_ban C" and "\<not> c_passive C"
  shows "w_bans (snd (feedRateLimitAutoban E C ip w)) = w_bans w \<and>
    map_of (w_by_ip_bans (snd (feedRateLimitAutoban E C ip w))) ip =
      Some (om_get_or 0 (w_by_ip_bans w) ip + 1)"
proof -
  let ?E = "fresh_manager_env E" and ?w = "set_bans [] w"
  let ?n = "om_get_or 0 (w_by_ip_bans w) ip + 1"
  let ?P = "\<lambda>u. map_of (w_by_ip_bans u) ip = Some ?n"
  define rest where "rest = (\<lambda>count. bnd (resolveThresholdBan ?E C [(''rate_limit'', count)] ip
      [''rate_limit''] ''rate_limit_exceeded'') (\<lambda>result.
        case result of
          None \<Rightarrow> ret ()
        | Some _ \<Rightarrow> log_line LogWarn
            (''check_rate_limit_by_ip: auto-banned '' @ ip @ '' (rate_limit_exceeded)'')))"
  have "offline ?P"
    by (auto simp: offline_def unaffected_def same_managers_def)
  then have rest: "keeps ?P (rest n)" for n
    unfolding rest_def resolveThresholdBan_def
    by (intro keeps_intros keeps_banIp) (auto simp: set_bans_def)
  have feed: "feedRateLimitAutoban E C ip = on_fresh_manager
      (bnd (isIpBanned ?E ip) (\<lambda>banned. if banned then ret () else bnd (count_autoban ip) rest))"
    unfolding feedRateLimitAutoban_def rest_def using assms by (simp only: simp_thms if_True if_False)
  have banned: "isIpBanned ?E ip ?w = (Inr False, ?w)"
    by (simp add: isIpBanned_local ban_live_def redis_ban_check_def ret_run set_bans_def)
  obtain u where count: "count_autoban ip ?w = (Inr ?n, u)" and u: "?P u"
    by (simp add: count_autoban_def bnd_run thn_run ret_run case_prod_beta lru_value set_bans_def)
  have "snd (on_fresh_manager
      (bnd (isIpBanned ?E ip) (\<lambda>banned. if banned then ret () else bnd (count_autoban ip) rest)) w) =
      set_bans (w_bans w) (snd (rest ?n u))"
    by (simp add: on_fresh_manager_def Let_def case_prod_beta bnd_run banned count)
  then show ?thesis
    using feed_bans [of E C ip w] keepsD [OF rest u, of ?n]
    unfolding feed by (simp add: set_bans_def)
qed

theorem by_ip_autoban_not_enforced_witness:
  "w_bans (snd (feedRateLimitAutoban ex_env (ex_config\<lparr>c_rl_autoban := True, c_autoban_threshold := 1\<rparr>)
      ''10.0.0.7'' ex_world)) = []"
  using by_ip_autoban_not_enforced [of "ex_config\<lparr>c_rl_autoban := True, c_autoban_threshold := 1\<rparr>"
      ex_env "''10.0.0.7''" ex_world]
  by (simp add: ex_config_def ex_world_def)

end
