(* ===== verification/Adapters.thy ===== *)
theory Adapters
  imports Pipeline
begin

section \<open>Framework adapters (packages/express, hono, nestjs, fastify)\<close>

text \<open>
  The request flow of the four adapters around the engine: passthrough, route bypass, pipeline,
  usage rules, then the application. \<open>init\<close> is the outcome of the engine's start-up, \<open>tracker\<close>
  whether a behavior tracker is wired. What a framework response object is told to do is the list
  of calls made on it.
\<close>

datatype framework_call =
  SetHeader string string
| Redirect int string
| SetStatus int
| SendBody string
| EndResponse

definition header_calls :: "response \<Rightarrow> framework_call list" where
  "header_calls r = map (\<lambda>(n, v). SetHeader n v) (rs_headers r)"

text \<open>\<open>if (response.headers['location'])\<close>.\<close>

definition location_of :: "response \<Rightarrow> string option" where
  "location_of r = (case map_of (rs_headers r) ''location'' of None \<Rightarrow> None | Some l \<Rightarrow> if l = [] then None else Some l)"

definition sendGuardResponse :: "response \<Rightarrow> framework_call list" where
  "sendGuardResponse r = header_calls r @
     (case location_of r of
        Some l \<Rightarrow> [Redirect (rs_status r) l]
      | None \<Rightarrow> [SetStatus (rs_status r)] @ (case rs_body r of Some b \<Rightarrow> [SendBody b] | None \<Rightarrow> [EndResponse]))"

definition sendNestResponse :: "response \<Rightarrow> framework_call list" where
  "sendNestResponse r = header_calls r @
     (case location_of r of
        Some l \<Rightarrow> [Redirect (rs_status r) l]
      | None \<Rightarrow> [SetStatus (rs_status r), SendBody (case rs_body r of Some b \<Rightarrow> b | None \<Rightarrow> [])])"

definition sendFastifyResponse :: "response \<Rightarrow> framework_call list" where
  "sendFastifyResponse r = header_calls r @
     (case location_of r of
        Some l \<Rightarrow> [Redirect (rs_status r) l]
      | None \<Rightarrow> [SetStatus (rs_status r), SendBody (case rs_body r of Some b \<Rightarrow> b | None \<Rightarrow> [])])"

definition createPassthroughResponse :: response where
  "createPassthroughResponse = \<lparr>rs_status = 200, rs_headers = [], rs_body = None\<rparr>"

text \<open>What the middleware did with a request: answered it, handed it on, or reported an error.\<close>

datatype flow =
  Answered "framework_call list"
| Forwarded "route_config option"
| NextError exn

subsection \<open>Express (packages/express/src/middleware.ts)\<close>

definition stamp_ids :: "string option \<Rightarrow> string option \<Rightarrow> ('r, unit) eff" where
  "stamp_ids rid eid =
     modify (\<lambda>w. w\<lparr>w_req := (w_req w)
       \<lparr>st_route_id := (case rid of None \<Rightarrow> st_route_id (w_req w) | Some i \<Rightarrow> Some i),
        st_endpoint_id := (case eid of None \<Rightarrow> st_endpoint_id (w_req w) | Some i \<Rightarrow> Some i)\<rparr>\<rparr>)"

definition usage_rules :: "'r env \<Rightarrow> config \<Rightarrow> bool \<Rightarrow> request \<Rightarrow> route_config option \<Rightarrow> ('r, unit) eff" where
  "usage_rules E C tracker rq route =
     (case route of
        None \<Rightarrow> ret ()
      | Some rc \<Rightarrow> when_eff (rc_behavior_rules rc \<noteq> [])
          (processUsageRules E C tracker rq (host_or_unknown rq) rc))"

definition guardMiddleware ::
  "'r env \<Rightarrow> config \<Rightarrow> resolver \<Rightarrow> bool \<Rightarrow> exn + unit \<Rightarrow> string option \<Rightarrow> string option \<Rightarrow> request
     \<Rightarrow> ('r, flow) eff"
where
  "guardMiddleware E C R tracker init rid eid rq =
     try_catch
       (thn (lift_res init)
       (thn (stamp_ids rid eid)
       (bnd (handlePassthrough E C rq (\<lambda>_. ret createPassthroughResponse)) (\<lambda>passthrough.
          case passthrough of
            Some r \<Rightarrow> ret (Answered (sendGuardResponse r))
          | None \<Rightarrow>
              bnd (getRouteConfig R rq) (\<lambda>route.
              bnd (handleSecurityBypass E C rq (\<lambda>_. ret createPassthroughResponse) route) (\<lambda>bypass.
                case bypass of
                  Some r \<Rightarrow> ret (Answered (sendGuardResponse r))
                | None \<Rightarrow>
                    bnd (execute E (security_pipeline E C R) rq) (\<lambda>block.
                      case block of
                        Some r \<Rightarrow> ret (Answered (sendGuardResponse r))
                      | None \<Rightarrow> thn (usage_rules E C tracker rq route) (ret (Forwarded route)))))))))
       (\<lambda>e. ret (NextError e))"

subsection \<open>NestJS (packages/nestjs/src/guard-module.ts)\<close>

definition nest_use ::
  "'r env \<Rightarrow> config \<Rightarrow> resolver \<Rightarrow> bool \<Rightarrow> string option \<Rightarrow> string option \<Rightarrow> request \<Rightarrow> ('r, flow) eff"
where
  "nest_use E C R tracker rid eid rq =
     thn (stamp_ids rid eid)
    (bnd (handlePassthrough E C rq (\<lambda>_. ret createPassthroughResponse)) (\<lambda>passthrough.
       case passthrough of
         Some r \<Rightarrow> ret (Answered (sendNestResponse r))
       | None \<Rightarrow>
           bnd (getRouteConfig R rq) (\<lambda>route.
           bnd (handleSecurityBypass E C rq (\<lambda>_. ret createPassthroughResponse) route) (\<lambda>bypass.
             case bypass of
               Some r \<Rightarrow> ret (Answered (sendNestResponse r))
             | None \<Rightarrow>
                 bnd (execute E (security_pipeline E C R) rq) (\<lambda>block.
                   case block of
                     Some r \<Rightarrow> ret (Answered (sendNestResponse r))
                   | None \<Rightarrow> thn (usage_rules E C tracker rq route) (ret (Forwarded route)))))))"

subsection \<open>Fastify (packages/fastify/src/plugin.ts)\<close>

text \<open>
  Two hooks: \<open>onRequest\<close> answers or stamps the request with its route configuration; the pipeline
  runs in \<open>preValidation\<close>, for a stamped request only.
\<close>

datatype stamp = Stamped "route_config option" | Replied "framework_call list"

definition fastify_onRequest ::
  "'r env \<Rightarrow> config \<Rightarrow> resolver \<Rightarrow> string option \<Rightarrow> string option \<Rightarrow> route_config option \<Rightarrow> request
     \<Rightarrow> ('r, stamp) eff"
where
  "fastify_onRequest E C R rid eid direct rq =
     thn (stamp_ids rid eid)
    (thn (case direct of None \<Rightarrow> ret ()
          | Some rc \<Rightarrow> modify (\<lambda>w. w\<lparr>w_req := (w_req w)\<lparr>st_direct_route := Some rc\<rparr>\<rparr>))
    (bnd (handlePassthrough E C rq (\<lambda>_. ret createPassthroughResponse)) (\<lambda>passthrough.
       case passthrough of
         Some r \<Rightarrow> ret (Replied (sendFastifyResponse r))
       | None \<Rightarrow>
           bnd (getRouteConfig R rq) (\<lambda>route.
           bnd (handleSecurityBypass E C rq (\<lambda>_. ret createPassthroughResponse) route) (\<lambda>bypass.
             case bypass of
               Some r \<Rightarrow> ret (Replied (sendFastifyResponse r))
             | None \<Rightarrow> ret (Stamped route))))))"

definition fastify_preValidation ::
  "'r env \<Rightarrow> config \<Rightarrow> resolver \<Rightarrow> bool \<Rightarrow> request \<Rightarrow> route_config option \<Rightarrow> ('r, flow) eff"
where
  "fastify_preValidation E C R tracker rq route =
     bnd (execute E (security_pipeline E C R) rq) (\<lambda>block.
       case block of
         Some r \<Rightarrow> ret (Answered (sendFastifyResponse r))
       | None \<Rightarrow> thn (usage_rules E C tracker rq route) (ret (Forwarded route)))"

definition fastify_request ::
  "'r env \<Rightarrow> config \<Rightarrow> resolver \<Rightarrow> bool \<Rightarrow> string option \<Rightarrow> string option \<Rightarrow> route_config option \<Rightarrow> request
     \<Rightarrow> ('r, flow) eff"
where
  "fastify_request E C R tracker rid eid direct rq =
     bnd (fastify_onRequest E C R rid eid direct rq) (\<lambda>s.
       case s of
         Replied calls \<Rightarrow> ret (Answered calls)
       | Stamped route \<Rightarrow> fastify_preValidation E C R tracker rq route)"

text \<open>
  \<open>onSend\<close>: a stamped response is processed with its payload, when that is text; a failure goes to the
  framework.
\<close>

definition fastify_onSend ::
  "'r env \<Rightarrow> config \<Rightarrow> bool \<Rightarrow> bool \<Rightarrow> request \<Rightarrow> stamp \<Rightarrow> string option \<Rightarrow> int
     \<Rightarrow> (string, string) omap \<Rightarrow> rat \<Rightarrow> ('r, string option) eff"
where
  "fastify_onSend E C processor tracker rq s payload status headers time =
     (case s of
        Replied _ \<Rightarrow> ret payload
      | Stamped route \<Rightarrow>
          bnd (processResponse E C processor tracker rq
                 \<lparr>rs_status = status, rs_headers = headers, rs_body = payload\<rparr> time route
                 (case route of None \<Rightarrow> None
                  | Some _ \<Rightarrow> Some (\<lambda>q r ip rc. processReturnRules E C tracker q r ip rc)))
            (\<lambda>_. ret payload))"

subsection \<open>Hono (packages/hono/src/middleware.ts)\<close>

text \<open>\<open>c.body(text, status)\<close> sets the status and the text in one call.\<close>

definition sendHonoResponse :: "response \<Rightarrow> framework_call list" where
  "sendHonoResponse r = header_calls r @
     (case location_of r of
        Some l \<Rightarrow> [Redirect (rs_status r) l]
      | None \<Rightarrow> [SetStatus (rs_status r), SendBody (case rs_body r of Some b \<Rightarrow> b | None \<Rightarrow> [])])"

text \<open>
  \<open>app\<close> is what the rest of the chain answers: its status and headers. The body may be a live stream
  and is never read.
\<close>

definition hono_after ::
  "'r env \<Rightarrow> config \<Rightarrow> bool \<Rightarrow> bool \<Rightarrow> request \<Rightarrow> route_config option \<Rightarrow> rat
     \<Rightarrow> ('r, int \<times> (string, string) omap) eff \<Rightarrow> ('r, response) eff"
where
  "hono_after E C processor tracker rq route time app =
     bnd app (\<lambda>answer.
       processResponse E C processor tracker rq
         \<lparr>rs_status = fst answer, rs_headers = snd answer, rs_body = None\<rparr> time route
         (case route of None \<Rightarrow> None
          | Some _ \<Rightarrow> Some (\<lambda>q r ip rc. processReturnRules E C tracker q r ip rc)))"

definition hono_middleware ::
  "'r env \<Rightarrow> config \<Rightarrow> resolver \<Rightarrow> bool \<Rightarrow> bool \<Rightarrow> exn + unit \<Rightarrow> string option \<Rightarrow> string option \<Rightarrow> request
     \<Rightarrow> rat \<Rightarrow> ('r, int \<times> (string, string) omap) eff \<Rightarrow> ('r, flow) eff"
where
  "hono_middleware E C R processor tracker init rid eid rq time app =
     thn (lift_res init)
    (thn (stamp_ids rid eid)
    (bnd (handlePassthrough E C rq (\<lambda>_. ret createPassthroughResponse)) (\<lambda>passthrough.
       case passthrough of
         Some r \<Rightarrow> ret (Answered (sendHonoResponse r))
       | None \<Rightarrow>
           bnd (getRouteConfig R rq) (\<lambda>route.
           bnd (handleSecurityBypass E C rq (\<lambda>_. ret createPassthroughResponse) route) (\<lambda>bypass.
             case bypass of
               Some r \<Rightarrow> ret (Answered (sendHonoResponse r))
             | None \<Rightarrow>
                 bnd (execute E (security_pipeline E C R) rq) (\<lambda>block.
                   case block of
                     Some r \<Rightarrow> ret (Answered (sendHonoResponse r))
                   | None \<Rightarrow>
                       thn (usage_rules E C tracker rq route)
                      (thn (bnd (hono_after E C processor tracker rq route time app) (\<lambda>_. ret ()))
                        (ret (Forwarded route)))))))))"

subsection \<open>The response side of Express and NestJS\<close>

definition RESPONSE_CAPTURE_LIMIT :: nat where "RESPONSE_CAPTURE_LIMIT = 10000"

record capture =
  cp_chunks :: "string list"
  cp_bytes :: nat

text \<open>One written chunk: its bytes, or \<open>None\<close> when it is neither text nor a byte view.\<close>

definition capture_chunk :: "string option \<Rightarrow> capture \<Rightarrow> capture" where
  "capture_chunk chunk cp =
     (if cp_bytes cp \<ge> RESPONSE_CAPTURE_LIMIT then cp
      else
        (case chunk of
           None \<Rightarrow> cp
         | Some d \<Rightarrow>
             if d = [] then cp
             else
               (let remaining = RESPONSE_CAPTURE_LIMIT - cp_bytes cp
                in \<lparr>cp_chunks = cp_chunks cp @ [if remaining < length d then take remaining d else d],
                    cp_bytes = cp_bytes cp + min (length d) remaining\<rparr>)))"

text \<open>
  \<open>res.end\<close>: the captured response is processed with the behavior rules of the route; the original
  \<open>end\<close> runs whether that succeeds or not.
\<close>

definition intercepted_end ::
  "'r env \<Rightarrow> config \<Rightarrow> bool \<Rightarrow> bool \<Rightarrow> request \<Rightarrow> route_config option \<Rightarrow> capture \<Rightarrow> int
     \<Rightarrow> (string, string) omap \<Rightarrow> rat \<Rightarrow> ('r, unit) eff"
where
  "intercepted_end E C processor tracker rq route cp status headers time =
     try_catch
       (bnd (processResponse E C processor tracker rq
               \<lparr>rs_status = status, rs_headers = headers, rs_body = Some (concat (cp_chunks cp))\<rparr> time route
               (case route of None \<Rightarrow> None
                | Some _ \<Rightarrow> Some (\<lambda>q r ip rc. processReturnRules E C tracker q r ip rc)))
          (\<lambda>_. ret ()))
       (\<lambda>_. ret ())"

subsection \<open>What the steps before the pipeline establish and keep\<close>

lemma bnd_Inr:
  assumes "fst (bnd m f w) = Inr x"
  obtains y w1 where "m w = (Inr y, w1)" and "fst (f y w1) = Inr x"
  using assms by (auto simp: bnd_run split: prod.splits sum.splits)

lemma thn_Inr:
  assumes "fst (thn m n w) = Inr x"
  obtains w1 where "m w = (Inr (), w1)" and "fst (n w1) = Inr x"
  using assms by (auto simp: thn_run split: prod.splits sum.splits)

definition path_excluded :: "config \<Rightarrow> request \<Rightarrow> bool" where
  "path_excluded C rq \<longleftrightarrow> pathIsExcluded (text_of (rq_path rq)) (map text_of (c_exclude_paths C))"

lemma excluded_run: "fst (isPathExcluded E C rq w) = Inr (path_excluded C rq)"
proof -
  have "yields (\<lambda>b. b = path_excluded C rq) (isPathExcluded E C rq)"
    unfolding isPathExcluded_def path_excluded_def Let_def by (intro yields_intros calm_intros) simp
  from yieldsD [OF this, of w] show ?thesis by auto
qed

lemma passthrough_None:
  assumes "handlePassthrough E C rq k w = (Inr None, w1)"
  shows "client_host rq \<noteq> None \<and> \<not> path_excluded C rq"
  using assms excluded_run [of E C rq w]
  by (auto simp: handlePassthrough_def Let_def bnd_run ret_run lift_res_run
      split: prod.splits sum.splits if_splits)

lemma bypass_None:
  assumes "handleSecurityBypass E C rq k route w = (Inr None, w1)"
  shows "c_passive C \<or> \<not> shouldBypassCheck ''all'' route"
  using assms
  by (auto simp: handleSecurityBypass_def thn_run bnd_run ret_run lift_res_run
      split: prod.splits sum.splits if_splits)

lemma keeps_entry:
  assumes "offline P" and "\<And>w f. P w \<Longrightarrow> P (w\<lparr>w_req := f (w_req w)\<rparr>)"
  shows "keeps P (stamp_ids rid eid)" "keeps P (handlePassthrough E C rq (\<lambda>_. ret r))"
    "keeps P (getRouteConfig R rq)" "keeps P (handleSecurityBypass E C rq (\<lambda>_. ret r) route)"
proof -
  have un: "unaffected P" by (rule offline_unaffected [OF assms(1)])
  have req: "keeps P (modify (\<lambda>w. w\<lparr>w_req := f (w_req w)\<rparr>))" for f
    by (rule keeps_modify) (rule assms(2))
  show "keeps P (stamp_ids rid eid)"
    unfolding stamp_ids_def by (rule req)
  show "keeps P (handlePassthrough E C rq (\<lambda>_. ret r))"
    unfolding handlePassthrough_def Let_def by (intro keeps_intros keeps_path_excluded assms(1))
  show "keeps P (getRouteConfig R rq)"
    unfolding getRouteConfig_def lookupRouteId_def mark_unresolved_def
    by (intro keeps_intros) (auto split: decorator.splits sum.splits option.splits intro!: keeps_intros req)
  show "keeps P (handleSecurityBypass E C rq (\<lambda>_. ret r) route)"
    unfolding handleSecurityBypass_def by (intro keeps_intros report_intros un)
qed

subsection \<open>The flow the adapters share\<close>

text \<open>From the passthrough on, over the way \<open>send\<close> the framework answers.\<close>

definition guard_flow ::
  "(response \<Rightarrow> framework_call list) \<Rightarrow> 'r env \<Rightarrow> config \<Rightarrow> resolver \<Rightarrow> bool \<Rightarrow> request \<Rightarrow> ('r, flow) eff"
where
  "guard_flow send E C R tracker rq =
     bnd (handlePassthrough E C rq (\<lambda>_. ret createPassthroughResponse)) (\<lambda>passthrough.
       case passthrough of
         Some r \<Rightarrow> ret (Answered (send r))
       | None \<Rightarrow>
           bnd (getRouteConfig R rq) (\<lambda>route.
           bnd (handleSecurityBypass E C rq (\<lambda>_. ret createPassthroughResponse) route) (\<lambda>bypass.
             case bypass of
               Some r \<Rightarrow> ret (Answered (send r))
             | None \<Rightarrow>
                 bnd (execute E (security_pipeline E C R) rq) (\<lambda>block.
                   case block of
                     Some r \<Rightarrow> ret (Answered (send r))
                   | None \<Rightarrow> thn (usage_rules E C tracker rq route) (ret (Forwarded route))))))"

lemma express_flow:
  "guardMiddleware E C R tracker init rid eid rq =
     try_catch (thn (lift_res init) (thn (stamp_ids rid eid) (guard_flow sendGuardResponse E C R tracker rq)))
       (\<lambda>e. ret (NextError e))"
  by (simp add: guardMiddleware_def guard_flow_def)

lemma nest_flow: "nest_use E C R tracker rid eid rq = thn (stamp_ids rid eid) (guard_flow sendNestResponse E C R tracker rq)"
  by (simp add: nest_use_def guard_flow_def)

lemma bnd_option: "bnd (case x of None \<Rightarrow> m | Some y \<Rightarrow> h y) g = (case x of None \<Rightarrow> bnd m g | Some y \<Rightarrow> bnd (h y) g)"
  by (cases x) simp_all

lemma bnd_thn: "bnd (thn m n) g = thn m (bnd n g)"
  by (simp add: thn_def bnd_assoc)

lemma fastify_flow:
  "fastify_request E C R tracker rid eid direct rq =
     thn (stamp_ids rid eid)
    (thn (case direct of None \<Rightarrow> ret ()
          | Some rc \<Rightarrow> modify (\<lambda>w. w\<lparr>w_req := (w_req w)\<lparr>st_direct_route := Some rc\<rparr>\<rparr>))
      (guard_flow sendFastifyResponse E C R tracker rq))"
  by (simp add: fastify_request_def fastify_onRequest_def guard_flow_def fastify_preValidation_def
      bnd_thn bnd_assoc bnd_option cong: option.case_cong)

text \<open>In Hono the application runs inside the middleware: the flow the others share, then the answer.\<close>

lemma hono_flow:
  "hono_middleware E C R processor tracker init rid eid rq time app =
     thn (lift_res init)
    (thn (stamp_ids rid eid)
    (bnd (guard_flow sendHonoResponse E C R tracker rq) (\<lambda>f.
       case f of
         Forwarded route \<Rightarrow> thn (bnd (hono_after E C processor tracker rq route time app) (\<lambda>_. ret ())) (ret f)
       | _ \<Rightarrow> ret f)))"
  by (simp add: hono_middleware_def guard_flow_def bnd_thn bnd_assoc bnd_option cong: option.case_cong)

lemma thn_ret [simp]: "thn (ret ()) m = m"
  by (simp add: thn_def)

lemma thn_lift [simp]: "thn (lift_res (Inr ())) m = m"
  by (rule ext) (simp add: thn_run lift_res_run)

definition same_client_state :: "'r world \<Rightarrow> 'r world \<Rightarrow> bool" where
  "same_client_state w u \<longleftrightarrow> w_bans u = w_bans w \<and> w_rate u = w_rate w \<and> w_sus u = w_sus w \<and> w_now u = w_now w"

lemma keeps_client_state:
  "keeps (same_client_state w) (stamp_ids rid eid)"
  "keeps (same_client_state w) (handlePassthrough E C rq (\<lambda>_. ret r))"
  "keeps (same_client_state w) (getRouteConfig R rq)"
  "keeps (same_client_state w) (handleSecurityBypass E C rq (\<lambda>_. ret r) route)"
  by (rule keeps_entry; simp add: offline_def unaffected_def same_managers_def same_client_state_def)+

lemma flow_forwarded:
  assumes "fst (guard_flow send E C R tracker rq w) = Inr (Forwarded route)"
    and "c_fail_secure C" and "\<not> c_redis_fail_open C" and "same_client_state v w"
  shows "client_host rq \<noteq> None \<and> \<not> path_excluded C rq \<and>
    (c_passive C \<or> \<not> shouldBypassCheck ''all'' route) \<and>
    (\<exists>u. same_client_state v u \<and> all_pass (security_pipeline E C R) rq u)"
proof -
  obtain p w2 where p: "handlePassthrough E C rq (\<lambda>_. ret createPassthroughResponse) w = (Inr p, w2)"
    using assms(1) unfolding guard_flow_def by (elim bnd_Inr)
  then obtain rt w3 where none: "p = None" and rt: "getRouteConfig R rq w2 = (Inr rt, w3)"
    using assms(1) by (cases p; cases "getRouteConfig R rq w2")
      (auto simp: guard_flow_def bnd_run ret_run split: sum.splits)
  obtain b w4 where b: "handleSecurityBypass E C rq (\<lambda>_. ret createPassthroughResponse) rt w3 = (Inr b, w4)"
    and rest: "fst ((case b of Some r \<Rightarrow> ret (Answered (send r))
      | None \<Rightarrow> bnd (execute E (security_pipeline E C R) rq) (\<lambda>block. case block of
            Some r \<Rightarrow> ret (Answered (send r))
          | None \<Rightarrow> thn (usage_rules E C tracker rq rt) (ret (Forwarded rt)))) w4) = Inr (Forwarded route)"
    using assms(1) p none rt unfolding guard_flow_def
    by (simp add: bnd_run [of "handlePassthrough _ _ _ _"] bnd_run [of "getRouteConfig _ _"]) (elim bnd_Inr, blast)
  then have bn: "b = None" by (cases b) (auto simp: ret_run)
  obtain x w5 where x: "execute E (security_pipeline E C R) rq w4 = (Inr x, w5)"
    and fin: "fst ((case x of Some r \<Rightarrow> ret (Answered (send r))
          | None \<Rightarrow> thn (usage_rules E C tracker rq rt) (ret (Forwarded rt))) w5) = Inr (Forwarded route)"
    using rest unfolding bn option.case by (elim bnd_Inr)
  then have xr: "x = None" "rt = route" 
    by (cases x; auto simp: thn_run ret_run split: prod.splits sum.splits)+
  have "all_pass (security_pipeline E C R) rq w4"
    using x xr(1) execute_all_pass [of "security_pipeline E C R" E rq w4] assms(2,3)
    by (simp add: passes_def pipeline_config fails_secure_def)
  moreover have "same_client_state v w4"
    using keepsD [OF keeps_client_state(2) assms(4)] keepsD [OF keeps_client_state(3)]
      keepsD [OF keeps_client_state(4)] p rt b by (metis snd_conv)
  ultimately show ?thesis
    using passthrough_None p none bypass_None b bn xr(2) by blast
qed

subsection \<open>Properties\<close>

text \<open>
  C1: failing secure, the Express middleware hands a request to the application only if the client is
  known, the path is not excluded, the route does not bypass the checks (or the mode is passive), and
  all seventeen checks pass on the bans, windows and counters the request found.
\<close>

theorem forwarded_only_when_clear:
  assumes "fst (guardMiddleware E C R tracker init rid eid rq w) = Inr (Forwarded route)"
    and "c_fail_secure C" and "\<not> c_redis_fail_open C"
  shows "client_host rq \<noteq> None \<and> \<not> path_excluded C rq \<and>
    (c_passive C \<or> \<not> shouldBypassCheck ''all'' route) \<and>
    (\<exists>u. same_client_state w u \<and> all_pass (security_pipeline E C R) rq u)"
proof -
  have "fst (thn (lift_res init) (thn (stamp_ids rid eid) (guard_flow sendGuardResponse E C R tracker rq)) w)
      = Inr (Forwarded route)"
    using assms(1) by (auto simp: express_flow try_catch_run ret_run split: prod.splits sum.splits)
  then obtain w1 where w1: "stamp_ids rid eid w = (Inr (), w1)"
    and flow: "fst (guard_flow sendGuardResponse E C R tracker rq w1) = Inr (Forwarded route)"
    by (metis lift_res_run prod.inject thn_Inr)
  have "same_client_state w w" by (simp add: same_client_state_def)
  then have "same_client_state w w1" using keepsD [OF keeps_client_state(1)] w1 by (metis snd_conv)
  then show ?thesis by (rule flow_forwarded [OF flow assms(2,3)])
qed

definition ex_quiet :: config where
  "ex_quiet = ex_config\<lparr>c_enable_rl := False, c_enable_pen := False\<rparr>"

definition flags_cleared :: "unit world" where
  "flags_cleared = set_flags False False ex_world"

lemma ex_world_state:
  "w_req ex_world = ex_state" "route_of ex_world = None" "w_req flags_cleared = ex_state"
  "route_of flags_cleared = None" "st_route ex_state = None" "st_direct_route ex_state = None"
  "st_route_id ex_state = None" "st_decorator ex_state = NoDecorator" "st_unresolved ex_state = False"
  "privileged ex_state = False" "w_bans ex_world = []"
  by (simp_all add: ex_world_def ex_state_def route_of_def flags_cleared_def set_flags_def privileged_def)

lemma ex_quiet_fields:
  "c_route_strict ex_quiet = False" "c_emergency ex_quiet = False" "c_enforce_https ex_quiet = False"
  "c_log_request ex_quiet = None" "c_block_clouds ex_quiet = []" "c_enable_rl ex_quiet = False"
  "c_enable_pen ex_quiet = False" "c_custom_check ex_quiet = None" "c_blacklist ex_quiet = []"
  "whitelist_of ex_quiet = []" "c_exempt_ips ex_quiet = []" "c_blocked_countries ex_quiet = []"
  "c_whitelist_countries ex_quiet = []" "c_exclude_paths ex_quiet = []" "c_modifier ex_quiet = None"
  "c_fail_secure ex_quiet = True" "c_redis_fail_open ex_quiet = False"
  by (simp_all add: ex_quiet_def ex_config_def whitelist_of_def)

lemma ex_request_fields:
  "client_host ex_request = Some ''10.0.0.7''" "rq_headers ex_request = []" "rq_host ex_request = Some ''10.0.0.7''"
  "e_redis ex_env = None" "e_ban_manager ex_env" "e_geo ex_env = None"
  "e_ip_parse ex_env ''10.0.0.7'' = Some [10, 0, 0, 7]" "rr_entries ex_resolver = []" "rr_decorator ex_resolver = NoDecorator"
  by (simp_all add: client_host_def ex_request_def ex_env_def ex_parse_def ex_num_def ex_digit_def is_digit_def
      ex_resolver_def)

lemma ex_not_banned: "isIpBanned ex_env ''10.0.0.7'' ex_world = (Inr False, ex_world)"
  by (simp add: isIpBanned_local ban_live_def ex_world_def redis_ban_check_def ret_run set_bans_def ex_request_fields)

lemma ex_pass_ip: "IpSecurityCheck ex_env ex_quiet ex_request ex_world = (Inr None, flags_cleared)"
  by (simp add: IpSecurityCheck_def ex_world_state ex_request_fields checkBannedIp_def shouldBypassCheck_def
      bnd_run [of "gets _"] bnd_run [of "isIpBanned _ _"] bnd_run thn_run ret_run ex_not_banned ip_restrictions_def
      checkIpAccessDetail_def route_overrides_lists_def ex_quiet_fields checkIpInList_def resolveCountryVerdict_def
      Let_def flags_cleared_def)

lemma ex_pass_first:
  "RouteConfigCheck ex_env ex_quiet ex_resolver ex_request ex_world = (Inr None, ex_world)"
  "EmergencyModeCheck ex_env ex_quiet ex_request w = (Inr None, w)"
  "HttpsEnforcementCheck ex_env ex_quiet ex_request ex_world = (Inr None, ex_world)"
  "RequestLoggingCheck ex_env ex_quiet ex_request w = (Inr None, w)"
  "RequestSizeContentCheck ex_env ex_quiet ex_request ex_world = (Inr None, ex_world)"
  "RequiredHeadersCheck ex_env ex_quiet ex_request ex_world = (Inr None, ex_world)"
  "AuthenticationCheck ex_env ex_quiet ex_request ex_world = (Inr None, ex_world)"
  "ReferrerCheck ex_env ex_quiet ex_request ex_world = (Inr None, ex_world)"
  "CustomValidatorsCheck ex_request ex_world = (Inr None, ex_world)"
  "TimeWindowCheck ex_env ex_quiet ex_request ex_world = (Inr None, ex_world)"
  by (simp_all add: RouteConfigCheck_def getRouteConfig_def bnd_run thn_run ret_run ex_world_state ex_quiet_fields
      store_route_def matchPathEntry_def ex_request_fields EmergencyModeCheck_def HttpsEnforcementCheck_def
      RequestLoggingCheck_def RequestSizeContentCheck_def RequiredHeadersCheck_def AuthenticationCheck_def
      ReferrerCheck_def CustomValidatorsCheck_def TimeWindowCheck_def)

lemma ex_pass_last:
  "CloudIpRefreshCheck ex_env ex_quiet w = (Inr None, w)"
  "CloudProviderCheck ex_env ex_quiet ex_request flags_cleared = (Inr None, flags_cleared)"
  "UserAgentCheck ex_env ex_quiet ex_request flags_cleared = (Inr None, flags_cleared)"
  "RateLimitCheck ex_env ex_quiet ex_request flags_cleared = (Inr None, flags_cleared)"
  "SuspiciousActivityCheck ex_env ex_quiet ex_request flags_cleared = (Inr None, flags_cleared)"
  "CustomRequestCheck ex_env ex_quiet ex_request w = (Inr None, w)"
  by (simp_all add: bnd_run thn_run ret_run ex_world_state ex_quiet_fields ex_request_fields CloudIpRefreshCheck_def
      CloudProviderCheck_def shouldBypassCheck_def cloud_block_def getCloudProvidersToCheck_def truthy_def UserAgentCheck_def RateLimitCheck_def
      SuspiciousActivityCheck_def CustomRequestCheck_def)

lemma ex_forwarded: "fst (guardMiddleware ex_env ex_quiet ex_resolver False (Inr ()) None None ex_request ex_world)
  = Inr (Forwarded None)"
proof -
  have run: "execute ex_env (security_pipeline ex_env ex_quiet ex_resolver) ex_request ex_world = (Inr None, flags_cleared)"
    by (simp add: security_pipeline_def mk_check_def execute_pass ex_pass_first ex_pass_last ex_pass_ip ret_run
        del: execute.simps(2))
  have st: "stamp_ids None None ex_world = (Inr (), ex_world)"
    by (simp add: stamp_ids_def ex_world_def ex_state_def)
  have entry: "handlePassthrough ex_env ex_quiet ex_request (\<lambda>_. ret createPassthroughResponse) ex_world = (Inr None, ex_world)"
    by (simp add: handlePassthrough_def isPathExcluded_def pathIsExcluded_def pathMatchesExclusions_def
        normalizeExcludePaths_def map_filter_def ex_request_fields ex_quiet_fields Let_def
        bnd_run thn_run ret_run when_eff_def split: option.splits)
  have route: "getRouteConfig ex_resolver ex_request ex_world = (Inr None, ex_world)"
    by (simp add: getRouteConfig_def bnd_run ret_run ex_world_state matchPathEntry_def ex_request_fields)
  show ?thesis
    by (simp add: express_flow guard_flow_def try_catch_run thn_run bnd_run ret_run st entry route run
        handleSecurityBypass_def shouldBypassCheck_def usage_rules_def)
qed

theorem forwarded_only_when_clear_witness:
  "client_host ex_request \<noteq> None \<and> \<not> path_excluded ex_quiet ex_request \<and>
    \<not> shouldBypassCheck ''all'' None \<and>
    (\<exists>u. same_client_state ex_world u \<and> all_pass (security_pipeline ex_env ex_quiet ex_resolver) ex_request u)"
proof -
  have "\<not> shouldBypassCheck ''all'' None" by (simp add: shouldBypassCheck_def)
  then show ?thesis
    using forwarded_only_when_clear [OF ex_forwarded] by (simp add: ex_quiet_fields)
qed

text \<open>
  A request for an excluded path never reaches the application: without a response modifier the
  Express middleware answers it itself with an empty 200.
\<close>

theorem excluded_path_answered_empty:
  assumes "path_excluded C rq" and "init = Inr ()" and "c_modifier C = None"
  shows "fst (guardMiddleware E C R tracker init rid eid rq w) = Inr (Answered [SetStatus 200, EndResponse])"
proof -
  have "fst (handlePassthrough E C rq (\<lambda>_. ret createPassthroughResponse) u) = Inr (Some createPassthroughResponse)" for u
    using assms(1,3) excluded_run [of E C rq u]
    by (auto simp: handlePassthrough_def Let_def bnd_run ret_run lift_res_run applyModifier_def
        split: prod.splits sum.splits)
  moreover obtain w1 where w1: "stamp_ids rid eid w = (Inr (), w1)"
    by (simp add: stamp_ids_def)
  ultimately obtain w2 where hp: "handlePassthrough E C rq (\<lambda>_. ret createPassthroughResponse) w1
      = (Inr (Some createPassthroughResponse), w2)"
    by (metis prod.collapse)
  have "guard_flow sendGuardResponse E C R tracker rq w1 =
      (Inr (Answered (sendGuardResponse createPassthroughResponse)), w2)"
    by (simp add: guard_flow_def bnd_run [of "handlePassthrough _ _ _ _"] hp ret_run)
  then have "thn (stamp_ids rid eid) (guard_flow sendGuardResponse E C R tracker rq) w =
      (Inr (Answered (sendGuardResponse createPassthroughResponse)), w2)"
    by (simp add: thn_run [of "stamp_ids _ _"] w1)
  then show ?thesis
    using assms(2)
    by (simp add: express_flow try_catch_run sendGuardResponse_def header_calls_def location_of_def
        createPassthroughResponse_def)
qed

theorem excluded_path_answered_empty_witness:
  "fst (guardMiddleware ex_env (ex_quiet\<lparr>c_exclude_paths := [''/items'']\<rparr>) ex_resolver False (Inr ()) None None
     ex_request ex_world) = Inr (Answered [SetStatus 200, EndResponse])"
proof (rule excluded_path_answered_empty)
  have "pathIsExcluded (text_of ''/items'') [text_of ''/items'']" by code_simp
  then show "path_excluded (ex_quiet\<lparr>c_exclude_paths := [''/items'']\<rparr>) ex_request"
    by (simp add: path_excluded_def ex_request_def)
qed (simp_all add: ex_quiet_fields)

definition present_bytes :: "string option list \<Rightarrow> string" where
  "present_bytes cs = concat (map (\<lambda>c. case c of None \<Rightarrow> [] | Some d \<Rightarrow> d) cs)"

lemma capture_step:
  assumes "concat (cp_chunks cp) = take RESPONSE_CAPTURE_LIMIT s" and "cp_bytes cp = min RESPONSE_CAPTURE_LIMIT (length s)"
  shows "concat (cp_chunks (capture_chunk c cp)) = take RESPONSE_CAPTURE_LIMIT (s @ present_bytes [c]) \<and>
    cp_bytes (capture_chunk c cp) = min RESPONSE_CAPTURE_LIMIT (length (s @ present_bytes [c]))"
  using assms
  by (cases c) (auto simp: capture_chunk_def present_bytes_def Let_def min_def)

lemma capture_all:
  "concat (cp_chunks (fold capture_chunk cs \<lparr>cp_chunks = [], cp_bytes = 0\<rparr>)) =
     take RESPONSE_CAPTURE_LIMIT (present_bytes cs) \<and>
   cp_bytes (fold capture_chunk cs \<lparr>cp_chunks = [], cp_bytes = 0\<rparr>) =
     min RESPONSE_CAPTURE_LIMIT (length (present_bytes cs))"
proof (induction cs rule: rev_induct)
  case (snoc c cs)
  then show ?case
    using capture_step [of "fold capture_chunk cs \<lparr>cp_chunks = [], cp_bytes = 0\<rparr>" "present_bytes cs" c]
    by (simp add: present_bytes_def)
qed (simp add: present_bytes_def)

text \<open>
  What the response interceptor keeps of a written body is exactly its first
  \<open>RESPONSE_CAPTURE_LIMIT\<close> bytes, however the body is cut into chunks.
\<close>

theorem capture_is_bounded_prefix:
  "concat (cp_chunks (fold capture_chunk cs \<lparr>cp_chunks = [], cp_bytes = 0\<rparr>)) =
     take RESPONSE_CAPTURE_LIMIT (concat (map (\<lambda>c. case c of None \<Rightarrow> [] | Some d \<Rightarrow> d) cs))"
  using capture_all [of cs] by (simp add: present_bytes_def)

end
