(* ===== verification/Adapter_Requests.thy ===== *)
theory Adapter_Requests
  imports Adapters
begin

section \<open>How the adapters present a request (adapters.ts, route-id.ts)\<close>

text \<open>
  The engine's request built from a framework's, and the route identity stamped on it: the query and
  header normalisation of Express and Fastify, the query of Hono, the scan of the router stack of
  Express and NestJS, the matched routes of Hono and the route table of Fastify. Path matchers are
  the framework's: a layer carries the outcome functions it exposes, which may raise.
\<close>

subsection \<open>Headers and query parameters\<close>

datatype header_value = HUndefined | HText string | HList "string list"

text \<open>The elements of a list and the other values are given by their \<open>String(v)\<close>, an object by its JSON.\<close>

datatype query_value = QUndefined | QNull | QText string | QList "string list" | QObject string | QOther string

definition normalizeHeaders :: "(string \<times> header_value) list \<Rightarrow> (string, string) omap" where
  "normalizeHeaders hs = fold (\<lambda>(name, v) acc.
     case v of
       HUndefined \<Rightarrow> acc
     | HText t \<Rightarrow> AList.update name t acc
     | HList vs \<Rightarrow> AList.update name (join_with '', '' vs) acc) hs []"

definition add_query :: "string \<times> query_value \<Rightarrow> (string, string) omap \<Rightarrow> (string, string) omap" where
  "add_query p acc =
     (case snd p of
        QUndefined \<Rightarrow> acc
      | QNull \<Rightarrow> acc
      | QText t \<Rightarrow> AList.update (fst p) t acc
      | QList vs \<Rightarrow> AList.update (fst p) (join_with '', '' vs) acc
      | QObject j \<Rightarrow> AList.update (fst p) j acc
      | QOther t \<Rightarrow> AList.update (fst p) t acc)"

definition normalizeQueryParams :: "(string \<times> query_value) list \<Rightarrow> (string, string) omap" where
  "normalizeQueryParams q = fold add_query q []"

text \<open>\<open>Object.fromEntries(searchParams.entries())\<close>.\<close>

definition hono_query :: "(string \<times> string) list \<Rightarrow> (string, string) omap" where
  "hono_query ps = fold (\<lambda>(k, v) acc. AList.update k v acc) ps []"

subsection \<open>The request of Express and of Fastify\<close>

record raw_request =
  rw_path :: string
  rw_url :: string
  rw_original_url :: string
  rw_protocol :: string
  rw_hostname :: string
  rw_method :: string
  rw_raw_remote :: "string option"
  rw_remote :: "string option"
  rw_ip :: "string option"
  rw_headers :: "(string \<times> header_value) list"
  rw_query :: "(string \<times> query_value) list"

text \<open>\<open>full.replace(/^https?/, scheme)\<close>.\<close>

definition replace_scheme :: "string \<Rightarrow> string \<Rightarrow> string" where
  "replace_scheme full scheme =
     (if starts_with ''https'' full then scheme @ drop 5 full
      else if starts_with ''http'' full then scheme @ drop 4 full
      else full)"

definition express_request :: "raw_request \<Rightarrow> request" where
  "express_request r =
     \<lparr>rq_path = rw_path r, rq_scheme = rw_protocol r,
      rq_replace_scheme = replace_scheme (rw_protocol r @ ''://'' @ rw_hostname r @ rw_original_url r),
      rq_method = rw_method r, rq_host = rw_remote r,
      rq_headers = normalizeHeaders (rw_headers r), rq_query = normalizeQueryParams (rw_query r)\<rparr>"

definition fastify_client_host :: "raw_request \<Rightarrow> string option" where
  "fastify_client_host r =
     (case truthy (rw_raw_remote r) of
        Some a \<Rightarrow> Some a
      | None \<Rightarrow> (case truthy (rw_remote r) of Some a \<Rightarrow> Some a | None \<Rightarrow> rw_ip r))"

definition fastify_guard_request :: "raw_request \<Rightarrow> request" where
  "fastify_guard_request r =
     \<lparr>rq_path = hd (split_on (CHR ''?'') (rw_url r)), rq_scheme = rw_protocol r,
      rq_replace_scheme = replace_scheme (rw_protocol r @ ''://'' @ rw_hostname r @ rw_url r),
      rq_method = rw_method r, rq_host = fastify_client_host r,
      rq_headers = normalizeHeaders (rw_headers r), rq_query = normalizeQueryParams (rw_query r)\<rparr>"

subsection \<open>Route identity in Express (packages/express/src/route-id.ts)\<close>

text \<open>A handler: its \<open>_guardRouteId\<close>, when that is a string, and its function name.\<close>

record handler =
  hd_route_id :: "string option"
  hd_name :: string

record route_like =
  rt_stack :: "handler list option"
  rt_methods :: "(string, bool) omap option"

record layer =
  ly_route :: "route_like option"
  ly_matchers :: "(string \<Rightarrow> exn + bool) list option"
  ly_match :: "(string \<Rightarrow> exn + bool) option"

record routed =
  ro_method :: string
  ro_direct :: "route_like option"
  ro_router :: "layer list option"
  ro_path :: string

fun first_id :: "handler list \<Rightarrow> string option" where
  "first_id [] = None"
| "first_id (h # hs) = (case hd_route_id h of Some i \<Rightarrow> Some i | None \<Rightarrow> first_id hs)"

definition serves_method :: "string \<Rightarrow> (string, bool) omap option \<Rightarrow> bool" where
  "serves_method m ms =
     (case ms of None \<Rightarrow> True | Some t \<Rightarrow> map_of t ''_all'' = Some True \<or> map_of t m = Some True)"

definition routeIdFromRoute :: "route_like \<Rightarrow> string \<Rightarrow> string option" where
  "routeIdFromRoute route m =
     (case rt_stack route of
        None \<Rightarrow> None
      | Some stack \<Rightarrow>
          if stack = [] then None
          else if \<not> serves_method m (rt_methods route) then None
          else first_id (rev stack))"

text \<open>\<open>some\<close> stops at the first match; an exception before it is no match.\<close>

fun some_matches :: "(string \<Rightarrow> exn + bool) list \<Rightarrow> string \<Rightarrow> bool" where
  "some_matches [] path = False"
| "some_matches (f # fs) path = (case f path of Inl _ \<Rightarrow> False | Inr b \<Rightarrow> b \<or> some_matches fs path)"

definition layerMatches :: "layer \<Rightarrow> string \<Rightarrow> bool" where
  "layerMatches l path =
     (case ly_matchers l of
        Some fs \<Rightarrow> some_matches fs path
      | None \<Rightarrow> (case ly_match l of
                    Some f \<Rightarrow> (case f path of Inl _ \<Rightarrow> False | Inr b \<Rightarrow> b)
                  | None \<Rightarrow> False))"

fun scan_layers :: "string \<Rightarrow> string \<Rightarrow> layer list \<Rightarrow> string option" where
  "scan_layers path m [] = None"
| "scan_layers path m (l # ls) =
     (case ly_route l of
        None \<Rightarrow> scan_layers path m ls
      | Some route \<Rightarrow>
          if \<not> layerMatches l path then scan_layers path m ls
          else (case routeIdFromRoute route m of Some i \<Rightarrow> Some i | None \<Rightarrow> scan_layers path m ls))"

definition resolveExpressRouteId :: "routed \<Rightarrow> string option" where
  "resolveExpressRouteId r =
     (let m = to_lower (ro_method r);
          scan = (case ro_router r of None \<Rightarrow> None | Some ls \<Rightarrow> scan_layers (ro_path r) m ls)
      in case ro_direct r of
           None \<Rightarrow> scan
         | Some route \<Rightarrow> (case routeIdFromRoute route m of Some i \<Rightarrow> Some i | None \<Rightarrow> scan))"

fun first_name :: "handler list \<Rightarrow> string option" where
  "first_name [] = None"
| "first_name (h # hs) = (if hd_name h \<noteq> [] then Some (hd_name h) else first_name hs)"

fun find_layer :: "string \<Rightarrow> layer list \<Rightarrow> route_like option" where
  "find_layer path [] = None"
| "find_layer path (l # ls) = (if ly_route l \<noteq> None \<and> layerMatches l path then ly_route l else find_layer path ls)"

definition resolveExpressEndpointId :: "routed \<Rightarrow> string option" where
  "resolveExpressEndpointId r =
     (let route = (case ro_direct r of
                     Some rt \<Rightarrow> Some rt
                   | None \<Rightarrow> (case ro_router r of None \<Rightarrow> None | Some ls \<Rightarrow> find_layer (ro_path r) ls))
      in case route of
           None \<Rightarrow> None
         | Some rt \<Rightarrow> (case rt_stack rt of None \<Rightarrow> None | Some stack \<Rightarrow> first_name (rev stack)))"

subsection \<open>Route identity in Hono and Fastify\<close>

text \<open>The matched routes Hono exposes, or \<open>None\<close> where it exposes none.\<close>

definition resolveHonoRouteId :: "handler list option \<Rightarrow> string option" where
  "resolveHonoRouteId matched = (case matched of None \<Rightarrow> None | Some hs \<Rightarrow> first_id (rev hs))"

definition resolveHonoEndpointId :: "handler list option \<Rightarrow> string option" where
  "resolveHonoEndpointId matched = (case matched of None \<Rightarrow> None | Some hs \<Rightarrow> first_name (rev hs))"

type_synonym route_meta = "string option \<times> string option"

text \<open>\<open>onRoute\<close>: one entry per declared method, keyed by the upper-case method and the route's url.\<close>

definition fastify_onRoute ::
  "(string \<Rightarrow> string) \<Rightarrow> handler \<Rightarrow> string list \<Rightarrow> string \<Rightarrow> (string, route_meta) omap \<Rightarrow> (string, route_meta) omap"
where
  "fastify_onRoute upper h ms url table =
     (let meta = (hd_route_id h, truthy (Some (hd_name h)))
      in if meta = (None, None) then table
         else fold (\<lambda>m. AList.update (upper m @ ''|'' @ url) meta) ms table)"

definition fastify_meta ::
  "(string \<Rightarrow> string) \<Rightarrow> (string, route_meta) omap \<Rightarrow> string list \<Rightarrow> string option \<Rightarrow> string \<Rightarrow> route_meta"
where
  "fastify_meta upper table declared url m =
     (case (truthy url, truthy (List.find (\<lambda>d. upper d = upper m) declared)) of
        (Some u, Some key) \<Rightarrow> (case map_of table (upper key @ ''|'' @ u) of Some meta \<Rightarrow> meta | None \<Rightarrow> (None, None))
      | _ \<Rightarrow> (None, None))"

subsection \<open>Lookups in the normalised maps\<close>

lemma fold_update_last:
  "map_of (fold (\<lambda>(k, v) acc. AList.update k v acc) ps acc) k =
     (case map_of (rev ps) k of Some v \<Rightarrow> Some v | None \<Rightarrow> map_of acc k)"
  by (induction ps arbitrary: acc) (auto simp: update_conv' map_add_def split: option.splits)

lemma hono_query_last: "map_of (hono_query ps) k = map_of (rev ps) k"
  by (simp add: hono_query_def fold_update_last split: option.splits)

definition query_text :: "query_value \<Rightarrow> string option" where
  "query_text v =
     (case v of QUndefined \<Rightarrow> None | QNull \<Rightarrow> None | QText t \<Rightarrow> Some t | QList vs \<Rightarrow> Some (join_with '', '' vs)
      | QObject j \<Rightarrow> Some j | QOther t \<Rightarrow> Some t)"

lemma query_fold:
  "distinct (map fst q) \<Longrightarrow> map_of (fold add_query q acc) k =
     (case Option.bind (map_of q k) query_text of Some t \<Rightarrow> Some t | None \<Rightarrow> map_of acc k)"
proof (induction q arbitrary: acc)
  case (Cons p q)
  obtain key v where p: "p = (key, v)" by fastforce
  have absent: "map_of q key = None" using Cons.prems p by (simp add: map_of_eq_None_iff)
  show ?case
    using Cons.IH Cons.prems absent
    by (cases v) (auto simp: p add_query_def query_text_def update_conv' split: option.splits)
qed simp

lemma query_lookup:
  "distinct (map fst q) \<Longrightarrow> map_of (normalizeQueryParams q) k = Option.bind (map_of q k) query_text"
  unfolding normalizeQueryParams_def by (subst query_fold) (auto split: option.splits)

lemma includes_prefix: "str_includes v (v @ s)"
  proof (cases "v @ s")
  case (Cons a r)
  have "starts_with v (v @ s)" by (simp add: starts_with_def)
  then show ?thesis unfolding Cons by simp
qed simp

lemma includes_later: "str_includes v s \<Longrightarrow> str_includes v (p @ s)"
  by (induction p) auto

lemma join_includes: "v \<in> set vs \<Longrightarrow> str_includes v (join_with sep vs)"
proof (induction sep vs rule: join_with.induct)
  case (3 sep x y xs)
  then show ?case
    using includes_prefix [of x] includes_later [of v _ "x @ sep"] by auto
qed (auto simp: includes_prefix [of _ "[]", simplified])

subsection \<open>The scan of the router stack\<close>

text \<open>A layer the scan takes: a route that matches the path and resolves an identity for the method.\<close>

definition decorated :: "string \<Rightarrow> string \<Rightarrow> layer \<Rightarrow> bool" where
  "decorated path m l \<longleftrightarrow> layerMatches l path \<and>
     (case ly_route l of None \<Rightarrow> False | Some route \<Rightarrow> routeIdFromRoute route m \<noteq> None)"

lemma scan_layers_find:
  "scan_layers path m ls =
     (case List.find (decorated path m) ls of
        None \<Rightarrow> None
      | Some l \<Rightarrow> (case ly_route l of None \<Rightarrow> None | Some route \<Rightarrow> routeIdFromRoute route m))"
  by (induction ls) (auto simp: decorated_def split: option.splits)

lemma scan_None: "scan_layers path m ls = None \<longleftrightarrow> (\<forall>l \<in> set ls. \<not> decorated path m l)"
  by (induction ls) (auto simp: decorated_def split: option.splits)

lemma first_id_mem: "first_id hs = Some i \<Longrightarrow> \<exists>h \<in> set hs. hd_route_id h = Some i"
  by (induction hs) (auto split: option.splits)

lemma first_id_None: "first_id hs = None \<longleftrightarrow> (\<forall>h \<in> set hs. hd_route_id h = None)"
  by (induction hs) (auto split: option.splits)

subsection \<open>Properties\<close>

text \<open>
  Express presents every value of a repeated query parameter to the engine, as parts of one text;
  Hono presents only the last one, so what an earlier occurrence carries is never scanned.
\<close>

theorem repeated_parameters_presented:
  assumes "distinct (map fst (rw_query r))" and "(k, QList vs) \<in> set (rw_query r)" and "v \<in> set vs"
  shows "(\<exists>t. map_of (rq_query (express_request r)) k = Some t \<and> str_includes v t) \<and>
    map_of (hono_query (map (Pair k) vs)) k = Some (last vs)"
proof -
  have "map_of (rw_query r) k = Some (QList vs)" using assms(1,2) by simp
  then have "map_of (rq_query (express_request r)) k = Some (join_with '', '' vs)"
    using query_lookup [OF assms(1), of k] by (simp add: express_request_def query_text_def)
  moreover have "map_of (rev (map (Pair k) vs)) k = Some (last vs)"
    using assms(3) by (cases vs rule: rev_cases) auto
  ultimately show ?thesis using join_includes [OF assms(3)] by (auto simp: hono_query_last)
qed

definition ex_raw :: raw_request where
  "ex_raw = \<lparr>rw_path = ''/items'', rw_url = ''/items?q=a&q=b'', rw_original_url = ''/items?q=a&q=b'',
     rw_protocol = ''http'', rw_hostname = ''h'', rw_method = ''GET'', rw_raw_remote = None,
     rw_remote = Some ''10.0.0.7'', rw_ip = None, rw_headers = [], rw_query = [(''q'', QList [''a'', ''b''])]\<rparr>"

theorem repeated_parameters_presented_witness:
  "(\<exists>t. map_of (rq_query (express_request ex_raw)) ''q'' = Some t \<and> str_includes ''a'' t) \<and>
    map_of (hono_query (map (Pair ''q'') [''a'', ''b''])) ''q'' = Some ''b''"
  using repeated_parameters_presented [of ex_raw "''q''" "[''a'', ''b'']" "''a''"] by (simp add: ex_raw_def)

text \<open>
  The route identity of a request comes from its own matched route if that carries one, else from
  the first layer of the router stack that matches the path, serves the method and carries one; layers
  that match but carry none do not end the scan.
\<close>

theorem route_identity_exact:
  "resolveExpressRouteId r =
     (case Option.bind (ro_direct r) (\<lambda>route. routeIdFromRoute route (to_lower (ro_method r))) of
        Some i \<Rightarrow> Some i
      | None \<Rightarrow>
          Option.bind (ro_router r) (\<lambda>ls.
            Option.bind (List.find (decorated (ro_path r) (to_lower (ro_method r))) ls) (\<lambda>l.
              Option.bind (ly_route l) (\<lambda>route. routeIdFromRoute route (to_lower (ro_method r))))))"
  by (simp add: resolveExpressRouteId_def Let_def scan_layers_find split: option.splits)

text \<open>
  A HEAD request gets no route identity from routes registered for other methods only, so it runs
  without the decorator configuration of the GET route that serves it.
\<close>

theorem head_request_has_no_route_identity:
  assumes "to_lower (ro_method r) = ''head''"
    and "\<forall>route \<in> set_option (ro_direct r) \<union> (\<Union>ls \<in> set_option (ro_router r). \<Union>l \<in> set ls. set_option (ly_route l)).
           \<exists>t. rt_methods route = Some t \<and> map_of t ''_all'' \<noteq> Some True \<and> map_of t ''head'' \<noteq> Some True"
  shows "resolveExpressRouteId r = None"
proof -
  have none: "routeIdFromRoute route ''head'' = None"
    if "\<exists>t. rt_methods route = Some t \<and> map_of t ''_all'' \<noteq> Some True \<and> map_of t ''head'' \<noteq> Some True" for route
    using that by (auto simp: routeIdFromRoute_def serves_method_def split: option.splits)
  have "scan_layers (ro_path r) ''head'' ls = None" if "ro_router r = Some ls" for ls
    using assms(2) that none by (auto simp: scan_None decorated_def split: option.splits)
  moreover have "routeIdFromRoute route ''head'' = None" if "ro_direct r = Some route" for route
    using assms(2) that none by auto
  ultimately show ?thesis
    by (simp add: resolveExpressRouteId_def assms(1) Let_def split: option.splits)
qed

definition ex_get_route :: route_like where
  "ex_get_route = \<lparr>rt_stack = Some [\<lparr>hd_route_id = Some ''items'', hd_name = ''list''\<rparr>], rt_methods = Some [(''get'', True)]\<rparr>"

definition ex_routed :: "string \<Rightarrow> routed" where
  "ex_routed m = \<lparr>ro_method = m, ro_direct = None,
     ro_router = Some [\<lparr>ly_route = Some ex_get_route, ly_matchers = Some [\<lambda>_. Inr True], ly_match = None\<rparr>],
     ro_path = ''/items''\<rparr>"

theorem head_request_has_no_route_identity_witness:
  "resolveExpressRouteId (ex_routed ''GET'') = Some ''items'' \<and> resolveExpressRouteId (ex_routed ''HEAD'') = None"
proof
  show "resolveExpressRouteId (ex_routed ''GET'') = Some ''items''"
    by code_simp
  show "resolveExpressRouteId (ex_routed ''HEAD'') = None"
  proof (rule head_request_has_no_route_identity)
    have "to_lower ''HEAD'' = ''head''" by code_simp
    then show "to_lower (ro_method (ex_routed ''HEAD'')) = ''head''" by (simp add: ex_routed_def)
  qed (simp add: ex_routed_def ex_get_route_def)
qed

lemma table_hit: "m \<in> set ms \<Longrightarrow>
  map_of (fold (\<lambda>m. AList.update (upper m @ ''|'' @ url) meta) ms table) (upper m @ ''|'' @ url) = Some meta"
proof (induction ms rule: rev_induct)
  case (snoc x ms)
  then show ?case by (cases "upper x = upper m") (auto simp: update_conv')
qed simp

text \<open>
  A request whose method is one of those a Fastify route declares is stamped with the identity and
  name of the handler registered last for that route.
\<close>

theorem fastify_stamp_exact:
  assumes "m' \<in> set ms" and "upper m = upper m'" and "[] \<notin> set ms" and "url \<noteq> []"
  shows "fastify_meta upper (fastify_onRoute upper h ms url table) ms (Some url) m =
    (if hd_route_id h = None \<and> hd_name h = [] then fastify_meta upper table ms (Some url) m
     else (hd_route_id h, truthy (Some (hd_name h))))"
proof -
  obtain d where d: "List.find (\<lambda>d. upper d = upper m) ms = Some d"
    using assms(1,2) by (cases "List.find (\<lambda>d. upper d = upper m) ms") (auto simp: find_None_iff)
  then have "d \<in> set ms" by (auto simp: find_Some_iff)
  then have "d \<noteq> []" using assms(3) by auto
  then show ?thesis
    using assms(4) d table_hit [OF \<open>d \<in> set ms\<close>, of upper url _ table]
    by (auto simp: fastify_meta_def fastify_onRoute_def Let_def truthy_def)
qed

theorem fastify_stamp_exact_witness:
  "fastify_meta id (fastify_onRoute id \<lparr>hd_route_id = Some ''r'', hd_name = []\<rparr> [''GET'', ''PUT''] ''/x'' []) [''GET'', ''PUT'']
     (Some ''/x'') ''PUT'' = (Some ''r'', None)"
  using fastify_stamp_exact [of "''PUT''" "[''GET'', ''PUT'']" id "''PUT''" "''/x''" "\<lparr>hd_route_id = Some ''r'', hd_name = []\<rparr>" "[]"]
  by (simp add: truthy_def)

end
