(* ===== verification/Security_Headers.thy ===== *)
theory Security_Headers
  imports Bounded_Store Check_Helpers "HOL-Library.Word"
begin

section \<open>SecurityHeadersManager (handlers/security-headers.ts)\<close>

text \<open>
  The manager of the response headers: default and custom headers, CSP, HSTS and CORS, and the cache of
  built header sets. State passing over one record; \<open>now\<close> is \<open>Date.now()\<close>, \<open>redact\<close> the URL and
  \<open>redact_value\<close> the header redactor, JSON coding and Redis outcomes are arguments. An operation
  that may raise returns the exception beside the state it leaves behind.
\<close>

subsection \<open>State\<close>

record hsts_config =
  hc_max_age :: int
  hc_subdomains :: bool
  hc_preload :: bool

record cors_config =
  cc_origins :: "string list"
  cc_credentials :: bool
  cc_methods :: "string list"
  cc_allow_headers :: "string list"

datatype header_event =
  HeadersApplied string nat bool bool
| CspViolation string string string string "int option"

record headers_state =
  sh_cache :: "(string, (string, string) omap) omap"
  sh_stamps :: "(string, int) omap"
  sh_default :: "(string, string) omap"
  sh_custom :: "(string, string) omap"
  sh_csp :: "(string, string list) omap option"
  sh_hsts :: "hsts_config option"
  sh_cors :: "cors_config option"
  sh_agent :: bool
  sh_events :: "header_event list"
  sh_warnings :: "string list"
  sh_errors :: "string list"

definition DEFAULT_HEADERS :: "(string, string) omap" where
  "DEFAULT_HEADERS =
     [(''X-Content-Type-Options'', ''nosniff''),
      (''X-Frame-Options'', ''SAMEORIGIN''),
      (''X-XSS-Protection'', ''1; mode=block''),
      (''Referrer-Policy'', ''strict-origin-when-cross-origin''),
      (''Permissions-Policy'', ''geolocation=(), microphone=(), camera=()''),
      (''X-Permitted-Cross-Domain-Policies'', ''none''),
      (''X-Download-Options'', ''noopen''),
      (''Cross-Origin-Embedder-Policy'', ''require-corp''),
      (''Cross-Origin-Opener-Policy'', ''same-origin''),
      (''Cross-Origin-Resource-Policy'', ''same-origin'')]"

definition MAX_HEADER_VALUE_LENGTH :: nat where "MAX_HEADER_VALUE_LENGTH = 8192"
definition cacheMaxSize :: nat where "cacheMaxSize = 1000"
definition cacheTtlMs :: int where "cacheTtlMs = 300000"

definition init_headers :: headers_state where
  "init_headers = \<lparr>sh_cache = [], sh_stamps = [], sh_default = DEFAULT_HEADERS, sh_custom = [],
     sh_csp = None, sh_hsts = None, sh_cors = None, sh_agent = False, sh_events = [],
     sh_warnings = [], sh_errors = []\<rparr>"

subsection \<open>Values and keys\<close>

definition stripped_char :: "char \<Rightarrow> bool" where
  "stripped_char c \<longleftrightarrow> (let n = (of_char c :: nat) in n \<le> 8 \<or> n = 11 \<or> n = 12 \<or> (14 \<le> n \<and> n \<le> 31))"

definition validateHeaderValue :: "string \<Rightarrow> exn + string" where
  "validateHeaderValue v =
     (if CHR 0x0D \<in> set v \<or> CHR 0x0A \<in> set v
      then Inl (OtherErr ''Error'' ''Header value must not contain CR or LF characters'')
      else if MAX_HEADER_VALUE_LENGTH < length v
      then Inl (OtherErr ''Error'' ''Header value exceeds maximum length of 8192'')
      else Inr (filter (\<lambda>c. \<not> stripped_char c) v))"

definition stripTrailingSlashes :: "string \<Rightarrow> string" where
  "stripTrailingSlashes v = rev (dropWhile (\<lambda>c. c = CHR ''/'') (rev v))"

text \<open>The 32-bit rolling hash: \<open>(hash << 5) - hash + code\<close>, truncated by \<open>|= 0\<close>.\<close>

definition hash_step :: "char \<Rightarrow> 32 word \<Rightarrow> 32 word" where
  "hash_step c h = push_bit 5 h - h + of_nat (of_char c)"

definition padStart :: "nat \<Rightarrow> char \<Rightarrow> string \<Rightarrow> string" where
  "padStart n c s = replicate (n - length s) c @ s"

definition generateCacheKey :: "string \<Rightarrow> string" where
  "generateCacheKey path =
     (let h = fold hash_step (stripTrailingSlashes (to_lower path)) 0
      in take 16 (padStart 16 (CHR ''0'') (show_nat (nat \<bar>sint h\<bar>))))"

subsection \<open>configure\<close>

record header_options =
  ho_enabled :: bool
  ho_csp :: "(string, string list) omap option"
  ho_hsts_max_age :: "int option"
  ho_hsts_subdomains :: "bool option"
  ho_hsts_preload :: "bool option"
  ho_frame :: "string option"
  ho_content_type :: "string option"
  ho_xss :: "string option"
  ho_referrer :: "string option"
  ho_permissions :: "string option"
  ho_custom :: "(string, string) omap option"
  ho_origins :: "string list option"
  ho_credentials :: "bool option"
  ho_methods :: "string list option"
  ho_allow_headers :: "string list option"

text \<open>A step that may raise, and the steps after it.\<close>

type_synonym hstep = "headers_state \<Rightarrow> exn option \<times> headers_state"

definition andthen :: "hstep \<Rightarrow> hstep \<Rightarrow> hstep" where
  "andthen f g s = (case f s of (None, s') \<Rightarrow> g s' | (Some e, s') \<Rightarrow> (Some e, s'))"

definition plain :: "(headers_state \<Rightarrow> headers_state) \<Rightarrow> hstep" where
  "plain f s = (None, f s)"

definition put_default :: "string \<Rightarrow> string option \<Rightarrow> hstep" where
  "put_default name v s =
     (case truthy v of
        None \<Rightarrow> (None, s)
      | Some x \<Rightarrow>
          (case validateHeaderValue x of
             Inl e \<Rightarrow> (Some e, s)
           | Inr y \<Rightarrow> (None, s\<lparr>sh_default := AList.update name y (sh_default s)\<rparr>)))"

fun put_custom :: "(string, string) omap \<Rightarrow> hstep" where
  "put_custom [] s = (None, s)"
| "put_custom ((k, v) # xs) s =
     (case validateHeaderValue v of
        Inl e \<Rightarrow> (Some e, s)
      | Inr y \<Rightarrow> put_custom xs (s\<lparr>sh_custom := AList.update k y (sh_custom s)\<rparr>))"

definition put_policies :: "header_options \<Rightarrow> headers_state \<Rightarrow> headers_state" where
  "put_policies ho s =
     s\<lparr>sh_csp := (case ho_csp ho of None \<Rightarrow> sh_csp s | Some c \<Rightarrow> Some c),
       sh_hsts := (case ho_hsts_max_age ho of
          None \<Rightarrow> sh_hsts s
        | Some m \<Rightarrow> Some \<lparr>hc_max_age = m,
            hc_subdomains = (case ho_hsts_subdomains ho of None \<Rightarrow> True | Some b \<Rightarrow> b),
            hc_preload = (case ho_hsts_preload ho of None \<Rightarrow> False | Some b \<Rightarrow> b)\<rparr>)\<rparr>"

definition put_cors :: "header_options \<Rightarrow> headers_state \<Rightarrow> headers_state" where
  "put_cors ho s =
     (case ho_origins ho of
        None \<Rightarrow> s
      | Some origins \<Rightarrow>
          let wanted = (case ho_credentials ho of None \<Rightarrow> False | Some b \<Rightarrow> b);
              wild = ''*'' \<in> set origins \<and> wanted
          in s\<lparr>sh_errors := sh_errors s @
                 (if wild then [''CORS config error: Wildcard origin disallowed with credentials''] else []),
               sh_cors := Some
                 \<lparr>cc_origins = origins,
                  cc_credentials = (if wild then False else wanted),
                  cc_methods = (case ho_methods ho of Some m \<Rightarrow> m
                     | None \<Rightarrow> [''GET'', ''POST'', ''PUT'', ''DELETE'', ''OPTIONS'']),
                  cc_allow_headers = (case ho_allow_headers ho of Some h \<Rightarrow> h | None \<Rightarrow> [''*''])\<rparr>\<rparr>)"

definition configure :: "header_options \<Rightarrow> hstep" where
  "configure ho s =
     (if \<not> ho_enabled ho then (None, s\<lparr>sh_default := []\<rparr>)
      else
        andthen (plain (put_policies ho))
       (andthen (put_default ''X-Frame-Options'' (ho_frame ho))
       (andthen (put_default ''X-Content-Type-Options'' (ho_content_type ho))
       (andthen (put_default ''X-XSS-Protection'' (ho_xss ho))
       (andthen (put_default ''Referrer-Policy'' (ho_referrer ho))
       (andthen (put_default ''Permissions-Policy'' (ho_permissions ho))
       (andthen (case ho_custom ho of None \<Rightarrow> plain (\<lambda>s. s) | Some c \<Rightarrow> put_custom c)
         (plain (put_cors ho)))))))) s)"

text \<open>
  What \<open>cacheConfiguration\<close> writes to Redis after it, in order; the JSON encoders are arguments.
\<close>

definition cacheConfiguration ::
  "((string, string list) omap \<Rightarrow> string) \<Rightarrow> (hsts_config \<Rightarrow> string) \<Rightarrow> ((string, string) omap \<Rightarrow> string)
     \<Rightarrow> headers_state \<Rightarrow> (string \<times> string) list"
where
  "cacheConfiguration js_csp js_hsts js_custom s =
     (case sh_csp s of None \<Rightarrow> [] | Some c \<Rightarrow> [(''csp_config'', js_csp c)]) @
     (case sh_hsts s of None \<Rightarrow> [] | Some h \<Rightarrow> [(''hsts_config'', js_hsts h)]) @
     (if sh_custom s = [] then [] else [(''custom_headers'', js_custom (sh_custom s))])"

text \<open>
  \<open>loadCachedConfig\<close>: three reads in order, each of which may raise and end the load; a text that does
  not parse is ignored.
\<close>

definition load_one :: "exn + string option \<Rightarrow> (string \<Rightarrow> 'a option) \<Rightarrow> ('a \<Rightarrow> headers_state \<Rightarrow> headers_state) \<Rightarrow> hstep" where
  "load_one got parse put s =
     (case got of
        Inl e \<Rightarrow> (Some e, s)
      | Inr None \<Rightarrow> (None, s)
      | Inr (Some j) \<Rightarrow> (case parse j of None \<Rightarrow> (None, s) | Some x \<Rightarrow> (None, put x s)))"

definition loadCachedConfig ::
  "(string \<Rightarrow> (string, string list) omap option) \<Rightarrow> (string \<Rightarrow> hsts_config option)
     \<Rightarrow> (string \<Rightarrow> (string, string) omap option) \<Rightarrow> (string \<Rightarrow> exn + string option) \<Rightarrow> hstep"
where
  "loadCachedConfig p_csp p_hsts p_custom getKey =
     andthen (load_one (getKey ''csp_config'') p_csp (\<lambda>c s. s\<lparr>sh_csp := Some c\<rparr>))
    (andthen (load_one (getKey ''hsts_config'') p_hsts (\<lambda>h s. s\<lparr>sh_hsts := Some h\<rparr>))
      (load_one (getKey ''custom_headers'') p_custom (\<lambda>c s. s\<lparr>sh_custom := c\<rparr>)))"

definition reset_headers :: "headers_state \<Rightarrow> headers_state" where
  "reset_headers s = s\<lparr>sh_cache := [], sh_stamps := [], sh_default := DEFAULT_HEADERS, sh_custom := [],
     sh_csp := None, sh_hsts := None, sh_cors := None\<rparr>"

subsection \<open>getHeaders\<close>

definition buildCsp :: "headers_state \<Rightarrow> string option" where
  "buildCsp s = map_option (\<lambda>c. join_with ''; '' (map (\<lambda>(d, vs). d @ '' '' @ join_with '' '' vs) c)) (sh_csp s)"

definition buildHsts :: "headers_state \<Rightarrow> string option" where
  "buildHsts s = map_option (\<lambda>h. ''max-age='' @ show_int (hc_max_age h) @
     (if hc_subdomains h then ''; includeSubDomains'' else []) @
     (if hc_preload h then ''; preload'' else [])) (sh_hsts s)"

definition put_opt :: "string \<Rightarrow> string option \<Rightarrow> (string, string) omap \<Rightarrow> (string, string) omap" where
  "put_opt name v m = (case truthy v of None \<Rightarrow> m | Some x \<Rightarrow> AList.update name x m)"

text \<open>A fresh build: defaults, CSP, HSTS, then the custom headers over them.\<close>

definition build_headers :: "headers_state \<Rightarrow> (string, string) omap" where
  "build_headers s =
     fold (\<lambda>(k, v). AList.update k v) (sh_custom s)
       (put_opt ''Strict-Transport-Security'' (buildHsts s)
         (put_opt ''Content-Security-Policy'' (buildCsp s) (sh_default s)))"

text \<open>A full cache drops its oldest entry first, whether or not the key is a new one.\<close>

definition cache_put :: "int \<Rightarrow> string \<Rightarrow> (string, string) omap \<Rightarrow> headers_state \<Rightarrow> headers_state" where
  "cache_put now key hs s =
     (let s' = (if cacheMaxSize \<le> length (sh_cache s)
                then (case sh_cache s of
                        [] \<Rightarrow> s
                      | (oldest, _) # _ \<Rightarrow>
                          s\<lparr>sh_cache := AList.delete oldest (sh_cache s),
                            sh_stamps := AList.delete oldest (sh_stamps s)\<rparr>)
                else s)
      in s'\<lparr>sh_cache := AList.update key hs (sh_cache s'), sh_stamps := AList.update key now (sh_stamps s')\<rparr>)"

definition cached_headers :: "int \<Rightarrow> string \<Rightarrow> headers_state \<Rightarrow> (string, string) omap option" where
  "cached_headers now key s =
     (case map_of (sh_stamps s) key of
        None \<Rightarrow> None
      | Some t \<Rightarrow> if t \<noteq> 0 \<and> now - t < cacheTtlMs then map_of (sh_cache s) key else None)"

definition sendHeadersEvent :: "header_event \<Rightarrow> headers_state \<Rightarrow> headers_state" where
  "sendHeadersEvent ev s = (if sh_agent s then s\<lparr>sh_events := sh_events s @ [ev]\<rparr> else s)"

definition getHeaders ::
  "(string \<Rightarrow> string) \<Rightarrow> string \<Rightarrow> int \<Rightarrow> headers_state \<Rightarrow> (string, string) omap \<times> headers_state"
where
  "getHeaders redact path now s =
     (case cached_headers now (generateCacheKey path) s of
        Some hs \<Rightarrow> (hs, s)
      | None \<Rightarrow>
          let hs = build_headers s;
              s1 = cache_put now (generateCacheKey path) hs s
          in (hs,
              if path = [] then s1
              else sendHeadersEvent
                     (HeadersApplied (redact path) (length hs) (om_has hs ''Content-Security-Policy'')
                        (om_has hs ''Strict-Transport-Security'')) s1))"

subsection \<open>validateCspReport and getCorsHeaders\<close>

text \<open>A report field: its \<open>String(v)\<close> and, where it is finite, its \<open>Number(v)\<close>.\<close>

record csp_value =
  cv_text :: string
  cv_number :: "int option"

definition validateCspReport ::
  "(string \<Rightarrow> string) \<Rightarrow> (string \<Rightarrow> string) \<Rightarrow> (string, csp_value) omap \<Rightarrow> headers_state \<Rightarrow> bool \<times> headers_state"
where
  "validateCspReport redact redact_value report s =
     (case (map_of report ''document-uri'', map_of report ''violated-directive'', map_of report ''blocked-uri'') of
        (Some doc, Some dir, Some blk) \<Rightarrow>
          let safeDirective = redact_value (cv_text dir);
              safeBlockedUri = redact (cv_text blk);
              safeDocumentUri = redact (cv_text doc);
              s1 = s\<lparr>sh_warnings := sh_warnings s @
                [''CSP Violation: '' @ safeDirective @ '' blocked '' @ safeBlockedUri @ '' on '' @ safeDocumentUri]\<rparr>
          in (True,
              sendHeadersEvent
                (CspViolation safeDocumentUri safeDirective safeBlockedUri
                   (case map_of report ''source-file'' of None \<Rightarrow> ''None'' | Some f \<Rightarrow> redact (cv_text f))
                   (case map_of report ''line-number'' of None \<Rightarrow> None | Some n \<Rightarrow> cv_number n)) s1)
      | _ \<Rightarrow> (False, s))"

definition getCorsHeaders :: "string \<Rightarrow> headers_state \<Rightarrow> (string, string) omap" where
  "getCorsHeaders origin s =
     (case sh_cors s of
        None \<Rightarrow> []
      | Some cc \<Rightarrow>
          if ''*'' \<notin> set (cc_origins cc) \<and> origin \<notin> set (cc_origins cc) then []
          else
            [(''Access-Control-Allow-Origin'', if origin \<in> set (cc_origins cc) then origin else ''*''),
             (''Access-Control-Allow-Methods'', join_with '', '' (cc_methods cc)),
             (''Access-Control-Allow-Headers'', join_with '', '' (cc_allow_headers cc)),
             (''Access-Control-Max-Age'', ''3600'')] @
            (if cc_credentials cc then [(''Access-Control-Allow-Credentials'', ''true'')] else []))"

subsection \<open>Header values\<close>

definition clean_value :: "string \<Rightarrow> bool" where
  "clean_value v \<longleftrightarrow> length v \<le> MAX_HEADER_VALUE_LENGTH \<and>
     (\<forall>c \<in> set v. 31 < (of_char c :: nat) \<or> (of_char c :: nat) = 9)"

lemma validated_clean:
  assumes "validateHeaderValue v = Inr y"
  shows "clean_value y"
proof -
  have y: "y = filter (\<lambda>c. \<not> stripped_char c) v" and len: "length v \<le> MAX_HEADER_VALUE_LENGTH"
    and no: "CHR 0x0D \<notin> set v" "CHR 0x0A \<notin> set v"
    using assms by (auto simp: validateHeaderValue_def split: if_splits)
  have "length y \<le> MAX_HEADER_VALUE_LENGTH" using len by (simp add: y le_trans [OF length_filter_le])
  moreover have "31 < (of_char c :: nat) \<or> (of_char c :: nat) = 9" if "c \<in> set y" for c
  proof -
    have "char_of (13 :: nat) = CHR 0x0D" "char_of (10 :: nat) = CHR 0x0A" by code_simp+
    then have "c \<noteq> char_of (13 :: nat)" "c \<noteq> char_of (10 :: nat)" using that no y by auto
    then have "(of_char c :: nat) \<noteq> 13" "(of_char c :: nat) \<noteq> 10"
      by (metis char_of_char)+
    then show ?thesis using that by (auto simp: y stripped_char_def Let_def)
  qed
  ultimately show ?thesis by (simp add: clean_value_def)
qed

definition clean_map :: "(string, string) omap \<Rightarrow> bool" where
  "clean_map m \<longleftrightarrow> om_ok m \<and> (\<forall>v \<in> snd ` set m. clean_value v)"

lemma clean_update: "clean_map m \<Longrightarrow> clean_value v \<Longrightarrow> clean_map (AList.update k v m)"
  unfolding clean_map_def by (induction m) auto

lemma put_default_clean:
  "clean_map (sh_default s) \<Longrightarrow> put_default name v s = (e, s') \<Longrightarrow> \<exists>d. clean_map d \<and> s' = s\<lparr>sh_default := d\<rparr>"
  by (auto simp: put_default_def intro: clean_update [OF _ validated_clean] split: option.splits sum.splits)

lemma put_custom_clean:
  "clean_map (sh_custom s) \<Longrightarrow> put_custom xs s = (e, s') \<Longrightarrow> \<exists>c. clean_map c \<and> s' = s\<lparr>sh_custom := c\<rparr>"
proof (induction xs s rule: put_custom.induct)
  case (1 s)
  then have "s' = s\<lparr>sh_custom := sh_custom s\<rparr>" by simp
  then show ?case using 1 by blast
next
  case (2 k v xs s)
  show ?case
  proof (cases "validateHeaderValue v")
    case (Inl x)
    then have "s' = s\<lparr>sh_custom := sh_custom s\<rparr>" using 2 by simp
    then show ?thesis using 2 by blast
  next
    case (Inr y)
    then show ?thesis
      using 2 clean_update [OF _ validated_clean [OF Inr], of "sh_custom s" k] by fastforce
  qed
qed

subsection \<open>The invariant of the manager\<close>

definition cors_safe :: "headers_state \<Rightarrow> bool" where
  "cors_safe s \<longleftrightarrow> (case sh_cors s of None \<Rightarrow> True | Some cc \<Rightarrow> \<not> (''*'' \<in> set (cc_origins cc) \<and> cc_credentials cc))"

definition values_safe :: "headers_state \<Rightarrow> bool" where
  "values_safe s \<longleftrightarrow> clean_map (sh_default s) \<and> clean_map (sh_custom s)"

definition cache_ok :: "headers_state \<Rightarrow> bool" where
  "cache_ok s \<longleftrightarrow> om_ok (sh_cache s) \<and> om_keys (sh_stamps s) = om_keys (sh_cache s) \<and> length (sh_cache s) \<le> cacheMaxSize"

definition headers_ok :: "headers_state \<Rightarrow> bool" where
  "headers_ok s \<longleftrightarrow> values_safe s \<and> cors_safe s \<and> cache_ok s"

lemma keys_update: "om_keys m = om_keys m' \<Longrightarrow> om_keys (AList.update k v m) = om_keys (AList.update k v' m')"
  by (simp add: update_keys)

lemma update_both:
  assumes "om_keys ts = om_keys m" and "om_ok m" and "length m < cap"
  shows "om_ok (AList.update k v m) \<and> om_keys (AList.update k t ts) = om_keys (AList.update k v m) \<and>
    length (AList.update k v m) \<le> cap"
  using assms keys_update [OF assms(1)] by (simp add: om_size_update)

lemma cache_put_ok:
  assumes "cache_ok s"
  shows "cache_ok (cache_put now key hs s)"
proof -
  have keys: "om_keys (sh_stamps s) = om_keys (sh_cache s)" and ok: "om_ok (sh_cache s)"
    and len: "length (sh_cache s) \<le> cacheMaxSize"
    using assms by (auto simp: cache_ok_def)
  show ?thesis
  proof (cases "cacheMaxSize \<le> length (sh_cache s)")
    case True
    then obtain oldest x rest where s: "sh_cache s = (oldest, x) # rest"
      by (cases "sh_cache s") (auto simp: cacheMaxSize_def)
    have "om_keys (AList.delete oldest (sh_stamps s)) = om_keys (AList.delete oldest (sh_cache s))"
      by (simp add: om_keys_delete keys)
    moreover have "length (AList.delete oldest (sh_cache s)) < cacheMaxSize"
      using om_size_delete [OF ok, of oldest] len s by simp
    ultimately show ?thesis
      using True s ok update_both [of "AList.delete oldest (sh_stamps s)" "AList.delete oldest (sh_cache s)"]
      by (simp add: cache_put_def cache_ok_def Let_def)
  next
    case False
    then show ?thesis using ok keys update_both [OF keys ok, of cacheMaxSize key hs now] by (simp add: cache_put_def cache_ok_def Let_def)
  qed
qed

lemma cache_put_look:
  "map_of (sh_cache (cache_put now key hs s)) key = Some hs" "map_of (sh_stamps (cache_put now key hs s)) key = Some now"
  by (auto simp: cache_put_def Let_def split: list.splits)

lemma cache_put_frame:
  "sh_default (cache_put now key hs s) = sh_default s" "sh_custom (cache_put now key hs s) = sh_custom s"
  "sh_csp (cache_put now key hs s) = sh_csp s" "sh_hsts (cache_put now key hs s) = sh_hsts s"
  "sh_cors (cache_put now key hs s) = sh_cors s" "sh_agent (cache_put now key hs s) = sh_agent s"
  "sh_events (cache_put now key hs s) = sh_events s"
  by (auto simp: cache_put_def Let_def split: list.splits)

text \<open>Another key reads what it read before, or nothing, when it was the one evicted.\<close>

lemma cache_put_other:
  "key' \<noteq> key \<Longrightarrow> map_of (sh_cache (cache_put now key hs s)) key' = map_of (sh_cache s) key' \<or>
     map_of (sh_cache (cache_put now key hs s)) key' = None"
  by (auto simp: cache_put_def Let_def split: list.splits)

lemma cache_put_room:
  "key' \<noteq> key \<Longrightarrow> length (sh_cache s) < cacheMaxSize \<Longrightarrow>
     map_of (sh_cache (cache_put now key hs s)) key' = map_of (sh_cache s) key'"
  by (auto simp: cache_put_def Let_def split: list.splits)

interpretation header_cache: bounded_store "cache_put now" "\<lambda>s. map_of (sh_cache s)" "\<lambda>s. length (sh_cache s)"
  cache_ok "\<lambda>_. True" cacheMaxSize for now
proof unfold_locales
  fix s and k k' :: string and v
  show "cache_ok (cache_put now k v s)" if "cache_ok s" using that by (rule cache_put_ok)
  show "length (sh_cache s) \<le> cacheMaxSize" if "cache_ok s" using that by (simp add: cache_ok_def)
qed (use cache_put_other in \<open>auto simp: cache_put_look cache_put_room\<close>)

subsection \<open>Every operation keeps the invariant\<close>

lemma headers_ok_init: "headers_ok init_headers"
proof -
  have "clean_map DEFAULT_HEADERS" by code_simp
  then show ?thesis
    by (simp add: headers_ok_def values_safe_def cors_safe_def cache_ok_def init_headers_def clean_map_def)
qed

lemma headers_ok_reset: "headers_ok (reset_headers s)"
  using headers_ok_init
  by (simp add: headers_ok_def values_safe_def cors_safe_def cache_ok_def init_headers_def reset_headers_def)

text \<open>Steps that keep the invariant, whether they raise or not.\<close>

definition safe_step :: "hstep \<Rightarrow> bool" where
  "safe_step f \<longleftrightarrow> (\<forall>s. headers_ok s \<longrightarrow> headers_ok (snd (f s)))"

lemma safe_andthen: "safe_step f \<Longrightarrow> safe_step g \<Longrightarrow> safe_step (andthen f g)"
  by (fastforce simp: safe_step_def andthen_def split: prod.splits option.splits)

lemma safe_plain: "(\<And>s. headers_ok s \<Longrightarrow> headers_ok (f s)) \<Longrightarrow> safe_step (plain f)"
  by (simp add: safe_step_def plain_def)

lemma safe_put_default: "safe_step (put_default name v)"
  unfolding safe_step_def
proof (intro allI impI)
  fix s assume ok: "headers_ok s"
  then obtain d where "clean_map d" "snd (put_default name v s) = s\<lparr>sh_default := d\<rparr>"
    using put_default_clean [of s name v] by (metis headers_ok_def prod.collapse values_safe_def)
  then show "headers_ok (snd (put_default name v s))"
    using ok by (simp add: headers_ok_def values_safe_def cors_safe_def cache_ok_def)
qed

lemma safe_put_custom: "safe_step (put_custom c)"
  unfolding safe_step_def
proof (intro allI impI)
  fix s assume ok: "headers_ok s"
  then obtain m where "clean_map m" "snd (put_custom c s) = s\<lparr>sh_custom := m\<rparr>"
    using put_custom_clean [of s c] by (metis headers_ok_def prod.collapse values_safe_def)
  then show "headers_ok (snd (put_custom c s))"
    using ok by (simp add: headers_ok_def values_safe_def cors_safe_def cache_ok_def)
qed

lemma safe_configure: "safe_step (configure ho)"
proof -
  have off: "headers_ok s \<Longrightarrow> headers_ok (s\<lparr>sh_default := []\<rparr>)" for s
    by (simp add: headers_ok_def values_safe_def cors_safe_def cache_ok_def clean_map_def)
  have policies: "headers_ok s \<Longrightarrow> headers_ok (put_policies ho s)" for s
    by (simp add: headers_ok_def values_safe_def cors_safe_def cache_ok_def put_policies_def)
  have cors: "headers_ok s \<Longrightarrow> headers_ok (put_cors ho s)" for s
    by (auto simp: headers_ok_def values_safe_def cors_safe_def cache_ok_def put_cors_def Let_def split: option.splits)
  have "safe_step (case ho_custom ho of None \<Rightarrow> plain (\<lambda>s. s) | Some c \<Rightarrow> put_custom c)"
    by (auto intro: safe_plain safe_put_custom split: option.splits)
  then have "safe_step
      (andthen (plain (put_policies ho))
      (andthen (put_default ''X-Frame-Options'' (ho_frame ho))
      (andthen (put_default ''X-Content-Type-Options'' (ho_content_type ho))
      (andthen (put_default ''X-XSS-Protection'' (ho_xss ho))
      (andthen (put_default ''Referrer-Policy'' (ho_referrer ho))
      (andthen (put_default ''Permissions-Policy'' (ho_permissions ho))
      (andthen (case ho_custom ho of None \<Rightarrow> plain (\<lambda>s. s) | Some c \<Rightarrow> put_custom c)
        (plain (put_cors ho)))))))))"
    by (intro safe_andthen safe_put_default safe_plain policies cors)
  then show ?thesis using off by (simp add: safe_step_def configure_def)
qed

lemma header_event_frame [simp]: "headers_ok (sendHeadersEvent ev s) = headers_ok s"
  by (simp add: sendHeadersEvent_def headers_ok_def values_safe_def cors_safe_def cache_ok_def)

lemma headers_ok_get: "headers_ok s \<Longrightarrow> headers_ok (snd (getHeaders redact path now s))"
  using cache_put_ok [of s now "generateCacheKey path" "build_headers s"]
  by (auto simp: getHeaders_def Let_def headers_ok_def values_safe_def cors_safe_def cache_put_frame
      simp del: header_event_frame simp: sendHeadersEvent_def cache_ok_def split: option.splits)

lemma warning_frame [simp]: "headers_ok (s\<lparr>sh_warnings := ws\<rparr>) = headers_ok s"
  by (simp add: headers_ok_def values_safe_def cors_safe_def cache_ok_def)

lemma headers_ok_report: "headers_ok s \<Longrightarrow> headers_ok (snd (validateCspReport redact redact_value report s))"
  by (auto simp: validateCspReport_def Let_def split: option.splits)

text \<open>The states a manager reaches when no stored configuration is loaded.\<close>

inductive headers_reachable :: "headers_state \<Rightarrow> bool" where
  Fresh: "headers_reachable init_headers"
| Agent: "headers_reachable s \<Longrightarrow> headers_reachable (s\<lparr>sh_agent := True\<rparr>)"
| Configured: "headers_reachable s \<Longrightarrow> headers_reachable (snd (configure ho s))"
| Read: "headers_reachable s \<Longrightarrow> headers_reachable (snd (getHeaders redact path now s))"
| Reported: "headers_reachable s \<Longrightarrow> headers_reachable (snd (validateCspReport redact redact_value report s))"
| Reset: "headers_reachable s \<Longrightarrow> headers_reachable (reset_headers s)"

lemma reachable_ok: "headers_reachable s \<Longrightarrow> headers_ok s"
proof (induction rule: headers_reachable.induct)
  case (Configured s ho)
  then show ?case using safe_configure by (simp add: safe_step_def)
qed (simp_all add: headers_ok_init headers_ok_get headers_ok_report headers_ok_reset,
    simp add: headers_ok_def values_safe_def cors_safe_def cache_ok_def)

subsection \<open>The cache and the key\<close>

definition coherent :: "headers_state \<Rightarrow> bool" where
  "coherent s \<longleftrightarrow> (\<forall>k hs. map_of (sh_cache s) k = Some hs \<longrightarrow> hs = build_headers s)"

lemma build_cong:
  "sh_default s' = sh_default s \<Longrightarrow> sh_custom s' = sh_custom s \<Longrightarrow> sh_csp s' = sh_csp s \<Longrightarrow> sh_hsts s' = sh_hsts s \<Longrightarrow>
   build_headers s' = build_headers s"
  by (simp add: build_headers_def buildCsp_def buildHsts_def)

lemma build_frame [simp]:
  "build_headers (cache_put now key hs s) = build_headers s" "build_headers (sendHeadersEvent ev s) = build_headers s"
  by (rule build_cong; simp add: cache_put_frame sendHeadersEvent_def)+

lemma coherent_put: "coherent s \<Longrightarrow> coherent (cache_put now key (build_headers s) s)"
  unfolding coherent_def build_frame by (metis cache_put_look(1) cache_put_other option.sel option.simps(3))

lemma coherent_event [simp]: "coherent (sendHeadersEvent ev s) = coherent s"
  unfolding coherent_def build_frame by (simp add: sendHeadersEvent_def)

definition keeps_cache :: "hstep \<Rightarrow> bool" where
  "keeps_cache f \<longleftrightarrow> (\<forall>s. sh_cache (snd (f s)) = sh_cache s \<and> sh_stamps (snd (f s)) = sh_stamps s)"

lemma keeps_cache_andthen: "keeps_cache f \<Longrightarrow> keeps_cache g \<Longrightarrow> keeps_cache (andthen f g)"
  unfolding keeps_cache_def andthen_def by (metis (no_types, lifting) case_prod_beta option.case_eq_if prod.sel(2))

lemma keeps_cache_plain:
  "(\<And>s. sh_cache (f s) = sh_cache s \<and> sh_stamps (f s) = sh_stamps s) \<Longrightarrow> keeps_cache (plain f)"
  by (simp add: keeps_cache_def plain_def)

lemma keeps_cache_puts: "keeps_cache (put_default name v)" "keeps_cache (put_custom c)"
proof -
  show "keeps_cache (put_default name v)"
    by (auto simp: keeps_cache_def put_default_def split: option.splits sum.splits)
  have "sh_cache (snd (put_custom c s)) = sh_cache s \<and> sh_stamps (snd (put_custom c s)) = sh_stamps s" for s
    by (induction c s rule: put_custom.induct) (auto split: sum.splits)
  then show "keeps_cache (put_custom c)" by (simp add: keeps_cache_def)
qed

lemma configure_keeps_cache:
  "sh_cache (snd (configure ho s)) = sh_cache s \<and> sh_stamps (snd (configure ho s)) = sh_stamps s"
proof -
  have puts: "keeps_cache (plain (put_policies ho))" "keeps_cache (plain (put_cors ho))"
    "keeps_cache (case ho_custom ho of None \<Rightarrow> plain (\<lambda>s. s) | Some c \<Rightarrow> put_custom c)"
    by (auto simp: put_policies_def put_cors_def Let_def intro!: keeps_cache_plain keeps_cache_puts split: option.splits)
  have "keeps_cache
      (andthen (plain (put_policies ho))
      (andthen (put_default ''X-Frame-Options'' (ho_frame ho))
      (andthen (put_default ''X-Content-Type-Options'' (ho_content_type ho))
      (andthen (put_default ''X-XSS-Protection'' (ho_xss ho))
      (andthen (put_default ''Referrer-Policy'' (ho_referrer ho))
      (andthen (put_default ''Permissions-Policy'' (ho_permissions ho))
      (andthen (case ho_custom ho of None \<Rightarrow> plain (\<lambda>s. s) | Some c \<Rightarrow> put_custom c)
        (plain (put_cors ho)))))))))"
    by (intro keeps_cache_andthen keeps_cache_puts puts)
  then show ?thesis by (simp add: keeps_cache_def configure_def)
qed

lemma show_nat_length: "n < 10 ^ Suc k \<Longrightarrow> length (show_nat n) \<le> Suc k"
proof (induction k arbitrary: n)
  case (Suc k)
  then have "n div 10 < 10 ^ Suc k" by auto
  then show ?case using Suc.IH [of "n div 10"] by (subst show_nat.simps) simp
qed (subst show_nat.simps, simp)

subsection \<open>Properties\<close>

text \<open>
  C24: in every state the manager reaches by configuration, reads, reports and resets, failed
  configurations included, the default and custom values hold none of the characters U+0000 to U+001F
  but the tab (U+007F to U+009F are let through) and no more than 8192 characters, the cache holds at
  most 1000 entries, and no answer allows every origin together with credentials.
\<close>

theorem header_manager_safe:
  assumes "headers_reachable s"
  shows "(\<forall>v \<in> snd ` set (sh_default s) \<union> snd ` set (sh_custom s). clean_value v) \<and>
    length (sh_cache s) \<le> cacheMaxSize \<and>
    \<not> (map_of (getCorsHeaders origin s) ''Access-Control-Allow-Origin'' = Some ''*'' \<and>
       map_of (getCorsHeaders origin s) ''Access-Control-Allow-Credentials'' = Some ''true'')"
proof -
  have ok: "headers_ok s" by (rule reachable_ok [OF assms])
  have "\<not> (map_of (getCorsHeaders origin s) ''Access-Control-Allow-Origin'' = Some ''*'' \<and>
      map_of (getCorsHeaders origin s) ''Access-Control-Allow-Credentials'' = Some ''true'')"
    using ok by (auto simp: headers_ok_def cors_safe_def getCorsHeaders_def split: option.splits if_splits)
  then show ?thesis
    using ok unfolding headers_ok_def values_safe_def clean_map_def cache_ok_def by blast
qed

definition ex_options :: header_options where
  "ex_options = \<lparr>ho_enabled = True, ho_csp = None, ho_hsts_max_age = None, ho_hsts_subdomains = None,
     ho_hsts_preload = None, ho_frame = Some ''DENY'', ho_content_type = None, ho_xss = None, ho_referrer = None,
     ho_permissions = None, ho_custom = None, ho_origins = Some [''*''], ho_credentials = Some True,
     ho_methods = None, ho_allow_headers = None\<rparr>"

theorem header_manager_safe_witness:
  "\<not> (map_of (getCorsHeaders ''https://a'' (snd (configure ex_options init_headers))) ''Access-Control-Allow-Origin'' = Some ''*'' \<and>
      map_of (getCorsHeaders ''https://a'' (snd (configure ex_options init_headers))) ''Access-Control-Allow-Credentials'' = Some ''true'') \<and>
   map_of (getCorsHeaders ''https://a'' (snd (configure ex_options init_headers))) ''Access-Control-Allow-Origin'' = Some ''*''"
proof
  show "\<not> (map_of (getCorsHeaders ''https://a'' (snd (configure ex_options init_headers))) ''Access-Control-Allow-Origin'' = Some ''*'' \<and>
      map_of (getCorsHeaders ''https://a'' (snd (configure ex_options init_headers))) ''Access-Control-Allow-Credentials'' = Some ''true'')"
    using header_manager_safe [OF Configured [OF Fresh, of ex_options], of "''https://a''"] by blast
  show "map_of (getCorsHeaders ''https://a'' (snd (configure ex_options init_headers))) ''Access-Control-Allow-Origin'' = Some ''*''"
    by code_simp
qed

text \<open>
  The cache is transparent: as long as every entry was built from the present configuration, which
  each read keeps, a read answers exactly the headers a fresh build gives, for every path, although
  paths share a key by a 32-bit hash.
\<close>

theorem header_cache_transparent:
  assumes "coherent s"
  shows "fst (getHeaders redact path now s) = build_headers s \<and> coherent (snd (getHeaders redact path now s)) \<and>
    build_headers (snd (getHeaders redact path now s)) = build_headers s"
  using assms coherent_put [OF assms]
  by (auto simp: getHeaders_def cached_headers_def Let_def split: option.splits if_splits) (auto simp: coherent_def)

theorem header_cache_transparent_witness:
  "fst (getHeaders id ''/items'' 1000 init_headers) = build_headers init_headers"
  using header_cache_transparent [of init_headers id "''/items''" 1000] by (simp add: coherent_def init_headers_def)

text \<open>
  A configuration change does not reach a path read before it: until the entry is 300 seconds old,
  the read after the change still answers the headers of the old configuration.
\<close>

theorem configure_leaves_stale_headers:
  assumes "cached_headers t (generateCacheKey path) s = None" and "t \<noteq> 0" and "t' - t < cacheTtlMs"
  shows "fst (getHeaders redact path t' (snd (configure ho (snd (getHeaders redact path t s))))) = build_headers s"
proof -
  define s1 where "s1 = snd (getHeaders redact path t s)"
  have hit: "map_of (sh_stamps s1) (generateCacheKey path) = Some t"
    "map_of (sh_cache s1) (generateCacheKey path) = Some (build_headers s)"
    using assms(1) by (auto simp: s1_def getHeaders_def Let_def cache_put_look sendHeadersEvent_def)
  show ?thesis
    using hit configure_keeps_cache [of ho s1] assms(2,3) by (simp add: getHeaders_def cached_headers_def s1_def)
qed

theorem configure_leaves_stale_headers_witness:
  "map_of (fst (getHeaders id ''/items'' 2000 (snd (configure ex_options (snd (getHeaders id ''/items'' 1000 init_headers))))))
     ''X-Frame-Options'' = Some ''SAMEORIGIN'' \<and>
   map_of (build_headers (snd (configure ex_options init_headers))) ''X-Frame-Options'' = Some ''DENY''"
proof
  have "fst (getHeaders id ''/items'' 2000 (snd (configure ex_options (snd (getHeaders id ''/items'' 1000 init_headers)))))
      = build_headers init_headers"
    by (rule configure_leaves_stale_headers) (simp_all add: cached_headers_def init_headers_def cacheTtlMs_def)
  moreover have "map_of (build_headers init_headers) ''X-Frame-Options'' = Some ''SAMEORIGIN''" by code_simp
  ultimately show "map_of (fst (getHeaders id ''/items'' 2000
      (snd (configure ex_options (snd (getHeaders id ''/items'' 1000 init_headers)))))) ''X-Frame-Options'' = Some ''SAMEORIGIN''"
    by simp
  show "map_of (build_headers (snd (configure ex_options init_headers))) ''X-Frame-Options'' = Some ''DENY''" by code_simp
qed

text \<open>
  The cache key of any path is sixteen characters long and starts with six zeros: the absolute value
  of the 32-bit hash has at most ten digits, so padding is all that happens and nothing is cut off.
\<close>

theorem cache_key_never_truncated:
  "length (generateCacheKey path) = 16 \<and> take 6 (generateCacheKey path) = ''000000''"
proof -
  define h where "h = fold hash_step (stripTrailingSlashes (to_lower path)) 0"
  have "- (2 ^ 31) \<le> sint h" "sint h < 2 ^ 31" using sint_ge [of h] sint_lt [of h] by simp_all
  then have "nat \<bar>sint h\<bar> < 10 ^ Suc 9" by simp
  then have len: "length (show_nat (nat \<bar>sint h\<bar>)) \<le> 10" using show_nat_length [of _ 9] by simp
  moreover have "take 6 (replicate (16 - length (show_nat (nat \<bar>sint h\<bar>))) (CHR ''0'')) = replicate 6 (CHR ''0'')"
    using len by (simp add: min_def)
  ultimately show ?thesis
    by (simp add: generateCacheKey_def padStart_def Let_def numeral_eq_Suc flip: h_def)
qed

subsection \<open>The headers on an answer\<close>

lemma set_headers_get:
  "om_ok hs \<Longrightarrow> map_of (rs_headers (set_headers hs r)) n =
     (case map_of hs n of Some v \<Rightarrow> Some v | None \<Rightarrow> map_of (rs_headers r) n)"
proof (induction hs arbitrary: r)
  case (Cons p hs)
  obtain k v where p: "p = (k, v)" by fastforce
  have "map_of hs k = None" using Cons.prems p by (simp add: map_of_eq_None_iff)
  then show ?case using Cons.IH [of "set_header k v r"] Cons.prems p
    by (auto simp: set_headers_def set_header_def split: option.splits)
qed (simp add: set_headers_def)

lemma om_ok_fold: "om_ok m \<Longrightarrow> om_ok (fold (\<lambda>(k, v). AList.update k v) xs m)"
  by (induction xs arbitrary: m) (auto simp del: om_ok_update intro!: distinct_update)

lemma om_ok_build: "om_ok (sh_default s) \<Longrightarrow> om_ok (build_headers s)"
  by (auto simp: build_headers_def put_opt_def intro!: om_ok_fold distinct_update split: option.splits)

text \<open>
  With the header set of a manager that has had no stored configuration, every answer of the engine
  carries each header of that set with its value, and every other header as it was.
\<close>

theorem answers_carry_the_header_set:
  assumes "headers_reachable s" and "c_sec_headers C" and "e_security_headers E = (\<lambda>_. build_headers s)"
  shows "map_of (rs_headers (applySecurityHeaders E C r path)) n =
    (case map_of (build_headers s) n of Some v \<Rightarrow> Some v | None \<Rightarrow> map_of (rs_headers r) n)"
proof -
  have "om_ok (build_headers s)"
    using reachable_ok [OF assms(1)] by (auto simp: headers_ok_def values_safe_def clean_map_def intro: om_ok_build)
  then show ?thesis using assms(2,3) by (simp add: applySecurityHeaders_def set_headers_get)
qed

theorem answers_carry_the_header_set_witness:
  "map_of (rs_headers (applySecurityHeaders (ex_env\<lparr>e_security_headers := (\<lambda>_. build_headers init_headers)\<rparr>) ex_config
     (ex_response ''no'' 403) None)) ''X-Frame-Options'' = Some ''SAMEORIGIN''"
proof -
  have "map_of (build_headers init_headers) ''X-Frame-Options'' = Some ''SAMEORIGIN''" by code_simp
  then show ?thesis
    using answers_carry_the_header_set [OF Fresh, of ex_config "ex_env\<lparr>e_security_headers := (\<lambda>_. build_headers init_headers)\<rparr>"
        "ex_response ''no'' 403" None "''X-Frame-Options''"]
    by (simp add: ex_config_def)
qed

end
