(* ===== verification/Decorators.thy ===== *)
theory Decorators
  imports Routing
begin

section \<open>Route decorators (packages/core/src/decorators)\<close>

text \<open>
  The mixins of \<open>SecurityDecorator\<close>: each decorates a function by updating its route configuration and
  stamping it with its route id. A function is known by a number; the state holds the configurations,
  the module-level id map and counter, the revision counter, and the stamps the functions carry.
\<close>

subsection \<open>BaseSecurityDecorator (decorators/base.ts)\<close>

record deco_state =
  ds_configs :: "(string, route_config) omap"
  ds_ids :: "(nat, string) omap"
  ds_counter :: nat
  ds_revision :: nat
  ds_stamps :: "(nat, string) omap"

definition init_deco :: deco_state where
  "init_deco = \<lparr>ds_configs = [], ds_ids = [], ds_counter = 0, ds_revision = 0, ds_stamps = []\<rparr>"

definition route_name :: "nat \<Rightarrow> string" where
  "route_name n = ''guard_route_'' @ show_nat n"

definition getRouteId :: "nat \<Rightarrow> deco_state \<Rightarrow> string \<times> deco_state" where
  "getRouteId fn s =
     (case map_of (ds_ids s) fn of
        Some i \<Rightarrow> (i, s)
      | None \<Rightarrow>
          (let n = Suc (ds_counter s)
           in (route_name n, s\<lparr>ds_counter := n, ds_ids := AList.update fn (route_name n) (ds_ids s)\<rparr>)))"

definition ensureRouteConfig :: "config \<Rightarrow> nat \<Rightarrow> deco_state \<Rightarrow> string \<times> deco_state" where
  "ensureRouteConfig C fn s =
     (case getRouteId fn s of
        (i, s1) \<Rightarrow>
          (i, if om_has (ds_configs s1) i then s1
              else s1\<lparr>ds_configs := AList.update i (default_route\<lparr>rc_suspicious := c_enable_pen C\<rparr>) (ds_configs s1),
                      ds_revision := Suc (ds_revision s1)\<rparr>))"

definition applyRouteConfig :: "nat \<Rightarrow> deco_state \<Rightarrow> deco_state" where
  "applyRouteConfig fn s = (case getRouteId fn s of (i, s1) \<Rightarrow> s1\<lparr>ds_stamps := AList.update fn i (ds_stamps s1)\<rparr>)"

definition deco_route_config :: "string \<Rightarrow> deco_state \<Rightarrow> route_config option" where
  "deco_route_config i s = map_of (ds_configs s) i"

text \<open>The body every decorator shares: get the configuration, update it (or throw), stamp the function.\<close>

type_synonym route_update = "route_config \<Rightarrow> exn + route_config"

definition decorate :: "config \<Rightarrow> route_update \<Rightarrow> nat \<Rightarrow> deco_state \<Rightarrow> exn option \<times> deco_state" where
  "decorate C upd fn s =
     (case ensureRouteConfig C fn s of
        (i, s1) \<Rightarrow>
          (case upd (om_get_or default_route (ds_configs s1) i) of
             Inl e \<Rightarrow> (Some e, s1)
           | Inr rc \<Rightarrow> (None, applyRouteConfig fn (s1\<lparr>ds_configs := AList.update i rc (ds_configs s1)\<rparr>))))"

definition getRouteDecoratorConfig :: "string option \<Rightarrow> deco_state \<Rightarrow> route_config option" where
  "getRouteDecoratorConfig routeId s =
     (case routeId of None \<Rightarrow> None | Some i \<Rightarrow> if i = [] then None else deco_route_config i s)"

text \<open>The decorator events, over the event bus; \<open>agent\<close> is whether the decorator holds an agent handler.\<close>

definition sendDecoratorEvent ::
  "'r env \<Rightarrow> config \<Rightarrow> bool \<Rightarrow> string \<Rightarrow> request \<Rightarrow> string \<Rightarrow> string \<Rightarrow> string \<Rightarrow> (string, meta) omap \<Rightarrow> ('r, unit) eff"
where
  "sendDecoratorEvent E C agent ty rq action reason dtype md =
     (if \<not> agent then ret ()
      else sendMiddlewareEvent E C ty rq action reason
             (fold (\<lambda>(k, v). AList.update k v) md [(''decoratorType'', MStr dtype)]))"

definition sendAccessDeniedEvent where
  "sendAccessDeniedEvent E C agent rq reason dtype md =
     sendDecoratorEvent E C agent ''access_denied'' rq ''blocked'' reason dtype md"

definition sendAuthenticationFailedEvent where
  "sendAuthenticationFailedEvent E C agent rq reason authType md =
     sendDecoratorEvent E C agent ''authentication_failed'' rq ''blocked'' reason ''authentication''
       (fold (\<lambda>(k, v). AList.update k v) md [(''authType'', MStr authType)])"

definition sendRateLimitEvent where
  "sendRateLimitEvent E C agent rq limit window md =
     sendDecoratorEvent E C agent ''rate_limited'' rq ''blocked''
       (''Rate limit exceeded: '' @ show_int limit @ '' requests per '' @ show_int window @ ''s'') ''rate_limiting''
       (fold (\<lambda>(k, v). AList.update k v) md [(''limit'', MNum limit), (''window'', MNum window)])"

definition sendDecoratorViolationEvent where
  "sendDecoratorViolationEvent E C agent rq violationType reason md =
     sendDecoratorEvent E C agent ''decorator_violation'' rq ''blocked'' reason violationType md"

subsection \<open>Access control and rate limiting\<close>

definition requireIp :: "string list option \<Rightarrow> string list option \<Rightarrow> route_update" where
  "requireIp whitelist blacklist rc =
     Inr (rc\<lparr>rc_ip_whitelist := (case whitelist of Some l \<Rightarrow> Some l | None \<Rightarrow> rc_ip_whitelist rc),
             rc_ip_blacklist := (case blacklist of Some l \<Rightarrow> Some l | None \<Rightarrow> rc_ip_blacklist rc)\<rparr>)"

definition blockCountries :: "string list \<Rightarrow> route_update" where
  "blockCountries cs rc = Inr (rc\<lparr>rc_blocked_countries := Some cs\<rparr>)"

definition allowCountries :: "string list \<Rightarrow> route_update" where
  "allowCountries cs rc = Inr (rc\<lparr>rc_whitelist_countries := Some cs\<rparr>)"

text \<open>\<open>new Set(xs)\<close> keeps the first occurrences, in order.\<close>

definition set_of_list :: "'a list \<Rightarrow> 'a list" where
  "set_of_list xs = rev (remdups (rev xs))"

definition blockClouds :: "string list option \<Rightarrow> route_update" where
  "blockClouds providers rc =
     Inr (rc\<lparr>rc_block_clouds := set_of_list (case providers of Some ps \<Rightarrow> ps | None \<Rightarrow> [''AWS'', ''GCP'', ''Azure''])\<rparr>)"

definition bypass :: "string list \<Rightarrow> route_update" where
  "bypass checks rc = Inr (rc\<lparr>rc_bypassed := fold (\<lambda>c xs. if c \<in> set xs then xs else xs @ [c]) checks (rc_bypassed rc)\<rparr>)"

definition rateLimit :: "int \<Rightarrow> int \<Rightarrow> route_update" where
  "rateLimit requests window rc = Inr (rc\<lparr>rc_rate_limit := Some requests, rc_rate_window := Some window\<rparr>)"

definition geoRateLimit :: "(string, int \<times> int) omap \<Rightarrow> route_update" where
  "geoRateLimit limits rc = Inr (rc\<lparr>rc_geo_limits := Some limits\<rparr>)"

subsection \<open>Authentication\<close>

definition requireHttps :: route_update where
  "requireHttps rc = Inr (rc\<lparr>rc_require_https := True\<rparr>)"

definition requireAuth :: "string \<Rightarrow> verifier option \<Rightarrow> route_update" where
  "requireAuth ty v rc =
     (if rc_auth_header_required rc \<noteq> None
      then Inl (OtherErr ''Error'' (''requireAuth cannot be combined with requireAuthorizationHeader; '' @
             ''the latter is presence-only and mutually exclusive with authenticated routes''))
      else Inr (rc\<lparr>rc_auth_required := Some ty, rc_auth_verifier := v\<rparr>))"

definition apiKeyAuth :: "string \<Rightarrow> verifier option \<Rightarrow> route_update" where
  "apiKeyAuth headerName v rc =
     (if rc_auth_header_required rc \<noteq> None
      then Inl (OtherErr ''Error'' (''apiKeyAuth cannot be combined with requireAuthorizationHeader; '' @
             ''the latter is presence-only and mutually exclusive with authenticated routes''))
      else Inr (rc\<lparr>rc_api_key_required := True,
                  rc_required_headers := AList.update headerName ''required'' (rc_required_headers rc),
                  rc_api_key_header := Some headerName, rc_api_key_verifier := v\<rparr>))"

definition requireAuthorizationHeader :: "string \<Rightarrow> route_update" where
  "requireAuthorizationHeader scheme rc =
     (if rc_auth_required rc \<noteq> None \<or> rc_api_key_required rc
      then Inl (OtherErr ''Error'' (''requireAuthorizationHeader cannot be combined with requireAuth or apiKeyAuth; '' @
             ''it is presence-only and mutually exclusive with authenticated routes''))
      else Inr (rc\<lparr>rc_auth_header_required := Some scheme\<rparr>))"

definition requireHeaders :: "(string, string) omap \<Rightarrow> route_update" where
  "requireHeaders hs rc =
     Inr (rc\<lparr>rc_required_headers := fold (\<lambda>(k, v). AList.update k v) hs (rc_required_headers rc)\<rparr>)"

subsection \<open>Content filtering and behavior\<close>

definition blockUserAgents :: "string list \<Rightarrow> route_update" where
  "blockUserAgents ps rc = Inr (rc\<lparr>rc_blocked_uas := rc_blocked_uas rc @ ps\<rparr>)"

definition contentTypeFilter :: "string list \<Rightarrow> route_update" where
  "contentTypeFilter ts rc = Inr (rc\<lparr>rc_content_types := Some ts\<rparr>)"

definition maxRequestSize :: "int \<Rightarrow> route_update" where
  "maxRequestSize n rc = Inr (rc\<lparr>rc_max_size := Some n\<rparr>)"

definition requireReferrer :: "string list \<Rightarrow> route_update" where
  "requireReferrer ds rc = Inr (rc\<lparr>rc_referrers := Some ds\<rparr>)"

definition customValidation :: "validator \<Rightarrow> route_update" where
  "customValidation v rc = Inr (rc\<lparr>rc_custom_validators := rc_custom_validators rc @ [v]\<rparr>)"

record exclusion_options =
  eo_headers :: "string list option"
  eo_params :: "string list option"
  eo_body :: "string list option"
  eo_categories :: "string list option"
  eo_scan_body :: "bool option"

definition detectionExclusion :: "exclusion_options \<Rightarrow> route_update" where
  "detectionExclusion eo rc =
     Inr (rc\<lparr>rc_excl_headers := (case eo_headers eo of None \<Rightarrow> rc_excl_headers rc | Some x \<Rightarrow> Some (set_of_list x)),
             rc_excl_params := (case eo_params eo of None \<Rightarrow> rc_excl_params rc | Some x \<Rightarrow> Some (set_of_list x)),
             rc_excl_body := (case eo_body eo of None \<Rightarrow> rc_excl_body rc | Some x \<Rightarrow> Some (set_of_list x)),
             rc_enabled_cats := (case eo_categories eo of None \<Rightarrow> rc_enabled_cats rc | Some x \<Rightarrow> Some (set_of_list x)),
             rc_scan_body := (case eo_scan_body eo of None \<Rightarrow> rc_scan_body rc | Some b \<Rightarrow> Some b)\<rparr>)"

definition add_rules :: "behavior_rule list \<Rightarrow> route_update" where
  "add_rules rs rc = Inr (rc\<lparr>rc_behavior_rules := rc_behavior_rules rc @ rs\<rparr>)"

definition mk_rule :: "rule_type \<Rightarrow> int \<Rightarrow> int \<Rightarrow> string option \<Rightarrow> behavior_action \<Rightarrow> behavior_rule" where
  "mk_rule ty n window pat act = \<lparr>br_type = ty, br_threshold = n, br_window = window, br_pattern = pat,
     br_action = act, br_custom = None, br_ban_duration = None, br_correlate = False\<rparr>"

definition usageMonitor :: "int \<Rightarrow> int \<Rightarrow> behavior_action \<Rightarrow> route_update" where
  "usageMonitor n window act = add_rules [mk_rule Usage n window None act]"

definition returnMonitor :: "string \<Rightarrow> int \<Rightarrow> int \<Rightarrow> behavior_action \<Rightarrow> route_update" where
  "returnMonitor pat n window act = add_rules [mk_rule ReturnPattern n window (Some pat) act]"

definition behaviorAnalysis :: "behavior_rule list \<Rightarrow> route_update" where
  "behaviorAnalysis rs = add_rules rs"

definition suspiciousFrequency :: "int \<Rightarrow> int \<Rightarrow> behavior_action \<Rightarrow> route_update" where
  "suspiciousFrequency n window act = add_rules [mk_rule Frequency n window None act]"

subsection \<open>Advanced\<close>

definition timeWindow :: "string \<Rightarrow> string \<Rightarrow> route_update" where
  "timeWindow start stop rc = Inr (rc\<lparr>rc_time_window := Some (start, stop)\<rparr>)"

definition suspiciousDetection :: "bool \<Rightarrow> route_update" where
  "suspiciousDetection enabled rc = Inr (rc\<lparr>rc_suspicious := enabled\<rparr>)"

text \<open>
  The honeypot validator. \<open>body\<close> reads the request's body text, \<open>duc\<close> is \<open>decodeURIComponent\<close>; any
  exception makes the validator pass. A pair is cut at every equals sign and its first two parts
  count; a field of a JSON object is a trap unless it is absent, null or the empty text. Trap fields
  are ordinary field names, none of those every JavaScript object, array or text answers itself.
\<close>

fun form_fields :: "(string \<Rightarrow> exn + string) \<Rightarrow> string list \<Rightarrow> (string, string) omap \<Rightarrow> exn + (string, string) omap" where
  "form_fields duc [] acc = Inr acc"
| "form_fields duc (pair # ps) acc =
     (case split_on (CHR ''='') pair of
        key # val # _ \<Rightarrow>
          if key \<noteq> [] \<and> val \<noteq> []
          then (case duc key of
                  Inl e \<Rightarrow> Inl e
                | Inr k \<Rightarrow> (case duc val of Inl e \<Rightarrow> Inl e | Inr v \<Rightarrow> form_fields duc ps (AList.update k v acc)))
          else form_fields duc ps acc
      | _ \<Rightarrow> form_fields duc ps acc)"

definition honeypot_data ::
  "'r env \<Rightarrow> (string \<Rightarrow> exn + string) \<Rightarrow> string \<Rightarrow> string \<Rightarrow> exn + (string, json) omap"
where
  "honeypot_data E duc contentType text =
     (if str_includes ''json'' contentType
      then (case e_json_parse E text of
              None \<Rightarrow> Inl (OtherErr ''SyntaxError'' [])
            | Some JNull \<Rightarrow> Inl (OtherErr ''TypeError'' [])
            | Some (JObj kvs) \<Rightarrow> Inr kvs
            | Some _ \<Rightarrow> Inr [])
      else if str_includes ''form'' contentType
      then (case form_fields duc (split_on (CHR ''&'') text) [] of
              Inl e \<Rightarrow> Inl e | Inr m \<Rightarrow> Inr (map (\<lambda>(k, v). (k, JStr v)) m))
      else Inr [])"

definition honeypot :: "'r env \<Rightarrow> (string \<Rightarrow> exn + string) \<Rightarrow> (request \<Rightarrow> exn + string) \<Rightarrow> string list \<Rightarrow> validator" where
  "honeypot E duc body trapFields rq =
     (case body rq of
        Inl e \<Rightarrow> Inr None
      | Inr text \<Rightarrow>
          if text = [] then Inr None
          else
            (case honeypot_data E duc (header_or [] rq ''content-type'') text of
               Inl e \<Rightarrow> Inr None
             | Inr data \<Rightarrow>
                 if list_ex (\<lambda>f. case map_of data f of None \<Rightarrow> False | Some v \<Rightarrow> v \<noteq> JNull \<and> v \<noteq> JStr []) trapFields
                 then Inr (Some \<lparr>rs_status = 403, rs_headers = [], rs_body = Some ''Forbidden''\<rparr>)
                 else Inr None))"

definition honeypotDetection where
  "honeypotDetection E duc body trapFields = customValidation (honeypot E duc body trapFields)"

subsection \<open>Route ids\<close>

lemma show_nat_inj: "show_nat m = show_nat n \<Longrightarrow> m = n"
proof (induction m arbitrary: n rule: show_nat.induct)
  case (1 m)
  have digit: "char_of (48 + a) = (char_of (48 + b) :: char) \<Longrightarrow> a = b" if "a < 10" "b < 10" for a b :: nat
  proof -
    assume "char_of (48 + a) = (char_of (48 + b) :: char)"
    then have "(of_char (char_of (48 + a)) :: nat) = of_char (char_of (48 + b))" by simp
    then show ?thesis using that by simp
  qed
  have low: "k mod 10 < 10" for k :: nat by simp
  show ?case
  proof (cases "m < 10 \<or> n < 10")
    case True
    then show ?thesis
      using "1.prems" digit by (auto simp: show_nat.simps [of m] show_nat.simps [of n] show_nat_not_Nil [symmetric] split: if_splits)
  next
    case False
    then have "show_nat (m div 10) = show_nat (n div 10)" "m mod 10 = n mod 10"
      using "1.prems" digit [OF low low] by (simp_all add: show_nat.simps [of m] show_nat.simps [of n])
    then have "m div 10 = n div 10" "m mod 10 = n mod 10" using "1.IH" False by auto
    then show ?thesis by (metis div_mult_mod_eq)
  qed
qed

lemma route_name_inj [simp]: "route_name m = route_name n \<longleftrightarrow> m = n"
  by (auto simp: route_name_def dest: show_nat_inj)

text \<open>Ids are issued once per function; configurations and stamps use issued ids only.\<close>

definition deco_ok :: "deco_state \<Rightarrow> bool" where
  "deco_ok s \<longleftrightarrow>
     (\<forall>f i. map_of (ds_ids s) f = Some i \<longrightarrow> (\<exists>n. 0 < n \<and> n \<le> ds_counter s \<and> i = route_name n)) \<and>
     (\<forall>f g i. map_of (ds_ids s) f = Some i \<longrightarrow> map_of (ds_ids s) g = Some i \<longrightarrow> f = g) \<and>
     (\<forall>f i. map_of (ds_stamps s) f = Some i \<longrightarrow> map_of (ds_ids s) f = Some i) \<and>
     (\<forall>i rc. map_of (ds_configs s) i = Some rc \<longrightarrow> (\<exists>f. map_of (ds_ids s) f = Some i))"

definition config_of :: "nat \<Rightarrow> deco_state \<Rightarrow> route_config option" where
  "config_of f s = Option.bind (map_of (ds_ids s) f) (\<lambda>i. map_of (ds_configs s) i)"

lemma issue:
  assumes "deco_ok s" and "getRouteId fn s = (i, s1)"
  shows "deco_ok s1" "map_of (ds_ids s1) fn = Some i" "ds_configs s1 = ds_configs s" "ds_stamps s1 = ds_stamps s"
    "ds_revision s1 = ds_revision s" "f \<noteq> fn \<Longrightarrow> map_of (ds_ids s1) f = map_of (ds_ids s) f"
proof -
  have fresh: "map_of (ds_ids s) f \<noteq> Some (route_name (Suc (ds_counter s)))" for f
    using assms(1) unfolding deco_ok_def by (metis not_less_eq_eq order_refl route_name_inj)
  show "deco_ok s1"
  proof (cases "map_of (ds_ids s) fn")
    case None
    then have s1: "s1 = s\<lparr>ds_counter := Suc (ds_counter s), ds_ids := AList.update fn (route_name (Suc (ds_counter s))) (ds_ids s)\<rparr>"
      using assms(2) by (auto simp: getRouteId_def Let_def)
    have ids: "\<exists>n. 0 < n \<and> n \<le> Suc (ds_counter s) \<and> i = route_name n" if "map_of (ds_ids s) f = Some i" for f i
      using assms(1) that unfolding deco_ok_def by (meson le_SucI)
    have "\<exists>f. map_of (AList.update fn (route_name (Suc (ds_counter s))) (ds_ids s)) f = Some i"
      if "map_of (ds_configs s) i = Some rc" for i rc
      using assms(1) that None unfolding deco_ok_def by (metis om_get_update option.distinct(1))
    then show ?thesis
      unfolding deco_ok_def s1
      using assms(1) fresh None ids by (auto simp: deco_ok_def)
  qed (use assms in \<open>simp add: getRouteId_def\<close>)
  show "map_of (ds_ids s1) fn = Some i" "ds_configs s1 = ds_configs s" "ds_stamps s1 = ds_stamps s"
    "ds_revision s1 = ds_revision s" "f \<noteq> fn \<Longrightarrow> map_of (ds_ids s1) f = map_of (ds_ids s) f"
    using assms(2) by (auto simp: getRouteId_def Let_def split: option.splits)
qed

lemma config_put:
  assumes "deco_ok s" and "map_of (ds_ids s) fn = Some i"
  shows "deco_ok (s\<lparr>ds_configs := AList.update i rc (ds_configs s), ds_revision := n\<rparr>)"
    "config_of f (s\<lparr>ds_configs := AList.update i rc (ds_configs s), ds_revision := n\<rparr>) = (if f = fn then Some rc else config_of f s)"
proof -
  have "map_of (ds_ids s) f \<noteq> Some i" if "f \<noteq> fn" using assms that unfolding deco_ok_def by blast
  then show "config_of f (s\<lparr>ds_configs := AList.update i rc (ds_configs s), ds_revision := n\<rparr>) = (if f = fn then Some rc else config_of f s)"
    using assms(2) by (auto simp: config_of_def split: bind_splits)
  show "deco_ok (s\<lparr>ds_configs := AList.update i rc (ds_configs s), ds_revision := n\<rparr>)"
    using assms unfolding deco_ok_def by auto
qed

lemma stamp_put:
  assumes "deco_ok s" and "map_of (ds_ids s) fn = Some i"
  shows "applyRouteConfig fn s = s\<lparr>ds_stamps := AList.update fn i (ds_stamps s)\<rparr>" "deco_ok (applyRouteConfig fn s)"
proof -
  show eq: "applyRouteConfig fn s = s\<lparr>ds_stamps := AList.update fn i (ds_stamps s)\<rparr>"
    using assms(2) by (simp add: applyRouteConfig_def getRouteId_def)
  show "deco_ok (applyRouteConfig fn s)"
    using assms unfolding eq deco_ok_def by auto
qed

definition base_route :: "config \<Rightarrow> route_config" where
  "base_route C = default_route\<lparr>rc_suspicious := c_enable_pen C\<rparr>"

lemma ensured:
  assumes "deco_ok s" and "ensureRouteConfig C fn s = (i, s1)"
  shows "deco_ok s1" "map_of (ds_ids s1) fn = Some i"
    "config_of fn s1 = Some (case config_of fn s of None \<Rightarrow> base_route C | Some rc \<Rightarrow> rc)"
    "f \<noteq> fn \<Longrightarrow> config_of f s1 = config_of f s" "ds_stamps s1 = ds_stamps s"
proof -
  obtain s0 where g: "getRouteId fn s = (i, s0)" 
    and s1: "s1 = (if om_has (ds_configs s0) i then s0
              else s0\<lparr>ds_configs := AList.update i (base_route C) (ds_configs s0), ds_revision := Suc (ds_revision s0)\<rparr>)"
    using assms(2) by (auto simp: ensureRouteConfig_def base_route_def split: prod.splits)
  note issued = issue [OF assms(1) g]
  note put = config_put [OF issued(1,2)]
  show "deco_ok s1" using issued(1) put(1) by (simp add: s1)
  show "map_of (ds_ids s1) fn = Some i" "ds_stamps s1 = ds_stamps s" using issued by (simp_all add: s1)
  have same: "config_of f s0 = config_of f s" for f
  proof (cases "f = fn")
    case True
    show ?thesis
    proof (cases "map_of (ds_ids s) fn")
      case None
      have "map_of (ds_ids s) g \<noteq> Some i" for g
        using assms(1) None g unfolding deco_ok_def getRouteId_def Let_def
        by (metis Pair_inject not_less_eq_eq option.case(1) order_refl route_name_inj)
      then have "map_of (ds_configs s) i = None" using assms(1) unfolding deco_ok_def by (metis not_Some_eq)
      then show ?thesis using True None issued by (simp add: config_of_def)
    next
      case (Some j)
      then show ?thesis using g True by (simp add: getRouteId_def)
    qed
  qed (use issued in \<open>simp add: config_of_def\<close>)
  have has: "om_has (ds_configs s0) i \<longleftrightarrow> config_of fn s0 \<noteq> None"
    using issued(2) by (simp add: config_of_def om_has_def)
  show "config_of fn s1 = Some (case config_of fn s of None \<Rightarrow> base_route C | Some rc \<Rightarrow> rc)"
    using has same [of fn] put(2) [where f = fn] by (auto simp: s1 split: option.splits)
  show "config_of f s1 = config_of f s" if "f \<noteq> fn"
    using that same [of f] put(2) [where f = f] by (simp add: s1)
qed

lemma decorated:
  assumes "deco_ok s" and "decorate C upd fn s = (e, s')"
  shows "deco_ok s'" "f \<noteq> fn \<Longrightarrow> config_of f s' = config_of f s \<and> map_of (ds_stamps s') f = map_of (ds_stamps s) f"
    "case upd (case config_of fn s of None \<Rightarrow> base_route C | Some rc \<Rightarrow> rc) of
       Inl x \<Rightarrow> e = Some x \<and> config_of fn s' = Some (case config_of fn s of None \<Rightarrow> base_route C | Some rc \<Rightarrow> rc) \<and>
         map_of (ds_stamps s') fn = map_of (ds_stamps s) fn
     | Inr rc \<Rightarrow> e = None \<and> config_of fn s' = Some rc \<and> map_of (ds_stamps s') fn = map_of (ds_ids s') fn"
proof -
  obtain i s1 where g: "ensureRouteConfig C fn s = (i, s1)" by fastforce
  note en = ensured [OF assms(1) g]
  define rc0 where "rc0 = (case config_of fn s of None \<Rightarrow> base_route C | Some rc \<Rightarrow> rc)"
  have cur: "om_get_or default_route (ds_configs s1) i = rc0"
    using en(2,3) by (simp add: config_of_def om_get_or_def rc0_def)
  have "deco_ok s' \<and> (\<forall>f. f \<noteq> fn \<longrightarrow> config_of f s' = config_of f s \<and> map_of (ds_stamps s') f = map_of (ds_stamps s) f) \<and>
    (case upd rc0 of
       Inl x \<Rightarrow> e = Some x \<and> config_of fn s' = Some rc0 \<and>
         map_of (ds_stamps s') fn = map_of (ds_stamps s) fn
     | Inr rc \<Rightarrow> e = None \<and> config_of fn s' = Some rc \<and> map_of (ds_stamps s') fn = map_of (ds_ids s') fn)"
  proof (cases "upd rc0")
    case (Inl x)
    then have "e = Some x" "s' = s1" using assms(2) g cur by (simp_all add: decorate_def)
    then show ?thesis using en Inl by (simp add: rc0_def)
  next
    case (Inr rc)
    define s2 where "s2 = s1\<lparr>ds_configs := AList.update i rc (ds_configs s1)\<rparr>"
    have s2: "s2 = s1\<lparr>ds_configs := AList.update i rc (ds_configs s1), ds_revision := ds_revision s1\<rparr>" by (simp add: s2_def)
    note put = config_put [OF en(1,2), where rc = rc and n = "ds_revision s1", folded s2]
    have ids2: "map_of (ds_ids s2) fn = Some i" using en(2) by (simp add: s2_def)
    have "e = None" and s': "s' = applyRouteConfig fn s2"
      using assms(2) g cur Inr by (simp_all add: decorate_def s2_def)
    have frame: "config_of f s' = config_of f s2" for f
      using stamp_put(1) [OF put(1) ids2] by (simp add: s' config_of_def)
    show ?thesis
      using stamp_put [OF put(1) ids2] put(2) frame en Inr \<open>e = None\<close> ids2
      by (auto simp: s' s2_def)
  qed
  then show "deco_ok s'" "f \<noteq> fn \<Longrightarrow> config_of f s' = config_of f s \<and> map_of (ds_stamps s') f = map_of (ds_stamps s) f"
    "case upd (case config_of fn s of None \<Rightarrow> base_route C | Some rc \<Rightarrow> rc) of
       Inl x \<Rightarrow> e = Some x \<and> config_of fn s' = Some (case config_of fn s of None \<Rightarrow> base_route C | Some rc \<Rightarrow> rc) \<and>
         map_of (ds_stamps s') fn = map_of (ds_stamps s) fn
     | Inr rc \<Rightarrow> e = None \<and> config_of fn s' = Some rc \<and> map_of (ds_stamps s') fn = map_of (ds_ids s') fn"
    by (simp_all add: rc0_def split: sum.splits)
qed

subsection \<open>Decorated programs\<close>

text \<open>The decorators a program can apply, and the states it reaches by applying them to its functions.\<close>

inductive declared :: "route_update \<Rightarrow> bool" where
  "declared (requireIp wl bl)" | "declared (blockCountries cs)" | "declared (allowCountries cs)"
| "declared (blockClouds ps)" | "declared (bypass checks)" | "declared (rateLimit n window)"
| "declared (geoRateLimit limits)" | "declared requireHttps" | "declared (requireAuth ty v)"
| "declared (apiKeyAuth header v)" | "declared (requireAuthorizationHeader scheme)"
| "declared (requireHeaders hs)" | "declared (blockUserAgents ps)" | "declared (contentTypeFilter ts)"
| "declared (maxRequestSize n)" | "declared (requireReferrer ds)" | "declared (customValidation validate)"
| "declared (detectionExclusion eo)" | "declared (add_rules rs)" | "declared (timeWindow start stop)"
| "declared (suspiciousDetection enabled)"

inductive deco_reachable :: "config \<Rightarrow> deco_state \<Rightarrow> bool" for C where
  Undecorated: "deco_reachable C init_deco"
| Decorated: "deco_reachable C s \<Longrightarrow> declared upd \<Longrightarrow> deco_reachable C (snd (decorate C upd fn s))"

definition auth_exclusive :: "route_config \<Rightarrow> bool" where
  "auth_exclusive rc \<longleftrightarrow> rc_auth_header_required rc = None \<or> rc_auth_required rc = None \<and> \<not> rc_api_key_required rc"

lemma declared_exclusive: "declared upd \<Longrightarrow> auth_exclusive rc \<Longrightarrow> upd rc = Inr rc' \<Longrightarrow> auth_exclusive rc'"
  by (induction rule: declared.induct)
    (auto simp: auth_exclusive_def requireIp_def blockCountries_def allowCountries_def blockClouds_def bypass_def
      rateLimit_def geoRateLimit_def requireHttps_def requireAuth_def apiKeyAuth_def requireAuthorizationHeader_def
      requireHeaders_def blockUserAgents_def contentTypeFilter_def maxRequestSize_def requireReferrer_def
      customValidation_def detectionExclusion_def add_rules_def timeWindow_def suspiciousDetection_def split: if_splits)

lemma config_of_mem: "deco_ok s \<Longrightarrow> map_of (ds_configs s) i = Some rc \<Longrightarrow> \<exists>f. config_of f s = Some rc"
  unfolding deco_ok_def config_of_def by (metis bind_eq_Some_conv)

lemma reachable_deco: "deco_reachable C s \<Longrightarrow> deco_ok s \<and> (\<forall>f rc. config_of f s = Some rc \<longrightarrow> auth_exclusive rc)"
proof (induction rule: deco_reachable.induct)
  case Undecorated
  then show ?case by (simp add: deco_ok_def init_deco_def config_of_def)
next
  case (Decorated s upd fn)
  obtain e s' where d: "decorate C upd fn s = (e, s')" by fastforce
  have ok: "deco_ok s" and old: "\<And>f rc. config_of f s = Some rc \<Longrightarrow> auth_exclusive rc"
    using Decorated.IH by auto
  note step = decorated [OF ok d]
  have base: "auth_exclusive (case config_of fn s of None \<Rightarrow> base_route C | Some rc \<Rightarrow> rc)"
    using old by (auto simp: auth_exclusive_def base_route_def default_route_def split: option.splits)
  show ?case
  proof (intro conjI allI impI)
    show "deco_ok (snd (decorate C upd fn s))" using step(1) d by simp
    fix f rc assume "config_of f (snd (decorate C upd fn s)) = Some rc"
    then have rc: "config_of f s' = Some rc" using d by simp
    show "auth_exclusive rc"
    proof (cases "f = fn")
      case True
      then show ?thesis
        using rc step(3) base declared_exclusive [OF Decorated.hyps(2) base] by (auto split: sum.splits)
    qed (use rc step(2) old in auto)
  qed
qed

subsection \<open>Properties\<close>

text \<open>
  C25: however a program decorates its functions, failed decorations included, no route asks both for a
  mere authorization header and for authentication or an API key.
\<close>

theorem authentication_modes_exclusive:
  assumes "deco_reachable C s" and "map_of (ds_configs s) i = Some rc"
  shows "\<not> (rc_auth_header_required rc \<noteq> None \<and> (rc_auth_required rc \<noteq> None \<or> rc_api_key_required rc))"
proof -
  obtain f where "config_of f s = Some rc" using reachable_deco [OF assms(1)] config_of_mem assms(2) by blast
  then have "auth_exclusive rc" using reachable_deco [OF assms(1)] by blast
  then show ?thesis by (auto simp: auth_exclusive_def)
qed

definition ex_decorated :: deco_state where
  "ex_decorated = snd (decorate ex_config (requireAuth ''bearer'' None) 7 init_deco)"

lemma ex_decorated_reachable: "deco_reachable ex_config ex_decorated"
  unfolding ex_decorated_def by (intro Decorated Undecorated declared.intros)

lemma ex_decorate:
  "decorate ex_config (requireAuth ''bearer'' None) 7 init_deco = (None, ex_decorated)"
  "ds_configs ex_decorated = [(''guard_route_1'', (base_route ex_config)\<lparr>rc_auth_required := Some ''bearer''\<rparr>)]"
  "ds_stamps ex_decorated = [(7, ''guard_route_1'')]" "ds_ids ex_decorated = [(7, ''guard_route_1'')]"
proof -
  have name: "route_name (Suc 0) = ''guard_route_1''" by code_simp
  show "decorate ex_config (requireAuth ''bearer'' None) 7 init_deco = (None, ex_decorated)"
    "ds_configs ex_decorated = [(''guard_route_1'', (base_route ex_config)\<lparr>rc_auth_required := Some ''bearer''\<rparr>)]"
    "ds_stamps ex_decorated = [(7, ''guard_route_1'')]" "ds_ids ex_decorated = [(7, ''guard_route_1'')]"
    by (simp_all add: ex_decorated_def decorate_def ensureRouteConfig_def getRouteId_def init_deco_def om_has_def name
        om_get_or_def requireAuth_def applyRouteConfig_def base_route_def default_route_def)
qed

theorem authentication_modes_exclusive_witness:
  "\<not> (rc_auth_header_required ((base_route ex_config)\<lparr>rc_auth_required := Some ''bearer''\<rparr>) \<noteq> None \<and>
      (rc_auth_required ((base_route ex_config)\<lparr>rc_auth_required := Some ''bearer''\<rparr>) \<noteq> None \<or>
       rc_api_key_required ((base_route ex_config)\<lparr>rc_auth_required := Some ''bearer''\<rparr>)))"
  by (rule authentication_modes_exclusive [OF ex_decorated_reachable, of "''guard_route_1''"]) (simp add: ex_decorate)

text \<open>
  Decorating a function gives it the updated configuration (or, when the decorator throws, leaves it
  the one it had and unstamped) and changes neither the configuration nor the stamp of any other
  function.
\<close>

theorem decoration_is_isolated:
  assumes "deco_reachable C s" and "decorate C upd fn s = (e, s')" and "f \<noteq> fn"
  shows "config_of f s' = config_of f s \<and> map_of (ds_stamps s') f = map_of (ds_stamps s) f \<and>
    (case upd (case config_of fn s of None \<Rightarrow> base_route C | Some rc \<Rightarrow> rc) of
       Inl x \<Rightarrow> e = Some x \<and> map_of (ds_stamps s') fn = map_of (ds_stamps s) fn
     | Inr rc \<Rightarrow> e = None \<and> config_of fn s' = Some rc)"
  using reachable_deco [OF assms(1)] decorated(2,3) [OF _ assms(2)] assms(3) by (auto split: sum.splits)

theorem decoration_is_isolated_witness:
  "config_of 8 ex_decorated = None \<and> config_of 7 ex_decorated = Some ((base_route ex_config)\<lparr>rc_auth_required := Some ''bearer''\<rparr>)"
  using decoration_is_isolated [OF Undecorated ex_decorate(1), of 8]
  by (simp add: init_deco_def config_of_def requireAuth_def base_route_def default_route_def)

text \<open>
  A request whose route was decorated is resolved to exactly that configuration: with the stamp of the
  decorated function as its route id, and the decorator in the resolver, the lookup returns what the
  decorator wrote.
\<close>

theorem decorated_route_is_resolved:
  assumes "deco_reachable C s" and "decorate C upd fn s = (None, s')"
    and "rr_decorator R = Decorator (\<lambda>i. Inr (deco_route_config i s'))"
    and "st_direct_route (w_req w) = None" and "st_route_id (w_req w) = map_of (ds_stamps s') fn"
  shows "getRouteConfig R rq w = (Inr (config_of fn s'), w) \<and> config_of fn s' \<noteq> None"
proof -
  have ok: "deco_ok s" using reachable_deco [OF assms(1)] by simp
  note step = decorated [OF ok assms(2)]
  obtain rc where rc: "config_of fn s' = Some rc" and stamp: "map_of (ds_stamps s') fn = map_of (ds_ids s') fn"
    using step(3) by (auto split: sum.splits)
  then obtain i where i: "map_of (ds_ids s') fn = Some i" "map_of (ds_configs s') i = Some rc"
    by (auto simp: config_of_def bind_eq_Some_conv)
  then have "i \<noteq> []" using step(1) by (auto simp: deco_ok_def route_name_def)
  then show ?thesis
    using assms(3-5) i stamp rc
    by (simp add: getRouteConfig_def lookupRouteId_def bnd_run ret_run deco_route_config_def)
qed

theorem decorated_route_is_resolved_witness:
  "getRouteConfig \<lparr>rr_decorator = Decorator (\<lambda>i. Inr (deco_route_config i ex_decorated)), rr_entries = []\<rparr> ex_request
     (ex_world\<lparr>w_req := ex_state\<lparr>st_route_id := Some ''guard_route_1''\<rparr>\<rparr>) =
   (Inr (Some ((base_route ex_config)\<lparr>rc_auth_required := Some ''bearer''\<rparr>)),
    ex_world\<lparr>w_req := ex_state\<lparr>st_route_id := Some ''guard_route_1''\<rparr>\<rparr>)"
  using decorated_route_is_resolved [OF Undecorated ex_decorate(1),
      of "\<lparr>rr_decorator = Decorator (\<lambda>i. Inr (deco_route_config i ex_decorated)), rr_entries = []\<rparr>"
        "ex_world\<lparr>w_req := ex_state\<lparr>st_route_id := Some ''guard_route_1''\<rparr>\<rparr>" ex_request]
  by (simp add: ex_decorate config_of_def ex_state_def)

text \<open>
  A configuration changed by a second decoration does not raise the revision, which counts created
  configurations only.
\<close>

lemma redecoration_keeps_the_revision:
  assumes "deco_ok s" and "config_of fn s = Some rc"
  shows "ds_revision (snd (decorate C upd fn s)) = ds_revision s"
proof -
  obtain i where i: "map_of (ds_ids s) fn = Some i" "map_of (ds_configs s) i = Some rc"
    using assms(2) by (auto simp: config_of_def bind_eq_Some_conv)
  then show ?thesis
    by (auto simp: decorate_def ensureRouteConfig_def getRouteId_def om_has_def applyRouteConfig_def split: sum.splits)
qed

text \<open>A malformed escape anywhere in a form makes the honeypot pass it, whatever the trap fields hold.\<close>

lemma honeypot_ignores_malformed_forms:
  assumes "body rq = Inr text" and "\<not> str_includes ''json'' (header_or [] rq ''content-type'')"
    and "form_fields duc (split_on (CHR ''&'') text) [] = Inl e"
  shows "honeypot E duc body trapFields rq = Inr None"
  using assms by (simp add: honeypot_def honeypot_data_def list_ex_iff)

end
