(* ===== verification/Body_Reader.thy ===== *)
theory Body_Reader
  imports Request_Scan
begin

section \<open>The bounded body reader (core/bounded-body-reader.ts)\<close>

text \<open>
  Reads for detection: a process-wide budget of reads in flight, a cap on the bytes, and a cache per
  request. How a read of the body ends is the request's (\<open>read_outcome\<close>); the budget is a step
  relation over acquire, release and limit changes.
\<close>

subsection \<open>Content length and caps\<close>

definition DEFAULT_BODY_READ_MAX_CONCURRENT :: nat where "DEFAULT_BODY_READ_MAX_CONCURRENT = 64"
definition MAX_STRADDLE_OVERLAP_BYTES :: nat where "MAX_STRADDLE_OVERLAP_BYTES = 256"
definition DEFAULT_MAX_BODY_BYTES :: nat where "DEFAULT_MAX_BODY_BYTES = 262144"

text \<open>\<open>Number.parseInt\<close> of a text of digits.\<close>

definition read_digits :: "string \<Rightarrow> nat" where
  "read_digits s = foldl (\<lambda>a c. 10 * a + (of_char c - 48)) 0 s"

definition parseContentLength :: "string \<Rightarrow> nat option" where
  "parseContentLength v =
     (let stripped = str_trim v
      in if stripped = [] \<or> \<not> list_all is_digit stripped then None
         else if 0 < read_digits stripped then Some (read_digits stripped) else None)"

definition straddleOverlapBytes :: "int option \<Rightarrow> nat" where
  "straddleOverlapBytes longest =
     (case longest of
        None \<Rightarrow> 0
      | Some n \<Rightarrow> if n \<le> 0 then 0 else min (nat n) MAX_STRADDLE_OVERLAP_BYTES)"

subsection \<open>The budget of reads in flight\<close>

record slots =
  sl_in_flight :: nat
  sl_limit :: nat
  sl_queue :: "nat list"

definition init_slots :: slots where
  "init_slots = \<lparr>sl_in_flight = 0, sl_limit = DEFAULT_BODY_READ_MAX_CONCURRENT, sl_queue = []\<rparr>"

definition setBodyReadConcurrencyLimit :: "nat \<Rightarrow> slots \<Rightarrow> slots" where
  "setBodyReadConcurrencyLimit n s = s\<lparr>sl_limit := n\<rparr>"

definition resetBodyReadConcurrency :: "slots \<Rightarrow> slots" where
  "resetBodyReadConcurrency s =
     \<lparr>sl_in_flight = length (sl_queue s), sl_limit = DEFAULT_BODY_READ_MAX_CONCURRENT, sl_queue = []\<rparr>"

text \<open>Reader \<open>r\<close> asks for a slot: whether it is granted at once, else it queues.\<close>

definition acquireSlot :: "nat \<Rightarrow> slots \<Rightarrow> bool \<times> slots" where
  "acquireSlot r s =
     (if sl_in_flight s < sl_limit s then (True, s\<lparr>sl_in_flight := Suc (sl_in_flight s)\<rparr>)
      else (False, s\<lparr>sl_queue := sl_queue s @ [r]\<rparr>))"

text \<open>A release and the reader it wakes: the one that has waited longest.\<close>

definition releaseSlot :: "slots \<Rightarrow> nat option \<times> slots" where
  "releaseSlot s =
     (let n = sl_in_flight s - 1
      in case sl_queue s of
           [] \<Rightarrow> (None, s\<lparr>sl_in_flight := n\<rparr>)
         | r # rs \<Rightarrow> (Some r, s\<lparr>sl_in_flight := Suc n, sl_queue := rs\<rparr>))"

text \<open>
  The readers that hold a slot, beside the budget: a read holds its slot from the grant to the end of
  \<open>safeRead\<close>, which releases it on every path.
\<close>

inductive budget_step :: "slots \<times> nat list \<Rightarrow> slots \<times> nat list \<Rightarrow> bool" where
  Granted: "acquireSlot r s = (True, s') \<Longrightarrow> r \<notin> set hs \<union> set (sl_queue s) \<Longrightarrow> budget_step (s, hs) (s', hs @ [r])"
| Queued: "acquireSlot r s = (False, s') \<Longrightarrow> r \<notin> set hs \<union> set (sl_queue s) \<Longrightarrow> budget_step (s, hs) (s', hs)"
| Freed: "r \<in> set hs \<Longrightarrow> releaseSlot s = (None, s') \<Longrightarrow> budget_step (s, hs) (s', remove1 r hs)"
| HandedOn: "r \<in> set hs \<Longrightarrow> releaseSlot s = (Some q, s') \<Longrightarrow> budget_step (s, hs) (s', remove1 r hs @ [q])"

subsection \<open>One read\<close>

datatype read_outcome = ReadBytes string | ReadOther string | ReadRaises exn | ReadTimesOut

text \<open>What detection sees of a read, and the warnings.\<close>

definition safeRead :: "read_outcome \<Rightarrow> string option \<times> string list" where
  "safeRead out =
     (case out of
        ReadBytes b \<Rightarrow> (Some b, [])
      | ReadOther tag \<Rightarrow> (None, [''the request body reader returned '' @ tag @
                            '', not bytes; treating the body as unavailable for detection''])
      | ReadRaises _ \<Rightarrow> (None, [])
      | ReadTimesOut \<Rightarrow> (None, []))"

text \<open>The request's readers, and its cache: the cap it was filled with and the bytes.\<close>

record body_source =
  bs_body :: read_outcome
  bs_prefix :: "(nat \<Rightarrow> read_outcome) option"
  bs_cache :: "(nat \<times> string) option"

definition cachedPrefix :: "nat \<Rightarrow> body_source \<Rightarrow> string option" where
  "cachedPrefix maxBytes s =
     (case bs_cache s of None \<Rightarrow> None | Some (m, bytes) \<Rightarrow> if maxBytes \<le> m then Some (take maxBytes bytes) else None)"

definition storePrefix :: "nat \<Rightarrow> string \<Rightarrow> body_source \<Rightarrow> body_source" where
  "storePrefix maxBytes bytes s = s\<lparr>bs_cache := Some (maxBytes, bytes)\<rparr>"

definition readAndCacheBody ::
  "nat \<Rightarrow> read_outcome \<Rightarrow> body_source \<Rightarrow> string option \<times> string list \<times> body_source"
where
  "readAndCacheBody maxBytes out s =
     (case cachedPrefix maxBytes s of
        Some b \<Rightarrow> (Some b, [], s)
      | None \<Rightarrow>
          (case safeRead out of
             (None, warns) \<Rightarrow> (None, warns, s)
           | (Some got, warns) \<Rightarrow> (Some (take maxBytes got), warns, storePrefix maxBytes (take maxBytes got) s)))"

subsection \<open>readCappedBody\<close>

definition cap_warning :: "nat \<Rightarrow> string \<Rightarrow> string" where
  "cap_warning maxBytes ip = ''detectionMaxBodyInspectBytes ('' @ show_nat maxBytes @ '') reached for client '' @ ip @
     ''; only the first '' @ show_nat maxBytes @ '' bytes of the request body are scanned''"

definition no_reader_warning :: "nat \<Rightarrow> string \<Rightarrow> string" where
  "no_reader_warning maxBytes ip = ''detectionMaxBodyInspectBytes ('' @ show_nat maxBytes @ '') reached for client '' @ ip @
     ''; the request body is not read because the adapter does not implement a bounded reader (readBodyPrefix)''"

definition readOversizedDeclaredBody ::
  "nat \<Rightarrow> int option \<Rightarrow> string \<Rightarrow> body_source \<Rightarrow> string option \<times> string list \<times> body_source"
where
  "readOversizedDeclaredBody maxBytes longest ip s =
     (case bs_prefix s of
        None \<Rightarrow> (None, [no_reader_warning maxBytes ip], s)
      | Some read \<Rightarrow>
          (let fetchBytes = maxBytes + straddleOverlapBytes longest
           in case readAndCacheBody fetchBytes (read fetchBytes) s of
                (b, warns, s') \<Rightarrow> (b, cap_warning maxBytes ip # warns, s')))"

text \<open>\<open>maxBytes\<close> is the configured cap, or the default without a configuration.\<close>

definition readCappedBody ::
  "nat \<Rightarrow> int option \<Rightarrow> string option \<Rightarrow> string \<Rightarrow> body_source \<Rightarrow> string option \<times> string list \<times> body_source"
where
  "readCappedBody maxBytes longest contentLength ip s =
     (case (case contentLength of None \<Rightarrow> None | Some v \<Rightarrow> parseContentLength v) of
        Some parsed \<Rightarrow>
          if maxBytes < parsed then readOversizedDeclaredBody maxBytes longest ip s
          else readAndCacheBody maxBytes (bs_body s) s
      | None \<Rightarrow>
          (case bs_prefix s of
             None \<Rightarrow> readAndCacheBody maxBytes (bs_body s) s
           | Some read \<Rightarrow>
               (let fetchBytes = maxBytes + straddleOverlapBytes longest
                in readAndCacheBody fetchBytes (read fetchBytes) s)))"

subsection \<open>The budget invariant\<close>

definition budget_ok :: "nat \<Rightarrow> slots \<times> nat list \<Rightarrow> bool" where
  "budget_ok limit sh \<longleftrightarrow>
     (case sh of (s, hs) \<Rightarrow>
        sl_limit s = limit \<and> sl_in_flight s = length hs \<and> length hs \<le> limit \<and>
        distinct (hs @ sl_queue s) \<and> (sl_queue s \<noteq> [] \<longrightarrow> length hs = limit))"

lemma budget_step_ok: "budget_step sh sh' \<Longrightarrow> budget_ok limit sh \<Longrightarrow> budget_ok limit sh'"
proof (induction rule: budget_step.induct)
  case (Granted r s s' hs)
  then show ?case by (auto simp: acquireSlot_def budget_ok_def split: if_splits)
next
  case (Queued r s s' hs)
  then show ?case by (auto simp: acquireSlot_def budget_ok_def split: if_splits)
next
  case (Freed r hs s s')
  then show ?case
    by (auto simp: releaseSlot_def budget_ok_def Let_def length_remove1 split: list.splits)
next
  case (HandedOn r hs s q s')
  have "0 < length hs" using HandedOn(1) by (cases hs) auto
  then have "Suc (length hs - Suc 0) = length hs" by simp
  with HandedOn show ?case
    by (auto simp: releaseSlot_def budget_ok_def Let_def length_remove1 dest: notin_set_remove1 split: list.splits)
qed

definition slots_with :: "nat \<Rightarrow> slots" where
  "slots_with limit = setBodyReadConcurrencyLimit limit init_slots"

lemma budget_reachable:
  assumes "budget_step\<^sup>*\<^sup>* (slots_with limit, []) sh"
  shows "budget_ok limit sh"
  using assms
proof (induction rule: rtranclp_induct)
  case base
  then show ?case by (simp add: budget_ok_def slots_with_def setBodyReadConcurrencyLimit_def init_slots_def)
qed (rule budget_step_ok)

subsection \<open>What a read gives back\<close>

text \<open>
  A source of the bytes of \<open>body\<close>: whatever a reader returns is a prefix of them, the whole for the
  plain reader and the first \<open>n\<close> for the bounded one, and so is the cache.
\<close>

definition reads_from :: "string \<Rightarrow> body_source \<Rightarrow> bool" where
  "reads_from body s \<longleftrightarrow>
     (\<forall>b. bs_body s = ReadBytes b \<longrightarrow> b = body) \<and>
     (\<forall>read n b. bs_prefix s = Some read \<longrightarrow> read n = ReadBytes b \<longrightarrow> b = take n body) \<and>
     (\<forall>m bytes. bs_cache s = Some (m, bytes) \<longrightarrow> bytes = take m body)"

lemma cached_read:
  assumes "reads_from body s" and "\<And>b. out = ReadBytes b \<Longrightarrow> take cap b = take cap body"
    and "readAndCacheBody cap out s = (res, warns, s')"
  shows "(case res of None \<Rightarrow> True | Some b \<Rightarrow> b = take cap body) \<and> reads_from body s'"
proof (cases "cachedPrefix cap s")
  case (Some b)
  then show ?thesis
    using assms by (auto simp: readAndCacheBody_def cachedPrefix_def reads_from_def min_def split: option.splits if_splits)
next
  case None
  show ?thesis
  proof (cases out)
    case (ReadBytes b)
    then have "res = Some (take cap b)" "s' = storePrefix cap (take cap b) s"
      using None assms(3) by (auto simp: readAndCacheBody_def safeRead_def)
    then show ?thesis
      using assms(1) assms(2) [OF ReadBytes] by (simp add: reads_from_def storePrefix_def)
  qed (use None assms in \<open>auto simp: readAndCacheBody_def safeRead_def\<close>)
qed

lemma overlap_bound: "straddleOverlapBytes longest \<le> 256"
  by (auto simp: straddleOverlapBytes_def MAX_STRADDLE_OVERLAP_BYTES_def split: option.splits)

lemma capped_read:
  assumes "reads_from body s" and "readCappedBody maxBytes longest cl ip s = (res, warns, s')"
  shows "\<exists>cap. cap \<le> maxBytes + 256 \<and> (case res of None \<Rightarrow> True | Some b \<Rightarrow> b = take cap body) \<and> reads_from body s'"
proof -
  have plain: "\<And>b. bs_body s = ReadBytes b \<Longrightarrow> take maxBytes b = take maxBytes body"
    using assms(1) by (simp add: reads_from_def)
  define n where "n = maxBytes + straddleOverlapBytes longest"
  have bounded: "take n b = take n body" if "bs_prefix s = Some read" "read n = ReadBytes b" for read b
    using assms(1) that unfolding reads_from_def by fastforce
  have n: "n \<le> maxBytes + 256" using overlap_bound by (simp add: n_def)
  consider (body) w where "readAndCacheBody maxBytes (bs_body s) s = (res, w, s')"
    | (prefixed) read w where "bs_prefix s = Some read" "readAndCacheBody n (read n) s = (res, w, s')"
    | (unread) "res = None" "s' = s"
    using assms(2)
    by (auto simp: readCappedBody_def readOversizedDeclaredBody_def Let_def n_def split: option.splits if_splits prod.splits)
  then show ?thesis
  proof cases
    case (body w)
    then show ?thesis using cached_read [OF assms(1) plain body] by (intro exI [of _ maxBytes]) simp
  next
    case (prefixed read w)
    have "(case res of None \<Rightarrow> True | Some b \<Rightarrow> b = take n body) \<and> reads_from body s'"
      by (rule cached_read [OF assms(1) _ prefixed(2)]) (rule bounded [OF prefixed(1)])
    then show ?thesis using n by blast
  qed (use assms(1) in auto)
qed

subsection \<open>Properties\<close>

text \<open>
  C32: with a fixed limit, at most that many reads are in flight at any time, the counter counts exactly
  the readers that hold a slot, a reader waits only when all slots are taken, and the reader that
  has waited longest gets the next slot that is freed.
\<close>

theorem read_budget_respected:
  assumes "budget_step\<^sup>*\<^sup>* (slots_with limit, []) (s, hs)" and "0 < limit"
  shows "sl_in_flight s = length hs \<and> length hs \<le> limit \<and> distinct (hs @ sl_queue s) \<and>
    (case sl_queue s of
       [] \<Rightarrow> True
     | q # qs \<Rightarrow> length hs = limit \<and>
         (\<exists>r s'. r \<in> set hs \<and> releaseSlot s = (Some q, s') \<and> budget_step (s, hs) (s', remove1 r hs @ [q])))"
proof -
  have ok: "budget_ok limit (s, hs)" by (rule budget_reachable [OF assms(1)])
  show ?thesis
  proof (cases "sl_queue s")
    case (Cons q qs)
    then have full: "length hs = limit" using ok by (simp add: budget_ok_def)
    then obtain r where r: "r \<in> set hs" using assms(2) by (cases hs) auto
    obtain s' where s': "releaseSlot s = (Some q, s')" using Cons by (simp add: releaseSlot_def Let_def)
    have "budget_step (s, hs) (s', remove1 r hs @ [q])" by (rule HandedOn [OF r s'])
    then show ?thesis using ok full r s' Cons unfolding budget_ok_def by auto
  qed (use ok in \<open>simp add: budget_ok_def\<close>)
qed

theorem read_budget_respected_witness:
  "sl_in_flight (\<lparr>sl_in_flight = 1, sl_limit = 1, sl_queue = [5]\<rparr>) = length [4 :: nat]"
proof -
  have "budget_step (slots_with 1, []) (\<lparr>sl_in_flight = 1, sl_limit = 1, sl_queue = []\<rparr>, [] @ [4])"
    by (rule Granted)
      (simp_all add: acquireSlot_def slots_with_def setBodyReadConcurrencyLimit_def init_slots_def)
  moreover have "budget_step (\<lparr>sl_in_flight = 1, sl_limit = 1, sl_queue = []\<rparr>, [4]) (\<lparr>sl_in_flight = 1, sl_limit = 1, sl_queue = [5]\<rparr>, [4])"
    by (rule Queued [of 5]) (simp_all add: acquireSlot_def)
  ultimately have "budget_step\<^sup>*\<^sup>* (slots_with 1, []) (\<lparr>sl_in_flight = 1, sl_limit = 1, sl_queue = [5]\<rparr>, [4])"
    by (metis append_Nil converse_rtranclp_into_rtranclp r_into_rtranclp)
  then show ?thesis using read_budget_respected [of 1 "\<lparr>sl_in_flight = 1, sl_limit = 1, sl_queue = [5]\<rparr>" "[4]"] by simp
qed

text \<open>
  C33: what detection reads of a body is a prefix of it, never longer than the cap plus 256 bytes, on every
  path, cached reads included; and the cache stays a prefix of the body.
\<close>

theorem body_read_is_capped_prefix:
  assumes "reads_from body s" and "readCappedBody maxBytes longest cl ip s = (Some b, warns, s')"
  shows "length b \<le> maxBytes + 256 \<and> b = take (length b) body \<and> reads_from body s'"
proof -
  obtain cap where "cap \<le> maxBytes + 256" "b = take cap body" "reads_from body s'"
    using capped_read [OF assms] by auto
  then show ?thesis by (simp add: min_def)
qed

definition ex_source :: body_source where
  "ex_source = \<lparr>bs_body = ReadBytes ''abcdef'', bs_prefix = None, bs_cache = None\<rparr>"

theorem body_read_is_capped_prefix_witness:
  "length ''abcd'' \<le> 4 + (256 :: nat) \<and> ''abcd'' = take (length ''abcd'') ''abcdef''"
proof -
  have read: "readCappedBody 4 None None [] ex_source = (Some ''abcd'', [], ex_source\<lparr>bs_cache := Some (4, ''abcd'')\<rparr>)"
    by (simp add: readCappedBody_def readAndCacheBody_def cachedPrefix_def safeRead_def storePrefix_def ex_source_def)
  have "reads_from ''abcdef'' ex_source" by (simp add: reads_from_def ex_source_def)
  from body_read_is_capped_prefix [OF this read] show ?thesis by blast
qed

text \<open>
  A request that declares a body larger than the cap, through an adapter without a bounded reader, is
  not read at all, so the body scan finds nothing whatever the body holds.
\<close>

theorem oversized_body_not_scanned:
  assumes "map_of (rq_headers rq) ''content-length'' = Some v" and "parseContentLength v = Some n" and "maxBytes < n"
    and "bs_prefix s = None"
    and "e_read_body E = (\<lambda>q. Inr (fst (readCappedBody maxBytes longest (map_of (rq_headers q) ''content-length'') ip s)))"
  shows "scanBodySurface E D rq ip x = no_hit"
  using assms by (simp add: scanBodySurface_def readCappedBody_def readOversizedDeclaredBody_def)

theorem oversized_body_not_scanned_witness:
  "scanBodySurface (ex_env\<lparr>e_read_body := (\<lambda>q. Inr (fst (readCappedBody 4 None (map_of (rq_headers q) ''content-length'') [] ex_source)))\<rparr>)
     D (ex_request\<lparr>rq_headers := [(''content-length'', ''6'')]\<rparr>) [] x = no_hit"
proof -
  have six: "parseContentLength ''6'' = Some 6" by code_simp
  show ?thesis by (rule oversized_body_not_scanned [OF _ six]) (simp_all add: ex_source_def)
qed

end
