(* ===== verification/Rule_Snapshot.thy ===== *)
theory Rule_Snapshot
  imports Guard_Types
begin

section \<open>Dynamic rules and their snapshot (models/dynamic-rules.ts, models/dynamic-rule-snapshot.ts)\<close>

text \<open>
  The rule model, its schema, and the versioned envelope it is stored in. Payloads are JSON values;
  \<open>dt\<close> is the schema library's ISO datetime check and \<open>toIso\<close> is \<open>new Date(v).toISOString()\<close>, absent
  for a text that is no date. A schema failure is \<open>None\<close>: the callers only log that it happened.
\<close>

datatype jnum = Whole int | Fraction rat

datatype jvalue = VNull | VBool bool | VNum jnum | VText string | VArr "jvalue list" | VObj "(string \<times> jvalue) list"

record dynamic_rules =
  dr_id :: string
  dr_version :: int
  dr_timestamp :: string
  dr_expires :: "string option"
  dr_ttl :: int
  dr_blacklist :: "string list"
  dr_whitelist :: "string list"
  dr_ban_duration :: int
  dr_blocked_countries :: "string list"
  dr_whitelist_countries :: "string list"
  dr_rate_limit :: "int option"
  dr_rate_window :: "int option"
  dr_endpoint_limits :: "(string \<times> jnum \<times> jnum) list"
  dr_clouds :: "string list"
  dr_user_agents :: "string list"
  dr_patterns :: "string list"
  dr_enable_pen :: "bool option"
  dr_enable_ban :: "bool option"
  dr_enable_rl :: "bool option"
  dr_emergency :: bool
  dr_emergency_whitelist :: "string list"

definition VALID_CLOUD_PROVIDERS :: "string list" where
  "VALID_CLOUD_PROVIDERS = [''AWS'', ''GCP'', ''Azure'']"

definition SNAPSHOT_SCHEMA_VERSION :: int where "SNAPSHOT_SCHEMA_VERSION = 1"

subsection \<open>Schema combinators\<close>

type_synonym 'a schema = "jvalue \<Rightarrow> 'a option"

definition z_string :: "string schema" where
  "z_string v = (case v of VText s \<Rightarrow> Some s | _ \<Rightarrow> None)"

definition z_bool :: "bool schema" where
  "z_bool v = (case v of VBool b \<Rightarrow> Some b | _ \<Rightarrow> None)"

definition z_number :: "jnum schema" where
  "z_number v = (case v of VNum n \<Rightarrow> Some n | _ \<Rightarrow> None)"

text \<open>An integer schema takes the safe integers of the language only.\<close>

definition safe_integer :: "int \<Rightarrow> bool" where
  "safe_integer i \<longleftrightarrow> \<bar>i\<bar> \<le> 2 ^ 53 - 1"

definition z_int :: "int schema" where
  "z_int v = (case v of VNum (Whole i) \<Rightarrow> (if safe_integer i then Some i else None) | _ \<Rightarrow> None)"

definition z_where :: "(string \<Rightarrow> bool) \<Rightarrow> string schema" where
  "z_where P v = Option.bind (z_string v) (\<lambda>s. if P s then Some s else None)"

definition z_nullable :: "'a schema \<Rightarrow> 'a option schema" where
  "z_nullable f v = (if v = VNull then Some None else map_option Some (f v))"

fun z_all :: "'a schema \<Rightarrow> jvalue list \<Rightarrow> 'a list option" where
  "z_all f [] = Some []"
| "z_all f (v # vs) = Option.bind (f v) (\<lambda>x. map_option (Cons x) (z_all f vs))"

definition z_array :: "'a schema \<Rightarrow> 'a list schema" where
  "z_array f v = (case v of VArr vs \<Rightarrow> z_all f vs | _ \<Rightarrow> None)"

definition z_record :: "'a schema \<Rightarrow> (string \<times> 'a) list schema" where
  "z_record f v =
     (case v of
        VObj kvs \<Rightarrow> map_option (zip (map fst kvs)) (z_all f (map snd kvs))
      | _ \<Rightarrow> None)"

definition z_pair :: "(jnum \<times> jnum) schema" where
  "z_pair v =
     (case v of
        VArr [a, b] \<Rightarrow> Option.bind (z_number a) (\<lambda>x. map_option (Pair x) (z_number b))
      | _ \<Rightarrow> None)"

definition z_field :: "string \<Rightarrow> 'a schema \<Rightarrow> (string \<times> jvalue) list \<Rightarrow> 'a option" where
  "z_field k f m = Option.bind (map_of m k) f"

definition z_default :: "string \<Rightarrow> 'a \<Rightarrow> 'a schema \<Rightarrow> (string \<times> jvalue) list \<Rightarrow> 'a option" where
  "z_default k d f m = (case map_of m k of None \<Rightarrow> Some d | Some v \<Rightarrow> f v)"

text \<open>\<open>new Set(arr)\<close>: first occurrences, in order.\<close>

definition to_set :: "'a list \<Rightarrow> 'a list" where
  "to_set xs = rev (remdups (rev xs))"

subsection \<open>DynamicRulesSchema\<close>

definition DynamicRulesSchema :: "(string \<Rightarrow> bool) \<Rightarrow> jvalue \<Rightarrow> dynamic_rules option" where
  "DynamicRulesSchema dt v =
     (case v of
        VObj m \<Rightarrow>
          Option.bind (z_field ''ruleId'' z_string m) (\<lambda>ruleId.
          Option.bind (z_field ''version'' z_int m) (\<lambda>version.
          Option.bind (z_field ''timestamp'' (z_where dt) m) (\<lambda>timestamp.
          Option.bind (z_default ''expiresAt'' None (z_nullable (z_where dt)) m) (\<lambda>expires.
          Option.bind (z_default ''ttl'' 300 z_int m) (\<lambda>ttl.
          Option.bind (z_default ''ipBlacklist'' [] (z_array z_string) m) (\<lambda>blacklist.
          Option.bind (z_default ''ipWhitelist'' [] (z_array z_string) m) (\<lambda>whitelist.
          Option.bind (z_default ''ipBanDuration'' 3600 z_int m) (\<lambda>banDuration.
          Option.bind (z_default ''blockedCountries'' [] (z_array (z_where (\<lambda>s. length s = 2))) m) (\<lambda>blocked.
          Option.bind (z_default ''whitelistCountries'' [] (z_array (z_where (\<lambda>s. length s = 2))) m) (\<lambda>allowed.
          Option.bind (z_default ''globalRateLimit'' None (z_nullable z_int) m) (\<lambda>limit.
          Option.bind (z_default ''globalRateWindow'' None (z_nullable z_int) m) (\<lambda>window.
          Option.bind (z_default ''endpointRateLimits'' [] (z_record z_pair) m) (\<lambda>endpoints.
          Option.bind (z_default ''blockedCloudProviders'' []
              (z_array (z_where (\<lambda>s. s \<in> set VALID_CLOUD_PROVIDERS))) m) (\<lambda>clouds.
          Option.bind (z_default ''blockedUserAgents'' [] (z_array z_string) m) (\<lambda>agents.
          Option.bind (z_default ''suspiciousPatterns'' [] (z_array z_string) m) (\<lambda>patterns.
          Option.bind (z_default ''enablePenetrationDetection'' None (z_nullable z_bool) m) (\<lambda>pen.
          Option.bind (z_default ''enableIpBanning'' None (z_nullable z_bool) m) (\<lambda>ban.
          Option.bind (z_default ''enableRateLimiting'' None (z_nullable z_bool) m) (\<lambda>rl.
          Option.bind (z_default ''emergencyMode'' False z_bool m) (\<lambda>emergency.
          Option.bind (z_default ''emergencyWhitelist'' [] (z_array z_string) m) (\<lambda>emergencyWhitelist.
            Some \<lparr>dr_id = ruleId, dr_version = version, dr_timestamp = timestamp, dr_expires = expires,
              dr_ttl = ttl, dr_blacklist = blacklist, dr_whitelist = whitelist, dr_ban_duration = banDuration,
              dr_blocked_countries = blocked, dr_whitelist_countries = allowed, dr_rate_limit = limit,
              dr_rate_window = window, dr_endpoint_limits = endpoints, dr_clouds = to_set clouds,
              dr_user_agents = agents, dr_patterns = patterns, dr_enable_pen = pen, dr_enable_ban = ban,
              dr_enable_rl = rl, dr_emergency = emergency, dr_emergency_whitelist = emergencyWhitelist\<rparr>)))))))))))))))))))))
      | _ \<Rightarrow> None)"

subsection \<open>The snapshot envelope\<close>

text \<open>\<open>toISOString\<close> without a fraction of whole seconds; the sentinel of the source is \<open>None\<close> here.\<close>

definition normalizeTimestamp :: "(string \<Rightarrow> string option) \<Rightarrow> string \<Rightarrow> string option" where
  "normalizeTimestamp toIso v =
     (if v = [] then None
      else map_option (\<lambda>i. if drop (length i - 5) i = ''.000Z'' then take (length i - 5) i @ ''Z'' else i) (toIso v))"

definition j_opt :: "('a \<Rightarrow> jvalue) \<Rightarrow> 'a option \<Rightarrow> jvalue" where
  "j_opt f x = (case x of None \<Rightarrow> VNull | Some y \<Rightarrow> f y)"

definition j_texts :: "string list \<Rightarrow> jvalue" where
  "j_texts xs = VArr (map VText xs)"

definition j_int :: "int \<Rightarrow> jvalue" where
  "j_int i = VNum (Whole i)"

definition j_limits :: "(string \<times> jnum \<times> jnum) list \<Rightarrow> jvalue" where
  "j_limits m = VObj (map (\<lambda>(k, a, b). (k, VArr [VNum a, VNum b])) m)"

definition wire_of :: "dynamic_rules \<Rightarrow> string \<Rightarrow> string option \<Rightarrow> (string \<times> jvalue) list" where
  "wire_of r timestamp expires =
     [(''rule_id'', VText (dr_id r)),
      (''version'', j_int (dr_version r)),
      (''timestamp'', VText timestamp),
      (''expires_at'', j_opt VText expires),
      (''ttl'', j_int (dr_ttl r)),
      (''ip_blacklist'', j_texts (dr_blacklist r)),
      (''ip_whitelist'', j_texts (dr_whitelist r)),
      (''ip_ban_duration'', j_int (dr_ban_duration r)),
      (''blocked_countries'', j_texts (dr_blocked_countries r)),
      (''whitelist_countries'', j_texts (dr_whitelist_countries r)),
      (''global_rate_limit'', j_opt j_int (dr_rate_limit r)),
      (''global_rate_window'', j_opt j_int (dr_rate_window r)),
      (''endpoint_rate_limits'', j_limits (dr_endpoint_limits r)),
      (''blocked_cloud_providers'', j_texts (dr_clouds r)),
      (''blocked_user_agents'', j_texts (dr_user_agents r)),
      (''suspicious_patterns'', j_texts (dr_patterns r)),
      (''enable_penetration_detection'', j_opt VBool (dr_enable_pen r)),
      (''enable_ip_banning'', j_opt VBool (dr_enable_ban r)),
      (''enable_rate_limiting'', j_opt VBool (dr_enable_rl r)),
      (''auto_ban_threshold'', VNull),
      (''auto_ban_duration'', VNull),
      (''enable_rate_limit_auto_ban'', VNull),
      (''emergency_mode'', VBool (dr_emergency r)),
      (''emergency_whitelist'', j_texts (dr_emergency_whitelist r))]"

definition dumpLastKnownRulesSnapshot :: "(string \<Rightarrow> string option) \<Rightarrow> dynamic_rules \<Rightarrow> exn + jvalue" where
  "dumpLastKnownRulesSnapshot toIso r =
     (case normalizeTimestamp toIso (dr_timestamp r) of
        None \<Rightarrow> Inl (OtherErr ''TypeError'' ''last-known dynamic rules snapshot: timestamp must be a datetime string'')
      | Some ts \<Rightarrow>
          (case dr_expires r of
             None \<Rightarrow> Inr (VObj [(''schema_version'', j_int SNAPSHOT_SCHEMA_VERSION), (''rules'', VObj (wire_of r ts None))])
           | Some ex \<Rightarrow>
               (case normalizeTimestamp toIso ex of
                  None \<Rightarrow> Inl (OtherErr ''TypeError'' ''last-known dynamic rules snapshot: expiresAt must be a datetime string or null'')
                | Some e \<Rightarrow> Inr (VObj [(''schema_version'', j_int SNAPSHOT_SCHEMA_VERSION), (''rules'', VObj (wire_of r ts (Some e)))]))))"

text \<open>A strict object: no key beyond the schema's.\<close>

definition wire_keys :: "string list" where
  "wire_keys = [''rule_id'', ''version'', ''timestamp'', ''expires_at'', ''ttl'', ''ip_blacklist'', ''ip_whitelist'',
     ''ip_ban_duration'', ''blocked_countries'', ''whitelist_countries'', ''global_rate_limit'', ''global_rate_window'',
     ''endpoint_rate_limits'', ''blocked_cloud_providers'', ''blocked_user_agents'', ''suspicious_patterns'',
     ''enable_penetration_detection'', ''enable_ip_banning'', ''enable_rate_limiting'', ''auto_ban_threshold'',
     ''auto_ban_duration'', ''enable_rate_limit_auto_ban'', ''emergency_mode'', ''emergency_whitelist'']"

definition strict :: "string list \<Rightarrow> (string \<times> jvalue) list \<Rightarrow> bool" where
  "strict ks m \<longleftrightarrow> list_all (\<lambda>p. fst p \<in> set ks) m"

definition LastKnownDynamicRulesWireSchema :: "dynamic_rules schema" where
  "LastKnownDynamicRulesWireSchema v =
     (case v of
        VObj m \<Rightarrow>
          if \<not> strict wire_keys m then None
          else
          Option.bind (z_field ''rule_id'' z_string m) (\<lambda>ruleId.
          Option.bind (z_field ''version'' z_int m) (\<lambda>version.
          Option.bind (z_field ''timestamp'' z_string m) (\<lambda>timestamp.
          Option.bind (z_field ''expires_at'' (z_nullable z_string) m) (\<lambda>expires.
          Option.bind (z_field ''ttl'' z_int m) (\<lambda>ttl.
          Option.bind (z_field ''ip_blacklist'' (z_array z_string) m) (\<lambda>blacklist.
          Option.bind (z_field ''ip_whitelist'' (z_array z_string) m) (\<lambda>whitelist.
          Option.bind (z_field ''ip_ban_duration'' z_int m) (\<lambda>banDuration.
          Option.bind (z_field ''blocked_countries'' (z_array z_string) m) (\<lambda>blocked.
          Option.bind (z_field ''whitelist_countries'' (z_array z_string) m) (\<lambda>allowed.
          Option.bind (z_field ''global_rate_limit'' (z_nullable z_int) m) (\<lambda>limit.
          Option.bind (z_field ''global_rate_window'' (z_nullable z_int) m) (\<lambda>window.
          Option.bind (z_field ''endpoint_rate_limits'' (z_record z_pair) m) (\<lambda>endpoints.
          Option.bind (z_field ''blocked_cloud_providers'' (z_array z_string) m) (\<lambda>clouds.
          Option.bind (z_field ''blocked_user_agents'' (z_array z_string) m) (\<lambda>agents.
          Option.bind (z_field ''suspicious_patterns'' (z_array z_string) m) (\<lambda>patterns.
          Option.bind (z_field ''enable_penetration_detection'' (z_nullable z_bool) m) (\<lambda>pen.
          Option.bind (z_field ''enable_ip_banning'' (z_nullable z_bool) m) (\<lambda>ban.
          Option.bind (z_field ''enable_rate_limiting'' (z_nullable z_bool) m) (\<lambda>rl.
          Option.bind (z_field ''auto_ban_threshold'' (z_nullable z_int) m) (\<lambda>_.
          Option.bind (z_field ''auto_ban_duration'' (z_nullable z_int) m) (\<lambda>_.
          Option.bind (z_field ''enable_rate_limit_auto_ban'' (z_nullable z_bool) m) (\<lambda>_.
          Option.bind (z_field ''emergency_mode'' z_bool m) (\<lambda>emergency.
          Option.bind (z_field ''emergency_whitelist'' (z_array z_string) m) (\<lambda>emergencyWhitelist.
            Some \<lparr>dr_id = ruleId, dr_version = version, dr_timestamp = timestamp, dr_expires = expires,
              dr_ttl = ttl, dr_blacklist = blacklist, dr_whitelist = whitelist, dr_ban_duration = banDuration,
              dr_blocked_countries = blocked, dr_whitelist_countries = allowed, dr_rate_limit = limit,
              dr_rate_window = window, dr_endpoint_limits = endpoints, dr_clouds = clouds,
              dr_user_agents = agents, dr_patterns = patterns, dr_enable_pen = pen, dr_enable_ban = ban,
              dr_enable_rl = rl, dr_emergency = emergency, dr_emergency_whitelist = emergencyWhitelist\<rparr>))))))))))))))))))))))))
      | _ \<Rightarrow> None)"

definition loadLastKnownRulesSnapshot :: "jvalue \<Rightarrow> exn + dynamic_rules" where
  "loadLastKnownRulesSnapshot v =
     (case v of
        VObj m \<Rightarrow>
          if \<not> strict [''schema_version'', ''rules''] m then Inl (OtherErr ''ZodError'' [])
          else
            (case (z_field ''schema_version'' z_int m, z_field ''rules'' LastKnownDynamicRulesWireSchema m) of
               (Some version, Some r) \<Rightarrow>
                 if version \<noteq> SNAPSHOT_SCHEMA_VERSION
                 then Inl (OtherErr ''Error'' (''Unsupported last-known dynamic rules snapshot schema version: '' @ show_int version))
                 else Inr (r\<lparr>dr_clouds := to_set (dr_clouds r)\<rparr>)
             | _ \<Rightarrow> Inl (OtherErr ''ZodError'' []))
      | _ \<Rightarrow> Inl (OtherErr ''ZodError'' []))"

text \<open>\<open>parseLastKnownRules\<close> hands the loaded rules to the live schema again, the set as an array.\<close>

definition parse_input :: "dynamic_rules \<Rightarrow> jvalue" where
  "parse_input r = VObj
     [(''ruleId'', VText (dr_id r)),
      (''version'', j_int (dr_version r)),
      (''timestamp'', VText (dr_timestamp r)),
      (''expiresAt'', j_opt VText (dr_expires r)),
      (''ttl'', j_int (dr_ttl r)),
      (''ipBlacklist'', j_texts (dr_blacklist r)),
      (''ipWhitelist'', j_texts (dr_whitelist r)),
      (''ipBanDuration'', j_int (dr_ban_duration r)),
      (''blockedCountries'', j_texts (dr_blocked_countries r)),
      (''whitelistCountries'', j_texts (dr_whitelist_countries r)),
      (''globalRateLimit'', j_opt j_int (dr_rate_limit r)),
      (''globalRateWindow'', j_opt j_int (dr_rate_window r)),
      (''endpointRateLimits'', j_limits (dr_endpoint_limits r)),
      (''blockedCloudProviders'', j_texts (dr_clouds r)),
      (''blockedUserAgents'', j_texts (dr_user_agents r)),
      (''suspiciousPatterns'', j_texts (dr_patterns r)),
      (''enablePenetrationDetection'', j_opt VBool (dr_enable_pen r)),
      (''enableIpBanning'', j_opt VBool (dr_enable_ban r)),
      (''enableRateLimiting'', j_opt VBool (dr_enable_rl r)),
      (''emergencyMode'', VBool (dr_emergency r)),
      (''emergencyWhitelist'', j_texts (dr_emergency_whitelist r))]"

definition parseSnapshot :: "(string \<Rightarrow> bool) \<Rightarrow> jvalue \<Rightarrow> exn + dynamic_rules" where
  "parseSnapshot dt v =
     (case loadLastKnownRulesSnapshot v of
        Inl e \<Rightarrow> Inl e
      | Inr r \<Rightarrow> (case DynamicRulesSchema dt (parse_input r) of
                    None \<Rightarrow> Inl (OtherErr ''ZodError'' []) | Some r' \<Rightarrow> Inr r'))"

subsection \<open>Each combinator reads what its encoder wrote\<close>

named_theorems z_simps

lemma z_read [z_simps]:
  "z_string (VText s) = Some s" "z_bool (VBool b) = Some b" "z_number (VNum n) = Some n"
  "z_int (j_int i) = (if safe_integer i then Some i else None)"
  by (simp_all add: z_string_def z_bool_def z_int_def z_number_def j_int_def)

lemma z_all_map: "(\<And>x. x \<in> set xs \<Longrightarrow> f (g x) = Some x) \<Longrightarrow> z_all f (map g xs) = Some xs"
  by (induction xs) auto

lemma z_texts [z_simps]: "z_array z_string (j_texts xs) = Some xs"
  by (simp add: z_array_def j_texts_def z_all_map z_read)

lemma z_texts_where: "\<forall>x \<in> set xs. P x \<Longrightarrow> z_array (z_where P) (j_texts xs) = Some xs"
  by (simp add: z_array_def j_texts_def z_all_map z_read z_where_def)

lemma z_opt [z_simps]:
  "z_nullable z_bool (j_opt VBool y) = Some y"
  "z_nullable z_string (j_opt VText t) = Some t" "z_nullable z_int VNull = Some None" "z_nullable z_bool VNull = Some None"
  by (cases y; cases t; simp add: z_nullable_def j_opt_def z_read)+

lemma z_opt_int: "\<forall>i \<in> set_option x. safe_integer i \<Longrightarrow> z_nullable z_int (j_opt j_int x) = Some x"
  by (cases x) (simp_all add: z_nullable_def j_opt_def z_int_def j_int_def)

lemma z_opt_where: "\<forall>x \<in> set_option t. P x \<Longrightarrow> z_nullable (z_where P) (j_opt VText t) = Some t"
  by (cases t) (simp_all add: z_nullable_def j_opt_def z_where_def z_read)

lemma z_limits [z_simps]: "z_record z_pair (j_limits m) = Some m"
proof -
  have "z_all z_pair (map (\<lambda>(k, a, b). VArr [VNum a, VNum b]) m) = Some (map snd m)"
    by (induction m) (auto simp: z_pair_def z_read)
  then show ?thesis
    by (simp add: z_record_def j_limits_def comp_def case_prod_beta' zip_map_fst_snd)
qed

lemma to_set_distinct [simp]: "distinct xs \<Longrightarrow> to_set xs = xs"
  by (simp add: to_set_def distinct_remdups_id)

lemma to_set_set [simp]: "set (to_set xs) = set xs" "distinct (to_set xs)"
  by (simp_all add: to_set_def)

lemma z_field_Cons: "z_field k f ((k', v) # m) = (if k = k' then f v else z_field k f m)"
  by (simp add: z_field_def)

lemma z_default_Cons: "z_default k d f ((k', v) # m) = (if k = k' then f v else z_default k d f m)"
  by (simp add: z_default_def)

text \<open>Every number the schema reads as an integer is a safe one.\<close>

definition integers_safe :: "dynamic_rules \<Rightarrow> bool" where
  "integers_safe r \<longleftrightarrow> safe_integer (dr_version r) \<and> safe_integer (dr_ttl r) \<and> safe_integer (dr_ban_duration r) \<and>
     (\<forall>i \<in> set_option (dr_rate_limit r) \<union> set_option (dr_rate_window r). safe_integer i)"

lemma integers_read:
  assumes "integers_safe r"
  shows "safe_integer (dr_version r)" "safe_integer (dr_ttl r)" "safe_integer (dr_ban_duration r)"
    "z_nullable z_int (j_opt j_int (dr_rate_limit r)) = Some (dr_rate_limit r)"
    "z_nullable z_int (j_opt j_int (dr_rate_window r)) = Some (dr_rate_window r)"
  using assms by (auto simp: integers_safe_def intro!: z_opt_int)

lemma wire_read:
  assumes "integers_safe r"
  shows "LastKnownDynamicRulesWireSchema (VObj (wire_of r ts ex)) = Some (r\<lparr>dr_timestamp := ts, dr_expires := ex\<rparr>)"
proof -
  have "strict wire_keys (wire_of r ts ex)" by (simp add: strict_def wire_keys_def wire_of_def)
  then show ?thesis
    by (simp add: LastKnownDynamicRulesWireSchema_def wire_of_def z_field_Cons z_simps integers_read [OF assms])
qed

definition datetimes_ok :: "(string \<Rightarrow> bool) \<Rightarrow> dynamic_rules \<Rightarrow> bool" where
  "datetimes_ok dt r \<longleftrightarrow> dt (dr_timestamp r) \<and> (\<forall>x \<in> set_option (dr_expires r). dt x)"

definition rules_wf :: "(string \<Rightarrow> bool) \<Rightarrow> dynamic_rules \<Rightarrow> bool" where
  "rules_wf dt r \<longleftrightarrow> datetimes_ok dt r \<and> integers_safe r \<and>
     (\<forall>x \<in> set (dr_blocked_countries r) \<union> set (dr_whitelist_countries r). length x = 2) \<and>
     set (dr_clouds r) \<subseteq> set VALID_CLOUD_PROVIDERS \<and> distinct (dr_clouds r)"

lemma schema_read:
  assumes "rules_wf dt r"
  shows "DynamicRulesSchema dt (parse_input r) = Some r"
proof -
  have ts: "z_where dt (VText (dr_timestamp r)) = Some (dr_timestamp r)"
    and ex: "z_nullable (z_where dt) (j_opt VText (dr_expires r)) = Some (dr_expires r)"
    and bc: "z_array (z_where (\<lambda>s. length s = 2)) (j_texts (dr_blocked_countries r)) = Some (dr_blocked_countries r)"
    and wc: "z_array (z_where (\<lambda>s. length s = 2)) (j_texts (dr_whitelist_countries r)) = Some (dr_whitelist_countries r)"
    and cl: "z_array (z_where (\<lambda>s. s \<in> set VALID_CLOUD_PROVIDERS)) (j_texts (dr_clouds r)) = Some (dr_clouds r)"
    using assms by (auto simp: rules_wf_def datetimes_ok_def z_where_def z_read intro!: z_opt_where z_texts_where)
  have safe: "integers_safe r" using assms by (simp add: rules_wf_def)
  show ?thesis
    using assms by (simp add: DynamicRulesSchema_def parse_input_def z_field_Cons z_default_Cons z_simps ts ex bc wc cl
      integers_read [OF safe] rules_wf_def)
qed

lemma schema_refuses:
  assumes "\<not> datetimes_ok dt r"
  shows "DynamicRulesSchema dt (parse_input r) = None"
proof (cases "dt (dr_timestamp r)")
  case True
  then obtain x where "dr_expires r = Some x" "\<not> dt x" using assms by (auto simp: datetimes_ok_def)
  then have "z_nullable (z_where dt) (j_opt VText (dr_expires r)) = None"
    by (simp add: z_nullable_def j_opt_def z_where_def z_read)
  then show ?thesis by (simp add: DynamicRulesSchema_def parse_input_def z_field_Cons z_default_Cons)
next
  case False
  then have "z_where dt (VText (dr_timestamp r)) = None" by (simp add: z_where_def z_read)
  then show ?thesis by (simp add: DynamicRulesSchema_def parse_input_def z_field_Cons)
qed

lemma z_int_safe: "z_int v = Some i \<Longrightarrow> safe_integer i"
  by (auto simp: z_int_def split: jvalue.splits jnum.splits if_splits)

lemma z_default_safe: "z_default k d z_int m = Some i \<Longrightarrow> safe_integer d \<Longrightarrow> safe_integer i"
  by (auto simp: z_default_def split: option.splits dest: z_int_safe)

lemma z_default_opt_safe: "z_default k None (z_nullable z_int) m = Some x \<Longrightarrow> \<forall>i \<in> set_option x. safe_integer i"
  by (auto simp: z_default_def z_nullable_def split: option.splits if_splits dest: z_int_safe)

lemma z_where_Some: "z_where P v = Some s \<Longrightarrow> P s"
  by (auto simp: z_where_def split: bind_splits if_splits)

lemma z_all_Some: "z_all f vs = Some xs \<Longrightarrow> (\<And>v x. f v = Some x \<Longrightarrow> P x) \<Longrightarrow> \<forall>x \<in> set xs. P x"
proof (induction vs arbitrary: xs)
  case (Cons v vs)
  then show ?case by (auto split: bind_splits) 
qed simp

lemma z_array_where:
  assumes "z_array (z_where P) v = Some xs"
  shows "\<forall>x \<in> set xs. P x"
proof -
  obtain vs where "z_all (z_where P) vs = Some xs"
    using assms by (auto simp: z_array_def split: jvalue.splits)
  then show ?thesis by (rule z_all_Some) (rule z_where_Some)
qed

lemma z_nullable_where: "z_nullable (z_where P) v = Some x \<Longrightarrow> \<forall>y \<in> set_option x. P y"
  by (auto simp: z_nullable_def dest: z_where_Some split: if_splits)

lemma z_default_array:
  "z_default k [] (z_array (z_where P)) m = Some xs \<Longrightarrow> \<forall>x \<in> set xs. P x"
  by (auto simp: z_default_def split: option.splits dest: z_array_where)

lemma z_default_nullable:
  "z_default k None (z_nullable (z_where P)) m = Some x \<Longrightarrow> \<forall>y \<in> set_option x. P y"
  by (auto simp: z_default_def split: option.splits dest: z_nullable_where)

text \<open>Whatever the schema accepts satisfies its constraints.\<close>

lemma schema_wf:
  assumes "DynamicRulesSchema dt v = Some r"
  shows "rules_wf dt r"
proof -
  obtain m where v: "v = VObj m" using assms by (cases v) (simp_all add: DynamicRulesSchema_def)
  obtain clouds where fields: "z_field ''version'' z_int m = Some (dr_version r)"
    "z_default ''ttl'' 300 z_int m = Some (dr_ttl r)" "z_default ''ipBanDuration'' 3600 z_int m = Some (dr_ban_duration r)"
    "z_default ''globalRateLimit'' None (z_nullable z_int) m = Some (dr_rate_limit r)"
    "z_default ''globalRateWindow'' None (z_nullable z_int) m = Some (dr_rate_window r)"
    "z_field ''timestamp'' (z_where dt) m = Some (dr_timestamp r)"
    "z_default ''expiresAt'' None (z_nullable (z_where dt)) m = Some (dr_expires r)"
    "z_default ''blockedCountries'' [] (z_array (z_where (\<lambda>s. length s = 2))) m = Some (dr_blocked_countries r)"
    "z_default ''whitelistCountries'' [] (z_array (z_where (\<lambda>s. length s = 2))) m = Some (dr_whitelist_countries r)"
    "z_default ''blockedCloudProviders'' [] (z_array (z_where (\<lambda>s. s \<in> set VALID_CLOUD_PROVIDERS))) m = Some clouds"
    "dr_clouds r = to_set clouds"
    using assms by (auto simp: DynamicRulesSchema_def v bind_eq_Some_conv)
  have d: "safe_integer 300" "safe_integer 3600" by (simp_all add: safe_integer_def)
  have "integers_safe r"
    using z_int_safe z_default_safe [OF fields(2) d(1)] z_default_safe [OF fields(3) d(2)]
      z_default_opt_safe [OF fields(4)] z_default_opt_safe [OF fields(5)] fields(1)
    by (auto simp: integers_safe_def z_field_def bind_eq_Some_conv)
  then show ?thesis
    using fields(6-)
    by (auto simp: rules_wf_def datetimes_ok_def z_field_def bind_eq_Some_conv
        dest: z_where_Some z_default_array z_default_nullable)
qed

subsection \<open>Properties\<close>

definition normalized :: "(string \<Rightarrow> string option) \<Rightarrow> dynamic_rules \<Rightarrow> dynamic_rules" where
  "normalized toIso r = r\<lparr>dr_timestamp := the (normalizeTimestamp toIso (dr_timestamp r)),
     dr_expires := map_option (\<lambda>x. the (normalizeTimestamp toIso x)) (dr_expires r)\<rparr>"

lemma snapshot_read:
  assumes "rules_wf dt r" and "dumpLastKnownRulesSnapshot toIso r = Inr payload"
  shows "parseSnapshot dt payload =
    (if datetimes_ok dt (normalized toIso r) then Inr (normalized toIso r) else Inl (OtherErr ''ZodError'' []))"
proof -
  obtain ts where ts: "normalizeTimestamp toIso (dr_timestamp r) = Some ts"
    using assms(2) by (auto simp: dumpLastKnownRulesSnapshot_def split: option.splits)
  have payload: "payload = VObj [(''schema_version'', j_int SNAPSHOT_SCHEMA_VERSION),
      (''rules'', VObj (wire_of r ts (dr_expires (normalized toIso r))))]"
    using assms(2) ts by (auto simp: dumpLastKnownRulesSnapshot_def normalized_def split: option.splits)
  have safe: "integers_safe r" "integers_safe (normalized toIso r)" and one: "safe_integer SNAPSHOT_SCHEMA_VERSION"
    using assms(1) by (simp_all add: rules_wf_def integers_safe_def normalized_def safe_integer_def SNAPSHOT_SCHEMA_VERSION_def)
  have loaded: "loadLastKnownRulesSnapshot payload = Inr (normalized toIso r)"
    using assms(1) ts one
    by (simp add: payload loadLastKnownRulesSnapshot_def strict_def z_field_Cons z_simps wire_read [OF safe(1)] normalized_def rules_wf_def)
  show ?thesis
  proof (cases "datetimes_ok dt (normalized toIso r)")
    case True
    then have "rules_wf dt (normalized toIso r)"
      using assms(1) safe(2) by (simp add: rules_wf_def normalized_def)
    then show ?thesis using loaded True by (simp add: parseSnapshot_def schema_read)
  next
    case False
    then show ?thesis using loaded by (simp add: parseSnapshot_def schema_refuses)
  qed
qed

text \<open>
  What the schema accepted and the snapshot writer wrote, the snapshot reader gives back, every field
  of the rules, with the two timestamps in their normal form, as long as the schema takes these normal
  forms for datetimes, as it does for UTC times of a four-digit year; if it does not, the reader refuses
  the snapshot as a whole.
\<close>

theorem snapshot_roundtrip:
  assumes "DynamicRulesSchema dt v = Some r" and "dumpLastKnownRulesSnapshot toIso r = Inr payload"
  shows "parseSnapshot dt payload =
    (if dt (dr_timestamp (normalized toIso r)) \<and> list_all dt (case dr_expires (normalized toIso r) of None \<Rightarrow> [] | Some x \<Rightarrow> [x])
     then Inr (normalized toIso r) else Inl (OtherErr ''ZodError'' []))"
  using snapshot_read [OF schema_wf [OF assms(1)] assms(2)] by (simp add: datetimes_ok_def split: option.splits)

text \<open>
  An envelope with a field the schema does not know, on either level, or of another schema version is
  refused as a whole.
\<close>

theorem snapshot_strict:
  assumes "\<not> strict [''schema_version'', ''rules''] m \<or> \<not> strict wire_keys w \<or> version \<noteq> SNAPSHOT_SCHEMA_VERSION"
    and "map_of m ''rules'' = Some (VObj w)" and "map_of m ''schema_version'' = Some (j_int version)"
  shows "\<exists>e. loadLastKnownRulesSnapshot (VObj m) = Inl e"
  using assms
  by (auto simp: loadLastKnownRulesSnapshot_def z_field_def LastKnownDynamicRulesWireSchema_def z_read split: option.splits)

definition ex_rules_json :: jvalue where
  "ex_rules_json = VObj [(''ruleId'', VText ''r1''), (''version'', j_int 3), (''timestamp'', VText ''2026-01-01T00:00:00.000Z''),
     (''blockedCloudProviders'', j_texts [''AWS'', ''GCP'', ''AWS'']), (''emergencyMode'', VBool True)]"

definition ex_rules :: dynamic_rules where
  "ex_rules = \<lparr>dr_id = ''r1'', dr_version = 3, dr_timestamp = ''2026-01-01T00:00:00.000Z'', dr_expires = None, dr_ttl = 300,
     dr_blacklist = [], dr_whitelist = [], dr_ban_duration = 3600, dr_blocked_countries = [], dr_whitelist_countries = [],
     dr_rate_limit = None, dr_rate_window = None, dr_endpoint_limits = [], dr_clouds = [''AWS'', ''GCP''],
     dr_user_agents = [], dr_patterns = [], dr_enable_pen = None, dr_enable_ban = None, dr_enable_rl = None,
     dr_emergency = True, dr_emergency_whitelist = []\<rparr>"

lemma ex_rules_parse: "DynamicRulesSchema (\<lambda>_. True) ex_rules_json = Some ex_rules"
  by code_simp

theorem snapshot_roundtrip_witness:
  "parseSnapshot (\<lambda>_. True) (VObj [(''schema_version'', j_int 1), (''rules'', VObj (wire_of ex_rules ''2026-01-01T00:00:00Z'' None))])
     = Inr (ex_rules\<lparr>dr_timestamp := ''2026-01-01T00:00:00Z''\<rparr>)"
proof -
  have ts: "normalizeTimestamp Some ''2026-01-01T00:00:00.000Z'' = Some ''2026-01-01T00:00:00Z''" by code_simp
  have "dumpLastKnownRulesSnapshot Some ex_rules =
      Inr (VObj [(''schema_version'', j_int 1), (''rules'', VObj (wire_of ex_rules ''2026-01-01T00:00:00Z'' None))])"
    by (simp add: dumpLastKnownRulesSnapshot_def ts ex_rules_def SNAPSHOT_SCHEMA_VERSION_def)
  from snapshot_roundtrip [OF ex_rules_parse this] show ?thesis
    by (simp add: normalized_def ts ex_rules_def)
qed

theorem snapshot_strict_witness:
  "\<exists>e. loadLastKnownRulesSnapshot (VObj [(''schema_version'', j_int 2), (''rules'', VObj [])]) = Inl e"
  by (rule snapshot_strict [of _ "[]" 2]) (simp_all add: SNAPSHOT_SCHEMA_VERSION_def)

end
