(* ===== verification/Dynamic_Rules.thy ===== *)
theory Dynamic_Rules
  imports Rule_Snapshot
begin

section \<open>DynamicRuleManager (handlers/dynamic-rules.ts)\<close>

text \<open>
  The manager of the agent's dynamic rules, as state passing over one record that also holds the two
  stores of the last-known snapshot: the Redis key and the cache file. What the outside does in one
  call is the record \<open>dyn_io\<close>: the clock in milliseconds, the agent's answer, and which of the store
  operations fail. JSON text is coded by the parameters \<open>stringify\<close> and \<open>parse\<close>.
\<close>

subsection \<open>The cache file\<close>

text \<open>A path is its directory and base name. A failing write may leave part of the payload behind.\<close>

type_synonym file_path = "string \<times> string"
type_synonym files = "(file_path, string) omap"

datatype write_outcome = Written | WriteFails exn "string option"

definition temp_path :: "string \<Rightarrow> file_path \<Rightarrow> file_path" where
  "temp_path uuid p = (fst p, snd p @ ''.'' @ uuid @ ''.tmp'')"

text \<open>
  The files after each system call, in order, and the error the caller sees. \<open>unlinks\<close>: the clean-up
  succeeds.
\<close>

definition writeLastKnownRulesFile ::
  "string \<Rightarrow> write_outcome \<Rightarrow> exn option \<Rightarrow> bool \<Rightarrow> file_path \<Rightarrow> string \<Rightarrow> files \<Rightarrow> exn option \<times> files list"
where
  "writeLastKnownRulesFile uuid wr rename unlinks path payload fs =
     (let temp = temp_path uuid path;
          cleanup = (\<lambda>f. if unlinks then AList.delete temp f else f)
      in case wr of
           WriteFails e left \<Rightarrow>
             (let f1 = (case left of None \<Rightarrow> fs | Some part \<Rightarrow> AList.update temp part fs)
              in (Some e, [f1, cleanup f1]))
         | Written \<Rightarrow>
             (let f1 = AList.update temp payload fs
              in case rename of
                   Some e \<Rightarrow> (Some e, [f1, cleanup f1])
                 | None \<Rightarrow> (None, [f1, AList.delete temp (AList.update path payload f1)])))"

subsection \<open>State\<close>

datatype dyn_log = DInfo string | DWarn string | DError string

record rule_event =
  re_type :: string
  re_action :: string
  re_reason :: string
  re_meta :: "(string, meta) omap"

record dyn_state =
  dy_current :: "dynamic_rules option"
  dy_timer :: bool
  dy_last_update :: rat
  dy_agent :: bool
  dy_redis :: bool
  dy_hydrated :: bool
  dy_skipped :: "string option"
  dy_log :: "dyn_log list"
  dy_events :: "rule_event list"
  dy_store :: "string option"
  dy_files :: files

text \<open>The configuration and the parameters: \<open>msOf\<close> is \<open>new Date(v).getTime()\<close>, absent for NaN.
  The schema library's error messages are not modelled.\<close>

record dyn_env =
  de_enabled :: bool
  de_cache_path :: "file_path option"
  de_datetime :: "string \<Rightarrow> bool"
  de_toIso :: "string \<Rightarrow> string option"
  de_msOf :: "string \<Rightarrow> int option"
  de_stringify :: "jvalue \<Rightarrow> string"
  de_parse :: "string \<Rightarrow> jvalue option"

record dyn_io =
  io_now :: int
  io_rules :: "exn + jvalue option"
  io_redis_get :: "exn option"
  io_redis_set :: "exn option"
  io_file_read :: "exn option"
  io_write :: write_outcome
  io_rename :: "exn option"
  io_unlinks :: bool
  io_uuid :: string

definition init_dyn :: dyn_state where
  "init_dyn = \<lparr>dy_current = None, dy_timer = False, dy_last_update = 0, dy_agent = False, dy_redis = False,
     dy_hydrated = False, dy_skipped = None, dy_log = [], dy_events = [], dy_store = None, dy_files = []\<rparr>"

definition dlog :: "dyn_log \<Rightarrow> dyn_state \<Rightarrow> dyn_state" where
  "dlog l s = s\<lparr>dy_log := dy_log s @ [l]\<rparr>"

text \<open>\<open>`${rules.ruleId} v${rules.version}`\<close>.\<close>

definition rule_label :: "dynamic_rules \<Rightarrow> string" where
  "rule_label r = dr_id r @ '' v'' @ show_int (dr_version r)"

subsection \<open>Reading and writing the snapshot\<close>

definition hasRuleExpired :: "dyn_env \<Rightarrow> int \<Rightarrow> dynamic_rules \<Rightarrow> bool" where
  "hasRuleExpired E now r =
     (case dr_expires r of
        None \<Rightarrow> False
      | Some x \<Rightarrow> (case de_msOf E x of None \<Rightarrow> False | Some t \<Rightarrow> t \<le> now))"

definition readRedisPayload :: "dyn_io \<Rightarrow> dyn_state \<Rightarrow> string option \<times> dyn_state" where
  "readRedisPayload io s =
     (if \<not> dy_redis s then (None, s)
      else (case io_redis_get io of
              Some e \<Rightarrow> (None, dlog (DError (''Failed to read last-known dynamic rules from Redis: '' @ exn_str e)) s)
            | None \<Rightarrow> ((case dy_store s of None \<Rightarrow> None | Some p \<Rightarrow> if p = [] then None else Some p), s)))"

definition readFilePayload :: "dyn_env \<Rightarrow> dyn_io \<Rightarrow> dyn_state \<Rightarrow> string option \<times> dyn_state" where
  "readFilePayload E io s =
     (case de_cache_path E of
        None \<Rightarrow> (None, s)
      | Some path \<Rightarrow>
          (case map_of (dy_files s) path of
             None \<Rightarrow> (None, s)
           | Some p \<Rightarrow>
               (case io_file_read io of
                  Some e \<Rightarrow> (None, dlog (DError (''Failed to read dynamic rules cache file '' @ fst path @ ''/'' @ snd path
                                @ '': '' @ exn_str e)) s)
                | None \<Rightarrow> (Some p, s))))"

definition parseLastKnownRules :: "dyn_env \<Rightarrow> string \<Rightarrow> dyn_state \<Rightarrow> dynamic_rules option \<times> dyn_state" where
  "parseLastKnownRules E payload s =
     (case (case de_parse E payload of
              None \<Rightarrow> Inl (OtherErr ''SyntaxError'' [])
            | Some v \<Rightarrow> parseSnapshot (de_datetime E) v) of
        Inl e \<Rightarrow> (None, dlog (DError (''Discarding unusable last-known dynamic rules payload: '' @ exn_str e)) s)
      | Inr r \<Rightarrow> (Some r, s))"

fun first_live :: "dyn_env \<Rightarrow> dyn_io \<Rightarrow> string option list \<Rightarrow> dyn_state \<Rightarrow> dynamic_rules option \<times> dyn_state" where
  "first_live E io [] s = (None, s)"
| "first_live E io (None # ps) s = first_live E io ps s"
| "first_live E io (Some p # ps) s =
     (case parseLastKnownRules E p s of
        (None, s1) \<Rightarrow> first_live E io ps s1
      | (Some r, s1) \<Rightarrow>
          if hasRuleExpired E (io_now io) r
          then first_live E io ps
                 (dlog (DError (''Discarding expired last-known dynamic rules '' @ rule_label r @ ''; trying the next store'')) s1)
          else (Some r, s1))"

definition loadLastKnownRules :: "dyn_env \<Rightarrow> dyn_io \<Rightarrow> dyn_state \<Rightarrow> dynamic_rules option \<times> dyn_state" where
  "loadLastKnownRules E io s =
     (case readRedisPayload io s of
        (redisPayload, s1) \<Rightarrow>
          (case readFilePayload E io s1 of
             (filePayload, s2) \<Rightarrow> first_live E io [redisPayload, filePayload] s2))"

definition persist_redis :: "dyn_io \<Rightarrow> string \<Rightarrow> dyn_state \<Rightarrow> dyn_state" where
  "persist_redis io payload s =
     (if \<not> dy_redis s then s
      else (case io_redis_set io of
              Some e \<Rightarrow> dlog (DError (''Failed to persist dynamic rules to Redis: '' @ exn_str e)) s
            | None \<Rightarrow> s\<lparr>dy_store := Some payload\<rparr>))"

definition persist_file :: "dyn_env \<Rightarrow> dyn_io \<Rightarrow> string \<Rightarrow> dyn_state \<Rightarrow> dyn_state" where
  "persist_file E io payload s =
     (case de_cache_path E of
        None \<Rightarrow> s
      | Some path \<Rightarrow>
          (case writeLastKnownRulesFile (io_uuid io) (io_write io) (io_rename io) (io_unlinks io) path payload (dy_files s) of
             (None, trace) \<Rightarrow> s\<lparr>dy_files := last trace\<rparr>
           | (Some e, trace) \<Rightarrow>
               dlog (DError (''Failed to persist dynamic rules to cache file '' @ fst path @ ''/'' @ snd path @ '': '' @ exn_str e))
                 (s\<lparr>dy_files := last trace\<rparr>)))"

definition persistLastKnownRules :: "dyn_env \<Rightarrow> dyn_io \<Rightarrow> dynamic_rules \<Rightarrow> dyn_state \<Rightarrow> dyn_state" where
  "persistLastKnownRules E io r s =
     (case dumpLastKnownRulesSnapshot (de_toIso E) r of
        Inl e \<Rightarrow> dlog (DError (''Failed to build last-known dynamic rules snapshot: '' @ exn_str e)) s
      | Inr v \<Rightarrow> persist_file E io (de_stringify E v) (persist_redis io (de_stringify E v) s))"

subsection \<open>Hydration\<close>

definition hydrateLastKnownRules :: "dyn_env \<Rightarrow> dyn_io \<Rightarrow> dyn_state \<Rightarrow> dyn_state" where
  "hydrateLastKnownRules E io s =
     (case loadLastKnownRules E io s of
        (None, s1) \<Rightarrow> s1
      | (Some r, s1) \<Rightarrow>
          persistLastKnownRules E io r
            (dlog (DInfo (''Hydrated last-known dynamic rules '' @ rule_label r @ '' before the update loop started''))
              (s1\<lparr>dy_current := Some r, dy_last_update := of_int (io_now io) / 1000\<rparr>)))"

definition initializeDynAgent :: "dyn_env \<Rightarrow> dyn_io \<Rightarrow> dyn_state \<Rightarrow> dyn_state" where
  "initializeDynAgent E io s =
     (let s1 = s\<lparr>dy_agent := True\<rparr>
      in if \<not> de_enabled E then s1
         else (if dy_hydrated s1 then s1 else hydrateLastKnownRules E io (s1\<lparr>dy_hydrated := True\<rparr>))
           \<lparr>dy_timer := True\<rparr>)"

subsection \<open>The update\<close>

definition sendRuleEvent :: "string \<Rightarrow> string \<Rightarrow> string \<Rightarrow> (string, meta) omap \<Rightarrow> dyn_state \<Rightarrow> dyn_state" where
  "sendRuleEvent ty action reason md s =
     (if dy_agent s
      then s\<lparr>dy_events := dy_events s @ [\<lparr>re_type = ty, re_action = action, re_reason = reason, re_meta = md\<rparr>]\<rparr>
      else s)"

definition checkRuleExpiry :: "dyn_env \<Rightarrow> int \<Rightarrow> dyn_state \<Rightarrow> dyn_state" where
  "checkRuleExpiry E now s =
     (case dy_current s of
        None \<Rightarrow> s
      | Some r \<Rightarrow>
          (case dr_expires r of
             None \<Rightarrow> s
           | Some x \<Rightarrow>
               if (case de_msOf E x of None \<Rightarrow> False | Some t \<Rightarrow> now < t) then s
               else dlog (DInfo (''Dynamic rule '' @ rule_label r @ '' expired; restored base config''))
                      (s\<lparr>dy_current := None\<rparr>)))"

definition rejectIfAlreadyExpired :: "dyn_env \<Rightarrow> int \<Rightarrow> dynamic_rules \<Rightarrow> dyn_state \<Rightarrow> bool \<times> dyn_state" where
  "rejectIfAlreadyExpired E now r s =
     (if \<not> hasRuleExpired E now r then (False, s)
      else
        (let key = dr_id r @ '':'' @ show_int (dr_version r)
         in (True,
             if dy_skipped s = Some key then s
             else dlog (DWarn (''Dynamic rule '' @ rule_label r @ '' already expired on receipt; ignoring''))
                    (s\<lparr>dy_skipped := Some key\<rparr>))))"

definition superseded :: "dynamic_rules \<Rightarrow> dyn_state \<Rightarrow> bool" where
  "superseded r s = (case dy_current s of None \<Rightarrow> False | Some c \<Rightarrow> dr_id c = dr_id r \<and> dr_version c \<ge> dr_version r)"

definition apply_rules :: "dyn_env \<Rightarrow> dyn_io \<Rightarrow> dynamic_rules \<Rightarrow> dyn_state \<Rightarrow> dyn_state" where
  "apply_rules E io r s =
     (let s1 = sendRuleEvent ''dynamic_rule_updated'' ''rules_received'' (''Received updated rules '' @ rule_label r)
                 [(''ruleId'', MStr (dr_id r)), (''version'', MNum (dr_version r)),
                  (''previousVersion'', MNum (case dy_current s of None \<Rightarrow> 0 | Some c \<Rightarrow> dr_version c))] s;
          emergencyActivated = (dr_emergency r \<and> (case dy_current s of None \<Rightarrow> True | Some c \<Rightarrow> \<not> dr_emergency c));
          s2 = dlog (DInfo (''Applied dynamic rules: '' @ rule_label r))
                 (s1\<lparr>dy_current := Some r, dy_last_update := of_int (io_now io) / 1000\<rparr>);
          s3 = (if emergencyActivated
                then sendRuleEvent ''emergency_mode_activated'' ''emergency_lockdown''
                       ''[EMERGENCY MODE] activated via dynamic rules''
                       [(''whitelistCount'', MNum (int (length (dr_emergency_whitelist r)))),
                        (''whitelist'', MList (take 10 (dr_emergency_whitelist r)))] s2
                else s2)
      in sendRuleEvent ''dynamic_rule_applied'' ''rules_updated'' (''Applied dynamic rules '' @ rule_label r)
           [(''ruleId'', MStr (dr_id r)), (''version'', MNum (dr_version r)),
            (''ipBans'', MNum (int (length (dr_blacklist r)))),
            (''countryBlocks'', MNum (int (length (dr_blocked_countries r)))),
            (''emergencyMode'', MBool (dr_emergency r))]
           (persistLastKnownRules E io r s3))"

definition updateRules :: "dyn_env \<Rightarrow> dyn_io \<Rightarrow> dyn_state \<Rightarrow> dyn_state" where
  "updateRules E io s =
     (if \<not> dy_agent s then s
      else
        (let s1 = checkRuleExpiry E (io_now io) s
         in case io_rules io of
              Inl e \<Rightarrow> dlog (DError (''Failed to fetch dynamic rules: '' @ exn_str e)) s1
            | Inr None \<Rightarrow> s1
            | Inr (Some raw) \<Rightarrow>
                (case DynamicRulesSchema (de_datetime E) raw of
                   None \<Rightarrow> dlog (DWarn ''Invalid dynamic rules: '') s1
                 | Some r \<Rightarrow>
                     (case rejectIfAlreadyExpired E (io_now io) r s1 of
                        (True, s2) \<Rightarrow> s2
                      | (False, s2) \<Rightarrow> if superseded r s2 then s2 else apply_rules E io r s2))))"

definition stopUpdates :: "dyn_state \<Rightarrow> dyn_state" where
  "stopUpdates s = s\<lparr>dy_timer := False\<rparr>"

subsection \<open>matchEvent\<close>

definition eventMatchesIp :: "string option \<Rightarrow> dynamic_rules \<Rightarrow> bool" where
  "eventMatchesIp ip r =
     (case ip of None \<Rightarrow> False | Some a \<Rightarrow> a \<noteq> [] \<and> (a \<in> set (dr_blacklist r) \<or> a \<in> set (dr_whitelist r)))"

definition eventMatchesCountry :: "string option \<Rightarrow> dynamic_rules \<Rightarrow> bool" where
  "eventMatchesCountry country r =
     (case country of None \<Rightarrow> False | Some c \<Rightarrow> c \<noteq> [] \<and> c \<in> set (dr_blocked_countries r))"

definition eventMatchesType :: "string option \<Rightarrow> dynamic_rules \<Rightarrow> bool" where
  "eventMatchesType ty r =
     (if ty = Some ''rate_limited'' then dr_rate_limit r \<noteq> None \<or> dr_endpoint_limits r \<noteq> []
      else if ty = Some ''cloud_blocked'' then dr_clouds r \<noteq> []
      else if ty = Some ''user_agent_blocked'' then dr_user_agents r \<noteq> []
      else False)"

definition matchEvent :: "string option \<Rightarrow> string option \<Rightarrow> string option \<Rightarrow> dyn_state \<Rightarrow> (string \<times> int) option" where
  "matchEvent ty ip country s =
     (case dy_current s of
        None \<Rightarrow> None
      | Some r \<Rightarrow>
          if eventMatchesIp ip r \<or> eventMatchesCountry country r \<or> eventMatchesType ty r
          then Some (dr_id r, dr_version r) else None)"

subsection \<open>Frames\<close>

text \<open>Events, log lines and stores never touch the rules in force.\<close>

lemma dlog_frame [simp]:
  "dy_current (dlog l s) = dy_current s" "dy_agent (dlog l s) = dy_agent s" "dy_redis (dlog l s) = dy_redis s"
  "dy_store (dlog l s) = dy_store s" "dy_files (dlog l s) = dy_files s" "dy_hydrated (dlog l s) = dy_hydrated s"
  by (simp_all add: dlog_def)

lemma event_frame [simp]:
  "dy_current (sendRuleEvent ty a r m s) = dy_current s" "dy_redis (sendRuleEvent ty a r m s) = dy_redis s"
  "dy_store (sendRuleEvent ty a r m s) = dy_store s" "dy_files (sendRuleEvent ty a r m s) = dy_files s"
  by (simp_all add: sendRuleEvent_def)

lemma persist_frame [simp]: "dy_current (persistLastKnownRules E io r s) = dy_current s"
  by (auto simp: persistLastKnownRules_def persist_redis_def persist_file_def split: sum.splits option.splits prod.splits)

lemma apply_current [simp]: "dy_current (apply_rules E io r s) = Some r"
  by (simp add: apply_rules_def Let_def)

lemma reject_frame [simp]:
  "rejectIfAlreadyExpired E now r s = (b, s') \<Longrightarrow> dy_current s' = dy_current s \<and> b = hasRuleExpired E now r"
  by (auto simp: rejectIfAlreadyExpired_def Let_def split: if_splits)

definition retired :: "dyn_env \<Rightarrow> int \<Rightarrow> dynamic_rules \<Rightarrow> bool" where
  "retired E now r =
     (case dr_expires r of
        None \<Rightarrow> False
      | Some x \<Rightarrow> (case de_msOf E x of None \<Rightarrow> True | Some t \<Rightarrow> t \<le> now))"

lemma expiry_current:
  "dy_current (checkRuleExpiry E now s) =
     (case dy_current s of None \<Rightarrow> None | Some c \<Rightarrow> if retired E now c then None else Some c)"
  by (auto simp: checkRuleExpiry_def retired_def split: option.splits)

lemma expired_retired: "hasRuleExpired E now r \<Longrightarrow> retired E now r"
  by (auto simp: hasRuleExpired_def retired_def split: option.splits)

subsection \<open>The file write\<close>

lemma temp_other [simp]: "temp_path uuid p \<noteq> p" "p \<noteq> temp_path uuid p"
proof -
  have "length (snd (temp_path uuid p)) \<noteq> length (snd p)" by (simp add: temp_path_def)
  then show "temp_path uuid p \<noteq> p" "p \<noteq> temp_path uuid p" by metis+
qed

subsection \<open>Reading a stored snapshot back\<close>

lemma first_live_hit:
  "de_parse E p = Some v \<Longrightarrow> parseSnapshot (de_datetime E) v = Inr r \<Longrightarrow> \<not> hasRuleExpired E (io_now io) r \<Longrightarrow>
   first_live E io (Some p # ps) s = (Some r, s)"
  by (simp add: parseLastKnownRules_def)

text \<open>What an accepted update leaves in the stores that work.\<close>

lemma apply_store:
  assumes "dumpLastKnownRulesSnapshot (de_toIso E) r = Inr v" and "dy_redis s" and "io_redis_set io = None"
  shows "dy_store (apply_rules E io r s) = Some (de_stringify E v)"
  using assms
  by (auto simp: apply_rules_def Let_def persistLastKnownRules_def persist_file_def persist_redis_def
      split: option.splits prod.splits)

lemma apply_files:
  assumes "dumpLastKnownRulesSnapshot (de_toIso E) r = Inr v" and "de_cache_path E = Some path"
    and "io_write io = Written" and "io_rename io = None"
  shows "map_of (dy_files (apply_rules E io r s)) path = Some (de_stringify E v)"
  using assms
  by (auto simp: apply_rules_def Let_def persistLastKnownRules_def persist_file_def persist_redis_def
      writeLastKnownRulesFile_def split: option.splits prod.splits)

subsection \<open>The rules in force, abstractly\<close>

text \<open>
  One update seen on the rules in force alone: without an agent nothing changes; otherwise expired
  rules retire, and the agent's answer replaces what is left if the schema accepts it, it has not
  expired, and it is not a version of the same identity that is already in force or older.
\<close>

definition rules_after :: "dyn_env \<Rightarrow> bool \<Rightarrow> dyn_io \<Rightarrow> dynamic_rules option \<Rightarrow> dynamic_rules option" where
  "rules_after E agent io cur =
     (if \<not> agent then cur
      else
        (let kept = (case cur of None \<Rightarrow> None | Some c \<Rightarrow> if retired E (io_now io) c then None else Some c)
         in case io_rules io of
              Inl _ \<Rightarrow> kept
            | Inr None \<Rightarrow> kept
            | Inr (Some raw) \<Rightarrow>
                (case DynamicRulesSchema (de_datetime E) raw of
                   None \<Rightarrow> kept
                 | Some r \<Rightarrow>
                     if hasRuleExpired E (io_now io) r \<or>
                        (case kept of None \<Rightarrow> False | Some c \<Rightarrow> dr_id c = dr_id r \<and> dr_version r \<le> dr_version c)
                     then kept else Some r)))"

lemma update_current: "dy_current (updateRules E io s) = rules_after E (dy_agent s) io (dy_current s)"
proof -
  define s1 where "s1 = checkRuleExpiry E (io_now io) s"
  have step: "dy_current (case rejectIfAlreadyExpired E (io_now io) r s1 of
        (True, s2) \<Rightarrow> s2 | (False, s2) \<Rightarrow> if superseded r s2 then s2 else apply_rules E io r s2) =
      (if hasRuleExpired E (io_now io) r \<or> superseded r s1 then dy_current s1 else Some r)" for r
  proof -
    obtain b s2 where b: "rejectIfAlreadyExpired E (io_now io) r s1 = (b, s2)" by fastforce
    then show ?thesis using reject_frame [OF b] by (cases b) (simp_all add: superseded_def)
  qed
  have "dy_current s1 = (case dy_current s of None \<Rightarrow> None | Some c \<Rightarrow> if retired E (io_now io) c then None else Some c)"
    by (simp add: s1_def expiry_current)
  then show ?thesis
    by (simp add: updateRules_def rules_after_def Let_def step superseded_def flip: s1_def split: sum.split option.split)
qed

lemma update_agent: "dy_agent (updateRules E io s) = dy_agent s"
proof -
  have applied: "dy_agent (apply_rules E io r s2) = dy_agent s2" for r s2
    by (auto simp: apply_rules_def Let_def sendRuleEvent_def persistLastKnownRules_def persist_redis_def
        persist_file_def split: sum.splits option.splits prod.splits)
  have reject: "dy_agent (snd (rejectIfAlreadyExpired E (io_now io) r s1)) = dy_agent s1" for r s1
    by (simp add: rejectIfAlreadyExpired_def Let_def)
  have expiry: "dy_agent (checkRuleExpiry E (io_now io) s) = dy_agent s"
    by (auto simp: checkRuleExpiry_def split: option.splits)
  show ?thesis
    using expiry reject applied unfolding updateRules_def Let_def
    by (auto split: sum.splits option.splits prod.splits bool.splits) (metis snd_conv)+
qed

lemma rules_after_live: "rules_after E True io cur = Some r \<Longrightarrow> \<not> hasRuleExpired E (io_now io) r"
  using expired_retired [of E "io_now io"]
  by (auto simp: rules_after_def Let_def split: sum.splits option.splits if_splits)

lemma rules_after_version:
  "rules_after E agent io (Some c) = Some r \<Longrightarrow> dr_id r = dr_id c \<Longrightarrow>
   r = c \<or> dr_version c < dr_version r \<or> retired E (io_now io) c"
  by (auto simp: rules_after_def Let_def split: sum.splits option.splits if_splits)

text \<open>Rules of another identity replace those in force whatever the versions.\<close>

lemma other_identity_replaces:
  assumes "dy_agent s" and "dy_current s = Some c" and "io_rules io = Inr (Some raw)"
    and "DynamicRulesSchema (de_datetime E) raw = Some r" and "\<not> hasRuleExpired E (io_now io) r" and "dr_id c \<noteq> dr_id r"
  shows "dy_current (updateRules E io s) = Some r"
  using assms by (simp add: update_current rules_after_def Let_def)

subsection \<open>Properties\<close>

text \<open>
  C11: over any sequence of updates the rules in force are those of the abstract transition, whatever the
  stores, the log and the events do: no failure of the agent, the schema or the persistence changes
  which rules apply.
\<close>

theorem updates_refine_the_transition:
  "dy_current (fold (updateRules E) ios s) = fold (rules_after E (dy_agent s)) ios (dy_current s)"
  by (induction ios arbitrary: s) (simp_all add: update_current update_agent)

text \<open>
  After an update with an agent no rules past their expiry are in force, and rules that have not
  expired are replaced by rules of the same identity only for a later version.
\<close>

theorem no_expired_or_older_rules:
  assumes "dy_agent s" and "dy_current (updateRules E io s) = Some r"
  shows "\<not> hasRuleExpired E (io_now io) r \<and>
    (case dy_current s of
       None \<Rightarrow> True
     | Some c \<Rightarrow> dr_id r \<noteq> dr_id c \<or> r = c \<or> dr_version c < dr_version r \<or> retired E (io_now io) c)"
proof -
  have after: "rules_after E True io (dy_current s) = Some r" using assms by (simp add: update_current)
  then show ?thesis
    using rules_after_live [OF after] rules_after_version [of E True io _ r] by (cases "dy_current s") auto
qed

definition ex_dyn_env :: dyn_env where
  "ex_dyn_env = \<lparr>de_enabled = True, de_cache_path = Some (''/var'', ''rules''), de_datetime = (\<lambda>_. True), de_toIso = Some,
     de_msOf = (\<lambda>_. None), de_stringify = (\<lambda>_. ''payload''), de_parse = (\<lambda>_. None)\<rparr>"

definition ex_dyn_io :: "jvalue option \<Rightarrow> dyn_io" where
  "ex_dyn_io raw = \<lparr>io_now = 1000, io_rules = Inr raw, io_redis_get = None, io_redis_set = None, io_file_read = None,
     io_write = Written, io_rename = None, io_unlinks = True, io_uuid = ''u''\<rparr>"

lemma ex_update: "dy_current (updateRules ex_dyn_env (ex_dyn_io (Some ex_rules_json)) (init_dyn\<lparr>dy_agent := True\<rparr>)) = Some ex_rules"
proof -
  have "de_datetime ex_dyn_env = (\<lambda>_. True)" by (simp add: ex_dyn_env_def)
  then show ?thesis
    by (simp add: update_current rules_after_def ex_rules_parse ex_dyn_io_def init_dyn_def Let_def hasRuleExpired_def ex_rules_def)
qed

theorem no_expired_or_older_rules_witness:
  "\<not> hasRuleExpired ex_dyn_env 1000 ex_rules"
  using no_expired_or_older_rules [OF _ ex_update] by (simp add: ex_dyn_io_def init_dyn_def)

text \<open>
  Writing the cache file is atomic for its readers: after each system call the path reads the old
  content or the whole payload, never a part of it; a failed write leaves the old content, and a
  successful one leaves no temporary file.
\<close>

theorem cache_file_never_partial:
  "case writeLastKnownRulesFile uuid wr rename unlinks path payload fs of
     (None, trace) \<Rightarrow>
       list_all (\<lambda>f. map_of f path = map_of fs path \<or> map_of f path = Some payload) trace \<and>
       map_of (last trace) path = Some payload \<and> map_of (last trace) (temp_path uuid path) = None
   | (Some _, trace) \<Rightarrow> list_all (\<lambda>f. map_of f path = map_of fs path) trace"
  by (auto simp: writeLastKnownRulesFile_def Let_def split: write_outcome.splits option.splits)

text \<open>
  C37: a restart restores the rules: what an accepted update wrote to the cache file, a fresh manager with
  no Redis hydrates before its first poll, timestamps in normal form, if the schema takes these normal
  forms for datetimes (as it does for UTC times of a four-digit year) and the rules have not expired by then.
\<close>

theorem restart_restores_rules:
  assumes "rules_wf (de_datetime E) r"
    and "dumpLastKnownRulesSnapshot (de_toIso E) r = Inr v"
    and "de_cache_path E = Some path" and "io_write io = Written" and "io_rename io = None"
    and "de_parse E (de_stringify E v) = Some v"
    and "datetimes_ok (de_datetime E) (normalized (de_toIso E) r)"
    and "de_enabled E" and "io_file_read io' = None"
    and "\<not> hasRuleExpired E (io_now io') (normalized (de_toIso E) r)"
  shows "dy_current (initializeDynAgent E io' (init_dyn\<lparr>dy_files := dy_files (apply_rules E io r s)\<rparr>)) =
    Some (normalized (de_toIso E) r)"
proof -
  define u where "u = init_dyn\<lparr>dy_files := dy_files (apply_rules E io r s), dy_agent := True, dy_hydrated := True\<rparr>"
  have cached: "readFilePayload E io' u = (Some (de_stringify E v), u)"
    using apply_files [OF assms(2-5), of s] assms(3,9) by (simp add: readFilePayload_def u_def)
  have redis: "readRedisPayload io' u = (None, u)" by (simp add: readRedisPayload_def u_def init_dyn_def)
  have read: "parseSnapshot (de_datetime E) v = Inr (normalized (de_toIso E) r)"
    using snapshot_read [OF assms(1,2)] assms(7) by simp
  have "loadLastKnownRules E io' u = (Some (normalized (de_toIso E) r), u)"
    using first_live_hit [OF assms(6) read assms(10), where ps = "[]" and s = u]
    by (simp add: loadLastKnownRules_def redis cached)
  then show ?thesis
    using assms(8) by (simp add: initializeDynAgent_def Let_def init_dyn_def hydrateLastKnownRules_def u_def)
qed

definition ex_payload :: jvalue where
  "ex_payload = VObj [(''schema_version'', j_int SNAPSHOT_SCHEMA_VERSION),
     (''rules'', VObj (wire_of ex_rules ''2026-01-01T00:00:00Z'' None))]"

theorem restart_restores_rules_witness:
  "dy_current (initializeDynAgent (ex_dyn_env\<lparr>de_parse := (\<lambda>_. Some ex_payload)\<rparr>) (ex_dyn_io None)
     (init_dyn\<lparr>dy_files := dy_files (apply_rules (ex_dyn_env\<lparr>de_parse := (\<lambda>_. Some ex_payload)\<rparr>) (ex_dyn_io (Some ex_rules_json)) ex_rules init_dyn)\<rparr>)) =
   Some (ex_rules\<lparr>dr_timestamp := ''2026-01-01T00:00:00Z''\<rparr>)"
proof -
  define E where "E = ex_dyn_env\<lparr>de_parse := (\<lambda>_. Some ex_payload)\<rparr>"
  have ts: "normalizeTimestamp Some ''2026-01-01T00:00:00.000Z'' = Some ''2026-01-01T00:00:00Z''" by code_simp
  have env: "de_toIso E = Some" "de_datetime E = (\<lambda>_. True)" "de_cache_path E = Some (''/var'', ''rules'')" "de_enabled E"
    "de_parse E p = Some ex_payload" "de_msOf E x = None" for p x
    by (simp_all add: E_def ex_dyn_env_def)
  have io: "io_write (ex_dyn_io raw) = Written" "io_rename (ex_dyn_io raw) = None" "io_file_read (ex_dyn_io raw) = None" for raw
    by (simp_all add: ex_dyn_io_def)
  have norm: "normalized Some ex_rules = ex_rules\<lparr>dr_timestamp := ''2026-01-01T00:00:00Z''\<rparr>"
    by (simp add: normalized_def ts ex_rules_def)
  have "dy_current (initializeDynAgent E (ex_dyn_io None)
      (init_dyn\<lparr>dy_files := dy_files (apply_rules E (ex_dyn_io (Some ex_rules_json)) ex_rules init_dyn)\<rparr>)) =
    Some (normalized (de_toIso E) ex_rules)"
  proof (rule restart_restores_rules)
    show "rules_wf (de_datetime E) ex_rules" using schema_wf [OF ex_rules_parse] by (simp add: env)
    show "dumpLastKnownRulesSnapshot (de_toIso E) ex_rules = Inr ex_payload"
      by (simp add: env dumpLastKnownRulesSnapshot_def ts ex_rules_def ex_payload_def wire_of_def)
    show "\<not> hasRuleExpired E (io_now (ex_dyn_io None)) (normalized (de_toIso E) ex_rules)"
      by (simp add: env hasRuleExpired_def split: option.split)
  qed (simp_all add: env io datetimes_ok_def)
  then show ?thesis by (simp add: env norm flip: E_def)
qed

end
