(* ===== verification/Telemetry.thy ===== *)
theory Telemetry
  imports Behavior Check_Helpers Dynamic_Rules
begin

section \<open>Event enrichment and fan-out (core/events/enricher.ts, core/events/composite-handler.ts)\<close>

text \<open>
  The enricher adds the \<open>guard.*\<close> keys to an event's metadata; the composite handler filters, enriches
  and delivers to every sink. An event is a record of optional fields, as the enricher reads them;
  \<open>metadata\<close> absent means it ships untouched. What a sink does with a call is its outcome function.
\<close>

subsection \<open>EventEnricher\<close>

record enrichable =
  en_type :: "string option"
  en_ip :: "string option"
  en_country :: "string option"
  en_metadata :: "(string, meta) omap option"

definition THREAT_SCORE_MAP :: "(string \<times> int) list" where
  "THREAT_SCORE_MAP =
     [(''penetration_attempt'', 90), (''ip_banned'', 70), (''emergency_mode_activated'', 60), (''ip_blocked'', 50),
      (''behavioral_violation'', 50), (''cloud_blocked'', 50), (''country_blocked'', 50), (''decorator_violation'', 50),
      (''authentication_failed'', 50), (''emergency_mode_block'', 50), (''dynamic_rule_violation'', 50),
      (''pattern_detected'', 50), (''suspicious_request'', 50), (''dynamic_rule_applied'', 40), (''csp_violation'', 40),
      (''content_filtered'', 40), (''custom_request_check'', 40), (''decoding_error'', 40), (''redis_error'', 40),
      (''ip_ban_failed'', 40), (''detection_engine_callback_error'', 40), (''pattern_anomaly_timeout'', 40),
      (''pattern_anomaly_slow_execution'', 40), (''pattern_anomaly_statistical_anomaly'', 40), (''access_denied'', 30),
      (''user_agent_blocked'', 30), (''security_bypass'', 30), (''rate_limited'', 20), (''geo_lookup_failed'', 20),
      (''redis_connection'', 20), (''route_unresolved'', 20), (''ip_unbanned'', 10), (''https_enforced'', 10),
      (''dynamic_rule_updated'', 10), (''path_excluded'', 10), (''pattern_added'', 10), (''pattern_removed'', 10),
      (''rate_limit_script_reloaded'', 10), (''security_headers_applied'', 10)]"

definition DEFAULT_THREAT_SCORE :: int where "DEFAULT_THREAT_SCORE = 20"
definition BEHAVIOR_CORRELATION_WINDOW_SECONDS :: int where "BEHAVIOR_CORRELATION_WINDOW_SECONDS = 300"

definition threatScoreFor :: "string \<Rightarrow> int" where
  "threatScoreFor ty = (case map_of THREAT_SCORE_MAP ty of Some n \<Rightarrow> n | None \<Rightarrow> DEFAULT_THREAT_SCORE)"

text \<open>
  The context: identity from the configuration, the rule matcher and the behavior counter (absent, or
  functions that may throw), the hex digest, the clock in milliseconds.
\<close>

record enrich_env =
  ee_project :: "string option"
  ee_service :: string
  ee_deployment :: "string option"
  ee_matcher :: "(enrichable \<Rightarrow> exn + (string \<times> int) option) option"
  ee_counter :: "(string \<Rightarrow> rat \<Rightarrow> exn + nat) option"
  ee_sha256 :: "string \<Rightarrow> string"
  ee_now :: int

definition applyIdentity :: "enrich_env \<Rightarrow> (string, meta) omap \<Rightarrow> (string, meta) omap" where
  "applyIdentity G bag =
     (let b1 = (case truthy (ee_project G) of None \<Rightarrow> bag | Some p \<Rightarrow> AList.update ''guard.project_id'' (MStr p) bag);
          b2 = AList.update ''guard.service.name'' (MStr (ee_service G)) b1
      in case truthy (ee_deployment G) of
           None \<Rightarrow> b2 | Some d \<Rightarrow> AList.update ''guard.deployment.environment'' (MStr d) b2)"

definition applyThreatScore :: "enrichable \<Rightarrow> (string, meta) omap \<Rightarrow> (string, meta) omap" where
  "applyThreatScore ev bag =
     (case truthy (en_type ev) of None \<Rightarrow> bag | Some t \<Rightarrow> AList.update ''guard.threat_score'' (MNum (threatScoreFor t)) bag)"

definition applyRuleCorrelation ::
  "enrich_env \<Rightarrow> enrichable \<Rightarrow> (string, meta) omap \<Rightarrow> exn option \<times> (string, meta) omap"
where
  "applyRuleCorrelation G ev bag =
     (case ee_matcher G of
        None \<Rightarrow> (None, bag)
      | Some match \<Rightarrow>
          (case match ev of
             Inl e \<Rightarrow> (Some e, bag)
           | Inr None \<Rightarrow> (None, bag)
           | Inr (Some (i, v)) \<Rightarrow>
               (None, AList.update ''guard.rule.version'' (MNum v) (AList.update ''guard.rule.id'' (MStr i) bag))))"

definition correlation_key :: "enrich_env \<Rightarrow> string \<Rightarrow> string" where
  "correlation_key G ip =
     take 16 (ee_sha256 G (ip @ ''|'' @ ee_service G @ ''|'' @
       show_int (ee_now G div 1000 div BEHAVIOR_CORRELATION_WINDOW_SECONDS)))"

definition applyBehaviorCorrelation ::
  "enrich_env \<Rightarrow> enrichable \<Rightarrow> (string, meta) omap \<Rightarrow> exn option \<times> (string, meta) omap"
where
  "applyBehaviorCorrelation G ev bag =
     (case (ee_counter G, truthy (en_ip ev)) of
        (Some count, Some ip) \<Rightarrow>
          (case count ip (of_int BEHAVIOR_CORRELATION_WINDOW_SECONDS) of
             Inl e \<Rightarrow> (Some e, bag)
           | Inr n \<Rightarrow>
               (None, AList.update ''guard.behavior.correlation_key'' (MStr (correlation_key G ip))
                        (AList.update ''guard.behavior.recent_event_count'' (MNum (int n)) bag)))
      | _ \<Rightarrow> (None, bag))"

text \<open>The event after enrichment and the error that ended it, which is logged.\<close>

definition enrichEvent :: "enrich_env \<Rightarrow> enrichable \<Rightarrow> exn option \<times> enrichable" where
  "enrichEvent G ev =
     (case en_metadata ev of
        None \<Rightarrow> (None, ev)
      | Some bag \<Rightarrow>
          (case applyRuleCorrelation G ev (applyThreatScore ev (applyIdentity G bag)) of
             (Some e, b) \<Rightarrow> (Some e, ev\<lparr>en_metadata := Some b\<rparr>)
           | (None, b) \<Rightarrow>
               (case applyBehaviorCorrelation G ev b of (err, b') \<Rightarrow> (err, ev\<lparr>en_metadata := Some b'\<rparr>))))"

subsection \<open>CompositeAgentHandler\<close>

record sink =
  sk_name :: string
  sk_send :: "enrichable \<Rightarrow> exn option"
  sk_start :: "exn option"
  sk_rules :: "exn + jvalue option"
  sk_health :: "exn + bool"

record composite =
  cm_sinks :: "sink list"
  cm_muted :: "string list"
  cm_enricher :: "enrich_env option"
  cm_started :: bool
  cm_failed :: "string list"
  cm_log :: "string list"
  cm_calls :: "(string \<times> enrichable) list"

definition isDegraded :: "composite \<Rightarrow> bool" where
  "isDegraded c \<longleftrightarrow> cm_started c \<and> cm_failed c \<noteq> []"

definition cm_error :: "string \<Rightarrow> composite \<Rightarrow> composite" where
  "cm_error m c = c\<lparr>cm_log := cm_log c @ [m]\<rparr>"

definition deliver :: "enrichable \<Rightarrow> sink \<Rightarrow> composite \<Rightarrow> composite" where
  "deliver ev sk c =
     (let c1 = c\<lparr>cm_calls := cm_calls c @ [(sk_name sk, ev)]\<rparr>
      in case sk_send sk ev of None \<Rightarrow> c1 | Some e \<Rightarrow> cm_error (''handler.sendEvent failed: '' @ exn_str e) c1)"

definition composite_sendEvent :: "enrichable \<Rightarrow> composite \<Rightarrow> composite" where
  "composite_sendEvent ev c =
     (if (case en_type ev of None \<Rightarrow> False | Some t \<Rightarrow> \<not> isEventAllowed (cm_muted c) t) then c
      else
        (case cm_enricher c of
           None \<Rightarrow> fold (deliver ev) (cm_sinks c) c
         | Some G \<Rightarrow>
             (case enrichEvent G ev of
                (err, ev') \<Rightarrow>
                  fold (deliver ev') (cm_sinks c)
                    (case err of None \<Rightarrow> c
                     | Some e \<Rightarrow> cm_error (''event enrichment failed; event will be sent unenriched: '' @ exn_str e) c))))"

definition composite_start :: "composite \<Rightarrow> composite" where
  "composite_start c =
     (fold (\<lambda>sk c. case sk_start sk of
          None \<Rightarrow> c
        | Some e \<Rightarrow> cm_error (''Handler '' @ sk_name sk @ '' failed to start: '' @ exn_str e)
                      (c\<lparr>cm_failed := cm_failed c @ [sk_name sk]\<rparr>)) (cm_sinks c) (c\<lparr>cm_failed := []\<rparr>))
       \<lparr>cm_started := True\<rparr>"

fun first_rules :: "sink list \<Rightarrow> composite \<Rightarrow> jvalue option \<times> composite" where
  "first_rules [] c = (None, c)"
| "first_rules (sk # sks) c =
     (case sk_rules sk of
        Inl e \<Rightarrow> first_rules sks (cm_error (''handler.getDynamicRules failed: '' @ exn_str e) c)
      | Inr None \<Rightarrow> first_rules sks c
      | Inr (Some v) \<Rightarrow> (Some v, c))"

definition composite_getDynamicRules :: "composite \<Rightarrow> jvalue option \<times> composite" where
  "composite_getDynamicRules c = first_rules (cm_sinks c) c"

definition composite_healthCheck :: "composite \<Rightarrow> bool \<times> composite" where
  "composite_healthCheck c =
     (if cm_sinks c = [] then (True, c)
      else
        (list_all (\<lambda>sk. sk_health sk = Inr True) (cm_sinks c),
         fold (\<lambda>sk c. case sk_health sk of
             Inl e \<Rightarrow> cm_error (''handler.healthCheck failed: '' @ exn_str e) c | Inr _ \<Rightarrow> c) (cm_sinks c) c))"

subsection \<open>Facts\<close>

definition guard_keys :: "string list" where
  "guard_keys = [''guard.project_id'', ''guard.service.name'', ''guard.deployment.environment'', ''guard.threat_score'',
     ''guard.rule.id'', ''guard.rule.version'', ''guard.behavior.correlation_key'', ''guard.behavior.recent_event_count'']"

lemma identity_other: "k \<notin> set guard_keys \<Longrightarrow> map_of (applyIdentity G b) k = map_of b k"
  by (auto simp: applyIdentity_def Let_def guard_keys_def split: option.splits)

lemma score_other: "k \<notin> set guard_keys \<Longrightarrow> map_of (applyThreatScore ev b) k = map_of b k"
  by (auto simp: applyThreatScore_def guard_keys_def split: option.splits)

lemma rule_other: "k \<notin> set guard_keys \<Longrightarrow> map_of (snd (applyRuleCorrelation G ev b)) k = map_of b k"
  by (auto simp: applyRuleCorrelation_def guard_keys_def split: option.splits sum.splits)

lemma behavior_other: "k \<notin> set guard_keys \<Longrightarrow> map_of (snd (applyBehaviorCorrelation G ev b)) k = map_of b k"
  by (auto simp: applyBehaviorCorrelation_def guard_keys_def split: option.splits sum.splits)

lemma enrich_other:
  assumes "enrichEvent G ev = (err, ev')" and "k \<notin> set guard_keys" and "en_metadata ev = Some bag"
  shows "\<exists>b. en_metadata ev' = Some b \<and> map_of b k = map_of bag k"
proof -
  obtain e1 b1 where r: "applyRuleCorrelation G ev (applyThreatScore ev (applyIdentity G bag)) = (e1, b1)" by fastforce
  obtain e2 b2 where b: "applyBehaviorCorrelation G ev b1 = (e2, b2)" by fastforce
  have "map_of b1 k = map_of bag k"
    using rule_other [OF assms(2), of G ev "applyThreatScore ev (applyIdentity G bag)"] r
    by (simp add: score_other identity_other assms(2))
  moreover have "map_of b2 k = map_of b1 k" using behavior_other [OF assms(2), of G ev b1] b by simp
  ultimately show ?thesis
    using assms(1,3) r b by (auto simp: enrichEvent_def split: option.splits)
qed

lemma delivered: "cm_calls (fold (deliver ev) sks c) = cm_calls c @ map (\<lambda>sk. (sk_name sk, ev)) sks"
proof (induction sks arbitrary: c)
  case (Cons sk sks)
  have "cm_calls (deliver ev sk c) = cm_calls c @ [(sk_name sk, ev)]"
    by (simp add: deliver_def cm_error_def Let_def split: option.splits)
  with Cons show ?case by simp
qed simp

subsection \<open>Properties\<close>

text \<open>
  Enrichment with the rules in force and the behavior rows: every key the event had, other than the
  \<open>guard.*\<close> ones, stays; the score of a typed event is that of its type; the rule keys are those of
  the rules the event matches, and the recent count of a named client is the tracker's.
\<close>

theorem enrichment_exact:
  assumes "en_metadata ev = Some bag" and "\<forall>k \<in> set guard_keys. map_of bag k = None"
    and "ee_matcher G = Some (\<lambda>x. Inr (matchEvent (en_type x) (en_ip x) (en_country x) rules))"
    and "ee_counter G = Some (\<lambda>ip window. Inr (getRecentEventCount usage now ip window))"
  shows "\<exists>b. enrichEvent G ev = (None, ev\<lparr>en_metadata := Some b\<rparr>) \<and>
    (\<forall>k. k \<notin> set guard_keys \<longrightarrow> map_of b k = map_of bag k) \<and>
    map_of b ''guard.threat_score'' = map_option (\<lambda>t. MNum (threatScoreFor t)) (truthy (en_type ev)) \<and>
    map_of b ''guard.rule.id'' = map_option (\<lambda>m. MStr (fst m)) (matchEvent (en_type ev) (en_ip ev) (en_country ev) rules) \<and>
    map_of b ''guard.behavior.recent_event_count'' =
      map_option (\<lambda>ip. MNum (int (getRecentEventCount usage now ip 300))) (truthy (en_ip ev))"
proof -
  define b0 where "b0 = applyThreatScore ev (applyIdentity G bag)"
  obtain b1 where b1: "applyRuleCorrelation G ev b0 = (None, b1)"
    using assms(3) by (cases "matchEvent (en_type ev) (en_ip ev) (en_country ev) rules") (auto simp: applyRuleCorrelation_def)
  obtain b2 where b2: "applyBehaviorCorrelation G ev b1 = (None, b2)"
    using assms(4) by (cases "truthy (en_ip ev)") (auto simp: applyBehaviorCorrelation_def)
  have run: "enrichEvent G ev = (None, ev\<lparr>en_metadata := Some b2\<rparr>)"
    using assms(1) b1 b2 by (simp add: enrichEvent_def b0_def)
  have other: "map_of b2 k = map_of bag k" if "k \<notin> set guard_keys" for k
    using enrich_other [OF run that assms(1)] by simp
  have none: "map_of bag k = None" if "k \<in> set guard_keys" for k using assms(2) that by blast
  have score0: "map_of b0 ''guard.threat_score'' = map_option (\<lambda>t. MNum (threatScoreFor t)) (truthy (en_type ev))"
    "map_of b0 ''guard.rule.id'' = None" "map_of b0 ''guard.behavior.recent_event_count'' = None"
    using none by (auto simp: b0_def applyThreatScore_def applyIdentity_def guard_keys_def Let_def split: option.splits)
  have rule1: "map_of b1 ''guard.threat_score'' = map_of b0 ''guard.threat_score''"
    "map_of b1 ''guard.behavior.recent_event_count'' = None"
    "map_of b1 ''guard.rule.id'' = map_option (\<lambda>m. MStr (fst m)) (matchEvent (en_type ev) (en_ip ev) (en_country ev) rules)"
    using b1 assms(3) score0 by (auto simp: applyRuleCorrelation_def split: option.splits)
  have count2: "map_of b2 ''guard.threat_score'' = map_of b1 ''guard.threat_score''"
    "map_of b2 ''guard.rule.id'' = map_of b1 ''guard.rule.id''"
    "map_of b2 ''guard.behavior.recent_event_count'' =
      map_option (\<lambda>ip. MNum (int (getRecentEventCount usage now ip 300))) (truthy (en_ip ev))"
    using b2 assms(4) rule1
    by (auto simp: applyBehaviorCorrelation_def BEHAVIOR_CORRELATION_WINDOW_SECONDS_def split: option.splits)
  show ?thesis using run other score0 rule1 count2 by (intro exI [of _ b2]) simp
qed

definition ex_event :: enrichable where
  "ex_event = \<lparr>en_type = Some ''ip_banned'', en_ip = Some ''10.0.0.7'', en_country = None, en_metadata = Some []\<rparr>"

definition ex_context :: enrich_env where
  "ex_context = \<lparr>ee_project = None, ee_service = ''api'', ee_deployment = None,
     ee_matcher = Some (\<lambda>x. Inr (matchEvent (en_type x) (en_ip x) (en_country x) init_dyn)),
     ee_counter = Some (\<lambda>ip window. Inr (getRecentEventCount [] 0 ip window)),
     ee_sha256 = id, ee_now = 1000\<rparr>"

theorem enrichment_exact_witness:
  "\<exists>b. enrichEvent ex_context ex_event = (None, ex_event\<lparr>en_metadata := Some b\<rparr>) \<and>
     map_of b ''guard.threat_score'' = Some (MNum 70) \<and> map_of b ''guard.rule.id'' = None"
proof -
  have score: "threatScoreFor ''ip_banned'' = 70" by (simp add: threatScoreFor_def THREAT_SCORE_MAP_def)
  show ?thesis
    using enrichment_exact [of ex_event "[]" ex_context init_dyn "[]" 0]
    by (auto simp: ex_event_def ex_context_def truthy_def score matchEvent_def init_dyn_def)
qed

text \<open>
  An event that is not muted reaches every sink exactly once, in the order of the sinks and with the
  same enriched content, whichever sinks fail; a muted one reaches none.
\<close>

theorem every_sink_gets_the_event:
  "cm_calls (composite_sendEvent ev c) = cm_calls c @
     (if (case en_type ev of None \<Rightarrow> False | Some t \<Rightarrow> t \<in> set (cm_muted c)) then []
      else map (\<lambda>sk. (sk_name sk, case cm_enricher c of None \<Rightarrow> ev | Some G \<Rightarrow> snd (enrichEvent G ev))) (cm_sinks c))"
  by (auto simp: composite_sendEvent_def isEventAllowed_def delivered cm_error_def split: option.splits prod.splits)

text \<open>
  The rules the agents provide are those of the first sink that has any; sinks that fail or have none
  are passed over.
\<close>

theorem first_sink_with_rules_wins:
  "fst (composite_getDynamicRules c) =
     (case List.find (\<lambda>sk. case sk_rules sk of Inr (Some _) \<Rightarrow> True | _ \<Rightarrow> False) (cm_sinks c) of
        None \<Rightarrow> None
      | Some sk \<Rightarrow> (case sk_rules sk of Inr r \<Rightarrow> r | Inl _ \<Rightarrow> None))"
proof -
  have "fst (first_rules sks c) =
     (case List.find (\<lambda>sk. case sk_rules sk of Inr (Some _) \<Rightarrow> True | _ \<Rightarrow> False) sks of
        None \<Rightarrow> None
      | Some sk \<Rightarrow> (case sk_rules sk of Inr r \<Rightarrow> r | Inl _ \<Rightarrow> None))" for sks c
    by (induction sks c rule: first_rules.induct) (auto split: sum.splits option.splits)
  then show ?thesis by (simp add: composite_getDynamicRules_def)
qed

text \<open>A matcher that throws leaves the identity and score keys in an event reported as unenriched.\<close>

lemma failed_enrichment_is_partial:
  assumes "en_metadata ev = Some bag" and "ee_matcher G = Some (\<lambda>_. Inl e)"
  shows "\<exists>b. enrichEvent G ev = (Some e, ev\<lparr>en_metadata := Some b\<rparr>) \<and> map_of b ''guard.service.name'' = Some (MStr (ee_service G))"
  using assms
  by (auto simp: enrichEvent_def applyRuleCorrelation_def applyThreatScore_def applyIdentity_def Let_def split: option.splits)

end
