(* ===== verification/Js_Text.thy ===== *)
theory Js_Text
  imports Guard_Types Path_Matching "HOL-Library.Word"
begin

section \<open>JavaScript text: UTF-16 code units, code points, global replacement\<close>

text \<open>
  The detection engine works on arbitrary Unicode, so its texts are lists of UTF-16 code units
  (\<open>jtext\<close>). The language's own string functions that it uses are written out here; bit operations
  are those of the library on naturals, since no value the decoders build reaches \<open>2^31\<close>.
\<close>

unbundle bit_operations_syntax

type_synonym jtext = "nat list"

named_theorems bit_steps "decomposition of numbers into bit fields"

subsection \<open>Code points\<close>

definition utf16 :: "nat \<Rightarrow> jtext" where
  "utf16 cp = (if cp < 0x10000 then [cp]
     else [0xD800 + (cp - 0x10000) div 0x400, 0xDC00 + (cp - 0x10000) mod 0x400])"

text \<open>\<open>String.fromCodePoint\<close>.\<close>

definition invalid_code_point :: "nat \<Rightarrow> exn" where
  "invalid_code_point cp = OtherErr ''RangeError'' (''Invalid code point '' @ show_nat cp)"

definition fromCodePoint :: "nat \<Rightarrow> exn + jtext" where
  "fromCodePoint cp = (if 0x10FFFF < cp then Inl (invalid_code_point cp) else Inr (utf16 cp))"

definition is_high :: "nat \<Rightarrow> bool" where "is_high u \<longleftrightarrow> 0xD800 \<le> u \<and> u \<le> 0xDBFF"
definition is_low :: "nat \<Rightarrow> bool" where "is_low u \<longleftrightarrow> 0xDC00 \<le> u \<and> u \<le> 0xDFFF"

text \<open>\<open>for (const ch of text)\<close>: a lone surrogate is a code point of its own.\<close>

fun code_points :: "jtext \<Rightarrow> nat list" where
  "code_points [] = []"
| "code_points [u] = [u]"
| "code_points (u # v # s) =
     (if is_high u \<and> is_low v then (0x10000 + (u - 0xD800) * 0x400 + (v - 0xDC00)) # code_points s
      else u # code_points (v # s))"

lemma utf16_pair:
  "is_high u \<Longrightarrow> is_low v \<Longrightarrow> utf16 (0x10000 + (u - 0xD800) * 0x400 + (v - 0xDC00)) = [u, v]"
proof -
  assume "is_high u" "is_low v"
  then obtain a b where "u = 0xD800 + a" "v = 0xDC00 + b" "b < 0x400"
    by (auto simp: is_high_def is_low_def le_iff_add)
  then show ?thesis by (simp add: utf16_def)
qed

text \<open>Splitting into code points loses nothing.\<close>

lemma code_points_join: "\<forall>u \<in> set s. u < 0x10000 \<Longrightarrow> concat (map utf16 (code_points s)) = s"
proof (induction s rule: code_points.induct)
  case (3 u v s)
  then show ?case using utf16_pair [of u v] by (cases "is_high u \<and> is_low v") (auto simp: utf16_def [of u])
qed (auto simp: utf16_def)

lemma code_points_ascii: "\<forall>u \<in> set s. u < 0xD800 \<Longrightarrow> code_points s = s"
  by (induction s rule: code_points.induct) (auto simp: is_high_def)

lemma length_code_points: "length (code_points s) \<le> length s"
  by (induction s rule: code_points.induct) auto

lemma length_utf16: "length (utf16 cp) = (if cp < 0x10000 then 1 else 2)"
  by (simp add: utf16_def)

text \<open>\<open>text.slice(a, b)\<close> for bounds that are not negative.\<close>

definition slice :: "nat \<Rightarrow> nat \<Rightarrow> 'a list \<Rightarrow> 'a list" where
  "slice a b s = take (b - a) (drop a s)"

lemma slice_middle: "slice (length a) (length a + length b) (a @ b @ c) = b"
  by (simp add: slice_def)

lemma length_slice: "length (slice a b s) \<le> b - a"
  by (simp add: slice_def)

subsection \<open>Global replacement\<close>

text \<open>
  \<open>text.replace(/re/g, f)\<close>. The expression is a function of the code unit before the place and of
  the text from there: the length of the match, at least one, and its replacement.
\<close>

type_synonym matcher = "nat option \<Rightarrow> jtext \<Rightarrow> (nat \<times> jtext) option"

function replace_from :: "matcher \<Rightarrow> nat option \<Rightarrow> jtext \<Rightarrow> jtext" where
  "replace_from m p [] = []"
| "replace_from m p (c # s) =
     (case m p (c # s) of
        None \<Rightarrow> c # replace_from m (Some c) s
      | Some (n, out) \<Rightarrow> out @ replace_from m (Some (last (take (max 1 n) (c # s)))) (drop (n - 1) s))"
  by pat_completeness auto
termination by (relation "measure (\<lambda>(m, p, s). length s)") auto

lemma replace_none: "(\<And>p c t. m p (c # t) = None \<or> c \<notin> set s) \<Longrightarrow> replace_from m p s = s"
proof (induction s arbitrary: p)
  case (Cons c s)
  have "m p (c # s) = None" using Cons.prems [of p c s] by simp
  moreover have "replace_from m (Some c) s = s"
    by (rule Cons.IH) (metis Cons.prems list.set_intros(2))
  ultimately show ?case by simp
qed simp

lemma replace_length:
  assumes "\<And>p s n out. m p s = Some (n, out) \<Longrightarrow> 0 < n \<and> n \<le> length s \<and> length out \<le> n"
  shows "length (replace_from m p s) \<le> length s"
  using assms
proof (induction m p s rule: replace_from.induct)
  case (2 m p c s)
  show ?case
  proof (cases "m p (c # s)")
    case None
    then show ?thesis using 2 by simp
  next
    case (Some r)
    obtain n out where r: "r = (n, out)" by (cases r)
    with Some have "0 < n \<and> n \<le> Suc (length s) \<and> length out \<le> n" using 2(3) [of p "c # s" n out] by simp
    moreover have "length (replace_from m (Some (last (take (max 1 n) (c # s)))) (drop (n - 1) s)) \<le> length (drop (n - 1) s)"
      by (rule 2(2) [OF Some [unfolded r] refl 2(3)])
    ultimately show ?thesis using Some r by simp linarith
  qed
qed simp

subsection \<open>Bit fields\<close>

lemma field_or [bit_steps]: "x < 2 ^ n \<Longrightarrow> push_bit n a OR x = a * 2 ^ n + (x :: nat)"
proof -
  assume x: "x < 2 ^ n"
  have "\<not> bit x m" if "n \<le> m" for m
    using x that by (metis bit_take_bit_iff linorder_not_le take_bit_nat_eq_self)
  then have "push_bit n a + x = push_bit n a OR x"
    by (intro disjunctive_add_eq_or bit_eqI) (auto simp: bit_simps)
  then show ?thesis by (simp add: push_bit_eq_mult)
qed

lemma low_bits [bit_steps]: "(x :: nat) AND 0x3F = x mod 0x40" "(x :: nat) AND 0x1F = x mod 0x20"
  "(x :: nat) AND 0x0F = x mod 0x10" "(x :: nat) AND 0x07 = x mod 0x08"
proof -
  have "(x :: nat) AND (2 ^ n - 1) = x mod 2 ^ n" for n
    by (metis mask_eq_exp_minus_1 take_bit_eq_mask take_bit_eq_mod)
  from this [of 6] this [of 5] this [of 4] this [of 3]
  show "(x :: nat) AND 0x3F = x mod 0x40" "(x :: nat) AND 0x1F = x mod 0x20"
    "(x :: nat) AND 0x0F = x mod 0x10" "(x :: nat) AND 0x07 = x mod 0x08" by simp_all
qed

end
