(* ===== verification/Encoding_Decoders.thy ===== *)
theory Encoding_Decoders
  imports Js_Text
begin

section \<open>Escape and percent decoders (detection-engine/encoding-decoders.ts)\<close>

text \<open>
  The decoding stages the detection engine applies to a text before it matches patterns: backslash and
  \<open>%u\<close> escapes, overlong UTF-8, Python's \<open>unquote\<close> with invalid bytes ignored. Named and numeric
  HTML references are in \<open>Html_Entities\<close>.
\<close>

subsection \<open>Escapes\<close>

text \<open>The value of the first \<open>n\<close> characters, if they are hexadecimal digits.\<close>

definition hex_code :: "nat \<Rightarrow> jtext \<Rightarrow> nat option" where
  "hex_code n s =
     (if n \<le> length s \<and> list_all (\<lambda>c. hex_value c \<noteq> None) (take n s)
      then Some (foldl (\<lambda>a c. 16 * a + (case hex_value c of Some v \<Rightarrow> v | None \<Rightarrow> 0)) 0 (take n s))
      else None)"

definition escape_match :: "jtext list \<Rightarrow> nat \<Rightarrow> matcher" where
  "escape_match intros n p s =
     (case List.find (\<lambda>i. starts_with i s) intros of
        None \<Rightarrow> None
      | Some i \<Rightarrow> map_option (\<lambda>v. (length i + n, [v])) (hex_code n (drop (length i) s)))"

definition decodeHexEscapes :: "jtext \<Rightarrow> jtext" where
  "decodeHexEscapes s = replace_from (escape_match [[92, 120]] 2) None s"

definition decodeUnicodeEscapes :: "jtext \<Rightarrow> jtext" where
  "decodeUnicodeEscapes s = replace_from (escape_match [[92, 117]] 4) None s"

definition decodeLdapHexEscapes :: "jtext \<Rightarrow> jtext" where
  "decodeLdapHexEscapes s = replace_from (escape_match [[92]] 2) None s"

definition decodePercentUEscapes :: "jtext \<Rightarrow> jtext" where
  "decodePercentUEscapes s = replace_from (escape_match [[37, 117], [37, 85]] 4) None s"

subsection \<open>Overlong UTF-8\<close>

definition OVERLONG_LEAD_SPECS :: "(nat \<times> nat \<times> nat \<times> nat \<times> nat) list" where
  "OVERLONG_LEAD_SPECS =
     [(0xC0, 2, 0x1F, 0x80, 0xBF), (0xC1, 2, 0x1F, 0x80, 0xBF), (0xE0, 3, 0x0F, 0x80, 0x9F), (0xF0, 4, 0x07, 0x80, 0x8F)]"

text \<open>The sequence at the head of the bytes: its character and its length.\<close>

definition decodeOverlongSequenceAt :: "nat list \<Rightarrow> (jtext \<times> nat) option" where
  "decodeOverlongSequenceAt raw =
     (case raw of
        [] \<Rightarrow> None
      | lead # rest \<Rightarrow>
          (case map_of OVERLONG_LEAD_SPECS lead of
             None \<Rightarrow> None
           | Some (n, leadMask, lo, hi) \<Rightarrow>
               (if length raw < n then None
                else
                  (let continuations = take (n - 1) rest
                   in if hd continuations < lo \<or> hi < hd continuations then None
                      else if list_ex (\<lambda>b. b < 0x80 \<or> 0xBF < b) (tl continuations) then None
                      else Some (utf16 (foldl (\<lambda>cp b. push_bit 6 cp OR (b AND 0x3F)) (lead AND leadMask) continuations), n)))))"

function lenientOverlongUtf8Decode :: "nat list \<Rightarrow> jtext" where
  "lenientOverlongUtf8Decode [] = []"
| "lenientOverlongUtf8Decode (b # s) =
     (case decodeOverlongSequenceAt (b # s) of
        Some (c, n) \<Rightarrow> c @ lenientOverlongUtf8Decode (drop (n - 1) s)
      | None \<Rightarrow> if b < 0x80 then b # lenientOverlongUtf8Decode s else lenientOverlongUtf8Decode s)"
  by pat_completeness auto
termination by (relation "measure length") auto

text \<open>A maximal run of percent escapes stays as it is when its bytes are well-formed UTF-8.\<close>

definition overlong_match :: matcher where
  "overlong_match p s =
     (case percent_run s of
        (bs, _) \<Rightarrow>
          if bs = [] then None
          else Some (3 * length bs, if utf8 bs \<noteq> None then take (3 * length bs) s else lenientOverlongUtf8Decode bs))"

definition decodeOverlongUtf8PercentRuns :: "jtext \<Rightarrow> jtext" where
  "decodeOverlongUtf8PercentRuns s = replace_from overlong_match None s"

subsection \<open>UTF-8 with invalid bytes ignored\<close>

definition byte_at :: "nat list \<Rightarrow> nat \<Rightarrow> nat option" where
  "byte_at s i = (if i < length s then Some (s ! i) else None)"

text \<open>In arithmetic an absent byte counts as 0.\<close>

definition byte_num :: "nat list \<Rightarrow> nat \<Rightarrow> nat" where
  "byte_num s i = (case byte_at s i of None \<Rightarrow> 0 | Some b \<Rightarrow> b)"

definition isCont :: "nat option \<Rightarrow> bool" where
  "isCont b \<longleftrightarrow> (case b of None \<Rightarrow> False | Some x \<Rightarrow> 0x80 \<le> x \<and> x \<le> 0xBF)"

text \<open>The character at the head of the bytes: its code and how many bytes it takes.\<close>

definition utf8_char :: "nat list \<Rightarrow> (nat \<times> nat) option" where
  "utf8_char s =
     (let b0 = byte_num s 0; b1 = byte_num s 1; b2 = byte_num s 2; b3 = byte_num s 3;
          c1 = isCont (byte_at s 1); c2 = isCont (byte_at s 2); c3 = isCont (byte_at s 3);
          two = push_bit 6 (b0 AND 0x1F) OR b1;
          three = push_bit 12 (b0 AND 0x0F) OR push_bit 6 b1 OR (b2 AND 0x3F);
          four = push_bit 18 (b0 AND 0x07) OR push_bit 12 b1 OR push_bit 6 b2 OR (b3 AND 0x3F)
      in if b0 < 0x80 then Some (b0, 1)
         else if 0xC2 \<le> b0 \<and> b0 \<le> 0xDF \<and> c1 then Some (two, 2)
         else if b0 = 0xE0 \<and> c1 \<and> 0xA0 \<le> b1 \<and> c2 then Some (three, 3)
         else if ((0xE1 \<le> b0 \<and> b0 \<le> 0xEC) \<or> b0 = 0xEE \<or> b0 = 0xEF) \<and> c1 \<and> c2 then Some (three, 3)
         else if b0 = 0xED \<and> c1 \<and> b1 \<le> 0x9F \<and> c2 then Some (three, 3)
         else if b0 = 0xF0 \<and> c1 \<and> 0x90 \<le> b1 \<and> c2 \<and> c3 then Some (four, 4)
         else if (b0 = 0xF1 \<or> b0 = 0xF2 \<or> b0 = 0xF3) \<and> c1 \<and> c2 \<and> c3 then Some (four, 4)
         else if b0 = 0xF4 \<and> c1 \<and> b1 \<le> 0x8F \<and> c2 \<and> c3 then Some (four, 4)
         else None)"

text \<open>The error is that of \<open>String.fromCodePoint\<close>.\<close>

function utf8DecodeIgnore :: "nat list \<Rightarrow> exn + jtext" where
  "utf8DecodeIgnore [] = Inr []"
| "utf8DecodeIgnore (b # s) =
     (case utf8_char (b # s) of
        None \<Rightarrow> utf8DecodeIgnore s
      | Some (cp, n) \<Rightarrow>
          (case fromCodePoint cp of
             Inl e \<Rightarrow> Inl e
           | Inr c \<Rightarrow> map_sum id (append c) (utf8DecodeIgnore (drop (n - 1) s))))"
  by pat_completeness auto
termination by (relation "measure length") auto

subsection \<open>Python's unquote\<close>

definition piece_bytes :: "jtext \<Rightarrow> nat list" where
  "piece_bytes item =
     (case hex_code 2 item of
        Some v \<Rightarrow> v # drop 2 item
      | None \<Rightarrow> 37 # item)"

definition runToBytes :: "jtext \<Rightarrow> nat list" where
  "runToBytes run = hd (split_on 37 run) @ concat (map piece_bytes (tl (split_on 37 run)))"

definition printable_ascii :: "nat \<Rightarrow> bool" where
  "printable_ascii c \<longleftrightarrow> 0x20 \<le> c \<and> c \<le> 0x7E"

function unquote_runs :: "jtext \<Rightarrow> exn + jtext" where
  "unquote_runs [] = Inr []"
| "unquote_runs (c # s) =
     (if printable_ascii c then
        (case utf8DecodeIgnore (runToBytes (c # takeWhile printable_ascii s)) of
           Inl e \<Rightarrow> Inl e
         | Inr out \<Rightarrow> map_sum id (append out) (unquote_runs (dropWhile printable_ascii s)))
      else map_sum id (Cons c) (unquote_runs s))"
  by pat_completeness auto
termination by (relation "measure length") (auto intro: le_imp_less_Suc length_dropWhile_le)

definition pyUnquote :: "jtext \<Rightarrow> exn + jtext" where
  "pyUnquote content = (if 37 \<notin> set content then Inr content else unquote_runs content)"

subsection \<open>What the UTF-8 decoder computes\<close>

text \<open>
  The reference: the shortest well-formed sequence at the head of the bytes, by the fatal decoder, and
  the scalars of a byte list whose other bytes are ignored.
\<close>

definition utf8_first :: "nat list \<Rightarrow> (nat \<times> nat) option" where
  "utf8_first s =
     (case List.find (\<lambda>n. n \<le> length s \<and> (case utf8 (take n s) of Some [_] \<Rightarrow> True | _ \<Rightarrow> False)) [1, 2, 3, 4] of
        None \<Rightarrow> None
      | Some n \<Rightarrow> (case utf8 (take n s) of Some (cp # _) \<Rightarrow> Some (cp, n) | _ \<Rightarrow> None))"

function utf8_scalars :: "nat list \<Rightarrow> nat list" where
  "utf8_scalars [] = []"
| "utf8_scalars (b # s) =
     (case utf8_first (b # s) of
        None \<Rightarrow> utf8_scalars s
      | Some (cp, n) \<Rightarrow> cp # utf8_scalars (drop (n - 1) s))"
  by pat_completeness auto
termination by (relation "measure length") auto

text \<open>The marker bits the code leaves in the middle bytes of a sequence.\<close>

definition smeared :: "nat \<Rightarrow> nat" where
  "smeared cp = (if cp < 0x80 then cp else if cp < 0x800 then cp OR 0x80
                 else if cp < 0x10000 then cp OR 0x2000 else cp OR 0x82000)"

lemma mod_offset: "m dvd c \<Longrightarrow> k < m \<Longrightarrow> (c + k) mod m = (k :: nat)"
  by (auto simp: dvd_def)

lemma two_bytes:
  assumes "0xC0 \<le> a" "a < 0xE0" "0x80 \<le> b" "b \<le> 0xBF"
  shows "push_bit 6 (a AND 0x1F) OR b = ((a - 0xC0) * 64 + (b - 0x80)) OR (0x80 :: nat)"
proof -
  obtain k x where a: "a = 0xC0 + k" "k < 32" and b: "b = 0x80 + x" "x < 64"
    using assms by (auto simp: le_iff_add)
  have "push_bit 6 (a AND 0x1F) OR b = push_bit 6 k OR (0x80 OR x)"
    using a b field_or [of x 7 1] by (simp add: low_bits mod_offset)
  also have "\<dots> = (push_bit 6 k OR x) OR 0x80" by (simp only: or.assoc or.commute or.left_commute)
  also have "push_bit 6 k OR x = k * 64 + x" using b field_or [of x 6 k] by simp
  finally show ?thesis using a b by simp
qed

lemma three_bytes:
  assumes "0xE0 \<le> a" "a < 0xF0" "0x80 \<le> b" "b \<le> 0xBF" "0x80 \<le> c" "c \<le> 0xBF"
  shows "push_bit 12 (a AND 0x0F) OR push_bit 6 b OR (c AND 0x3F) =
    ((a - 0xE0) * 4096 + (b - 0x80) * 64 + (c - 0x80)) OR (0x2000 :: nat)"
proof -
  obtain k x y where a: "a = 0xE0 + k" "k < 16" and b: "b = 0x80 + x" "x < 64" and c: "c = 0x80 + y" "y < 64"
    using assms by (auto simp: le_iff_add)
  have "b = push_bit 7 1 OR x" using b field_or [of x 7 1] by simp
  then have "push_bit 6 b = 0x2000 OR push_bit 6 x" by simp
  moreover have "x * 64 + y = push_bit 6 x OR y" using c field_or [of y 6 x] by simp
  moreover have "k * 4096 + (x * 64 + y) = push_bit 12 k OR (x * 64 + y)"
    using b c field_or [of "x * 64 + y" 12 k] by simp
  moreover have "a mod 16 = k" "c mod 64 = y" using a c by (simp_all add: mod_offset)
  ultimately show ?thesis
    using a b c by (simp add: low_bits or.assoc or.commute or.left_commute add.assoc)
qed

lemma four_bytes:
  assumes "0xF0 \<le> a" "a < 0xF8" "0x80 \<le> b" "b \<le> 0xBF" "0x80 \<le> c" "c \<le> 0xBF" "0x80 \<le> d" "d \<le> 0xBF"
  shows "push_bit 18 (a AND 0x07) OR push_bit 12 b OR push_bit 6 c OR (d AND 0x3F) =
    ((a - 0xF0) * 262144 + (b - 0x80) * 4096 + (c - 0x80) * 64 + (d - 0x80)) OR (0x82000 :: nat)"
proof -
  obtain k x y z where a: "a = 0xF0 + k" "k < 8" and b: "b = 0x80 + x" "x < 64" and c: "c = 0x80 + y" "y < 64"
    and d: "d = 0x80 + z" "z < 64"
    using assms by (auto simp: le_iff_add)
  have "b = push_bit 7 1 OR x" using b field_or [of x 7 1] by simp
  then have "push_bit 12 b = 0x80000 OR push_bit 12 x" by simp
  moreover have "c = push_bit 7 1 OR y" using c field_or [of y 7 1] by simp
  then have "push_bit 6 c = 0x2000 OR push_bit 6 y" by simp
  moreover have "y * 64 + z = push_bit 6 y OR z" using d field_or [of z 6 y] by simp
  moreover have "x * 4096 + (y * 64 + z) = push_bit 12 x OR (y * 64 + z)"
    using c d field_or [of "y * 64 + z" 12 x] by simp
  moreover have "k * 262144 + (x * 4096 + (y * 64 + z)) = push_bit 18 k OR (x * 4096 + (y * 64 + z))"
    using b c d field_or [of "x * 4096 + (y * 64 + z)" 18 k] by simp
  moreover have "a mod 8 = k" "d mod 64 = z" using a d by (simp_all add: mod_offset)
  moreover have "0x82000 = (0x80000 OR 0x2000 :: nat)" by simp
  ultimately show ?thesis
    using a b c d by (simp add: low_bits or.assoc or.commute or.left_commute add.assoc)
qed

text \<open>Both functions on the shapes of bytes they distinguish.\<close>

lemma utf8_first_simps:
  "utf8_first [] = None"
  "a < 0x80 \<Longrightarrow> utf8_first (a # s) = Some (a, 1)"
  by (simp_all add: utf8_first_def)

lemma utf8_single: "utf8 [a] = (if a < 0x80 then Some [a] else None)"
  by simp

lemma utf8_pair:
  "0x80 \<le> a \<Longrightarrow> utf8 [a, b] =
     (if 0xC2 \<le> a \<and> a \<le> 0xDF \<and> cont b then Some [(a - 0xC0) * 64 + (b - 0x80)] else None)"
  by simp

lemma utf8_triple:
  "0x80 \<le> a \<Longrightarrow> \<not> (0xC2 \<le> a \<and> a \<le> 0xDF \<and> cont b) \<Longrightarrow> utf8 [a, b, c] =
     (if 0xE0 \<le> a \<and> a \<le> 0xEF \<and> (if a = 0xE0 then 0xA0 \<le> b \<and> b \<le> 0xBF
         else if a = 0xED then 0x80 \<le> b \<and> b \<le> 0x9F else cont b) \<and> cont c
      then Some [(a - 0xE0) * 4096 + (b - 0x80) * 64 + (c - 0x80)] else None)"
  by auto

lemma utf8_quad:
  "0xF0 \<le> a \<Longrightarrow> utf8 [a, b, c, d] =
     (if a \<le> 0xF4 \<and> (if a = 0xF0 then 0x90 \<le> b \<and> b \<le> 0xBF
         else if a = 0xF4 then 0x80 \<le> b \<and> b \<le> 0x8F else cont b) \<and> cont c \<and> cont d
      then Some [(a - 0xF0) * 262144 + (b - 0x80) * 4096 + (c - 0x80) * 64 + (d - 0x80)] else None)"
  by auto


text \<open>The values of well-formed sequences lie where their length says.\<close>

lemma smeared_two:
  assumes "0xC2 \<le> a" "a \<le> 0xDF" "cont b"
  shows "smeared ((a - 0xC0) * 64 + (b - 0x80)) = push_bit 6 (a AND 0x1F) OR b"
proof -
  have "0x80 \<le> (a - 0xC0) * 64 + (b - 0x80)" "(a - 0xC0) * 64 + (b - 0x80) < 0x800"
    using assms by (auto simp: cont_def)
  then show ?thesis using assms two_bytes [of a b] by (simp add: smeared_def cont_def)
qed

lemma smeared_three:
  assumes "0xE0 \<le> a" "a \<le> 0xEF" "cont b" "cont c" "a = 0xE0 \<longrightarrow> 0xA0 \<le> b"
  shows "smeared ((a - 0xE0) * 4096 + (b - 0x80) * 64 + (c - 0x80)) =
    push_bit 12 (a AND 0x0F) OR push_bit 6 b OR (c AND 0x3F)"
proof -
  have "0x800 \<le> (a - 0xE0) * 4096 + (b - 0x80) * 64 + (c - 0x80)"
    "(a - 0xE0) * 4096 + (b - 0x80) * 64 + (c - 0x80) < 0x10000"
    using assms by (auto simp: cont_def)
  then show ?thesis using assms three_bytes [of a b c] by (simp add: smeared_def cont_def)
qed

lemma smeared_four:
  assumes "0xF0 \<le> a" "a \<le> 0xF4" "cont b" "cont c" "cont d" "a = 0xF0 \<longrightarrow> 0x90 \<le> b"
  shows "smeared ((a - 0xF0) * 262144 + (b - 0x80) * 4096 + (c - 0x80) * 64 + (d - 0x80)) =
    push_bit 18 (a AND 0x07) OR push_bit 12 b OR push_bit 6 c OR (d AND 0x3F)"
proof -
  have "0x10000 \<le> (a - 0xF0) * 262144 + (b - 0x80) * 4096 + (c - 0x80) * 64 + (d - 0x80)"
    using assms by (auto simp: cont_def)
  then show ?thesis using assms four_bytes [of a b c d] by (simp add: smeared_def cont_def)
qed

lemma byte_simps:
  "byte_num (a # s) 0 = a" "byte_num (a # b # s) 1 = b" "byte_num (a # b # c # s) 2 = c"
  "byte_num (a # b # c # d # s) 3 = d"
  "isCont (byte_at (a # b # s) 1) = cont b" "isCont (byte_at (a # b # c # s) 2) = cont c"
  "isCont (byte_at (a # b # c # d # s) 3) = cont d"
  "length s \<le> i \<Longrightarrow> isCont (byte_at s i) = False"
  by (simp_all add: byte_num_def byte_at_def isCont_def cont_def)

lemmas byte_steps = byte_simps byte_simps(2,5) [unfolded One_nat_def]

text \<open>The decoder by the class of the lead byte.\<close>

lemma char_by_lead:
  defines "b1 s \<equiv> byte_num s 1"
  shows
  "0x80 \<le> a \<Longrightarrow> a \<le> 0xDF \<Longrightarrow> utf8_char (a # t) =
     (if 0xC2 \<le> a \<and> isCont (byte_at (a # t) 1) then Some (push_bit 6 (a AND 0x1F) OR b1 (a # t), 2) else None)"
  "0xE0 \<le> a \<Longrightarrow> a \<le> 0xEF \<Longrightarrow> utf8_char (a # t) =
     (if isCont (byte_at (a # t) 1) \<and> (a = 0xE0 \<longrightarrow> 0xA0 \<le> b1 (a # t)) \<and> (a = 0xED \<longrightarrow> b1 (a # t) \<le> 0x9F) \<and>
         isCont (byte_at (a # t) 2)
      then Some (push_bit 12 (a AND 0x0F) OR push_bit 6 (b1 (a # t)) OR (byte_num (a # t) 2 AND 0x3F), 3) else None)"
  "0xF0 \<le> a \<Longrightarrow> utf8_char (a # t) =
     (if a \<le> 0xF4 \<and> isCont (byte_at (a # t) 1) \<and> (a = 0xF0 \<longrightarrow> 0x90 \<le> b1 (a # t)) \<and> (a = 0xF4 \<longrightarrow> b1 (a # t) \<le> 0x8F) \<and>
         isCont (byte_at (a # t) 2) \<and> isCont (byte_at (a # t) 3)
      then Some (push_bit 18 (a AND 0x07) OR push_bit 12 (b1 (a # t)) OR push_bit 6 (byte_num (a # t) 2) OR
                   (byte_num (a # t) 3 AND 0x3F), 4) else None)"
proof -
  have b0: "byte_num (a # t) 0 = a" by (simp add: byte_simps)
  show "0x80 \<le> a \<Longrightarrow> a \<le> 0xDF \<Longrightarrow> utf8_char (a # t) =
     (if 0xC2 \<le> a \<and> isCont (byte_at (a # t) 1) then Some (push_bit 6 (a AND 0x1F) OR b1 (a # t), 2) else None)"
    by (simp add: utf8_char_def b0 Let_def b1_def)
  show "0xE0 \<le> a \<Longrightarrow> a \<le> 0xEF \<Longrightarrow> utf8_char (a # t) =
     (if isCont (byte_at (a # t) 1) \<and> (a = 0xE0 \<longrightarrow> 0xA0 \<le> b1 (a # t)) \<and> (a = 0xED \<longrightarrow> b1 (a # t) \<le> 0x9F) \<and>
         isCont (byte_at (a # t) 2)
      then Some (push_bit 12 (a AND 0x0F) OR push_bit 6 (b1 (a # t)) OR (byte_num (a # t) 2 AND 0x3F), 3) else None)"
    unfolding utf8_char_def Let_def b0 b1_def [symmetric]
    by (cases "a = 0xE0"; cases "a = 0xED"; cases "a = 0xEE"; cases "a = 0xEF") auto
  show "0xF0 \<le> a \<Longrightarrow> utf8_char (a # t) =
     (if a \<le> 0xF4 \<and> isCont (byte_at (a # t) 1) \<and> (a = 0xF0 \<longrightarrow> 0x90 \<le> b1 (a # t)) \<and> (a = 0xF4 \<longrightarrow> b1 (a # t) \<le> 0x8F) \<and>
         isCont (byte_at (a # t) 2) \<and> isCont (byte_at (a # t) 3)
      then Some (push_bit 18 (a AND 0x07) OR push_bit 12 (b1 (a # t)) OR push_bit 6 (byte_num (a # t) 2) OR
                   (byte_num (a # t) 3 AND 0x3F), 4) else None)"
    unfolding utf8_char_def Let_def b0 b1_def [symmetric]
    by (cases "a = 0xF0"; cases "a = 0xF1"; cases "a = 0xF2"; cases "a = 0xF3"; cases "a = 0xF4") auto
qed

lemma utf8_lengths:
  assumes "0x80 \<le> a"
  shows "utf8 [a, b] = None \<or> (\<exists>v. utf8 [a, b] = Some [v])"
    "utf8 [a, b] = None \<Longrightarrow> utf8 [a, b, c] = None \<or> (\<exists>v. utf8 [a, b, c] = Some [v])"
    "utf8 [a, b] = None \<Longrightarrow> utf8 [a, b, c] = None \<Longrightarrow>
       utf8 [a, b, c, d] = None \<or> (\<exists>v. utf8 [a, b, c, d] = Some [v])"
proof -
  show two: "utf8 [a, b] = None \<or> (\<exists>v. utf8 [a, b] = Some [v])"
    using utf8_pair [OF assms, of b] by (simp split: if_splits)
  show "utf8 [a, b, c] = None \<or> (\<exists>v. utf8 [a, b, c] = Some [v])" if "utf8 [a, b] = None"
    using utf8_triple [OF assms, of b c] utf8_pair [OF assms, of b] that by (simp del: utf8.simps split: if_splits)
  show "utf8 [a, b, c, d] = None \<or> (\<exists>v. utf8 [a, b, c, d] = Some [v])"
    if "utf8 [a, b] = None" "utf8 [a, b, c] = None"
  proof (cases "0xF0 \<le> a")
    case True
    then show ?thesis using utf8_quad [of a b c d] by (simp split: if_splits)
  next
    case False
    then have "utf8 [a, b, c, d] = None"
      using that assms by (auto split: if_splits)
    then show ?thesis ..
  qed
qed

lemma utf8_first_shapes:
  assumes "0x80 \<le> a"
  shows "utf8_first [a] = None"
  "utf8_first [a, b] = map_option (\<lambda>s. (hd s, 2)) (utf8 [a, b])"
  "utf8_first [a, b, c] =
     (case utf8 [a, b] of Some s \<Rightarrow> Some (hd s, 2) | None \<Rightarrow> map_option (\<lambda>s. (hd s, 3)) (utf8 [a, b, c]))"
  "utf8_first (a # b # c # d # s) =
     (case utf8 [a, b] of Some s \<Rightarrow> Some (hd s, 2) | None \<Rightarrow>
        (case utf8 [a, b, c] of Some s \<Rightarrow> Some (hd s, 3) | None \<Rightarrow> map_option (\<lambda>s. (hd s, 4)) (utf8 [a, b, c, d])))"
  using utf8_lengths(1) [OF assms, of b] utf8_lengths(2) [OF assms, of b c] utf8_lengths(3) [OF assms, of b c d] assms
  by (auto simp: utf8_first_def utf8_single simp del: utf8.simps)

lemma utf8_first_short: "0x80 \<le> a \<Longrightarrow> utf8_first [a] = None"
  "0x80 \<le> a \<Longrightarrow> 0xE0 \<le> a \<Longrightarrow> utf8_first [a, b] = None"
  "0x80 \<le> a \<Longrightarrow> 0xF0 \<le> a \<Longrightarrow> utf8_first [a, b, c] = None"
  by (simp_all add: utf8_first_shapes utf8_pair utf8_triple del: utf8.simps)

lemma utf8_first_two:
  assumes "0x80 \<le> a" "a \<le> 0xDF"
  shows "utf8_first (a # b # s) = (if 0xC2 \<le> a \<and> cont b then Some ((a - 0xC0) * 64 + (b - 0x80), 2) else None)"
proof -
  have long: "utf8 [a, b, c] = None" "utf8 [a, b, c, d] = None" if "\<not> (0xC2 \<le> a \<and> cont b)" for c d
    using assms that by auto
  show ?thesis
  proof (cases s)
    case (Cons c t)
    then show ?thesis
      using assms long by (cases t) (simp_all add: utf8_first_shapes utf8_pair del: utf8.simps)
  qed (use assms in \<open>simp add: utf8_first_shapes utf8_pair del: utf8.simps\<close>)
qed

lemma utf8_first_three:
  assumes "0xE0 \<le> a" "a \<le> 0xEF"
  shows "utf8_first (a # b # c # s) =
    (if cont b \<and> (a = 0xE0 \<longrightarrow> 0xA0 \<le> b) \<and> (a = 0xED \<longrightarrow> b \<le> 0x9F) \<and> cont c
     then Some ((a - 0xE0) * 4096 + (b - 0x80) * 64 + (c - 0x80), 3) else None)"
proof -
  have t: "utf8 [a, b, c] = (if cont b \<and> (a = 0xE0 \<longrightarrow> 0xA0 \<le> b) \<and> (a = 0xED \<longrightarrow> b \<le> 0x9F) \<and> cont c
     then Some [(a - 0xE0) * 4096 + (b - 0x80) * 64 + (c - 0x80)] else None)"
    using assms utf8_triple [of a b c] by (auto simp: cont_def simp del: utf8.simps)
  have p: "utf8 [a, b] = None" using assms by (simp add: utf8_pair del: utf8.simps)
  have long: "utf8 [a, b, c, d] = None" if "utf8 [a, b, c] = None" for d
    using assms that by (auto split: if_splits)
  show ?thesis
    using assms t p long by (cases s) (simp_all add: utf8_first_shapes del: utf8.simps)
qed

lemma utf8_first_four:
  assumes "0xF0 \<le> a"
  shows "utf8_first (a # b # c # d # s) =
    (if a \<le> 0xF4 \<and> cont b \<and> (a = 0xF0 \<longrightarrow> 0x90 \<le> b) \<and> (a = 0xF4 \<longrightarrow> b \<le> 0x8F) \<and> cont c \<and> cont d
     then Some ((a - 0xF0) * 262144 + (b - 0x80) * 4096 + (c - 0x80) * 64 + (d - 0x80), 4) else None)"
proof -
  have "utf8 [a, b] = None" "utf8 [a, b, c] = None"
    using assms by (simp_all add: utf8_pair utf8_triple del: utf8.simps)
  then show ?thesis
    using assms utf8_quad [OF assms, of b c d]
    by (auto simp: utf8_first_shapes cont_def simp del: utf8.simps)
qed

lemma utf8_char_first:
  assumes "s \<noteq> []"
  shows "utf8_char s = map_option (\<lambda>(cp, n). (smeared cp, n)) (utf8_first s)"
proof -
  obtain a t where s: "s = a # t" using assms by (cases s) auto
  consider "a < 0x80" | "0x80 \<le> a" "a \<le> 0xDF" | "0xE0 \<le> a" "a \<le> 0xEF" | "0xF0 \<le> a" by linarith
  then show ?thesis
  proof cases
    case 1
    then show ?thesis by (simp add: s utf8_first_simps utf8_char_def byte_simps smeared_def Let_def)
  next
    case 2
    then show ?thesis
      by (cases t) (simp_all add: s char_by_lead byte_steps utf8_first_short utf8_first_two smeared_two)
  next
    case 3
    consider "t = []" | b where "t = [b]" | b c u where "t = b # c # u" by (metis list.exhaust)
    then show ?thesis
      using 3 by cases (simp_all add: s char_by_lead byte_steps utf8_first_short utf8_first_three smeared_three)
  next
    case 4
    consider "t = []" | b where "t = [b]" | b c where "t = [b, c]" | b c d u where "t = b # c # d # u"
      by (metis list.exhaust)
    then show ?thesis
      using 4 by cases (simp_all add: s char_by_lead byte_steps utf8_first_short utf8_first_four smeared_four)
  qed
qed

lemma utf8_first_valid: "s \<noteq> [] \<Longrightarrow> utf8_first s = Some (cp, n) \<Longrightarrow> cp \<le> 0x10FFFF"
proof -
  assume s: "s \<noteq> []" and "utf8_first s = Some (cp, n)"
  then obtain m rest where "utf8 (take m s) = Some (cp # rest)"
    by (auto simp: utf8_first_def simp del: find.simps split: option.splits list.splits)
  moreover have "utf8 bs = Some cps \<Longrightarrow> \<forall>cp \<in> set cps. cp \<le> 0x10FFFF" for bs cps
  proof (induction bs arbitrary: cps rule: utf8.induct)
    case (2 a s)
    then show ?case
      by (auto simp: cont_def split: if_splits list.splits)
  qed simp
  ultimately show "cp \<le> 0x10FFFF" by fastforce
qed

lemma or_div: "(a OR b) div 2 ^ n = (a div 2 ^ n) OR (b div 2 ^ n :: nat)"
  by (metis drop_bit_eq_div drop_bit_or)

lemma smeared_range: "cp \<le> 0x10FFFF \<Longrightarrow> 0x10FFFF < smeared cp \<longleftrightarrow> 0x100000 \<le> cp"
proof -
  assume cp: "cp \<le> 0x10FFFF"
  show ?thesis
  proof (cases "0x100000 \<le> cp")
    case True
    then have "cp div 2 ^ 19 = 2" using cp by simp
    then have "(cp OR 0x82000) div 2 ^ 19 = 3" using or_div [of cp "0x82000" 19] by simp
    then show ?thesis using True by (simp add: smeared_def)
  next
    case False
    then have "(cp OR m) div 2 ^ 20 = 0" if "m < 2 ^ 20" for m
      using that or_div [of cp m 20] by simp
    then have "cp OR 0x80 < 2 ^ 20" "cp OR 0x2000 < 2 ^ 20" "cp OR 0x82000 < 2 ^ 20" by (simp_all add: div_eq_0_iff)
    then show ?thesis using False by (simp add: smeared_def)
  qed
qed

lemma utf8_scalars_valid: "cp \<in> set (utf8_scalars bs) \<Longrightarrow> cp \<le> 0x10FFFF"
proof (induction bs rule: utf8_scalars.induct)
  case (2 b s)
  then show ?case using utf8_first_valid [of "b # s"] by (auto split: option.splits)
qed simp

definition plane_sixteen :: "nat list \<Rightarrow> bool" where
  "plane_sixteen bs \<longleftrightarrow> list_ex (\<lambda>cp. 0x100000 \<le> cp) (utf8_scalars bs)"

lemma utf8_decode_ignore_spec:
  "case utf8DecodeIgnore bs of
     Inl e \<Rightarrow> plane_sixteen bs \<and> exn_name e = ''RangeError''
   | Inr out \<Rightarrow> \<not> plane_sixteen bs \<and> out = concat (map (\<lambda>cp. utf16 (smeared cp)) (utf8_scalars bs))"
proof (induction bs rule: utf8DecodeIgnore.induct)
  case (2 b s)
  show ?case
  proof (cases "utf8_first (b # s)")
    case None
    then have "utf8_char (b # s) = None" by (simp add: utf8_char_first)
    then show ?thesis using 2(1) None by (cases "utf8DecodeIgnore s") (simp_all add: plane_sixteen_def)
  next
    case (Some r)
    obtain cp n where r: "r = (cp, n)" by (cases r)
    then have ch: "utf8_char (b # s) = Some (smeared cp, n)" using Some by (simp add: utf8_char_first)
    have "0x10FFFF < smeared cp \<longleftrightarrow> 0x100000 \<le> cp"
      using utf8_first_valid [of "b # s"] Some r by (simp add: smeared_range)
    then show ?thesis
      using 2(2) [OF ch refl] ch Some r
      by (auto simp: plane_sixteen_def fromCodePoint_def invalid_code_point_def exn_name_def split: sum.splits)
  qed
qed (simp add: plane_sixteen_def)

subsection \<open>Escapes and runs\<close>

lemma utf8_first_lead: "utf8_first (b # s) = Some (cp, n) \<Longrightarrow> 0 < n \<and> n \<le> Suc (length s) \<and> (\<forall>x \<in> set (take (n - 1) s). cont x)"
proof -
  assume f: "utf8_first (b # s) = Some (cp, n)"
  consider "b < 0x80" | "0x80 \<le> b" "b \<le> 0xDF" | "0xE0 \<le> b" "b \<le> 0xEF" | "0xF0 \<le> b" by linarith
  then show ?thesis
  proof cases
    case 1
    then show ?thesis using f by (simp add: utf8_first_simps)
  next
    case 2
    then show ?thesis
      using f by (cases s) (auto simp: utf8_first_short utf8_first_two split: if_splits)
  next
    case 3
    consider "s = []" | c where "s = [c]" | c d u where "s = c # d # u" by (metis list.exhaust)
    then show ?thesis
      using 3 f by cases (auto simp: utf8_first_short utf8_first_three numeral_2_eq_2 split: if_splits)
  next
    case 4
    consider "s = []" | c where "s = [c]" | c d where "s = [c, d]" | c d e u where "s = c # d # e # u"
      by (metis list.exhaust)
    then show ?thesis
      using 4 f by cases (auto simp: utf8_first_short utf8_first_four numeral_3_eq_3 split: if_splits)
  qed
qed

text \<open>A byte that is no continuation byte starts afresh: the decoder splits there.\<close>

lemma utf8_first_extend:
  assumes "\<not> cont y"
  shows "utf8_first (x # xs @ y # ys) = utf8_first (x # xs)"
proof -
  consider "x < 0x80" | "0x80 \<le> x" "x \<le> 0xDF" | "0xE0 \<le> x" "x \<le> 0xEF" | "0xF0 \<le> x" by linarith
  then show ?thesis
  proof cases
    case 1
    then show ?thesis by (simp add: utf8_first_simps)
  next
    case 2
    then show ?thesis using assms by (cases xs) (auto simp: utf8_first_short utf8_first_two)
  next
    case 3
    consider "xs = []" | c where "xs = [c]" | c d u where "xs = c # d # u" by (metis list.exhaust)
    then show ?thesis
      using 3 assms by cases (cases ys, auto simp: utf8_first_short utf8_first_three)
  next
    case 4
    consider "xs = []" "ys = []" | u where "xs = []" "ys = [u]" | u v where "xs = []" "ys = [u, v]"
      | u v w t where "xs = []" "ys = u # v # w # t"
      | c where "xs = [c]" "ys = []" | c u where "xs = [c]" "ys = [u]" | c u v t where "xs = [c]" "ys = u # v # t"
      | c d where "xs = [c, d]" "ys = []" | c d u t where "xs = [c, d]" "ys = u # t" | c d e t where "xs = c # d # e # t"
      by (metis list.exhaust)
    then show ?thesis
      using 4 assms by cases (auto simp: utf8_first_short utf8_first_four)
  qed
qed

lemma utf8_scalars_append: "\<not> cont y \<Longrightarrow> utf8_scalars (xs @ y # ys) = utf8_scalars xs @ utf8_scalars (y # ys)"
proof (induction xs rule: utf8_scalars.induct)
  case (2 b s)
  have same: "utf8_first (b # s @ y # ys) = utf8_first (b # s)" by (rule utf8_first_extend [OF 2(3)])
  show ?case
  proof (cases "utf8_first (b # s)")
    case None
    then show ?thesis using 2(1) [OF None 2(3)] by (simp only: append_Cons utf8_scalars.simps same option.case)
  next
    case (Some r)
    obtain cp n where r: "r = (cp, n)" by (cases r)
    then have "n - 1 - length s = 0" using utf8_first_lead [of b s cp n] Some by auto
    then have "drop (n - 1) (s @ y # ys) = drop (n - 1) s @ y # ys" by (simp only: drop_append drop0)
    moreover have "utf8_scalars (drop (n - 1) s @ y # ys) = utf8_scalars (drop (n - 1) s) @ utf8_scalars (y # ys)"
      by (rule 2(2) [OF Some r [symmetric] 2(3)])
    ultimately show ?thesis
      by (simp only: append_Cons utf8_scalars.simps(2) same Some r option.case prod.case)
  qed
qed (simp only: append_Nil utf8_scalars.simps(1))

text \<open>Percent-encoding of bytes, in capitals.\<close>

definition hex_digit :: "nat \<Rightarrow> nat" where
  "hex_digit n = (if n < 10 then 48 + n else 55 + n)"

definition percent_encode :: "nat list \<Rightarrow> jtext" where
  "percent_encode bs = concat (map (\<lambda>b. [37, hex_digit (b div 16), hex_digit (b mod 16)]) bs)"

lemma hex_digit_value: "n < 16 \<Longrightarrow> hex_value (hex_digit n) = Some n"
  by (auto simp: hex_digit_def hex_value_def)

lemma hex_digit_other: "n < 16 \<Longrightarrow> hex_digit n \<noteq> 37 \<and> printable_ascii (hex_digit n)"
  by (auto simp: hex_digit_def printable_ascii_def)

lemma piece_bytes_encoded: "b < 256 \<Longrightarrow> piece_bytes (hex_digit (b div 16) # hex_digit (b mod 16) # s) = b # s"
  by (simp add: piece_bytes_def hex_code_def hex_digit_value)

lemma runToBytes_append: "runToBytes (x @ 37 # y) = runToBytes x @ concat (map piece_bytes (split_on 37 y))"
  by (cases "split_on 37 x") (simp_all add: runToBytes_def split_on_append)

lemma split_encoded:
  "b < 256 \<Longrightarrow> concat (map piece_bytes (split_on 37 (hex_digit (b div 16) # hex_digit (b mod 16) # s))) = b # runToBytes s"
proof -
  assume b: "b < 256"
  have d: "hex_digit (b div 16) \<noteq> 37" "hex_digit (b mod 16) \<noteq> 37" using b hex_digit_other by auto
  obtain x xs where "split_on 37 s = x # xs" by (cases "split_on 37 s") auto
  then show ?thesis using b d by (simp add: piece_bytes_encoded runToBytes_def)
qed

lemma runToBytes_percent: "runToBytes (37 # s) = concat (map piece_bytes (split_on 37 s))"
  by (simp add: runToBytes_def)

lemma percent_encode_Cons:
  "percent_encode (b # bs) = 37 # hex_digit (b div 16) # hex_digit (b mod 16) # percent_encode bs"
  by (simp add: percent_encode_def)

lemma runToBytes_encoded_start: "\<forall>b \<in> set bs. b < 256 \<Longrightarrow> runToBytes (percent_encode bs @ y) = bs @ runToBytes y"
proof (induction bs)
  case (Cons b bs)
  then show ?case
    by (simp add: percent_encode_Cons runToBytes_percent split_encoded del: split_on.simps)
qed (simp add: percent_encode_def)

lemma runToBytes_encoded:
  assumes "\<forall>b \<in> set bs. b < 256" and "bs \<noteq> []"
  shows "runToBytes (x @ percent_encode bs @ y) = runToBytes x @ bs @ runToBytes y"
proof -
  obtain c cs where bs: "bs = c # cs" using assms(2) by (cases bs) auto
  show ?thesis
    using assms(1) runToBytes_encoded_start [of cs y]
    by (simp add: bs percent_encode_Cons runToBytes_append split_encoded del: split_on.simps)
qed

lemma percent_encode_printable: "\<forall>b \<in> set bs. b < 256 \<Longrightarrow> \<forall>c \<in> set (percent_encode bs). printable_ascii c"
  by (auto simp: percent_encode_def printable_ascii_def hex_digit_other [unfolded printable_ascii_def])

text \<open>One run of printable characters that the byte decoder refuses makes the whole text fail.\<close>

lemma unquote_runs_fails:
  assumes "\<forall>c \<in> set run. printable_ascii c" and "run \<noteq> []"
    and "\<And>x y. \<exists>e. utf8DecodeIgnore (runToBytes (x @ run @ y)) = Inl e"
  shows "\<exists>e. unquote_runs (a @ run @ b) = Inl e"
proof (induction a rule: length_induct)
  case (1 a)
  obtain r rs where r: "run = r # rs" "printable_ascii r" using assms(1,2) by (cases run) auto
  show ?case
  proof (cases a)
    case Nil
    have "takeWhile printable_ascii (rs @ b) = rs @ takeWhile printable_ascii b"
      using assms(1) r by (simp add: takeWhile_append)
    then obtain e where "utf8DecodeIgnore (runToBytes (r # takeWhile printable_ascii (rs @ b))) = Inl e"
      using assms(3) [of "[]" "takeWhile printable_ascii b"] r by auto
    then show ?thesis using Nil r by simp
  next
    case (Cons c cs)
    show ?thesis
    proof (cases "printable_ascii c")
      case False
      obtain e where "unquote_runs (cs @ run @ b) = Inl e" using 1 [rule_format, of cs] Cons by auto
      then show ?thesis using False Cons by simp
    next
      case True
      show ?thesis
      proof (cases "\<forall>x \<in> set cs. printable_ascii x")
        case all: True
        have "takeWhile printable_ascii (cs @ run @ b) = cs @ run @ takeWhile printable_ascii b"
          using all assms(1) by (simp add: takeWhile_append)
        then obtain e where "utf8DecodeIgnore (runToBytes (c # takeWhile printable_ascii (cs @ run @ b))) = Inl e"
          using assms(3) [of "c # cs" "takeWhile printable_ascii b"] by auto
        then show ?thesis using True Cons by simp
      next
        case notall: False
        have "dropWhile printable_ascii (cs @ run @ b) = dropWhile printable_ascii cs @ run @ b"
          using notall by (auto simp: dropWhile_append)
        moreover obtain e where "unquote_runs (dropWhile printable_ascii cs @ run @ b) = Inl e"
          using 1 [rule_format, of "dropWhile printable_ascii cs"] Cons length_dropWhile_le [of printable_ascii cs] by auto
        ultimately show ?thesis using True Cons by (auto split: sum.splits)
      qed
    qed
  qed
qed

subsection \<open>Overlong forms\<close>

text \<open>An ASCII character in a form of \<open>n\<close> bytes, too long when \<open>n\<close> is not 1.\<close>

definition overlong :: "nat \<times> nat \<Rightarrow> nat list" where
  "overlong p =
     (case p of (c, n) \<Rightarrow>
        if n = 2 then [0xC0 + c div 64, 0x80 + c mod 64]
        else if n = 3 then [0xE0, 0x80 + c div 64, 0x80 + c mod 64]
        else if n = 4 then [0xF0, 0x80, 0x80 + c div 64, 0x80 + c mod 64]
        else [c])"

lemma overlong_value:
  assumes "(c :: nat) < 128"
  shows "push_bit 6 (c div 64) OR (c mod 64) = c" "(0x80 + c mod 64) mod 64 = c mod 64"
    "(0x80 + c div 64) mod 64 = c div 64"
proof -
  show "push_bit 6 (c div 64) OR (c mod 64) = c" using field_or [of "c mod 64" 6 "c div 64"] by simp
  show "(0x80 + c mod 64) mod 64 = c mod 64" by (rule mod_offset) simp_all
  show "(0x80 + c div 64) mod 64 = c div 64" using assms by (intro mod_offset) auto
qed

lemma overlong_sequence:
  assumes "c < 128"
  shows "decodeOverlongSequenceAt ((0xC0 + c div 64) # (0x80 + c mod 64) # s) = Some ([c], 2)"
    "decodeOverlongSequenceAt (0xE0 # (0x80 + c div 64) # (0x80 + c mod 64) # s) = Some ([c], 3)"
    "decodeOverlongSequenceAt (0xF0 # 0x80 # (0x80 + c div 64) # (0x80 + c mod 64) # s) = Some ([c], 4)"
proof -
  note v = overlong_value [OF assms]
  have c: "utf16 c = [c]" using assms by (simp add: utf16_def)
  have m: "c mod 64 < 64" "\<not> 63 < c mod 64" by simp_all
  have d: "c div 64 < 2" using assms by auto
  have lead: "(0xC0 + c div 64) mod 32 = c div 64"
    using d by (simp add: mod_offset)
  have spec: "map_of OVERLONG_LEAD_SPECS (0xC0 + c div 64) = Some (2, 0x1F, 0x80, 0xBF)"
    using d by (cases "c div 64 = 0") (simp_all add: OVERLONG_LEAD_SPECS_def less_2_cases_iff)
  show "decodeOverlongSequenceAt ((0xC0 + c div 64) # (0x80 + c mod 64) # s) = Some ([c], 2)"
    using m by (simp add: decodeOverlongSequenceAt_def spec lead low_bits v c Let_def)
  have "map_of OVERLONG_LEAD_SPECS 0xE0 = Some (3, 0x0F, 0x80, 0x9F)"
    "map_of OVERLONG_LEAD_SPECS 0xF0 = Some (4, 0x07, 0x80, 0x8F)" by (simp_all add: OVERLONG_LEAD_SPECS_def)
  then show "decodeOverlongSequenceAt (0xE0 # (0x80 + c div 64) # (0x80 + c mod 64) # s) = Some ([c], 3)"
    "decodeOverlongSequenceAt (0xF0 # 0x80 # (0x80 + c div 64) # (0x80 + c mod 64) # s) = Some ([c], 4)"
    using m d by (simp_all add: decodeOverlongSequenceAt_def low_bits v c numeral_3_eq_3 Let_def)
qed

lemma overlong_decoded:
  assumes "c < 128" and "n \<in> {1, 2, 3, 4}"
  shows "lenientOverlongUtf8Decode (overlong (c, n) @ s) = c # lenientOverlongUtf8Decode s"
proof -
  consider "n = 1" | "n = 2" | "n = 3" | "n = 4" using assms(2) by blast
  then show ?thesis
  proof cases
    case 1
    have "decodeOverlongSequenceAt (c # s) = None"
      using assms(1) by (simp add: decodeOverlongSequenceAt_def OVERLONG_LEAD_SPECS_def)
    then show ?thesis using 1 assms(1) by (simp add: overlong_def)
  qed (simp_all add: overlong_def overlong_sequence [OF assms(1)] numeral_3_eq_3)
qed

lemma overlong_not_utf8:
  assumes "c < 128"
  shows "utf8 (overlong (c, n) @ s) = (if n \<in> {2, 3, 4} then None else map_option (Cons c) (utf8 s))"
proof -
  have "c div 64 \<le> 1" using assms by auto
  then show ?thesis using assms by (auto simp: overlong_def cont_def split: list.splits)
qed

lemma percent_run_encoded: "\<forall>b \<in> set bs. b < 256 \<Longrightarrow> percent_run (percent_encode bs) = (bs, [])"
proof (induction bs)
  case (Cons b bs)
  then have "b div 16 < 16" by auto
  then have "hex_value (hex_digit (b div 16)) = Some (b div 16)" "hex_value (hex_digit (b mod 16)) = Some (b mod 16)"
    by (simp_all add: hex_digit_value)
  then show ?case using Cons by (simp add: percent_encode_Cons)
qed (simp add: percent_encode_def)

lemma length_percent_encode: "length (percent_encode bs) = 3 * length bs"
  by (induction bs) (simp_all add: percent_encode_def)

text \<open>A text that is one run of escapes.\<close>

lemma decode_one_run:
  assumes "\<forall>b \<in> set bs. b < 256" and "bs \<noteq> []"
  shows "decodeOverlongUtf8PercentRuns (percent_encode bs) =
    (if utf8 bs \<noteq> None then percent_encode bs else lenientOverlongUtf8Decode bs)"
proof -
  obtain b cs where bs: "bs = b # cs" using assms(2) by (cases bs) auto
  let ?rest = "hex_digit (b div 16) # hex_digit (b mod 16) # percent_encode cs"
  have e: "percent_encode bs = 37 # ?rest" by (simp add: bs percent_encode_Cons)
  have len: "length ?rest = 3 * length bs - 1" using length_percent_encode [of cs] by (simp add: bs)
  have "overlong_match None (37 # ?rest) =
      Some (3 * length bs, if utf8 bs \<noteq> None then percent_encode bs else lenientOverlongUtf8Decode bs)"
    using percent_run_encoded [OF assms(1)] assms(2) length_percent_encode [of bs]
    by (simp add: overlong_match_def flip: e)
  then show ?thesis
    unfolding decodeOverlongUtf8PercentRuns_def e using len by simp
qed

subsection \<open>Escape sequences\<close>

definition hex2 :: "nat \<Rightarrow> jtext" where
  "hex2 b = [hex_digit (b div 16), hex_digit (b mod 16)]"

definition hex4 :: "nat \<Rightarrow> jtext" where
  "hex4 u = hex2 (u div 256) @ hex2 (u mod 256)"

lemma hex_code_hex2: "b < 256 \<Longrightarrow> hex_code 2 (hex2 b @ s) = Some b"
proof -
  assume "b < 256"
  then have "b div 16 < 16" by auto
  then show ?thesis by (simp add: hex_code_def hex2_def hex_digit_value)
qed

lemma hex_code_hex4: "u < 65536 \<Longrightarrow> hex_code 4 (hex4 u @ s) = Some u"
proof -
  assume "u < 65536"
  then have "u div 256 div 16 < 16" "u div 256 mod 16 < 16" "u mod 256 div 16 < 16" "u mod 256 mod 16 < 16" by auto
  moreover have "16 * (16 * (u div 256) + u mod 256 div 16) + u mod 256 mod 16 = u" by auto
  moreover have "16 * (u div 256 div 16) + u div 256 mod 16 = u div 256" by auto
  ultimately show ?thesis by (simp add: hex_code_def hex4_def hex2_def hex_digit_value)
qed

lemma replace_escape:
  assumes "List.find (\<lambda>i. starts_with i (intro @ ds @ s)) intros = Some intro" and "intro \<noteq> []"
    and "hex_code n (ds @ s) = Some v" and "length ds = n"
  shows "replace_from (escape_match intros n) p (intro @ ds @ s) =
    v # replace_from (escape_match intros n) (Some (last (intro @ ds))) s"
proof -
  obtain c cs where i: "intro = c # cs" using assms(2) by (cases intro) auto
  have "escape_match intros n p (c # cs @ ds @ s) = Some (length intro + n, [v])"
    using assms(1,3) by (simp add: escape_match_def i)
  then show ?thesis using assms(4) by (cases ds) (auto simp: i take_Cons' nth_append)
qed

lemma replace_escapes:
  assumes "\<And>v s. v \<in> set vs \<Longrightarrow> hex_code n (enc v @ s) = Some v" and "\<And>v. length (enc v) = n"
    and "\<And>s. List.find (\<lambda>i. starts_with i (intro @ s)) intros = Some intro" and "intro \<noteq> []"
  shows "replace_from (escape_match intros n) p (concat (map (\<lambda>v. intro @ enc v) vs)) = vs"
  using assms(1)
proof (induction vs arbitrary: p)
  case (Cons v vs)
  have "hex_code n (enc v @ concat (map (\<lambda>v. intro @ enc v) vs)) = Some v" using Cons.prems by simp
  from replace_escape [OF assms(3) assms(4) this assms(2)] show ?case
    using Cons by simp
qed simp

lemma escape_lengths: "length (hex2 b) = 2" "length (hex4 b) = 4"
  by (simp_all add: hex2_def hex4_def)

subsection \<open>Properties\<close>

text \<open>
  C9: On every byte sequence \<open>utf8DecodeIgnore\<close> finds exactly the well-formed characters and drops every
  other byte; what it writes for a character is the character with the marker bits of the middle
  bytes left in, so that a text is decoded right only if its characters hold those bits anyway, and
  a character of plane sixteen makes it throw a \<open>RangeError\<close>.
\<close>

theorem utf8_decode_exact:
  "case utf8DecodeIgnore bs of
     Inl e \<Rightarrow> plane_sixteen bs \<and> exn_name e = ''RangeError''
   | Inr out \<Rightarrow> \<not> plane_sixteen bs \<and> out = concat (map (\<lambda>cp. utf16 (smeared cp)) (utf8_scalars bs))"
  by (rule utf8_decode_ignore_spec)

text \<open>The UTF-8 form of a code point beyond the basic plane.\<close>

definition utf8_four :: "nat \<Rightarrow> nat list" where
  "utf8_four cp = [0xF0 + cp div 262144, 0x80 + cp div 4096 mod 64, 0x80 + cp div 64 mod 64, 0x80 + cp mod 64]"

lemma utf8_four_bytes:
  assumes "0x100000 \<le> cp" and "cp \<le> 0x10FFFF"
  obtains b1 b2 b3 where "utf8_four cp = [0xF4, b1, b2, b3]" "cont b1" "b1 \<le> 0x8F" "cont b2" "cont b3"
proof
  have "cp div 262144 = 4" using assms by simp
  then show "utf8_four cp = [0xF4, 0x80 + cp div 4096 mod 64, 0x80 + cp div 64 mod 64, 0x80 + cp mod 64]"
    by (simp add: utf8_four_def)
  have top: "n mod 64 \<le> 15" if "256 \<le> n" "n \<le> 271" for n :: nat
    using that by presburger
  show "0x80 + cp div 4096 mod 64 \<le> 0x8F" using assms top [of "cp div 4096"] by simp
  show "cont (0x80 + cp div 4096 mod 64)" "cont (0x80 + cp div 64 mod 64)" "cont (0x80 + cp mod 64)"
    using mod_less_divisor [of 64 "cp div 4096"] mod_less_divisor [of 64 "cp div 64"] mod_less_divisor [of 64 cp]
    by (simp_all add: cont_def)
qed

text \<open>
  A text that holds the percent-encoded UTF-8 form of any code point of plane sixteen (U+100000 to
  U+10FFFF, in upper-case hexadecimal digits) anywhere cannot be percent-decoded at all:
  \<open>pyUnquote\<close> throws.
\<close>

theorem plane_sixteen_escape_defeats_unquote:
  assumes "0x100000 \<le> cp" and "cp \<le> 0x10FFFF"
  shows "\<exists>e. pyUnquote (a @ percent_encode (utf8_four cp) @ b) = Inl e"
proof -
  obtain b1 b2 b3 where bs: "utf8_four cp = [0xF4, b1, b2, b3]"
    and r: "cont b1" "b1 \<le> 0x8F" "cont b2" "cont b3"
    using utf8_four_bytes [OF assms] .
  have bytes: "\<forall>b \<in> set (utf8_four cp). b < 256" using r by (auto simp: bs cont_def)
  have "\<exists>e. utf8DecodeIgnore (runToBytes (x @ percent_encode (utf8_four cp) @ y)) = Inl e" for x y
  proof -
    let ?bs = "runToBytes x @ 0xF4 # [b1, b2, b3] @ runToBytes y"
    have "\<exists>c. 0x100000 \<le> c \<and> utf8_first (0xF4 # b1 # b2 # b3 # runToBytes y) = Some (c, 4)"
      using r by (simp add: utf8_first_four)
    then obtain c where "0x100000 \<le> c" "c \<in> set (utf8_scalars ?bs)"
      using utf8_scalars_append [of "0xF4" "runToBytes x" "[b1, b2, b3] @ runToBytes y"] by (auto simp: cont_def)
    then have "plane_sixteen ?bs" by (auto simp: plane_sixteen_def list_ex_iff)
    then show ?thesis
      using utf8_decode_ignore_spec [of ?bs] runToBytes_encoded [OF bytes, of x y]
      by (auto simp: bs split: sum.splits)
  qed
  then have "\<exists>e. unquote_runs (a @ percent_encode (utf8_four cp) @ b) = Inl e"
    using bytes by (intro unquote_runs_fails percent_encode_printable) (auto simp: bs percent_encode_def)
  moreover have "37 \<in> set (percent_encode (utf8_four cp))" by (simp add: bs percent_encode_def)
  ultimately show ?thesis by (simp add: pyUnquote_def)
qed

theorem plane_sixteen_escape_defeats_unquote_witness:
  "\<exists>e. pyUnquote (text_of ''q='' @ percent_encode [0xF4, 0x8F, 0xBF, 0xBD] @ text_of ''&a=%3Cscript%3E'') = Inl e"
  using plane_sixteen_escape_defeats_unquote [of "0x10FFFD" "text_of ''q=''" "text_of ''&a=%3Cscript%3E''"]
  by (simp add: utf8_four_def)

text \<open>
  Percent-encoding every character of an ASCII text and decoding it with \<open>pyUnquote\<close> gives
  the text back.
\<close>

theorem ascii_percent_roundtrip:
  assumes "\<forall>b \<in> set bs. b < 128"
  shows "pyUnquote (percent_encode bs) = Inr bs"
proof -
  have "utf8DecodeIgnore bs = Inr bs"
    using assms
  proof (induction bs)
    case (Cons b bs)
    then have "utf8_char (b # bs) = Some (b, 1)"
      by (simp add: utf8_char_first utf8_first_simps smeared_def)
    then show ?case using Cons by (simp add: fromCodePoint_def utf16_def)
  qed simp
  moreover have "unquote_runs (percent_encode bs) = Inr bs" if ne: "bs \<noteq> []" and dec: "utf8DecodeIgnore bs = Inr bs"
  proof -
    have bytes: "\<forall>b \<in> set bs. b < 256" using assms by auto
    obtain r rs where r: "percent_encode bs = r # rs" using ne by (cases bs) (auto simp: percent_encode_Cons)
    then have p: "printable_ascii r" "\<forall>c \<in> set rs. printable_ascii c"
      using percent_encode_printable [OF bytes] by auto
    then have runs: "takeWhile printable_ascii rs = rs" "dropWhile printable_ascii rs = []"
      by simp_all
    have bytes:  "runToBytes (r # rs) = bs"
      using runToBytes_encoded_start [OF bytes, of "[]"] r by (simp add: runToBytes_def)
    show ?thesis by (simp add: r p(1) runs bytes dec)
  qed
  ultimately show ?thesis by (cases bs) (auto simp: pyUnquote_def percent_encode_def)
qed

theorem ascii_percent_roundtrip_witness: "pyUnquote (percent_encode [60, 97, 62]) = Inr [60, 97, 62]"
  by (rule ascii_percent_roundtrip) simp

text \<open>
  C29: An ASCII text whose characters are percent-encoded in any mixture of the one-byte and the overlong
  forms is recovered by the overlong stage; without an overlong form the text is left alone.
\<close>

theorem overlong_forms_recovered:
  assumes "\<forall>(c, n) \<in> set cs. c < 128 \<and> n \<in> {1, 2, 3, 4}"
  shows "decodeOverlongUtf8PercentRuns (percent_encode (concat (map overlong cs))) =
    (if \<exists>(c, n) \<in> set cs. n \<noteq> 1 then map fst cs else percent_encode (map fst cs))"
proof -
  let ?bs = "concat (map overlong cs)"
  have decoded: "lenientOverlongUtf8Decode ?bs = map fst cs"
    using assms by (induction cs) (simp_all add: overlong_decoded split: prod.splits)
  have valid: "utf8 ?bs \<noteq> None \<longleftrightarrow> \<not> (\<exists>(c, n) \<in> set cs. n \<noteq> 1)"
    using assms
  proof (induction cs)
    case (Cons p cs)
    then show ?case by (cases p) (auto simp: overlong_not_utf8 simp del: utf8.simps)
  qed simp
  have plain: "?bs = map fst cs" if "\<not> (\<exists>(c, n) \<in> set cs. n \<noteq> 1)"
    using that by (induction cs) (auto simp: overlong_def)
  have bytes: "\<forall>b \<in> set ?bs. b < 256"
  proof -
    have "\<forall>b \<in> set (overlong (c, n)). b < 256" if "c < 128" for c n
      using that by (simp add: overlong_def) (use that in auto)
    then show ?thesis using assms by auto
  qed
  show ?thesis
  proof (cases "cs = []")
    case False
    moreover have "overlong p \<noteq> []" for p by (cases p) (simp add: overlong_def)
    ultimately have "?bs \<noteq> []" by (cases cs) simp_all
    then show ?thesis using decode_one_run [OF bytes] valid decoded plain by auto
  qed (simp add: percent_encode_def decodeOverlongUtf8PercentRuns_def)
qed

theorem overlong_forms_recovered_witness:
  "decodeOverlongUtf8PercentRuns (percent_encode (concat (map overlong [(46, 2), (47, 3), (46, 1)]))) = [46, 47, 46]"
  by (rule trans [OF overlong_forms_recovered]) simp_all

text \<open>
  A text of code units written out in backslash, LDAP or \<open>%u\<close> escapes is recovered by the stage of
  its notation.
\<close>

theorem escape_notations_roundtrip:
  assumes "\<forall>b \<in> set bs. b < 256" and "\<forall>u \<in> set us. u < 65536"
  shows "decodeHexEscapes (concat (map (\<lambda>b. [92, 120] @ hex2 b) bs)) = bs \<and>
    decodeLdapHexEscapes (concat (map (\<lambda>b. [92] @ hex2 b) bs)) = bs \<and>
    decodeUnicodeEscapes (concat (map (\<lambda>u. [92, 117] @ hex4 u) us)) = us \<and>
    decodePercentUEscapes (concat (map (\<lambda>u. [37, 117] @ hex4 u) us)) = us"
  unfolding decodeHexEscapes_def decodeLdapHexEscapes_def decodeUnicodeEscapes_def decodePercentUEscapes_def
  using assms by (intro conjI replace_escapes) (auto simp: hex_code_hex2 hex_code_hex4 escape_lengths)

theorem escape_notations_roundtrip_witness:
  "decodeHexEscapes (concat (map (\<lambda>b. [92, 120] @ hex2 b) [60, 255])) = [60, 255] \<and>
   decodeUnicodeEscapes (concat (map (\<lambda>u. [92, 117] @ hex4 u) [65308])) = [65308]"
  using escape_notations_roundtrip [of "[60, 255]" "[65308]"] by simp

end
