(* ===== verification/Base64_Decode.thy ===== *)
theory Base64_Decode
  imports Encoding_Decoders
begin

section \<open>Base64 candidates (detection-engine/base64-decode.ts)\<close>

text \<open>
  Base64 runs of a text are decoded when the bytes are mostly printable text, possibly through one
  bounded gunzip. The decompression stream of the platform is an argument: for the compressed bytes
  the events the reader sees. The regular expressions run in Unicode mode, so texts are split into
  code points first.
\<close>

definition MIN_RUN_LENGTH :: nat where "MIN_RUN_LENGTH = 12"
definition MAX_GUNZIP_OUTPUT_BYTES :: nat where "MAX_GUNZIP_OUTPUT_BYTES = 8192"
definition MAX_GUNZIP_ATTEMPTS_PER_PASS :: nat where "MAX_GUNZIP_ATTEMPTS_PER_PASS = 8"
definition PRINTABLE_RATIO_THRESHOLD :: rat where "PRINTABLE_RATIO_THRESHOLD = 1 / 2"
definition FALLBACK_PRINTABLE_RATIO_THRESHOLD :: rat where "FALLBACK_PRINTABLE_RATIO_THRESHOLD = 19 / 20"
definition MAX_REPLACEMENT_CHAR_RATIO :: rat where "MAX_REPLACEMENT_CHAR_RATIO = 1 / 5"

subsection \<open>Character classes\<close>

definition is_data :: "nat \<Rightarrow> bool" where
  "is_data b \<longleftrightarrow> (0x41 \<le> b \<and> b \<le> 0x5A) \<or> (0x61 \<le> b \<and> b \<le> 0x7A) \<or> (0x30 \<le> b \<and> b \<le> 0x39) \<or>
     b = 0x2B \<or> b = 0x2F \<or> b = 0x2D \<or> b = 0x5F"

definition is_separator :: "nat \<Rightarrow> bool" where
  "is_separator b \<longleftrightarrow> (b \<le> 0x7F \<and> \<not> is_data b) \<or> (0xDC80 \<le> b \<and> b \<le> 0xDCFF)"

definition is_widened_marker :: "nat \<Rightarrow> bool" where
  "is_widened_marker b \<longleftrightarrow>
     b \<le> 0x7F \<and> ((\<not> (is_data b \<and> b \<noteq> 0x2D) \<and> b \<noteq> 0x0D \<and> b \<noteq> 0x0A \<and> b \<noteq> 0x3D) \<or> b = 0x2D \<or> b = 0x5F)"

definition isHexLiteral :: "nat list \<Rightarrow> bool" where
  "isHexLiteral t \<longleftrightarrow> (starts_with [48, 120] t \<or> starts_with [48, 88] t) \<and> drop 2 t \<noteq> [] \<and>
     list_all (\<lambda>c. hex_value c \<noteq> None) (drop 2 t)"

definition isPrintableCodePoint :: "nat \<Rightarrow> bool" where
  "isPrintableCodePoint cp \<longleftrightarrow>
     (if cp < 0x20 \<or> cp = 0x7F then False
      else if 0x80 \<le> cp \<and> cp \<le> 0x9F then False
      else if cp = 0xA0 then False
      else if cp = 0xAD then False
      else if 0x2000 \<le> cp \<and> cp \<le> 0x200F then False
      else if 0x2028 \<le> cp \<and> cp \<le> 0x202F then False
      else if cp = 0x205F \<or> cp = 0x3000 \<or> cp = 0x1680 then False
      else if 0x2060 \<le> cp \<and> cp \<le> 0x206F then False
      else if cp = 0xFEFF then False
      else if 0xFFF9 \<le> cp \<and> cp \<le> 0xFFFB then False
      else if 0xD800 \<le> cp \<and> cp \<le> 0xDFFF then False
      else if 0xE000 \<le> cp \<and> cp \<le> 0xF8FF then False
      else True)"

text \<open>The share of the code points of a text with a property.\<close>

definition ratio_of :: "(nat \<Rightarrow> bool) \<Rightarrow> jtext \<Rightarrow> rat" where
  "ratio_of P s = (if s = [] then 0 else of_nat (length (filter P (code_points s))) / of_nat (length (code_points s)))"

definition printableRatio :: "jtext \<Rightarrow> rat" where
  "printableRatio s = ratio_of isPrintableCodePoint s"

definition replacementCharRatio :: "jtext \<Rightarrow> rat" where
  "replacementCharRatio s = ratio_of (\<lambda>c. c = 0xFFFD) s"

subsection \<open>Bounded gunzip\<close>

datatype stream_event = Chunk "nat list" | StreamFails

fun gunzip_read :: "nat \<Rightarrow> nat \<Rightarrow> stream_event list \<Rightarrow> nat list option" where
  "gunzip_read maxOut got [] = Some []"
| "gunzip_read maxOut got (StreamFails # es) = None"
| "gunzip_read maxOut got (Chunk c # es) =
     (let n = min (length c) (maxOut - got);
          got' = got + n
      in if maxOut \<le> got' then Some (take n c)
         else map_option (append (take n c)) (gunzip_read maxOut got' es))"

definition is_gzip :: "nat list \<Rightarrow> bool" where
  "is_gzip raw \<longleftrightarrow> starts_with [0x1F, 0x8B] raw"

definition boundedGunzip :: "(nat list \<Rightarrow> stream_event list) \<Rightarrow> nat list \<Rightarrow> nat \<Rightarrow> nat list option" where
  "boundedGunzip gz raw maxOut = (if \<not> is_gzip raw then None else gunzip_read maxOut 0 (gz raw))"

subsection \<open>Strict decoding\<close>

text \<open>The value of a character of the alphabet.\<close>

definition six_bits :: "nat \<Rightarrow> nat option" where
  "six_bits c =
     (if 0x41 \<le> c \<and> c \<le> 0x5A then Some (c - 0x41)
      else if 0x61 \<le> c \<and> c \<le> 0x7A then Some (c - 0x61 + 26)
      else if 0x30 \<le> c \<and> c \<le> 0x39 then Some (c - 0x30 + 52)
      else if c = 0x2B then Some 62
      else if c = 0x2F then Some 63
      else None)"

text \<open>The buffer is a 32-bit integer of the language: its upper bits are shifted out.\<close>

fun b64_loop :: "32 word \<Rightarrow> nat \<Rightarrow> jtext \<Rightarrow> nat list option" where
  "b64_loop buffer bits [] = Some []"
| "b64_loop buffer bits (c # s) =
     (if c = 61 then Some []
      else
        (case six_bits c of
           None \<Rightarrow> None
         | Some v \<Rightarrow>
             (let buffer' = push_bit 6 buffer OR of_nat v
              in if 8 \<le> bits + 6
                 then map_option (Cons (unat (signed_drop_bit (bits + 6 - 8) buffer' AND 0xFF)))
                        (b64_loop buffer' (bits + 6 - 8) s)
                 else b64_loop buffer' (bits + 6) s)))"

definition strictBase64Decode :: "jtext \<Rightarrow> nat list option" where
  "strictBase64Decode cleaned =
     (let body = takeWhile (\<lambda>c. c \<noteq> 61) cleaned; padding = drop (length body) cleaned
      in if length cleaned mod 4 \<noteq> 0 then None
         else if \<not> list_all (\<lambda>c. six_bits c \<noteq> None \<or> c = 61) cleaned then None
         else if padding \<noteq> [] \<and> padding \<noteq> [61] \<and> padding \<noteq> [61, 61] then None
         else if padding \<noteq> [] \<and> length body mod 4 = 1 then None
         else if padding \<noteq> [] \<and> length body mod 4 + length padding \<noteq> 4 then None
         else b64_loop 0 0 cleaned)"

subsection \<open>Decoding the bytes as text\<close>

text \<open>
  The replacing decoder: every maximal ill-formed subsequence becomes one U+FFFD. \<open>bad_length\<close> is the
  number of bytes of the one at the head.
\<close>

definition second_ok :: "nat \<Rightarrow> nat \<Rightarrow> bool" where
  "second_ok a b \<longleftrightarrow>
     (if a = 0xE0 then 0xA0 \<le> b \<and> b \<le> 0xBF else if a = 0xED then 0x80 \<le> b \<and> b \<le> 0x9F
      else if a = 0xF0 then 0x90 \<le> b \<and> b \<le> 0xBF else if a = 0xF4 then 0x80 \<le> b \<and> b \<le> 0x8F else cont b)"

definition bad_length :: "nat list \<Rightarrow> nat" where
  "bad_length s =
     (case s of
        a # b # r \<Rightarrow>
          if 0xE0 \<le> a \<and> a \<le> 0xF4 \<and> second_ok a b
          then (if 0xF0 \<le> a \<and> (case r of c # _ \<Rightarrow> cont c | [] \<Rightarrow> False) then 3 else 2)
          else 1
      | _ \<Rightarrow> 1)"

function utf8_replacing :: "nat list \<Rightarrow> nat list" where
  "utf8_replacing [] = []"
| "utf8_replacing (b # s) =
     (case utf8_first (b # s) of
        Some (cp, n) \<Rightarrow> cp # utf8_replacing (drop (n - 1) s)
      | None \<Rightarrow> 0xFFFD # utf8_replacing (drop (bad_length (b # s) - 1) s))"
  by pat_completeness auto
termination by (relation "measure length") auto

definition text_decode_replacing :: "nat list \<Rightarrow> nat list" where
  "text_decode_replacing bs = (if starts_with [0xEF, 0xBB, 0xBF] bs then utf8_replacing (drop 3 bs) else utf8_replacing bs)"

definition utf16_text :: "nat list \<Rightarrow> jtext" where
  "utf16_text cps = concat (map utf16 cps)"

definition decodeUtf8Bytes :: "nat list \<Rightarrow> rat \<Rightarrow> jtext option" where
  "decodeUtf8Bytes raw minPrintableRatio =
     (case text_decode raw of
        Some cps \<Rightarrow> (let d = utf16_text cps in if minPrintableRatio \<le> printableRatio d then Some d else None)
      | None \<Rightarrow>
          (let d = utf16_text (text_decode_replacing raw)
           in if MAX_REPLACEMENT_CHAR_RATIO < replacementCharRatio d then None
              else if minPrintableRatio \<le> printableRatio d then Some d else None))"

text \<open>The second component is the number of gunzip attempts left.\<close>

definition decodeCleaned ::
  "(nat list \<Rightarrow> stream_event list) \<Rightarrow> jtext \<Rightarrow> rat \<Rightarrow> nat \<Rightarrow> jtext option \<times> nat"
where
  "decodeCleaned gz cleaned minRatio attempts =
     (let padded = cleaned @ replicate ((4 - length cleaned mod 4) mod 4) 61
      in case strictBase64Decode padded of
           None \<Rightarrow> (None, attempts)
         | Some raw \<Rightarrow>
             if is_gzip raw \<and> 0 < attempts
             then (let data = (case boundedGunzip gz raw MAX_GUNZIP_OUTPUT_BYTES of None \<Rightarrow> raw | Some d \<Rightarrow> d)
                   in (decodeUtf8Bytes data minRatio, attempts - 1))
             else (decodeUtf8Bytes raw minRatio, attempts))"

definition decodeToken ::
  "(nat list \<Rightarrow> stream_event list) \<Rightarrow> nat list \<Rightarrow> rat \<Rightarrow> nat \<Rightarrow> jtext option \<times> nat"
where
  "decodeToken gz token minRatio attempts =
     (if isHexLiteral token then (None, attempts)
      else
        (let cleaned = utf16_text (filter (\<lambda>c. \<not> is_separator c) token);
             urlsafe = map (\<lambda>c. if c = 45 then 43 else if c = 95 then 47 else c) cleaned
         in case decodeCleaned gz urlsafe minRatio attempts of
              (Some d, left) \<Rightarrow> (Some d, left)
            | (None, left) \<Rightarrow>
                if 45 \<in> set cleaned \<or> 95 \<in> set cleaned
                then decodeCleaned gz (filter (\<lambda>c. c \<noteq> 45 \<and> c \<noteq> 95) cleaned) minRatio left
                else (None, left)))"

subsection \<open>Finding the candidates\<close>

text \<open>
  A search gives the length of the match at a place, from the code point before it. \<open>pieces\<close> cuts a
  text into its matches, in the order of \<open>matchAll\<close>, and the code points between them.
\<close>

type_synonym searcher = "nat option \<Rightarrow> nat list \<Rightarrow> nat option"

function pieces :: "searcher \<Rightarrow> nat option \<Rightarrow> nat list \<Rightarrow> (nat + nat list) list" where
  "pieces m p [] = []"
| "pieces m p (c # s) =
     (case m p (c # s) of
        None \<Rightarrow> Inl c # pieces m (Some c) s
      | Some n \<Rightarrow> Inr (c # take (n - 1) s) # pieces m (Some (last (c # take (n - 1) s))) (drop (n - 1) s))"
  by pat_completeness auto
termination by (relation "measure (\<lambda>(m, p, s). length s)") auto

definition after_data :: "nat option \<Rightarrow> bool" where
  "after_data p \<longleftrightarrow> (case p of None \<Rightarrow> False | Some c \<Rightarrow> is_data c)"

definition data_ahead :: "nat list \<Rightarrow> bool" where
  "data_ahead s \<longleftrightarrow> (case s of [] \<Rightarrow> False | c # _ \<Rightarrow> is_data c)"

text \<open>\<open>RUN_RE_SOURCE\<close>: a maximal data run, at least twelve long, with at most two equals signs.\<close>

definition run_search :: searcher where
  "run_search p s =
     (let n = length (takeWhile is_data s); k = length (takeWhile (\<lambda>c. c = 61) (drop n s))
      in if after_data p \<or> n < MIN_RUN_LENGTH \<or> 2 < k \<or> data_ahead (drop (n + k) s) then None else Some (n + k))"

text \<open>\<open>SUB_FLOOR_RUN_RE_SOURCE\<close>.\<close>

definition sub_floor_search :: searcher where
  "sub_floor_search p s =
     (let n = length (takeWhile is_data s)
      in if after_data p \<or> n = 0 \<or> MIN_RUN_LENGTH \<le> n then None else Some n)"

text \<open>
  One alternative of \<open>BASE64_RE_SOURCE\<close>: at least \<open>m\<close> units of a data character and separators, as much
  text as possible, then one of the numbers \<open>js\<close> of equals signs, and neither data nor an equals sign
  behind.
\<close>

definition unit_run :: "nat \<Rightarrow> nat list \<Rightarrow> bool" where
  "unit_run m u \<longleftrightarrow> data_ahead u \<and> list_all (\<lambda>c. is_data c \<or> is_separator c) u \<and> m \<le> length (filter is_data u)"

definition unit_alternative :: "nat \<Rightarrow> nat list \<Rightarrow> nat list \<Rightarrow> nat option" where
  "unit_alternative m js s =
     map_option (\<lambda>(n, j). n + j)
       (List.find
          (\<lambda>(n, j). unit_run m (take n s) \<and> starts_with (replicate j 61) (drop n s) \<and>
             \<not> data_ahead (drop (n + j) s) \<and> \<not> starts_with [61] (drop (n + j) s))
          (List.product (rev [0..<Suc (length (takeWhile (\<lambda>c. is_data c \<or> is_separator c) s))]) js))"

definition base64_search :: searcher where
  "base64_search p s =
     (if after_data p then None
      else
        (case unit_alternative MIN_RUN_LENGTH [2, 1, 0] s of
           Some n \<Rightarrow> Some n
         | None \<Rightarrow>
             (case unit_alternative (MIN_RUN_LENGTH - 1) [1] s of
                Some n \<Rightarrow> Some n
              | None \<Rightarrow> unit_alternative (MIN_RUN_LENGTH - 2) [2] s)))"

subsection \<open>Replacing the candidates\<close>

fun decode_pieces ::
  "(nat list \<Rightarrow> nat \<Rightarrow> jtext \<times> nat) \<Rightarrow> (nat + nat list) list \<Rightarrow> nat \<Rightarrow> jtext \<times> nat"
where
  "decode_pieces f [] attempts = ([], attempts)"
| "decode_pieces f (Inl c # ps) attempts =
     (case decode_pieces f ps attempts of (out, left) \<Rightarrow> (utf16 c @ out, left))"
| "decode_pieces f (Inr t # ps) attempts =
     (case f t attempts of
        (d, left) \<Rightarrow> (case decode_pieces f ps left of (out, left') \<Rightarrow> (d @ out, left')))"

definition decodeRuns :: "(nat list \<Rightarrow> stream_event list) \<Rightarrow> nat list \<Rightarrow> nat \<Rightarrow> jtext \<times> nat" where
  "decodeRuns gz token attempts =
     decode_pieces
       (\<lambda>t a. case decodeToken gz t FALLBACK_PRINTABLE_RATIO_THRESHOLD a of
                (Some d, left) \<Rightarrow> (d, left)
              | (None, left) \<Rightarrow> (utf16_text t, left))
       (pieces run_search None token) attempts"

text \<open>\<open>base.includes(part)\<close>.\<close>

fun text_includes :: "jtext \<Rightarrow> jtext \<Rightarrow> bool" where
  "text_includes part [] = (part = [])"
| "text_includes part (c # s) = (starts_with part (c # s) \<or> text_includes part s)"

definition decode_candidate :: "(nat list \<Rightarrow> stream_event list) \<Rightarrow> nat list \<Rightarrow> nat \<Rightarrow> jtext \<times> nat" where
  "decode_candidate gz token attempts =
     (let threshold = (if list_ex is_widened_marker token then FALLBACK_PRINTABLE_RATIO_THRESHOLD
                       else PRINTABLE_RATIO_THRESHOLD);
          (decoded, a1) = decodeToken gz token threshold attempts;
          (base, a2) = (case decoded of Some d \<Rightarrow> (d, a1) | None \<Rightarrow> decodeRuns gz token a1);
          fragments = concat (List.map_filter (case_sum (\<lambda>_. None) Some) (pieces sub_floor_search None token));
          (reassembled, a3) = (if MIN_RUN_LENGTH \<le> length fragments
                               then decodeToken gz fragments FALLBACK_PRINTABLE_RATIO_THRESHOLD a2
                               else (None, a2))
      in case reassembled of
           None \<Rightarrow> (base, a3)
         | Some r \<Rightarrow> if text_includes r base then (base, a3) else (base @ [32] @ r, a3))"

definition decodeBase64Candidates ::
  "(nat list \<Rightarrow> stream_event list) \<Rightarrow> jtext \<Rightarrow> nat \<Rightarrow> jtext \<times> nat"
where
  "decodeBase64Candidates gz content attempts =
     decode_pieces (decode_candidate gz) (pieces base64_search None (code_points content)) attempts"

subsection \<open>Encoding, the inverse of the strict decoder\<close>

definition b64_char :: "nat \<Rightarrow> nat" where
  "b64_char v = (if v < 26 then 0x41 + v else if v < 52 then 0x61 + (v - 26) else if v < 62 then 0x30 + (v - 52)
     else if v = 62 then 0x2B else 0x2F)"

fun base64_encode :: "nat list \<Rightarrow> jtext" where
  "base64_encode [] = []"
| "base64_encode [a] = [b64_char (a div 4), b64_char (a mod 4 * 16), 61, 61]"
| "base64_encode [a, b] = [b64_char (a div 4), b64_char (a mod 4 * 16 + b div 16), b64_char (b mod 16 * 4), 61]"
| "base64_encode (a # b # c # s) =
     b64_char (a div 4) # b64_char (a mod 4 * 16 + b div 16) # b64_char (b mod 16 * 4 + c div 64) # b64_char (c mod 64) #
       base64_encode s"

lemma b64_char [simp]: "v < 64 \<Longrightarrow> six_bits (b64_char v) = Some v" "b64_char v \<noteq> 61"
  by (auto simp: six_bits_def b64_char_def)

lemma b64_char_data: "v < 64 \<Longrightarrow> is_data (b64_char v)"
  by (auto simp: is_data_def b64_char_def)

text \<open>The bits a byte is read from are those of the last two characters.\<close>

lemma shift_in: "b < 64 \<Longrightarrow> push_bit 6 X OR (of_nat b :: 32 word) = X * 64 + of_nat b"
proof -
  assume b: "b < 64"
  have small: "\<not> bit (of_nat b :: 32 word) m" if "6 \<le> m" for m
  proof -
    have "take_bit 6 (of_nat b :: 32 word) = of_nat b"
      using b by (simp add: take_bit_nat_eq_self take_bit_of_nat)
    then show ?thesis using that by (metis bit_take_bit_iff linorder_not_le)
  qed
  have "push_bit 6 X + of_nat b = push_bit 6 X OR (of_nat b :: 32 word)"
    by (intro disjunctive_add_eq_or bit_eqI) (use small in \<open>auto simp: bit_simps\<close>)
  then show ?thesis by (simp add: push_bit_eq_mult)
qed

lemma low_byte: "k \<le> 4 \<Longrightarrow> unat (signed_drop_bit k (W :: 32 word) AND 0xFF) = unat W div 2 ^ k mod 256"
proof -
  assume k: "k \<le> 4"
  have "signed_drop_bit k W AND 0xFF = take_bit 8 (signed_drop_bit k W)"
    using take_bit_eq_mask [of 8 "signed_drop_bit k W"] by (simp add: mask_eq_exp_minus_1)
  also have "\<dots> = take_bit 8 (drop_bit k W)"
    by (rule bit_eqI) (use k in \<open>auto simp: bit_simps\<close>)
  finally have "unat (signed_drop_bit k W AND 0xFF) = take_bit 8 (unat (drop_bit k W))"
    by (simp add: unsigned_take_bit_eq)
  then show ?thesis unfolding unat_drop_bit_eq by (simp add: drop_bit_eq_div take_bit_eq_mod)
qed

lemma last_two:
  assumes "a < 64" "b < 64" "k \<le> 4"
  shows "unat (signed_drop_bit k (push_bit 6 (push_bit 6 X OR (of_nat a :: 32 word)) OR of_nat b) AND 0xFF) =
    (a * 64 + b) div 2 ^ k mod 256"
proof -
  let ?W = "push_bit 6 (push_bit 6 X OR (of_nat a :: 32 word)) OR of_nat b"
  have "?W = (X * 64 + of_nat a) * 64 + of_nat b" using assms by (simp only: shift_in)
  then have "?W = of_nat ((unat X * 64 + a) * 64 + b)" by simp
  then have "unat ?W = ((unat X * 64 + a) * 64 + b) mod 2 ^ 32"
    by (simp only: unat_of_nat) simp
  then have m: "unat ?W mod 2 ^ (k + 8) = ((unat X * 64 + a) * 64 + b) mod 2 ^ (k + 8)"
    using assms(3) by (simp only: mod_mod_cancel le_imp_power_dvd)
  have "4096 = 2 ^ (k + 8) * (2 ^ (4 - k) :: nat)" using assms(3) by (simp flip: power_add)
  then have split: "(unat X * 64 + a) * 64 + b = (unat X * 2 ^ (4 - k)) * 2 ^ (k + 8) + (a * 64 + b)"
    by (simp add: algebra_simps)
  then have "unat ?W mod 2 ^ (k + 8) = (a * 64 + b) mod 2 ^ (k + 8)" using m by (simp only: split mod_mult_self3)
  then have "unat ?W mod 2 ^ (k + 8) div 2 ^ k = (a * 64 + b) mod 2 ^ (k + 8) div 2 ^ k" by simp
  then have "unat ?W div 2 ^ k mod 2 ^ 8 = (a * 64 + b) div 2 ^ k mod 2 ^ 8"
    by (simp add: power_add mod_mult2_eq)
  then show ?thesis using low_byte [OF assms(3), of ?W] by simp
qed

text \<open>One group of four characters, from a buffer of any content.\<close>

lemma loop_first: "i < 64 \<Longrightarrow> j < 64 \<Longrightarrow>
  b64_loop X 0 (b64_char i # b64_char j # s) =
    map_option (Cons ((i * 64 + j) div 16 mod 256)) (b64_loop (push_bit 6 (push_bit 6 X OR of_nat i) OR of_nat j) 4 s)"
  using last_two [of i j 4 X] by (simp add: Let_def)

lemma loop_second: "i < 64 \<Longrightarrow> j < 64 \<Longrightarrow>
  b64_loop (push_bit 6 X OR of_nat i) 4 (b64_char j # s) =
    map_option (Cons ((i * 64 + j) div 4 mod 256)) (b64_loop (push_bit 6 (push_bit 6 X OR of_nat i) OR of_nat j) 2 s)"
  using last_two [of i j 2 X] by (simp add: Let_def)

lemma loop_third: "i < 64 \<Longrightarrow> j < 64 \<Longrightarrow>
  b64_loop (push_bit 6 X OR of_nat i) 2 (b64_char j # s) =
    map_option (Cons ((i * 64 + j) mod 256)) (b64_loop (push_bit 6 (push_bit 6 X OR of_nat i) OR of_nat j) 0 s)"
  using last_two [of i j 0 X] by (simp add: Let_def)

lemma loop_pad: "b64_loop X n (61 # s) = Some []"
  by simp

lemma six_fields:
  assumes "a < 256" "b < 256" "c < (256 :: nat)"
  shows "a div 4 < 64" "a mod 4 * 16 + b div 16 < 64" "b mod 16 * 4 + c div 64 < 64" "c mod 64 < 64"
proof -
  have "b div 16 < 16" "c div 64 < 4" "a mod 4 < 4" "b mod 16 < 16" using assms by auto
  then show "a div 4 < 64" "a mod 4 * 16 + b div 16 < 64" "b mod 16 * 4 + c div 64 < 64" "c mod 64 < 64"
    using assms by auto
qed

lemma packed_fields:
  "x < 16 \<Longrightarrow> q * 4 + r < 256 \<Longrightarrow> (q * 64 + (r * 16 + x)) div 16 mod 256 = q * 4 + (r :: nat)"
  "x < 4 \<Longrightarrow> q * 16 + r < 256 \<Longrightarrow> ((p * 16 + q) * 64 + (r * 4 + x)) div 4 mod 256 = q * 16 + (r :: nat)"
  "q * 64 + r < 256 \<Longrightarrow> ((p * 4 + q) * 64 + r) mod 256 = q * 64 + (r :: nat)"
proof -
  assume "x < 16" "q * 4 + r < 256"
  moreover have "q * 64 + (r * 16 + x) = x + 16 * (q * 4 + r)" by simp
  ultimately show "(q * 64 + (r * 16 + x)) div 16 mod 256 = q * 4 + r" by (simp only: div_mult_self2) simp
next
  assume "x < 4" "q * 16 + r < 256"
  moreover have "(p * 16 + q) * 64 + (r * 4 + x) = x + 4 * (p * 256 + (q * 16 + r))" by simp
  ultimately show "((p * 16 + q) * 64 + (r * 4 + x)) div 4 mod 256 = q * 16 + r" by (simp only: div_mult_self2) simp
next
  assume "q * 64 + r < 256"
  moreover have "(p * 4 + q) * 64 + r = p * 256 + (q * 64 + r)" by simp
  ultimately show "((p * 4 + q) * 64 + r) mod 256 = q * 64 + r" by (simp only: mod_mult_self3) simp
qed

lemma byte_fields:
  assumes "a < 256" "b < 256" "c < (256 :: nat)"
  shows "(a div 4 * 64 + (a mod 4 * 16 + b div 16)) div 16 mod 256 = a"
    "((a mod 4 * 16 + b div 16) * 64 + (b mod 16 * 4 + c div 64)) div 4 mod 256 = b"
    "((b mod 16 * 4 + c div 64) * 64 + c mod 64) mod 256 = c"
proof -
  have "b div 16 < 16" "c div 64 < 4" using assms by (auto simp: div_less_iff_less_mult)
  then show "(a div 4 * 64 + (a mod 4 * 16 + b div 16)) div 16 mod 256 = a"
    "((a mod 4 * 16 + b div 16) * 64 + (b mod 16 * 4 + c div 64)) div 4 mod 256 = b"
    "((b mod 16 * 4 + c div 64) * 64 + c mod 64) mod 256 = c"
    using assms packed_fields(1) [of "b div 16" "a div 4" "a mod 4"] packed_fields(2) [of "c div 64" "b div 16" "b mod 16" "a mod 4"]
    packed_fields(3) [of "c div 64" "c mod 64" "b mod 16"]
    by (simp_all only: div_mult_mod_eq)
qed

lemma loop_encode: "\<forall>b \<in> set bs. b < 256 \<Longrightarrow> b64_loop X 0 (base64_encode bs) = Some bs"
proof (induction bs arbitrary: X rule: base64_encode.induct)
  case (2 a)
  then have a: "a < 256" by simp
  note six = six_fields [of a 0 0] and byte = byte_fields [of a 0 0]
  show ?case using a six byte by (simp only: base64_encode.simps loop_first loop_pad) simp
next
  case (3 a b)
  then have ab: "a < 256" "b < 256" by simp_all
  note six = six_fields [of a b 0] and byte = byte_fields [of a b 0]
  show ?case using ab six byte by (simp only: base64_encode.simps loop_first loop_second loop_pad) simp
next
  case (4 a b c s)
  then have abc: "a < 256" "b < 256" "c < 256" and s: "\<forall>x \<in> set s. x < 256" by simp_all
  note six = six_fields [OF abc] and byte = byte_fields [OF abc]
  show ?case
    by (simp only: base64_encode.simps loop_first [OF six(1,2)] loop_second [OF six(2,3)] loop_third [OF six(3,4)]
        byte "4.IH" [OF s] option.map)
qed simp

text \<open>The shape of an encoding: characters of the alphabet, then at most two equals signs.\<close>

definition b64_text :: "nat list \<Rightarrow> bool" where
  "b64_text D \<longleftrightarrow> (\<forall>d \<in> set D. \<exists>v < 64. d = b64_char v)"

definition pad_count :: "nat \<Rightarrow> nat" where
  "pad_count n = (4 - n mod 4) mod 4"

lemma pad_count_cases:
  "n mod 4 = 0 \<and> pad_count n = 0 \<or> n mod 4 = 1 \<and> pad_count n = 3 \<or> n mod 4 = 2 \<and> pad_count n = 2 \<or>
   n mod 4 = 3 \<and> pad_count n = 1"
proof -
  have "n mod 4 < 4" by simp
  then have "n mod 4 = 0 \<or> n mod 4 = 1 \<or> n mod 4 = 2 \<or> n mod 4 = 3" by linarith
  then show ?thesis by (auto simp: pad_count_def)
qed

lemma pad_count_sum: "(n + pad_count n) mod 4 = 0"
  using pad_count_cases [of n] mod_add_left_eq [of n 4 "pad_count n"] by auto

lemma b64_textI: "\<forall>v \<in> set vs. v < 64 \<Longrightarrow> b64_text (map b64_char vs)"
  by (auto simp: b64_text_def)

lemma encode_shape:
  "\<forall>b \<in> set bs. b < 256 \<Longrightarrow>
   \<exists>D. base64_encode bs = D @ replicate (pad_count (length D)) 61 \<and> b64_text D \<and> length D = (4 * length bs + 2) div 3"
proof (induction bs rule: base64_encode.induct)
  case (2 a)
  let ?D = "[b64_char (a div 4), b64_char (a mod 4 * 16)]"
  have "a mod 4 * 16 < 64" using six_fields(2) [of a 0 0] 2 by simp
  then have "b64_text ?D" using b64_textI [of "[a div 4, a mod 4 * 16]"] six_fields(1) [of a 0 0] 2 by simp
  then show ?case
    by (intro exI [of _ ?D]) (simp add: pad_count_def numeral_2_eq_2)
next
  case (3 a b)
  let ?D = "[b64_char (a div 4), b64_char (a mod 4 * 16 + b div 16), b64_char (b mod 16 * 4)]"
  have "b mod 16 * 4 < 64" using six_fields(3) [of a b 0] 3 by simp
  then have "b64_text ?D"
    using b64_textI [of "[a div 4, a mod 4 * 16 + b div 16, b mod 16 * 4]"] six_fields(1,2) [of a b 0] 3 by simp
  then show ?case by (intro exI [of _ ?D]) (simp add: pad_count_def)
next
  case (4 a b c s)
  let ?G = "[b64_char (a div 4), b64_char (a mod 4 * 16 + b div 16), b64_char (b mod 16 * 4 + c div 64), b64_char (c mod 64)]"
  obtain D where D: "base64_encode s = D @ replicate (pad_count (length D)) 61" "b64_text D"
    "length D = (4 * length s + 2) div 3" using 4 by auto
  have "b64_text ?G"
    using b64_textI [of "[a div 4, a mod 4 * 16 + b div 16, b mod 16 * 4 + c div 64, c mod 64]"] six_fields [of a b c] 4(2)
    by simp
  moreover have "pad_count (length (?G @ D)) = pad_count (length D)" by (simp add: pad_count_def)
  ultimately show ?case
    using D by (intro exI [of _ "?G @ D"]) (auto simp: b64_text_def)
qed (simp add: pad_count_def b64_text_def)

lemma b64_text_chars:
  assumes "b64_text D" and "d \<in> set D"
  shows "six_bits d \<noteq> None" "d \<noteq> 61" "is_data d" "\<not> is_separator d" "d \<noteq> 45" "d \<noteq> 95" "d < 0x80"
    "\<not> is_widened_marker d"
proof -
  obtain v where "v < 64" "d = b64_char v" using assms by (auto simp: b64_text_def)
  then show "six_bits d \<noteq> None" "d \<noteq> 61" "is_data d" "\<not> is_separator d" "d \<noteq> 45" "d \<noteq> 95" "d < 0x80"
    "\<not> is_widened_marker d"
    by (auto simp: b64_char_data is_separator_def is_widened_marker_def) (auto simp: b64_char_def split: if_splits)
qed

lemma takeWhile_split: "\<forall>x \<in> set D. P x \<Longrightarrow> takeWhile P (D @ s) = D @ takeWhile P s"
  by (induction D) auto

lemma strict_encode:
  assumes "\<forall>b \<in> set bs. b < 256"
  shows "strictBase64Decode (base64_encode bs) = Some bs"
proof -
  obtain D where D: "base64_encode bs = D @ replicate (pad_count (length D)) 61" "b64_text D"
    "length D = (4 * length bs + 2) div 3" using encode_shape [OF assms] by auto
  have body: "takeWhile (\<lambda>c. c \<noteq> 61) (base64_encode bs) = D"
    using b64_text_chars(2) [OF D(2)] by (simp add: D(1) takeWhile_split)
  have n: "length D mod 4 \<noteq> 1" using D(3) by presburger
  have k: "pad_count (length D) \<in> {0, 1, 2}" and sum: "pad_count (length D) \<noteq> 0 \<longrightarrow> length D mod 4 + pad_count (length D) = 4"
    using n pad_count_cases [of "length D"] by auto
  have chars: "list_all (\<lambda>c. six_bits c \<noteq> None \<or> c = 61) (base64_encode bs)"
    using b64_text_chars(1) [OF D(2)] by (auto simp: D(1) list_all_iff)
  have len: "length (base64_encode bs) mod 4 = 0" using pad_count_sum [of "length D"] by (simp add: D(1))
  have pad: "drop (length D) (base64_encode bs) = replicate (pad_count (length D)) 61" by (simp add: D(1))
  let ?pad = "replicate (pad_count (length D)) (61 :: nat)"
  have ok: "(?pad \<noteq> [] \<and> ?pad \<noteq> [61] \<and> ?pad \<noteq> [61, 61]) = False"
    using k by (auto simp: numeral_2_eq_2)
  have rest: "(?pad \<noteq> [] \<and> length D mod 4 = 1) = False"
    "(?pad \<noteq> [] \<and> length D mod 4 + length ?pad \<noteq> 4) = False"
    using n sum by auto
  have "(length (base64_encode bs) mod 4 \<noteq> 0) = False"
    "(\<not> list_all (\<lambda>c. six_bits c \<noteq> None \<or> c = 61) (base64_encode bs)) = False"
    using len chars by blast+
  then show ?thesis
    unfolding strictBase64Decode_def body Let_def pad
    by (simp only: ok rest if_False loop_encode [OF assms])
qed

subsection \<open>An encoded text as a candidate\<close>

text \<open>A search that fails at every place finds nothing.\<close>

lemma pieces_none:
  assumes "\<And>a b. s = a @ b \<Longrightarrow> b \<noteq> [] \<Longrightarrow> m (if a = [] then p else Some (last a)) b = None"
  shows "pieces m p s = map Inl s"
  using assms
proof (induction s arbitrary: p)
  case (Cons c s)
  have "m p (c # s) = None" using Cons.prems [of "[]" "c # s"] by simp
  moreover have "pieces m (Some c) s = map Inl s"
  proof (rule Cons.IH)
    fix a b assume "s = a @ b" "b \<noteq> []"
    then show "m (if a = [] then Some c else Some (last a)) b = None"
      using Cons.prems [of "c # a" b] by auto
  qed
  ultimately show ?case by simp
qed simp

lemma decode_pieces_plain: "decode_pieces f (map Inl s) a = (utf16_text s, a)"
  by (induction s) (simp_all add: utf16_text_def)

definition printable_text :: "nat list \<Rightarrow> bool" where
  "printable_text t \<longleftrightarrow> (\<forall>b \<in> set t. 0x20 \<le> b \<and> b \<le> 0x7E)"

lemma printable_ratio_one:
  assumes "printable_text t" and "t \<noteq> []"
  shows "printableRatio t = 1"
proof -
  have cps: "code_points t = t" using assms(1) by (intro code_points_ascii) (auto simp: printable_text_def)
  have "filter isPrintableCodePoint t = t"
    using assms(1) by (auto simp: printable_text_def isPrintableCodePoint_def intro!: filter_True)
  then show ?thesis using assms(2) by (simp add: printableRatio_def ratio_of_def cps)
qed

lemma ascii_utf8: "printable_text t \<Longrightarrow> text_decode t = Some t \<and> utf16_text t = t"
proof -
  assume t: "printable_text t"
  then have "utf8 t = Some t" by (induction t) (auto simp: printable_text_def)
  moreover have "\<not> starts_with [0xEF, 0xBB, 0xBF] t" using t by (cases t) (auto simp: printable_text_def)
  moreover have "utf16_text t = t" using t by (induction t) (auto simp: printable_text_def utf16_text_def utf16_def)
  ultimately show ?thesis by (simp add: text_decode_def)
qed

text \<open>Everything about the encoding of a printable text that the search and the decoder ask.\<close>

lemma encoded_text:
  assumes "printable_text t" and "9 \<le> length t"
  obtains D where "base64_encode t = D @ replicate (pad_count (length D)) 61" "b64_text D" "MIN_RUN_LENGTH \<le> length D"
    "hd D \<noteq> 48" "\<forall>b \<in> set t. b < 256"
proof -
  have bytes: "\<forall>b \<in> set t. b < 256" using assms(1) by (auto simp: printable_text_def)
  then obtain D where D: "base64_encode t = D @ replicate (pad_count (length D)) 61" "b64_text D"
    "length D = (4 * length t + 2) div 3" using encode_shape by blast
  have long: "12 \<le> length D" using D(3) assms(2) by linarith
  obtain a u where t: "t = a # u" using assms(2) by (cases t) auto
  then have "a div 4 < 32" using assms(1) by (auto simp: printable_text_def)
  then have "b64_char (a div 4) \<noteq> 48" by (auto simp: b64_char_def)
  moreover have "hd (base64_encode t) = b64_char (a div 4)"
    unfolding t by (cases u rule: base64_encode.cases) simp_all
  moreover have "hd (base64_encode t) = hd D" using D(1) long by (cases D) auto
  ultimately show ?thesis using that [OF D(1,2)] long bytes by (simp add: MIN_RUN_LENGTH_def)
qed

lemma data_first: "b64_text D \<Longrightarrow> D \<noteq> [] \<Longrightarrow> data_ahead (D @ s)"
  using b64_text_chars(3) by (cases D) (auto simp: data_ahead_def)

lemma candidate_found:
  assumes "b64_text D" "MIN_RUN_LENGTH \<le> length D"
  shows "base64_search None (D @ replicate k 61) = Some (length D + k)"
proof -
  let ?s = "D @ replicate k 61"
  have all: "\<forall>c \<in> set ?s. is_data c \<or> is_separator c"
    using b64_text_chars(3) [OF assms(1)] by (auto simp: is_separator_def is_data_def)
  have "filter is_data ?s = D"
    using b64_text_chars(3) [OF assms(1)] by (simp add: filter_id_conv) (simp add: is_data_def)
  moreover have "D \<noteq> []" using assms(2) by (auto simp: MIN_RUN_LENGTH_def)
  ultimately have run: "unit_run MIN_RUN_LENGTH ?s"
    using all assms(2) data_first [OF assms(1)] by (simp add: unit_run_def list_all_iff)
  have tw: "takeWhile (\<lambda>c. is_data c \<or> is_separator c) ?s = ?s" using all by (simp only: takeWhile_eq_all_conv)
  have "unit_alternative MIN_RUN_LENGTH [2, 1, 0] ?s = Some (length ?s)"
    unfolding unit_alternative_def tw
    using run by (simp add: data_ahead_def numeral_2_eq_2)
  then show ?thesis by (simp add: base64_search_def after_data_def)
qed

lemma candidate_pieces:
  assumes "b64_text D" "MIN_RUN_LENGTH \<le> length D"
  shows "pieces base64_search None (D @ replicate k 61) = [Inr (D @ replicate k 61)]"
proof -
  obtain c s where s: "D @ replicate k 61 = c # s" using assms(2) by (cases D) (auto simp: MIN_RUN_LENGTH_def)
  have "length s = length D + k - 1" using arg_cong [OF s, of length] by simp
  then show ?thesis using candidate_found [OF assms, of k] unfolding s by simp
qed

lemma no_fragments:
  assumes "b64_text D" "MIN_RUN_LENGTH \<le> length D"
  shows "pieces sub_floor_search None (D @ replicate k 61) = map Inl (D @ replicate k 61)"
proof (rule pieces_none)
  fix a b assume ab: "D @ replicate k 61 = a @ b" "b \<noteq> []"
  have eq: "\<not> is_data 61" by (simp add: is_data_def)
  show "sub_floor_search (if a = [] then None else Some (last a)) b = None"
  proof (cases "a = []")
    case True
    have "length D \<le> length (takeWhile is_data b)"
    proof -
      have "b = D @ replicate k 61" using ab(1) True by simp
      then show ?thesis using b64_text_chars(3) [OF assms(1)] by (simp add: takeWhile_split)
    qed
    then show ?thesis using assms(2) True by (auto simp: sub_floor_search_def Let_def)
  next
    case False
    show ?thesis
    proof (cases "length a \<le> length D")
      case True
      then have "a = take (length a) D" using arg_cong [OF ab(1), of "take (length a)"] by simp
      then have "last a \<in> set D" using False in_set_takeD [of "last a" "length a" D] last_in_set [of a] by simp
      then show ?thesis using False b64_text_chars(3) [OF assms(1)] by (simp add: sub_floor_search_def after_data_def Let_def)
    next
      case long: False
      then have "b = drop (length a - length D) (replicate k 61)"
        using arg_cong [OF ab(1), of "drop (length a)"] by simp
      then have "set b \<subseteq> {61}" using set_replicate_conv_if [of k "61 :: nat"] by (auto dest: in_set_dropD)
      then have "takeWhile is_data b = []" using eq ab(2) by (cases b) auto
      then show ?thesis by (simp add: sub_floor_search_def Let_def)
    qed
  qed
qed

lemma cleaned_token:
  assumes "b64_text D"
  shows "utf16_text (filter (\<lambda>c. \<not> is_separator c) (D @ replicate k 61)) = D"
proof -
  have "filter (\<lambda>c. \<not> is_separator c) (D @ replicate k 61) = D"
    using b64_text_chars(4) [OF assms] by (simp add: filter_id_conv) (simp add: is_separator_def is_data_def)
  moreover have "utf16_text D = D"
  proof -
    have "\<forall>d \<in> set D. d < 128" using b64_text_chars(7) [OF assms] by auto
    then show ?thesis by (induction D) (auto simp: utf16_text_def utf16_def)
  qed
  ultimately show ?thesis by simp
qed

lemma token_decoded:
  assumes "printable_text t" "9 \<le> length t" "r \<le> 1"
  shows "decodeToken gz (base64_encode t) r a = (Some t, a)"
proof -
  obtain D where D: "base64_encode t = D @ replicate (pad_count (length D)) 61" "b64_text D"
    "MIN_RUN_LENGTH \<le> length D" "hd D \<noteq> 48" "\<forall>b \<in> set t. b < 256" by (rule encoded_text [OF assms(1,2)])
  have "\<not> isHexLiteral (base64_encode t)"
    using D(3,4) by (cases D) (auto simp: D(1) isHexLiteral_def MIN_RUN_LENGTH_def)
  moreover have "map (\<lambda>c. if c = 45 then 43 else if c = 95 then 47 else c) D = D"
    using b64_text_chars(5,6) [OF D(2)] by (intro map_idI) auto
  moreover have "decodeCleaned gz D r a = (Some t, a)"
  proof -
    have "strictBase64Decode (D @ replicate ((4 - length D mod 4) mod 4) 61) = Some t"
      using strict_encode [OF D(5)] D(1) by (simp add: pad_count_def)
    moreover have "\<not> is_gzip t" using assms(1) by (cases t) (auto simp: is_gzip_def printable_text_def)
    moreover have "decodeUtf8Bytes t r = Some t"
      using ascii_utf8 [OF assms(1)] printable_ratio_one [OF assms(1)] assms(2,3)
      by (cases t) (simp_all add: decodeUtf8Bytes_def Let_def)
    ultimately show ?thesis by (simp add: decodeCleaned_def Let_def)
  qed
  moreover have "utf16_text (filter (\<lambda>c. \<not> is_separator c) (base64_encode t)) = D"
    unfolding D(1) by (rule cleaned_token [OF D(2)])
  ultimately show ?thesis by (simp add: decodeToken_def Let_def)
qed

lemma candidate_decoded:
  assumes "printable_text t" "9 \<le> length t"
  shows "decode_candidate gz (base64_encode t) a = (t, a)"
proof -
  obtain D where D: "base64_encode t = D @ replicate (pad_count (length D)) 61" "b64_text D"
    "MIN_RUN_LENGTH \<le> length D" by (rule encoded_text [OF assms])
  have "\<not> list_ex is_widened_marker (base64_encode t)"
    using b64_text_chars(8) [OF D(2)] by (auto simp: D(1) list_ex_iff is_widened_marker_def is_data_def)
  moreover have frag: "concat (List.map_filter (case_sum (\<lambda>_. None) Some) (pieces sub_floor_search None (base64_encode t))) = []"
    unfolding D(1) no_fragments [OF D(2,3)] by (simp add: map_filter_def o_def)
  ultimately show ?thesis
    using token_decoded [OF assms, of PRINTABLE_RATIO_THRESHOLD gz a]
    unfolding decode_candidate_def frag by (simp add: PRINTABLE_RATIO_THRESHOLD_def MIN_RUN_LENGTH_def Let_def)
qed

subsection \<open>The budgets\<close>

lemma gunzip_read_bounded: "gunzip_read maxOut got es = Some out \<Longrightarrow> got \<le> maxOut \<Longrightarrow> length out \<le> maxOut - got"
proof (induction maxOut got es arbitrary: out rule: gunzip_read.induct)
  case (3 maxOut got c es)
  let ?n = "min (length c) (maxOut - got)"
  show ?case
  proof (cases "maxOut \<le> got + ?n")
    case True
    then have "out = take ?n c" using 3(2) by (simp only: gunzip_read.simps Let_def if_True option.inject)
    then show ?thesis by simp
  next
    case False
    then have "map_option (append (take ?n c)) (gunzip_read maxOut (got + ?n) es) = Some out"
      using 3(2) by (simp only: gunzip_read.simps Let_def if_False)
    then obtain rest where rest: "gunzip_read maxOut (got + ?n) es = Some rest" "out = take ?n c @ rest"
      by auto
    then have "length rest \<le> maxOut - (got + ?n)" using 3(1) [OF refl refl False rest(1)] False by simp
    then show ?thesis using rest(2) False by simp
  qed
qed simp_all

text \<open>
  A computation is frugal with a budget if it pays one attempt for each byte string whose decompression
  it looks at: it gives the same result with any other stream that agrees on these strings.
\<close>

definition frugal :: "((nat list \<Rightarrow> stream_event list) \<Rightarrow> 'x \<times> nat) \<Rightarrow> nat \<Rightarrow> (nat list \<Rightarrow> stream_event list) \<Rightarrow> bool" where
  "frugal F a gz \<longleftrightarrow> (\<exists>raws. snd (F gz) + length raws \<le> a \<and> (\<forall>gz'. (\<forall>r \<in> set raws. gz' r = gz r) \<longrightarrow> F gz' = F gz))"

lemma frugal_const: "l \<le> a \<Longrightarrow> frugal (\<lambda>_. (x, l)) a gz"
  unfolding frugal_def by (intro exI [of _ "[]"]) simp

lemma frugal_bind:
  assumes "frugal F a gz" and "\<And>x l. F gz = (x, l) \<Longrightarrow> frugal (G x l) l gz"
  shows "frugal (\<lambda>gz. case F gz of (x, l) \<Rightarrow> G x l gz) a gz"
proof -
  obtain x l where x: "F gz = (x, l)" by (cases "F gz")
  obtain rs where rs: "snd (x, l) + length rs \<le> a \<and> (\<forall>gz'. (\<forall>r \<in> set rs. gz' r = gz r) \<longrightarrow> F gz' = (x, l))"
    using assms(1) unfolding frugal_def x by (rule exE)
  obtain qs where qs: "snd (G x l gz) + length qs \<le> l \<and> (\<forall>gz'. (\<forall>r \<in> set qs. gz' r = gz r) \<longrightarrow> G x l gz' = G x l gz)"
    using assms(2) [OF x] unfolding frugal_def by (rule exE)
  have len: "snd (G x l gz) + length (rs @ qs) \<le> a" using conjunct1 [OF rs] conjunct1 [OF qs] by simp
  have same: "(case F gz' of (x, l) \<Rightarrow> G x l gz') = G x l gz" if "\<forall>r \<in> set (rs @ qs). gz' r = gz r" for gz'
  proof -
    have "F gz' = (x, l)" by (rule rs [THEN conjunct2, rule_format]) (use that in simp)
    moreover have "G x l gz' = G x l gz" by (rule qs [THEN conjunct2, rule_format]) (use that in simp)
    ultimately show ?thesis by simp
  qed
  show ?thesis unfolding frugal_def x prod.case
    by (rule exI [of _ "rs @ qs"], rule conjI [OF len], intro allI impI, rule same)
qed

lemma frugal_le: "frugal F a gz \<Longrightarrow> snd (F gz) \<le> a"
  unfolding frugal_def by (metis add_leD1)

lemma frugal_if:
  "(b \<Longrightarrow> frugal F a gz) \<Longrightarrow> (\<not> b \<Longrightarrow> frugal G a gz) \<Longrightarrow> frugal (\<lambda>gz. if b then F gz else G gz) a gz"
  by (cases b) simp_all

lemma frugal_option:
  "(x = None \<Longrightarrow> frugal F a gz) \<Longrightarrow> (\<And>y. x = Some y \<Longrightarrow> frugal (G y) a gz) \<Longrightarrow>
   frugal (\<lambda>gz. case x of None \<Rightarrow> F gz | Some y \<Rightarrow> G y gz) a gz"
  by (cases x) simp_all

lemma frugal_cleaned: "frugal (\<lambda>gz. decodeCleaned gz c m a) a gz"
proof (cases "strictBase64Decode (c @ replicate ((4 - length c mod 4) mod 4) 61)")
  case None
  then show ?thesis by (simp add: decodeCleaned_def frugal_const)
next
  case (Some raw)
  show ?thesis
  proof (cases "is_gzip raw \<and> 0 < a")
    case True
    then show ?thesis
      unfolding frugal_def decodeCleaned_def by (intro exI [of _ "[raw]"]) (auto simp: Some Let_def boundedGunzip_def)
  next
    case False
    then have "decodeCleaned gz c m a = (decodeUtf8Bytes raw m, a)" for gz by (auto simp: decodeCleaned_def Some)
    then show ?thesis by (simp add: frugal_const)
  qed
qed

lemma frugal_token: "frugal (\<lambda>gz. decodeToken gz t m a) a gz"
  unfolding decodeToken_def Let_def
  by (intro frugal_if frugal_bind frugal_option frugal_const frugal_cleaned order_refl)

lemma frugal_pieces:
  assumes "\<And>t b. frugal (\<lambda>gz. f gz t b) b gz"
  shows "frugal (\<lambda>gz. decode_pieces (f gz) ps a) a gz"
proof (induction ps arbitrary: a)
  case (Cons p ps)
  then show ?case
    by (cases p; simp only: decode_pieces.simps) (intro frugal_bind frugal_const Cons assms order_refl)+
qed (simp add: frugal_const)

lemma frugal_runs: "frugal (\<lambda>gz. decodeRuns gz t a) a gz"
  unfolding decodeRuns_def
  by (rule frugal_pieces) (intro frugal_bind frugal_token frugal_option frugal_const order_refl)

lemma frugal_candidate: "frugal (\<lambda>gz. decode_candidate gz t a) a gz"
  unfolding decode_candidate_def Let_def
  by (intro frugal_bind frugal_token frugal_runs frugal_option frugal_const frugal_if order_refl)

lemma frugal_candidates: "frugal (\<lambda>gz. decodeBase64Candidates gz s a) a gz"
  unfolding decodeBase64Candidates_def by (rule frugal_pieces [OF frugal_candidate])

subsection \<open>Properties\<close>

text \<open>
  C18: The strict decoder inverts the base64 encoding of every byte sequence of any length, although its
  32-bit buffer overflows after the fifth character.
\<close>

theorem base64_roundtrip:
  assumes "\<forall>b \<in> set bs. b < 256"
  shows "strictBase64Decode (base64_encode bs) = Some bs"
  by (rule strict_encode [OF assms])

theorem base64_roundtrip_witness: "strictBase64Decode (base64_encode [0, 255, 97, 98]) = Some [0, 255, 97, 98]"
  by (rule base64_roundtrip) simp

text \<open>
  C15: The base64 encoding of any printable ASCII text of nine characters or more is found as a candidate
  and replaced by the text itself, without a gunzip attempt.
\<close>

theorem encoded_payloads_uncovered:
  assumes "printable_text t" and "9 \<le> length t"
  shows "decodeBase64Candidates gz (base64_encode t) a = (t, a)"
proof -
  obtain D where D: "base64_encode t = D @ replicate (pad_count (length D)) 61" "b64_text D"
    "MIN_RUN_LENGTH \<le> length D" by (rule encoded_text [OF assms])
  have "code_points (base64_encode t) = base64_encode t"
    using b64_text_chars(7) [OF D(2)] by (intro code_points_ascii) (force simp: D(1))
  moreover have "pieces base64_search None (base64_encode t) = [Inr (base64_encode t)]"
    unfolding D(1) by (rule candidate_pieces [OF D(2,3)])
  ultimately show ?thesis using candidate_decoded [OF assms, of gz a] by (simp add: decodeBase64Candidates_def)
qed

theorem encoded_payloads_uncovered_witness:
  "decodeBase64Candidates (\<lambda>_. []) (base64_encode (text_of ''<script>alert'')) 8 = (text_of ''<script>alert'', 8)"
  by (rule encoded_payloads_uncovered) (simp_all add: printable_text_def text_of_def)

text \<open>
  Whatever the input and the stream, one gunzip yields at most 8192 bytes, and a pass never has more
  gunzip attempts left than it started with.
\<close>

theorem gunzip_budget:
  "(case boundedGunzip gz raw MAX_GUNZIP_OUTPUT_BYTES of None \<Rightarrow> True | Some out \<Rightarrow> length out \<le> 8192) \<and>
   snd (decodeBase64Candidates gz content attempts) \<le> attempts"
proof
  show "case boundedGunzip gz raw MAX_GUNZIP_OUTPUT_BYTES of None \<Rightarrow> True | Some out \<Rightarrow> length out \<le> 8192"
    using gunzip_read_bounded [of MAX_GUNZIP_OUTPUT_BYTES 0 "gz raw"]
    by (auto simp: boundedGunzip_def MAX_GUNZIP_OUTPUT_BYTES_def split: option.splits)
  show "snd (decodeBase64Candidates gz content attempts) \<le> attempts"
    by (rule frugal_le [OF frugal_candidates])
qed

end
