(* ===== verification/Binary_Content.thy ===== *)
theory Binary_Content
  imports Base64_Decode
begin

section \<open>Binary content (detection-engine/binary.ts, binary-islands.ts)\<close>

text \<open>
  Bytes of uploads look like attacks by chance. Two measures guard against it: the density of binary
  artifacts around a match, from a table of running counts, and the reduction of a binary payload to
  its printable runs. Ratios are exact rationals instead of doubles.
\<close>

definition BINARY_ARTIFACT_RANGES :: "(nat \<times> nat) list" where
  "BINARY_ARTIFACT_RANGES =
     [(0x00, 0x08), (0x0B, 0x0B), (0x0C, 0x0C), (0x0E, 0x1F), (0x7F, 0x7F), (0x80, 0xA2), (0xA4, 0xA4), (0xA6, 0xA9),
      (0xAB, 0xAF), (0xB4, 0xB4), (0xB6, 0xB8), (0xBB, 0xBF), (0x0180, 0x024F), (0xFFFD, 0xFFFD), (0xDC80, 0xDCFF)]"

definition isBinaryArtifact :: "nat \<Rightarrow> bool" where
  "isBinaryArtifact cp \<longleftrightarrow> list_ex (\<lambda>(lo, hi). lo \<le> cp \<and> cp \<le> hi) BINARY_ARTIFACT_RANGES"

text \<open>\<open>ch.length\<close>.\<close>

definition unit_count :: "nat \<Rightarrow> nat" where
  "unit_count cp = (if cp < 0x10000 then 1 else 2)"

subsection \<open>The table of running counts\<close>

fun prefix_counts :: "nat \<Rightarrow> nat list \<Rightarrow> nat list" where
  "prefix_counts count [] = []"
| "prefix_counts count (cp # cps) =
     (let count' = (if isBinaryArtifact cp then Suc count else count)
      in replicate (unit_count cp - 1) count @ count' # prefix_counts count' cps)"

definition buildBinaryPrefix :: "jtext \<Rightarrow> nat list" where
  "buildBinaryPrefix s = 0 # prefix_counts 0 (code_points s)"

definition BINARY_DENSITY_RADIUS :: nat where "BINARY_DENSITY_RADIUS = 64"
definition BINARY_DENSITY_LIMIT :: int where "BINARY_DENSITY_LIMIT = 4"

definition count_at :: "nat list \<Rightarrow> nat \<Rightarrow> int" where
  "count_at counts i = (if i < length counts then int (counts ! i) else 0)"

definition matchIsBinaryDensity :: "nat list option \<Rightarrow> nat \<Rightarrow> nat \<Rightarrow> bool" where
  "matchIsBinaryDensity binaryPrefix matchStart matchEnd \<longleftrightarrow>
     (case binaryPrefix of
        None \<Rightarrow> False
      | Some counts \<Rightarrow>
          (let high = min (matchEnd + BINARY_DENSITY_RADIUS) (length counts - 1); low = matchStart - BINARY_DENSITY_RADIUS
           in BINARY_DENSITY_LIMIT \<le> count_at counts high - count_at counts low))"

subsection \<open>Ratios\<close>

definition BINARY_CONTENT_RATIO_THRESHOLD :: rat where "BINARY_CONTENT_RATIO_THRESHOLD = 1 / 5"
definition BINARY_LIKE_ARTIFACT_RATIO :: rat where "BINARY_LIKE_ARTIFACT_RATIO = 1 / 5"

definition looksLikeBinaryContent :: "jtext \<Rightarrow> bool" where
  "looksLikeBinaryContent s \<longleftrightarrow>
     s \<noteq> [] \<and> BINARY_CONTENT_RATIO_THRESHOLD \<le>
       ratio_of (\<lambda>cp. cp \<notin> {9, 13, 10} \<and> (\<not> isPrintableCodePoint cp \<or> cp = 0xFFFD)) s"

definition valueIsBinaryLike :: "jtext \<Rightarrow> bool" where
  "valueIsBinaryLike s \<longleftrightarrow> s \<noteq> [] \<and> BINARY_LIKE_ARTIFACT_RATIO \<le> ratio_of isBinaryArtifact s"

subsection \<open>Islands\<close>

definition printableIslandRune :: "nat \<Rightarrow> bool" where
  "printableIslandRune cp \<longleftrightarrow>
     cp = 0x09 \<or> cp = 0x0A \<or> cp = 0x0D \<or> (0x20 \<le> cp \<and> cp \<le> 0x7E) \<or> (0xA1 \<le> cp \<and> cp \<le> 0xD7FF) \<or>
     (0xE000 \<le> cp \<and> cp \<le> 0xFFFC) \<or> (0xFFFE \<le> cp \<and> cp \<le> 0xFFFF) \<or> (0x10000 \<le> cp \<and> cp \<le> 0x10FFFF)"

text \<open>The loop over the code points, with the run it is in (its start, end and length) and the index.\<close>

record island_state =
  is_run :: "nat option"
  is_end :: nat
  is_len :: nat
  is_index :: nat
  is_islands :: "jtext list"

definition close_run :: "jtext \<Rightarrow> int \<Rightarrow> island_state \<Rightarrow> jtext list" where
  "close_run content minRunLength st =
     (case is_run st of
        Some a \<Rightarrow> if minRunLength \<le> int (is_len st) then is_islands st @ [slice a (is_end st) content] else is_islands st
      | None \<Rightarrow> is_islands st)"

definition island_step :: "jtext \<Rightarrow> int \<Rightarrow> nat \<Rightarrow> island_state \<Rightarrow> island_state" where
  "island_step content minRunLength cp st =
     (let next = is_index st + unit_count cp
      in if printableIslandRune cp
         then st\<lparr>is_run := (case is_run st of None \<Rightarrow> Some (is_index st) | Some a \<Rightarrow> Some a),
                 is_end := next, is_len := Suc (is_len st), is_index := next\<rparr>
         else st\<lparr>is_islands := close_run content minRunLength st, is_run := None, is_len := 0, is_index := next\<rparr>)"

definition extractBinaryIslands :: "jtext \<Rightarrow> int \<Rightarrow> jtext list" where
  "extractBinaryIslands content minRunLength =
     (if minRunLength \<le> 1 then [content]
      else close_run content minRunLength
             (fold (island_step content minRunLength) (code_points content)
                \<lparr>is_run = None, is_end = 0, is_len = 0, is_index = 0, is_islands = []\<rparr>))"

subsection \<open>What the table holds\<close>

text \<open>The code points of a text with the index behind each, and the artifacts up to an index.\<close>

fun ends_from :: "nat \<Rightarrow> nat list \<Rightarrow> (nat \<times> nat) list" where
  "ends_from i [] = []"
| "ends_from i (cp # cps) = (cp, i + unit_count cp) # ends_from (i + unit_count cp) cps"

definition artifacts_between :: "nat \<Rightarrow> nat \<Rightarrow> jtext \<Rightarrow> nat" where
  "artifacts_between lo hi s =
     length (filter (\<lambda>(cp, e). isBinaryArtifact cp \<and> lo < e \<and> e \<le> hi) (ends_from 0 (code_points s)))"

lemma unit_count_pos: "0 < unit_count cp"
  by (simp add: unit_count_def)

lemma ends_from_above: "(cp, e) \<in> set (ends_from i cps) \<Longrightarrow> i < e"
proof (induction cps arbitrary: i)
  case (Cons c cps)
  then show ?case using unit_count_pos [of c] by (fastforce dest: Cons.IH)
qed simp

definition total_units :: "nat list \<Rightarrow> nat" where
  "total_units cps = sum_list (map unit_count cps)"

lemma length_prefix_counts: "length (prefix_counts n cps) = total_units cps"
  by (induction cps arbitrary: n) (auto simp: total_units_def unit_count_def Let_def)

lemma prefix_counts_at:
  "k < total_units cps \<Longrightarrow>
   prefix_counts n cps ! k = n + length (filter (\<lambda>(cp, e). isBinaryArtifact cp \<and> e \<le> i + Suc k) (ends_from i cps))"
proof (induction cps arbitrary: n i k)
  case (Cons c cps)
  let ?u = "unit_count c" and ?n = "if isBinaryArtifact c then Suc n else n"
  have none: "filter (\<lambda>(cp, e). isBinaryArtifact cp \<and> e \<le> i + Suc k) (ends_from (i + ?u) cps) = []" if "Suc k \<le> ?u"
    using that by (auto simp: filter_empty_conv dest: ends_from_above)
  show ?case
  proof (cases "k < ?u")
    case True
    then show ?thesis
      using none by (auto simp: Let_def nth_append unit_count_def split: if_splits)
  next
    case False
    then obtain j where j: "k = ?u + j" using le_Suc_ex by force
    have "prefix_counts n (c # cps) ! k = prefix_counts ?n cps ! j"
      using j unit_count_pos [of c] by (auto simp: Let_def nth_append nth_Cons' unit_count_def)
    also have "\<dots> = ?n + length (filter (\<lambda>(cp, e). isBinaryArtifact cp \<and> e \<le> (i + ?u) + Suc j) (ends_from (i + ?u) cps))"
      by (rule Cons.IH) (use Cons.prems j in \<open>simp add: total_units_def\<close>)
    finally show ?thesis using j by (simp add: add.assoc)
  qed
qed (simp add: total_units_def)

lemma length_utf16_text: "length (utf16_text cps) = total_units cps"
  by (induction cps) (auto simp: utf16_text_def total_units_def length_utf16 unit_count_def)

definition unit_text :: "jtext \<Rightarrow> bool" where
  "unit_text s \<longleftrightarrow> (\<forall>u \<in> set s. u < 0x10000)"

lemma utf16_text_id: "unit_text s \<Longrightarrow> utf16_text (code_points s) = s"
  by (simp add: utf16_text_def unit_text_def code_points_join)

lemma length_prefix: "unit_text s \<Longrightarrow> length (buildBinaryPrefix s) = Suc (length s)"
  using length_utf16_text [of "code_points s"] by (simp add: buildBinaryPrefix_def length_prefix_counts utf16_text_id)

lemma count_at_prefix:
  assumes "unit_text s" and "i \<le> length s"
  shows "count_at (buildBinaryPrefix s) i = int (artifacts_between 0 i s)"
proof (cases i)
  case 0
  have "filter (\<lambda>(cp, e). isBinaryArtifact cp \<and> 0 < e \<and> e \<le> (0 :: nat)) xs = []" for xs by (auto simp: filter_empty_conv)
  then show ?thesis using 0 by (simp add: count_at_def buildBinaryPrefix_def artifacts_between_def)
next
  case (Suc k)
  have "k < total_units (code_points s)"
    using assms Suc length_utf16_text [of "code_points s"] by (simp add: utf16_text_id)
  from prefix_counts_at [OF this, of 0 0]
  have "prefix_counts 0 (code_points s) ! k =
      length (filter (\<lambda>(cp, e). isBinaryArtifact cp \<and> e \<le> i) (ends_from 0 (code_points s)))"
    using Suc by simp
  moreover have "filter (\<lambda>(cp, e). isBinaryArtifact cp \<and> e \<le> i) (ends_from 0 (code_points s)) =
      filter (\<lambda>(cp, e). isBinaryArtifact cp \<and> 0 < e \<and> e \<le> i) (ends_from 0 (code_points s))"
    by (rule filter_cong) (auto dest: ends_from_above)
  ultimately show ?thesis
    using assms Suc length_prefix [OF assms(1)] by (simp add: count_at_def buildBinaryPrefix_def artifacts_between_def)
qed

lemma ends_from_within: "(cp, e) \<in> set (ends_from i cps) \<Longrightarrow> e \<le> i + total_units cps"
proof (induction cps arbitrary: i)
  case (Cons c cps)
  then show ?case by (fastforce simp: total_units_def dest: Cons.IH)
qed simp

lemma artifacts_all: "unit_text s \<Longrightarrow> artifacts_between lo (min hi (length s)) s = artifacts_between lo hi s"
proof -
  assume s: "unit_text s"
  have "e \<le> length s" if "(cp, e) \<in> set (ends_from 0 (code_points s))" for cp e
    using ends_from_within [OF that] length_utf16_text [of "code_points s"] s by (simp add: utf16_text_id)
  then show ?thesis
    unfolding artifacts_between_def by (intro arg_cong [of _ _ length] filter_cong) auto
qed

lemma artifacts_split: "lo \<le> hi \<Longrightarrow> artifacts_between 0 hi s = artifacts_between 0 lo s + artifacts_between lo hi s"
proof -
  assume le: "lo \<le> hi"
  have "length (filter (\<lambda>(cp, e). isBinaryArtifact cp \<and> 0 < e \<and> e \<le> hi) xs) =
      length (filter (\<lambda>(cp, e). isBinaryArtifact cp \<and> 0 < e \<and> e \<le> lo) xs) +
      length (filter (\<lambda>(cp, e). isBinaryArtifact cp \<and> lo < e \<and> e \<le> hi) xs)" for xs :: "(nat \<times> nat) list"
    using le by (induction xs) auto
  then show ?thesis by (simp add: artifacts_between_def)
qed

subsection \<open>Runs\<close>

text \<open>The reference: the maximal runs of code points with a property, in order.\<close>

fun runs_with :: "(nat \<Rightarrow> bool) \<Rightarrow> nat list \<Rightarrow> nat list \<Rightarrow> nat list list" where
  "runs_with P r [] = (if r = [] then [] else [r])"
| "runs_with P r (c # cs) =
     (if P c then runs_with P (r @ [c]) cs else (if r = [] then [] else [r]) @ runs_with P [] cs)"

lemma runs_with_property:
  "\<forall>c \<in> set r. P c \<Longrightarrow> x \<in> set (runs_with P r cs) \<Longrightarrow> x \<noteq> [] \<and> (\<forall>c \<in> set x. P c)"
proof (induction P r cs arbitrary: x rule: runs_with.induct)
  case (1 P r)
  then show ?case by (simp split: if_splits)
next
  case (2 P r c cs)
  show ?case
  proof (cases "P c")
    case True
    then show ?thesis using 2(1) [of x] 2(3,4) by simp
  next
    case False
    then have "x = r \<and> r \<noteq> [] \<or> x \<in> set (runs_with P [] cs)" using 2(4) by (simp split: if_splits)
    then show ?thesis using 2(2) [of x] 2(3) False by auto
  qed
qed

lemma runs_with_content: "\<forall>c \<in> set r. P c \<Longrightarrow> concat (runs_with P r cs) = r @ filter P cs"
  by (induction P r cs rule: runs_with.induct) auto

definition kept :: "int \<Rightarrow> nat list list \<Rightarrow> jtext list" where
  "kept m rs = map utf16_text (filter (\<lambda>r. m \<le> int (length r)) rs)"

text \<open>The state of the loop after \<open>pre @ r\<close>, where \<open>r\<close> is the run it is in.\<close>

definition island_inv :: "nat list \<Rightarrow> nat list \<Rightarrow> island_state \<Rightarrow> bool" where
  "island_inv pre r st \<longleftrightarrow>
     is_index st = total_units (pre @ r) \<and> is_len st = length r \<and>
     (if r = [] then is_run st = None else is_run st = Some (total_units pre) \<and> is_end st = total_units (pre @ r))"

lemma close_run_inv:
  assumes "island_inv pre r st" and "content = utf16_text (pre @ r @ rest)" and "0 < m"
  shows "close_run content m st = is_islands st @ kept m (if r = [] then [] else [r])"
proof -
  have "total_units (pre @ r) = total_units pre + total_units r" by (simp add: total_units_def)
  then have "slice (total_units pre) (total_units (pre @ r)) content = utf16_text r"
    using slice_middle [of "utf16_text pre" "utf16_text r" "utf16_text rest"] assms(2)
    by (simp add: length_utf16_text flip: length_utf16_text) (simp add: utf16_text_def)
  then show ?thesis using assms(1) by (auto simp: close_run_def island_inv_def kept_def)
qed

lemma island_loop:
  assumes "island_inv pre r st" and "content = utf16_text (pre @ r @ rest)" and "0 < m"
  shows "close_run content m (fold (island_step content m) rest st) =
    is_islands st @ kept m (runs_with printableIslandRune r rest)"
  using assms
proof (induction rest arbitrary: pre r st)
  case Nil
  then show ?case using close_run_inv [of pre r st content "[]" m] by simp
next
  case (Cons c rest)
  let ?st = "island_step content m c st"
  show ?case
  proof (cases "printableIslandRune c")
    case True
    have "island_inv pre (r @ [c]) ?st"
      using Cons.prems(1) True by (auto simp: island_inv_def island_step_def Let_def total_units_def split: if_splits)
    moreover have "is_islands ?st = is_islands st" using True by (simp add: island_step_def Let_def)
    ultimately show ?thesis using Cons.IH [of pre "r @ [c]" ?st] Cons.prems True by simp
  next
    case False
    have "island_inv (pre @ r @ [c]) [] ?st"
      using Cons.prems(1) False by (auto simp: island_inv_def island_step_def Let_def total_units_def split: if_splits)
    moreover have "is_islands ?st = is_islands st @ kept m (if r = [] then [] else [r])"
      using close_run_inv [OF Cons.prems] False by (simp add: island_step_def Let_def)
    ultimately show ?thesis using Cons.IH [of "pre @ r @ [c]" "[]" ?st] Cons.prems False by (simp add: kept_def)
  qed
qed

subsection \<open>Properties\<close>

text \<open>
  C31: The density test with the table answers exactly whether at least four artifact characters end within
  64 units before the start of the match and 64 behind its end, surrogate pairs and the borders of
  the text included.
\<close>

theorem density_exact:
  assumes "unit_text s" and "matchStart \<le> matchEnd" and "matchStart \<le> length s"
  shows "matchIsBinaryDensity (Some (buildBinaryPrefix s)) matchStart matchEnd \<longleftrightarrow>
    4 \<le> artifacts_between (matchStart - 64) (matchEnd + 64) s"
proof -
  let ?hi = "min (matchEnd + 64) (length s)" and ?lo = "matchStart - 64"
  have "?lo \<le> ?hi" using assms by auto
  then have "artifacts_between 0 ?hi s = artifacts_between 0 ?lo s + artifacts_between ?lo (matchEnd + 64) s"
    using artifacts_split [of ?lo ?hi s] artifacts_all [OF assms(1)] by simp
  moreover have "count_at (buildBinaryPrefix s) ?hi = int (artifacts_between 0 ?hi s)"
    by (rule count_at_prefix [OF assms(1)]) simp
  moreover have "count_at (buildBinaryPrefix s) ?lo = int (artifacts_between 0 ?lo s)"
    by (rule count_at_prefix [OF assms(1)]) (use assms(3) in simp)
  ultimately show ?thesis
    using length_prefix [OF assms(1)]
    by (simp add: matchIsBinaryDensity_def BINARY_DENSITY_RADIUS_def BINARY_DENSITY_LIMIT_def Let_def)
qed

theorem density_exact_witness:
  "matchIsBinaryDensity (Some (buildBinaryPrefix [0, 1, 60, 2, 3])) 2 3 \<longleftrightarrow> 4 \<le> artifacts_between 0 67 [0, 1, 60, 2, 3]"
  using density_exact [of "[0, 1, 60, 2, 3]" 2 3] by (simp add: unit_text_def)

text \<open>
  C30: The islands of a payload are its maximal runs of printable code points that reach the minimum
  length, in order and unchanged; a minimum of one or less keeps the whole payload.
\<close>

theorem islands_exact:
  assumes "unit_text s"
  shows "extractBinaryIslands s m =
    (if m \<le> 1 then [s]
     else map utf16_text (filter (\<lambda>r. m \<le> int (length r)) (runs_with printableIslandRune [] (code_points s))))"
  using island_loop [of "[]" "[]" "\<lparr>is_run = None, is_end = 0, is_len = 0, is_index = 0, is_islands = []\<rparr>" s "code_points s" m]
    utf16_text_id [OF assms]
  by (simp add: extractBinaryIslands_def island_inv_def kept_def total_units_def)

theorem islands_exact_witness:
  "extractBinaryIslands [1, 97, 98, 0, 99] 2 = map utf16_text (filter (\<lambda>r. 2 \<le> int (length r)) [[97, 98], [99]])"
  using islands_exact [of "[1, 97, 98, 0, 99]" 2]
  by (simp add: unit_text_def printableIslandRune_def is_high_def)

text \<open>
  Artifact characters of Latin-1 and Latin Extended-B do not end an island: exactly the artifacts in
  C0, C1 and delete, the no-break space, the replacement character and the lone surrogates do.
\<close>

theorem some_artifacts_stay_in_islands:
  "isBinaryArtifact cp \<and> printableIslandRune cp \<longleftrightarrow>
     isBinaryArtifact cp \<and> 0xA1 \<le> cp \<and> cp \<le> 0x024F"
  unfolding isBinaryArtifact_def BINARY_ARTIFACT_RANGES_def printableIslandRune_def list_ex_iff
  by simp presburger

end
