(* ===== verification/Pattern_Engine.thy ===== *)
theory Pattern_Engine
  imports Binary_Content
begin

section \<open>Pattern matching (detection-engine/regex-compat.ts, scan-window.ts)\<close>

text \<open>
  The language's regular expressions are arguments of the model: an expression answers, for a text and
  a place, the length and the groups of its match there (the sticky flag), and the places of a global
  search are tried in turn. All the code around them is modelled: the translation of the sources, the
  anchored and bounded searches and the windows between a prefix and a terminator.
\<close>

subsection \<open>Expressions\<close>

type_synonym regex = "jtext \<Rightarrow> nat \<Rightarrow> (nat \<times> jtext list) option"

record rx_match =
  mt_text :: jtext
  mt_index :: nat
  mt_groups :: "jtext list"
  mt_input :: jtext

text \<open>An expression is compiled with a flag for multi-line anchors, which custom patterns get.\<close>

record compiled_pattern =
  cp_source :: jtext
  cp_re :: "bool \<Rightarrow> regex"

definition match_end :: "rx_match \<Rightarrow> nat" where
  "match_end m = mt_index m + length (mt_text m)"

text \<open>\<open>re.exec\<close> with the sticky flag.\<close>

definition exec_at :: "regex \<Rightarrow> jtext \<Rightarrow> nat \<Rightarrow> rx_match option" where
  "exec_at re s i =
     (if length s < i then None
      else map_option (\<lambda>(n, gs). \<lparr>mt_text = take n (drop i s), mt_index = i, mt_groups = gs, mt_input = s\<rparr>) (re s i))"

text \<open>\<open>re.exec\<close> with the global flag, from \<open>lastIndex\<close>.\<close>

definition exec_from :: "regex \<Rightarrow> jtext \<Rightarrow> nat \<Rightarrow> rx_match option" where
  "exec_from re s i =
     (case List.find (\<lambda>j. exec_at re s j \<noteq> None) [i..<Suc (length s)] of None \<Rightarrow> None | Some j \<Rightarrow> exec_at re s j)"

lemma exec_at_index: "exec_at re s i = Some m \<Longrightarrow> mt_index m = i \<and> i \<le> length s \<and> mt_input m = s"
  by (auto simp: exec_at_def split: if_splits)

lemma exec_from_index: "exec_from re s i = Some m \<Longrightarrow> i \<le> mt_index m \<and> mt_index m \<le> length s"
  by (auto simp: exec_from_def find_Some_iff split: option.splits dest!: exec_at_index nth_mem)

subsection \<open>Anchored and bounded searches\<close>

definition matchAt :: "compiled_pattern \<Rightarrow> jtext \<Rightarrow> nat \<Rightarrow> rx_match option" where
  "matchAt c s pos = exec_at (cp_re c False) s pos"

definition matchSpan :: "compiled_pattern \<Rightarrow> jtext \<Rightarrow> nat \<Rightarrow> nat \<Rightarrow> rx_match option" where
  "matchSpan c s start stop =
     (if stop < start then None
      else
        (case exec_at (cp_re c False) s start of
           None \<Rightarrow> None
         | Some m \<Rightarrow>
             if match_end m \<le> stop then Some m else exec_at (cp_re c False) (take stop s) start))"

function findall_from :: "regex \<Rightarrow> jtext \<Rightarrow> nat \<Rightarrow> rx_match list" where
  "findall_from re s i =
     (case exec_from re s i of
        None \<Rightarrow> []
      | Some m \<Rightarrow> m # findall_from re s (if mt_text m = [] then Suc (match_end m) else match_end m))"
  by pat_completeness auto
termination
proof (relation "measure (\<lambda>(re, s, i). Suc (length s) - i)", goal_cases)
  case (2 re s i m)
  then have "i \<le> mt_index m" "mt_index m \<le> length s" using exec_from_index [of re s i m] by auto
  then show ?case by (cases "mt_text m") (auto simp: match_end_def)
qed simp

declare findall_from.simps [simp del]

definition searchAt :: "compiled_pattern \<Rightarrow> jtext \<Rightarrow> nat \<Rightarrow> rx_match option" where
  "searchAt c s pos = exec_from (cp_re c False) s pos"

definition searchSpan :: "compiled_pattern \<Rightarrow> jtext \<Rightarrow> nat \<Rightarrow> nat \<Rightarrow> rx_match option" where
  "searchSpan c s start stop = exec_from (cp_re c False) (take stop s) start"

definition finditerSpan :: "compiled_pattern \<Rightarrow> jtext \<Rightarrow> nat \<Rightarrow> nat \<Rightarrow> rx_match list" where
  "finditerSpan c s start stop = findall_from (cp_re c False) (take stop s) start"

definition findall :: "compiled_pattern \<Rightarrow> jtext \<Rightarrow> rx_match list" where
  "findall c s = findall_from (cp_re c False) s 0"

definition pySearch :: "compiled_pattern \<Rightarrow> jtext \<Rightarrow> rx_match option" where
  "pySearch c s = exec_from (cp_re c False) s 0"

definition fullmatch :: "compiled_pattern \<Rightarrow> jtext \<Rightarrow> rx_match option" where
  "fullmatch c s =
     (case exec_at (cp_re c False) s 0 of
        Some m \<Rightarrow> if length (mt_text m) = length s then Some m else None
      | None \<Rightarrow> None)"

subsection \<open>Translation of the sources\<close>

text \<open>A text with tildes for backslashes.\<close>

definition tilde_text :: "string \<Rightarrow> jtext" where
  "tilde_text s = map (\<lambda>c. if c = 126 then 92 else c) (text_of s)"

definition PY_S_CLASS :: jtext where
  "PY_S_CLASS =
     tilde_text ''[~t~n~v~f~r ~u00a0~u1680~u2000-~u200a~u2028~u2029~u202f~u205f~u3000~u0085~u001c-~u001f]''"

definition END_ANCHOR :: jtext where "END_ANCHOR = tilde_text ''(?:~n?$)''"

function translate_loop :: "bool \<Rightarrow> jtext \<Rightarrow> jtext" where
  "translate_loop inClass [] = []"
| "translate_loop inClass [c] = (if c = 36 \<and> \<not> inClass then END_ANCHOR else [c])"
| "translate_loop inClass (c # n # s) =
     (if c = 92 then
        (if n = 65 then [94] else if n = 90 then [36] else if n = 115 \<and> \<not> inClass then PY_S_CLASS else [c, n]) @
          translate_loop inClass s
      else if c = 91 \<and> \<not> inClass then c # translate_loop True (n # s)
      else if c = 93 \<and> inClass then c # translate_loop False (n # s)
      else if c = 36 \<and> \<not> inClass then END_ANCHOR @ translate_loop inClass (n # s)
      else c # translate_loop inClass (n # s))"
  by pat_completeness auto
termination by (relation "measure (\<lambda>(k, s). length s)") auto

definition replace_text :: "jtext \<Rightarrow> jtext \<Rightarrow> jtext \<Rightarrow> jtext" where
  "replace_text sub rep s = replace_from (\<lambda>p t. if starts_with sub t then Some (length sub, rep) else None) None s"

definition CASE_WRAPPER :: jtext where "CASE_WRAPPER = text_of ''(?-i:''"

definition translateSource :: "jtext \<Rightarrow> bool \<Rightarrow> jtext \<times> bool" where
  "translateSource source ignoreCase =
     (let (s1, case1) = (if starts_with (text_of ''(?i)'') source then (drop 4 source, True) else (source, ignoreCase));
          (s2, case2) = (if text_includes CASE_WRAPPER s1 then (replace_text CASE_WRAPPER [40] s1, False) else (s1, case1))
      in (translate_loop False s2, case2))"

text \<open>\<open>new RegExp(source, flags)\<close> is an argument; \<open>None\<close> is a \<open>SyntaxError\<close>.\<close>

type_synonym regexp_constructor = "jtext \<Rightarrow> bool \<Rightarrow> (bool \<Rightarrow> regex) option"

definition compilePythonPattern :: "regexp_constructor \<Rightarrow> jtext \<Rightarrow> bool \<Rightarrow> compiled_pattern option" where
  "compilePythonPattern new_regexp source ignoreCase =
     (case translateSource source ignoreCase of
        (translated, effectiveCase) \<Rightarrow>
          map_option (\<lambda>re. \<lparr>cp_source = source, cp_re = re\<rparr>) (new_regexp translated effectiveCase))"

subsection \<open>Bounded windows\<close>

text \<open>
  The first candidate start below the ceiling with a match that fits, and the starts from it on; then
  the loop, which goes on behind the match.
\<close>

fun first_span :: "compiled_pattern \<Rightarrow> jtext \<Rightarrow> nat \<Rightarrow> nat list \<Rightarrow> (rx_match \<times> nat list) option" where
  "first_span c s limit [] = None"
| "first_span c s limit (start # starts) =
     (if limit \<le> start then None
      else
        (case matchSpan c s start limit of
           Some m \<Rightarrow> Some (m, start # starts)
         | None \<Rightarrow> first_span c s limit starts))"

lemma matchSpan_index: "matchSpan c s start stop = Some m \<Longrightarrow> mt_index m = start"
  by (auto simp: matchSpan_def split: option.splits if_splits dest: exec_at_index)

lemma first_span_head:
  "first_span c s limit starts = Some (m, rest) \<Longrightarrow>
   \<exists>more. rest = mt_index m # more \<and> length rest \<le> length starts"
  by (induction starts) (auto split: option.splits if_splits dest: matchSpan_index)

definition next_search :: "rx_match \<Rightarrow> nat" where
  "next_search m = (if mt_index m < match_end m then match_end m else Suc (mt_index m))"

function window_loop :: "compiled_pattern \<Rightarrow> jtext \<Rightarrow> nat \<Rightarrow> nat \<Rightarrow> nat list \<Rightarrow> rx_match list" where
  "window_loop c s limit searchFrom starts =
     (case first_span c s limit (dropWhile (\<lambda>i. i < searchFrom) starts) of
        None \<Rightarrow> []
      | Some (m, rest) \<Rightarrow> m # window_loop c s limit (next_search m) rest)"
  by pat_completeness auto
termination
proof (relation "measure (\<lambda>(c, s, limit, searchFrom, starts). length (dropWhile (\<lambda>i. i < searchFrom) starts))", goal_cases)
  case (2 c s limit searchFrom starts p m rest)
  then obtain more where more: "rest = mt_index m # more"
    "length rest \<le> length (dropWhile (\<lambda>i. i < searchFrom) starts)"
    using first_span_head [of c s limit "dropWhile (\<lambda>i. i < searchFrom) starts" m rest] by auto
  have "mt_index m < next_search m" by (simp add: next_search_def)
  then have "length (dropWhile (\<lambda>i. i < next_search m) rest) \<le> length more"
    by (simp add: more(1) length_dropWhile_le)
  then show ?case using more by simp
qed simp

declare window_loop.simps [simp del]

definition bounded_finditer :: "jtext \<Rightarrow> compiled_pattern \<Rightarrow> compiled_pattern \<Rightarrow> compiled_pattern \<Rightarrow> rx_match list" where
  "bounded_finditer s c pre terminator =
     (let terminatorEnds = map match_end (findall_from (cp_re terminator False) s 0);
          prefixStarts = map mt_index (findall_from (cp_re pre False) s 0)
      in if terminatorEnds = [] then []
         else if prefixStarts = [] then []
         else window_loop c s (last terminatorEnds) 0 prefixStarts)"


text \<open>
  What the windows promise: the matches come in order and apart, each is an anchored match of the
  pattern from an occurrence of the prefix that ends by the ceiling, and every occurrence of the prefix
  from which the pattern matches below the ceiling is covered by one of them.
\<close>

definition window_matches :: "compiled_pattern \<Rightarrow> jtext \<Rightarrow> nat \<Rightarrow> nat set \<Rightarrow> rx_match list \<Rightarrow> bool" where
  "window_matches c s limit starts ms =
     (sorted_wrt (\<lambda>a b. next_search a \<le> mt_index b) ms \<and>
      (\<forall>m \<in> set ms. mt_index m \<in> starts \<and> mt_index m < limit \<and> matchSpan c s (mt_index m) limit = Some m) \<and>
      (\<forall>i \<in> starts. i < limit \<longrightarrow> matchSpan c s i limit \<noteq> None \<longrightarrow>
         (\<exists>m \<in> set ms. mt_index m \<le> i \<and> i < next_search m)))"

lemma first_span_Some:
  "first_span c s limit starts = Some (m, rest) \<Longrightarrow>
   \<exists>skipped more. starts = skipped @ rest \<and> rest = mt_index m # more \<and> mt_index m < limit \<and>
     matchSpan c s (mt_index m) limit = Some m \<and> (\<forall>i \<in> set skipped. matchSpan c s i limit = None)"
proof (induction starts)
  case (Cons i starts)
  then have low: "i < limit" by (auto split: if_splits)
  show ?case
  proof (cases "matchSpan c s i limit")
    case None
    then obtain skipped more where "starts = skipped @ rest" "rest = mt_index m # more" "mt_index m < limit"
      "matchSpan c s (mt_index m) limit = Some m" "\<forall>i \<in> set skipped. matchSpan c s i limit = None"
      using Cons low by auto
    then show ?thesis using None by - (rule exI [of _ "i # skipped"], rule exI [of _ more], simp)
  next
    case (Some m')
    then have "m = m'" "rest = i # starts" using Cons.prems low by auto
    then show ?thesis using Some low matchSpan_index [OF Some] by simp
  qed
qed simp

lemma first_span_None:
  "first_span c s limit starts = None \<Longrightarrow> sorted starts \<Longrightarrow> i \<in> set starts \<Longrightarrow> i < limit \<Longrightarrow>
   matchSpan c s i limit = None"
  by (induction starts) (auto split: option.splits if_splits)

lemma dropWhile_sorted:
  "sorted (xs :: nat list) \<Longrightarrow> set (dropWhile (\<lambda>i. i < n) xs) = {i \<in> set xs. n \<le> i}"
  by (induction xs) auto

lemma mt_index_next: "mt_index m < next_search m"
  by (simp add: next_search_def)

lemma window_matches_Cons:
  assumes "window_matches c s limit {i \<in> later. next_search m \<le> i} ms" "mt_index m < limit"
    "matchSpan c s (mt_index m) limit = Some m" "mt_index m \<in> starts" "{i \<in> later. next_search m \<le> i} \<subseteq> starts"
    "\<And>i. i \<in> starts \<Longrightarrow> matchSpan c s i limit \<noteq> None \<Longrightarrow> i \<in> later \<and> mt_index m \<le> i"
  shows "window_matches c s limit starts (m # ms)"
  unfolding window_matches_def
proof (intro conjI ballI impI)
  show "sorted_wrt (\<lambda>a b. next_search a \<le> mt_index b) (m # ms)"
    using assms(1) by (simp add: window_matches_def)
next
  fix x assume x: "x \<in> set (m # ms)"
  have "mt_index x \<in> starts \<and> mt_index x < limit \<and> matchSpan c s (mt_index x) limit = Some x"
  proof (cases "x = m")
    case True then show ?thesis using assms(2,3,4) by simp
  next
    case False
    then have "x \<in> set ms" using x by simp
    then have "mt_index x \<in> {i \<in> later. next_search m \<le> i}" "mt_index x < limit"
      "matchSpan c s (mt_index x) limit = Some x"
      using assms(1) unfolding window_matches_def by blast+
    then show ?thesis using assms(5) by blast
  qed
  then show "mt_index x \<in> starts" and "mt_index x < limit" and "matchSpan c s (mt_index x) limit = Some x"
    by (simp_all only: simp_thms)
next
  fix i assume i: "i \<in> starts" "i < limit" "matchSpan c s i limit \<noteq> None"
  have "i \<in> later \<and> mt_index m \<le> i" by (rule assms(6) [OF i(1) i(3)])
  moreover have "\<exists>x \<in> set ms. mt_index x \<le> i \<and> i < next_search x" if "i \<in> later" "next_search m \<le> i"
    using assms(1) that i(2,3) unfolding window_matches_def by blast
  ultimately show "\<exists>x \<in> set (m # ms). mt_index x \<le> i \<and> i < next_search x"
    by (cases "i < next_search m") simp_all
qed

lemma window_loop_matches:
  "sorted starts \<Longrightarrow>
   window_matches c s limit {i \<in> set starts. searchFrom \<le> i} (window_loop c s limit searchFrom starts)"
proof (induction c s limit searchFrom starts rule: window_loop.induct)
  case (1 c s limit searchFrom starts)
  define D where "D = dropWhile (\<lambda>i. i < searchFrom) starts"
  have sorted: "sorted D" using 1(2) by (simp add: D_def sorted_dropWhile)
  have set_D: "{i \<in> set starts. searchFrom \<le> i} = set D" using 1(2) by (simp add: D_def dropWhile_sorted)
  show ?case
  proof (cases "first_span c s limit D")
    case None
    then have "window_loop c s limit searchFrom starts = []" by (subst window_loop.simps) (simp add: D_def)
    then show ?thesis using first_span_None [OF None sorted] by (simp add: set_D window_matches_def)
  next
    case (Some p)
    obtain m rest where p: "p = (m, rest)" by (cases p)
    obtain skipped more where split: "D = skipped @ rest" "rest = mt_index m # more" "mt_index m < limit"
      "matchSpan c s (mt_index m) limit = Some m" "\<forall>i \<in> set skipped. matchSpan c s i limit = None"
      using first_span_Some [of c s limit D m rest] Some p by auto
    have rest: "sorted rest" using sorted by (simp add: split(1) sorted_append)
    have ih: "window_matches c s limit {i \<in> set rest. next_search m \<le> i} (window_loop c s limit (next_search m) rest)"
      by (rule 1(1) [OF Some [unfolded D_def] p [symmetric] rest])
    have "window_loop c s limit searchFrom starts = m # window_loop c s limit (next_search m) rest"
      using Some p by (subst window_loop.simps) (simp add: D_def)
    moreover have "window_matches c s limit (set D) (m # window_loop c s limit (next_search m) rest)"
    proof (rule window_matches_Cons [OF ih split(3,4)])
      show "mt_index m \<in> set D" "{i \<in> set rest. next_search m \<le> i} \<subseteq> set D" by (auto simp: split(1,2))
      fix i assume "i \<in> set D" "matchSpan c s i limit \<noteq> None"
      then have "i \<in> set rest" using split(1,5) by auto
      moreover from this have "mt_index m \<le> i" using rest by (auto simp: split(2))
      ultimately show "i \<in> set rest \<and> mt_index m \<le> i" by (rule conjI)
    qed
    ultimately show ?thesis by (simp add: set_D)
  qed
qed

lemma findall_from_sorted:
  "sorted_wrt (<) (map mt_index (findall_from re s i)) \<and> (\<forall>m \<in> set (findall_from re s i). i \<le> mt_index m)"
proof (induction re s i rule: findall_from.induct)
  case (1 re s i)
  show ?case
  proof (cases "exec_from re s i")
    case None then show ?thesis by (subst findall_from.simps, subst (2) findall_from.simps) simp
  next
    case (Some m)
    define k where "k = (if mt_text m = [] then Suc (match_end m) else match_end m)"
    have "findall_from re s i = m # findall_from re s k" using Some by (subst findall_from.simps) (simp add: k_def)
    moreover have "mt_index m < k" by (cases "mt_text m") (auto simp: k_def match_end_def)
    moreover have "i \<le> mt_index m" using exec_from_index [OF Some] by simp
    moreover have "sorted_wrt (<) (map mt_index (findall_from re s k)) \<and> (\<forall>x \<in> set (findall_from re s k). k \<le> mt_index x)"
      using 1 [OF Some] by (simp add: k_def)
    ultimately show ?thesis by fastforce
  qed
qed

definition occurrences :: "compiled_pattern \<Rightarrow> jtext \<Rightarrow> nat set" where
  "occurrences c s = set (map mt_index (findall_from (cp_re c False) s 0))"

text \<open>
  The bounded search of a pattern between a prefix and a terminator (the guard against quadratic
  scans) returns nothing when the terminator does not occur. Otherwise, with the end of the last
  terminator as its ceiling, its matches come in order and do not overlap, each is the anchored match of
  the pattern at an occurrence of the prefix and below the ceiling, and no match is lost: every
  occurrence of the prefix from which the pattern matches below the ceiling lies in one of the matches.
\<close>

theorem bounded_search_exact:
  "if findall terminator s = [] then bounded_finditer s c pre terminator = []
   else window_matches c s (match_end (last (findall terminator s))) (occurrences pre s)
          (bounded_finditer s c pre terminator)"
proof (cases "findall terminator s = []")
  case True then show ?thesis by (simp add: bounded_finditer_def findall_def)
next
  case False
  define starts where "starts = map mt_index (findall_from (cp_re pre False) s 0)"
  have "bounded_finditer s c pre terminator = window_loop c s (match_end (last (findall terminator s))) 0 starts"
    using False by (simp add: bounded_finditer_def findall_def starts_def last_map window_loop.simps)
  moreover have "sorted starts"
    using findall_from_sorted [of "cp_re pre False" s 0] by (simp add: starts_def strict_sorted_iff)
  ultimately show ?thesis using False window_loop_matches [of starts c s _ 0]
    by (simp add: occurrences_def starts_def)
qed

end
