(* ===== verification/Html_Unescape.thy ===== *)
theory Html_Unescape
  imports Html_Entity_Table Encoding_Decoders
begin

section \<open>HTML unescaping (detection-engine/encoding-decoders.ts)\<close>

text \<open>
  \<open>htmlUnescape\<close>, meant as Python's \<open>html.unescape\<close>. The table is an object literal, so a name it does
  not hold is looked up in \<open>Object.prototype\<close>, whose members are rendered as text.
\<close>

definition native_function :: "string \<Rightarrow> string" where
  "native_function n = ''function '' @ n @ ''() { [native code] }''"

definition OBJECT_PROTOTYPE :: "(string \<times> string) list" where
  "OBJECT_PROTOTYPE = (''__proto__'', ''[object Object]'') # (''constructor'', native_function ''Object'') #
     map (\<lambda>n. (n, native_function n))
       [''__defineGetter__'', ''__defineSetter__'', ''hasOwnProperty'', ''__lookupGetter__'', ''__lookupSetter__'',
        ''isPrototypeOf'', ''propertyIsEnumerable'', ''toString'', ''valueOf'', ''toLocaleString'']"

text \<open>\<open>HTML5_ENTITIES[name]\<close>.\<close>

definition entity_lookup :: "jtext \<Rightarrow> jtext option" where
  "entity_lookup name =
     (case List.find (\<lambda>(k, _). text_of k = name) HTML5_ENTITIES of
        Some (_, v) \<Rightarrow> Some v
      | None \<Rightarrow> map_option (\<lambda>(_, v). text_of v) (List.find (\<lambda>(k, _). text_of k = name) OBJECT_PROTOTYPE))"

subsection \<open>References\<close>

definition dec_digit :: "nat \<Rightarrow> bool" where "dec_digit c \<longleftrightarrow> 48 \<le> c \<and> c \<le> 57"
definition is_hex :: "nat \<Rightarrow> bool" where "is_hex c \<longleftrightarrow> hex_value c \<noteq> None"

definition name_char :: "nat \<Rightarrow> bool" where
  "name_char c \<longleftrightarrow> c \<notin> {9, 10, 12, 32, 60, 38, 35, 59}"

definition with_semicolon :: "nat \<Rightarrow> jtext \<Rightarrow> nat" where
  "with_semicolon n s = (if starts_with [59] (drop n s) then Suc n else n)"

text \<open>The length of the reference that begins after an ampersand.\<close>

definition charref_length :: "jtext \<Rightarrow> nat option" where
  "charref_length s =
     (if starts_with [35] s then
        (let ds = takeWhile dec_digit (drop 1 s);
             hs = takeWhile is_hex (drop 2 s)
         in if ds \<noteq> [] then Some (with_semicolon (1 + length ds) s)
            else if (starts_with [120] (drop 1 s) \<or> starts_with [88] (drop 1 s)) \<and> hs \<noteq> []
            then Some (with_semicolon (2 + length hs) s)
            else None)
      else
        (let n = min 32 (length (takeWhile name_char s))
         in if n = 0 then None else Some (with_semicolon n s)))"

definition strip_semicolons :: "jtext \<Rightarrow> jtext" where
  "strip_semicolons s = rev (dropWhile (\<lambda>c. c = 59) (rev s))"

text \<open>\<open>Number.parseInt\<close> of a text of digits.\<close>

definition parse_digits :: "nat \<Rightarrow> jtext \<Rightarrow> nat" where
  "parse_digits base s = foldl (\<lambda>a c. base * a + (case hex_value c of Some v \<Rightarrow> v | None \<Rightarrow> 0)) 0 s"

definition char_reference :: "nat \<Rightarrow> jtext" where
  "char_reference n =
     (case map_of INVALID_CHARREFS n of
        Some r \<Rightarrow> r
      | None \<Rightarrow>
          if (0xD800 \<le> n \<and> n \<le> 0xDFFF) \<or> 0x10FFFF < n then [0xFFFD]
          else if n \<in> set INVALID_CODEPOINTS then []
          else utf16 n)"

text \<open>The longest known name that the body begins with, tried from \<open>x\<close> units down to two.\<close>

fun longest_name :: "nat \<Rightarrow> jtext \<Rightarrow> jtext" where
  "longest_name 0 body = 38 # body"
| "longest_name (Suc x) body =
     (if x < 1 then 38 # body
      else case entity_lookup (take (Suc x) body) of
             Some v \<Rightarrow> v @ drop (Suc x) body
           | None \<Rightarrow> longest_name x body)"

definition replaceCharref :: "jtext \<Rightarrow> jtext" where
  "replaceCharref body =
     (if starts_with [35] body then
        char_reference
          (if starts_with [120] (drop 1 body) \<or> starts_with [88] (drop 1 body)
           then parse_digits 16 (strip_semicolons (drop 2 body))
           else parse_digits 10 (strip_semicolons (drop 1 body)))
      else
        (case entity_lookup body of
           Some v \<Rightarrow> v
         | None \<Rightarrow> longest_name (length body - 1) body))"

definition charref_match :: matcher where
  "charref_match p s =
     (if starts_with [38] s
      then map_option (\<lambda>n. (Suc n, replaceCharref (take n (drop 1 s)))) (charref_length (drop 1 s))
      else None)"

definition htmlUnescape :: "jtext \<Rightarrow> jtext" where
  "htmlUnescape content = (if 38 \<notin> set content then content else replace_from charref_match None content)"

subsection \<open>One reference after another\<close>

lemma unescape_replace: "htmlUnescape s = replace_from charref_match p s"
proof -
  have any: "replace_from charref_match p s = replace_from charref_match q s" for p q s
    by (cases s) (simp_all add: charref_match_def)
  have "replace_from charref_match p s = s" if "38 \<notin> set s" for s
    using that by (intro replace_none) (auto simp: charref_match_def)
  then show ?thesis using any by (simp add: htmlUnescape_def)
qed

lemma unescape_prefix: "38 \<notin> set a \<Longrightarrow> htmlUnescape (a @ s) = a @ htmlUnescape s"
proof (induction a)
  case (Cons c a)
  have "charref_match p (c # t) = None" for p t using Cons.prems by (simp add: charref_match_def)
  then show ?case
    using Cons by (simp add: unescape_replace [of "c # a @ s" None] unescape_replace [of "a @ s" "Some c"])
qed simp

lemma unescape_reference:
  assumes "charref_length (body @ s) = Some (length body)"
  shows "htmlUnescape (38 # body @ s) = replaceCharref body @ htmlUnescape s"
proof -
  have "charref_match None (38 # body @ s) = Some (Suc (length body), replaceCharref body)"
    using assms by (simp add: charref_match_def)
  then show ?thesis
    by (simp add: unescape_replace [of "38 # body @ s" None] unescape_replace [of s "Some (last (38 # body))"])
qed

subsection \<open>Numbers\<close>

lemma digits_of_number:
  "list_all dec_digit (text_of (show_nat n))" "parse_digits 10 (text_of (show_nat n)) = n"
proof (induction n rule: show_nat.induct)
  case (1 n)
  have d: "dec_digit (48 + n mod 10)" "hex_value (48 + n mod 10) = Some (n mod 10)" for n
    by (auto simp: dec_digit_def hex_value_def)
  have c: "(of_char (char_of (48 + n mod 10) :: char) :: nat) = 48 + n mod 10" for n by simp
  have snoc: "parse_digits 10 (s @ [48 + n mod 10]) = 10 * parse_digits 10 s + n mod 10" for s
    by (simp add: parse_digits_def d)
  have digits: "list_all dec_digit (text_of (show_nat n)) \<and> parse_digits 10 (text_of (show_nat n)) = n"
  proof (cases "n < 10")
    case True
    then show ?thesis using d [of n] by (subst (1 2) show_nat.simps) (simp add: text_of_def parse_digits_def)
  next
    case False
    then show ?thesis
      using "1.IH" d [of n] snoc [of "text_of (show_nat (n div 10))"]
      by (subst (1 2) show_nat.simps) (simp add: text_of_def)
  qed
  then show "list_all dec_digit (text_of (show_nat n))" "parse_digits 10 (text_of (show_nat n)) = n" by blast+
qed

lemma takeWhile_all: "list_all P s \<Longrightarrow> \<not> P x \<Longrightarrow> takeWhile P (s @ x # t) = s"
  by (induction s) auto

lemma decimal_reference:
  "charref_length ((35 # text_of (show_nat n) @ [59]) @ s) = Some (length (35 # text_of (show_nat n) @ [59]))"
  "replaceCharref (35 # text_of (show_nat n) @ [59]) = char_reference n"
proof -
  let ?ds = "text_of (show_nat n)"
  have ne: "?ds \<noteq> []" by (simp add: text_of_def)
  have "takeWhile dec_digit (?ds @ 59 # s) = ?ds"
    using digits_of_number(1) [of n] by (intro takeWhile_all) (simp_all add: dec_digit_def)
  then show "charref_length ((35 # ?ds @ [59]) @ s) = Some (length (35 # ?ds @ [59]))"
    using ne by (simp add: charref_length_def with_semicolon_def Let_def)
  obtain d ds where d: "?ds = d # ds" "dec_digit d" using ne digits_of_number(1) [of n] by (cases ?ds) auto
  have "strip_semicolons (?ds @ [59]) = ?ds"
  proof -
    have "dec_digit (last ?ds)" using ne digits_of_number(1) [of n] last_in_set [of ?ds] by (auto simp: list_all_iff)
    then have "last ?ds \<noteq> 59" by (auto simp: dec_digit_def)
    then have "dropWhile (\<lambda>c. c = 59) (rev ?ds) = rev ?ds"
      using ne by (cases ?ds rule: rev_cases) auto
    then show ?thesis by (simp add: strip_semicolons_def)
  qed
  then show "replaceCharref (35 # ?ds @ [59]) = char_reference n"
    using d digits_of_number(2) [of n] by (simp add: replaceCharref_def dec_digit_def)
qed

text \<open>A name with its semicolon, as the expression reads it.\<close>

lemma named_reference:
  assumes "name \<noteq> []" and "length name \<le> 32" and "list_all name_char name"
  shows "charref_length ((name @ [59]) @ s) = Some (length (name @ [59]))"
proof -
  have "takeWhile name_char (name @ 59 # s) = name"
    using assms(3) by (intro takeWhile_all) (simp_all add: name_char_def)
  moreover have "hd name \<noteq> 35" using assms(1,3) by (cases name) (auto simp: name_char_def)
  ultimately show ?thesis
    using assms(1,2) by (cases name) (simp_all add: charref_length_def with_semicolon_def Let_def min_def)
qed

subsection \<open>Properties\<close>

text \<open>
  A named reference of the table, written with its semicolon, is replaced by its text wherever it
  stands, and nothing of what follows is read as part of it.
\<close>

theorem named_references_decoded:
  assumes "38 \<notin> set a" and "name \<noteq> []" "length name \<le> 32" "list_all name_char name"
    and "entity_lookup (name @ [59]) = Some v"
  shows "htmlUnescape (a @ [38] @ name @ [59] @ s) = a @ v @ htmlUnescape s"
proof -
  have "\<not> starts_with [35] (name @ [59])" using assms(2,4) by (cases name) (auto simp: name_char_def)
  then have "replaceCharref (name @ [59]) = v" using assms(5) by (simp add: replaceCharref_def)
  then have "htmlUnescape (38 # (name @ [59]) @ s) = v @ htmlUnescape s"
    using unescape_reference [OF named_reference [OF assms(2,3,4)]] by simp
  then show ?thesis using unescape_prefix [OF assms(1)] by simp
qed

lemma find_third: "\<not> P a \<Longrightarrow> \<not> P b \<Longrightarrow> P c \<Longrightarrow> List.find P (a # b # c # t) = Some c"
  by simp

lemma find_first_part: "List.find P xs = Some y \<Longrightarrow> List.find P (concat (xs # xss)) = Some y"
  by (induction xs) auto

lemma lookup_Aacute: "entity_lookup (text_of ''Aacute'' @ [59]) = Some [193]"
proof -
  have "List.find (\<lambda>(k, _). text_of k = text_of ''Aacute'' @ [59]) HTML5_ENTITIES = Some (''Aacute;'', [193])"
    unfolding HTML5_ENTITIES_def
    by (rule find_first_part, unfold html_entities_1_def, rule find_third) (simp_all add: text_of_def)
  then show ?thesis by (simp add: entity_lookup_def)
qed

theorem named_references_decoded_witness:
  "htmlUnescape ([] @ [38] @ text_of ''Aacute'' @ [59] @ [97]) = [] @ [193] @ [97]"
proof -
  have "htmlUnescape [97] = [97]" by (simp add: htmlUnescape_def)
  moreover have "list_all name_char (text_of ''Aacute'')" by (simp add: name_char_def text_of_def)
  ultimately show ?thesis
    using named_references_decoded [of "[]" "text_of ''Aacute''" "[193]" "[97]"] lookup_Aacute
    by (simp add: text_of_def)
qed

text \<open>
  No name of the table begins with an underscore, so \<open>__proto__\<close> is looked up in \<open>Object.prototype\<close>.
\<close>

definition plain_names :: "(string \<times> jtext) list \<Rightarrow> bool" where
  "plain_names es \<longleftrightarrow> list_all (\<lambda>(k, _). hd k \<noteq> CHR ''_'') es"

lemma plain_names_1: "plain_names html_entities_1"
  by (simp add: plain_names_def html_entities_1_def)

lemma plain_names_2: "plain_names html_entities_2"
  by (simp add: plain_names_def html_entities_2_def)

lemma plain_names_3: "plain_names html_entities_3"
  by (simp add: plain_names_def html_entities_3_def)

lemma plain_names_4: "plain_names html_entities_4"
  by (simp add: plain_names_def html_entities_4_def)

lemma plain_names_5: "plain_names html_entities_5"
  by (simp add: plain_names_def html_entities_5_def)

lemma plain_names_6: "plain_names html_entities_6"
  by (simp add: plain_names_def html_entities_6_def)

lemma plain_names_7: "plain_names html_entities_7"
  by (simp add: plain_names_def html_entities_7_def)

lemma plain_names_8: "plain_names html_entities_8"
  by (simp add: plain_names_def html_entities_8_def)

lemma plain_names_9: "plain_names html_entities_9"
  by (simp add: plain_names_def html_entities_9_def)

lemma plain_names_10: "plain_names html_entities_10"
  by (simp add: plain_names_def html_entities_10_def)

lemma plain_names_11: "plain_names html_entities_11"
  by (simp add: plain_names_def html_entities_11_def)

lemma plain_names_12: "plain_names html_entities_12"
  by (simp add: plain_names_def html_entities_12_def)

lemma plain_names_13: "plain_names html_entities_13"
  by (simp add: plain_names_def html_entities_13_def)

lemma plain_names_14: "plain_names html_entities_14"
  by (simp add: plain_names_def html_entities_14_def)

lemma plain_names_15: "plain_names html_entities_15"
  by (simp add: plain_names_def html_entities_15_def)

lemma plain_names_16: "plain_names html_entities_16"
  by (simp add: plain_names_def html_entities_16_def)

lemmas plain_names_parts = plain_names_1 plain_names_2 plain_names_3 plain_names_4 plain_names_5 plain_names_6 plain_names_7 plain_names_8
  plain_names_9 plain_names_10 plain_names_11 plain_names_12 plain_names_13 plain_names_14 plain_names_15 plain_names_16

lemma table_names: "(k, v) \<in> set HTML5_ENTITIES \<Longrightarrow> hd k \<noteq> CHR ''_''"
  using plain_names_parts by (auto simp: HTML5_ENTITIES_def plain_names_def list_all_iff)

lemma not_in_table: "hd k = CHR ''_'' \<Longrightarrow> List.find (\<lambda>(n, _). text_of n = text_of k) HTML5_ENTITIES = None"
proof -
  assume k: "hd k = CHR ''_''"
  have "inj (of_char :: char \<Rightarrow> nat)" by (simp add: inj_on_def)
  then have "text_of n = text_of k \<longleftrightarrow> n = k" for n by (simp add: text_of_def)
  then show ?thesis using k table_names by (force simp: find_None_iff)
qed

text \<open>
  The reference \<open>&__proto__;\<close>, which HTML does not know, is replaced by the rendering of an object.
\<close>

theorem prototype_members_are_entities:
  "htmlUnescape (text_of ''&__proto__;'') = text_of ''[object Object];''"
proof -
  let ?body = "text_of ''__proto__;''"
  have "charref_length (?body @ []) = Some (length ?body)" by (simp add: charref_length_def text_of_def
        name_char_def with_semicolon_def Let_def)
  from unescape_reference [OF this] have "htmlUnescape (38 # ?body) = replaceCharref ?body"
    by (simp add: htmlUnescape_def)
  moreover have "entity_lookup ?body = None"
    by (simp add: entity_lookup_def not_in_table OBJECT_PROTOTYPE_def native_function_def) (simp add: text_of_def)
  moreover have "entity_lookup (text_of ''__proto__'') = Some (text_of ''[object Object]'')"
    by (simp add: entity_lookup_def not_in_table OBJECT_PROTOTYPE_def)
  moreover have "longest_name 9 ?body = text_of ''[object Object];''"
  proof -
    have "take 9 ?body = text_of ''__proto__''" "drop 9 ?body = [59]" by (simp_all add: text_of_def)
    moreover have "longest_name 9 ?body =
        (case entity_lookup (take 9 ?body) of Some v \<Rightarrow> v @ drop 9 ?body | None \<Rightarrow> longest_name 8 ?body)"
    proof -
      have nine: "(9 :: nat) = Suc 8" by simp
      show ?thesis by (simp only: nine longest_name.simps(2)) simp
    qed
    ultimately show ?thesis using \<open>entity_lookup (text_of ''__proto__'') = _\<close> by (simp add: text_of_def)
  qed
  moreover have "length ?body - 1 = 9" "\<not> starts_with [35] ?body" by (simp_all add: text_of_def)
  ultimately have "htmlUnescape (38 # ?body) = text_of ''[object Object];''" by (simp add: replaceCharref_def)
  then show ?thesis by (simp add: text_of_def)
qed

end
