(* ===== verification/Legacy_Ipv4.thy ===== *)
theory Legacy_Ipv4
  imports Html_Unescape
begin

section \<open>Legacy IPv4 hosts (detection-engine/patterns/ldap-ipv4.ts)\<close>

text \<open>
  The validator behind the pattern for hosts written the old way (\<open>http://0x7f000001/\<close>,
  \<open>http://017700000001/\<close>, \<open>http://127.1/\<close>): one to four parts, each decimal, octal or hexadecimal, the
  last of which fills the remaining bytes. Numbers are those of the language: the digits are read as
  doubles, which are exact below \<open>2^53\<close> and keep the order of larger ones, and the shifts work on
  signed 32-bit integers.
\<close>

subsection \<open>The code\<close>

definition BLOCKED_IPV4_RANGES :: "(int \<times> int) list" where
  "BLOCKED_IPV4_RANGES =
     [(0, 0x00FFFFFF), (0x7F000000, 0x7FFFFFFF), (0x0A000000, 0x0AFFFFFF), (0xAC100000, 0xAC1FFFFF),
      (0xC0A80000, 0xC0A8FFFF), (0xA9FE0000, 0xA9FEFFFF), (0x646464C8, 0x646464C8)]"

text \<open>\<open>parseInt\<close> of digits of a base.\<close>

definition digits_value :: "nat \<Rightarrow> jtext \<Rightarrow> nat" where
  "digits_value base ds = foldl (\<lambda>a c. base * a + (case hex_value c of Some v \<Rightarrow> v | None \<Rightarrow> 0)) 0 ds"

definition oct_digit :: "nat \<Rightarrow> bool" where "oct_digit c \<longleftrightarrow> 48 \<le> c \<and> c \<le> 55"

definition decodeLegacyIpv4Part :: "jtext \<Rightarrow> nat option" where
  "decodeLegacyIpv4Part part =
     (if starts_with [48, 120] part \<or> starts_with [48, 88] part then
        (let digits = drop 2 part
         in if digits = [] then None
            else if \<not> list_all is_hex digits then None
            else Some (digits_value 16 digits))
      else if starts_with [48] part \<and> 1 < length part then
        (let digits = drop 1 part
         in if digits \<noteq> [] \<and> list_all oct_digit digits then Some (digits_value 8 digits) else None)
      else if part \<noteq> [] \<and> list_all dec_digit part then Some (digits_value 10 part)
      else None)"

definition MIN_BARE_DECIMAL_LEGACY_IPV4 :: nat where "MIN_BARE_DECIMAL_LEGACY_IPV4 = 2 ^ 24"

definition isBareDecimalLegacyIpv4Part :: "jtext \<Rightarrow> bool" where
  "isBareDecimalLegacyIpv4Part part \<longleftrightarrow> part = [48] \<or> \<not> starts_with [48] part"

definition isAmbiguousBareDecimalPort :: "jtext list \<Rightarrow> nat list \<Rightarrow> bool" where
  "isAmbiguousBareDecimalPort parts decoded \<longleftrightarrow>
     (case decoded of
        [v] \<Rightarrow> v \<noteq> 0 \<and> v < MIN_BARE_DECIMAL_LEGACY_IPV4 \<and> isBareDecimalLegacyIpv4Part (hd parts)
      | _ \<Rightarrow> False)"

fun decode_parts :: "jtext list \<Rightarrow> nat list option" where
  "decode_parts [] = Some []"
| "decode_parts (p # ps) =
     (case decodeLegacyIpv4Part p of None \<Rightarrow> None | Some v \<Rightarrow> map_option (Cons v) (decode_parts ps))"

text \<open>\<open>(result << 8) | value\<close> on 32 bits; a shift count counts modulo 32.\<close>

definition shift_or :: "nat \<Rightarrow> 32 word \<Rightarrow> nat \<Rightarrow> 32 word" where
  "shift_or n r v = push_bit (n mod 32) r OR of_nat v"

definition decodeLegacyIpv4Host :: "jtext \<Rightarrow> int option" where
  "decodeLegacyIpv4Host host =
     (let parts = split_on 46 host
      in if 4 < length parts then None
         else
           (case decode_parts parts of
              None \<Rightarrow> None
            | Some decoded \<Rightarrow>
                (let remainingBits = 8 * (5 - length decoded)
                 in if isAmbiguousBareDecimalPort parts decoded then None
                    else if list_ex (\<lambda>v. 255 < v) (butlast decoded) then None
                    else if 2 ^ remainingBits \<le> last decoded then None
                    else Some (sint (shift_or remainingBits (foldl (shift_or 8) 0 (butlast decoded)) (last decoded))))))"

definition isBlockedLegacyIpv4 :: "int \<Rightarrow> bool" where
  "isBlockedLegacyIpv4 ip \<longleftrightarrow> list_ex (\<lambda>(lo, hi). lo \<le> ip \<and> ip \<le> hi) BLOCKED_IPV4_RANGES"

definition legacy_ipv4_match_is_blocked :: "jtext \<Rightarrow> bool" where
  "legacy_ipv4_match_is_blocked host \<longleftrightarrow>
     (case decodeLegacyIpv4Host host of None \<Rightarrow> False | Some ip \<Rightarrow> isBlockedLegacyIpv4 ip)"

subsection \<open>The address a host stands for\<close>

text \<open>The reference: the parts before the last are bytes, the last one fills the rest.\<close>

definition legacy_address :: "jtext \<Rightarrow> nat option" where
  "legacy_address host =
     (let parts = split_on 46 host
      in case decode_parts parts of
           None \<Rightarrow> None
         | Some vs \<Rightarrow>
             if length vs \<le> 4 \<and> \<not> isAmbiguousBareDecimalPort parts vs \<and> list_all (\<lambda>v. v < 256) (butlast vs) \<and>
                last vs < 256 ^ (5 - length vs)
             then Some (foldl (\<lambda>a v. 256 * a + v) 0 (butlast vs) * 256 ^ (5 - length vs) + last vs)
             else None)"

lemma length_decode_parts: "decode_parts ps = Some vs \<Longrightarrow> length vs = length ps"
  by (induction ps arbitrary: vs) (auto split: option.splits)

lemma unat_shift_or:
  assumes "n < 32" "v < 2 ^ n" "unat r < 2 ^ (32 - n)"
  shows "unat (shift_or n r v) = unat r * 2 ^ n + v"
proof -
  have "unat r * 2 ^ n + v < (unat r + 1) * 2 ^ n" using assms(2) by (simp add: algebra_simps)
  also have "\<dots> \<le> 2 ^ (32 - n) * 2 ^ n" using assms(3) by (intro mult_right_mono) auto
  also have "\<dots> = 2 ^ 32" using assms(1) by (simp flip: power_add)
  finally have small: "unat r * 2 ^ n + v < 2 ^ 32" .
  have "push_bit n (unat r) OR v = unat r * 2 ^ n + v"
    using field_or [OF assms(2), of "unat r"] by simp
  then have "of_nat (push_bit n (unat r) OR v) = (of_nat (unat r * 2 ^ n + v) :: 32 word)" by simp
  moreover have "of_nat (push_bit n (unat r) OR v) = shift_or n r v"
    using assms(1) by (simp add: shift_or_def of_nat_or_eq of_nat_push_bit)
  ultimately have "shift_or n r v = of_nat (unat r * 2 ^ n + v)" by simp
  then show ?thesis using small by (simp only: unat_of_nat) simp
qed

lemma unat_shift_bytes:
  assumes "list_all (\<lambda>v. v < 256) vs" "unat r < 256 ^ k" "k + length vs \<le> 3"
  shows "unat (foldl (shift_or 8) r vs) = foldl (\<lambda>a v. 256 * a + v) (unat r) vs \<and>
    unat (foldl (shift_or 8) r vs) < 256 ^ (k + length vs)"
  using assms
proof (induction vs arbitrary: r k)
  case (Cons v vs)
  have "(256 :: nat) ^ k \<le> 256 ^ 3" using Cons.prems(3) by (intro power_increasing) auto
  then have "unat r < 2 ^ (32 - 8)" using Cons.prems(2) by simp
  then have step: "unat (shift_or 8 r v) = 256 * unat r + v"
    using unat_shift_or [of 8 v r] Cons.prems(1) by simp
  have "256 * unat r + v < 256 * (unat r + 1)" using Cons.prems(1) by simp
  also have "\<dots> \<le> 256 * 256 ^ k" using Cons.prems(2) by simp
  finally have "unat (shift_or 8 r v) < 256 ^ Suc k" by (simp add: step)
  then show ?case using Cons.IH [of "shift_or 8 r v" "Suc k"] Cons.prems by (simp add: step)
qed simp

lemma sint_32: "sint (w :: 32 word) = (if unat w < 2 ^ 31 then int (unat w) else int (unat w) - 2 ^ 32)"
proof -
  have "sint w = take_bit 32 (uint w) - 2 ^ 32 * of_bool (bit (uint w) 31)"
    by (simp add: sint_uint signed_take_bit_eq_take_bit_minus)
  moreover have "take_bit 32 (uint w) = uint w" by (rule take_bit_int_eq_self) (use uint_bounded [of w] in auto)
  moreover have "bit (uint w) 31 \<longleftrightarrow> 2 ^ 31 \<le> uint w"
  proof -
    have "uint w div 2 ^ 31 = of_bool (2 ^ 31 \<le> uint w)"
    proof (cases "2 ^ 31 \<le> uint w")
      case True
      then have "uint w div 2 ^ 31 = 1"
        using uint_bounded [of w] int_div_pos_eq [of "uint w" "2 ^ 31" 1 "uint w - 2 ^ 31"] by simp
      then show ?thesis using True by simp
    qed (use uint_bounded [of w] in \<open>simp\<close>)
    then show ?thesis by (simp add: bit_iff_odd)
  qed
  moreover have "2 ^ 31 \<le> uint w \<longleftrightarrow> \<not> unat w < 2 ^ 31"
    unfolding uint_nat by (metis not_less of_nat_le_iff of_nat_numeral of_nat_power)
  ultimately have "sint w = uint w - 2 ^ 32 * of_bool (\<not> unat w < 2 ^ 31)" by simp
  then show ?thesis unfolding uint_nat by (simp only: of_bool_def split: if_split) simp
qed

text \<open>The code reads the reference's address as a signed integer.\<close>

lemma decoded_is_signed:
  "decodeLegacyIpv4Host host = map_option (\<lambda>v. if v < 2 ^ 31 then int v else int v - 2 ^ 32) (legacy_address host)"
proof (cases "decode_parts (split_on 46 host)")
  case None
  then show ?thesis by (simp add: decodeLegacyIpv4Host_def legacy_address_def Let_def)
next
  case (Some vs)
  let ?parts = "split_on 46 host"
  define k where "k = 5 - length vs"
  have len: "length vs = length ?parts" using length_decode_parts [OF Some] .
  then obtain n where n: "length vs = Suc n" by (cases vs) auto
  then have init: "length (butlast vs) = n" by simp
  have pow: "(2 :: nat) ^ (8 * k) = 256 ^ k" by (simp add: power_mult)
  define ok where "ok \<longleftrightarrow> length vs \<le> 4 \<and> \<not> isAmbiguousBareDecimalPort ?parts vs \<and>
    list_all (\<lambda>v. v < 256) (butlast vs) \<and> last vs < 256 ^ k"
  define r where "r = foldl (shift_or 8) 0 (butlast vs)"
  have big: "255 < v \<longleftrightarrow> \<not> v < 256" for v :: nat by linarith
  have code: "decodeLegacyIpv4Host host = (if ok then Some (sint (shift_or (8 * k) r (last vs))) else None)"
    using len Some unfolding decodeLegacyIpv4Host_def Let_def Some option.case k_def [symmetric] r_def [symmetric] pow ok_def
    by (auto simp: list_all_iff list_ex_iff big)
  have ref: "legacy_address host =
    (if ok then Some (foldl (\<lambda>a v. 256 * a + v) 0 (butlast vs) * 256 ^ k + last vs) else None)"
    unfolding legacy_address_def Let_def Some option.case k_def [symmetric] ok_def by simp
  have "unat (shift_or (8 * k) r (last vs)) = foldl (\<lambda>a v. 256 * a + v) 0 (butlast vs) * 256 ^ k + last vs" if ok
  proof -
    have small: "n \<le> 3" "list_all (\<lambda>v. v < 256) (butlast vs)" "last vs < 256 ^ k"
      using that n by (simp_all add: ok_def)
    then have k: "k = 4 - n" using n by (simp add: k_def)
    have r: "unat r = foldl (\<lambda>a v. 256 * a + v) 0 (butlast vs)" "unat r < 256 ^ n"
      using unat_shift_bytes [of "butlast vs" 0 0] small init unfolding r_def by simp_all
    show ?thesis
    proof (cases n)
      case 0
      then have "butlast vs = []" using n by (cases vs) simp_all
      then have "r = 0" "k = 4" using 0 k by (simp_all add: r_def)
      then show ?thesis using small r(1) by (simp add: shift_or_def unat_of_nat)
    next
      case (Suc m)
      then have "8 * k < 32" "32 - 8 * k = 8 * n" using small(1) k by arith+
      then show ?thesis using unat_shift_or [of "8 * k" "last vs" r] r small(3) by (simp add: pow power_mult)
    qed
  qed
  then show ?thesis unfolding code ref by (simp add: sint_32)
qed

lemma div_eq_iff_bounds: "0 < m \<Longrightarrow> v div m = k \<longleftrightarrow> k * m \<le> v \<and> v < (k + 1) * (m :: nat)"
  by (metis Suc_eq_plus1 div_less_iff_less_mult less_Suc_eq_le less_eq_div_iff_mult_less_eq nat_less_le not_less)

lemma foldl_bytes:
  "list_all (\<lambda>v. v < 256) vs \<Longrightarrow> a < 256 ^ k \<Longrightarrow> foldl (\<lambda>a v. 256 * a + v) a vs < (256 :: nat) ^ (k + length vs)"
proof (induction vs arbitrary: a k)
  case (Cons v vs)
  have "256 * a + v < 256 * (a + 1)" using Cons.prems(1) by simp
  also have "\<dots> \<le> 256 * 256 ^ k" using Cons.prems(2) by simp
  finally show ?case using Cons.IH [of "256 * a + v" "Suc k"] Cons.prems by simp
qed simp

lemma legacy_address_bound: "legacy_address host = Some v \<Longrightarrow> v < 2 ^ 32"
proof -
  assume "legacy_address host = Some v"
  then obtain vs where vs: "decode_parts (split_on 46 host) = Some vs" "length vs \<le> 4"
    "list_all (\<lambda>v. v < 256) (butlast vs)" "last vs < 256 ^ (5 - length vs)"
    "v = foldl (\<lambda>a v. 256 * a + v) 0 (butlast vs) * 256 ^ (5 - length vs) + last vs"
    by (auto simp: legacy_address_def Let_def split: option.splits if_splits)
  have "vs \<noteq> []" using length_decode_parts [OF vs(1)] by auto
  then obtain n where n: "length vs = Suc n" by (cases vs) auto
  have "foldl (\<lambda>a v. 256 * a + v) 0 (butlast vs) + 1 \<le> 256 ^ n"
    using foldl_bytes [OF vs(3), of 0 0] n by simp
  then have "(foldl (\<lambda>a v. 256 * a + v) 0 (butlast vs) + 1) * 256 ^ (5 - length vs) \<le> 256 ^ n * 256 ^ (5 - length vs)"
    by (rule mult_right_mono) simp
  also have "\<dots> = 256 ^ 4" using n vs(2) by (simp flip: power_add)
  finally show ?thesis using vs(4,5) by simp
qed

text \<open>
  The validator accepts a host exactly if it is written as an address in \<open>0.0.0.0/8\<close>,
  \<open>10.0.0.0/8\<close>, \<open>127.0.0.0/8\<close> or as \<open>100.100.100.200\<close>. The shifts of the code are signed, so an address
  from \<open>128.0.0.0\<close> on is read as a negative number and the listed ranges \<open>169.254.0.0/16\<close> (the cloud
  metadata service), \<open>172.16.0.0/12\<close> and \<open>192.168.0.0/16\<close> never match.
\<close>

theorem legacy_hosts_blocked_exact:
  "legacy_ipv4_match_is_blocked host \<longleftrightarrow>
     (case legacy_address host of
        None \<Rightarrow> False
      | Some v \<Rightarrow> v div 2 ^ 24 \<in> {0, 10, 127} \<or> v = 100 * 2 ^ 24 + 100 * 2 ^ 16 + 100 * 2 ^ 8 + 200)"
proof (cases "legacy_address host")
  case (Some v)
  have small: "v < 2 ^ 32" using legacy_address_bound [OF Some] .
  have block: "v div 2 ^ 24 = k \<longleftrightarrow> k * 2 ^ 24 \<le> v \<and> v < (k + 1) * 2 ^ 24" for k
    by (simp add: div_eq_iff_bounds)
  have "isBlockedLegacyIpv4 (if v < 2 ^ 31 then int v else int v - 2 ^ 32) \<longleftrightarrow>
    v < 2 ^ 24 \<or> 10 * 2 ^ 24 \<le> v \<and> v < 11 * 2 ^ 24 \<or> 127 * 2 ^ 24 \<le> v \<and> v < 128 * 2 ^ 24 \<or> v = 0x646464C8"
  proof (cases "v < 2 ^ 31")
    case True
    then show ?thesis unfolding isBlockedLegacyIpv4_def BLOCKED_IPV4_RANGES_def by simp linarith
  next
    case False
    then show ?thesis using small unfolding isBlockedLegacyIpv4_def BLOCKED_IPV4_RANGES_def by simp
  qed
  then show ?thesis using block [of 0] block [of 10] block [of 127]
    by (simp add: legacy_ipv4_match_is_blocked_def decoded_is_signed Some)
qed (simp add: legacy_ipv4_match_is_blocked_def decoded_is_signed)

end
