(* ===== verification/Pickle_Walk.thy ===== *)
theory Pickle_Walk
  imports Legacy_Ipv4
begin

section \<open>The pickle opcode walk (detection-engine/patterns/pickle.ts)\<close>

text \<open>
  The validator behind the pattern for serialised Python objects: the bytes before a candidate must
  be an opcode stream, the bytes after it must reach a REDUCE or BUILD opcode. The walk is a stack
  machine over at most 4096 units. Every stack element is the number 1 in the code, so a stack is its
  height here; the window and the position in it are the bytes that are left to read.
\<close>

subsection \<open>Numbers in text\<close>

text \<open>
  \<open>Number(text)\<close>: \<open>None\<close> is NaN; the value is exact instead of a double, and \<open>Inr\<close> an infinity.
\<close>

definition js_space :: "nat \<Rightarrow> bool" where
  "js_space c \<longleftrightarrow>
     (if c < 128 then 9 \<le> c \<and> c \<le> 13 \<or> c = 32
      else c \<in> {160, 0x1680, 0x2028, 0x2029, 0x202F, 0x205F, 0x3000, 0xFEFF} \<or> 0x2000 \<le> c \<and> c \<le> 0x200A)"

definition trim_js :: "jtext \<Rightarrow> jtext" where
  "trim_js s = rev (dropWhile js_space (rev (dropWhile js_space s)))"

definition radix_literal :: "nat \<Rightarrow> jtext \<Rightarrow> rat option" where
  "radix_literal base ds =
     (if ds \<noteq> [] \<and> list_all (\<lambda>c. case hex_value c of None \<Rightarrow> False | Some v \<Rightarrow> v < base) ds
      then Some (of_nat (digits_value base ds)) else None)"

definition sign_of :: "jtext \<Rightarrow> rat \<times> jtext" where
  "sign_of s = (case s of c # t \<Rightarrow> if c = 45 then (- 1, t) else if c = 43 then (1, t) else (1, s) | [] \<Rightarrow> (1, s))"

text \<open>The exponent part of a decimal literal, with what must be the whole rest of it.\<close>

definition exponent_part :: "jtext \<Rightarrow> rat option" where
  "exponent_part s =
     (case s of
        [] \<Rightarrow> Some 1
      | c # t \<Rightarrow>
          if c = 101 \<or> c = 69
          then (case sign_of t of
                  (sg, ds) \<Rightarrow>
                    if ds \<noteq> [] \<and> list_all dec_digit ds
                    then Some (if sg = 1 then 10 ^ digits_value 10 ds else 1 / 10 ^ digits_value 10 ds)
                    else None)
          else None)"

definition decimal_literal :: "jtext \<Rightarrow> rat option" where
  "decimal_literal s =
     (let whole = takeWhile dec_digit s; rest = drop (length whole) s;
          frac = (if starts_with [46] rest then takeWhile dec_digit (drop 1 rest) else []);
          rest' = (if starts_with [46] rest then drop (1 + length frac) rest else rest)
      in if whole = [] \<and> frac = [] then None
         else map_option
                (\<lambda>e. (of_nat (digits_value 10 whole) + of_nat (digits_value 10 frac) / 10 ^ length frac) * e)
                (exponent_part rest'))"

definition js_number :: "jtext \<Rightarrow> (rat + rat) option" where
  "js_number text =
     (let s = trim_js text
      in if s = [] then Some (Inl 0)
         else if starts_with [48, 120] s \<or> starts_with [48, 88] s then map_option Inl (radix_literal 16 (drop 2 s))
         else if starts_with [48, 111] s \<or> starts_with [48, 79] s then map_option Inl (radix_literal 8 (drop 2 s))
         else if starts_with [48, 98] s \<or> starts_with [48, 66] s then map_option Inl (radix_literal 2 (drop 2 s))
         else
           (case sign_of s of
              (sg, t) \<Rightarrow> if t = text_of ''Infinity'' then Some (Inr sg) else map_option (\<lambda>v. Inl (sg * v)) (decimal_literal t)))"

text \<open>\<open>/^-?\d+$/\<close>.\<close>

definition integer_text :: "jtext \<Rightarrow> bool" where
  "integer_text s = (let ds = (if starts_with [45] s then drop 1 s else s) in ds \<noteq> [] \<and> list_all dec_digit ds)"

subsection \<open>The machine\<close>

definition PICKLE_OPCODE_WORK_BUDGET_BYTES :: nat where "PICKLE_OPCODE_WORK_BUDGET_BYTES = 4096"
definition PICKLE_REDUCE_OR_BUILD_KEYS :: "nat list" where "PICKLE_REDUCE_OR_BUILD_KEYS = [0x52, 0x62]"
definition FRAME_OPCODE :: nat where "FRAME_OPCODE = 0x95"

definition windowFromChars :: "jtext \<Rightarrow> nat list option" where
  "windowFromChars chars =
     (let cps = code_points chars
      in if list_all (\<lambda>c. c \<le> 0xFF \<or> (0xDC80 \<le> c \<and> c \<le> 0xDCFF)) cps
         then Some (map (\<lambda>c. if c \<le> 0xFF then c else c - 0xDC80 + 0x80) cps) else None)"

record walk_state =
  pk_rest :: "nat list"
  pk_stack :: nat
  pk_meta :: "nat list"
  pk_memo :: "nat list"

text \<open>The two exceptions of the walk.\<close>

datatype pickle_error = ShortRead | Blocked

type_synonym 'a walk = "walk_state \<Rightarrow> pickle_error + 'a \<times> walk_state"

definition wk_ret :: "'a \<Rightarrow> 'a walk" where "wk_ret x st = Inr (x, st)"
definition wk_fail :: "'a walk" where "wk_fail st = Inl Blocked"

definition wk_bind :: "'a walk \<Rightarrow> ('a \<Rightarrow> 'b walk) \<Rightarrow> 'b walk" where
  "wk_bind m f st = (case m st of Inl e \<Rightarrow> Inl e | Inr (x, st') \<Rightarrow> f x st')"

definition wk_change :: "(walk_state \<Rightarrow> walk_state) \<Rightarrow> unit walk" where
  "wk_change f st = Inr ((), f st)"

definition pickleRead :: "nat \<Rightarrow> nat list walk" where
  "pickleRead n st =
     (if length (pk_rest st) < n then Inl ShortRead
      else Inr (take n (pk_rest st), st\<lparr>pk_rest := drop n (pk_rest st)\<rparr>))"

text \<open>The line without its end.\<close>

definition pickleReadline :: "nat list walk" where
  "pickleReadline st =
     (let line = takeWhile (\<lambda>b. b \<noteq> 10) (pk_rest st)
      in if length line = length (pk_rest st) then Inl ShortRead
         else Inr (line, st\<lparr>pk_rest := drop (Suc (length line)) (pk_rest st)\<rparr>))"

definition leInt :: "nat list \<Rightarrow> nat" where
  "leInt bs = foldr (\<lambda>b v. v * 0x100 + b) bs 0"

definition pushMark :: "walk_state \<Rightarrow> walk_state" where
  "pushMark st = st\<lparr>pk_meta := pk_stack st # pk_meta st, pk_stack := 0\<rparr>"

definition popMark :: "unit walk" where
  "popMark st = (case pk_meta st of [] \<Rightarrow> Inl Blocked | m # ms \<Rightarrow> Inr ((), st\<lparr>pk_stack := m, pk_meta := ms\<rparr>))"

definition push1 :: "unit walk" where
  "push1 = wk_change (\<lambda>st. st\<lparr>pk_stack := Suc (pk_stack st)\<rparr>)"

definition popn :: "nat \<Rightarrow> unit walk" where
  "popn n = wk_change (\<lambda>st. st\<lparr>pk_stack := pk_stack st - n\<rparr>)"

definition skip :: "nat \<Rightarrow> unit walk" where
  "skip n = wk_bind (pickleRead n) (\<lambda>_. wk_ret ())"

definition skip_counted :: "nat \<Rightarrow> unit walk" where
  "skip_counted n = wk_bind (pickleRead n) (\<lambda>bs. skip (leInt bs))"

definition require_stack :: "unit walk" where
  "require_stack st = (if pk_stack st = 0 then Inl Blocked else Inr ((), st))"

definition check_line :: "(nat list \<Rightarrow> bool) \<Rightarrow> unit walk" where
  "check_line f = wk_bind pickleReadline (\<lambda>line. if f line then wk_ret () else wk_fail)"

definition memo_set :: "nat \<Rightarrow> unit walk" where
  "memo_set i = wk_bind require_stack (\<lambda>_. wk_change (\<lambda>st. st\<lparr>pk_memo := List.insert i (pk_memo st)\<rparr>))"

definition memo_get :: "nat \<Rightarrow> unit walk" where
  "memo_get i st = (if i \<in> set (pk_memo st) then push1 st else Inl Blocked)"

text \<open>A STRING operand is quoted.\<close>

definition quoted :: "nat list \<Rightarrow> bool" where
  "quoted body \<longleftrightarrow> 2 \<le> length body \<and> hd body = last body \<and> (hd body = 0x22 \<or> hd body = 0x27)"

definition get_text :: "nat list \<Rightarrow> unit walk" where
  "get_text line =
     (case js_number line of
        Some (Inl v) \<Rightarrow> if v \<in> \<int> \<and> 0 \<le> v then memo_get (nat \<lfloor>v\<rfloor>) else wk_fail
      | _ \<Rightarrow> wk_fail)"

definition dispatchOpcode :: "nat \<Rightarrow> unit walk" where
  "dispatchOpcode key =
     (if key = 0x28 then wk_change pushMark
      else if key = 0x30 then wk_bind require_stack (\<lambda>_. popn 1)
      else if key = 0x31 then popMark
      else if key = 0x32 then wk_bind require_stack (\<lambda>_. push1)
      else if key \<in> {0x5D, 0x7D, 0x29} then push1
      else if key \<in> {0x6C, 0x74, 0x64} then wk_bind popMark (\<lambda>_. push1)
      else if key = 0x61 then popn 1
      else if key = 0x65 then popMark
      else if key = 0x73 then popn 2
      else if key = 0x75 then popMark
      else if key \<in> {0x4E, 0x89, 0x88} then push1
      else if key = 0x49 then check_line integer_text
      else if key = 0x4C then
        check_line (\<lambda>line. integer_text (if line \<noteq> [] \<and> last line = 0x4C then butlast line else line))
      else if key = 0x46 then check_line (\<lambda>line. js_number line \<noteq> None)
      else if key = 0x4A then skip 4
      else if key = 0x4B then skip 1
      else if key = 0x4D then skip 2
      else if key = 0x47 then skip 8
      else if key = 0x53 then check_line quoted
      else if key = 0x56 then check_line (\<lambda>_. True)
      else if key \<in> {0x58, 0x54, 0x42, 0x8B} then skip_counted 4
      else if key \<in> {0x8C, 0x55, 0x43, 0x8A} then skip_counted 1
      else if key \<in> {0x8E, 0x96} then skip_counted 8
      else if key = 0x80 then skip 1
      else if key = 0x94 then (\<lambda>st. memo_set (length (pk_memo st)) st)
      else if key = 0x71 then wk_bind (pickleRead 1) (\<lambda>bs. memo_set (leInt bs))
      else if key = 0x72 then wk_bind (pickleRead 4) (\<lambda>bs. memo_set (leInt bs))
      else if key = 0x68 then wk_bind (pickleRead 1) (\<lambda>bs. memo_get (leInt bs))
      else if key = 0x6A then wk_bind (pickleRead 4) (\<lambda>bs. memo_get (leInt bs))
      else if key = 0x67 then wk_bind pickleReadline get_text
      else wk_fail)"

definition opcode_step :: "nat \<Rightarrow> unit walk" where
  "opcode_step key = (if key = FRAME_OPCODE then skip 8 else dispatchOpcode key)"

text \<open>No operation gives bytes back, so the walk ends with the window.\<close>

definition shrinks :: "'a walk \<Rightarrow> bool" where
  "shrinks m \<longleftrightarrow> (\<forall>st x st'. m st = Inr (x, st') \<longrightarrow> length (pk_rest st') \<le> length (pk_rest st))"

named_theorems shrinking "operations that never give bytes back"

lemma shrinks_bind [shrinking]: "shrinks m \<Longrightarrow> (\<And>x. shrinks (f x)) \<Longrightarrow> shrinks (wk_bind m f)"
  unfolding shrinks_def wk_bind_def by (fastforce split: sum.splits)

lemma shrinks_change: "(\<And>st. pk_rest (g st) = pk_rest st) \<Longrightarrow> shrinks (wk_change g)"
  by (auto simp: shrinks_def wk_change_def)

lemma shrinks_basic [shrinking]:
  "shrinks (wk_ret x)" "shrinks wk_fail" "shrinks push1" "shrinks (popn n)" "shrinks (wk_change pushMark)" "shrinks popMark"
  "shrinks require_stack" "shrinks (memo_get i)" "shrinks (pickleRead n)" "shrinks pickleReadline"
  unfolding push1_def popn_def
  by (auto intro!: shrinks_change simp: shrinks_def wk_ret_def wk_fail_def pushMark_def popMark_def require_stack_def
    memo_get_def push1_def wk_change_def pickleRead_def pickleReadline_def Let_def split: list.splits if_splits)

lemma shrinks_derived [shrinking]:
  "shrinks (skip n)" "shrinks (skip_counted n)" "shrinks (check_line f)" "shrinks (memo_set i)" "shrinks (get_text line)"
  unfolding skip_def skip_counted_def check_line_def memo_set_def get_text_def
  by (auto intro!: shrinking shrinks_change split: option.splits sum.splits)

lemma shrinks_step: "shrinks (opcode_step key)"
proof -
  have "shrinks (\<lambda>st. memo_set (length (pk_memo st)) st)"
    using shrinks_derived(4) unfolding shrinks_def by blast
  then show ?thesis
    unfolding opcode_step_def dispatchOpcode_def by (simp add: shrinking if_split)
qed

lemma step_less: "opcode_step key (st\<lparr>pk_rest := rest\<rparr>) = Inr p \<Longrightarrow> length (pk_rest (snd p)) \<le> length rest"
  using shrinks_step [of key, unfolded shrinks_def, rule_format, of "st\<lparr>pk_rest := rest\<rparr>"] by (cases p) fastforce

text \<open>The verdict; \<open>None\<close> stands for the window that ended too early.\<close>

function walkOpcodes :: "bool \<Rightarrow> bool \<Rightarrow> walk_state \<Rightarrow> bool option" where
  "walkOpcodes stop isComplete st =
     (case pk_rest st of
        [] \<Rightarrow> if isComplete then Some (\<not> stop) else None
      | key # rest \<Rightarrow>
          if stop \<and> key \<in> set PICKLE_REDUCE_OR_BUILD_KEYS then Some True
          else
            (case opcode_step key (st\<lparr>pk_rest := rest\<rparr>) of
               Inl ShortRead \<Rightarrow> if isComplete then Some False else None
             | Inl Blocked \<Rightarrow> Some False
             | Inr (_, st') \<Rightarrow> walkOpcodes stop isComplete st'))"
  by pat_completeness auto
termination
  by (relation "measure (\<lambda>(_, _, st). length (pk_rest st))")
    (auto simp: less_Suc_eq_le dest: step_less)

declare walkOpcodes.simps [simp del]

definition freshState :: "nat list \<Rightarrow> bool \<Rightarrow> walk_state" where
  "freshState window seedStack = \<lparr>pk_rest = window, pk_stack = (if seedStack then 1 else 0), pk_meta = [], pk_memo = []\<rparr>"

definition picklePrefixIsOpcodeStream :: "jtext \<Rightarrow> bool" where
  "picklePrefixIsOpcodeStream chars \<longleftrightarrow>
     (if chars = [] \<or> ends_with [10] chars then True
      else
        (let isComplete = length chars \<le> PICKLE_OPCODE_WORK_BUDGET_BYTES
         in case windowFromChars (take PICKLE_OPCODE_WORK_BUDGET_BYTES chars) of
              None \<Rightarrow> False
            | Some window \<Rightarrow> walkOpcodes False isComplete (freshState window False) \<noteq> Some False))"

definition pickleSuffixReachesReduceOrBuild :: "jtext \<Rightarrow> bool" where
  "pickleSuffixReachesReduceOrBuild chars \<longleftrightarrow>
     (let isComplete = length chars \<le> PICKLE_OPCODE_WORK_BUDGET_BYTES
      in case windowFromChars (take PICKLE_OPCODE_WORK_BUDGET_BYTES chars) of
           None \<Rightarrow> False
         | Some window \<Rightarrow> walkOpcodes True isComplete (freshState window True) \<noteq> Some False)"

text \<open>The match is given by its text, its place and its first group.\<close>

definition pickle_global_candidate_is_injection :: "jtext \<Rightarrow> nat \<Rightarrow> jtext \<Rightarrow> bool" where
  "pickle_global_candidate_is_injection input index groupOne \<longleftrightarrow>
     picklePrefixIsOpcodeStream (take index input) \<and>
     pickleSuffixReachesReduceOrBuild (drop (index + length groupOne) input)"

subsection \<open>What a walk establishes\<close>












lemma window_bytes: "list_all (\<lambda>c. c < 256) s \<Longrightarrow> windowFromChars s = Some s"
proof -
  assume bytes: "list_all (\<lambda>c. c < 256) s"
  then have cps: "code_points s = s" by (intro code_points_ascii) (auto simp: list_all_iff)
  have "map (\<lambda>c. if c \<le> 0xFF then c else c - 0xDC80 + 0x80) s = s"
    using bytes by (auto simp: list_all_iff intro!: map_idI)
  moreover have "list_all (\<lambda>c. c \<le> 0xFF \<or> (0xDC80 \<le> c \<and> c \<le> 0xDCFF)) s" using bytes by (auto simp: list_all_iff)
  ultimately show ?thesis by (simp add: windowFromChars_def cps)
qed

lemmas walk_steps = opcode_step_def dispatchOpcode_def FRAME_OPCODE_def PICKLE_REDUCE_OR_BUILD_KEYS_def
  wk_ret_def wk_fail_def wk_bind_def wk_change_def pickleRead_def skip_def skip_counted_def leInt_def pushMark_def popMark_def
  push1_def popn_def require_stack_def memo_set_def freshState_def

text \<open>
  The machine is not that of Python in two places. Its table has the one- and two-element tuple
  opcodes \<open>0x85\<close> and \<open>0x86\<close> as extension codes and refuses them, so a call whose argument is built with
  a mark is reported and the same call with the shorter opcode is not; and the opcodes of strings
  and numbers push nothing, so a stream that stores its first string in the memo, as protocol 4
  does, is taken for no stream.
\<close>

theorem pickle_tuple_opcode_refused:
  assumes "length arg < 256" "list_all (\<lambda>c. c < 256) arg" "op \<in> {0x85, 0x86}"
  shows "pickleSuffixReachesReduceOrBuild ([0x28, 0x8C, length arg] @ arg @ [0x74, 0x52, 0x2E]) \<and>
    \<not> pickleSuffixReachesReduceOrBuild ([0x8C, length arg] @ arg @ [op, 0x52, 0x2E]) \<and>
    \<not> picklePrefixIsOpcodeStream ([0x80, 4, 0x8C, length arg] @ arg @ [0x94])"
proof -
  let ?a = "[0x28, 0x8C, length arg] @ arg @ [0x74, 0x52, 0x2E]"
  let ?b = "[0x8C, length arg] @ arg @ [op, 0x52, 0x2E]"
  let ?c = "[0x80, 4, 0x8C, length arg] @ arg @ [0x94]"
  have windows: "windowFromChars ?a = Some ?a" "windowFromChars ?b = Some ?b" "windowFromChars ?c = Some ?c"
    using assms by (intro window_bytes; auto)+
  have verdicts: "walkOpcodes True True (freshState ?a True) = Some True"
    "walkOpcodes True True (freshState ?b True) = Some False" "walkOpcodes False True (freshState ?c False) = Some False"
    using assms(3) by (auto simp: walkOpcodes.simps walk_steps)
  have "length arg \<le> 4090" using assms(1) by simp
  then show ?thesis
    using windows verdicts
    by (simp add: pickleSuffixReachesReduceOrBuild_def picklePrefixIsOpcodeStream_def Let_def
      PICKLE_OPCODE_WORK_BUDGET_BYTES_def ends_with_def)
qed

theorem pickle_tuple_opcode_refused_witness:
  "pickleSuffixReachesReduceOrBuild ([0x28, 0x8C, 4] @ text_of ''date'' @ [0x74, 0x52, 0x2E]) \<and>
   \<not> pickleSuffixReachesReduceOrBuild ([0x8C, 4] @ text_of ''date'' @ [0x85, 0x52, 0x2E])"
proof -
  have "length (text_of ''date'') = 4" "list_all (\<lambda>c. c < 256) (text_of ''date'')" by (simp_all add: text_of_def)
  then show ?thesis using pickle_tuple_opcode_refused [where arg = "text_of ''date''" and op = "0x85"] by simp
qed

end
