(* ===== verification/Pattern_Threats.thy ===== *)
theory Pattern_Threats
  imports Pattern_Engine Pickle_Walk
begin

section \<open>From a match to a threat (detection-engine/patterns/index.ts)\<close>

text \<open>
  The tables that wire a pattern's source to its validator, its finder, its matcher or its windows are
  association lists, searched as the maps of the code are. Their rows are arguments of the model, apart
  from the keys of the windows, which are written out to compare them with the table of the patterns.
  The validators of the legacy hosts and of the pickle streams are those of the model.
\<close>

subsection \<open>Tables\<close>

datatype threat_type = Regex_Threat | Timeout_Threat

record regex_threat =
  rt_type :: threat_type
  rt_pattern :: jtext
  rt_match :: jtext
  rt_position :: nat
  rt_category :: jtext
  rt_weight :: rat

type_synonym candidate_validator = "rx_match \<Rightarrow> jtext \<Rightarrow> bool"

record pattern_tables =
  tb_validators :: "(jtext \<times> candidate_validator) list"
  tb_finders :: "(jtext \<times> (jtext \<Rightarrow> rx_match list)) list"
  tb_matchers :: "(jtext \<times> (jtext \<Rightarrow> compiled_pattern \<Rightarrow> rx_match list)) list"
  tb_bounds :: "(jtext \<times> (compiled_pattern \<times> compiled_pattern) list) list"
  tb_system_finder :: "jtext \<Rightarrow> rx_match list"
  tb_entity_finder :: "jtext \<Rightarrow> rx_match list"
  tb_recon :: "jtext list"
  tb_noise :: "jtext list"
  tb_overrides :: "(jtext \<times> rat) list"

record table_entry =
  te_source :: jtext
  te_contexts :: "jtext list"
  te_category :: jtext

record compiled_entry =
  ce_source :: jtext
  ce_re :: compiled_pattern
  ce_contexts :: "jtext list"
  ce_category :: jtext

definition compileOnce :: "regexp_constructor \<Rightarrow> table_entry \<Rightarrow> compiled_entry option" where
  "compileOnce new_regexp entry =
     map_option (\<lambda>c. \<lparr>ce_source = te_source entry, ce_re = c, ce_contexts = te_contexts entry, ce_category = te_category entry\<rparr>)
       (compilePythonPattern new_regexp (te_source entry) (\<not> text_includes CASE_WRAPPER (te_source entry)))"

text \<open>The table is compiled once; one row that does not compile makes the call throw.\<close>

definition getCompiledPatterns :: "regexp_constructor \<Rightarrow> table_entry list \<Rightarrow> compiled_entry list option" where
  "getCompiledPatterns new_regexp table = those (map (compileOnce new_regexp) table)"

definition resolvePatternWeight :: "pattern_tables \<Rightarrow> jtext \<Rightarrow> rat" where
  "resolvePatternWeight T source = (case map_of (tb_overrides T) source of Some w \<Rightarrow> w | None \<Rightarrow> 1)"

definition validatorFor :: "pattern_tables \<Rightarrow> jtext \<Rightarrow> candidate_validator option" where
  "validatorFor T source = map_of (tb_validators T) source"

definition windowedFinderFor :: "pattern_tables \<Rightarrow> jtext \<Rightarrow> (jtext \<Rightarrow> rx_match list) option" where
  "windowedFinderFor T source = map_of (tb_finders T) source"

definition scanMatcherFor :: "pattern_tables \<Rightarrow> jtext \<Rightarrow> (jtext \<Rightarrow> compiled_pattern \<Rightarrow> rx_match list) option" where
  "scanMatcherFor T source = map_of (tb_matchers T) source"

definition scanWindowBoundsFor :: "pattern_tables \<Rightarrow> jtext \<Rightarrow> (compiled_pattern \<times> compiled_pattern) list option" where
  "scanWindowBoundsFor T source = map_of (tb_bounds T) source"

definition bounds :: "regexp_constructor \<Rightarrow> (jtext \<times> jtext) list \<Rightarrow> (compiled_pattern \<times> compiled_pattern) list option" where
  "bounds new_regexp pairs =
     those (map (\<lambda>(pre, terminator).
       (case (compilePythonPattern new_regexp pre True, compilePythonPattern new_regexp terminator True) of
          (Some p, Some t) \<Rightarrow> Some (p, t) | _ \<Rightarrow> None)) pairs)"

subsection \<open>Validators of the model\<close>

definition group_one :: "rx_match \<Rightarrow> jtext" where
  "group_one m = (case mt_groups m of [] \<Rightarrow> [] | g # gs \<Rightarrow> g)"

definition source_extension_path_is_probe :: "jtext \<Rightarrow> bool" where
  "source_extension_path_is_probe ctx \<longleftrightarrow> \<not> ends_with (text_of '':embedded_json'') ctx"

definition modelled_validators :: "jtext \<Rightarrow> jtext \<Rightarrow> jtext \<Rightarrow> (jtext \<times> candidate_validator) list" where
  "modelled_validators legacy_re extension_re pickle_re =
     [(legacy_re, \<lambda>m ctx. legacy_ipv4_match_is_blocked (group_one m)),
      (extension_re, \<lambda>m ctx. source_extension_path_is_probe ctx),
      (pickle_re, \<lambda>m ctx. pickle_global_candidate_is_injection (mt_input m) (mt_index m) (group_one m))]"

definition RECON_BARE_PATH_CONTEXTS :: "jtext list" where
  "RECON_BARE_PATH_CONTEXTS = [text_of ''url_path'', text_of ''unknown'']"

definition reconPathValueIsProbe :: "jtext \<Rightarrow> jtext \<Rightarrow> bool" where
  "reconPathValueIsProbe v ctx \<longleftrightarrow>
     hd (split_on 58 ctx) \<in> set RECON_BARE_PATH_CONTEXTS \<or> starts_with [47] v \<or> starts_with [92] v"

subsection \<open>Matches of the windows\<close>

text \<open>
  The runs are found by the global expression of the path runs, which matches no empty text. The
  sticky expression stops where the text does, not where the run does.
\<close>

definition globWildcardScanMatches :: "regex \<Rightarrow> jtext \<Rightarrow> compiled_pattern \<Rightarrow> rx_match list" where
  "globWildcardScanMatches path_run content c =
     List.map_filter (\<lambda>run.
       if list_ex (\<lambda>u. u = 63 \<or> u = 42) (mt_text run)
       then (case exec_at (cp_re c False) content (mt_index run) of
               Some m \<Rightarrow> if match_end m \<le> match_end run then Some m else None
             | None \<Rightarrow> None)
       else None) (findall_from path_run content 0)"

text \<open>Source texts are written with a tilde for a backslash and an at sign for a double quote.\<close>

definition source_text :: "string \<Rightarrow> jtext" where
  "source_text s = map (\<lambda>c. if c = 126 then 92 else if c = 64 then 34 else c) (text_of s)"

definition SYSTEM_SOURCE :: jtext where
  "SYSTEM_SOURCE = source_text ''<!(?:ENTITY|DOCTYPE)[^>]+SYSTEM[^>]+>''"

definition ENTITY_SOURCE :: jtext where
  "ENTITY_SOURCE = source_text ''<!DOCTYPE[^>~[]*~[[~s~S]*?<!ENTITY''"

definition iterScanWindowMatches ::
  "pattern_tables \<Rightarrow> jtext \<Rightarrow> compiled_pattern \<Rightarrow> (compiled_pattern \<times> compiled_pattern) list \<Rightarrow> rx_match list" where
  "iterScanWindowMatches T content c pairs =
     (if cp_source c = SYSTEM_SOURCE then tb_system_finder T content
      else if cp_source c = ENTITY_SOURCE then tb_entity_finder T content
      else concat (map (\<lambda>(pre, terminator). bounded_finditer content c pre terminator) pairs))"

subsection \<open>Threats\<close>

definition buildRegexThreat ::
  "pattern_tables \<Rightarrow> compiled_pattern \<Rightarrow> rx_match \<Rightarrow> jtext \<Rightarrow> jtext \<Rightarrow> nat list option \<Rightarrow> regex_threat option" where
  "buildRegexThreat T c m category ctx binaryPrefix =
     (if (case validatorFor T (cp_source c) of Some valid \<Rightarrow> \<not> valid m ctx | None \<Rightarrow> False) then None
      else if cp_source c \<in> set (tb_recon T) \<and> \<not> reconPathValueIsProbe (mt_text m) ctx then None
      else if cp_source c \<in> set (tb_noise T) \<and> binaryPrefix \<noteq> None \<and>
              matchIsBinaryDensity binaryPrefix (mt_index m) (match_end m) then None
      else Some \<lparr>rt_type = Regex_Threat, rt_pattern = cp_source c, rt_match = mt_text m, rt_position = mt_index m,
                 rt_category = category, rt_weight = resolvePatternWeight T (cp_source c)\<rparr>)"

fun firstAcceptedRegexThreat ::
  "pattern_tables \<Rightarrow> rx_match list \<Rightarrow> compiled_pattern \<Rightarrow> jtext \<Rightarrow> jtext \<Rightarrow> nat list option \<Rightarrow> regex_threat option" where
  "firstAcceptedRegexThreat T [] c category ctx binaryPrefix = None"
| "firstAcceptedRegexThreat T (m # ms) c category ctx binaryPrefix =
     (case buildRegexThreat T c m category ctx binaryPrefix of
        Some t \<Rightarrow> Some t
      | None \<Rightarrow> firstAcceptedRegexThreat T ms c category ctx binaryPrefix)"

lemma built_threat:
  "buildRegexThreat T c m category ctx bp = Some t \<Longrightarrow>
   rt_type t = Regex_Threat \<and> rt_pattern t = cp_source c \<and> rt_match t = mt_text m \<and> rt_position t = mt_index m \<and>
   rt_category t = category \<and> rt_weight t = resolvePatternWeight T (cp_source c)"
  by (auto simp: buildRegexThreat_def split: if_splits)

lemma first_accepted_Some:
  "firstAcceptedRegexThreat T ms c category ctx bp = Some t \<Longrightarrow>
   \<exists>m \<in> set ms. buildRegexThreat T c m category ctx bp = Some t"
  by (induction ms) (auto split: option.splits)

lemma first_accepted_None:
  "firstAcceptedRegexThreat T ms c category ctx bp = None \<longleftrightarrow> (\<forall>m \<in> set ms. buildRegexThreat T c m category ctx bp = None)"
  by (induction ms) (auto split: option.splits)

subsection \<open>The windows and the table of the patterns\<close>

definition SCAN_WINDOW_BOUND_SOURCES :: "(jtext \<times> (jtext \<times> jtext) list) list" where
  "SCAN_WINDOW_BOUND_SOURCES = map (\<lambda>(k, p, t). (source_text k, [(source_text p, source_text t)]))
     [(''<script[^>]*>[^<]*<~/script~s*>'', ''<script'', ''<~/script~s*>''),
      (''(?:<[A-Za-z/][^<>]*style~s*=~s{0,20}[@'' @ [CHR 0x27] @ '']?[^<>@'' @ [CHR 0x27] @ '']*(?:expression|behavior|url)~s*~([^)]*~))'',
       ''<[A-Za-z/][^<>]*style~s*='', ''~)''),
      (''(?:<object[^>]*>[~s~S]*<~/object~s*>)'', ''<object'', ''<~/object~s*>''),
      (''(?:<embed[^>]*>[~s~S]*<~/embed~s*>)'', ''<embed'', ''<~/embed~s*>''),
      (''(?:<applet[^>]*>[~s~S]*<~/applet~s*>)'', ''<applet'', ''<~/applet~s*>''),
      (''~.~.;[^/~~]*[/~~]'', ''~.~.;'', ''[/~~]''),
      (''=(?:https?|ftp):~/~/[^~s'' @ [CHR 0x27] @ ''@<>]+~/[^~s'' @ [CHR 0x27] @ ''@<>~/]*~.(?:phtml|php[3-5]?|phar|jsp|aspx?|pl|py|txt|inc)(?![a-zA-Z0-9])'',
       ''=(?:https?|ftp):~/~/'', ''~.(?:phtml|php~d*|phar|jsp|aspx?|pl|py|txt|inc)[a-zA-Z0-9]*''),
      (''<!(?:ENTITY|DOCTYPE)[^>]+SYSTEM[^>]+>'', ''<!(?:ENTITY|DOCTYPE)'', ''>''),
      (''(?:<!~[CDATA~[.*?~]~]>)'', ''<!~[CDATA~['', ''~]~]>''),
      (''<!DOCTYPE[^>~[]*~[[~s~S]*?<!ENTITY'', ''<!DOCTYPE'', ''<!ENTITY'')]"

definition STYLE_TABLE_SOURCE :: jtext where
  "STYLE_TABLE_SOURCE = source_text
     (''(?:<[A-Za-z/][^<>]*style~s*=~s{0,20}[~@'' @ [CHR 0x27] @ '']?[^<>~@'' @ [CHR 0x27] @ '']*(?:expression|behavior|url)~s*~([^)]*~))'')"

definition REMOTE_FILE_TABLE_SOURCE :: jtext where
  "REMOTE_FILE_TABLE_SOURCE = source_text
     (''=(?:https?|ftp):~/~/[^~s'' @ [CHR 0x27] @ ''~@<>]+~/[^~s'' @ [CHR 0x27] @ ''~@<>~/]*~.(?:phtml|php[3-5]?|phar|jsp|aspx?|pl|py|txt|inc)(?![a-zA-Z0-9])'')"

definition SCAN_WINDOW_BOUND_PATTERN_SOURCES :: "jtext list" where
  "SCAN_WINDOW_BOUND_PATTERN_SOURCES =
     [source_text ''(?:<!~[CDATA~[.*?~]~]>)'', STYLE_TABLE_SOURCE,
      source_text ''(?:<applet[^>]*>[~s~S]*<~/applet~s*>)'', source_text ''(?:<embed[^>]*>[~s~S]*<~/embed~s*>)'',
      source_text ''(?:<object[^>]*>[~s~S]*<~/object~s*>)'', source_text ''<!(?:ENTITY|DOCTYPE)[^>]+SYSTEM[^>]+>'',
      source_text ''<!DOCTYPE[^>~[]*~[[~s~S]*?<!ENTITY'', source_text ''<script[^>]*>[^<]*<~/script~s*>'',
      REMOTE_FILE_TABLE_SOURCE, source_text ''~.~.;[^/~~]*[/~~]'']"

text \<open>
  Of the ten patterns of the table that are meant to run inside bounded windows, the code finds the
  windows of eight. The style pattern and the remote file pattern have a backslash before the double
  quote in the table and none in the key of their windows, so they run over the whole text.
\<close>

theorem two_windows_are_never_found:
  "filter (\<lambda>s. map_of SCAN_WINDOW_BOUND_SOURCES s = None) SCAN_WINDOW_BOUND_PATTERN_SOURCES =
   [STYLE_TABLE_SOURCE, REMOTE_FILE_TABLE_SOURCE]"
  by code_simp

end
