(* ===== verification/Scan_Pool.thy ===== *)
theory Scan_Pool
  imports Js_Text "HOL-Library.Sublist"
begin

section \<open>The scan deadline and the quarantine of patterns (detection-engine/scan-pool.ts)\<close>

text \<open>
  Every pattern scan runs under the supervisor. A scan that overshoots the deadline has no verdict;
  the fourth timeout of a pattern in a row takes the pattern out of the pool for a cooldown. The
  clock's readings are arguments: those of a call are taken in the order of the code. Listeners
  cannot change the supervisor, so what is emitted is a list; a listener that throws is ignored.
\<close>

subsection \<open>The supervisor\<close>

definition SCAN_POOL_SIZE :: nat where "SCAN_POOL_SIZE = 4"
definition DEFAULT_QUARANTINE_COOLDOWN_MS :: rat where "DEFAULT_QUARANTINE_COOLDOWN_MS = 60000"

datatype scan_status = Completed | TimedOut | Quarantined | Failed

record 'a scan_outcome =
  so_status :: scan_status
  so_value :: "'a option"
  so_elapsed :: rat

datatype pool_event_type = Pattern_quarantined | Pattern_released

record pool_event =
  pe_type :: pool_event_type
  pe_pattern :: jtext
  pe_timeouts :: nat
  pe_cooldown :: rat
  pe_at :: rat

record scan_pool =
  sp_deadline :: rat
  sp_cooldown :: rat
  sp_consecutive :: "(jtext, nat) omap"
  sp_until :: "(jtext, rat) omap"
  sp_emitted :: "pool_event list"

definition init_pool :: "rat \<Rightarrow> rat \<Rightarrow> scan_pool" where
  "init_pool deadline cooldown =
     \<lparr>sp_deadline = deadline, sp_cooldown = cooldown, sp_consecutive = [], sp_until = [], sp_emitted = []\<rparr>"

definition emit :: "pool_event \<Rightarrow> scan_pool \<Rightarrow> scan_pool" where
  "emit e sp = sp\<lparr>sp_emitted := sp_emitted sp @ [e]\<rparr>"

definition release_one :: "rat \<Rightarrow> jtext \<times> rat \<Rightarrow> scan_pool \<Rightarrow> scan_pool" where
  "release_one now entry sp =
     (case entry of
        (p, until) \<Rightarrow>
          if until \<le> now
          then emit \<lparr>pe_type = Pattern_released, pe_pattern = p, pe_timeouts = 0, pe_cooldown = 0, pe_at = now\<rparr>
                 (sp\<lparr>sp_until := AList.delete p (sp_until sp)\<rparr>)
          else sp)"

definition releaseExpired :: "rat \<Rightarrow> scan_pool \<Rightarrow> scan_pool" where
  "releaseExpired now sp = fold (release_one now) (sp_until sp) sp"

definition isActive :: "rat \<Rightarrow> jtext \<Rightarrow> scan_pool \<Rightarrow> bool \<times> scan_pool" where
  "isActive now p sp = (let sp' = releaseExpired now sp in (\<not> om_has (sp_until sp') p, sp'))"

definition quarantinedPatterns :: "rat \<Rightarrow> scan_pool \<Rightarrow> jtext list \<times> scan_pool" where
  "quarantinedPatterns now sp = (let sp' = releaseExpired now sp in (om_keys (sp_until sp'), sp'))"

definition consecutiveTimeoutCount :: "scan_pool \<Rightarrow> jtext \<Rightarrow> nat" where
  "consecutiveTimeoutCount sp p = om_get_or 0 (sp_consecutive sp) p"

definition reportSuccess :: "jtext \<Rightarrow> scan_pool \<Rightarrow> scan_pool" where
  "reportSuccess p sp = sp\<lparr>sp_consecutive := AList.delete p (sp_consecutive sp)\<rparr>"

definition reportTimeout :: "rat \<Rightarrow> jtext \<Rightarrow> scan_pool \<Rightarrow> bool \<times> scan_pool" where
  "reportTimeout atMs p sp =
     (let count = consecutiveTimeoutCount sp p + 1
      in if count < SCAN_POOL_SIZE then (False, sp\<lparr>sp_consecutive := AList.update p count (sp_consecutive sp)\<rparr>)
         else
           (True,
            emit \<lparr>pe_type = Pattern_quarantined, pe_pattern = p, pe_timeouts = SCAN_POOL_SIZE,
                  pe_cooldown = sp_cooldown sp, pe_at = atMs\<rparr>
              (sp\<lparr>sp_consecutive := AList.delete p (sp_consecutive sp),
                  sp_until := AList.update p (atMs + sp_cooldown sp) (sp_until sp)\<rparr>)))"

text \<open>The readings of one call: on entry, before and after the scan, and at a quarantine.\<close>

record readings =
  rd_enter :: rat
  rd_start :: rat
  rd_stop :: rat
  rd_late :: rat

text \<open>The scan is given by its value, or \<open>None\<close> if it throws.\<close>

definition run_scan :: "readings \<Rightarrow> jtext \<Rightarrow> 'a option \<Rightarrow> scan_pool \<Rightarrow> 'a scan_outcome \<times> scan_pool" where
  "run_scan rd p scan sp =
     (case isActive (rd_enter rd) p sp of
        (active, sp1) \<Rightarrow>
          (let elapsed = rd_stop rd - rd_start rd
           in if \<not> active then (\<lparr>so_status = Quarantined, so_value = None, so_elapsed = 0\<rparr>, sp1)
              else
                (case scan of
                   None \<Rightarrow> (\<lparr>so_status = Failed, so_value = None, so_elapsed = elapsed\<rparr>, sp1)
                 | Some v \<Rightarrow>
                     if sp_deadline sp1 < elapsed
                     then (\<lparr>so_status = TimedOut, so_value = None, so_elapsed = elapsed\<rparr>, snd (reportTimeout (rd_late rd) p sp1))
                     else (\<lparr>so_status = Completed, so_value = Some v, so_elapsed = elapsed\<rparr>, reportSuccess p sp1))))"

definition reset_pool :: "scan_pool \<Rightarrow> scan_pool" where
  "reset_pool sp = sp\<lparr>sp_consecutive := [], sp_until := []\<rparr>"

subsection \<open>What a call does to one pattern\<close>

text \<open>Abstractly a pattern is in the pool with a number of timeouts, or out of it until a time.\<close>

datatype pattern_state = In_pool nat | Out_until rat

definition pattern_view :: "scan_pool \<Rightarrow> jtext \<Rightarrow> pattern_state" where
  "pattern_view sp p =
     (case map_of (sp_until sp) p of Some u \<Rightarrow> Out_until u | None \<Rightarrow> In_pool (consecutiveTimeoutCount sp p))"

definition elapse :: "rat \<Rightarrow> pattern_state \<Rightarrow> pattern_state" where
  "elapse now v = (case v of Out_until u \<Rightarrow> if u \<le> now then In_pool 0 else v | In_pool n \<Rightarrow> v)"

definition after_scan :: "rat \<Rightarrow> rat \<Rightarrow> scan_status \<Rightarrow> pattern_state \<Rightarrow> pattern_state" where
  "after_scan cooldown late status v =
     (case v of
        Out_until u \<Rightarrow> v
      | In_pool n \<Rightarrow>
          (case status of
             Completed \<Rightarrow> In_pool 0
           | TimedOut \<Rightarrow> if n + 1 < SCAN_POOL_SIZE then In_pool (n + 1) else Out_until (late + cooldown)
           | _ \<Rightarrow> v))"

definition pool_ok :: "scan_pool \<Rightarrow> bool" where
  "pool_ok sp \<longleftrightarrow> om_ok (sp_until sp) \<and> om_ok (sp_consecutive sp) \<and>
     fst ` set (sp_until sp) \<inter> fst ` set (sp_consecutive sp) = {}"

lemma release_fold:
  "sp_until (fold (release_one now) es sp) = filter (\<lambda>e. \<not> (\<exists>u. (fst e, u) \<in> set es \<and> u \<le> now)) (sp_until sp) \<and>
   sp_consecutive (fold (release_one now) es sp) = sp_consecutive sp \<and>
   sp_deadline (fold (release_one now) es sp) = sp_deadline sp \<and> sp_cooldown (fold (release_one now) es sp) = sp_cooldown sp"
proof (induction es arbitrary: sp)
  case (Cons e es)
  obtain p u where e: "e = (p, u)" by force
  have delete: "AList.delete p m = filter (\<lambda>e. fst e \<noteq> p) m" for m :: "(jtext, rat) omap"
    by (induction m) auto
  show ?case using Cons.IH [of "release_one now e sp"]
    by (auto simp: e release_one_def emit_def delete intro!: filter_cong)
qed simp

lemma released_until:
  assumes "om_ok (sp_until sp)"
  shows "sp_until (releaseExpired now sp) = filter (\<lambda>(p, u). now < u) (sp_until sp)"
proof -
  have "(\<exists>u'. (fst e, u') \<in> set (sp_until sp) \<and> u' \<le> now) \<longleftrightarrow> snd e \<le> now" if e: "e \<in> set (sp_until sp)" for e
  proof -
    have "(fst e, u') \<in> set (sp_until sp) \<longleftrightarrow> u' = snd e" for u'
      using eq_key_imp_eq_value [OF assms, of "fst e" u' "snd e"] e by auto
    then show ?thesis by simp
  qed
  then have "filter (\<lambda>e. \<not> (\<exists>u. (fst e, u) \<in> set (sp_until sp) \<and> u \<le> now)) (sp_until sp) =
    filter (\<lambda>(p, u). now < u) (sp_until sp)"
    by (intro filter_cong) (auto simp: not_le case_prod_beta)
  then show ?thesis unfolding releaseExpired_def using release_fold [of now "sp_until sp" sp] by metis
qed

lemma released_fields [simp]:
  "sp_consecutive (releaseExpired now sp) = sp_consecutive sp"
  "sp_deadline (releaseExpired now sp) = sp_deadline sp" "sp_cooldown (releaseExpired now sp) = sp_cooldown sp"
  unfolding releaseExpired_def using release_fold [of now "sp_until sp" sp] by simp_all

lemma map_of_filter_values:
  "om_ok m \<Longrightarrow> map_of (filter (\<lambda>(p, u). P u) m) q = (case map_of m q of Some u \<Rightarrow> if P u then Some u else None | None \<Rightarrow> None)"
  by (induction m) (auto split: option.splits simp: map_of_eq_None_iff rev_image_eqI)

lemma out_not_counted: "pool_ok sp \<Longrightarrow> map_of (sp_until sp) q = Some u \<Longrightarrow> map_of (sp_consecutive sp) q = None"
proof -
  assume ok: "pool_ok sp" and "map_of (sp_until sp) q = Some u"
  then have "q \<in> fst ` set (sp_until sp)" by (force dest: map_of_SomeD)
  then show ?thesis using ok unfolding pool_ok_def map_of_eq_None_iff by blast
qed

lemma pool_ok_success: "pool_ok sp \<Longrightarrow> pool_ok (reportSuccess p sp)"
  unfolding pool_ok_def reportSuccess_def by simp blast

lemma pool_ok_timeout:
  assumes "pool_ok sp" "map_of (sp_until sp) p = None"
  shows "pool_ok (snd (reportTimeout t p sp))"
proof -
  have "p \<notin> fst ` set (sp_until sp)" using assms(2) by (simp add: map_of_eq_None_iff)
  then show ?thesis
    using assms(1) unfolding pool_ok_def reportTimeout_def emit_def Let_def
    by simp blast
qed

lemma released_view:
  assumes "pool_ok sp"
  shows "pattern_view (releaseExpired now sp) q = elapse now (pattern_view sp q)" "pool_ok (releaseExpired now sp)"
proof -
  have ok: "om_ok (sp_until sp)" using assms by (simp add: pool_ok_def)
  note look = map_of_filter_values [OF ok, of "\<lambda>u. now < u"]
  show "pattern_view (releaseExpired now sp) q = elapse now (pattern_view sp q)"
    using assms
    by (auto simp: pattern_view_def elapse_def released_until [OF ok] look consecutiveTimeoutCount_def om_get_or_def
      split: option.splits dest: out_not_counted)
  show "pool_ok (releaseExpired now sp)"
    using assms
    by (auto simp: pool_ok_def released_until [OF ok] distinct_map_filter)
qed

lemma view_success:
  "map_of (sp_until sp) p = None \<Longrightarrow> pattern_view (reportSuccess p sp) q = (if q = p then In_pool 0 else pattern_view sp q)"
  by (auto simp: reportSuccess_def pattern_view_def consecutiveTimeoutCount_def om_get_or_def split: option.splits)

lemma view_timeout:
  assumes "map_of (sp_until sp) p = None"
  shows "pattern_view (snd (reportTimeout t p sp)) q =
    (if q = p then after_scan (sp_cooldown sp) t TimedOut (pattern_view sp p) else pattern_view sp q)"
  using assms
  by (simp add: reportTimeout_def Let_def emit_def pattern_view_def consecutiveTimeoutCount_def om_get_or_def after_scan_def
    split: option.splits)

lemma timeout_fields [simp]:
  "sp_cooldown (snd (reportTimeout t p sp)) = sp_cooldown sp" "sp_deadline (snd (reportTimeout t p sp)) = sp_deadline sp"
  by (simp_all add: reportTimeout_def Let_def emit_def)

lemma run_scan_cases:
  assumes "run_scan rd p scan sp = (o1, sp')" "sp1 = releaseExpired (rd_enter rd) sp"
  obtains
    (quarantined) u where "map_of (sp_until sp1) p = Some u" "so_status o1 = Quarantined" "so_value o1 = None" "sp' = sp1"
  | (failed) "map_of (sp_until sp1) p = None" "so_status o1 = Failed" "so_value o1 = None" "scan = None" "sp' = sp1"
  | (timed_out) "map_of (sp_until sp1) p = None" "so_status o1 = TimedOut" "so_value o1 = None"
      "sp_deadline sp < rd_stop rd - rd_start rd" "sp' = snd (reportTimeout (rd_late rd) p sp1)"
  | (completed) "map_of (sp_until sp1) p = None" "so_status o1 = Completed" "so_value o1 = scan" "scan \<noteq> None"
      "\<not> sp_deadline sp < rd_stop rd - rd_start rd" "sp' = reportSuccess p sp1"
proof (cases "map_of (sp_until sp1) p")
  case (Some u)
  show ?thesis by (rule quarantined [of u]) (use Some assms in \<open>auto simp: run_scan_def isActive_def Let_def om_has_def\<close>)
next
  case None
  note inside = this
  show ?thesis
  proof (cases scan)
    case None
    show ?thesis by (rule failed) (use None inside assms in \<open>auto simp: run_scan_def isActive_def Let_def om_has_def\<close>)
  next
    case (Some v)
    show ?thesis
    proof (cases "sp_deadline sp < rd_stop rd - rd_start rd")
      case True
      show ?thesis
        by (rule timed_out) (use True Some inside assms in \<open>auto simp: run_scan_def isActive_def Let_def om_has_def\<close>)
    next
      case False
      show ?thesis
        by (rule completed) (use False Some inside assms in \<open>auto simp: run_scan_def isActive_def Let_def om_has_def\<close>)
    qed
  qed
qed

lemma run_scan_view:
  assumes "pool_ok sp" "run_scan rd p scan sp = (o1, sp')"
  shows "pool_ok sp' \<and> sp_cooldown sp' = sp_cooldown sp \<and> sp_deadline sp' = sp_deadline sp \<and>
    pattern_view sp' q =
      (if q = p then after_scan (sp_cooldown sp) (rd_late rd) (so_status o1) (elapse (rd_enter rd) (pattern_view sp p))
       else elapse (rd_enter rd) (pattern_view sp q)) \<and>
    (so_status o1 = Quarantined \<longleftrightarrow> (\<exists>u. elapse (rd_enter rd) (pattern_view sp p) = Out_until u))"
proof -
  define sp1 where "sp1 = releaseExpired (rd_enter rd) sp"
  have ok1: "pool_ok sp1" and view1: "elapse (rd_enter rd) (pattern_view sp r) = pattern_view sp1 r" for r
    using released_view [OF assms(1)] by (simp_all add: sp1_def)
  have fields: "sp_cooldown sp1 = sp_cooldown sp" "sp_deadline sp1 = sp_deadline sp" by (simp_all add: sp1_def)
  have inside: "map_of (sp_until sp1) p = None \<Longrightarrow> pattern_view sp1 p = In_pool (consecutiveTimeoutCount sp1 p)"
    and outside: "map_of (sp_until sp1) p = Some u \<Longrightarrow> pattern_view sp1 p = Out_until u" for u
    by (simp_all add: pattern_view_def)
  from assms(2) sp1_def show ?thesis
  proof (cases rule: run_scan_cases)
    case (quarantined u)
    then show ?thesis using ok1 view1 fields outside by (simp add: after_scan_def)
  next
    case failed
    then show ?thesis using ok1 view1 fields inside by (simp add: after_scan_def)
  next
    case timed_out
    then show ?thesis using pool_ok_timeout [OF ok1] view1 fields inside view_timeout [of sp1 p "rd_late rd" q] by simp
  next
    case completed
    then show ?thesis using pool_ok_success [OF ok1] view1 fields inside view_success [of sp1 p q]
      by (simp add: after_scan_def) (simp add: reportSuccess_def)
  qed
qed

subsection \<open>Reachable supervisors\<close>

text \<open>
  The states of a supervisor that is only used through its calls, with the last reading of a clock
  that does not run backwards and the history of patterns and outcomes.
\<close>

inductive reach :: "rat \<Rightarrow> rat \<Rightarrow> scan_pool \<Rightarrow> rat \<Rightarrow> (jtext \<times> scan_status) list \<Rightarrow> bool" for deadline cooldown where
  start: "reach deadline cooldown (init_pool deadline cooldown) t []"
| call: "reach deadline cooldown sp t h \<Longrightarrow> t \<le> rd_enter rd \<Longrightarrow> rd_enter rd \<le> rd_late rd \<Longrightarrow>
    run_scan rd p (scan :: unit option) sp = (o1, sp') \<Longrightarrow>
    reach deadline cooldown sp' (rd_late rd) (h @ [(p, so_status o1)])"

text \<open>The outcomes of a pattern's scans that ran to a verdict of the clock.\<close>

definition verdicts :: "jtext \<Rightarrow> (jtext \<times> scan_status) list \<Rightarrow> scan_status list" where
  "verdicts p h = map snd (filter (\<lambda>(q, s). q = p \<and> (s = Completed \<or> s = TimedOut)) h)"

definition explained :: "scan_status list \<Rightarrow> rat \<Rightarrow> pattern_state \<Rightarrow> bool" where
  "explained vs limit v \<longleftrightarrow>
     (case v of
        In_pool n \<Rightarrow> n < SCAN_POOL_SIZE \<and> suffix (replicate n TimedOut) vs
      | Out_until u \<Rightarrow> u \<le> limit \<and> suffix (replicate SCAN_POOL_SIZE TimedOut) vs)"

lemma explained_elapse: "explained vs limit v \<Longrightarrow> limit \<le> limit' \<Longrightarrow> explained vs limit' (elapse now v)"
  by (auto simp: explained_def elapse_def SCAN_POOL_SIZE_def split: pattern_state.splits)

lemma verdicts_snoc:
  "verdicts p (h @ [(q, s)]) = (if q = p \<and> (s = Completed \<or> s = TimedOut) then verdicts p h @ [s] else verdicts p h)"
  by (auto simp: verdicts_def)

lemma suffix_replicate_snoc: "suffix (replicate n x) xs \<Longrightarrow> suffix (replicate (Suc n) x) (xs @ [x])"
  by (auto simp: suffix_def replicate_append_same)

lemma explained_scan:
  assumes "explained vs (late + cooldown) v"
  shows "explained (if s = Completed \<or> s = TimedOut then vs @ [s] else vs) (late + cooldown) (after_scan cooldown late s v) \<or>
    (\<exists>u. v = Out_until u)"
proof (cases v)
  case (In_pool n)
  then have n: "n < SCAN_POOL_SIZE" "suffix (replicate n TimedOut) vs" using assms by (simp_all add: explained_def)
  show ?thesis
  proof (cases s)
    case TimedOut
    show ?thesis
    proof (cases "n + 1 < SCAN_POOL_SIZE")
      case True
      then show ?thesis using In_pool TimedOut suffix_replicate_snoc [OF n(2)] by (simp add: explained_def after_scan_def)
    next
      case False
      then have "SCAN_POOL_SIZE = Suc n" using n(1) by simp
      then show ?thesis using In_pool TimedOut suffix_replicate_snoc [OF n(2)] by (simp add: explained_def after_scan_def)
    qed
  qed (use In_pool n in \<open>simp_all add: explained_def after_scan_def SCAN_POOL_SIZE_def\<close>)
qed simp

lemma reach_explained:
  assumes "reach deadline cooldown sp t h" "0 \<le> cooldown"
  shows "pool_ok sp \<and> sp_cooldown sp = cooldown \<and> sp_deadline sp = deadline \<and>
    explained (verdicts q h) (t + cooldown) (pattern_view sp q)"
  using assms(1)
proof (induction arbitrary: q)
  case (start t)
  then show ?case
    by (simp add: init_pool_def pool_ok_def explained_def pattern_view_def consecutiveTimeoutCount_def om_get_or_def
      SCAN_POOL_SIZE_def)
next
  case (call sp t h rd p scan o1 sp')
  have ok: "pool_ok sp" "sp_cooldown sp = cooldown" "sp_deadline sp = deadline" using call.IH by blast+
  note view = run_scan_view [OF ok(1) call.hyps(4)]
  define v where "v = elapse (rd_enter rd) (pattern_view sp q)"
  have v: "explained (verdicts q h) (rd_late rd + cooldown) v"
    unfolding v_def by (rule explained_elapse [of _ "t + cooldown"]) (use call in auto)
  have "explained (verdicts q (h @ [(p, so_status o1)])) (rd_late rd + cooldown) (pattern_view sp' q)"
  proof (cases "q = p")
    case False
    then show ?thesis using v view [of q] by (simp add: verdicts_snoc v_def)
  next
    case True
    show ?thesis
    proof (cases "\<exists>u. v = Out_until u")
      case out: True
      then have "so_status o1 = Quarantined" "pattern_view sp' q = v"
        using view [of q] True by (auto simp: v_def after_scan_def)
      then show ?thesis using v by (simp add: verdicts_snoc)
    next
      case False
      then show ?thesis
        using explained_scan [OF v, of "so_status o1"] view [of q] True ok(2)
        by (simp add: verdicts_snoc v_def cong: if_cong)
    qed
  qed
  then show ?case using view [of q] ok by simp
qed

text \<open>
  Every call refines the abstract pool: quarantines whose time has come end, the outcome decides
  about the pattern that was scanned (four timeouts in a row put it out for a cooldown, a completed
  scan clears its count, a scan that throws changes nothing), and no other pattern is touched.
\<close>

theorem supervisor_refines_patterns:
  assumes "reach deadline cooldown sp t h" "0 \<le> cooldown" "run_scan rd p (scan :: 'a option) sp = (o1, sp')"
  shows "pattern_view sp' q =
      (if q = p then after_scan cooldown (rd_late rd) (so_status o1) (elapse (rd_enter rd) (pattern_view sp p))
       else elapse (rd_enter rd) (pattern_view sp q)) \<and>
    (so_status o1 = Quarantined \<longleftrightarrow> (\<exists>u. elapse (rd_enter rd) (pattern_view sp p) = Out_until u))"
  using run_scan_view [OF _ assms(3), of q] reach_explained [OF assms(1,2)] by simp

definition tick :: "rat \<Rightarrow> readings" where
  "tick t = \<lparr>rd_enter = t, rd_start = t, rd_stop = t, rd_late = t\<rparr>"

theorem supervisor_refines_patterns_witness:
  "pattern_view (snd (run_scan (tick 5) [97] (Some ()) (init_pool 2000 60000))) [97] = In_pool 0"
  using supervisor_refines_patterns [OF reach.start [of 2000 60000 0], of "tick 5" "[97]" "Some ()"
      "fst (run_scan (tick 5) [97] (Some ()) (init_pool 2000 60000))" "snd (run_scan (tick 5) [97] (Some ()) (init_pool 2000 60000))" "[97]"]
  by (simp add: run_scan_def isActive_def releaseExpired_def init_pool_def tick_def om_has_def Let_def
    pattern_view_def elapse_def consecutiveTimeoutCount_def om_get_or_def after_scan_def)

text \<open>
  No quarantine lasts: once a cooldown has passed since the last call, the next scan of any
  pattern runs, whatever the patterns, outcomes and times before.
\<close>

theorem quarantine_ends:
  assumes "reach deadline cooldown sp t h" "0 \<le> cooldown" "t + cooldown \<le> rd_enter rd"
  shows "so_status (fst (run_scan rd p (scan :: 'a option) sp)) \<noteq> Quarantined"
proof -
  have ex: "pool_ok sp" "explained (verdicts p h) (t + cooldown) (pattern_view sp p)"
    using reach_explained [OF assms(1,2)] by blast+
  obtain o1 sp' where run: "run_scan rd p scan sp = (o1, sp')" by force
  have "\<not> (\<exists>u. elapse (rd_enter rd) (pattern_view sp p) = Out_until u)"
    using ex(2) assms(3) by (auto simp: explained_def elapse_def split: pattern_state.splits if_splits)
  then show ?thesis using run_scan_view [OF ex(1) run, of p] by (simp add: run)
qed

theorem quarantine_ends_witness:
  "so_status (fst (run_scan (tick 60000) [97] (Some ()) (init_pool 2000 60000))) \<noteq> Quarantined"
  using quarantine_ends [OF reach.start [of 2000 60000 0], of "tick 60000" "[97]" "Some ()"] by (simp add: tick_def)

text \<open>
  A pattern is refused only if the last four of its scans that ran to their end all overshot the
  deadline: one scan within the deadline starts the count anew, and no pattern is punished for
  another.
\<close>

theorem quarantine_is_earned:
  assumes "reach deadline cooldown sp t h" "0 \<le> cooldown" "so_status (fst (run_scan rd p (scan :: 'a option) sp)) = Quarantined"
  shows "suffix [TimedOut, TimedOut, TimedOut, TimedOut] (verdicts p h)"
proof -
  have ex: "pool_ok sp" "explained (verdicts p h) (t + cooldown) (pattern_view sp p)"
    using reach_explained [OF assms(1,2)] by blast+
  obtain o1 sp' where run: "run_scan rd p scan sp = (o1, sp')" by force
  then obtain u where "elapse (rd_enter rd) (pattern_view sp p) = Out_until u"
    using run_scan_view [OF ex(1) run, of p] assms(3) by auto
  then have "\<exists>u. pattern_view sp p = Out_until u" by (auto simp: elapse_def split: pattern_state.splits if_splits)
  then show ?thesis using ex(2) by (auto simp: explained_def SCAN_POOL_SIZE_def numeral_eq_Suc)
qed

definition slow :: "rat \<Rightarrow> readings" where
  "slow t = \<lparr>rd_enter = t, rd_start = t, rd_stop = t + 3000, rd_late = t + 3000\<rparr>"

definition slow_state :: "nat \<Rightarrow> scan_pool" where
  "slow_state n = (init_pool 2000 60000)\<lparr>sp_consecutive := [([97], n)]\<rparr>"

lemmas run_eval = run_scan_def isActive_def releaseExpired_def init_pool_def slow_def slow_state_def om_has_def Let_def
  reportTimeout_def consecutiveTimeoutCount_def om_get_or_def SCAN_POOL_SIZE_def emit_def

lemma slow_runs:
  "run_scan (slow 0) [97] (Some ()) (init_pool 2000 60000) = (\<lparr>so_status = TimedOut, so_value = None, so_elapsed = 3000\<rparr>, slow_state 1)"
  "run_scan (slow 3000) [97] (Some ()) (slow_state 1) = (\<lparr>so_status = TimedOut, so_value = None, so_elapsed = 3000\<rparr>, slow_state 2)"
  "run_scan (slow 6000) [97] (Some ()) (slow_state 2) = (\<lparr>so_status = TimedOut, so_value = None, so_elapsed = 3000\<rparr>, slow_state 3)"
  by (simp_all add: run_eval)

theorem quarantine_is_earned_witness:
  "suffix [TimedOut, TimedOut, TimedOut, TimedOut]
     (verdicts [97] [([97], TimedOut), ([97], TimedOut), ([97], TimedOut), ([97], TimedOut)])"
proof -
  obtain o4 s4 where run4: "run_scan (slow 9000) [97] (Some ()) (slow_state 3) = (o4, s4)" by force
  have late: "rd_late (slow t) = t + 3000" "rd_enter (slow t) = t" for t by (simp_all add: slow_def)
  have "reach 2000 60000 (slow_state 1) 3000 [([97], TimedOut)]"
    using reach.call [OF reach.start [of 2000 60000 0] _ _ slow_runs(1)] by (simp add: late)
  then have "reach 2000 60000 (slow_state 2) 6000 [([97], TimedOut), ([97], TimedOut)]"
    using reach.call [OF _ _ _ slow_runs(2)] by (fastforce simp: late)
  then have "reach 2000 60000 (slow_state 3) 9000 [([97], TimedOut), ([97], TimedOut), ([97], TimedOut)]"
    using reach.call [OF _ _ _ slow_runs(3)] by (fastforce simp: late)
  then have "reach 2000 60000 s4 12000 ([([97], TimedOut), ([97], TimedOut), ([97], TimedOut)] @ [([97], so_status o4)])"
    using reach.call [OF _ _ _ run4] by (fastforce simp: late)
  moreover have "so_status o4 = TimedOut" using run4 by (auto simp: run_eval)
  ultimately have "reach 2000 60000 s4 12000 [([97], TimedOut), ([97], TimedOut), ([97], TimedOut), ([97], TimedOut)]" by simp
  then show ?thesis
    by (rule quarantine_is_earned [of _ _ _ _ _ "slow 12000" "[97]" "Some ()"]) (use run4 in \<open>auto simp: run_eval release_one_def\<close>)
qed

end
