(* ===== verification/Preprocessor.thy ===== *)
theory Preprocessor
  imports Html_Unescape Base64_Decode "HOL-Library.Sublist"
begin

section \<open>Content preprocessing (detection-engine/preprocessor.ts, truncation.ts, base64-view.ts)\<close>

text \<open>
  What the detection engine does to a text before it matches patterns: normalisation, the chain of
  decoders until nothing changes, comment stripping, removal of control characters and runs of
  whitespace, and truncation that keeps the places that look like attacks. Arguments of the model
  are Unicode's NFKC, the decompression stream, and the attack indicators: each a function from a
  text to the places its regular expression matches, with their lengths.
\<close>

record pp_config =
  pp_max_content :: nat
  pp_preserve :: bool
  pp_max_scan :: nat
  pp_nfkc :: "jtext \<Rightarrow> jtext"
  pp_gunzip :: "nat list \<Rightarrow> stream_event list"
  pp_indicators :: "(jtext \<Rightarrow> (nat \<times> nat) list) list"

definition DEFAULT_MAX_FULL_SCAN_BYTES :: nat where "DEFAULT_MAX_FULL_SCAN_BYTES = 262144"
definition FULL_SCAN_TAIL_BYTES :: nat where "FULL_SCAN_TAIL_BYTES = 4096"

subsection \<open>Characters\<close>

definition LOOKALIKES :: "(nat \<times> jtext) list" where
  "LOOKALIKES =
     [(0x2044, [47]), (0xFF0F, [47]), (0x29F8, [47]), (0x0130, [73]), (0x0131, [105]), (0x200B, []), (0x200C, []),
      (0x200D, []), (0xFEFF, []), (0x00AD, []), (0x034F, []), (0x180E, []), (0x2028, [10]), (0x2029, [10]),
      (0xE000, []), (0xFFF0, []), (0x01C0, [124]), (0x037E, [59]), (0x2215, [47]), (0x2216, [92]), (0xFF1C, [60]),
      (0xFF1E, [62]), (0xFF1B, [59]), (0xFF5C, [124]), (0xFF06, [38])]"

text \<open>\<open>s.split(c).join(r)\<close> for a character of one unit.\<close>

definition replace_char :: "nat \<times> jtext \<Rightarrow> jtext \<Rightarrow> jtext" where
  "replace_char p s = (case p of (c, r) \<Rightarrow> join_with r (split_on c s))"

definition normalizeUnicode :: "pp_config \<Rightarrow> jtext \<Rightarrow> jtext" where
  "normalizeUnicode P s = fold replace_char LOOKALIKES (pp_nfkc P s)"

definition removeNullBytes :: "jtext \<Rightarrow> jtext" where
  "removeNullBytes s =
     filter (\<lambda>c. \<not> (1 \<le> c \<and> c \<le> 8 \<or> c = 0x0B \<or> c = 0x0C \<or> 0x0E \<le> c \<and> c \<le> 0x1F)) (filter (\<lambda>c. c \<noteq> 0) s)"

definition py_whitespace :: "nat \<Rightarrow> bool" where
  "py_whitespace c \<longleftrightarrow> (9 \<le> c \<and> c \<le> 13) \<or> c = 32 \<or> c = 0xA0 \<or> c = 0x1680 \<or> (0x2000 \<le> c \<and> c \<le> 0x200A) \<or>
     c = 0x2028 \<or> c = 0x2029 \<or> c = 0x202F \<or> c = 0x205F \<or> c = 0x3000 \<or> c = 0x85 \<or> (0x1C \<le> c \<and> c \<le> 0x1F)"

text \<open>Every run of whitespace becomes one space.\<close>

function collapse_ws :: "jtext \<Rightarrow> jtext" where
  "collapse_ws [] = []"
| "collapse_ws (c # s) =
     (if py_whitespace c then 32 # collapse_ws (dropWhile py_whitespace s) else c # collapse_ws s)"
  by pat_completeness auto
termination by (relation "measure length") (auto intro: le_imp_less_Suc length_dropWhile_le)

definition removeExcessiveWhitespace :: "jtext \<Rightarrow> jtext" where
  "removeExcessiveWhitespace s =
     rev (dropWhile py_whitespace (rev (dropWhile py_whitespace (collapse_ws s))))"

subsection \<open>SQL comments\<close>

definition word_unit :: "nat \<Rightarrow> bool" where
  "word_unit c \<longleftrightarrow> (65 \<le> c \<and> c \<le> 90) \<or> (97 \<le> c \<and> c \<le> 122) \<or> (48 \<le> c \<and> c \<le> 57) \<or> c = 95"

text \<open>The number of units before the first end mark, with no word character behind it if \<open>strict\<close>.\<close>

fun comment_end :: "bool \<Rightarrow> jtext \<Rightarrow> nat option" where
  "comment_end strict [] = None"
| "comment_end strict (c # s) =
     (if starts_with [42, 47] (c # s) \<and> (strict \<longrightarrow> (case drop 1 s of [] \<Rightarrow> True | d # _ \<Rightarrow> \<not> word_unit d))
      then Some 0 else map_option Suc (comment_end strict s))"

definition comment_match :: matcher where
  "comment_match p s =
     (if starts_with [47, 42] s \<and> \<not> starts_with [33] (drop 2 s)
      then
        (let found = (case (if (case p of None \<Rightarrow> True | Some c \<Rightarrow> \<not> word_unit c)
                            then comment_end False (drop 2 s) else None) of
                        Some n \<Rightarrow> Some n
                      | None \<Rightarrow> comment_end True (drop 2 s))
         in map_option (\<lambda>n. (n + 4, [32] @ take n (drop 2 s) @ [32])) found)
      else None)"

definition line_mark_match :: matcher where
  "line_mark_match p s =
     (if starts_with [45, 45] s then Some (2, [32]) else if starts_with [35] s then Some (1, [32]) else None)"

definition stripSqlComments :: "jtext \<Rightarrow> jtext" where
  "stripSqlComments s = replace_from line_mark_match None (replace_from comment_match None s)"

subsection \<open>Attack regions\<close>

type_synonym region = "nat \<times> nat"

definition max_regions :: "pp_config \<Rightarrow> nat" where
  "max_regions P = min 100 (pp_max_content P div 100)"

definition region_of :: "jtext \<Rightarrow> nat \<times> nat \<Rightarrow> region" where
  "region_of s m = (case m of (i, n) \<Rightarrow> (i - 100, min (length s) (i + n + 100)))"

fun collect_regions :: "nat \<Rightarrow> jtext \<Rightarrow> (jtext \<Rightarrow> (nat \<times> nat) list) list \<Rightarrow> region list \<Rightarrow> region list" where
  "collect_regions n s [] acc = acc"
| "collect_regions n s (f # fs) acc =
     (let acc' = acc @ map (region_of s) (take n (f s))
      in if n \<le> length acc' then acc' else collect_regions n s fs acc')"

fun merge_regions :: "region \<Rightarrow> region list \<Rightarrow> region list" where
  "merge_regions r [] = [r]"
| "merge_regions (a, b) ((s, e) # rs) =
     (if s \<le> b then merge_regions (a, max b e) rs else (a, b) # merge_regions (s, e) rs)"

definition extractAttackRegions :: "pp_config \<Rightarrow> jtext \<Rightarrow> region list" where
  "extractAttackRegions P s =
     (case sort_key fst (sort_key snd (collect_regions (max_regions P) s (pp_indicators P) [])) of
        [] \<Rightarrow> []
      | r # rs \<Rightarrow> take (max_regions P) (merge_regions r rs))"

subsection \<open>Truncation\<close>

fun extractAndConcatenateAttackRegions :: "jtext \<Rightarrow> region list \<Rightarrow> nat \<Rightarrow> jtext" where
  "extractAndConcatenateAttackRegions s [] left = []"
| "extractAndConcatenateAttackRegions s ((a, b) # rs) left =
     (let n = min (b - a) left
      in slice a (a + n) s @ (if left - n = 0 then [] else extractAndConcatenateAttackRegions s rs (left - n)))"

definition consumeGap :: "jtext \<Rightarrow> nat \<Rightarrow> nat \<Rightarrow> nat \<Rightarrow> jtext \<times> nat" where
  "consumeGap s lastEnd start gapBudget =
     (let gapLen = start - lastEnd
      in if gapLen \<le> gapBudget then (slice lastEnd start s, gapBudget - gapLen)
         else (slice lastEnd (lastEnd + (gapBudget - 1)) s @ [32], 0))"

definition attack_length :: "region list \<Rightarrow> nat" where
  "attack_length rs = sum_list (map (\<lambda>(a, b). b - a) rs)"

fun build_parts :: "jtext \<Rightarrow> region list \<Rightarrow> nat \<Rightarrow> nat \<Rightarrow> jtext" where
  "build_parts s [] lastEnd gapBudget =
     (if lastEnd < length s \<and> 0 < gapBudget then slice lastEnd (lastEnd + min (length s - lastEnd) gapBudget) s else [])"
| "build_parts s ((a, b) # rs) lastEnd gapBudget =
     (case (if lastEnd < a \<and> 0 < gapBudget then consumeGap s lastEnd a gapBudget else ([], gapBudget)) of
        (piece, gapBudget') \<Rightarrow> piece @ slice a b s @ build_parts s rs b gapBudget')"

definition buildResultWithAttackRegionsAndContext :: "jtext \<Rightarrow> region list \<Rightarrow> nat \<Rightarrow> jtext" where
  "buildResultWithAttackRegionsAndContext s rs budget = build_parts s rs 0 (budget - attack_length rs)"

definition capWithTail :: "jtext \<Rightarrow> nat \<Rightarrow> jtext" where
  "capWithTail s cap = (let tail = min FULL_SCAN_TAIL_BYTES cap in take (cap - tail) s @ drop (length s - tail) s)"

definition truncateSafely :: "pp_config \<Rightarrow> jtext \<Rightarrow> jtext" where
  "truncateSafely P s =
     (let cap = pp_max_scan P
      in if length s \<le> cap then s
         else if \<not> pp_preserve P then take cap s
         else
           (let rs = extractAttackRegions P s
            in if rs = [] then capWithTail s cap
               else if cap \<le> attack_length rs then extractAndConcatenateAttackRegions s rs cap
               else buildResultWithAttackRegionsAndContext s rs cap))"

subsection \<open>The decode chain\<close>

record decode_state =
  dc_text :: jtext
  dc_gunzips :: nat
  dc_events :: "exn list"

text \<open>A text that cannot be unquoted stays, and a \<open>decoding_error\<close> event is sent.\<close>

definition url_stage :: "jtext \<Rightarrow> jtext \<times> exn list" where
  "url_stage s = (case pyUnquote s of Inl e \<Rightarrow> (s, [e]) | Inr t \<Rightarrow> (t, []))"

definition decode_round :: "pp_config \<Rightarrow> decode_state \<Rightarrow> decode_state" where
  "decode_round P st =
     (case url_stage (decodeOverlongUtf8PercentRuns (dc_text st)) of
        (unquoted, errs) \<Rightarrow>
          (case decodeBase64Candidates (pp_gunzip P)
                  (normalizeUnicode P (decodeUnicodeEscapes (decodeLdapHexEscapes (decodeHexEscapes
                     (decodePercentUEscapes (htmlUnescape unquoted))))))
                  (dc_gunzips st) of
             (t, left) \<Rightarrow> \<lparr>dc_text = t, dc_gunzips = left, dc_events = dc_events st @ errs\<rparr>))"

definition maxDecodeIterations :: nat where "maxDecodeIterations = 16"

text \<open>The second component is whether the iterations were used up.\<close>

fun decode_loop :: "pp_config \<Rightarrow> nat \<Rightarrow> decode_state \<Rightarrow> decode_state \<times> bool" where
  "decode_loop P 0 st = (st, True)"
| "decode_loop P (Suc n) st =
     (let st' = decode_round P st in if dc_text st' = dc_text st then (st', False) else decode_loop P n st')"

definition start_decoding :: "jtext \<Rightarrow> decode_state" where
  "start_decoding s = \<lparr>dc_text = s, dc_gunzips = MAX_GUNZIP_ATTEMPTS_PER_PASS, dc_events = []\<rparr>"

definition decodeCommonEncodings :: "pp_config \<Rightarrow> jtext \<Rightarrow> jtext \<times> bool \<times> exn list" where
  "decodeCommonEncodings P s =
     (case decode_loop P maxDecodeIterations (start_decoding s) of
        (st, exhausted) \<Rightarrow> (stripSqlComments (dc_text st), exhausted, dc_events st))"

definition preprocessWithDecoded :: "pp_config \<Rightarrow> jtext \<Rightarrow> jtext \<times> jtext" where
  "preprocessWithDecoded P s =
     (if s = [] then ([], [])
      else
        (let decoded = fst (decodeCommonEncodings P (normalizeUnicode P s))
         in (truncateSafely P (removeExcessiveWhitespace (removeNullBytes decoded)), decoded)))"

definition preprocess :: "pp_config \<Rightarrow> jtext \<Rightarrow> jtext" where
  "preprocess P s = fst (preprocessWithDecoded P s)"

definition preprocessSignalPreserving :: "pp_config \<Rightarrow> jtext \<Rightarrow> jtext" where
  "preprocessSignalPreserving P s = (if s = [] then [] else truncateSafely P (normalizeUnicode P s))"

definition preprocessUrlDecodedNewlinePreserving :: "pp_config \<Rightarrow> jtext \<Rightarrow> jtext" where
  "preprocessUrlDecodedNewlinePreserving P s =
     (if s = [] then [] else truncateSafely P (fst (decodeCommonEncodings P (normalizeUnicode P s))))"

definition preprocessBatch :: "pp_config \<Rightarrow> jtext list \<Rightarrow> jtext list" where
  "preprocessBatch P ss = map (preprocess P) ss"

subsection \<open>The view of short base64 tokens\<close>

definition MAX_SHORT_BASE64_TOKEN_LENGTH :: nat where "MAX_SHORT_BASE64_TOKEN_LENGTH = 11"
definition MAX_SHORT_BASE64_CANDIDATES :: nat where "MAX_SHORT_BASE64_CANDIDATES = 20000"
definition SHORT_BASE64_MARKER_CHARS :: "nat list" where "SHORT_BASE64_MARKER_CHARS = [36, 123, 125, 35]"
definition SHORT_PRINTABLE_RATIO_THRESHOLD :: rat where "SHORT_PRINTABLE_RATIO_THRESHOLD = 19 / 20"

definition decodeShortToken :: "jtext \<Rightarrow> jtext option" where
  "decodeShortToken token =
     (if MAX_SHORT_BASE64_TOKEN_LENGTH < length token then None
      else
        (case strictBase64Decode (token @ replicate ((4 - length token mod 4) mod 4) 61) of
           None \<Rightarrow> None
         | Some bytes \<Rightarrow> map_option utf16_text (text_decode bytes)))"

definition isQualifyingFragment :: "jtext \<Rightarrow> bool" where
  "isQualifyingFragment s \<longleftrightarrow>
     \<not> printableRatio s < SHORT_PRINTABLE_RATIO_THRESHOLD \<and> list_ex (\<lambda>c. c \<in> set SHORT_BASE64_MARKER_CHARS) s"

definition decodeShortCandidate :: "jtext \<Rightarrow> jtext option" where
  "decodeShortCandidate token =
     (case decodeShortToken token of
        None \<Rightarrow> None
      | Some d \<Rightarrow> if isQualifyingFragment d then Some d else None)"

definition base64_unit :: "nat \<Rightarrow> bool" where
  "base64_unit c \<longleftrightarrow> (65 \<le> c \<and> c \<le> 90) \<or> (97 \<le> c \<and> c \<le> 122) \<or> (48 \<le> c \<and> c \<le> 57) \<or> c = 43 \<or> c = 47"

function short_tokens :: "jtext \<Rightarrow> jtext list" where
  "short_tokens [] = []"
| "short_tokens (c # s) =
     (if base64_unit c
      then (let t = c # takeWhile base64_unit s; rest = dropWhile base64_unit s
            in if 4 \<le> length t then t # short_tokens rest else short_tokens rest)
      else short_tokens s)"
  by pat_completeness auto
termination by (relation "measure length") (auto intro: le_imp_less_Suc length_dropWhile_le)

definition buildShortBase64AdditiveView :: "pp_config \<Rightarrow> jtext \<Rightarrow> jtext" where
  "buildShortBase64AdditiveView P content =
     (if content = [] then []
      else
        (let tokens = take MAX_SHORT_BASE64_CANDIDATES (short_tokens (truncateSafely P (normalizeUnicode P content)))
         in join_with [10] (List.map_filter decodeShortCandidate tokens)))"

subsection \<open>The cap holds\<close>

lemma length_concatenated: "length (extractAndConcatenateAttackRegions s rs left) \<le> left"
proof (induction s rs left rule: extractAndConcatenateAttackRegions.induct)
  case (2 s a b rs left)
  define n where "n = min (b - a) left"
  have "length (slice a (a + n) s) \<le> n" using length_slice [of a "a + n" s] by simp
  moreover have "n \<le> left" by (simp add: n_def)
  moreover have "left - n \<noteq> 0 \<Longrightarrow> length (extractAndConcatenateAttackRegions s rs (left - n)) \<le> left - n"
    using 2 n_def by blast
  ultimately show ?case by (force simp add: Let_def n_def [symmetric])
qed simp

lemma length_consumeGap:
  "0 < gap \<Longrightarrow> consumeGap s l a gap = (piece, gap') \<Longrightarrow> length piece + gap' \<le> gap"
  using length_slice [of l a s] length_slice [of l "l + (gap - 1)" s]
  by (auto simp: consumeGap_def Let_def split: if_splits)

lemma length_build_parts: "length (build_parts s rs l gap) \<le> attack_length rs + gap"
proof (induction s rs l gap rule: build_parts.induct)
  case (1 s l gap)
  show ?case using length_slice [of l "l + min (length s - l) gap" s] by (auto simp: attack_length_def)
next
  case (2 s a b rs l gap)
  obtain piece gap' where p: "(if l < a \<and> 0 < gap then consumeGap s l a gap else ([], gap)) = (piece, gap')"
    by fastforce
  have "length piece + gap' \<le> gap" using p length_consumeGap by (auto split: if_splits)
  then show ?case using 2 [OF p [symmetric]] length_slice [of a b s] p by (auto simp: attack_length_def)
qed

lemma length_capWithTail: "cap \<le> length s \<Longrightarrow> length (capWithTail s cap) = cap"
  by (auto simp: capWithTail_def Let_def FULL_SCAN_TAIL_BYTES_def)

lemma length_truncateSafely: "length (truncateSafely P s) \<le> pp_max_scan P"
proof -
  define rs where "rs = extractAttackRegions P s"
  show ?thesis
    using length_concatenated [of s rs "pp_max_scan P"] length_capWithTail [of "pp_max_scan P" s]
      length_build_parts [of s rs 0 "pp_max_scan P - attack_length rs"]
    by (auto simp: truncateSafely_def Let_def rs_def [symmetric] buildResultWithAttackRegionsAndContext_def)
qed

subsection \<open>No attack is cut\<close>

lemma collect_all:
  assumes "length acc + (\<Sum>f \<leftarrow> fs. length (f s)) \<le> n"
  shows "collect_regions n s fs acc = acc @ concat (map (\<lambda>f. map (region_of s) (f s)) fs)"
  using assms
proof (induction fs arbitrary: acc)
  case (Cons f fs)
  show ?case
  proof (cases "n \<le> length acc + length (f s)")
    case True
    then have "(\<Sum>f \<leftarrow> fs. length (f s)) \<le> 0" using Cons.prems unfolding list.map sum_list.Cons by linarith
    then have "\<forall>g \<in> set fs. g s = []" by simp
    then have "concat (map (\<lambda>f. map (region_of s) (f s)) fs) = []" by simp
    moreover have "take n (f s) = f s" using Cons.prems by simp
    ultimately show ?thesis using True by (simp add: Let_def)
  next
    case False
    then show ?thesis using Cons.IH [of "acc @ map (region_of s) (f s)"] Cons.prems by (simp add: Let_def)
  qed
qed simp

lemma length_merge: "length (merge_regions r rs) \<le> Suc (length rs)"
  by (induction r rs rule: merge_regions.induct) auto

text \<open>Each region lies in one of the merged ones, and these are apart and in order.\<close>

definition covers :: "region list \<Rightarrow> region \<Rightarrow> bool" where
  "covers rs r \<longleftrightarrow> (\<exists>(a, b) \<in> set rs. a \<le> fst r \<and> snd r \<le> b)"

lemma covers_mono: "covers rs (a', b') \<Longrightarrow> a' \<le> a \<Longrightarrow> b \<le> b' \<Longrightarrow> covers rs (a, b)"
  by (auto simp: covers_def intro: order_trans split: prod.splits)

lemma merge_covers: "sorted (map fst (r # rs)) \<Longrightarrow> q \<in> set (r # rs) \<Longrightarrow> covers (merge_regions r rs) q"
proof (induction r rs arbitrary: q rule: merge_regions.induct)
  case (2 a b s e rs)
  show ?case
  proof (cases "s \<le> b")
    case True
    have sorted: "sorted (map fst ((a, max b e) # rs))" using "2.prems"(1) by auto
    consider "q \<in> set rs" | "q = (a, b)" | "q = (s, e)" using "2.prems"(2) by auto
    then show ?thesis
    proof cases
      case 1
      then show ?thesis using "2.IH"(1) [OF True sorted] True by simp
    next
      case 2
      then show ?thesis using "2.IH"(1) [OF True sorted, of "(a, max b e)"] True covers_mono by simp
    next
      case 3
      then show ?thesis
        using "2.IH"(1) [OF True sorted, of "(a, max b e)"] True "2.prems"(1)
          covers_mono [of "merge_regions (a, max b e) rs" a "max b e" s e] by simp
    qed
  next
    case False
    then show ?thesis using 2 by (auto simp: covers_def)
  qed
qed (simp add: covers_def split: prod.splits)

lemma slice_within:
  assumes "a \<le> i" "j \<le> b"
  shows "sublist (slice i j s) (slice a b s)"
proof (cases "i \<le> j")
  case True
  have "slice i j s = slice (i - a) (j - a) (slice a b s)"
    using assms True by (simp add: slice_def drop_take min_def)
  then show ?thesis by (simp add: slice_def sublist_def) (metis append_take_drop_id)
qed (simp add: slice_def)

lemma sublist_slice: "sublist (slice a b s) s"
  unfolding slice_def sublist_def by (metis append_take_drop_id)

lemma built_holds_region: "(a, b) \<in> set rs \<Longrightarrow> sublist (slice a b s) (build_parts s rs l gap)"
proof (induction s rs l gap rule: build_parts.induct)
  case (2 s c d rs l gap)
  obtain piece gap' where p: "(if l < c \<and> 0 < gap then consumeGap s l c gap else ([], gap)) = (piece, gap')"
    by fastforce
  have "sublist (slice a b s) (build_parts s rs d gap')" if "(a, b) \<in> set rs" using 2(1) [OF p [symmetric] that] .
  then show ?case using 2(2) p by (auto simp: sublist_append intro: sublist_order.order_trans)
qed simp

lemma sorted_by_start: "sorted (map fst (sort_key fst xs))" by simp

lemma extract_covers:
  assumes "(\<Sum>f \<leftarrow> pp_indicators P. length (f s)) \<le> max_regions P" "f \<in> set (pp_indicators P)" "m \<in> set (f s)"
  shows "covers (extractAttackRegions P s) (region_of s m)"
proof -
  define rs where "rs = sort_key fst (sort_key snd (collect_regions (max_regions P) s (pp_indicators P) []))"
  have all: "collect_regions (max_regions P) s (pp_indicators P) [] =
    concat (map (\<lambda>f. map (region_of s) (f s)) (pp_indicators P))"
    using collect_all [of "[]"] assms(1) by simp
  then have "region_of s m \<in> set rs" using assms by (auto simp: rs_def)
  moreover have "length rs \<le> max_regions P"
    using assms(1) by (simp add: rs_def all length_concat comp_def)
  moreover have "sorted (map fst rs)" by (simp add: rs_def)
  ultimately show ?thesis
    using merge_covers [of "hd rs" "tl rs" "region_of s m"] length_merge [of "hd rs" "tl rs"]
    by (cases rs) (auto simp: extractAttackRegions_def rs_def [symmetric])
qed

lemma set_slice: "set (slice a b s) \<subseteq> set s"
  unfolding slice_def using set_take_subset [of "b - a" "drop a s"] set_drop_subset [of a s] by blast

lemma concatenated_chars: "set (extractAndConcatenateAttackRegions s rs left) \<subseteq> set s"
  by (induction s rs left rule: extractAndConcatenateAttackRegions.induct) (simp_all add: Let_def set_slice)

lemma consumeGap_chars: "set (fst (consumeGap s l a gap)) \<subseteq> insert 32 (set s)"
  using set_slice [of l a s] set_slice [of l "l + (gap - 1)" s] by (simp add: consumeGap_def Let_def) blast

lemma build_parts_chars: "set (build_parts s rs l gap) \<subseteq> insert 32 (set s)"
proof (induction s rs l gap rule: build_parts.induct)
  case (1 s l gap)
  then show ?case using set_slice [of l _ s] by auto
next
  case (2 s a b rs l gap)
  obtain piece gap' where p: "(if l < a \<and> 0 < gap then consumeGap s l a gap else ([], gap)) = (piece, gap')"
    by fastforce
  have "set piece \<subseteq> insert 32 (set s)"
    using p consumeGap_chars [of s l a gap] by (cases "l < a \<and> 0 < gap") auto
  then show ?case using 2 [OF p [symmetric]] set_slice [of a b s] p by auto
qed

lemma truncation_chars: "set (truncateSafely P s) \<subseteq> insert 32 (set s)"
proof -
  have "set (capWithTail s cap) \<subseteq> set s" for cap
    unfolding capWithTail_def Let_def set_append by (meson Un_least set_drop_subset set_take_subset)
  moreover have "set (take n s) \<subseteq> set s" for n by (rule set_take_subset)
  ultimately show ?thesis
    using build_parts_chars concatenated_chars
    unfolding truncateSafely_def Let_def buildResultWithAttackRegionsAndContext_def
    by (simp split del: if_split split: if_split) blast
qed

subsection \<open>Cleaning\<close>

lemma successively_no_pair: "successively R t \<Longrightarrow> \<not> R a b \<Longrightarrow> \<not> sublist [a, b] t"
  by (auto simp: sublist_def successively_append_iff)

abbreviation not_both :: "nat \<Rightarrow> nat \<Rightarrow> nat \<Rightarrow> bool" where
  "not_both c \<equiv> (\<lambda>a b. \<not> (a = c \<and> b = c))"

lemma collapse_only_spaces: "set (filter py_whitespace (collapse_ws s)) \<subseteq> {32}"
  by (induction s rule: collapse_ws.induct) auto

lemma collapse_keeps: "filter (\<lambda>c. \<not> py_whitespace c) (collapse_ws s) = filter (\<lambda>c. \<not> py_whitespace c) s"
proof (induction s rule: collapse_ws.induct)
  case (2 c s)
  have "filter (\<lambda>c. \<not> py_whitespace c) (dropWhile py_whitespace s) = filter (\<lambda>c. \<not> py_whitespace c) s"
    by (induction s) auto
  moreover have "py_whitespace 32" by (simp add: py_whitespace_def)
  ultimately show ?case using 2 by auto
qed simp

lemma collapse_starts: "collapse_ws s = 32 # t \<Longrightarrow> py_whitespace (hd s)"
  by (cases s) (auto split: if_splits simp: py_whitespace_def)

lemma collapse_apart: "successively (not_both 32) (collapse_ws s)"
proof (induction s rule: collapse_ws.induct)
  case (2 c s)
  show ?case
  proof (cases "py_whitespace c")
    case True
    have "t \<noteq> [] \<longrightarrow> hd t \<noteq> 32" if "t = collapse_ws (dropWhile py_whitespace s)" for t
    proof (cases t)
      case (Cons x xs)
      then show ?thesis using collapse_starts [of "dropWhile py_whitespace s" xs] that hd_dropWhile [of py_whitespace s]
        by (cases "dropWhile py_whitespace s = []") auto
    qed simp
    then show ?thesis using 2 True by (auto simp: successively_Cons)
  next
    case False
    then have "c \<noteq> 32" by (auto simp: py_whitespace_def)
    then show ?thesis using 2 False by (simp add: successively_Cons)
  qed
qed simp

lemma collapse_idle:
  "set (filter py_whitespace t) \<subseteq> {32} \<Longrightarrow> successively (not_both 32) t \<Longrightarrow> collapse_ws t = t"
proof (induction t)
  case (Cons c t)
  have rest: "collapse_ws t = t" using Cons by (auto simp: successively_Cons split: if_splits)
  show ?case
  proof (cases "py_whitespace c")
    case True
    then have "c = 32" using Cons.prems by auto
    moreover have "dropWhile py_whitespace t = t"
      using Cons.prems \<open>c = 32\<close> by (cases t) (auto simp: successively_Cons split: if_splits)
    ultimately show ?thesis using True rest by simp
  qed (use rest in simp)
qed simp

lemma trim_split:
  obtains u v where "s = u @ rev (dropWhile f (rev (dropWhile f s))) @ v" "list_all f u" "list_all f v"
proof -
  let ?m = "dropWhile f s"
  have "rev ?m = takeWhile f (rev ?m) @ dropWhile f (rev ?m)" by simp
  then have "?m = rev (dropWhile f (rev ?m)) @ rev (takeWhile f (rev ?m))"
    by (metis rev_append rev_rev_ident)
  moreover have "s = takeWhile f s @ ?m" by simp
  moreover have "list_all f (takeWhile f s)" "list_all f (rev (takeWhile f (rev ?m)))"
    by (auto simp: list_all_iff dest: set_takeWhileD)
  ultimately show ?thesis by (metis that)
qed

lemma trim_ends:
  assumes "t = rev (dropWhile f (rev (dropWhile f s)))" "t \<noteq> []"
  shows "\<not> f (hd t)" "\<not> f (last t)"
proof -
  show "\<not> f (last t)" using assms hd_dropWhile [of f "rev (dropWhile f s)"] by (auto simp: last_rev)
  obtain u v where split: "dropWhile f s = t @ v"
    using assms(1) takeWhile_dropWhile_id [of f "rev (dropWhile f s)"] by (metis rev_append rev_rev_ident)
  then have "hd t = hd (dropWhile f s)" "dropWhile f s \<noteq> []" using assms(2) by auto
  then show "\<not> f (hd t)" using hd_dropWhile by metis
qed

lemma trim_idle:
  assumes "t \<noteq> [] \<Longrightarrow> \<not> f (hd t) \<and> \<not> f (last t)"
  shows "rev (dropWhile f (rev (dropWhile f t))) = t"
proof -
  have "dropWhile f t = t" "dropWhile f (rev t) = rev t"
    using assms by (auto simp: dropWhile_eq_self_iff hd_rev)
  then show ?thesis by simp
qed

lemma whitespace_normal:
  fixes s
  defines "t \<equiv> removeExcessiveWhitespace s"
  shows "set (filter py_whitespace t) \<subseteq> {32}" "\<not> sublist [32, 32] t"
    "t \<noteq> [] \<Longrightarrow> \<not> py_whitespace (hd t) \<and> \<not> py_whitespace (last t)"
    "filter (\<lambda>c. \<not> py_whitespace c) t = filter (\<lambda>c. \<not> py_whitespace c) s"
    "removeExcessiveWhitespace t = t"
proof -
  obtain u v where split: "collapse_ws s = u @ t @ v" "list_all py_whitespace u" "list_all py_whitespace v"
    using trim_split [of "collapse_ws s" py_whitespace] by (metis t_def removeExcessiveWhitespace_def)
  have apart: "successively (not_both 32) t"
    using collapse_apart [of s] split(1) by (simp add: successively_append_iff)
  show spaces: "set (filter py_whitespace t) \<subseteq> {32}" using collapse_only_spaces [of s] split(1) by auto
  show "\<not> sublist [32, 32] t" using successively_no_pair [OF apart] by simp
  show ends: "t \<noteq> [] \<Longrightarrow> \<not> py_whitespace (hd t) \<and> \<not> py_whitespace (last t)"
    using trim_ends [of t py_whitespace "collapse_ws s"] by (simp add: t_def removeExcessiveWhitespace_def)
  have "filter (\<lambda>c. \<not> py_whitespace c) u = []" "filter (\<lambda>c. \<not> py_whitespace c) v = []"
    using split(2,3) by (simp_all add: filter_empty_conv list_all_iff)
  then show "filter (\<lambda>c. \<not> py_whitespace c) t = filter (\<lambda>c. \<not> py_whitespace c) s"
    using collapse_keeps [of s] by (simp add: split(1))
  show "removeExcessiveWhitespace t = t"
    unfolding removeExcessiveWhitespace_def [of t] collapse_idle [OF spaces apart] by (rule trim_idle) (rule ends)
qed

lemma control_or_space:
  "\<not> py_whitespace c \<and> \<not> (1 \<le> c \<and> c \<le> 8 \<or> c = 0x0B \<or> c = 0x0C \<or> 0x0E \<le> c \<and> c \<le> 0x1F) \<and> c \<noteq> 0 \<longleftrightarrow>
   32 \<le> c \<and> \<not> py_whitespace c"
proof (cases "32 \<le> c")
  case False
  have "1 \<le> c \<and> c \<le> 8 \<or> c = 0x0B \<or> c = 0x0C \<or> 0x0E \<le> c \<and> c \<le> 0x1F \<or> c = 0" if "\<not> (9 \<le> c \<and> c \<le> 13)"
    using False that by linarith
  then have "py_whitespace c \<or> 1 \<le> c \<and> c \<le> 8 \<or> c = 0x0B \<or> c = 0x0C \<or> 0x0E \<le> c \<and> c \<le> 0x1F \<or> c = 0"
    unfolding py_whitespace_def by blast
  then show ?thesis using False by blast
next
  case True
  then have "\<not> c \<le> 8" "c \<noteq> 0x0B" "c \<noteq> 0x0C" "\<not> c \<le> 0x1F" "c \<noteq> 0" by linarith+
  then show ?thesis using True by blast
qed

lemma cleaning_keeps:
  "filter (\<lambda>c. \<not> py_whitespace c) (removeNullBytes s) = filter (\<lambda>c. 32 \<le> c \<and> \<not> py_whitespace c) s"
  unfolding removeNullBytes_def filter_filter by (rule filter_cong) (use control_or_space in blast)+

subsection \<open>Comment marks\<close>

lemma line_marks_start: "replace_from line_mark_match p s = 45 # t \<Longrightarrow> \<exists>r. s = 45 # r"
  by (cases s) (auto simp: line_mark_match_def split: if_splits)

lemma line_marks_gone:
  "35 \<notin> set (replace_from line_mark_match p s) \<and> successively (not_both 45) (replace_from line_mark_match p s)"
proof (induction line_mark_match p s rule: replace_from.induct)
  case (2 p c s)
  show ?case
  proof (cases "line_mark_match p (c # s)")
    case None
    then have "c \<noteq> 35" "c = 45 \<Longrightarrow> \<nexists>r. s = 45 # r" by (auto simp: line_mark_match_def split: if_splits)
    then show ?thesis using 2(1) [OF None] None line_marks_start [of "Some c" s]
      by (cases "replace_from line_mark_match (Some c) s") (auto simp: successively_Cons)
  next
    case (Some r)
    then obtain n where r: "r = (n, [32])" by (auto simp: line_mark_match_def split: if_splits)
    then show ?thesis using 2(2) [OF Some r [symmetric]] r Some by (auto simp: successively_Cons)
  qed
qed simp

subsection \<open>Lookalikes\<close>

lemma replace_char_chars: "set (replace_char (c, r) s) \<subseteq> (set s - {c}) \<union> set r"
proof -
  have "set (join_with r xs) \<subseteq> \<Union> (set ` set xs) \<union> set r" for xs :: "nat list list"
    by (induction r xs rule: join_with.induct) auto
  moreover have "\<Union> (set ` set (split_on c s)) \<subseteq> set s - {c}"
    using split_on_no_sep split_on_chars by fastforce
  ultimately show ?thesis unfolding replace_char_def by fastforce
qed

lemma fold_replace_chars: "set (fold replace_char ps s) \<subseteq> (set s - fst ` set ps) \<union> \<Union> (set ` snd ` set ps)"
proof (induction ps arbitrary: s)
  case (Cons p ps)
  obtain c r where "p = (c, r)" by force
  then show ?case using Cons [of "replace_char p s"] replace_char_chars [of c r s] by auto
qed simp

lemma no_lookalikes: "c \<in> set (normalizeUnicode P s) \<Longrightarrow> c \<notin> fst ` set LOOKALIKES"
proof -
  have "fst ` set LOOKALIKES \<inter> \<Union> (set ` snd ` set LOOKALIKES) = {}" by (simp add: LOOKALIKES_def)
  then show "c \<in> set (normalizeUnicode P s) \<Longrightarrow> c \<notin> fst ` set LOOKALIKES"
    using fold_replace_chars [of LOOKALIKES "pp_nfkc P s"] unfolding normalizeUnicode_def by blast
qed

subsection \<open>The decode loop\<close>

definition round_at :: "pp_config \<Rightarrow> decode_state \<Rightarrow> nat \<Rightarrow> decode_state" where
  "round_at P st k = (decode_round P ^^ k) st"

definition settles :: "pp_config \<Rightarrow> decode_state \<Rightarrow> nat \<Rightarrow> bool" where
  "settles P st k \<longleftrightarrow> dc_text (round_at P st (Suc k)) = dc_text (round_at P st k)"

lemma decode_loop_rounds:
  "decode_loop P n st =
     (case List.find (settles P st) [0..<n] of
        None \<Rightarrow> (round_at P st n, True)
      | Some k \<Rightarrow> (round_at P st (Suc k), False))"
proof (induction n arbitrary: st)
  case (Suc n)
  have later: "settles P (decode_round P st) k = settles P st (Suc k)" "round_at P (decode_round P st) k = round_at P st (Suc k)" for k
    by (simp_all add: settles_def round_at_def funpow_swap1)
  have find: "List.find (settles P st) [0..<Suc n] =
    (if settles P st 0 then Some 0 else map_option Suc (List.find (settles P (decode_round P st)) [0..<n]))"
  proof -
    have "[0..<Suc n] = 0 # map Suc [0..<n]" by (simp add: upt_conv_Cons map_Suc_upt)
    moreover have "List.find (settles P st) (map Suc xs) = map_option Suc (List.find (settles P (decode_round P st)) xs)" for xs
      by (induction xs) (auto simp: later)
    ultimately show ?thesis by simp
  qed
  show ?case
  proof (cases "settles P st 0")
    case True
    then show ?thesis unfolding find by (simp add: settles_def round_at_def Let_def)
  next
    case False
    then have "decode_loop P (Suc n) st = decode_loop P n (decode_round P st)"
      by (simp add: settles_def round_at_def Let_def)
    then show ?thesis using False unfolding find Suc.IH
      by (cases "List.find (settles P (decode_round P st)) [0..<n]") (simp_all add: later(2))
  qed
qed (simp add: round_at_def)


lemma round_at_events: "length (dc_events (round_at P (start_decoding s) k)) \<le> k"
proof (induction k)
  case (Suc k)
  have "length (dc_events (decode_round P st)) \<le> Suc (length (dc_events st))" for st
    by (auto simp: decode_round_def url_stage_def split: prod.splits sum.splits)
  with Suc show ?case using order_trans by (fastforce simp: round_at_def)
qed (simp add: round_at_def start_decoding_def)

subsection \<open>The budget of gunzip attempts\<close>

lemma frugal_round:
  "frugal (\<lambda>gz. (decode_round (P\<lparr>pp_gunzip := gz\<rparr>) st, dc_gunzips (decode_round (P\<lparr>pp_gunzip := gz\<rparr>) st))) (dc_gunzips st) gz"
proof -
  obtain u errs where u: "url_stage (decodeOverlongUtf8PercentRuns (dc_text st)) = (u, errs)" by force
  let ?t = "normalizeUnicode P (decodeUnicodeEscapes (decodeLdapHexEscapes (decodeHexEscapes
       (decodePercentUEscapes (htmlUnescape u)))))"
  have "frugal (\<lambda>gz. case decodeBase64Candidates gz ?t (dc_gunzips st) of
      (t, left) \<Rightarrow> (\<lparr>dc_text = t, dc_gunzips = left, dc_events = dc_events st @ errs\<rparr>, left)) (dc_gunzips st) gz"
    by (intro frugal_bind frugal_candidates frugal_const order_refl)
  moreover have "(decode_round (P\<lparr>pp_gunzip := gz\<rparr>) st, dc_gunzips (decode_round (P\<lparr>pp_gunzip := gz\<rparr>) st)) =
      (case decodeBase64Candidates gz ?t (dc_gunzips st) of
        (t, left) \<Rightarrow> (\<lparr>dc_text = t, dc_gunzips = left, dc_events = dc_events st @ errs\<rparr>, left))" for gz
    by (simp add: decode_round_def u normalizeUnicode_def split: prod.split)
  ultimately show ?thesis by simp
qed

lemma frugal_loop:
  "frugal (\<lambda>gz. (decode_loop (P\<lparr>pp_gunzip := gz\<rparr>) n st, dc_gunzips (fst (decode_loop (P\<lparr>pp_gunzip := gz\<rparr>) n st)))) (dc_gunzips st) gz"
proof (induction n arbitrary: st)
  case (Suc n)
  let ?r = "\<lambda>gz. decode_round (P\<lparr>pp_gunzip := gz\<rparr>) st"
  have "frugal (\<lambda>gz. case (?r gz, dc_gunzips (?r gz)) of (st', l) \<Rightarrow>
      (if dc_text st' = dc_text st then ((st', False), dc_gunzips st')
       else (decode_loop (P\<lparr>pp_gunzip := gz\<rparr>) n st', dc_gunzips (fst (decode_loop (P\<lparr>pp_gunzip := gz\<rparr>) n st'))))) (dc_gunzips st) gz"
  proof (rule frugal_bind [OF frugal_round])
    fix st' l assume "(?r gz, dc_gunzips (?r gz)) = (st', l)"
    then have l: "l = dc_gunzips st'" by auto
    show "frugal (\<lambda>gz. if dc_text st' = dc_text st then ((st', False), dc_gunzips st')
       else (decode_loop (P\<lparr>pp_gunzip := gz\<rparr>) n st', dc_gunzips (fst (decode_loop (P\<lparr>pp_gunzip := gz\<rparr>) n st')))) l gz"
      unfolding l by (intro frugal_if frugal_const Suc.IH order_refl)
  qed
  moreover have "(decode_loop (P\<lparr>pp_gunzip := gz\<rparr>) (Suc n) st, dc_gunzips (fst (decode_loop (P\<lparr>pp_gunzip := gz\<rparr>) (Suc n) st))) =
      (case (?r gz, dc_gunzips (?r gz)) of (st', l) \<Rightarrow>
      (if dc_text st' = dc_text st then ((st', False), dc_gunzips st')
       else (decode_loop (P\<lparr>pp_gunzip := gz\<rparr>) n st', dc_gunzips (fst (decode_loop (P\<lparr>pp_gunzip := gz\<rparr>) n st')))))" for gz
    by (simp add: Let_def)
  ultimately show ?case by presburger
qed (simp add: frugal_const)

text \<open>The result of a computation depends on what the stream answers for at most \<open>n\<close> byte strings.\<close>

definition consults_at_most :: "nat \<Rightarrow> ((nat list \<Rightarrow> stream_event list) \<Rightarrow> 'x) \<Rightarrow> (nat list \<Rightarrow> stream_event list) \<Rightarrow> bool" where
  "consults_at_most n F gz \<longleftrightarrow>
     (\<exists>raws. length raws \<le> n \<and> (\<forall>gz'. (\<forall>r \<in> set raws. gz' r = gz r) \<longrightarrow> F gz' = F gz))"

lemma frugal_consults:
  assumes "frugal (\<lambda>gz. (F gz, left gz)) a gz" and "a \<le> n"
  shows "\<exists>raws. length raws \<le> n \<and> (\<forall>gz'. (\<forall>r \<in> set raws. gz' r = gz r) \<longrightarrow> F gz' = F gz)"
proof -
  obtain raws where r: "left gz + length raws \<le> a \<and> (\<forall>gz'. (\<forall>r \<in> set raws. gz' r = gz r) \<longrightarrow> (F gz', left gz') = (F gz, left gz))"
    using assms(1) unfolding frugal_def snd_conv by (rule exE)
  have "length raws \<le> n" using conjunct1 [OF r] assms(2) by simp
  moreover have "F gz' = F gz" if "\<forall>r \<in> set raws. gz' r = gz r" for gz'
    using r [THEN conjunct2, rule_format, OF that [rule_format]] by simp
  ultimately show ?thesis by (intro exI conjI allI impI)
qed

lemma decoding_consults:
  "consults_at_most 8 (\<lambda>gz. decodeCommonEncodings (P\<lparr>pp_gunzip := gz\<rparr>) s) (pp_gunzip P)"
proof -
  let ?l = "\<lambda>gz. decode_loop (P\<lparr>pp_gunzip := gz\<rparr>) maxDecodeIterations (start_decoding s)"
  have "\<exists>raws. length raws \<le> 8 \<and> (\<forall>gz'. (\<forall>r \<in> set raws. gz' r = pp_gunzip P r) \<longrightarrow> ?l gz' = ?l (pp_gunzip P))"
    by (rule frugal_consults [OF frugal_loop]) (simp add: start_decoding_def MAX_GUNZIP_ATTEMPTS_PER_PASS_def)
  then obtain raws where "length raws \<le> 8 \<and> (\<forall>gz'. (\<forall>r \<in> set raws. gz' r = pp_gunzip P r) \<longrightarrow> ?l gz' = ?l (pp_gunzip P))"
    by (rule exE)
  then show ?thesis
    unfolding consults_at_most_def decodeCommonEncodings_def by (intro exI [of _ raws]) simp
qed

subsection \<open>Properties\<close>

text \<open>
  C19: Decoding always ends: it applies rounds up to the first one that leaves the text as it was,
  sixteen at most, and reports the budget as used up exactly if none of the sixteen did. Its result
  depends on the decompression of at most eight byte strings, over all rounds together, and there is
  at most one error event per round.
\<close>

theorem decoding_stops:
  "decodeCommonEncodings P s =
     (case List.find (settles P (start_decoding s)) [0..<16] of
        Some k \<Rightarrow> (stripSqlComments (dc_text (round_at P (start_decoding s) k)), False,
                   dc_events (round_at P (start_decoding s) (Suc k)))
      | None \<Rightarrow> (stripSqlComments (dc_text (round_at P (start_decoding s) 16)), True,
                 dc_events (round_at P (start_decoding s) 16))) \<and>
   consults_at_most 8 (\<lambda>gz. decodeCommonEncodings (P\<lparr>pp_gunzip := gz\<rparr>) s) (pp_gunzip P) \<and>
   length (dc_events (round_at P (start_decoding s) k)) \<le> k"
proof -
  have "dc_text (round_at P st (Suc k)) = dc_text (round_at P st k)" if "List.find (settles P st) xs = Some k" for st k xs
    using that by (auto simp: settles_def find_Some_iff)
  then show ?thesis
    using round_at_events [of P s k] decoding_consults [of P s]
    by (simp add: decodeCommonEncodings_def decode_loop_rounds maxDecodeIterations_def split: option.splits)
qed

text \<open>
  After comment stripping no number sign and no two dashes in a row are left in the text.
\<close>

theorem comment_marks_gone:
  "35 \<notin> set (stripSqlComments s) \<and> \<not> sublist [45, 45] (stripSqlComments s)"
  using line_marks_gone [of None "replace_from comment_match None s"]
    successively_no_pair [of "not_both 45" "stripSqlComments s" 45 45]
  by (simp add: stripSqlComments_def)

text \<open>
  C20: A text within the cap is scanned as it is. A longer one is cut to the cap: to its head without
  preservation, to head and tail of exactly the cap together when no indicator matches; whatever the
  indicators, the result fits the cap and consists of characters of the text and spaces.
\<close>

theorem truncation_bounded:
  "length (truncateSafely P s) \<le> pp_max_scan P \<and> set (truncateSafely P s) \<subseteq> insert 32 (set s) \<and>
   (if length s \<le> pp_max_scan P then truncateSafely P s = s
    else if \<not> pp_preserve P then truncateSafely P s = take (pp_max_scan P) s
    else if extractAttackRegions P s = []
    then length (truncateSafely P s) = pp_max_scan P \<and>
         prefix (take (pp_max_scan P - 4096) s) (truncateSafely P s) \<and>
         suffix (drop (length s - min 4096 (pp_max_scan P)) s) (truncateSafely P s)
    else True)"
proof -
  have "prefix (take (cap - 4096) s) (capWithTail s cap) \<and> suffix (drop (length s - min 4096 cap) s) (capWithTail s cap)" for cap
    by (auto simp: capWithTail_def Let_def FULL_SCAN_TAIL_BYTES_def suffix_def min_def)
  then show ?thesis
    using length_truncateSafely [of P s] truncation_chars [of P s] length_capWithTail [of "pp_max_scan P" s]
    by (simp add: truncateSafely_def)
qed

text \<open>
  The view that keeps the signals of a text holds none of the characters the normaliser replaces
  by a lookalike, and fits the cap.
\<close>

theorem no_lookalike_is_scanned:
  "list_all (\<lambda>c. map_of LOOKALIKES c = None) (preprocessSignalPreserving P s) \<and>
   length (preprocessSignalPreserving P s) \<le> pp_max_scan P"
proof -
  have "32 \<notin> fst ` set LOOKALIKES" by (simp add: LOOKALIKES_def)
  then have "c \<notin> fst ` set LOOKALIKES" if "c \<in> set (truncateSafely P (normalizeUnicode P s))" for c
    using that truncation_chars [of P "normalizeUnicode P s"] no_lookalikes [of c P s] by (cases "c = 32") auto
  then show ?thesis
    using length_truncateSafely by (auto simp: preprocessSignalPreserving_def list_all_iff map_of_eq_None_iff)
qed

text \<open>
  C17: If the indicators match at most as often as regions are kept and the regions are shorter than
  the cap, truncation cuts no match: each one is in the result, in one piece with the hundred units
  before and after it.
\<close>

theorem attacks_survive_truncation:
  assumes "pp_preserve P" "attack_length (extractAttackRegions P s) < pp_max_scan P"
    "(\<Sum>f \<leftarrow> pp_indicators P. length (f s)) \<le> max_regions P"
    "f \<in> set (pp_indicators P)" "(i, n) \<in> set (f s)"
  shows "sublist (slice (i - 100) (min (length s) (i + n + 100)) s) (truncateSafely P s)"
proof -
  obtain a b where r: "(a, b) \<in> set (extractAttackRegions P s)" "a \<le> i - 100" "min (length s) (i + n + 100) \<le> b"
    using extract_covers [OF assms(3,4,5)] by (auto simp: covers_def region_of_def)
  have "sublist (slice (i - 100) (min (length s) (i + n + 100)) s) (slice a b s)" by (rule slice_within) (use r in auto)
  moreover have "sublist (slice a b s) (truncateSafely P s)"
    using built_holds_region [OF r(1)] r(1) assms(1,2) sublist_slice
    by (auto simp: truncateSafely_def Let_def buildResultWithAttackRegionsAndContext_def)
  ultimately show ?thesis using sublist_order.order_trans by blast
qed


theorem attacks_survive_truncation_witness:
  "sublist (replicate 202 97)
     (truncateSafely \<lparr>pp_max_content = 10000, pp_preserve = True, pp_max_scan = 250, pp_nfkc = id, pp_gunzip = \<lambda>_. [],
        pp_indicators = [\<lambda>_. [(200, 2)]]\<rparr> (replicate 400 97))"
proof -
  let ?P = "\<lparr>pp_max_content = 10000, pp_preserve = True, pp_max_scan = 250, pp_nfkc = id, pp_gunzip = \<lambda>_. [],
        pp_indicators = [\<lambda>_. [(200, 2)]]\<rparr>"
  have "extractAttackRegions ?P (replicate 400 97) = [(100, 302)]"
    by (simp add: extractAttackRegions_def max_regions_def region_of_def)
  then show ?thesis
    using attacks_survive_truncation [of ?P "replicate 400 97" "\<lambda>_. [(200, 2)]" 200 2]
    by (simp add: attack_length_def max_regions_def slice_def)
qed

text \<open>
  The cleaning step of the main view, before the truncation: its result has no character below the
  space, no run of two spaces and none at its ends; all other characters are kept in order, and
  cleaning it again changes nothing. (Truncation can end the text in a space again or put two together,
  and the other views are not cleaned.)
\<close>

theorem cleaned_text_normal:
  "let t = removeExcessiveWhitespace (removeNullBytes s)
   in list_all (\<lambda>c. 32 \<le> c) t \<and> set (filter py_whitespace t) \<subseteq> {32} \<and>
     \<not> sublist [32, 32] t \<and> \<not> prefix [32] t \<and> \<not> suffix [32] t \<and>
     filter (\<lambda>c. \<not> py_whitespace c) t = filter (\<lambda>c. 32 \<le> c \<and> \<not> py_whitespace c) s \<and>
     removeExcessiveWhitespace (removeNullBytes t) = t"
proof -
  define t where "t = removeExcessiveWhitespace (removeNullBytes s)"
  note normal = whitespace_normal [of "removeNullBytes s", folded t_def]
  have kept: "filter (\<lambda>c. \<not> py_whitespace c) t = filter (\<lambda>c. 32 \<le> c \<and> \<not> py_whitespace c) s"
    using normal(4) cleaning_keeps by simp
  have low: "32 \<le> c" if "c \<in> set t" for c
  proof (cases "py_whitespace c")
    case True
    then show ?thesis using normal(1) that by auto
  next
    case False
    then have "c \<in> set (filter (\<lambda>c. 32 \<le> c \<and> \<not> py_whitespace c) s)" using that by (simp flip: kept)
    then show ?thesis by simp
  qed
  then have "removeNullBytes t = t" by (fastforce simp: removeNullBytes_def filter_id_conv)
  then have "removeExcessiveWhitespace (removeNullBytes t) = t" using normal(5) by simp
  moreover have "\<not> prefix [32] t" "\<not> suffix [32] t"
    using normal(3) by (auto simp: prefix_def suffix_def py_whitespace_def)
  moreover have "list_all (\<lambda>c. 32 \<le> c) t" using low by (simp add: list_all_iff)
  ultimately show ?thesis using normal(1,2) kept unfolding t_def [symmetric] Let_def by blast
qed

end
