(* ===== verification/Pattern_Scan.thy ===== *)
theory Pattern_Scan
  imports Pattern_Threats Scan_Pool Preprocessor
begin

section \<open>One pass over the patterns (handlers/sus-patterns.ts)\<close>

text \<open>
  A pass runs every pattern that applies to a context and a view over one text, each scan under the
  supervisor's deadline (or, if configured, on the worker pool, which is an argument of the model).
  The readings of the clock are given per scan. What the monitor is told is a list.
\<close>

subsection \<open>Environment and state\<close>

record 'w sus_env =
  se_tables :: pattern_tables
  se_compiled :: "compiled_entry list"
  se_regexp :: regexp_constructor
  se_raw_view :: "jtext list"
  se_recon_raw_view :: "jtext list"
  se_url_view :: "jtext list"
  se_traversal :: compiled_pattern
  se_pp :: pp_config
  se_analyze :: "jtext \<Rightarrow> (jtext \<times> rat) list \<times> rat"
  se_clock :: "nat \<Rightarrow> readings"
  se_spent :: "nat \<Rightarrow> rat"
  se_workers_enabled :: bool
  se_create_pool :: "rat \<Rightarrow> 'w option"
  se_worker_run :: "'w \<Rightarrow> jtext \<Rightarrow> regex \<Rightarrow> jtext \<Rightarrow> (rx_match list \<Rightarrow> regex_threat option) \<Rightarrow>
     regex_threat option scan_outcome \<times> 'w"
  se_threshold :: rat
  se_redact :: "jtext \<Rightarrow> jtext"
  se_log_safe :: "jtext \<Rightarrow> jtext"
  se_unsafe :: "jtext \<Rightarrow> jtext option"
  se_redis_error :: "exn option"

record scan_metric =
  sc_metric_pattern :: jtext
  sc_metric_spent :: rat
  sc_metric_size :: nat
  sc_metric_matched :: bool
  sc_metric_timeout :: bool

datatype event_meta =
    Detected (em_pattern: jtext) (em_context: jtext) (em_preview: jtext) (em_score: rat) (em_counts: "nat \<times> nat \<times> nat \<times> nat")
      (em_correlation: "jtext option") (em_categories: "jtext list")
  | Registry (em_pattern: jtext) (em_custom: bool) (em_total: nat)

record pattern_event =
  pn_type :: jtext
  pn_ip :: jtext
  pn_action :: jtext
  pn_reason :: jtext
  pn_pattern :: "jtext option"
  pn_meta :: event_meta

record 'w sus =
  su_custom :: "jtext list"
  su_redis :: bool
  su_stored :: "jtext option"
  su_agent :: bool
  su_semantic_threshold :: rat
  su_pool :: scan_pool
  su_workers :: "'w option"
  su_no_workers :: bool
  su_scans :: nat
  su_metrics :: "scan_metric list"
  su_events :: "pattern_event list"
  su_warnings :: "jtext list"

subsection \<open>Contexts and views\<close>

definition KNOWN_CONTEXTS :: "jtext list" where
  "KNOWN_CONTEXTS = map text_of [''query_param'', ''header'', ''url_path'', ''request_body'', ''unknown'']"

definition UNKNOWN :: jtext where "UNKNOWN = text_of ''unknown''"
definition REQUEST_BODY :: jtext where "REQUEST_BODY = text_of ''request_body''"

text \<open>Outside ASCII, lower-casing yields no known context that is not \<open>unknown\<close> anyway.\<close>

definition lower_ascii :: "jtext \<Rightarrow> jtext" where
  "lower_ascii s = map (\<lambda>u. if 65 \<le> u \<and> u \<le> 90 then u + 32 else u) s"

definition normalizeContext :: "jtext \<Rightarrow> jtext" where
  "normalizeContext ctx =
     (let normalized = lower_ascii (hd (split_on 58 ctx))
      in if normalized \<in> set KNOWN_CONTEXTS then normalized else UNKNOWN)"

definition EMBEDDED_JSON :: jtext where "EMBEDDED_JSON = text_of '':embedded_json''"

definition validator_context :: "jtext \<Rightarrow> jtext" where
  "validator_context ctx =
     (if ends_with EMBEDDED_JSON ctx then normalizeContext ctx @ EMBEDDED_JSON else normalizeContext ctx)"

definition excludedFromView :: "'w sus_env \<Rightarrow> jtext \<Rightarrow> bool option \<Rightarrow> bool option \<Rightarrow> bool" where
  "excludedFromView E source rawViewOnly urlDecodedViewOnly =
     (let isRaw = source \<in> set (se_raw_view E);
          isUrl = source \<in> set (se_url_view E);
          isRecon = source \<in> set (se_recon_raw_view E)
      in if rawViewOnly = Some True then isUrl \<or> \<not> (isRaw \<or> isRecon)
         else if urlDecodedViewOnly = Some True then isRaw \<or> \<not> isUrl
         else if rawViewOnly = Some False then isRaw \<or> isUrl
         else False)"

record scan_pattern =
  sc_source :: jtext
  sc_compiled :: compiled_pattern
  sc_contexts :: "jtext list"
  sc_category :: jtext
  sc_custom :: bool

definition table_pattern :: "compiled_entry \<Rightarrow> scan_pattern" where
  "table_pattern e =
     \<lparr>sc_source = ce_source e, sc_compiled = ce_re e, sc_contexts = ce_contexts e, sc_category = ce_category e,
      sc_custom = False\<rparr>"

definition custom_pattern :: "'w sus_env \<Rightarrow> jtext \<Rightarrow> scan_pattern option" where
  "custom_pattern E source =
     map_option (\<lambda>c. \<lparr>sc_source = source, sc_compiled = c, sc_contexts = KNOWN_CONTEXTS, sc_category = text_of ''custom'',
                       sc_custom = True\<rparr>) (compilePythonPattern (se_regexp E) source True)"

definition all_patterns :: "'w sus_env \<Rightarrow> jtext list \<Rightarrow> scan_pattern list option" where
  "all_patterns E custom =
     map_option (\<lambda>cs. map table_pattern (se_compiled E) @ cs) (those (map (custom_pattern E) custom))"

subsection \<open>One scan\<close>

definition hasStructuralMatcher :: "pattern_tables \<Rightarrow> jtext \<Rightarrow> bool" where
  "hasStructuralMatcher T source \<longleftrightarrow>
     windowedFinderFor T source \<noteq> None \<or> scanMatcherFor T source \<noteq> None \<or> scanWindowBoundsFor T source \<noteq> None"

definition checkRegexPattern ::
  "pattern_tables \<Rightarrow> scan_pattern \<Rightarrow> jtext \<Rightarrow> jtext \<Rightarrow> nat list \<Rightarrow> regex_threat option" where
  "checkRegexPattern T p content ctx binaryPrefix =
     (let c = sc_compiled p;
          accept = (\<lambda>ms. firstAcceptedRegexThreat T ms c (sc_category p) ctx (Some binaryPrefix))
      in case windowedFinderFor T (sc_source p) of
           Some finder \<Rightarrow> accept (finder content)
         | None \<Rightarrow>
             (case scanMatcherFor T (sc_source p) of
                Some matcher \<Rightarrow> accept (matcher content c)
              | None \<Rightarrow>
                  (case scanWindowBoundsFor T (sc_source p) of
                     Some pairs \<Rightarrow> accept (iterScanWindowMatches T content c pairs)
                   | None \<Rightarrow> accept (findall_from (cp_re c (sc_custom p)) content 0))))"

definition inline_scan ::
  "'w sus_env \<Rightarrow> jtext \<Rightarrow> jtext \<Rightarrow> nat list \<Rightarrow> scan_pattern \<Rightarrow> 'w sus \<Rightarrow> regex_threat option scan_outcome \<times> 'w sus" where
  "inline_scan E content ctx binaryPrefix p st =
     (case run_scan (se_clock E (su_scans st)) (sc_source p)
             (Some (checkRegexPattern (se_tables E) p content ctx binaryPrefix)) (su_pool st) of
        (outcome, sp) \<Rightarrow> (outcome, st\<lparr>su_pool := sp, su_scans := Suc (su_scans st)\<rparr>))"

definition no_workers_warning :: jtext where
  "no_workers_warning = text_of (''detectionScanWorkerPool is enabled but worker threads are unavailable in this runtime; '' @
     ''scans stay on the inline deadline path'')"

definition ensureWorkerPool :: "'w sus_env \<Rightarrow> 'w sus \<Rightarrow> 'w option \<times> 'w sus" where
  "ensureWorkerPool E st =
     (case su_workers st of
        Some w \<Rightarrow> (Some w, st)
      | None \<Rightarrow>
          if su_no_workers st then (None, st)
          else
            (case se_create_pool E (sp_deadline (su_pool st)) of
               None \<Rightarrow> (None, st\<lparr>su_no_workers := True, su_warnings := su_warnings st @ [no_workers_warning]\<rparr>)
             | Some w \<Rightarrow> (Some w, st\<lparr>su_workers := Some w\<rparr>)))"

definition runPatternScan ::
  "'w sus_env \<Rightarrow> jtext \<Rightarrow> jtext \<Rightarrow> nat list \<Rightarrow> scan_pattern \<Rightarrow> 'w sus \<Rightarrow> regex_threat option scan_outcome \<times> 'w sus" where
  "runPatternScan E content ctx binaryPrefix p st =
     (if \<not> se_workers_enabled E \<or> hasStructuralMatcher (se_tables E) (sc_source p)
      then inline_scan E content ctx binaryPrefix p st
      else
        (case ensureWorkerPool E st of
           (None, st1) \<Rightarrow> inline_scan E content ctx binaryPrefix p st1
         | (Some w, st1) \<Rightarrow>
             (case se_worker_run E w (sc_source p) (cp_re (sc_compiled p) (sc_custom p)) content
                     (\<lambda>ms. firstAcceptedRegexThreat (se_tables E) ms (sc_compiled p) (sc_category p) ctx (Some binaryPrefix)) of
                (outcome, w') \<Rightarrow> (outcome, st1\<lparr>su_workers := Some w', su_scans := Suc (su_scans st1)\<rparr>))))"

subsection \<open>The verdict on a scan and the pass\<close>

definition SLOW_COMPLETION_FRACTION :: rat where "SLOW_COMPLETION_FRACTION = 9 / 10"

definition timeout_threat :: "pattern_tables \<Rightarrow> scan_pattern \<Rightarrow> regex_threat" where
  "timeout_threat T p =
     \<lparr>rt_type = Timeout_Threat, rt_pattern = sc_source p, rt_match = [], rt_position = 0, rt_category = sc_category p,
      rt_weight = resolvePatternWeight T (sc_source p)\<rparr>"

text \<open>The threat of a scan, whether it timed out, and the entries of the list of timeouts.\<close>

definition judge :: "pattern_tables \<Rightarrow> rat \<Rightarrow> scan_pattern \<Rightarrow> regex_threat option scan_outcome \<Rightarrow>
    regex_threat option \<times> bool \<times> jtext list" where
  "judge T deadline p outcome =
     (let timeouts = (if so_status outcome = TimedOut then [sc_source p] else []);
          threat = (if so_status outcome = Completed then (case so_value outcome of Some v \<Rightarrow> v | None \<Rightarrow> None) else None);
          timeoutOccurred = (so_status outcome = TimedOut \<or>
            so_status outcome = Completed \<and> threat = None \<and> SLOW_COMPLETION_FRACTION * deadline \<le> so_elapsed outcome)
      in if timeoutOccurred \<and> threat = None
         then (Some (timeout_threat T p), timeoutOccurred, timeouts @ [sc_source p])
         else (threat, timeoutOccurred, timeouts))"

record pass_result =
  pr_threats :: "regex_threat list"
  pr_matched :: "jtext list"
  pr_timeouts :: "jtext list"

definition applies :: "'w sus_env \<Rightarrow> jtext \<Rightarrow> bool option \<Rightarrow> bool option \<Rightarrow> scan_pattern \<Rightarrow> bool" where
  "applies E ctx rawViewOnly urlDecodedViewOnly p \<longleftrightarrow>
     (let normalized = normalizeContext ctx
      in \<not> excludedFromView E (sc_source p) rawViewOnly urlDecodedViewOnly \<and>
         (normalized = UNKNOWN \<or> normalized = REQUEST_BODY \<or> normalized \<in> set (sc_contexts p)))"

definition record_outcome ::
  "'w sus_env \<Rightarrow> nat \<Rightarrow> scan_pattern \<Rightarrow> regex_threat option scan_outcome \<Rightarrow> bool \<Rightarrow> bool \<Rightarrow> 'w sus \<Rightarrow> 'w sus" where
  "record_outcome E chars p outcome matched timedOut st =
     (if so_status outcome = Quarantined then st
      else st\<lparr>su_metrics := su_metrics st @
                 [\<lparr>sc_metric_pattern = sc_source p, sc_metric_spent = se_spent E (su_scans st), sc_metric_size = chars,
                   sc_metric_matched = matched, sc_metric_timeout = timedOut\<rparr>]\<rparr>)"

definition scan_pattern_step ::
  "'w sus_env \<Rightarrow> nat \<Rightarrow> (scan_pattern \<Rightarrow> 'w sus \<Rightarrow> regex_threat option scan_outcome \<times> 'w sus) \<Rightarrow> scan_pattern \<Rightarrow>
   pass_result \<times> 'w sus \<Rightarrow> pass_result \<times> 'w sus" where
  "scan_pattern_step E chars run p = (\<lambda>(r, st).
     (case run p st of
        (outcome, st1) \<Rightarrow>
          (case judge (se_tables E) (sp_deadline (su_pool st1)) p outcome of
             (threat, timedOut, timeouts) \<Rightarrow>
               (\<lparr>pr_threats = pr_threats r @ (case threat of Some t \<Rightarrow> [t] | None \<Rightarrow> []),
                 pr_matched = pr_matched r @ (case threat of Some t \<Rightarrow> [sc_source p] | None \<Rightarrow> []),
                 pr_timeouts = pr_timeouts r @ timeouts\<rparr>,
                record_outcome E chars p outcome (threat \<noteq> None) timedOut st1))))"

definition empty_pass :: pass_result where
  "empty_pass = \<lparr>pr_threats = [], pr_matched = [], pr_timeouts = []\<rparr>"

definition syntax_error :: exn where
  "syntax_error = OtherErr ''SyntaxError'' ''Invalid regular expression''"

definition checkRegexPatterns ::
  "'w sus_env \<Rightarrow> jtext \<Rightarrow> jtext \<Rightarrow> bool option \<Rightarrow> bool option \<Rightarrow> 'w sus \<Rightarrow> (exn + pass_result) \<times> 'w sus" where
  "checkRegexPatterns E content ctx rawViewOnly urlDecodedViewOnly st =
     (case all_patterns E (su_custom st) of
        None \<Rightarrow> (Inl syntax_error, st)
      | Some ps \<Rightarrow>
          (case fold (scan_pattern_step E (length content)
                       (runPatternScan E content (validator_context ctx) (buildBinaryPrefix content)))
                  (filter (applies E ctx rawViewOnly urlDecodedViewOnly) ps) (empty_pass, st) of
             (r, st') \<Rightarrow> (Inr r, st')))"

subsection \<open>The runner of the scans\<close>

definition in_pool :: "'w sus \<Rightarrow> jtext \<Rightarrow> bool" where
  "in_pool st p \<longleftrightarrow> map_of (sp_until (su_pool st)) p = None"

text \<open>
  What a pass relies on: a completed scan has the value of its job, a scan that neither completes nor
  times out is of a pattern that is out of the pool, and a scan takes no other pattern out of the pool.
\<close>

locale scan_runner =
  fixes run :: "scan_pattern \<Rightarrow> 'w sus \<Rightarrow> regex_threat option scan_outcome \<times> 'w sus"
    and job :: "scan_pattern \<Rightarrow> regex_threat option"
  assumes completed: "so_status (fst (run p st)) = Completed \<Longrightarrow> so_value (fst (run p st)) = Some (job p)"
    and answered: "in_pool st (sc_source p) \<Longrightarrow> so_status (fst (run p st)) \<in> {Completed, TimedOut}"
    and others: "in_pool st q \<Longrightarrow> q \<noteq> sc_source p \<Longrightarrow> in_pool (snd (run p st)) q"
begin

lemma judged:
  "fst (judge T d p (fst (run p st))) = Some t \<Longrightarrow> job p = Some t \<or> t = timeout_threat T p"
  using completed [of p st] by (auto simp: judge_def Let_def split: if_splits option.splits)

lemma judged_match:
  assumes "in_pool st (sc_source p)" "job p = Some t"
  obtains t' where "fst (judge T d p (fst (run p st))) = Some t'" "t' = t \<or> t' = timeout_threat T p"
  using answered [OF assms(1)] completed [of p st] assms(2) by (auto simp: judge_def Let_def)

lemma step_threats:
  "pr_threats (fst (scan_pattern_step E n run p (r, st))) =
   pr_threats r @ (case fst (judge (se_tables E) (sp_deadline (su_pool (snd (run p st)))) p (fst (run p st))) of
                     Some t \<Rightarrow> [t] | None \<Rightarrow> [])"
  by (simp add: scan_pattern_step_def split: prod.splits)

lemma step_pool: "in_pool (snd (scan_pattern_step E n run p (r, st))) q = in_pool (snd (run p st)) q"
  by (simp add: scan_pattern_step_def record_outcome_def in_pool_def split: prod.splits)

lemma pass_grows: "set (pr_threats (fst rs)) \<subseteq> set (pr_threats (fst (fold (scan_pattern_step E n run) ps rs)))"
proof (induction ps arbitrary: rs)
  case (Cons p ps)
  obtain r st where rs: "rs = (r, st)" by (cases rs)
  have "set (pr_threats r) \<subseteq> set (pr_threats (fst (scan_pattern_step E n run p (r, st))))"
    by (simp add: step_threats)
  then show ?case using Cons [of "scan_pattern_step E n run p (r, st)"] by (simp add: rs subset_trans)
qed simp

lemma pass_sound:
  "t \<in> set (pr_threats (fst (fold (scan_pattern_step E n run) ps rs))) \<Longrightarrow>
   t \<in> set (pr_threats (fst rs)) \<or> (\<exists>p \<in> set ps. job p = Some t \<or> t = timeout_threat (se_tables E) p)"
proof (induction ps arbitrary: rs)
  case (Cons p ps)
  obtain r st where rs: "rs = (r, st)" by (cases rs)
  have "t \<in> set (pr_threats (fst (scan_pattern_step E n run p (r, st)))) \<or>
        (\<exists>q \<in> set ps. job q = Some t \<or> t = timeout_threat (se_tables E) q)"
    using Cons.IH Cons.prems by (simp add: rs)
  moreover have "t \<in> set (pr_threats (fst (scan_pattern_step E n run p (r, st)))) \<Longrightarrow>
      t \<in> set (pr_threats r) \<or> job p = Some t \<or> t = timeout_threat (se_tables E) p"
    using judged [of "se_tables E" _ p st t] by (auto simp: step_threats split: option.splits)
  ultimately show ?case by (auto simp: rs)
qed simp

lemma step_inv:
  assumes "\<And>p st. keeps st \<Longrightarrow> keeps (snd (run p st))" "\<And>st ms. keeps st \<Longrightarrow> keeps (st\<lparr>su_metrics := ms\<rparr>)" "keeps st"
  shows "keeps (snd (scan_pattern_step E n run p (r, st)))"
  using assms by (simp add: scan_pattern_step_def record_outcome_def split: prod.splits) (metis snd_conv)

lemma pass_complete:
  assumes "distinct (map sc_source ps)" "p \<in> set ps" "in_pool (snd rs) (sc_source p)" "keeps (snd rs)"
    "\<And>p st. keeps st \<Longrightarrow> keeps (snd (run p st))" "\<And>st ms. keeps st \<Longrightarrow> keeps (st\<lparr>su_metrics := ms\<rparr>)"
    "\<And>st. in_pool st (sc_source p) \<Longrightarrow> keeps st \<Longrightarrow>
       \<exists>t. fst (judge (se_tables E) (sp_deadline (su_pool (snd (run p st)))) p (fst (run p st))) = Some t \<and> good t"
  shows "\<exists>t \<in> set (pr_threats (fst (fold (scan_pattern_step E n run) ps rs))). good t"
  using assms(1-4)
proof (induction ps arbitrary: rs)
  case (Cons q ps)
  obtain r st where rs: "rs = (r, st)" by (cases rs)
  show ?case
  proof (cases "q = p")
    case True
    then obtain t where t: "fst (judge (se_tables E) (sp_deadline (su_pool (snd (run q st)))) q (fst (run q st))) = Some t" "good t"
      using assms(7) [of st] Cons.prems(3,4) rs by auto
    have "t \<in> set (pr_threats (fst (scan_pattern_step E n run q (r, st))))" using t(1) by (simp add: step_threats)
    then have "t \<in> set (pr_threats (fst (fold (scan_pattern_step E n run) (q # ps) rs)))"
      using pass_grows [of "scan_pattern_step E n run q (r, st)" E n ps] by (auto simp: rs)
    then show ?thesis using t(2) by blast
  next
    case False
    then have "p \<in> set ps" "sc_source p \<noteq> sc_source q" using Cons.prems(1,2) by (auto simp: rev_image_eqI)
    moreover have "in_pool (snd (scan_pattern_step E n run q (r, st))) (sc_source p)"
      using others [of st "sc_source p" q] calculation(2) Cons.prems(3) by (simp add: step_pool rs)
    moreover have "keeps (snd (scan_pattern_step E n run q (r, st)))"
      by (rule step_inv) (use assms(5,6) Cons.prems(4) rs in auto)
    ultimately show ?thesis using Cons.IH [of "scan_pattern_step E n run q (r, st)"] Cons.prems(1) by (simp add: rs)
  qed
qed simp

end

lemma run_scan_in_pool:
  assumes "map_of (sp_until sp) p = None"
  shows "so_status (fst (run_scan rd p (Some v) sp)) \<in> {Completed, TimedOut}"
proof -
  have "map_of (sp_until (releaseExpired now sp)) p = None" for now
    unfolding releaseExpired_def using release_fold [of now "sp_until sp" sp] assms
    by (auto simp: map_of_eq_None_iff)
  then show ?thesis by (simp add: run_scan_def isActive_def Let_def om_has_def)
qed

lemma run_scan_others:
  assumes "map_of (sp_until sp) q = None" "q \<noteq> p"
  shows "map_of (sp_until (snd (run_scan rd p (Some v) sp))) q = None"
proof -
  have "map_of (sp_until (releaseExpired now sp)) q = None" for now
    unfolding releaseExpired_def using release_fold [of now "sp_until sp" sp] assms(1)
    by (auto simp: map_of_eq_None_iff)
  then show ?thesis using assms(2)
    by (simp add: run_scan_def isActive_def Let_def reportTimeout_def emit_def reportSuccess_def update_conv)
qed

lemma inline_parts:
  "fst (inline_scan E content ctx bp p st) =
     fst (run_scan (se_clock E (su_scans st)) (sc_source p) (Some (checkRegexPattern (se_tables E) p content ctx bp)) (su_pool st))"
  "snd (inline_scan E content ctx bp p st) =
     st\<lparr>su_pool := snd (run_scan (se_clock E (su_scans st)) (sc_source p)
                            (Some (checkRegexPattern (se_tables E) p content ctx bp)) (su_pool st)),
        su_scans := Suc (su_scans st)\<rparr>"
  by (simp_all add: inline_scan_def case_prod_beta)

interpretation inline: scan_runner "inline_scan E content ctx bp" "\<lambda>p. checkRegexPattern (se_tables E) p content ctx bp"
  for E :: "'w sus_env" and content ctx bp
proof (unfold_locales, goal_cases)
  case (1 p st)
  then show ?case by (auto simp: inline_parts run_scan_def Let_def isActive_def split: if_splits)
next
  case (2 st p)
  then show ?case unfolding inline_parts in_pool_def by (rule run_scan_in_pool)
next
  case (3 st q p)
  then show ?case using run_scan_others [of "su_pool st" q "sc_source p"] by (simp add: inline_parts in_pool_def)
qed

subsection \<open>Properties of a pass\<close>

lemma inline_pass:
  assumes "\<not> se_workers_enabled E" "all_patterns E (su_custom st) = Some ps"
  shows "checkRegexPatterns E content ctx raw url st =
    (let res = fold (scan_pattern_step E (length content)
                 (inline_scan E content (validator_context ctx) (buildBinaryPrefix content)))
               (filter (applies E ctx raw url) ps) (empty_pass, st)
     in (Inr (fst res), snd res))"
proof -
  have "runPatternScan E content c bp = inline_scan E content c bp" for c bp
    using assms(1) by (intro ext) (simp add: runPatternScan_def)
  then show ?thesis using assms(2) by (simp add: checkRegexPatterns_def case_prod_beta Let_def)
qed

definition scan_job :: "'w sus_env \<Rightarrow> jtext \<Rightarrow> jtext \<Rightarrow> scan_pattern \<Rightarrow> regex_threat option" where
  "scan_job E content ctx p = checkRegexPattern (se_tables E) p content (validator_context ctx) (buildBinaryPrefix content)"

text \<open>
  Every threat that a pass reports (on the inline path) comes from a pattern that applies to the
  context and the view: it is the first match of the pattern that its validator and the gates accept,
  or the threat that stands for a timeout of its scan.
\<close>

theorem threats_are_explained:
  assumes "\<not> se_workers_enabled E" "all_patterns E (su_custom st) = Some ps"
    "checkRegexPatterns E content ctx raw url st = (Inr r, st')" "t \<in> set (pr_threats r)"
  shows "\<exists>p \<in> set ps. applies E ctx raw url p \<and>
    (scan_job E content ctx p = Some t \<or> t = timeout_threat (se_tables E) p)"
proof -
  have "t \<in> set (pr_threats (fst (fold (scan_pattern_step E (length content)
      (inline_scan E content (validator_context ctx) (buildBinaryPrefix content)))
      (filter (applies E ctx raw url) ps) (empty_pass, st))))"
    using assms(3,4) by (simp add: inline_pass [OF assms(1,2)] Let_def)
  from inline.pass_sound [OF this] show ?thesis by (auto simp: scan_job_def empty_pass_def)
qed

lemma found_or_timed_out:
  assumes "\<not> se_workers_enabled E" "all_patterns E (su_custom st) = Some ps" "distinct (map sc_source ps)"
    "p \<in> set ps" "applies E ctx raw url p" "in_pool st (sc_source p)" "scan_job E content ctx p = Some t"
  shows "\<exists>r st'. checkRegexPatterns E content ctx raw url st = (Inr r, st') \<and>
    (t \<in> set (pr_threats r) \<or> timeout_threat (se_tables E) p \<in> set (pr_threats r))"
proof -
  let ?run = "inline_scan E content (validator_context ctx) (buildBinaryPrefix content)"
  let ?res = "fold (scan_pattern_step E (length content) ?run) (filter (applies E ctx raw url) ps) (empty_pass, st)"
  have "\<exists>t' \<in> set (pr_threats (fst ?res)). t' = t \<or> t' = timeout_threat (se_tables E) p"
  proof (rule inline.pass_complete [where keeps = "\<lambda>st. True"])
    show "distinct (map sc_source (filter (applies E ctx raw url) ps))" using assms(3) by (rule distinct_map_filter)
    show "p \<in> set (filter (applies E ctx raw url) ps)" "in_pool (snd (empty_pass, st)) (sc_source p)"
      using assms(4-6) by simp_all
    fix st2 :: "'a sus" assume "in_pool st2 (sc_source p)"
    from inline.judged_match [OF this assms(7) [unfolded scan_job_def]]
    show "\<exists>t'. fst (judge (se_tables E) (sp_deadline (su_pool (snd (?run p st2)))) p (fst (?run p st2))) = Some t' \<and>
        (t' = t \<or> t' = timeout_threat (se_tables E) p)" by metis
  qed simp_all
  then show ?thesis by (auto simp: inline_pass [OF assms(1,2)] Let_def)
qed

text \<open>
  No match is lost. When a pattern applies, is not quarantined at the start of the pass and its scan
  finds an accepted match, the pass succeeds and reports that match or, if the clock says that the scan
  was too slow, the timeout of the pattern: whatever the other scans do and however long they take.
\<close>

theorem no_match_is_lost:
  assumes "\<not> se_workers_enabled E" "all_patterns E (su_custom st) = Some ps" "distinct (map sc_source ps)"
    "p \<in> set ps" "applies E ctx raw url p" "in_pool st (sc_source p)" "scan_job E content ctx p = Some t"
  shows "\<exists>r st'. checkRegexPatterns E content ctx raw url st = (Inr r, st') \<and>
    (t \<in> set (pr_threats r) \<or> timeout_threat (se_tables E) p \<in> set (pr_threats r))"
  by (rule found_or_timed_out [OF assms])

lemma run_scan_elapsed:
  "map_of (sp_until sp) p = None \<Longrightarrow> so_elapsed (fst (run_scan rd p (Some v) sp)) = rd_stop rd - rd_start rd"
  using run_scan_in_pool [of sp p rd v]
  by (auto simp: run_scan_def isActive_def Let_def split: if_splits)

lemma run_scan_deadline: "sp_deadline (snd (run_scan rd p v sp)) = sp_deadline sp"
  by (simp add: run_scan_def isActive_def Let_def reportTimeout_def emit_def reportSuccess_def split: option.splits)

lemma inline_slow:
  assumes "in_pool st (sc_source p)" "sp_deadline (su_pool st) = d"
    "\<And>i. SLOW_COMPLETION_FRACTION * d \<le> rd_stop (se_clock E i) - rd_start (se_clock E i)"
  shows "\<exists>t. fst (judge T (sp_deadline (su_pool (snd (inline_scan E content ctx bp p st)))) p (fst (inline_scan E content ctx bp p st))) = Some t \<and>
    (t = timeout_threat T p \<or> checkRegexPattern (se_tables E) p content ctx bp = Some t)"
proof -
  let ?v = "checkRegexPattern (se_tables E) p content ctx bp" and ?rd = "se_clock E (su_scans st)"
  let ?o = "fst (inline_scan E content ctx bp p st)"
  have "so_status ?o \<in> {Completed, TimedOut}" by (rule inline.answered [OF assms(1)])
  moreover have "SLOW_COMPLETION_FRACTION * d \<le> so_elapsed ?o"
    using run_scan_elapsed [of "su_pool st" "sc_source p" ?rd ?v] assms(1,3) by (simp add: inline_parts in_pool_def)
  moreover have "sp_deadline (su_pool (snd (inline_scan E content ctx bp p st))) = d"
    using assms(2) by (simp add: inline_parts run_scan_deadline)
  moreover have "so_status ?o = Completed \<Longrightarrow> so_value ?o = Some ?v" by (rule inline.completed)
  ultimately show ?thesis by (cases ?v) (auto simp: judge_def Let_def)
qed

text \<open>
  Slow scans fail closed. When every scan takes nine tenths of the deadline or longer, each pattern that
  applies and is not quarantined is reported: as its match, or as a timeout. A crawling engine never
  lets a text pass.
\<close>

theorem slow_scans_fail_closed:
  assumes "\<not> se_workers_enabled E" "all_patterns E (su_custom st) = Some ps" "distinct (map sc_source ps)"
    "p \<in> set ps" "applies E ctx raw url p" "in_pool st (sc_source p)"
    "\<And>i. SLOW_COMPLETION_FRACTION * sp_deadline (su_pool st) \<le> rd_stop (se_clock E i) - rd_start (se_clock E i)"
  shows "\<exists>r st'. checkRegexPatterns E content ctx raw url st = (Inr r, st') \<and>
    (\<exists>t \<in> set (pr_threats r). t = timeout_threat (se_tables E) p \<or> scan_job E content ctx p = Some t)"
proof -
  let ?run = "inline_scan E content (validator_context ctx) (buildBinaryPrefix content)"
  let ?res = "fold (scan_pattern_step E (length content) ?run) (filter (applies E ctx raw url) ps) (empty_pass, st)"
  have "\<exists>t \<in> set (pr_threats (fst ?res)). t = timeout_threat (se_tables E) p \<or> scan_job E content ctx p = Some t"
  proof (rule inline.pass_complete [where keeps = "\<lambda>s. sp_deadline (su_pool s) = sp_deadline (su_pool st)"])
    show "distinct (map sc_source (filter (applies E ctx raw url) ps))" using assms(3) by (rule distinct_map_filter)
    show "p \<in> set (filter (applies E ctx raw url) ps)" "in_pool (snd (empty_pass, st)) (sc_source p)"
      using assms(4-6) by simp_all
  qed (use inline_slow [OF _ _ assms(7)] in \<open>simp_all add: inline_parts run_scan_deadline scan_job_def\<close>)
  then show ?thesis by (auto simp: inline_pass [OF assms(1,2)] Let_def)
qed

definition prompt :: "'w sus_env \<Rightarrow> rat \<Rightarrow> bool" where
  "prompt E d \<longleftrightarrow> (\<forall>i. 0 \<le> rd_stop (se_clock E i) - rd_start (se_clock E i) \<and>
     rd_stop (se_clock E i) - rd_start (se_clock E i) < SLOW_COMPLETION_FRACTION * d)"

definition idle :: "rat \<Rightarrow> 'w sus \<Rightarrow> bool" where
  "idle d st \<longleftrightarrow> sp_until (su_pool st) = [] \<and> sp_deadline (su_pool st) = d"

lemma prompt_scan:
  assumes "prompt E d" "idle d st"
  shows "fst (judge T (sp_deadline (su_pool (snd (inline_scan E content ctx bp p st)))) p (fst (inline_scan E content ctx bp p st))) =
           checkRegexPattern (se_tables E) p content ctx bp"
    "snd (snd (judge T (sp_deadline (su_pool (snd (inline_scan E content ctx bp p st)))) p (fst (inline_scan E content ctx bp p st)))) = []"
    "idle d (snd (inline_scan E content ctx bp p st))"
proof -
  let ?rd = "se_clock E (su_scans st)" and ?v = "checkRegexPattern (se_tables E) p content ctx bp"
  have quick: "0 \<le> rd_stop ?rd - rd_start ?rd" "rd_stop ?rd - rd_start ?rd < SLOW_COMPLETION_FRACTION * d"
    using assms(1) unfolding prompt_def by blast+
  then have "rd_stop ?rd - rd_start ?rd \<le> d" by (simp add: SLOW_COMPLETION_FRACTION_def)
  moreover have "releaseExpired t (su_pool st) = su_pool st" for t
    using assms(2) by (simp add: releaseExpired_def idle_def)
  ultimately have run: "run_scan ?rd (sc_source p) (Some ?v) (su_pool st) =
      (\<lparr>so_status = Completed, so_value = Some ?v, so_elapsed = rd_stop ?rd - rd_start ?rd\<rparr>,
       reportSuccess (sc_source p) (su_pool st))"
    using assms(2) by (simp add: run_scan_def isActive_def Let_def om_has_def idle_def)
  show "idle d (snd (inline_scan E content ctx bp p st))"
    using assms(2) by (simp add: inline_parts run idle_def reportSuccess_def)
  have "sp_deadline (su_pool (snd (inline_scan E content ctx bp p st))) = d"
    using assms(2) by (simp add: inline_parts run idle_def reportSuccess_def)
  moreover have "\<not> SLOW_COMPLETION_FRACTION * d \<le> rd_stop ?rd - rd_start ?rd" using quick(2) by simp
  ultimately show "fst (judge T (sp_deadline (su_pool (snd (inline_scan E content ctx bp p st)))) p (fst (inline_scan E content ctx bp p st))) = ?v"
    "snd (snd (judge T (sp_deadline (su_pool (snd (inline_scan E content ctx bp p st)))) p (fst (inline_scan E content ctx bp p st)))) = []"
    by (simp_all add: judge_def Let_def inline_parts(1) run)
qed

definition found :: "(scan_pattern \<Rightarrow> regex_threat option) \<Rightarrow> scan_pattern list \<Rightarrow> pass_result" where
  "found job ps =
     \<lparr>pr_threats = List.map_filter job ps, pr_matched = map sc_source (filter (\<lambda>p. job p \<noteq> None) ps), pr_timeouts = []\<rparr>"

lemma prompt_fold:
  assumes "prompt E d"
  shows "idle d st \<Longrightarrow> \<exists>st'. fold (scan_pattern_step E n (inline_scan E content ctx bp)) ps (r, st) =
     (\<lparr>pr_threats = pr_threats r @ pr_threats (found (\<lambda>p. checkRegexPattern (se_tables E) p content ctx bp) ps),
       pr_matched = pr_matched r @ pr_matched (found (\<lambda>p. checkRegexPattern (se_tables E) p content ctx bp) ps),
       pr_timeouts = pr_timeouts r\<rparr>, st') \<and> idle d st'"
proof (induction ps arbitrary: r st)
  case (Cons p ps)
  let ?job = "\<lambda>p. checkRegexPattern (se_tables E) p content ctx bp"
  obtain o1 s1 where scan: "inline_scan E content ctx bp p st = (o1, s1)" by fastforce
  obtain tout where judged: "judge (se_tables E) (sp_deadline (su_pool s1)) p o1 = (?job p, tout, [])"
    using prompt_scan(1,2) [OF assms Cons.prems, of "se_tables E" content ctx bp p]
    by (cases "judge (se_tables E) (sp_deadline (su_pool s1)) p o1") (simp add: scan)
  have "idle d s1" using prompt_scan(3) [OF assms Cons.prems, of content ctx bp p] by (simp add: scan)
  then have idle: "idle d (record_outcome E n p o1 m tout s1)" for m by (simp add: record_outcome_def idle_def)
  show ?case
    using Cons.IH [OF idle [of "?job p \<noteq> None"], of
        "\<lparr>pr_threats = pr_threats r @ (case ?job p of Some t \<Rightarrow> [t] | None \<Rightarrow> []),
          pr_matched = pr_matched r @ (case ?job p of Some t \<Rightarrow> [sc_source p] | None \<Rightarrow> []), pr_timeouts = pr_timeouts r\<rparr>"]
    by (cases "?job p") (simp_all add: scan_pattern_step_def scan judged found_def)
qed (simp add: found_def)

lemma prompt_pass:
  assumes "\<not> se_workers_enabled E" "all_patterns E (su_custom st) = Some ps"
    "prompt E (sp_deadline (su_pool st))" "sp_until (su_pool st) = []"
  shows "fst (checkRegexPatterns E content ctx raw url st) =
    Inr (found (scan_job E content ctx) (filter (applies E ctx raw url) ps))"
proof -
  have job: "scan_job E content ctx = (\<lambda>p. checkRegexPattern (se_tables E) p content (validator_context ctx) (buildBinaryPrefix content))"
    by (intro ext) (simp add: scan_job_def)
  have "idle (sp_deadline (su_pool st)) st" using assms(4) by (simp add: idle_def)
  from prompt_fold [OF assms(3) this, of "length content" content "validator_context ctx" "buildBinaryPrefix content"
      "filter (applies E ctx raw url) ps" empty_pass]
  show ?thesis by (auto simp: inline_pass [OF assms(1,2)] Let_def job empty_pass_def found_def)
qed

text \<open>
  With an engine that answers within nine tenths of the deadline, and no pattern in quarantine, a pass is
  exactly the list of the accepted matches: each pattern that applies to the context and the view, in the
  order of the table and then of the custom patterns, adds its first accepted match or nothing, and no
  timeout is listed.
\<close>

theorem prompt_pass_exact:
  assumes "\<not> se_workers_enabled E" "all_patterns E (su_custom st) = Some ps"
    "prompt E (sp_deadline (su_pool st))" "sp_until (su_pool st) = []"
  shows "fst (checkRegexPatterns E content ctx raw url st) =
    Inr (found (scan_job E content ctx) (filter (applies E ctx raw url) ps))"
  by (rule prompt_pass [OF assms])

subsection \<open>A small engine\<close>

text \<open>One pattern, the opening bracket of a tag, on a clock that gives each scan the same time.\<close>

definition bracket :: compiled_pattern where
  "bracket = \<lparr>cp_source = [60], cp_re = (\<lambda>m s i. if i < length s \<and> s ! i = 60 then Some (1, []) else None)\<rparr>"

definition bracket_entry :: compiled_entry where
  "bracket_entry = \<lparr>ce_source = [60], ce_re = bracket, ce_contexts = KNOWN_CONTEXTS, ce_category = text_of ''xss''\<rparr>"

definition bare_tables :: pattern_tables where
  "bare_tables =
     \<lparr>tb_validators = [], tb_finders = [], tb_matchers = [], tb_bounds = [], tb_system_finder = (\<lambda>s. []),
      tb_entity_finder = (\<lambda>s. []), tb_recon = [], tb_noise = [], tb_overrides = []\<rparr>"

definition small_env :: "rat \<Rightarrow> unit sus_env" where
  "small_env t =
     \<lparr>se_tables = bare_tables, se_compiled = [bracket_entry], se_regexp = (\<lambda>s i. None), se_raw_view = [],
      se_recon_raw_view = [], se_url_view = [], se_traversal = bracket,
      se_pp = \<lparr>pp_max_content = 100, pp_preserve = True, pp_max_scan = 100, pp_nfkc = (\<lambda>s. s), pp_gunzip = (\<lambda>_. []), pp_indicators = []\<rparr>,
      se_analyze = (\<lambda>s. ([], 0)), se_clock = (\<lambda>i. \<lparr>rd_enter = 0, rd_start = 0, rd_stop = t, rd_late = t\<rparr>),
      se_spent = (\<lambda>i. t), se_workers_enabled = False, se_create_pool = (\<lambda>d. None),
      se_worker_run = (\<lambda>w p re s accept. (\<lparr>so_status = Failed, so_value = None, so_elapsed = 0\<rparr>, w)),
      se_threshold = 1, se_redact = (\<lambda>s. s), se_log_safe = (\<lambda>s. s), se_unsafe = (\<lambda>s. None), se_redis_error = None\<rparr>"

definition small_state :: "unit sus" where
  "small_state =
     \<lparr>su_custom = [], su_redis = False, su_stored = None, su_agent = False, su_semantic_threshold = 7 / 10,
      su_pool = init_pool 2000 DEFAULT_QUARANTINE_COOLDOWN_MS, su_workers = None, su_no_workers = False, su_scans = 0,
      su_metrics = [], su_events = [], su_warnings = []\<rparr>"

lemma small_patterns: "all_patterns (small_env t) (su_custom small_state) = Some [table_pattern bracket_entry]"
  by (simp add: all_patterns_def small_env_def small_state_def)

lemma small_applies:
  "applies (small_env t) UNKNOWN raw url (table_pattern bracket_entry) \<longleftrightarrow> raw \<noteq> Some True \<and> url \<noteq> Some True"
  by (simp add: applies_def excludedFromView_def Let_def small_env_def normalizeContext_def UNKNOWN_def KNOWN_CONTEXTS_def
      REQUEST_BODY_def text_of_def lower_ascii_def table_pattern_def bracket_entry_def)

definition bracket_threat :: "nat \<Rightarrow> regex_threat" where
  "bracket_threat i =
     \<lparr>rt_type = Regex_Threat, rt_pattern = [60], rt_match = [60], rt_position = i, rt_category = text_of ''xss'', rt_weight = 1\<rparr>"

lemma bracket_found: "findall_from (cp_re bracket m) [60] 0 = [\<lparr>mt_text = [60], mt_index = 0, mt_groups = [], mt_input = [60]\<rparr>]"
  by (subst findall_from.simps, simp add: exec_from_def exec_at_def bracket_def match_end_def upt_rec)
    (subst findall_from.simps, simp add: exec_from_def exec_at_def upt_rec)

lemma small_job: "scan_job (small_env t) [60] ctx (table_pattern bracket_entry) = Some (bracket_threat 0)"
  by (simp add: scan_job_def checkRegexPattern_def table_pattern_def bracket_entry_def small_env_def bare_tables_def
      windowedFinderFor_def scanMatcherFor_def scanWindowBoundsFor_def bracket_found buildRegexThreat_def validatorFor_def
      resolvePatternWeight_def bracket_threat_def Let_def) (simp add: bracket_def)

lemma small_inline: "\<not> se_workers_enabled (small_env t)"
  by (simp add: small_env_def)

lemma small_in_pool: "in_pool small_state p"
  by (simp add: in_pool_def small_state_def init_pool_def)

lemmas small_facts = small_inline small_patterns small_in_pool small_applies small_job

lemma small_prompt: "prompt (small_env 1) (sp_deadline (su_pool small_state))"
  by (simp add: prompt_def small_env_def small_state_def init_pool_def SLOW_COMPLETION_FRACTION_def)

lemma small_until: "sp_until (su_pool small_state) = []"
  by (simp add: small_state_def init_pool_def)

lemma small_pass:
  "fst (checkRegexPatterns (small_env 1) [60] UNKNOWN (Some False) (Some False) small_state) =
   Inr \<lparr>pr_threats = [bracket_threat 0], pr_matched = [[60]], pr_timeouts = []\<rparr>"
  using prompt_pass [OF small_inline small_patterns small_prompt small_until, of "[60]" UNKNOWN "Some False" "Some False"]
  by (simp add: small_applies small_job found_def) (simp add: table_pattern_def bracket_entry_def)

theorem prompt_pass_exact_witness:
  "fst (checkRegexPatterns (small_env 1) [60] UNKNOWN (Some False) (Some False) small_state) =
   Inr \<lparr>pr_threats = [bracket_threat 0], pr_matched = [[60]], pr_timeouts = []\<rparr>"
  using prompt_pass_exact [OF small_inline small_patterns small_prompt small_until, of "[60]" UNKNOWN "Some False" "Some False"]
  by (simp add: small_applies small_job found_def) (simp add: table_pattern_def bracket_entry_def)

theorem no_match_is_lost_witness:
  "\<exists>r st'. checkRegexPatterns (small_env 5000) [60] UNKNOWN (Some False) (Some False) small_state = (Inr r, st') \<and>
    \<not> (bracket_threat 0 \<notin> set (pr_threats r) \<and> timeout_threat bare_tables (table_pattern bracket_entry) \<notin> set (pr_threats r))"
  using no_match_is_lost [where p = "table_pattern bracket_entry" and ctx = UNKNOWN and raw = "Some False" and
      url = "Some False" and content = "[60]" and t = "bracket_threat 0",
      OF small_inline [of 5000] small_patterns [of 5000] _ _ _ small_in_pool] small_facts
  by (simp add: small_env_def)

theorem slow_scans_fail_closed_witness:
  "\<exists>r st'. checkRegexPatterns (small_env 1900) [61] UNKNOWN (Some False) (Some False) small_state = (Inr r, st') \<and>
    pr_threats r \<noteq> []"
proof -
  have slow: "SLOW_COMPLETION_FRACTION * sp_deadline (su_pool small_state) \<le>
      rd_stop (se_clock (small_env 1900) i) - rd_start (se_clock (small_env 1900) i)" for i
    by (simp add: small_env_def small_state_def init_pool_def SLOW_COMPLETION_FRACTION_def)
  show ?thesis
    using slow_scans_fail_closed [where p = "table_pattern bracket_entry" and ctx = UNKNOWN and raw = "Some False" and
        url = "Some False" and content = "[61]", OF small_inline small_patterns _ _ _ small_in_pool slow]
    by (auto simp: small_applies)
qed

theorem threats_are_explained_witness:
  "scan_job (small_env 1) [60] UNKNOWN (table_pattern bracket_entry) = Some (bracket_threat 0) \<and>
   (\<exists>p \<in> set [table_pattern bracket_entry]. applies (small_env 1) UNKNOWN (Some False) (Some False) p \<and>
     \<not> (scan_job (small_env 1) [60] UNKNOWN p \<noteq> Some (bracket_threat 0) \<and>
        bracket_threat 0 \<noteq> timeout_threat (se_tables (small_env 1)) p))"
proof -
  obtain st' where "checkRegexPatterns (small_env 1) [60] UNKNOWN (Some False) (Some False) small_state =
      (Inr \<lparr>pr_threats = [bracket_threat 0], pr_matched = [[60]], pr_timeouts = []\<rparr>, st')"
    using small_pass by (metis prod.collapse)
  from threats_are_explained [OF small_inline small_patterns this, of "bracket_threat 0"]
  show ?thesis by (simp add: small_job)
qed

end
