(* ===== verification/Sus_Patterns.thy ===== *)
theory Sus_Patterns
  imports Pattern_Scan
begin

section \<open>The detection of a value (handlers/sus-patterns.ts)\<close>

text \<open>
  A value is scanned in up to five views; what the passes find is merged, weighed and, with the
  semantic analysis (an argument of the model), becomes the verdict. The second part is the registry of
  custom patterns with its copy in Redis. Scores are rational numbers; the time of a call is left out of its result.
\<close>

type_synonym ('w, 'a) sus_op = "'w sus \<Rightarrow> (exn + 'a) \<times> 'w sus"

definition sus_ok :: "'a \<Rightarrow> ('w, 'a) sus_op" where "sus_ok x = (\<lambda>st. (Inr x, st))"

definition sus_then :: "('w, 'a) sus_op \<Rightarrow> ('a \<Rightarrow> ('w, 'b) sus_op) \<Rightarrow> ('w, 'b) sus_op" where
  "sus_then m f = (\<lambda>st. case m st of (Inl e, st') \<Rightarrow> (Inl e, st') | (Inr x, st') \<Rightarrow> f x st')"

subsection \<open>Texts in reports\<close>

definition hex_text :: "nat \<Rightarrow> nat \<Rightarrow> jtext" where
  "hex_text digits n = map (\<lambda>i. let d = n div 16 ^ (digits - 1 - i) mod 16 in if d < 10 then 48 + d else 87 + d) [0..<digits]"

definition sanitizeForReporting :: "jtext \<Rightarrow> jtext" where
  "sanitizeForReporting s =
     concat (map (\<lambda>cp. if 0xDC80 \<le> cp \<and> cp \<le> 0xDCFF then [92, 120] @ hex_text 2 (cp - 0xDC80 + 0x80)
                       else if 0xD800 \<le> cp \<and> cp \<le> 0xDFFF then [92, 117] @ hex_text 4 cp
                       else utf16 cp) (code_points s))"

fun countCodePoints :: "jtext \<Rightarrow> nat" where
  "countCodePoints [] = 0"
| "countCodePoints [u] = 1"
| "countCodePoints (u # v # s) = Suc (countCodePoints (if is_high u then s else v # s))"

fun three_digits :: "nat \<Rightarrow> jtext" where
  "three_digits n = [48 + n div 100 mod 10, 48 + n div 10 mod 10, 48 + n mod 10]"

text \<open>\<open>x.toFixed(3)\<close>: the nearest thousandth, the larger of two.\<close>

definition to_fixed3 :: "rat \<Rightarrow> jtext" where
  "to_fixed3 x =
     (let n = nat \<lfloor>\<bar>x\<bar> * 1000 + 1 / 2\<rfloor>
      in (if x < 0 then [45] else []) @ text_of (show_nat (n div 1000)) @ [46] @ three_digits n)"

subsection \<open>Merging the views\<close>

text \<open>The pairs seen are listed; a match without an entry in the parallel list stands for its pattern.\<close>

fun drop_seen :: "(jtext \<times> jtext) list \<Rightarrow> regex_threat list \<Rightarrow> jtext list \<Rightarrow> regex_threat list \<times> jtext list" where
  "drop_seen seen [] matched = ([], [])"
| "drop_seen seen (t # ts) matched =
     (if (rt_pattern t, rt_match t) \<in> set seen then drop_seen seen ts (drop 1 matched)
      else
        (case drop_seen ((rt_pattern t, rt_match t) # seen) ts (drop 1 matched) of
           (ks, ms) \<Rightarrow> (t # ks, (case matched of m # _ \<Rightarrow> m | [] \<Rightarrow> rt_pattern t) # ms)))"

definition dropViewDuplicateThreats ::
  "regex_threat list \<Rightarrow> regex_threat list \<Rightarrow> jtext list \<Rightarrow> regex_threat list \<times> jtext list" where
  "dropViewDuplicateThreats seenThreats newThreats newMatched =
     drop_seen (map (\<lambda>t. (rt_pattern t, rt_match t)) seenThreats) newThreats newMatched"

definition add_unseen :: "jtext list \<Rightarrow> jtext list \<Rightarrow> jtext list" where
  "add_unseen new ts = fold (\<lambda>t acc. if t \<in> set acc then acc else acc @ [t]) new ts"

definition merge_raw :: "pass_result \<Rightarrow> pass_result \<Rightarrow> pass_result" where
  "merge_raw main raw =
     (case dropViewDuplicateThreats (pr_threats main) (pr_threats raw) (pr_matched raw) of
        (ks, ms) \<Rightarrow>
          \<lparr>pr_threats = pr_threats main @ ks, pr_matched = pr_matched main @ ms,
           pr_timeouts = add_unseen (pr_timeouts raw) (pr_timeouts main)\<rparr>)"

definition append_pass :: "pass_result \<Rightarrow> pass_result \<Rightarrow> pass_result" where
  "append_pass a b =
     \<lparr>pr_threats = pr_threats a @ pr_threats b, pr_matched = pr_matched a @ pr_matched b,
      pr_timeouts = pr_timeouts a @ pr_timeouts b\<rparr>"

definition one_threat :: "regex_threat option \<Rightarrow> pass_result" where
  "one_threat t =
     (case t of
        None \<Rightarrow> empty_pass
      | Some t \<Rightarrow> \<lparr>pr_threats = [t], pr_matched = [rt_pattern t], pr_timeouts = []\<rparr>)"

definition checkDecodedViewPathTraversal :: "'w sus_env \<Rightarrow> jtext \<Rightarrow> jtext \<Rightarrow> regex_threat option" where
  "checkDecodedViewPathTraversal E processed rawView =
     (let decoded = findall (se_traversal E) processed; raw = findall (se_traversal E) rawView
      in if length decoded \<le> length raw then None
         else Some \<lparr>rt_type = Regex_Threat, rt_pattern = cp_source (se_traversal E),
                    rt_match = sanitizeForReporting (mt_text (hd decoded)), rt_position = mt_index (hd decoded),
                    rt_category = text_of ''path_traversal'',
                    rt_weight = resolvePatternWeight (se_tables E) (cp_source (se_traversal E))\<rparr>)"

definition DECODE_BUDGET_EXHAUSTED_PATTERN :: jtext where
  "DECODE_BUDGET_EXHAUSTED_PATTERN = text_of ''decode_budget_exhausted''"

definition budget_threat :: "'w sus_env \<Rightarrow> regex_threat" where
  "budget_threat E =
     \<lparr>rt_type = Regex_Threat, rt_pattern = DECODE_BUDGET_EXHAUSTED_PATTERN, rt_match = DECODE_BUDGET_EXHAUSTED_PATTERN,
      rt_position = 0, rt_category = text_of ''custom'',
      rt_weight = resolvePatternWeight (se_tables E) DECODE_BUDGET_EXHAUSTED_PATTERN\<rparr>"

definition decode_budget_exhausted :: "pp_config \<Rightarrow> jtext \<Rightarrow> bool" where
  "decode_budget_exhausted P content \<longleftrightarrow>
     content \<noteq> [] \<and> fst (snd (decodeCommonEncodings P (normalizeUnicode P content)))"

definition collect_evidence :: "'w sus_env \<Rightarrow> jtext \<Rightarrow> jtext \<Rightarrow> ('w, pass_result) sus_op" where
  "collect_evidence E content ctx =
     (let P = se_pp E;
          processed = fst (preprocessWithDecoded P content);
          decoded = snd (preprocessWithDecoded P content);
          rawView = preprocessSignalPreserving P content;
          additive = buildShortBase64AdditiveView P content
      in sus_then (checkRegexPatterns E processed ctx (Some False) None) (\<lambda>main.
         sus_then (checkRegexPatterns E rawView ctx (Some True) None) (\<lambda>raw.
         sus_then (checkRegexPatterns E (truncateSafely P decoded) ctx None (Some True)) (\<lambda>url.
         sus_then (if additive = [] then sus_ok empty_pass else checkRegexPatterns E additive ctx None None) (\<lambda>extra.
         sus_ok
           (append_pass
             (append_pass
               (append_pass
                 (append_pass (merge_raw main raw) (one_threat (checkDecodedViewPathTraversal E processed rawView)))
                 url)
               (one_threat (if decode_budget_exhausted P content then Some (budget_threat E) else None)))
             extra))))))"

subsection \<open>Semantic threats and the score\<close>

record semantic_threat =
  se_attack :: jtext
  se_probability :: "rat option"
  se_score :: "rat option"

definition checkSemanticThreats :: "'w sus_env \<Rightarrow> rat \<Rightarrow> jtext \<Rightarrow> jtext \<Rightarrow> semantic_threat list" where
  "checkSemanticThreats E threshold processed raw =
     (if looksLikeBinaryContent raw then []
      else
        (case se_analyze E (take (pp_max_content (se_pp E)) processed) of
           (attackProbs, semanticScore) \<Rightarrow>
             if threshold < semanticScore then
               (let ts = map (\<lambda>(a, p). \<lparr>se_attack = a, se_probability = Some p, se_score = None\<rparr>)
                           (filter (\<lambda>(a, p). threshold \<le> p) attackProbs)
                in if ts = [] \<and> threshold \<le> semanticScore
                   then [\<lparr>se_attack = text_of ''suspicious'', se_probability = None, se_score = Some semanticScore\<rparr>]
                   else ts)
             else []))"

definition regexAnomaly :: "regex_threat list \<Rightarrow> rat" where
  "regexAnomaly ts = foldl (\<lambda>sum t. sum + rt_weight t) 0 ts"

definition semantic_score :: "semantic_threat \<Rightarrow> rat" where
  "semantic_score t =
     (case se_probability t of Some p \<Rightarrow> p | None \<Rightarrow> (case se_score t of Some s \<Rightarrow> s | None \<Rightarrow> 0))"

definition calculateThreatScore :: "regex_threat list \<Rightarrow> semantic_threat list \<Rightarrow> rat" where
  "calculateThreatScore rs ss =
     (if rs = [] \<and> ss = [] then 0
      else
        (let semanticMax = (if ss = [] then 0 else Max (set (map semantic_score ss)))
         in min (max (regexAnomaly rs) semanticMax) 1))"

definition SEMANTIC_ATTACK_TYPE_TO_CATEGORY :: "(jtext \<times> jtext) list" where
  "SEMANTIC_ATTACK_TYPE_TO_CATEGORY = map (\<lambda>(a, c). (text_of a, text_of c))
     [(''xss'', ''xss''), (''sql'', ''sqli''), (''command'', ''cmd_injection''), (''path'', ''path_traversal''),
      (''template'', ''template''), (''suspicious'', ''custom'')]"

definition semantic_category :: "jtext \<Rightarrow> jtext" where
  "semantic_category a = (case map_of SEMANTIC_ATTACK_TYPE_TO_CATEGORY a of Some c \<Rightarrow> c | None \<Rightarrow> text_of ''custom'')"

subsection \<open>The verdict\<close>

datatype detection_method = By_regex | By_timeout | By_semantic

record reported_threat =
  rp_pattern :: jtext
  rp_context :: jtext
  rp_matched :: jtext
  rp_method :: detection_method

record detection_result =
  dr_is_threat :: bool
  dr_score :: rat
  dr_threats :: "reported_threat list"
  dr_categories :: "jtext list"
  dr_timeouts :: "jtext list"
  dr_correlation :: "jtext option"
  dr_original :: nat
  dr_processed :: nat

definition kept_regex :: "jtext list \<Rightarrow> regex_threat list \<Rightarrow> regex_threat list" where
  "kept_regex skipped ts = filter (\<lambda>t. rt_category t \<notin> set skipped) ts"

definition kept_semantic :: "jtext list \<Rightarrow> semantic_threat list \<Rightarrow> semantic_threat list" where
  "kept_semantic skipped ts = filter (\<lambda>t. semantic_category (se_attack t) \<notin> set skipped) ts"

definition report_regex :: "jtext \<Rightarrow> regex_threat \<Rightarrow> reported_threat" where
  "report_regex ctx t =
     \<lparr>rp_pattern = rt_pattern t, rp_context = ctx, rp_matched = rt_match t,
      rp_method = (if rt_type t = Timeout_Threat then By_timeout else By_regex)\<rparr>"

definition semantic_name :: "jtext \<Rightarrow> jtext" where "semantic_name a = text_of ''semantic:'' @ a"

definition report_semantic :: "jtext \<Rightarrow> rat \<Rightarrow> semantic_threat \<Rightarrow> reported_threat" where
  "report_semantic ctx score t =
     \<lparr>rp_pattern = semantic_name (se_attack t), rp_context = ctx, rp_matched = text_of ''score='' @ to_fixed3 score,
      rp_method = By_semantic\<rparr>"

definition threat_categories :: "regex_threat list \<Rightarrow> semantic_threat list \<Rightarrow> jtext list" where
  "threat_categories rs ss =
     add_unseen (map rt_category (filter (\<lambda>t. rt_type t = Regex_Threat) rs) @ map se_attack ss) []"

definition conclude :: "rat \<Rightarrow> jtext list \<Rightarrow> jtext \<Rightarrow> jtext option \<Rightarrow> nat \<Rightarrow> nat \<Rightarrow> pass_result \<Rightarrow> semantic_threat list \<Rightarrow>
    detection_result" where
  "conclude threshold skipped ctx correlation original processed ev semantic =
     (let rs = kept_regex skipped (pr_threats ev);
          ss = kept_semantic skipped semantic;
          score = calculateThreatScore rs ss
      in \<lparr>dr_is_threat = (threshold \<le> regexAnomaly rs \<or> ss \<noteq> []), dr_score = score,
          dr_threats = map (report_regex (normalizeContext ctx)) rs @ map (report_semantic (normalizeContext ctx) score) ss,
          dr_categories = threat_categories (pr_threats ev) semantic, dr_timeouts = pr_timeouts ev,
          dr_correlation = correlation, dr_original = original, dr_processed = processed\<rparr>)"

definition sendPatternEvent :: "pattern_event \<Rightarrow> 'w sus \<Rightarrow> 'w sus" where
  "sendPatternEvent e st = (if su_agent st then st\<lparr>su_events := su_events st @ [e]\<rparr> else st)"

definition detected_event ::
  "'w sus_env \<Rightarrow> jtext \<Rightarrow> jtext \<Rightarrow> jtext \<Rightarrow> jtext list \<Rightarrow> pass_result \<Rightarrow> semantic_threat list \<Rightarrow> detection_result \<Rightarrow> pattern_event" where
  "detected_event E content ip ctx skipped ev semantic r =
     (let ss = kept_semantic skipped semantic;
          info = (case pr_matched ev of p # _ \<Rightarrow> p | [] \<Rightarrow> (case ss of s # _ \<Rightarrow> semantic_name (se_attack s) | [] \<Rightarrow> UNKNOWN));
          redacted = se_redact E info
      in \<lparr>pn_type = text_of ''pattern_detected'', pn_ip = ip, pn_action = text_of ''threat_detected'',
          pn_reason = text_of ''Threat detected in '' @ ctx, pn_pattern = Some redacted,
          pn_meta = Detected redacted ctx (se_log_safe E (take 100 content)) (dr_score r)
            (length (dr_threats r), length (kept_regex skipped (pr_threats ev)), length ss, length (dr_timeouts r))
            (dr_correlation r) (dr_categories r)\<rparr>)"

definition detect ::
  "'w sus_env \<Rightarrow> jtext \<Rightarrow> jtext \<Rightarrow> jtext \<Rightarrow> jtext option \<Rightarrow> jtext list \<Rightarrow> ('w, detection_result) sus_op" where
  "detect E content ip ctx correlation skipped =
     (let processed = fst (preprocessWithDecoded (se_pp E) content)
      in sus_then (collect_evidence E content ctx) (\<lambda>ev st.
           let semantic = checkSemanticThreats E (su_semantic_threshold st) processed content;
               r = conclude (se_threshold E) skipped ctx correlation (countCodePoints content) (countCodePoints processed) ev semantic
           in (Inr r,
               if dr_is_threat r then sendPatternEvent (detected_event E content ip ctx skipped ev semantic r) st else st)))"

definition detectPatternMatch ::
  "'w sus_env \<Rightarrow> jtext \<Rightarrow> jtext \<Rightarrow> jtext \<Rightarrow> jtext option \<Rightarrow> ('w, bool \<times> jtext option) sus_op" where
  "detectPatternMatch E content ip ctx correlation =
     sus_then (detect E content ip ctx correlation []) (\<lambda>r.
       sus_ok (case dr_threats r of
           t # _ \<Rightarrow>
             if dr_is_threat r then
               (True, Some (if rp_method t = By_semantic then semantic_name (drop 9 (rp_pattern t)) else rp_pattern t))
             else (False, None)
         | [] \<Rightarrow> (False, None)))"

subsection \<open>The registry of custom patterns\<close>

definition set_add :: "'a \<Rightarrow> 'a list \<Rightarrow> 'a list" where
  "set_add x xs = (if x \<in> set xs then xs else xs @ [x])"

definition initializeRedis :: "'w sus_env \<Rightarrow> ('w, unit) sus_op" where
  "initializeRedis E st =
     (let st1 = st\<lparr>su_redis := True\<rparr>
      in case se_redis_error E of
           Some e \<Rightarrow> (Inl e, st1)
         | None \<Rightarrow>
             (Inr (),
              (case su_stored st1 of
                 Some cached \<Rightarrow>
                   if cached \<noteq> []
                   then st1\<lparr>su_custom := fold (\<lambda>p custom. if trim_js p \<noteq> [] then set_add (trim_js p) custom else custom)
                                         (split_on 44 cached) (su_custom st1)\<rparr>
                   else st1
               | None \<Rightarrow> st1)))"


definition store_custom :: "'w sus_env \<Rightarrow> ('w, unit) sus_op" where
  "store_custom E st =
     (case se_redis_error E of
        Some e \<Rightarrow> (Inl e, st)
      | None \<Rightarrow> (Inr (), st\<lparr>su_stored := Some (join_with [44] (su_custom st))\<rparr>))"

definition registry_event :: "'w sus_env \<Rightarrow> string \<Rightarrow> jtext \<Rightarrow> jtext \<Rightarrow> bool \<Rightarrow> nat \<Rightarrow> pattern_event" where
  "registry_event E kind reason pattern custom count =
     \<lparr>pn_type = text_of kind, pn_ip = text_of ''system'', pn_action = text_of kind, pn_reason = reason, pn_pattern = None,
      pn_meta = Registry (se_redact E pattern) custom count\<rparr>"

definition getDefaultPatterns :: "'w sus_env \<Rightarrow> jtext list" where
  "getDefaultPatterns E = map ce_source (se_compiled E)"

definition addPattern :: "'w sus_env \<Rightarrow> jtext \<Rightarrow> bool \<Rightarrow> ('w, unit) sus_op" where
  "addPattern E pattern custom st =
     (case se_unsafe E pattern of
        Some reason \<Rightarrow>
          (Inr (), st\<lparr>su_warnings := su_warnings st @
             [text_of ''Rejected unsafe pattern ('' @ reason @ text_of ''): '' @ pattern]\<rparr>)
      | None \<Rightarrow>
          (let st1 = st\<lparr>su_custom := set_add pattern (su_custom st)\<rparr>
           in sus_then (if custom \<and> su_redis st1 then store_custom E else sus_ok ()) (\<lambda>_ st2.
                (Inr (),
                 sendPatternEvent
                   (registry_event E ''pattern_added''
                      (text_of (if custom then ''Custom'' else ''Default'') @ text_of '' pattern added to detection system'')
                      pattern custom (if custom then length (su_custom st2) else length (getDefaultPatterns E))) st2)) st1))"


definition getCustomPatterns :: "'w sus \<Rightarrow> jtext list" where "getCustomPatterns st = su_custom st"

definition getAllPatterns :: "'w sus_env \<Rightarrow> 'w sus \<Rightarrow> jtext list" where
  "getAllPatterns E st = getDefaultPatterns E @ getCustomPatterns st"

definition getLongestPatternLength :: "'w sus_env \<Rightarrow> 'w sus \<Rightarrow> nat" where
  "getLongestPatternLength E st = foldl (\<lambda>longest p. if longest < length p then length p else longest) 0 (getAllPatterns E st)"



subsection \<open>Merged evidence\<close>

definition pair_of :: "regex_threat \<Rightarrow> jtext \<times> jtext" where "pair_of t = (rt_pattern t, rt_match t)"

lemma drop_seen_Cons:
  "drop_seen seen (t # ts) matched =
     (if pair_of t \<in> set seen then drop_seen seen ts (drop 1 matched)
      else (case drop_seen (pair_of t # seen) ts (drop 1 matched) of
              (ks, ms) \<Rightarrow> (t # ks, (case matched of m # _ \<Rightarrow> m | [] \<Rightarrow> rt_pattern t) # ms)))"
  by (simp add: pair_of_def)

lemma drop_seen_exact:
  "case drop_seen seen new matched of (ks, ms) \<Rightarrow>
     distinct (map pair_of ks) \<and> pair_of ` set ks = pair_of ` set new - set seen \<and> subseq ks new \<and> length ms = length ks"
proof (induction new arbitrary: seen matched)
  case (Cons t ts)
  show ?case
  proof (cases "pair_of t \<in> set seen")
    case True
    then show ?thesis using Cons [of seen "drop 1 matched"] by (auto simp: drop_seen_Cons simp del: drop_seen.simps split: prod.splits)
  next
    case False
    obtain ks ms where rest: "drop_seen (pair_of t # seen) ts (drop 1 matched) = (ks, ms)" by fastforce
    then have ks: "distinct (map pair_of ks)" "pair_of ` set ks = pair_of ` set ts - insert (pair_of t) (set seen)"
      "subseq ks ts" "length ms = length ks"
      using Cons [of "pair_of t # seen" "drop 1 matched"] by simp_all
    have "drop_seen seen (t # ts) matched = (t # ks, (case matched of m # _ \<Rightarrow> m | [] \<Rightarrow> rt_pattern t) # ms)"
      using False by (simp add: drop_seen_Cons rest del: drop_seen.simps One_nat_def)
    moreover have "pair_of ` set (t # ks) = pair_of ` set (t # ts) - set seen"
      using ks(2) False by auto
    moreover have "distinct (map pair_of (t # ks))" using ks(1,2) by auto
    ultimately show ?thesis using ks(3,4) by simp
  qed
qed simp

text \<open>
  The raw view adds only new evidence. Of the threats of the raw pass exactly those remain whose
  pattern and match no earlier view has reported, each once, in their order, with one entry of the
  parallel list for each.
\<close>

theorem raw_view_adds_only_new_evidence:
  "case dropViewDuplicateThreats seenThreats newThreats newMatched of (ks, ms) \<Rightarrow>
     distinct (map pair_of ks) \<and>
     pair_of ` set ks = pair_of ` set newThreats - pair_of ` set seenThreats \<and>
     subseq ks newThreats \<and> length ms = length ks"
  using drop_seen_exact [where seen = "map pair_of seenThreats" and new = newThreats and matched = newMatched]
  by (simp add: dropViewDuplicateThreats_def pair_of_def [abs_def])

lemma dropped_subset: "dropViewDuplicateThreats a b m = (ks, ms) \<Longrightarrow> set ks \<subseteq> set b"
  using drop_seen_exact [where seen = "map pair_of a" and new = b and matched = m]
  by (auto simp: dropViewDuplicateThreats_def pair_of_def [abs_def] dest: list_emb_set)

lemma merged_threats:
  "set (pr_threats main) \<subseteq> set (pr_threats (merge_raw main raw))"
  "set (pr_threats (merge_raw main raw)) \<subseteq> set (pr_threats main) \<union> set (pr_threats raw)"
  using dropped_subset [of "pr_threats main" "pr_threats raw" "pr_matched raw"]
  by (auto simp: merge_raw_def split: prod.splits)

subsection \<open>The passes of a detection\<close>

context scan_runner
begin

lemma pass_keeps:
  assumes "\<And>p st. keeps st \<Longrightarrow> keeps (snd (run p st))" "\<And>st ms. keeps st \<Longrightarrow> keeps (st\<lparr>su_metrics := ms\<rparr>)"
  shows "keeps (snd rs) \<Longrightarrow> keeps (snd (fold (scan_pattern_step E n run) ps rs))"
proof (induction ps arbitrary: rs)
  case (Cons p ps)
  obtain r st where rs: "rs = (r, st)" by (cases rs)
  have "keeps (snd (scan_pattern_step E n run p (r, st)))"
    by (rule step_inv) (use assms Cons.prems rs in auto)
  then show ?case using Cons.IH by (simp add: rs)
qed simp

end

lemma inline_keeps:
  "su_custom (snd (inline_scan E content ctx bp p st)) = su_custom st"
  "su_semantic_threshold (snd (inline_scan E content ctx bp p st)) = su_semantic_threshold st"
  "su_agent (snd (inline_scan E content ctx bp p st)) = su_agent st"
  by (simp_all add: inline_parts)

definition explained_by :: "'w sus_env \<Rightarrow> scan_pattern list \<Rightarrow> jtext \<Rightarrow> jtext \<Rightarrow> bool option \<Rightarrow> bool option \<Rightarrow> regex_threat \<Rightarrow> bool" where
  "explained_by E ps content ctx raw url t \<longleftrightarrow>
     (\<exists>p \<in> set ps. applies E ctx raw url p \<and> (scan_job E content ctx p = Some t \<or> t = timeout_threat (se_tables E) p))"

lemma pass_done:
  assumes "\<not> se_workers_enabled E" "all_patterns E (su_custom st) = Some ps"
  obtains r st' where "checkRegexPatterns E content ctx raw url st = (Inr r, st')" "su_custom st' = su_custom st"
    "\<forall>t \<in> set (pr_threats r). explained_by E ps content ctx raw url t"
proof -
  let ?run = "inline_scan E content (validator_context ctx) (buildBinaryPrefix content)"
  let ?res = "fold (scan_pattern_step E (length content) ?run) (filter (applies E ctx raw url) ps) (empty_pass, st)"
  have "su_custom (snd ?res) = su_custom st"
    by (rule inline.pass_keeps [where keeps = "\<lambda>s. su_custom s = su_custom st"]) (simp_all add: inline_keeps)
  moreover have "explained_by E ps content ctx raw url t" if "t \<in> set (pr_threats (fst ?res))" for t
    using inline.pass_sound [OF that] by (auto simp: explained_by_def scan_job_def empty_pass_def)
  ultimately show ?thesis using that [of "fst ?res" "snd ?res"] by (simp add: inline_pass [OF assms] Let_def)
qed

text \<open>The views of a value, with the choice of patterns each is scanned with.\<close>

definition processed_text :: "'w sus_env \<Rightarrow> jtext \<Rightarrow> jtext" where
  "processed_text E content = fst (preprocessWithDecoded (se_pp E) content)"

definition views :: "'w sus_env \<Rightarrow> jtext \<Rightarrow> (bool option \<times> bool option \<times> jtext) list" where
  "views E content =
     [(Some False, None, processed_text E content), (Some True, None, preprocessSignalPreserving (se_pp E) content),
      (None, Some True, truncateSafely (se_pp E) (snd (preprocessWithDecoded (se_pp E) content))),
      (None, None, buildShortBase64AdditiveView (se_pp E) content)]"

definition sourced :: "'w sus_env \<Rightarrow> scan_pattern list \<Rightarrow> jtext \<Rightarrow> jtext \<Rightarrow> regex_threat \<Rightarrow> bool" where
  "sourced E ps content ctx t \<longleftrightarrow>
     (\<exists>(raw, url, s) \<in> set (views E content). explained_by E ps s ctx raw url t) \<or>
     checkDecodedViewPathTraversal E (processed_text E content) (preprocessSignalPreserving (se_pp E) content) = Some t \<or>
     t = budget_threat E"

lemma threats_of_parts [simp]:
  "pr_threats (append_pass a b) = pr_threats a @ pr_threats b"
  "set (pr_threats (one_threat x)) = set_option x" "pr_threats empty_pass = []"
  by (simp_all add: append_pass_def one_threat_def empty_pass_def split: option.splits)

lemma evidence_collected:
  assumes "\<not> se_workers_enabled E" "all_patterns E (su_custom st) = Some ps"
  obtains main st1 ev st' where
    "checkRegexPatterns E (processed_text E content) ctx (Some False) None st = (Inr main, st1)"
    "collect_evidence E content ctx st = (Inr ev, st')" "set (pr_threats main) \<subseteq> set (pr_threats ev)"
    "\<forall>t \<in> set (pr_threats ev). sourced E ps content ctx t" "su_custom st' = su_custom st"
proof -
  let ?raw = "preprocessSignalPreserving (se_pp E) content"
  let ?url = "truncateSafely (se_pp E) (snd (preprocessWithDecoded (se_pp E) content))"
  let ?add = "buildShortBase64AdditiveView (se_pp E) content"
  obtain main s1 where main: "checkRegexPatterns E (processed_text E content) ctx (Some False) None st = (Inr main, s1)"
    "su_custom s1 = su_custom st" "\<forall>t \<in> set (pr_threats main). explained_by E ps (processed_text E content) ctx (Some False) None t"
    by (rule pass_done [OF assms])
  have c1: "all_patterns E (su_custom s1) = Some ps" using assms(2) main(2) by simp
  obtain raw s2 where raw: "checkRegexPatterns E ?raw ctx (Some True) None s1 = (Inr raw, s2)"
    "su_custom s2 = su_custom s1" "\<forall>t \<in> set (pr_threats raw). explained_by E ps ?raw ctx (Some True) None t"
    by (rule pass_done [OF assms(1) c1])
  have c2: "all_patterns E (su_custom s2) = Some ps" using c1 raw(2) by simp
  obtain url s3 where url: "checkRegexPatterns E ?url ctx None (Some True) s2 = (Inr url, s3)"
    "su_custom s3 = su_custom s2" "\<forall>t \<in> set (pr_threats url). explained_by E ps ?url ctx None (Some True) t"
    by (rule pass_done [OF assms(1) c2])
  have c3: "all_patterns E (su_custom s3) = Some ps" using c2 url(2) by simp
  obtain extra s4 where extra:
    "(if ?add = [] then sus_ok empty_pass else checkRegexPatterns E ?add ctx None None) s3 = (Inr extra, s4)"
    "su_custom s4 = su_custom s3" "\<forall>t \<in> set (pr_threats extra). explained_by E ps ?add ctx None None t"
  proof (cases "?add = []")
    case True
    then show thesis using that [of empty_pass s3] by (simp add: sus_ok_def)
  next
    case False
    obtain extra s4 where "checkRegexPatterns E ?add ctx None None s3 = (Inr extra, s4)"
      "su_custom s4 = su_custom s3" "\<forall>t \<in> set (pr_threats extra). explained_by E ps ?add ctx None None t"
      by (rule pass_done [OF assms(1) c3])
    then show thesis using that [of extra s4] False by simp
  qed
  define ev where "ev = append_pass (append_pass (append_pass (append_pass (merge_raw main raw)
      (one_threat (checkDecodedViewPathTraversal E (processed_text E content) ?raw))) url)
      (one_threat (if decode_budget_exhausted (se_pp E) content then Some (budget_threat E) else None))) extra"
  have "collect_evidence E content ctx st = (Inr ev, s4)"
    using main(1) raw(1) url(1) extra(1)
    by (simp add: collect_evidence_def sus_then_def Let_def ev_def processed_text_def) (simp add: sus_ok_def)
  moreover have "set (pr_threats main) \<subseteq> set (pr_threats ev)"
    using merged_threats(1) [of main raw] by (auto simp: ev_def)
  moreover have "sourced E ps content ctx t" if "t \<in> set (pr_threats ev)" for t
  proof -
    have "t \<in> set (pr_threats main) \<or> t \<in> set (pr_threats raw) \<or> t \<in> set (pr_threats url) \<or> t \<in> set (pr_threats extra) \<or>
      checkDecodedViewPathTraversal E (processed_text E content) ?raw = Some t \<or> t = budget_threat E"
      using that merged_threats(2) [of main raw] by (auto simp: ev_def split: if_splits)
    then show ?thesis using main(3) raw(3) url(3) extra(3) by (simp add: sourced_def views_def) blast
  qed
  ultimately show ?thesis using that main extra(2) url(2) raw(2) by metis
qed

lemma detect_done:
  assumes "\<not> se_workers_enabled E" "all_patterns E (su_custom st) = Some ps"
  obtains main st1 ev semantic st' where
    "checkRegexPatterns E (processed_text E content) ctx (Some False) None st = (Inr main, st1)"
    "detect E content ip ctx correlation skipped st =
       (Inr (conclude (se_threshold E) skipped ctx correlation (countCodePoints content)
               (countCodePoints (processed_text E content)) ev semantic), st')"
    "set (pr_threats main) \<subseteq> set (pr_threats ev)" "\<forall>t \<in> set (pr_threats ev). sourced E ps content ctx t"
proof -
  obtain main st1 ev st' where e:
    "checkRegexPatterns E (processed_text E content) ctx (Some False) None st = (Inr main, st1)"
    "collect_evidence E content ctx st = (Inr ev, st')" "set (pr_threats main) \<subseteq> set (pr_threats ev)"
    "\<forall>t \<in> set (pr_threats ev). sourced E ps content ctx t" "su_custom st' = su_custom st"
    by (rule evidence_collected [OF assms])
  show ?thesis
    by (rule that [OF e(1) _ e(3,4)]) (simp add: detect_def sus_then_def e(2) Let_def processed_text_def)
qed

text \<open>
  What a detection reports can be traced. On the inline path each reported threat is a semantic one,
  the traversal that decoding uncovered, the exhausted decoding budget, or comes from one of the views:
  a pattern that applies to the context and the view has an accepted match there or its scan timed out.
\<close>

theorem reports_are_explained:
  assumes "\<not> se_workers_enabled E" "all_patterns E (su_custom st) = Some ps"
    "detect E content ip ctx correlation skipped st = (Inr r, st')" "x \<in> set (dr_threats r)" "rp_method x \<noteq> By_semantic"
  shows "\<exists>t. sourced E ps content ctx t \<and> rt_category t \<notin> set skipped \<and> x = report_regex (normalizeContext ctx) t"
proof -
  obtain ev semantic s' where d: "detect E content ip ctx correlation skipped st =
       (Inr (conclude (se_threshold E) skipped ctx correlation (countCodePoints content)
               (countCodePoints (processed_text E content)) ev semantic), s')"
    "\<forall>t \<in> set (pr_threats ev). sourced E ps content ctx t"
    using detect_done [OF assms(1,2)] by metis
  have r: "r = conclude (se_threshold E) skipped ctx correlation (countCodePoints content)
      (countCodePoints (processed_text E content)) ev semantic"
    using d(1) assms(3) by simp
  then show ?thesis using assms(4,5) d(2)
    by (auto simp: conclude_def Let_def kept_regex_def report_semantic_def)
qed

subsection \<open>What the verdict says\<close>

lemma anomaly_sum: "regexAnomaly ts = sum_list (map rt_weight ts)"
proof -
  have "foldl (\<lambda>sum t. sum + rt_weight t) a ts = a + sum_list (map rt_weight ts)" for a
    by (induction ts arbitrary: a) (simp_all add: add.assoc)
  then show ?thesis by (simp add: regexAnomaly_def)
qed

definition weights_ok :: "pattern_tables \<Rightarrow> bool" where
  "weights_ok T \<longleftrightarrow> (\<forall>(s, w) \<in> set (tb_overrides T). 0 \<le> w)"

lemma weight_nonneg: "weights_ok T \<Longrightarrow> 0 \<le> resolvePatternWeight T s"
  by (auto simp: weights_ok_def resolvePatternWeight_def dest!: map_of_SomeD split: option.splits)

lemma job_threat:
  "scan_job E content ctx p = Some t \<Longrightarrow>
   rt_category t = sc_category p \<and> rt_pattern t = cp_source (sc_compiled p) \<and>
   rt_weight t = resolvePatternWeight (se_tables E) (cp_source (sc_compiled p))"
  unfolding scan_job_def checkRegexPattern_def Let_def
  by (auto split: option.splits dest!: first_accepted_Some built_threat)

lemma sourced_weight: "weights_ok (se_tables E) \<Longrightarrow> sourced E ps content ctx t \<Longrightarrow> 0 \<le> rt_weight t"
  by (auto simp: sourced_def explained_by_def timeout_threat_def budget_threat_def checkDecodedViewPathTraversal_def
      Let_def weight_nonneg dest: job_threat split: if_splits)

lemma kept_anomaly:
  assumes "\<forall>t \<in> set ts. 0 \<le> rt_weight t"
  shows "0 \<le> regexAnomaly (kept_regex skipped ts)"
    "t \<in> set ts \<Longrightarrow> rt_category t \<notin> set skipped \<Longrightarrow> rt_weight t \<le> regexAnomaly (kept_regex skipped ts)"
proof -
  have kept: "\<forall>x \<in> set (map rt_weight (kept_regex skipped ts)). 0 \<le> x" using assms by (auto simp: kept_regex_def)
  then show "0 \<le> regexAnomaly (kept_regex skipped ts)" unfolding anomaly_sum by (intro sum_list_nonneg) blast
  assume "t \<in> set ts" "rt_category t \<notin> set skipped"
  then have "rt_weight t \<in> set (map rt_weight (kept_regex skipped ts))" by (simp add: kept_regex_def)
  then show "rt_weight t \<le> regexAnomaly (kept_regex skipped ts)"
    unfolding anomaly_sum using kept by (intro member_le_sum_list) auto
qed

text \<open>
  The score and the verdict agree. When no pattern has a negative weight and the threshold lies in
  (0, 1], the score is between 0 and 1, a score that reaches the threshold is a threat, and a threat
  without a semantic finding has a score that reaches the threshold; nothing is a threat without a report.
\<close>

theorem score_agrees_with_verdict:
  assumes "\<not> se_workers_enabled E" "all_patterns E (su_custom st) = Some ps" "weights_ok (se_tables E)"
    "0 < se_threshold E" "se_threshold E \<le> 1" "detect E content ip ctx correlation skipped st = (Inr r, st')"
  shows "0 \<le> dr_score r \<and> dr_score r \<le> 1 \<and> (se_threshold E \<le> dr_score r \<longrightarrow> dr_is_threat r) \<and>
    (dr_is_threat r \<longrightarrow> dr_threats r \<noteq> [] \<and>
       ((\<forall>x \<in> set (dr_threats r). rp_method x \<noteq> By_semantic) \<longrightarrow> se_threshold E \<le> dr_score r))"
proof -
  obtain ev semantic s' where d: "detect E content ip ctx correlation skipped st =
       (Inr (conclude (se_threshold E) skipped ctx correlation (countCodePoints content)
               (countCodePoints (processed_text E content)) ev semantic), s')"
    "\<forall>t \<in> set (pr_threats ev). sourced E ps content ctx t"
    using detect_done [OF assms(1,2)] by metis
  define rs where "rs = kept_regex skipped (pr_threats ev)"
  define ss where "ss = kept_semantic skipped semantic"
  have r: "dr_is_threat r \<longleftrightarrow> se_threshold E \<le> regexAnomaly rs \<or> ss \<noteq> []" "dr_score r = calculateThreatScore rs ss"
    "dr_threats r = map (report_regex (normalizeContext ctx)) rs @ map (report_semantic (normalizeContext ctx) (dr_score r)) ss"
    using d(1) assms(6) by (auto simp: conclude_def Let_def rs_def ss_def)
  have pos: "0 \<le> regexAnomaly rs"
    using kept_anomaly(1) [of "pr_threats ev" skipped] sourced_weight [OF assms(3)] d(2) unfolding rs_def by blast
  have empty: "regexAnomaly rs = 0" if "rs = []" using that by (simp add: regexAnomaly_def)
  have score: "dr_score r = (if ss = [] then min (regexAnomaly rs) 1
                             else min (max (regexAnomaly rs) (Max (set (map semantic_score ss)))) 1)"
    using pos empty by (auto simp: r(2) calculateThreatScore_def Let_def)
  show ?thesis
  proof (cases "ss = []")
    case True
    then have "dr_score r = min (regexAnomaly rs) 1" "dr_is_threat r \<longleftrightarrow> se_threshold E \<le> regexAnomaly rs"
      "dr_threats r = [] \<longleftrightarrow> rs = []" using score r(1,3) by simp_all
    then show ?thesis using pos empty assms(4,5) by (auto simp: min_def)
  next
    case False
    then obtain s where "s \<in> set ss" by (cases ss) auto
    moreover have "rp_method (report_semantic c v s) = By_semantic" for c v by (simp add: report_semantic_def)
    ultimately have "\<exists>x \<in> set (dr_threats r). rp_method x = By_semantic" unfolding r(3) by fastforce
    moreover have "dr_is_threat r" "0 \<le> dr_score r" "dr_score r \<le> 1" using r(1) score pos False by simp_all
    ultimately show ?thesis by auto
  qed
qed





subsection \<open>The registry\<close>

definition storable :: "jtext \<Rightarrow> bool" where
  "storable p \<longleftrightarrow> p \<noteq> [] \<and> 44 \<notin> set p \<and> trim_js p = p"

lemma custom_restored_step:
  "distinct (acc @ ps) \<Longrightarrow> \<forall>p \<in> set ps. storable p \<Longrightarrow>
   fold (\<lambda>p custom. if trim_js p \<noteq> [] then set_add (trim_js p) custom else custom) ps acc = acc @ ps"
  by (induction ps arbitrary: acc) (auto simp: storable_def set_add_def)

lemma restored_custom:
  assumes "se_redis_error E = None" "su_stored st = Some (join_with [44] ps)" "su_custom st = []"
    "distinct ps" "\<forall>p \<in> set ps. storable p"
  shows "su_custom (snd (initializeRedis E st)) = ps"
proof (cases "ps = []")
  case True
  then show ?thesis using assms(1-3) by (simp add: initializeRedis_def Let_def)
next
  case False
  have "join_with [44] ps \<noteq> []"
    using False assms(5) by (cases ps; cases "tl ps") (auto simp: storable_def)
  moreover have "split_on 44 (join_with [44] ps) = ps"
    using False assms(5) by (intro split_on_join) (auto simp: storable_def)
  ultimately show ?thesis using assms(1-3) custom_restored_step [where acc = "[]" and ps = ps] assms(4,5) by (simp add: initializeRedis_def Let_def)
qed

text \<open>
  Custom patterns survive a restart when no pattern is empty, has a comma or has whitespace at its ends: after a
  pattern that passes the safety check is added, a new manager that reads the store has exactly the
  patterns of the old one, in their order.
\<close>

theorem custom_patterns_survive_restart:
  assumes "se_redis_error E = None" "su_redis st" "se_unsafe E pattern = None" "distinct (su_custom st)"
    "\<forall>p \<in> set (pattern # su_custom st). storable p" "addPattern E pattern True st = (Inr (), after)"
    "su_stored fresh = su_stored after" "su_custom fresh = []"
  shows "su_custom (snd (initializeRedis E fresh)) = su_custom after \<and> su_custom after = set_add pattern (su_custom st)"
proof -
  have after: "su_custom after = set_add pattern (su_custom st)" "su_stored after = Some (join_with [44] (su_custom after))"
    using assms(1-3,6)
    by (auto simp: addPattern_def sus_then_def store_custom_def sendPatternEvent_def Let_def split: if_splits)
  have "distinct (su_custom after)" "\<forall>p \<in> set (su_custom after). storable p"
    using assms(4,5) by (auto simp: after(1) set_add_def)
  then show ?thesis using restored_custom [OF assms(1) _ assms(8), of "su_custom after"] assms(7) after by simp
qed

lemma restore_adds:
  "x \<in> set (fold (\<lambda>p custom. if trim_js p \<noteq> [] then set_add (trim_js p) custom else custom) ps acc) \<longleftrightarrow>
   x \<in> set acc \<or> (\<exists>p \<in> set ps. trim_js p = x \<and> x \<noteq> [])"
  by (induction ps arbitrary: acc) (auto simp: set_add_def)

lemma those_None: "x \<in> set xs \<Longrightarrow> f x = None \<Longrightarrow> those (map f xs) = None"
  by (induction xs) (auto split: option.splits)

text \<open>
  What the store holds is not checked. If a piece of the stored text does not compile, then after the
  start every detection of every value fails with a syntax error and leaves the state as it is; the
  safety check of added patterns does not apply to restored ones.
\<close>

theorem stored_pattern_can_stop_detection:
  assumes "se_redis_error E = None" "su_stored st = Some cached" "p \<in> set (split_on 44 cached)" "trim_js p \<noteq> []"
    "compilePythonPattern (se_regexp E) (trim_js p) True = None"
  shows "detect E content ip ctx correlation skipped (snd (initializeRedis E st)) =
    (Inl syntax_error, snd (initializeRedis E st))"
proof -
  have "cached \<noteq> []" using assms(3,4) by (auto simp: trim_js_def)
  then have "trim_js p \<in> set (su_custom (snd (initializeRedis E st)))"
    using assms(1-4) restore_adds [of "trim_js p" "split_on 44 cached" "su_custom st"]
    by (auto simp: initializeRedis_def Let_def)
  then have "all_patterns E (su_custom (snd (initializeRedis E st))) = None"
    using those_None [of "trim_js p" _ "custom_pattern E"] assms(5) by (simp add: all_patterns_def custom_pattern_def)
  then show ?thesis
    by (simp add: detect_def Let_def sus_then_def collect_evidence_def checkRegexPatterns_def)
qed

subsection \<open>The states of a manager\<close>



















subsection \<open>Detections of the small engine\<close>

definition small_env2 :: "unit sus_env" where
  "small_env2 = (small_env 1)\<lparr>se_regexp := (\<lambda>s i. if s = [60] then Some (cp_re bracket) else None)\<rparr>"

lemma plain_bracket:
  "normalizeUnicode (se_pp (small_env t)) [60] = [60]" "url_stage [60] = ([60], [])" "htmlUnescape [60] = [60]"
  "decodeHexEscapes [60] = [60]" "decodeUnicodeEscapes [60] = [60]" "decodeLdapHexEscapes [60] = [60]"
  "decodePercentUEscapes [60] = [60]" "stripSqlComments [60] = [60]"
  "removeExcessiveWhitespace (removeNullBytes [60]) = [60]" "truncateSafely (se_pp (small_env t)) [60] = [60]"
proof -
  show "normalizeUnicode (se_pp (small_env t)) [60] = [60]"
    by (simp add: small_env_def normalizeUnicode_def LOOKALIKES_def replace_char_def)
  show "url_stage [60] = ([60], [])" by (simp add: url_stage_def pyUnquote_def)
  show "htmlUnescape [60] = [60]" by (simp add: htmlUnescape_def)
  show "decodeHexEscapes [60] = [60]" unfolding decodeHexEscapes_def by (rule replace_none) (simp add: escape_match_def)
  show "decodeUnicodeEscapes [60] = [60]" unfolding decodeUnicodeEscapes_def by (rule replace_none) (simp add: escape_match_def)
  show "decodeLdapHexEscapes [60] = [60]" unfolding decodeLdapHexEscapes_def by (rule replace_none) (simp add: escape_match_def)
  show "decodePercentUEscapes [60] = [60]" unfolding decodePercentUEscapes_def by (rule replace_none) (simp add: escape_match_def)
  show "stripSqlComments [60] = [60]" by code_simp
  show "removeExcessiveWhitespace (removeNullBytes [60]) = [60]" by code_simp
  show "truncateSafely (se_pp (small_env t)) [60] = [60]" by (simp add: truncateSafely_def small_env_def)
qed

lemma plain_overlong: "decodeOverlongUtf8PercentRuns [60] = [60]"
proof -
  have "overlong_match p (60 # t) = None" for p t by (cases t; cases "tl t") (simp_all add: overlong_match_def)
  then show ?thesis unfolding decodeOverlongUtf8PercentRuns_def by (intro replace_none) auto
qed

lemma plain_base64: "decodeBase64Candidates g [60] n = ([60], n)"
proof -
  have "base64_search None [60] = None" by code_simp
  then show ?thesis by (simp add: decodeBase64Candidates_def utf16_text_def utf16_def)
qed

lemma small_processed: "processed_text (small_env t) [60] = [60]"
proof -
  have "decode_round (se_pp (small_env t)) (start_decoding [60]) = start_decoding [60]"
    by (simp add: decode_round_def start_decoding_def plain_bracket plain_overlong plain_base64)
  then have "decode_loop (se_pp (small_env t)) maxDecodeIterations (start_decoding [60]) = (start_decoding [60], False)"
    by (simp add: maxDecodeIterations_def numeral_eq_Suc)
  then show ?thesis
    by (simp add: processed_text_def preprocessWithDecoded_def decodeCommonEncodings_def plain_bracket start_decoding_def Let_def)
qed

lemma small2:
  "\<not> se_workers_enabled small_env2" "all_patterns small_env2 (su_custom small_state) = Some [table_pattern bracket_entry]"
  "getCompiledPatterns (se_regexp small_env2)
     [\<lparr>te_source = [60], te_contexts = KNOWN_CONTEXTS, te_category = text_of ''xss''\<rparr>] = Some (se_compiled small_env2)"
  "applies small_env2 UNKNOWN (Some False) None (table_pattern bracket_entry)"
  "processed_text small_env2 [60] = [60]"
  "scan_job small_env2 [60] UNKNOWN (table_pattern bracket_entry) = Some (bracket_threat 0)"
  "weights_ok (se_tables small_env2)" "se_threshold small_env2 = 1"
  "resolvePatternWeight (se_tables small_env2) source = 1"
proof -
  show "\<not> se_workers_enabled small_env2" "se_threshold small_env2 = 1" "weights_ok (se_tables small_env2)"
    "resolvePatternWeight (se_tables small_env2) source = 1"
    by (simp_all add: small_env2_def small_env_def bare_tables_def weights_ok_def resolvePatternWeight_def)
  show "all_patterns small_env2 (su_custom small_state) = Some [table_pattern bracket_entry]"
    by (simp add: all_patterns_def small_env2_def small_env_def small_state_def)
  show "applies small_env2 UNKNOWN (Some False) None (table_pattern bracket_entry)"
    using small_applies [of 1 "Some False" None] by (simp add: applies_def excludedFromView_def small_env2_def)
  show "processed_text small_env2 [60] = [60]"
    using small_processed [of 1] by (simp add: processed_text_def small_env2_def)
  show "scan_job small_env2 [60] UNKNOWN (table_pattern bracket_entry) = Some (bracket_threat 0)"
    using small_job [of 1] by (simp add: scan_job_def small_env2_def)
  have "translateSource [60] True = ([60], True)" by code_simp
  moreover have "\<not> text_includes CASE_WRAPPER [60]" by code_simp
  ultimately show "getCompiledPatterns (se_regexp small_env2)
     [\<lparr>te_source = [60], te_contexts = KNOWN_CONTEXTS, te_category = text_of ''xss''\<rparr>] = Some (se_compiled small_env2)"
    by (simp add: getCompiledPatterns_def compileOnce_def compilePythonPattern_def small_env2_def small_env_def bracket_entry_def)
      (simp add: bracket_def)
qed


lemma small_detection:
  obtains r st' x where "detect small_env2 [60] [] UNKNOWN None [] small_state = (Inr r, st')"
    "x \<in> set (dr_threats r)" "rp_method x \<noteq> By_semantic"
proof -
  obtain main st1 ev semantic st' where d:
    "checkRegexPatterns small_env2 (processed_text small_env2 [60]) UNKNOWN (Some False) None small_state = (Inr main, st1)"
    "detect small_env2 [60] [] UNKNOWN None [] small_state =
       (Inr (conclude (se_threshold small_env2) [] UNKNOWN None (countCodePoints [60])
               (countCodePoints (processed_text small_env2 [60])) ev semantic), st')"
    "set (pr_threats main) \<subseteq> set (pr_threats ev)"
    by (rule detect_done [OF small2(1,2)])
  obtain t where "t \<in> set (pr_threats main)"
    using found_or_timed_out [where content = "[60]", OF small2(1,2) _ _ small2(4) small_in_pool small2(6)] d(1) small2(5) by auto
  then have "t \<in> set (pr_threats ev)" using d(3) by blast
  then show ?thesis
    using that [OF d(2), of "report_regex (normalizeContext UNKNOWN) t"]
    by (simp add: conclude_def Let_def kept_regex_def) (simp add: report_regex_def)
qed

theorem reports_are_explained_witness:
  "\<exists>t. sourced small_env2 [table_pattern bracket_entry] [60] UNKNOWN t"
proof -
  obtain r st' x where "detect small_env2 [60] [] UNKNOWN None [] small_state = (Inr r, st')"
    "x \<in> set (dr_threats r)" "rp_method x \<noteq> By_semantic" by (rule small_detection)
  then show ?thesis using reports_are_explained [OF small2(1,2)] by blast
qed

theorem score_agrees_with_verdict_witness:
  "\<exists>r st'. detect small_env2 [60] [] UNKNOWN None [] small_state = (Inr r, st') \<and> 0 \<le> dr_score r \<and> dr_score r \<le> 1"
proof -
  obtain r st' x where r: "detect small_env2 [60] [] UNKNOWN None [] small_state = (Inr r, st')"
    "x \<in> set (dr_threats r)" "rp_method x \<noteq> By_semantic" by (rule small_detection)
  have "0 < se_threshold small_env2" "se_threshold small_env2 \<le> 1" by (simp_all add: small2(8))
  then show ?thesis using score_agrees_with_verdict [OF small2(1,2,7) _ _ r(1)] r(1) by blast
qed

definition registry_state :: "jtext list \<Rightarrow> jtext option \<Rightarrow> unit sus" where
  "registry_state custom stored = small_state\<lparr>su_custom := custom, su_redis := True, su_stored := stored\<rparr>"

theorem custom_patterns_survive_restart_witness:
  "su_custom (snd (initializeRedis small_env2 (registry_state [] (Some [97, 44, 98])))) = [[97], [98]]"
  using custom_patterns_survive_restart [where E = small_env2 and pattern = "[98]" and st = "registry_state [[97]] None" and
      fresh = "registry_state [] (Some [97, 44, 98])" and after = "registry_state [[97], [98]] (Some [97, 44, 98])"]
  by (simp add: registry_state_def small_state_def small_env2_def small_env_def storable_def trim_js_def js_space_def
      addPattern_def sus_then_def store_custom_def set_add_def sendPatternEvent_def Let_def)

theorem stored_pattern_can_stop_detection_witness:
  "fst (detect small_env2 [60] [] UNKNOWN None [] (snd (initializeRedis small_env2 (registry_state [] (Some [97, 44, 40]))))) =
   Inl syntax_error"
proof -
  have "translateSource [40] True = ([40], True)" by code_simp
  then have "compilePythonPattern (se_regexp small_env2) (trim_js [40]) True = None"
    by (simp add: compilePythonPattern_def small_env2_def trim_js_def js_space_def)
  then show ?thesis
    using stored_pattern_can_stop_detection [where E = small_env2 and st = "registry_state [] (Some [97, 44, 40])" and p = "[40]" and
        content = "[60]" and ip = "[]" and ctx = UNKNOWN and correlation = None and skipped = "[]"]
    by (simp add: registry_state_def small_env2_def small_env_def trim_js_def js_space_def)
qed


end
