(* ===== verification/Form_Scan.thy ===== *)
theory Form_Scan
  imports Binary_Content Pickle_Walk
begin

section \<open>Values of a request body (detection-engine/body-form-scan.ts)\<close>

text \<open>
  URL-encoded pairs and the parts of a multipart body, as the values the scan looks at. The scanner of
  multipart bodies goes from line to line; a place at the start of a line is the list of the lines from
  it on, so that a payload is a list of lines joined by line feeds. Parameters of a header are
  insertion-ordered maps in which the last value of a name stays. Header and parameter names are only
  compared with ASCII names, so lower-casing is that of ASCII.
\<close>

definition lower_text :: "jtext \<Rightarrow> jtext" where
  "lower_text s = map (\<lambda>u. if 65 \<le> u \<and> u \<le> 90 then u + 32 else u) s"

definition before :: "nat \<Rightarrow> jtext \<Rightarrow> jtext" where "before c s = takeWhile (\<lambda>u. u \<noteq> c) s"
definition behind :: "nat \<Rightarrow> jtext \<Rightarrow> jtext" where "behind c s = drop 1 (dropWhile (\<lambda>u. u \<noteq> c) s)"

subsection \<open>URL-encoded pairs\<close>

text \<open>The bytes of a run of escapes are decoded together; a decoder that is not fatal drops a byte order mark.\<close>

definition flush_run :: "nat list \<Rightarrow> jtext" where
  "flush_run run = (if run = [] then [] else utf16_text (text_decode_replacing run))"

function percent_loop :: "bool \<Rightarrow> nat list \<Rightarrow> jtext \<Rightarrow> jtext" where
  "percent_loop folds run [] = flush_run run"
| "percent_loop folds run (c # s) =
     (if folds \<and> c = 43 then flush_run run @ 32 # percent_loop folds [] s
      else
        (case (if c = 37 \<and> 2 \<le> length s then (hex_value (s ! 0), hex_value (s ! 1)) else (None, None)) of
           (Some a, Some b) \<Rightarrow> percent_loop folds (run @ [16 * a + b]) (drop 2 s)
         | _ \<Rightarrow> flush_run run @ c # percent_loop folds [] s))"
  by pat_completeness auto
termination by (relation "measure (\<lambda>(folds, run, s). length s)") auto

definition decodePercentRuns :: "jtext \<Rightarrow> jtext" where "decodePercentRuns s = percent_loop False [] s"

definition unquotePlus :: "jtext \<Rightarrow> jtext" where
  "unquotePlus s = (if 43 \<notin> set s \<and> 37 \<notin> set s then s else percent_loop True [] s)"

definition percentDecodeTolerant :: "jtext \<Rightarrow> jtext" where
  "percentDecodeTolerant s = (if 37 \<notin> set s then s else decodePercentRuns s)"

definition form_pair :: "jtext \<Rightarrow> jtext \<times> jtext" where
  "form_pair chunk =
     (if 61 \<in> set chunk then (unquotePlus (before 61 chunk), unquotePlus (behind 61 chunk)) else (unquotePlus chunk, unquotePlus []))"

definition parseFormPairs :: "jtext \<Rightarrow> (jtext \<times> jtext) list" where
  "parseFormPairs rawBody = map form_pair (filter (\<lambda>chunk. chunk \<noteq> []) (split_on 38 rawBody))"

subsection \<open>Header parameters\<close>

definition cons_first :: "nat \<Rightarrow> jtext list \<Rightarrow> jtext list" where
  "cons_first c items = (case items of [] \<Rightarrow> [[c]] | p # ps \<Rightarrow> (c # p) # ps)"

fun split_params :: "bool \<Rightarrow> bool \<Rightarrow> jtext \<Rightarrow> jtext list" where
  "split_params inQuotes escaped [] = [[]]"
| "split_params inQuotes escaped (c # s) =
     (if escaped then cons_first c (split_params inQuotes False s)
      else if c = 92 \<and> inQuotes then cons_first c (split_params inQuotes True s)
      else if c = 34 then cons_first c (split_params (\<not> inQuotes) False s)
      else if c = 59 \<and> \<not> inQuotes then [] # split_params inQuotes False s
      else cons_first c (split_params inQuotes False s))"

definition splitHeaderParams :: "jtext \<Rightarrow> jtext list" where
  "splitHeaderParams v = split_params False False v"

fun unescape_quoted :: "jtext \<Rightarrow> jtext" where
  "unescape_quoted [] = []"
| "unescape_quoted [c] = [c]"
| "unescape_quoted (c # d # s) =
     (if c = 92 \<and> (d = 34 \<or> d = 92) then d # unescape_quoted s else c # unescape_quoted (d # s))"

definition unquoteHeaderParam :: "jtext \<Rightarrow> jtext" where
  "unquoteHeaderParam v =
     (if length v < 2 \<or> hd v \<noteq> 34 \<or> last v \<noteq> 34 then v else unescape_quoted (butlast (tl v)))"

type_synonym params = "(jtext, jtext) omap"

definition splitParamPiece :: "jtext \<Rightarrow> (jtext \<times> jtext) option" where
  "splitParamPiece piece =
     (if 61 \<notin> set piece then None
      else Some (lower_text (trim_js (before 61 piece)), unquoteHeaderParam (trim_js (behind 61 piece))))"

definition add_param :: "jtext \<Rightarrow> params \<Rightarrow> params" where
  "add_param piece ps = (case splitParamPiece piece of Some (n, v) \<Rightarrow> AList.update n v ps | None \<Rightarrow> ps)"

definition parseMediaTypeParams :: "jtext \<Rightarrow> jtext \<times> params" where
  "parseMediaTypeParams v =
     (case splitHeaderParams v of
        [] \<Rightarrow> ([], [])
      | piece # items \<Rightarrow> (lower_text (trim_js piece), fold add_param items []))"

definition parseHeaderParams :: "jtext \<Rightarrow> jtext \<times> params" where
  "parseHeaderParams v =
     (case splitHeaderParams v of [] \<Rightarrow> ([], []) | piece # items \<Rightarrow> (trim_js piece, fold add_param items []))"

subsection \<open>Names of a part\<close>

record mime_header =
  mh_name :: jtext
  mh_value :: jtext

record multipart_part =
  mp_headers :: "mime_header list"
  mp_payload :: jtext

definition firstHeaderValue :: "mime_header list \<Rightarrow> jtext \<Rightarrow> jtext option" where
  "firstHeaderValue headers lowerName =
     map_option mh_value (List.find (\<lambda>h. lower_text (mh_name h) = lowerName) headers)"

definition disposition_params :: "multipart_part \<Rightarrow> params option" where
  "disposition_params part =
     map_option (\<lambda>v. snd (parseHeaderParams v)) (firstHeaderValue (mp_headers part) (text_of ''content-disposition''))"

definition partDispositionParam :: "multipart_part \<Rightarrow> jtext \<Rightarrow> jtext option" where
  "partDispositionParam part param = Option.bind (disposition_params part) (\<lambda>ps. map_of ps param)"

text \<open>The segments from the \<open>i\<close>-th on; each takes another parameter, so there are no more than parameters.\<close>

fun rfc2231_segments :: "params \<Rightarrow> jtext \<Rightarrow> nat \<Rightarrow> nat \<Rightarrow> jtext list" where
  "rfc2231_segments ps base i 0 = []"
| "rfc2231_segments ps base i (Suc fuel) =
     (case map_of ps (base @ 42 # text_of (show_nat i) @ [42]) of
        None \<Rightarrow> []
      | Some v \<Rightarrow> v # rfc2231_segments ps base (Suc i) fuel)"

definition mergeRFC2231Segments :: "params \<Rightarrow> jtext \<Rightarrow> jtext option" where
  "mergeRFC2231Segments ps base =
     (case rfc2231_segments ps base 0 (length ps) of [] \<Rightarrow> None | segs \<Rightarrow> Some (concat segs))"

definition decodeRFC2231Value :: "jtext \<Rightarrow> jtext" where
  "decodeRFC2231Value v =
     percentDecodeTolerant (if 39 \<in> set v \<and> 39 \<in> set (behind 39 v) then behind 39 (behind 39 v) else v)"

definition partRFC2231Filename :: "multipart_part \<Rightarrow> jtext option" where
  "partRFC2231Filename part =
     (case disposition_params part of
        None \<Rightarrow> None
      | Some ps \<Rightarrow>
          (case map_of ps (text_of ''filename*'') of
             Some v \<Rightarrow> Some (decodeRFC2231Value v)
           | None \<Rightarrow> map_option decodeRFC2231Value (mergeRFC2231Segments ps (text_of ''filename''))))"

subsection \<open>The line scanner\<close>

definition is_padding :: "nat \<Rightarrow> bool" where "is_padding u \<longleftrightarrow> u = 32 \<or> u = 9"

definition strip_cr :: "jtext \<Rightarrow> jtext" where
  "strip_cr s = (if s \<noteq> [] \<and> last s = 13 then butlast s else s)"

definition trimCRAndPadding :: "jtext \<Rightarrow> jtext" where
  "trimCRAndPadding line = rev (dropWhile is_padding (rev (strip_cr line)))"

definition line_break :: "jtext \<Rightarrow> jtext" where
  "line_break raw = (if ends_with [13] raw then [13, 10] else [10])"

text \<open>The headers, the line that already belongs to the payload (one without a colon), the lines behind.\<close>

fun read_headers :: "jtext list \<Rightarrow> mime_header list \<Rightarrow> mime_header list \<times> jtext list \<times> jtext list" where
  "read_headers [] hs = (hs, [], [])"
| "read_headers (raw # ls) hs =
     (let content = trimCRAndPadding raw
      in if content = [] then (hs, [], ls)
         else if hs \<noteq> [] \<and> is_padding (hd content)
         then read_headers ls (butlast hs @ [(last hs)\<lparr>mh_value := mh_value (last hs) @ line_break raw @ content\<rparr>])
         else if 58 \<notin> set content then (hs, [raw], ls)
         else read_headers ls (hs @ [\<lparr>mh_name = before 58 content, mh_value = dropWhile is_padding (behind 58 content)\<rparr>]))"

text \<open>The payload, the lines behind the boundary line, whether there was one and whether it was final.\<close>

fun read_payload :: "jtext \<Rightarrow> jtext list \<Rightarrow> jtext list \<Rightarrow> jtext \<times> jtext list \<times> bool \<times> bool" where
  "read_payload delim acc [] = (join_with [10] acc, [], False, False)"
| "read_payload delim acc (raw # ls) =
     (let content = trimCRAndPadding raw; isFinal = starts_with (delim @ [45, 45]) content
      in if content = delim \<or> isFinal then (strip_cr (join_with [10] acc), ls, True, isFinal)
         else read_payload delim (acc @ [raw]) ls)"

definition readPart :: "jtext \<Rightarrow> jtext list \<Rightarrow> multipart_part \<times> jtext list \<times> bool \<times> bool" where
  "readPart delim ls =
     (case read_headers ls [] of
        (hs, start, rest) \<Rightarrow>
          (case read_payload delim start rest of
             (payload, behind_lines, ended, wasFinal) \<Rightarrow>
               (\<lparr>mp_headers = hs, mp_payload = payload\<rparr>, behind_lines, ended, wasFinal)))"

fun skip_preamble :: "jtext \<Rightarrow> jtext list \<Rightarrow> jtext list" where
  "skip_preamble delim [] = []"
| "skip_preamble delim (raw # ls) =
     (let bare = trimCRAndPadding raw
      in if bare = delim then ls else if starts_with (delim @ [45, 45]) bare then [] else skip_preamble delim ls)"

lemma read_headers_shorter: "read_headers ls hs = (hs', start, rest) \<Longrightarrow> length rest \<le> length ls - min 1 (length ls)"
  by (induction ls hs arbitrary: hs' start rest rule: read_headers.induct)
    (fastforce simp: Let_def split: if_splits)+

lemma read_payload_shorter: "read_payload delim acc ls = (p, rest, c, f) \<Longrightarrow> length rest \<le> length ls"
  by (induction ls arbitrary: acc) (fastforce simp: Let_def split: if_splits)+

lemma readPart_shorter: "readPart delim (l # ls) = (part, rest, c, f) \<Longrightarrow> length rest \<le> length ls"
  using read_headers_shorter [of "l # ls" "[]"] read_payload_shorter
  by (fastforce simp: readPart_def split: prod.splits)

function part_loop :: "jtext \<Rightarrow> jtext list \<Rightarrow> multipart_part list" where
  "part_loop delim [] = []"
| "part_loop delim (l # ls) =
     (case readPart delim (l # ls) of
        (part, rest, ended, wasFinal) \<Rightarrow> part # (if \<not> ended \<or> wasFinal then [] else part_loop delim rest))"
  by pat_completeness auto
termination
  by (relation "measure (\<lambda>(delim, ls). length ls)")
    (auto simp: less_Suc_eq_le intro: readPart_shorter dest!: sym [of _ "readPart _ _"])

definition raw_parts :: "jtext \<Rightarrow> jtext \<Rightarrow> multipart_part list" where
  "raw_parts body boundary = part_loop ([45, 45] @ boundary) (skip_preamble ([45, 45] @ boundary) (split_on 10 body))"

text \<open>A payload is shorter than its body, so containers nest finitely deep.\<close>

definition line_total :: "jtext list \<Rightarrow> nat" where "line_total ls = sum_list (map (\<lambda>l. Suc (length l)) ls)"

lemma line_total_simps [simp]:
  "line_total [] = 0" "line_total (l # ls) = Suc (length l) + line_total ls" "line_total (as @ bs) = line_total as + line_total bs"
  by (simp_all add: line_total_def)

lemma line_total_split: "line_total (split_on d s) = Suc (length s)"
  by (induction s) (auto split: list.splits)

lemma length_join_lines: "length (join_with [10] ls) \<le> line_total ls"
  by (induction "[10 :: nat]" ls rule: join_with.induct) auto

lemma length_trimmed: "length (trimCRAndPadding raw) \<le> length raw"
  using length_dropWhile_le [of is_padding "rev (strip_cr raw)"] by (auto simp: trimCRAndPadding_def strip_cr_def)

lemma length_strip_cr: "length (strip_cr s) \<le> length s"
  by (simp add: strip_cr_def)

lemma preamble_total:
  "skip_preamble delim ls = [] \<or> line_total (skip_preamble delim ls) + Suc (length delim) \<le> line_total ls"
proof (induction ls)
  case (Cons raw ls)
  then show ?case using length_trimmed [of raw] by (auto simp: Let_def)
qed simp

lemma headers_total: "read_headers ls hs = (hs', start, rest) \<Longrightarrow> line_total start + line_total rest \<le> line_total ls"
  by (induction ls hs arbitrary: hs' start rest rule: read_headers.induct) (fastforce simp: Let_def split: if_splits)+

lemma payload_total:
  "read_payload delim acc ls = (p, rest, c, f) \<Longrightarrow>
   length p \<le> line_total acc + line_total ls \<and> line_total rest \<le> line_total ls"
proof (induction ls arbitrary: acc)
  case Nil
  then show ?case using length_join_lines [of acc] by simp
next
  case (Cons raw ls)
  show ?case
  proof (cases "trimCRAndPadding raw = delim \<or> starts_with (delim @ [45, 45]) (trimCRAndPadding raw)")
    case True
    then have "p = strip_cr (join_with [10] acc)" "rest = ls" using Cons.prems by (auto simp: Let_def)
    then show ?thesis using length_strip_cr [of "join_with [10] acc"] length_join_lines [of acc] by simp
  next
    case False
    then have "read_payload delim (acc @ [raw]) ls = (p, rest, c, f)" using Cons.prems by (simp add: Let_def)
    from Cons.IH [OF this] show ?thesis by simp
  qed
qed

lemma part_total:
  assumes "readPart delim ls = (part, rest, c, f)"
  shows "length (mp_payload part) \<le> line_total ls \<and> line_total rest \<le> line_total ls"
proof -
  obtain hs start lines where h: "read_headers ls [] = (hs, start, lines)" by (cases "read_headers ls []") auto
  obtain p where p: "read_payload delim start lines = (p, rest, c, f)" "mp_payload part = p"
    using assms h by (auto simp: readPart_def split: prod.splits)
  show ?thesis using headers_total [OF h] payload_total [OF p(1)] p(2) by simp
qed

lemma parts_total: "part \<in> set (part_loop delim ls) \<Longrightarrow> length (mp_payload part) \<le> line_total ls"
proof (induction delim ls rule: part_loop.induct)
  case (2 delim l ls)
  obtain first rest c f where r: "readPart delim (l # ls) = (first, rest, c, f)" by (cases "readPart delim (l # ls)") auto
  note bound = part_total [OF r]
  have "part = first \<or> part \<in> set (part_loop delim rest) \<and> \<not> (\<not> c \<or> f)" using 2(2) r by (auto split: if_splits)
  then show ?case
  proof
    assume "part = first"
    then show ?thesis using bound by simp
  next
    assume p: "part \<in> set (part_loop delim rest) \<and> \<not> (\<not> c \<or> f)"
    then have "length (mp_payload part) \<le> line_total rest"
      using 2(1) [OF r [symmetric]] by blast
    then show ?thesis using bound by linarith
  qed
qed simp

lemma raw_payload_shorter: "part \<in> set (raw_parts body boundary) \<Longrightarrow> length (mp_payload part) < length body"
  using preamble_total [of "[45, 45] @ boundary" "split_on 10 body"] parts_total [of part "[45, 45] @ boundary"]
  by (fastforce simp: raw_parts_def line_total_split)

definition maintypeIsMultipart :: "jtext \<Rightarrow> bool" where
  "maintypeIsMultipart contentType \<longleftrightarrow> before 47 contentType = text_of ''multipart''"

text \<open>The boundary of a part that is a container.\<close>

definition container_boundary :: "multipart_part \<Rightarrow> jtext option" where
  "container_boundary part =
     (case parseMediaTypeParams
             (case firstHeaderValue (mp_headers part) (text_of ''content-type'') of Some v \<Rightarrow> v | None \<Rightarrow> []) of
        (mainType, ps) \<Rightarrow>
          if maintypeIsMultipart mainType
          then (case map_of ps (text_of ''boundary'') of Some b \<Rightarrow> if b \<noteq> [] then Some b else None | None \<Rightarrow> None)
          else None)"

function parseMultipartLevel :: "jtext \<Rightarrow> jtext \<Rightarrow> multipart_part list" where
  "parseMultipartLevel body boundary =
     concat (map (\<lambda>part. case container_boundary part of
         Some b \<Rightarrow> parseMultipartLevel (mp_payload part) b
       | None \<Rightarrow> [part]) (raw_parts body boundary))"
  by pat_completeness auto
termination by (relation "measure (\<lambda>(body, boundary). length body)") (auto intro: raw_payload_shorter)

declare parseMultipartLevel.simps [simp del]

definition parseMultipartParts :: "jtext \<Rightarrow> jtext \<Rightarrow> multipart_part list" where
  "parseMultipartParts body boundary = (if boundary = [] then [] else parseMultipartLevel body boundary)"

subsection \<open>The entries of a part\<close>

record part_entry =
  en_label :: jtext
  en_exclusion :: "jtext option"
  en_value :: jtext

definition MULTIPART_FILE_LABEL :: jtext where "MULTIPART_FILE_LABEL = text_of ''file''"

definition partPayloadEntries :: "jtext option \<Rightarrow> jtext \<Rightarrow> int \<Rightarrow> jtext list" where
  "partPayloadEntries filename payload minRunLength =
     (if filename \<noteq> None \<and> valueIsBinaryLike payload then extractBinaryIslands payload minRunLength
      else if payload = [] then [] else [payload])"

definition part_filename :: "multipart_part \<Rightarrow> jtext option" where
  "part_filename part =
     (case partDispositionParam part (text_of ''filename'') of Some f \<Rightarrow> Some f | None \<Rightarrow> partRFC2231Filename part)"

definition filename_value :: "jtext \<Rightarrow> jtext" where
  "filename_value f = text_of ''filename='' @ 34 # filter (\<lambda>u. u \<noteq> 34 \<and> u \<noteq> 39) f @ [34]"

definition multipartPartEntries :: "multipart_part \<Rightarrow> int \<Rightarrow> part_entry list" where
  "multipartPartEntries part minRunLength =
     (let name = partDispositionParam part (text_of ''name'');
          filename = part_filename part;
          label = (case name of Some n \<Rightarrow> n | None \<Rightarrow> MULTIPART_FILE_LABEL);
          vals = (case filename of Some f \<Rightarrow> [filename_value f] | None \<Rightarrow> []) @
            map (\<lambda>h. mh_name h @ text_of '': '' @ mh_value h) (mp_headers part) @
            partPayloadEntries filename (mp_payload part) minRunLength
      in map (\<lambda>v. \<lparr>en_label = label, en_exclusion = name, en_value = v\<rparr>) vals)"

subsection \<open>Pairs come back\<close>

definition form_escape :: "nat \<Rightarrow> jtext" where
  "form_escape c = (if c = 32 then [43] else if c \<in> {37, 38, 43, 61} then 37 # hex2 c else [c])"

definition form_encode :: "jtext \<Rightarrow> jtext" where "form_encode s = concat (map form_escape s)"

definition ascii :: "jtext \<Rightarrow> bool" where "ascii s \<longleftrightarrow> (\<forall>c \<in> set s. c < 128)"

lemma utf8_replacing_ascii: "ascii s \<Longrightarrow> utf8_replacing s = s"
  by (induction s) (auto simp: ascii_def utf8_first_def)

lemma flush_ascii: "ascii run \<Longrightarrow> flush_run run = run"
proof -
  assume a: "ascii run"
  then have "\<not> starts_with [0xEF, 0xBB, 0xBF] run" by (cases run) (auto simp: ascii_def starts_with_def)
  moreover have "utf16_text run = run" using a by (induction run) (auto simp: utf16_text_def utf16_def ascii_def)
  ultimately show ?thesis using utf8_replacing_ascii [OF a] by (simp add: flush_run_def text_decode_replacing_def)
qed

lemma loop_encoded: "ascii run \<Longrightarrow> ascii s \<Longrightarrow> percent_loop True run (form_encode s) = run @ s"
proof (induction s arbitrary: run)
  case Nil
  then show ?case by (simp add: form_encode_def flush_ascii)
next
  case (Cons c s)
  then have c: "c < 128" "ascii s" by (auto simp: ascii_def)
  have more: "percent_loop True [] (form_encode s) = s" using Cons.IH [of "[]"] c by (simp add: ascii_def)
  show ?case
  proof (cases "c \<in> {37, 38, 43, 61}")
    case True
    have "ascii (run @ [c])" using Cons.prems c by (auto simp: ascii_def)
    from Cons.IH [OF this c(2)] show ?thesis using True
      by (auto simp: form_encode_def form_escape_def hex2_def hex_digit_value mult.commute)
  next
    case False
    then show ?thesis using more Cons.prems(1) by (auto simp: form_encode_def form_escape_def flush_ascii)
  qed
qed

lemma loop_plain: "43 \<notin> set s \<Longrightarrow> 37 \<notin> set s \<Longrightarrow> percent_loop True [] s = s"
  by (induction s) (auto simp: flush_run_def)

lemma unquote_encoded: "ascii s \<Longrightarrow> unquotePlus (form_encode s) = s"
proof -
  assume "ascii s"
  then have loop: "percent_loop True [] (form_encode s) = s" using loop_encoded [of "[]" s] by (simp add: ascii_def)
  show ?thesis
  proof (cases "43 \<notin> set (form_encode s) \<and> 37 \<notin> set (form_encode s)")
    case True
    then have "form_encode s = s" using loop_plain [of "form_encode s"] loop by metis
    then show ?thesis using True by (simp add: unquotePlus_def)
  next
    case False
    then show ?thesis unfolding unquotePlus_def loop by (simp only: if_False)
  qed
qed

lemma escape_chars: "38 \<notin> set (form_escape c)" "61 \<notin> set (form_escape c)"
proof -
  consider "c = 37" | "c = 38" | "c = 43" | "c = 61" | "c \<notin> {37, 38, 43, 61}" by blast
  then have "38 \<notin> set (form_escape c) \<and> 61 \<notin> set (form_escape c)"
    by cases (simp_all add: form_escape_def hex2_def hex_digit_def)
  then show "38 \<notin> set (form_escape c)" "61 \<notin> set (form_escape c)" by simp_all
qed

lemma encoded_chars: "c \<in> set (form_encode s) \<Longrightarrow> c \<noteq> 38 \<and> c \<noteq> 61"
  using escape_chars by (fastforce simp: form_encode_def)

definition encode_pairs :: "(jtext \<times> jtext) list \<Rightarrow> jtext" where
  "encode_pairs ps = join_with [38] (map (\<lambda>(n, v). form_encode n @ 61 # form_encode v) ps)"

lemma cut_at: "c \<notin> set x \<Longrightarrow> before c (x @ c # y) = x \<and> behind c (x @ c # y) = y"
  by (induction x) (auto simp: before_def behind_def)

text \<open>
  No field of a form is lost or changed: a list of names and values in ASCII, encoded as browsers do (a
  space as a plus, the delimiters as percent escapes) and joined by ampersands, is parsed back to the
  same list, whatever the texts are, empty names, empty values and repeated names included.
\<close>

theorem form_pairs_roundtrip:
  assumes "\<forall>(n, v) \<in> set ps. ascii n \<and> ascii v"
  shows "parseFormPairs (encode_pairs ps) = ps"
proof (cases "ps = []")
  case True then show ?thesis by (simp add: encode_pairs_def parseFormPairs_def)
next
  case False
  let ?chunk = "\<lambda>(n, v). form_encode n @ 61 # form_encode v"
  have "split_on 38 (encode_pairs ps) = map ?chunk ps"
    unfolding encode_pairs_def using False encoded_chars by (intro split_on_join) fastforce+
  moreover have "filter (\<lambda>c. c \<noteq> []) (map ?chunk ps) = map ?chunk ps" by (auto intro: filter_True)
  moreover have "form_pair (?chunk p) = p" if "p \<in> set ps" for p
  proof -
    obtain n v where p: "p = (n, v)" "ascii n" "ascii v" using assms \<open>p \<in> set ps\<close> by (cases p) auto
    have "61 \<notin> set (form_encode n)" using encoded_chars by blast
    from cut_at [OF this, of "form_encode v"] show ?thesis using p by (simp add: form_pair_def unquote_encoded)
  qed
  ultimately show ?thesis by (simp add: parseFormPairs_def map_idI)
qed

theorem form_pairs_roundtrip_witness:
  "parseFormPairs (encode_pairs [([97], [60, 38, 32, 43]), ([], [])]) = [([97], [60, 38, 32, 43]), ([], [])]"
  by (rule form_pairs_roundtrip) (simp add: ascii_def)

subsection \<open>Parts come back\<close>

text \<open>A body as clients write it: lines end in CRLF, a blank line ends the headers of a part.\<close>

definition delimiter :: "jtext \<Rightarrow> jtext" where "delimiter boundary = [45, 45] @ boundary"

definition header_line :: "mime_header \<Rightarrow> jtext" where "header_line h = mh_name h @ [58, 32] @ mh_value h @ [13]"

definition inner_lines :: "multipart_part \<Rightarrow> jtext list" where
  "inner_lines part = map header_line (mp_headers part) @ [13] # split_on 10 (mp_payload part @ [13])"

definition multipart_lines :: "jtext \<Rightarrow> multipart_part list \<Rightarrow> jtext list" where
  "multipart_lines delim parts = concat (map (\<lambda>p. (delim @ [13]) # inner_lines p) parts) @ [delim @ [45, 45, 13]]"

definition multipart_body :: "jtext \<Rightarrow> jtext list \<Rightarrow> multipart_part list \<Rightarrow> jtext list \<Rightarrow> jtext" where
  "multipart_body boundary preamble parts epilogue =
     join_with [10] (preamble @ multipart_lines (delimiter boundary) parts @ epilogue)"

text \<open>The lines that end a payload.\<close>

definition boundary_line :: "jtext \<Rightarrow> jtext \<Rightarrow> bool" where
  "boundary_line delim raw \<longleftrightarrow> trimCRAndPadding raw = delim \<or> starts_with (delim @ [45, 45]) (trimCRAndPadding raw)"

definition plain_boundary :: "jtext \<Rightarrow> bool" where
  "plain_boundary b \<longleftrightarrow> b \<noteq> [] \<and> 10 \<notin> set b \<and> 13 \<notin> set b \<and> \<not> is_padding (last b)"

definition plain_header :: "mime_header \<Rightarrow> bool" where
  "plain_header h \<longleftrightarrow>
     mh_name h \<noteq> [] \<and> 58 \<notin> set (mh_name h) \<and> 10 \<notin> set (mh_name h) \<and> \<not> is_padding (hd (mh_name h)) \<and>
     10 \<notin> set (mh_value h) \<and> (mh_value h \<noteq> [] \<longrightarrow> \<not> is_padding (hd (mh_value h)) \<and> \<not> is_padding (last (mh_value h)))"

definition plain_part :: "jtext \<Rightarrow> multipart_part \<Rightarrow> bool" where
  "plain_part delim part \<longleftrightarrow>
     (\<forall>h \<in> set (mp_headers part). plain_header h) \<and>
     (\<forall>l \<in> set (split_on 10 (mp_payload part @ [13])). \<not> boundary_line delim l)"

lemma strip_cr_end [simp]: "strip_cr (s @ [13]) = s"
  by (simp add: strip_cr_def)

lemma join_split_on: "join_with [d] (split_on d s) = s"
proof (induction s)
  case (Cons c s)
  obtain x ys where xs: "split_on d s = x # ys" using split_on_not_Nil [of d s] by (meson list.exhaust)
  show ?case using Cons xs by (cases ys) auto
qed simp

lemma trim_crlf: "s \<noteq> [] \<Longrightarrow> \<not> is_padding (last s) \<Longrightarrow> trimCRAndPadding (s @ [13]) = s"
proof -
  assume s: "s \<noteq> []" "\<not> is_padding (last s)"
  then obtain c r where r: "rev s = c # r" by (cases "rev s") auto
  then have "s = rev r @ [c]" by (metis rev_eq_Cons_iff)
  then show ?thesis using s by (simp add: trimCRAndPadding_def strip_cr_def butlast_append)
qed

lemma trim_spaces: "\<not> is_padding c \<Longrightarrow> trimCRAndPadding (s @ [c, 32, 13]) = s @ [c]"
  by (simp add: trimCRAndPadding_def strip_cr_def is_padding_def butlast_append)

lemma header_line_trimmed:
  assumes "plain_header h"
  shows "trimCRAndPadding (header_line h) = mh_name h @ 58 # (if mh_value h = [] then [] else 32 # mh_value h)"
proof (cases "mh_value h = []")
  case True
  then show ?thesis using trim_spaces [of 58 "mh_name h"] by (simp add: header_line_def is_padding_def)
next
  case False
  then show ?thesis using assms trim_crlf [of "mh_name h @ [58, 32] @ mh_value h"]
    by (simp add: header_line_def plain_header_def)
qed

lemma headers_step:
  assumes "plain_header h"
  shows "read_headers (header_line h # ls) hs = read_headers ls (hs @ [h])"
proof -
  let ?content = "mh_name h @ 58 # (if mh_value h = [] then [] else 32 # mh_value h)"
  have name: "58 \<notin> set (mh_name h)" "mh_name h \<noteq> []" "\<not> is_padding (hd (mh_name h))"
    using assms by (simp_all add: plain_header_def)
  have "hd ?content = hd (mh_name h)" using name by simp
  moreover have "dropWhile is_padding (if mh_value h = [] then [] else 32 # mh_value h) = mh_value h"
    using assms by (cases "mh_value h") (auto simp: plain_header_def is_padding_def)
  ultimately have "read_headers (header_line h # ls) hs =
      read_headers ls (hs @ [\<lparr>mh_name = mh_name h, mh_value = mh_value h\<rparr>])"
    using name cut_at [of 58 "mh_name h" "if mh_value h = [] then [] else 32 # mh_value h"]
    by (simp add: header_line_trimmed [OF assms] Let_def)
  also have "\<lparr>mh_name = mh_name h, mh_value = mh_value h\<rparr> = h" by simp
  finally show ?thesis .
qed

lemma headers_read:
  "\<forall>h \<in> set hs. plain_header h \<Longrightarrow> read_headers (map header_line hs @ [13] # ls) acc = (acc @ hs, [], ls)"
proof (induction hs arbitrary: acc)
  case Nil
  then show ?case by (simp add: trimCRAndPadding_def strip_cr_def)
next
  case (Cons h hs)
  then show ?case using headers_step [of h "map header_line hs @ [13] # ls" acc] by (simp del: read_headers.simps)
qed

lemma payload_read:
  "\<forall>l \<in> set ls. \<not> boundary_line delim l \<Longrightarrow> boundary_line delim raw \<Longrightarrow>
   read_payload delim acc (ls @ raw # rest) =
     (strip_cr (join_with [10] (acc @ ls)), rest, True, starts_with (delim @ [45, 45]) (trimCRAndPadding raw))"
  by (induction ls arbitrary: acc) (auto simp: boundary_line_def Let_def)

lemma part_read:
  assumes "plain_part delim part" "boundary_line delim raw"
  shows "readPart delim (inner_lines part @ raw # rest) =
    (part, rest, True, starts_with (delim @ [45, 45]) (trimCRAndPadding raw))"
proof -
  let ?ls = "split_on 10 (mp_payload part @ [13])"
  have "strip_cr (join_with [10] ?ls) = mp_payload part" by (simp add: join_split_on strip_cr_def)
  moreover have "read_headers (inner_lines part @ raw # rest) [] = (mp_headers part, [], ?ls @ raw # rest)"
    using headers_read [of "mp_headers part" "?ls @ raw # rest" "[]"] assms by (simp add: inner_lines_def plain_part_def)
  moreover have "\<forall>l \<in> set ?ls. \<not> boundary_line delim l" using assms by (simp add: plain_part_def)
  ultimately show ?thesis using payload_read [of ?ls delim raw "[]" rest] assms(2) by (simp add: readPart_def)
qed

lemma part_loop_step:
  "ls \<noteq> [] \<Longrightarrow> part_loop delim ls =
     (case readPart delim ls of
        (part, rest, ended, wasFinal) \<Rightarrow> part # (if \<not> ended \<or> wasFinal then [] else part_loop delim rest))"
  by (cases ls) simp_all

lemma preamble_skipped:
  "\<forall>l \<in> set pre. \<not> boundary_line delim l \<Longrightarrow> skip_preamble delim (pre @ ls) = skip_preamble delim ls"
  by (induction pre) (auto simp: boundary_line_def Let_def)

lemma delimiter_trimmed:
  assumes "plain_boundary b"
  shows "trimCRAndPadding (delimiter b @ [13]) = delimiter b" "trimCRAndPadding (delimiter b @ [45, 45, 13]) = delimiter b @ [45, 45]"
proof -
  show "trimCRAndPadding (delimiter b @ [13]) = delimiter b"
    using assms trim_crlf [of "delimiter b"] by (simp add: delimiter_def plain_boundary_def)
  show "trimCRAndPadding (delimiter b @ [45, 45, 13]) = delimiter b @ [45, 45]"
    using trim_crlf [of "delimiter b @ [45, 45]"] by (simp add: is_padding_def)
qed

lemma starts_with_self [simp]: "starts_with s s"
  by (simp add: starts_with_def)

lemma not_final: "\<not> starts_with (delim @ [45, 45]) delim"
  by (auto simp: starts_with_iff)

lemma parts_read:
  assumes "plain_boundary b"
  shows "\<forall>p \<in> set (part # parts). plain_part (delimiter b) p \<Longrightarrow>
    part_loop (delimiter b)
      (inner_lines part @ concat (map (\<lambda>p. (delimiter b @ [13]) # inner_lines p) parts) @ (delimiter b @ [45, 45, 13]) # epilogue) =
    part # parts"
proof (induction parts arbitrary: part)
  case Nil
  have "boundary_line (delimiter b) (delimiter b @ [45, 45, 13])" by (simp add: boundary_line_def delimiter_trimmed [OF assms])
  then show ?case
    using Nil part_read [of "delimiter b" part "delimiter b @ [45, 45, 13]" epilogue]
    by (simp add: part_loop_step inner_lines_def delimiter_trimmed [OF assms])
next
  case (Cons p parts)
  let ?rest = "inner_lines p @ concat (map (\<lambda>p. (delimiter b @ [13]) # inner_lines p) parts) @ (delimiter b @ [45, 45, 13]) # epilogue"
  have "boundary_line (delimiter b) (delimiter b @ [13])" by (simp add: boundary_line_def delimiter_trimmed [OF assms])
  then have read: "readPart (delimiter b) (inner_lines part @ (delimiter b @ [13]) # ?rest) = (part, ?rest, True, False)"
    using Cons.prems part_read [of "delimiter b" part "delimiter b @ [13]" ?rest]
    by (simp add: delimiter_trimmed [OF assms] not_final)
  have "part_loop (delimiter b) ?rest = p # parts" using Cons.IH [of p] Cons.prems by simp
  then show ?case
    using part_loop_step [of "inner_lines part @ (delimiter b @ [13]) # ?rest" "delimiter b"] read by simp
qed

lemma lines_without_breaks:
  assumes "plain_boundary b" "\<forall>p \<in> set parts. plain_part (delimiter b) p"
  shows "\<forall>l \<in> set (multipart_lines (delimiter b) parts). 10 \<notin> set l"
proof -
  have "10 \<notin> set (delimiter b)" using assms(1) by (simp add: delimiter_def plain_boundary_def)
  moreover have "\<forall>l \<in> set (inner_lines p). 10 \<notin> set l" if "p \<in> set parts" for p
    using assms(2) that split_on_no_sep [of _ 10 "mp_payload p @ [13]"]
    by (auto simp: inner_lines_def plain_part_def header_line_def plain_header_def)
  ultimately show ?thesis by (auto simp: multipart_lines_def)
qed

definition plain_body :: "jtext \<Rightarrow> jtext list \<Rightarrow> multipart_part list \<Rightarrow> jtext list \<Rightarrow> bool" where
  "plain_body b preamble parts epilogue \<longleftrightarrow>
     plain_boundary b \<and> (\<forall>p \<in> set parts. plain_part (delimiter b) p) \<and>
     (\<forall>l \<in> set preamble. 10 \<notin> set l \<and> \<not> boundary_line (delimiter b) l) \<and> (\<forall>l \<in> set epilogue. 10 \<notin> set l)"

lemma raw_parts_back:
  assumes "plain_body b preamble parts epilogue"
  shows "raw_parts (multipart_body b preamble parts epilogue) b = parts"
proof -
  let ?delim = "delimiter b"
  have b: "plain_boundary b" "\<forall>p \<in> set parts. plain_part ?delim p" using assms by (simp_all add: plain_body_def)
  have "split_on 10 (multipart_body b preamble parts epilogue) = preamble @ multipart_lines ?delim parts @ epilogue"
    unfolding multipart_body_def
    by (rule split_on_join) (use assms lines_without_breaks [OF b] in \<open>auto simp: multipart_lines_def plain_body_def\<close>)
  then have raw: "raw_parts (multipart_body b preamble parts epilogue) b =
      part_loop ?delim (skip_preamble ?delim (multipart_lines ?delim parts @ epilogue))"
    using assms preamble_skipped [of preamble ?delim] by (simp add: raw_parts_def delimiter_def plain_body_def)
  show ?thesis
  proof (cases parts)
    case Nil
    have "?delim @ [45, 45] \<noteq> ?delim" by simp
    then show ?thesis using raw Nil by (simp add: multipart_lines_def delimiter_trimmed [OF b(1)] Let_def)
  next
    case (Cons p ps)
    then show ?thesis using raw b parts_read [OF b(1), of p ps epilogue]
      by (simp add: multipart_lines_def delimiter_trimmed [OF b(1)] Let_def)
  qed
qed

lemma scan_of_parts:
  assumes "plain_body b preamble parts epilogue"
  shows "parseMultipartParts (multipart_body b preamble parts epilogue) b =
    concat (map (\<lambda>part. case container_boundary part of Some c \<Rightarrow> parseMultipartLevel (mp_payload part) c | None \<Rightarrow> [part]) parts)"
proof -
  have "b \<noteq> []" using assms by (simp add: plain_body_def plain_boundary_def)
  then show ?thesis
    by (simp add: parseMultipartParts_def parseMultipartLevel.simps [of _ b] raw_parts_back [OF assms])
qed

text \<open>
  C16: what a client puts into a multipart body is what the scan gets: a body written the usual way around a
  list of leaf parts, between any preamble and any epilogue, is parsed back to the same parts, with the
  names, the values and the order of their headers and with every unit of their payloads, line feeds,
  carriage returns and colons included.
\<close>

theorem multipart_parts_roundtrip:
  assumes "plain_body b preamble parts epilogue" "\<forall>p \<in> set parts. container_boundary p = None"
  shows "parseMultipartParts (multipart_body b preamble parts epilogue) b = parts"
proof -
  have "concat (map (\<lambda>part. case container_boundary part of Some c \<Rightarrow> parseMultipartLevel (mp_payload part) c | None \<Rightarrow> [part]) parts) = parts"
    using assms(2) by (induction parts) simp_all
  then show ?thesis by (simp add: scan_of_parts [OF assms(1)])
qed

lemma no_boundary_no_parts:
  assumes "\<forall>l \<in> set (split_on 10 body). \<not> boundary_line (delimiter c) l"
  shows "parseMultipartLevel body c = []"
  using preamble_skipped [OF assms, of "[]"]
  by (simp add: parseMultipartLevel.simps [of body c] raw_parts_def delimiter_def)

text \<open>
  A part that calls itself a container hides its content from the scan: if its Content-Type is multipart
  with a boundary that does not occur among the lines of its payload, then neither its payload nor its
  headers are in the result, which is that of the body without the part. As long as the body has another
  part there is no fall-back to the whole text either.
\<close>

theorem hidden_container_is_not_scanned:
  assumes "plain_body b preamble (xs @ part # ys) epilogue" "container_boundary part = Some c"
    and "\<forall>l \<in> set (split_on 10 (mp_payload part)). \<not> boundary_line (delimiter c) l"
  shows "parseMultipartParts (multipart_body b preamble (xs @ part # ys) epilogue) b =
    parseMultipartParts (multipart_body b preamble (xs @ ys) epilogue) b"
proof -
  have rest: "plain_body b preamble (xs @ ys) epilogue" using assms(1) by (simp add: plain_body_def)
  show ?thesis using scan_of_parts [OF assms(1)] scan_of_parts [OF rest] no_boundary_no_parts [OF assms(3)] assms(2) by simp
qed

definition sample_field :: multipart_part where
  "sample_field = \<lparr>mp_headers = [\<lparr>mh_name = text_of ''Content-Disposition'', mh_value = text_of ''form-data; name=a''\<rparr>],
     mp_payload = [120, 13, 10, 121]\<rparr>"

definition sample_container :: multipart_part where
  "sample_container = \<lparr>mp_headers = [\<lparr>mh_name = text_of ''Content-Type'', mh_value = text_of ''multipart/mixed; boundary=z''\<rparr>],
     mp_payload = text_of ''<script>''\<rparr>"

lemmas sample_parts =
  sample_field_def sample_container_def text_of_def plain_body_def plain_boundary_def plain_part_def plain_header_def
  boundary_line_def delimiter_def is_padding_def trimCRAndPadding_def strip_cr_def

lemma sample_boundaries:
  "container_boundary sample_field = None" "container_boundary sample_container = Some [122]"
  by code_simp+

theorem multipart_parts_roundtrip_witness:
  "parseMultipartParts (multipart_body [98] [[112]] [sample_field, sample_field] [[101]]) [98] = [sample_field, sample_field]"
  by (rule multipart_parts_roundtrip) (simp add: sample_parts, simp add: sample_boundaries)

theorem hidden_container_is_not_scanned_witness:
  "parseMultipartParts (multipart_body [98] [] ([sample_field] @ sample_container # []) []) [98] =
   parseMultipartParts (multipart_body [98] [] ([sample_field] @ []) []) [98]"
  by (rule hidden_container_is_not_scanned [where c = "[122]"]) (simp add: sample_parts, rule sample_boundaries, simp add: sample_parts)

end
