(* ===== verification/Worker_Pool.thy ===== *)
theory Worker_Pool
  imports Pattern_Scan
begin

section \<open>The worker threads of the scan (detection-engine/scan-worker-pool.ts)\<close>

text \<open>
  The opt-in pool that runs a pattern on a worker thread and terminates the worker when the deadline
  passes. Slots are objects that outlive their place in the pool, since a scan keeps the slot it was
  started on, so they live in a heap and the pool is a list of addresses; a slot and its worker are one,
  and the index \<open>-1\<close> of the array, which an assignment can create, is a field of its own. Everything that
  can happen between two turns of the event loop is an action; a scan that is under way is racing against
  its deadline, answered but not yet resumed, or late, waiting for the end of its worker.
\<close>

subsection \<open>Candidates\<close>

definition MAX_CANDIDATES_PER_SCAN :: nat where "MAX_CANDIDATES_PER_SCAN = 64"

record regex_candidate =
  rc_text :: jtext
  rc_index :: nat
  rc_groups :: "jtext list"

text \<open>Messages as the structured clone of JavaScript carries them; numbers are the naturals of an index.\<close>

datatype message =
    M_null
  | M_bool bool
  | M_number nat
  | M_text jtext
  | M_array "message list"
  | M_object "(jtext \<times> message) list"

fun member_of :: "message \<Rightarrow> jtext \<Rightarrow> message option" where
  "member_of (M_object kvs) name = map_of kvs name"
| "member_of _ name = None"

fun text_values :: "message list \<Rightarrow> jtext list" where
  "text_values [] = []"
| "text_values (M_text t # ms) = t # text_values ms"
| "text_values (_ # ms) = text_values ms"

definition read_candidate :: "message \<Rightarrow> regex_candidate option" where
  "read_candidate m =
     (case (member_of m (text_of ''text''), member_of m (text_of ''index''), member_of m (text_of ''groups'')) of
        (Some (M_text t), Some (M_number i), Some (M_array gs)) \<Rightarrow>
          Some \<lparr>rc_text = t, rc_index = i, rc_groups = text_values gs\<rparr>
      | _ \<Rightarrow> None)"

definition extractCandidates :: "message \<Rightarrow> regex_candidate list option" where
  "extractCandidates m =
     (case member_of m (text_of ''candidates'') of
        Some (M_array cs) \<Rightarrow> Some (List.map_filter read_candidate cs)
      | _ \<Rightarrow> None)"

text \<open>The waiter of a scan: an error of the worker is no answer.\<close>

definition answer_of :: "message \<Rightarrow> regex_candidate list option" where
  "answer_of m = (if member_of m (text_of ''workerError'') \<noteq> None then None else extractCandidates m)"

definition worker_error :: "jtext \<Rightarrow> message" where
  "worker_error reason = M_object [(text_of ''workerError'', M_text reason)]"

text \<open>The groups of a candidate start with the whole match. What the worker does with a task: the matches from the left, until the batch is full.\<close>

fun worker_loop :: "regex \<Rightarrow> jtext \<Rightarrow> nat \<Rightarrow> nat \<Rightarrow> rx_match list" where
  "worker_loop re s i 0 = []"
| "worker_loop re s i (Suc room) =
     (case exec_from re s i of
        None \<Rightarrow> []
      | Some m \<Rightarrow> m # worker_loop re s (if mt_text m = [] then Suc (match_end m) else match_end m) room)"

definition candidate_message :: "rx_match \<Rightarrow> message" where
  "candidate_message m =
     M_object [(text_of ''text'', M_text (mt_text m)), (text_of ''index'', M_number (mt_index m)),
               (text_of ''groups'', M_array (map M_text (mt_text m # mt_groups m)))]"

definition workerScript :: "regex option \<Rightarrow> jtext \<Rightarrow> message" where
  "workerScript re content =
     M_object [(text_of ''candidates'',
       M_array (case re of
         Some r \<Rightarrow> map candidate_message (worker_loop r content 0 MAX_CANDIDATES_PER_SCAN)
       | None \<Rightarrow> []))]"

definition execArrayFromCandidate :: "jtext \<Rightarrow> regex_candidate \<Rightarrow> rx_match" where
  "execArrayFromCandidate content c =
     \<lparr>mt_text = (case rc_groups c of [] \<Rightarrow> [] | t # _ \<Rightarrow> t), mt_index = rc_index c, mt_groups = tl (rc_groups c), mt_input = content\<rparr>"

subsection \<open>The pool\<close>

definition WORKER_POOL_SIZE :: nat where "WORKER_POOL_SIZE = SCAN_POOL_SIZE"

record worker_slot =
  ws_busy :: bool
  ws_waiter :: "nat option"
  ws_alive :: bool

datatype worker_event = Worker_replaced (we_timeouts: nat) (we_at: rat) | Pool_replaced (we_timeouts: nat) (we_at: rat)

datatype scan_phase = Racing | Answered "regex_candidate list option" | Late

type_synonym dispatch_outcome = "regex_candidate list scan_outcome"

record worker_pool =
  wp_size :: nat
  wp_heap :: "worker_slot list"
  wp_slots :: "nat list"
  wp_minus_one :: "nat option"
  wp_queue :: "nat list"
  wp_flight :: "nat \<Rightarrow> (nat \<times> scan_phase) option"
  wp_tasks :: nat
  wp_resolved :: "(nat \<times> dispatch_outcome) list"
  wp_timeouts :: nat
  wp_drained :: bool
  wp_closing :: bool
  wp_events :: "worker_event list"
  wp_warnings :: "jtext list"

definition fresh_slot :: worker_slot where
  "fresh_slot = \<lparr>ws_busy = False, ws_waiter = None, ws_alive = True\<rparr>"

text \<open>New slots get the next addresses of the heap.\<close>

definition newSlots :: "nat \<Rightarrow> worker_pool \<Rightarrow> nat list \<times> worker_pool" where
  "newSlots n st = ([length (wp_heap st)..<length (wp_heap st) + n], st\<lparr>wp_heap := wp_heap st @ replicate n fresh_slot\<rparr>)"

definition init_workers :: "nat \<Rightarrow> worker_pool" where
  "init_workers n =
     \<lparr>wp_size = n, wp_heap = replicate n fresh_slot, wp_slots = [0..<n], wp_minus_one = None, wp_queue = [],
      wp_flight = Map.empty, wp_tasks = 0, wp_resolved = [], wp_timeouts = 0, wp_drained = False, wp_closing = False,
      wp_events = [], wp_warnings = []\<rparr>"

definition slot_update :: "nat \<Rightarrow> (worker_slot \<Rightarrow> worker_slot) \<Rightarrow> worker_pool \<Rightarrow> worker_pool" where
  "slot_update s f st = (if s < length (wp_heap st) then st\<lparr>wp_heap := (wp_heap st)[s := f (wp_heap st ! s)]\<rparr> else st)"

definition terminateQuietly :: "nat \<Rightarrow> worker_pool \<Rightarrow> worker_pool" where
  "terminateQuietly s = slot_update s (\<lambda>w. w\<lparr>ws_alive := False\<rparr>)"

definition resolve :: "nat \<Rightarrow> scan_status \<Rightarrow> regex_candidate list option \<Rightarrow> worker_pool \<Rightarrow> worker_pool" where
  "resolve d status v st =
     st\<lparr>wp_resolved := wp_resolved st @ [(d, \<lparr>so_status = status, so_value = v, so_elapsed = 0\<rparr>)]\<rparr>"

text \<open>The start of \<open>execute\<close>, up to the race.\<close>

definition start_scan :: "nat \<Rightarrow> nat \<Rightarrow> worker_pool \<Rightarrow> worker_pool" where
  "start_scan s d st =
     (slot_update s (\<lambda>w. w\<lparr>ws_busy := True, ws_waiter := Some d\<rparr>) st)\<lparr>wp_flight := (wp_flight st)(d \<mapsto> (s, Racing))\<rparr>"

definition idle_slot :: "worker_pool \<Rightarrow> nat option" where
  "idle_slot st = List.find (\<lambda>s. \<not> ws_busy (wp_heap st ! s)) (wp_slots st)"

fun pump_loop :: "nat list \<Rightarrow> worker_pool \<Rightarrow> worker_pool" where
  "pump_loop [] st = st\<lparr>wp_queue := []\<rparr>"
| "pump_loop (d # q) st =
     (case idle_slot st of None \<Rightarrow> st\<lparr>wp_queue := d # q\<rparr> | Some s \<Rightarrow> pump_loop q (start_scan s d st))"

definition pump :: "worker_pool \<Rightarrow> worker_pool" where "pump st = pump_loop (wp_queue st) st"

definition dispatch :: "worker_pool \<Rightarrow> worker_pool" where
  "dispatch st =
     (let d = wp_tasks st; st1 = st\<lparr>wp_tasks := Suc d\<rparr>
      in if wp_drained st then resolve d Failed None st1 else pump (st1\<lparr>wp_queue := wp_queue st @ [d]\<rparr>))"

text \<open>A message of a worker, or its error, goes to whoever is waiting.\<close>

definition deliver_message :: "nat \<Rightarrow> message \<Rightarrow> worker_pool \<Rightarrow> worker_pool" where
  "deliver_message s m st =
     (if s < length (wp_heap st) then
        let st1 = slot_update s (\<lambda>w. w\<lparr>ws_waiter := None\<rparr>) st
        in case ws_waiter (wp_heap st ! s) of
             None \<Rightarrow> st1
           | Some d \<Rightarrow>
               (case wp_flight st d of
                  Some (s', Racing) \<Rightarrow> st1\<lparr>wp_flight := (wp_flight st)(d \<mapsto> (s', Answered (answer_of m)))\<rparr>
                | _ \<Rightarrow> st1)
      else st)"

text \<open>The deadline of a scan fires; timers are never cancelled, so it also fires for scans that are over.\<close>

definition deadline_hit :: "nat \<Rightarrow> worker_pool \<Rightarrow> worker_pool" where
  "deadline_hit d st =
     (case wp_flight st d of
        None \<Rightarrow> st
      | Some (s, Late) \<Rightarrow> st
      | Some (s, _) \<Rightarrow> (terminateQuietly s st)\<lparr>wp_flight := (wp_flight st)(d \<mapsto> (s, Late))\<rparr>)"

definition reportSuccess_pool :: "worker_pool \<Rightarrow> worker_pool" where
  "reportSuccess_pool st = st\<lparr>wp_timeouts := 0\<rparr>"

definition pool_warning :: "nat \<Rightarrow> jtext" where
  "pool_warning n = text_of (''guard_core worker scan pool replaced after '' @ show_nat n @
     '' consecutive timeouts; a slow pattern may have permanently occupied all workers'')"

definition replaceWholePool :: "rat \<Rightarrow> worker_pool \<Rightarrow> worker_pool" where
  "replaceWholePool now st =
     (let st1 = fold terminateQuietly (wp_slots st) (st\<lparr>wp_slots := []\<rparr>)
      in case newSlots (wp_size st1) st1 of
           (ss, st2) \<Rightarrow> st2\<lparr>wp_slots := ss, wp_events := wp_events st2 @ [Pool_replaced (wp_size st2) now],
                            wp_warnings := wp_warnings st2 @ [pool_warning (wp_size st2)]\<rparr>)"

definition reportTimeout_pool :: "rat \<Rightarrow> worker_pool \<Rightarrow> bool \<times> worker_pool" where
  "reportTimeout_pool now st =
     (let n = Suc (wp_timeouts st)
      in if n < wp_size st then (False, st\<lparr>wp_timeouts := n\<rparr>)
         else (True, replaceWholePool now (st\<lparr>wp_timeouts := 0\<rparr>)))"

text \<open>An assignment at the index of a slot that is not in the pool sets the property \<open>-1\<close> of the array.\<close>

definition replaceSlot :: "rat \<Rightarrow> nat \<Rightarrow> worker_pool \<Rightarrow> worker_pool" where
  "replaceSlot now s st =
     (case newSlots 1 st of
        (ss, st1) \<Rightarrow>
          let st2 = (if s \<in> set (wp_slots st1)
                     then st1\<lparr>wp_slots := map (\<lambda>x. if x = s then hd ss else x) (wp_slots st1)\<rparr>
                     else st1\<lparr>wp_minus_one := Some (hd ss)\<rparr>)
          in st2\<lparr>wp_events := wp_events st2 @ [Worker_replaced (wp_timeouts st2) now]\<rparr>)"

definition timeout_warning :: "bool \<Rightarrow> jtext" where
  "timeout_warning replaced = text_of (''pattern scan deadline hit on the worker pool: worker terminated and replaced'' @
     (if replaced then ''; pool replaced after consecutive timeouts'' else []))"

text \<open>The end of \<open>execute\<close>: on the deadline path once the worker is gone, and with an answer.\<close>

definition worker_gone :: "rat \<Rightarrow> nat \<Rightarrow> worker_pool \<Rightarrow> worker_pool" where
  "worker_gone now d st =
     (case wp_flight st d of
        Some (s, Late) \<Rightarrow>
          (case reportTimeout_pool now (replaceSlot now s (st\<lparr>wp_flight := (wp_flight st)(d := None)\<rparr>)) of
             (replaced, st1) \<Rightarrow>
               resolve d TimedOut None (pump (st1\<lparr>wp_warnings := wp_warnings st1 @ [timeout_warning replaced]\<rparr>)))
      | _ \<Rightarrow> st)"

definition resume_answered :: "nat \<Rightarrow> worker_pool \<Rightarrow> worker_pool" where
  "resume_answered d st =
     (case wp_flight st d of
        Some (s, Answered a) \<Rightarrow>
          let st1 = (slot_update s (\<lambda>w. w\<lparr>ws_busy := False\<rparr>) st)\<lparr>wp_flight := (wp_flight st)(d := None)\<rparr>
          in pump (case a of
                     None \<Rightarrow> resolve d Failed None st1
                   | Some cs \<Rightarrow> resolve d Completed (Some cs) (reportSuccess_pool st1))
      | _ \<Rightarrow> st)"

text \<open>Closing: the slots are taken, the waiters released, the workers ended; then the queue is answered.\<close>

definition close_pool :: "worker_pool \<Rightarrow> worker_pool" where
  "close_pool st =
     (if wp_drained st then st
      else fold terminateQuietly (wp_slots st)
             (fold (\<lambda>s. deliver_message s (worker_error (text_of ''pool_closed''))) (wp_slots st)
                (st\<lparr>wp_drained := True, wp_closing := True, wp_slots := []\<rparr>)))"

definition closed_workers :: "worker_pool \<Rightarrow> worker_pool" where
  "closed_workers st =
     (if wp_closing st then fold (\<lambda>d. resolve d Failed None) (wp_queue st) (st\<lparr>wp_closing := False, wp_queue := []\<rparr>) else st)"

text \<open>What a caller of \<open>run\<close> gets; the callback gives \<open>None\<close> if it throws.\<close>

definition run_worker_scan :: "rat \<Rightarrow> (regex_candidate list \<Rightarrow> 'a option) \<Rightarrow> dispatch_outcome \<Rightarrow> 'a scan_outcome" where
  "run_worker_scan elapsed accept outcome =
     (case (so_status outcome, so_value outcome) of
        (Completed, Some cs) \<Rightarrow>
          (case accept cs of
             Some v \<Rightarrow> \<lparr>so_status = Completed, so_value = Some v, so_elapsed = elapsed\<rparr>
           | None \<Rightarrow> \<lparr>so_status = Failed, so_value = None, so_elapsed = elapsed\<rparr>)
      | (status, _) \<Rightarrow> \<lparr>so_status = status, so_value = None, so_elapsed = elapsed\<rparr>)"

text \<open>The pool is built if the runtime can start threads.\<close>

definition createWorkerScanPool :: "bool \<Rightarrow> nat option \<Rightarrow> worker_pool option" where
  "createWorkerScanPool can_spawn n =
     (if can_spawn then Some (init_workers (case n of Some k \<Rightarrow> k | None \<Rightarrow> WORKER_POOL_SIZE)) else None)"

subsection \<open>Actions\<close>

datatype pool_action =
    Dispatch
  | Message nat message
  | Deadline nat
  | Resume nat
  | Worker_gone rat nat
  | Close
  | Workers_closed

fun act :: "pool_action \<Rightarrow> worker_pool \<Rightarrow> worker_pool" where
  "act Dispatch st = dispatch st"
| "act (Message s m) st = deliver_message s m st"
| "act (Deadline d) st = deadline_hit d st"
| "act (Resume d) st = resume_answered d st"
| "act (Worker_gone now d) st = worker_gone now d st"
| "act Close st = close_pool st"
| "act Workers_closed st = closed_workers st"

inductive pool_reach :: "nat \<Rightarrow> worker_pool \<Rightarrow> bool" for n where
  start: "pool_reach n (init_workers n)"
| acted: "pool_reach n st \<Longrightarrow> pool_reach n (act a st)"

subsection \<open>What the operations leave alone\<close>

lemma slot_update_fields [simp]:
  "wp_size (slot_update s f st) = wp_size st" "wp_slots (slot_update s f st) = wp_slots st"
  "wp_minus_one (slot_update s f st) = wp_minus_one st" "wp_queue (slot_update s f st) = wp_queue st"
  "wp_flight (slot_update s f st) = wp_flight st" "wp_tasks (slot_update s f st) = wp_tasks st"
  "wp_resolved (slot_update s f st) = wp_resolved st" "wp_timeouts (slot_update s f st) = wp_timeouts st"
  "wp_drained (slot_update s f st) = wp_drained st" "wp_closing (slot_update s f st) = wp_closing st"
  "length (wp_heap (slot_update s f st)) = length (wp_heap st)"
  by (simp_all add: slot_update_def)

lemma slot_update_heap: "wp_heap (slot_update s f st) = (wp_heap st)[s := f (wp_heap st ! s)]"
  by (simp add: slot_update_def list_update_beyond)

lemma start_scan_fields [simp]:
  "wp_size (start_scan s d st) = wp_size st" "wp_slots (start_scan s d st) = wp_slots st"
  "wp_queue (start_scan s d st) = wp_queue st" "wp_flight (start_scan s d st) = (wp_flight st)(d \<mapsto> (s, Racing))"
  "wp_tasks (start_scan s d st) = wp_tasks st" "wp_resolved (start_scan s d st) = wp_resolved st"
  "wp_timeouts (start_scan s d st) = wp_timeouts st" "wp_drained (start_scan s d st) = wp_drained st"
  "wp_closing (start_scan s d st) = wp_closing st" "length (wp_heap (start_scan s d st)) = length (wp_heap st)"
  by (simp_all add: start_scan_def)

lemma pump_loop_fields [simp]:
  "wp_size (pump_loop q st) = wp_size st" "wp_slots (pump_loop q st) = wp_slots st"
  "wp_tasks (pump_loop q st) = wp_tasks st" "wp_resolved (pump_loop q st) = wp_resolved st"
  "wp_timeouts (pump_loop q st) = wp_timeouts st" "wp_drained (pump_loop q st) = wp_drained st"
  "wp_closing (pump_loop q st) = wp_closing st" "length (wp_heap (pump_loop q st)) = length (wp_heap st)"
  by (induction q st rule: pump_loop.induct) (auto split: option.splits)

lemma pump_fields [simp]:
  "wp_size (pump st) = wp_size st" "wp_slots (pump st) = wp_slots st" "wp_tasks (pump st) = wp_tasks st"
  "wp_resolved (pump st) = wp_resolved st" "wp_timeouts (pump st) = wp_timeouts st" "wp_drained (pump st) = wp_drained st"
  "wp_closing (pump st) = wp_closing st" "length (wp_heap (pump st)) = length (wp_heap st)"
  by (simp_all add: pump_def)

lemma resolve_fields [simp]:
  "wp_size (resolve d x v st) = wp_size st" "wp_slots (resolve d x v st) = wp_slots st" "wp_queue (resolve d x v st) = wp_queue st"
  "wp_flight (resolve d x v st) = wp_flight st" "wp_tasks (resolve d x v st) = wp_tasks st"
  "wp_timeouts (resolve d x v st) = wp_timeouts st" "wp_drained (resolve d x v st) = wp_drained st"
  "wp_closing (resolve d x v st) = wp_closing st" "wp_heap (resolve d x v st) = wp_heap st"
  "map fst (wp_resolved (resolve d x v st)) = map fst (wp_resolved st) @ [d]"
  by (simp_all add: resolve_def)

lemma terminate_all_fields [simp]:
  "wp_size (fold terminateQuietly ss st) = wp_size st" "wp_slots (fold terminateQuietly ss st) = wp_slots st"
  "wp_queue (fold terminateQuietly ss st) = wp_queue st" "wp_flight (fold terminateQuietly ss st) = wp_flight st"
  "wp_tasks (fold terminateQuietly ss st) = wp_tasks st" "wp_resolved (fold terminateQuietly ss st) = wp_resolved st"
  "wp_timeouts (fold terminateQuietly ss st) = wp_timeouts st" "wp_drained (fold terminateQuietly ss st) = wp_drained st"
  "wp_closing (fold terminateQuietly ss st) = wp_closing st" "wp_minus_one (fold terminateQuietly ss st) = wp_minus_one st"
  "length (wp_heap (fold terminateQuietly ss st)) = length (wp_heap st)"
  by (induction ss arbitrary: st) (simp_all add: terminateQuietly_def)

lemma terminate_all_heap:
  "s < length (wp_heap st) \<Longrightarrow>
   wp_heap (fold terminateQuietly ss st) ! s =
     (wp_heap st ! s)\<lparr>ws_alive := ws_alive (wp_heap st ! s) \<and> s \<notin> set ss\<rparr>"
proof (induction ss arbitrary: st)
  case (Cons a ss)
  have "wp_heap (terminateQuietly a st) ! s = (wp_heap st ! s)\<lparr>ws_alive := ws_alive (wp_heap st ! s) \<and> s \<noteq> a\<rparr>"
    using Cons.prems by (cases "a = s") (simp_all add: terminateQuietly_def slot_update_heap)
  moreover have "s < length (wp_heap (terminateQuietly a st))" using Cons.prems by (simp add: terminateQuietly_def)
  ultimately show ?case using Cons.IH [of "terminateQuietly a st"] by simp
qed simp

lemma replaceSlot_fields [simp]:
  "wp_size (replaceSlot now s st) = wp_size st" "wp_queue (replaceSlot now s st) = wp_queue st"
  "wp_flight (replaceSlot now s st) = wp_flight st" "wp_tasks (replaceSlot now s st) = wp_tasks st"
  "wp_resolved (replaceSlot now s st) = wp_resolved st" "wp_timeouts (replaceSlot now s st) = wp_timeouts st"
  "wp_drained (replaceSlot now s st) = wp_drained st" "wp_closing (replaceSlot now s st) = wp_closing st"
  "wp_heap (replaceSlot now s st) = wp_heap st @ [fresh_slot]"
  "wp_slots (replaceSlot now s st) = map (\<lambda>x. if x = s then length (wp_heap st) else x) (wp_slots st)"
  by (auto simp: replaceSlot_def newSlots_def Let_def intro: map_idI [symmetric])

lemma replaceWholePool_fields [simp]:
  "wp_size (replaceWholePool now st) = wp_size st" "wp_queue (replaceWholePool now st) = wp_queue st"
  "wp_flight (replaceWholePool now st) = wp_flight st" "wp_tasks (replaceWholePool now st) = wp_tasks st"
  "wp_resolved (replaceWholePool now st) = wp_resolved st" "wp_timeouts (replaceWholePool now st) = wp_timeouts st"
  "wp_drained (replaceWholePool now st) = wp_drained st" "wp_closing (replaceWholePool now st) = wp_closing st"
  "wp_slots (replaceWholePool now st) = [length (wp_heap st)..<length (wp_heap st) + wp_size st]"
  "wp_heap (replaceWholePool now st) =
     wp_heap (fold terminateQuietly (wp_slots st) (st\<lparr>wp_slots := []\<rparr>)) @ replicate (wp_size st) fresh_slot"
  by (simp_all add: replaceWholePool_def newSlots_def Let_def)

lemma reportTimeout_fields [simp]:
  "wp_size (snd (reportTimeout_pool now st)) = wp_size st" "wp_queue (snd (reportTimeout_pool now st)) = wp_queue st"
  "wp_flight (snd (reportTimeout_pool now st)) = wp_flight st" "wp_tasks (snd (reportTimeout_pool now st)) = wp_tasks st"
  "wp_resolved (snd (reportTimeout_pool now st)) = wp_resolved st" "wp_drained (snd (reportTimeout_pool now st)) = wp_drained st"
  "wp_closing (snd (reportTimeout_pool now st)) = wp_closing st"
  by (simp_all add: reportTimeout_pool_def Let_def)

lemma worker_gone_late:
  "wp_flight st d = Some (s, Late) \<Longrightarrow>
   \<exists>w. worker_gone now d st = resolve d TimedOut None (pump
     ((snd (reportTimeout_pool now (replaceSlot now s (st\<lparr>wp_flight := (wp_flight st)(d := None)\<rparr>))))\<lparr>wp_warnings := w\<rparr>))"
  by (auto simp: worker_gone_def split: prod.splits)

subsection \<open>Every scan is in one place\<close>

definition accounts :: "worker_pool \<Rightarrow> bool" where
  "accounts st \<longleftrightarrow>
     distinct (wp_queue st @ map fst (wp_resolved st)) \<and>
     dom (wp_flight st) \<inter> (set (wp_queue st) \<union> fst ` set (wp_resolved st)) = {} \<and>
     dom (wp_flight st) \<union> set (wp_queue st) \<union> fst ` set (wp_resolved st) = {..<wp_tasks st}"

lemma pump_loop_sets:
  "distinct q \<Longrightarrow> set q \<inter> dom (wp_flight st) = {} \<Longrightarrow>
   distinct (wp_queue (pump_loop q st)) \<and> set (wp_queue (pump_loop q st)) \<inter> dom (wp_flight (pump_loop q st)) = {} \<and>
   dom (wp_flight (pump_loop q st)) \<union> set (wp_queue (pump_loop q st)) = dom (wp_flight st) \<union> set q"
proof (induction q st rule: pump_loop.induct)
  case (2 d q st)
  show ?case
  proof (cases "idle_slot st")
    case None
    then show ?thesis using 2 by simp
  next
    case (Some s)
    have started: "dom (wp_flight (start_scan s d st)) = insert d (dom (wp_flight st))" by simp
    have "distinct q" "set q \<inter> dom (wp_flight (start_scan s d st)) = {}" using "2.prems" unfolding started by auto
    from "2.IH" [OF Some this] show ?thesis unfolding started using Some by simp
  qed
qed simp

lemma accounts_pump: "accounts st \<Longrightarrow> accounts (pump st)"
proof -
  assume a: "accounts st"
  then have "distinct (wp_queue st)" "set (wp_queue st) \<inter> dom (wp_flight st) = {}" by (auto simp: accounts_def)
  note sets = pump_loop_sets [OF this]
  let ?st = "pump_loop (wp_queue st) st"
  have "dom (wp_flight ?st) \<union> set (wp_queue ?st) = dom (wp_flight st) \<union> set (wp_queue st)" using sets by simp
  moreover have "fst ` set (wp_resolved st) \<inter> (dom (wp_flight st) \<union> set (wp_queue st)) = {}"
    using a by (auto simp: accounts_def)
  ultimately have "fst ` set (wp_resolved st) \<inter> dom (wp_flight ?st) = {}" "fst ` set (wp_resolved st) \<inter> set (wp_queue ?st) = {}"
    by blast+
  then show ?thesis
    using a sets unfolding accounts_def pump_def by (simp add: Int_Un_distrib Int_commute)
qed

lemma pump_resolve: "pump (resolve d x v st) = resolve d x v (pump st)"
proof -
  have "pump_loop q (resolve d x v st) = resolve d x v (pump_loop q st)" for q
  proof (induction q arbitrary: st)
    case Nil
    then show ?case by (simp add: resolve_def)
  next
    case (Cons e q)
    have "start_scan s e (resolve d x v st) = resolve d x v (start_scan s e st)" for s
      by (simp add: start_scan_def resolve_def slot_update_def)
    then show ?case using Cons by (auto simp: idle_slot_def split: option.splits) (simp_all add: resolve_def)
  qed
  then show ?thesis by (simp add: pump_def)
qed

lemma accounts_end:
  assumes "accounts st" "wp_flight st d \<noteq> None"
    "wp_queue st' = wp_queue st" "wp_flight st' = (wp_flight st)(d := None)" "wp_tasks st' = wp_tasks st" "wp_resolved st' = wp_resolved st"
  shows "accounts (pump (resolve d x v st'))"
proof -
  have "d \<in> dom (wp_flight st)" using assms(2) by blast
  then have "accounts (resolve d x v st')" using assms unfolding accounts_def by (auto simp: resolve_def)
  then show ?thesis by (rule accounts_pump)
qed

lemma accounts_same:
  assumes "accounts st" "wp_queue st' = wp_queue st" "dom (wp_flight st') = dom (wp_flight st)" "wp_tasks st' = wp_tasks st"
    "wp_resolved st' = wp_resolved st"
  shows "accounts st'"
  using assms by (simp add: accounts_def)

lemma deliver_fields [simp]:
  "wp_size (deliver_message s m st) = wp_size st" "wp_slots (deliver_message s m st) = wp_slots st"
  "wp_queue (deliver_message s m st) = wp_queue st" "wp_tasks (deliver_message s m st) = wp_tasks st"
  "wp_resolved (deliver_message s m st) = wp_resolved st" "wp_timeouts (deliver_message s m st) = wp_timeouts st"
  "wp_drained (deliver_message s m st) = wp_drained st" "wp_closing (deliver_message s m st) = wp_closing st"
  "length (wp_heap (deliver_message s m st)) = length (wp_heap st)"
  "dom (wp_flight (deliver_message s m st)) = dom (wp_flight st)"
  by (auto simp: deliver_message_def Let_def split: option.splits scan_phase.splits prod.splits)

lemma deliver_all_fields [simp]:
  "wp_size (fold (\<lambda>s. deliver_message s m) ss st) = wp_size st" "wp_slots (fold (\<lambda>s. deliver_message s m) ss st) = wp_slots st"
  "wp_queue (fold (\<lambda>s. deliver_message s m) ss st) = wp_queue st" "wp_tasks (fold (\<lambda>s. deliver_message s m) ss st) = wp_tasks st"
  "wp_resolved (fold (\<lambda>s. deliver_message s m) ss st) = wp_resolved st"
  "wp_timeouts (fold (\<lambda>s. deliver_message s m) ss st) = wp_timeouts st"
  "wp_drained (fold (\<lambda>s. deliver_message s m) ss st) = wp_drained st"
  "wp_closing (fold (\<lambda>s. deliver_message s m) ss st) = wp_closing st"
  "length (wp_heap (fold (\<lambda>s. deliver_message s m) ss st)) = length (wp_heap st)"
  "dom (wp_flight (fold (\<lambda>s. deliver_message s m) ss st)) = dom (wp_flight st)"
  by (induction ss arbitrary: st) simp_all

lemma fail_all:
  "wp_queue (fold (\<lambda>d. resolve d x v) ds st) = wp_queue st" "wp_flight (fold (\<lambda>d. resolve d x v) ds st) = wp_flight st"
  "wp_tasks (fold (\<lambda>d. resolve d x v) ds st) = wp_tasks st" "wp_size (fold (\<lambda>d. resolve d x v) ds st) = wp_size st"
  "wp_slots (fold (\<lambda>d. resolve d x v) ds st) = wp_slots st" "wp_heap (fold (\<lambda>d. resolve d x v) ds st) = wp_heap st"
  "wp_drained (fold (\<lambda>d. resolve d x v) ds st) = wp_drained st" "wp_closing (fold (\<lambda>d. resolve d x v) ds st) = wp_closing st"
  "wp_timeouts (fold (\<lambda>d. resolve d x v) ds st) = wp_timeouts st"
  "map fst (wp_resolved (fold (\<lambda>d. resolve d x v) ds st)) = map fst (wp_resolved st) @ ds"
  by (induction ds arbitrary: st) simp_all

lemma fst_resolved: "fst ` set rs = set (map fst rs)"
  by simp

lemma accounts_dispatch: "accounts st \<Longrightarrow> accounts (dispatch st)"
proof -
  assume st: "accounts st"
  let ?st1 = "st\<lparr>wp_tasks := Suc (wp_tasks st)\<rparr>"
  have "wp_tasks st \<notin> dom (wp_flight st) \<union> set (wp_queue st) \<union> fst ` set (wp_resolved st)" using st by (simp add: accounts_def)
  then have "accounts (resolve (wp_tasks st) Failed None ?st1)" "accounts (?st1\<lparr>wp_queue := wp_queue st @ [wp_tasks st]\<rparr>)"
    using st by (auto simp: accounts_def resolve_def lessThan_Suc)
  then show ?thesis using accounts_pump by (simp add: dispatch_def Let_def)
qed

lemma accounts_deadline: "accounts st \<Longrightarrow> accounts (deadline_hit d st)"
  by (erule accounts_same)
    (auto simp: deadline_hit_def terminateQuietly_def split: option.splits scan_phase.splits prod.splits)

lemma resume_idle: "\<nexists>s r. wp_flight st d = Some (s, Answered r) \<Longrightarrow> resume_answered d st = st"
  by (auto simp: resume_answered_def split: option.splits scan_phase.splits prod.splits)

lemma gone_idle: "\<nexists>s. wp_flight st d = Some (s, Late) \<Longrightarrow> worker_gone now d st = st"
  by (auto simp: worker_gone_def split: option.splits scan_phase.splits prod.splits)

lemma accounts_resume: "accounts st \<Longrightarrow> accounts (resume_answered d st)"
proof (cases "\<exists>s r. wp_flight st d = Some (s, Answered r)")
  case True
  then obtain s r where f: "wp_flight st d = Some (s, Answered r)" by blast
  let ?st1 = "(slot_update s (\<lambda>w. w\<lparr>ws_busy := False\<rparr>) st)\<lparr>wp_flight := (wp_flight st)(d := None)\<rparr>"
  assume st: "accounts st"
  show ?thesis
  proof (cases r)
    case None
    have "accounts (pump (resolve d Failed None ?st1))" by (rule accounts_end [OF st]) (simp_all add: f)
    then show ?thesis using f None by (simp add: resume_answered_def Let_def)
  next
    case (Some cs)
    have "accounts (pump (resolve d Completed (Some cs) (reportSuccess_pool ?st1)))"
      by (rule accounts_end [OF st]) (simp_all add: f reportSuccess_pool_def)
    then show ?thesis using f Some by (simp add: resume_answered_def Let_def)
  qed
qed (simp add: resume_idle)

lemma accounts_gone: "accounts st \<Longrightarrow> accounts (worker_gone now d st)"
proof (cases "\<exists>s. wp_flight st d = Some (s, Late)")
  case True
  then obtain s where f: "wp_flight st d = Some (s, Late)" by blast
  assume st: "accounts st"
  obtain w where w: "worker_gone now d st = resolve d TimedOut None (pump
     ((snd (reportTimeout_pool now (replaceSlot now s (st\<lparr>wp_flight := (wp_flight st)(d := None)\<rparr>))))\<lparr>wp_warnings := w\<rparr>))"
    using worker_gone_late [OF f] by blast
  show ?thesis unfolding w pump_resolve [symmetric] by (rule accounts_end [OF st]) (simp_all add: f)
qed (simp add: gone_idle)

lemma accounts_closed: "accounts st \<Longrightarrow> accounts (closed_workers st)"
proof (cases "wp_closing st")
  case True
  assume "accounts st"
  moreover have "set (map fst (wp_resolved (closed_workers st))) = set (map fst (wp_resolved st)) \<union> set (wp_queue st)"
    unfolding closed_workers_def using True by (simp only: if_True fail_all) simp
  ultimately show ?thesis
    unfolding accounts_def fst_resolved using True by (simp add: closed_workers_def fail_all) blast
qed (simp add: closed_workers_def)

lemma accounts_act: "accounts st \<Longrightarrow> accounts (act a st)"
  by (cases a)
    (simp_all add: accounts_dispatch accounts_deadline accounts_resume accounts_gone accounts_closed accounts_same close_pool_def)

subsection \<open>Slots and scans fit together\<close>

text \<open>
  A scan under way keeps its slot busy and has it alone; a busy slot of the pool has a scan, and a worker
  of the pool is alive unless its scan is late.
\<close>

definition slots_fit :: "nat list \<Rightarrow> worker_slot list \<Rightarrow> (nat \<Rightarrow> (nat \<times> scan_phase) option) \<Rightarrow> bool" where
  "slots_fit slots heap flight \<longleftrightarrow>
     distinct slots \<and> (\<forall>s \<in> set slots. s < length heap) \<and>
     (\<forall>d s ph. flight d = Some (s, ph) \<longrightarrow> s < length heap \<and> ws_busy (heap ! s)) \<and>
     (\<forall>d d' s ph ph'. flight d = Some (s, ph) \<longrightarrow> flight d' = Some (s, ph') \<longrightarrow> d = d') \<and>
     (\<forall>s \<in> set slots. ws_busy (heap ! s) \<longrightarrow> (\<exists>d ph. flight d = Some (s, ph))) \<and>
     (\<forall>s \<in> set slots. \<not> ws_alive (heap ! s) \<longrightarrow> (\<exists>d. flight d = Some (s, Late)))"

abbreviation fit :: "worker_pool \<Rightarrow> bool" where "fit st \<equiv> slots_fit (wp_slots st) (wp_heap st) (wp_flight st)"

lemma fitI:
  assumes "distinct slots" "\<And>s. s \<in> set slots \<Longrightarrow> s < length heap"
    "\<And>d s ph. flight d = Some (s, ph) \<Longrightarrow> s < length heap \<and> ws_busy (heap ! s)"
    "\<And>d d' s ph ph'. flight d = Some (s, ph) \<Longrightarrow> flight d' = Some (s, ph') \<Longrightarrow> d = d'"
    "\<And>s. s \<in> set slots \<Longrightarrow> ws_busy (heap ! s) \<Longrightarrow> \<exists>d ph. flight d = Some (s, ph)"
    "\<And>s. s \<in> set slots \<Longrightarrow> \<not> ws_alive (heap ! s) \<Longrightarrow> \<exists>d. flight d = Some (s, Late)"
  shows "slots_fit slots heap flight"
  using assms unfolding slots_fit_def by blast

lemma fitD:
  assumes "slots_fit slots heap flight"
  shows "distinct slots" "s \<in> set slots \<Longrightarrow> s < length heap" "flight d = Some (s, ph) \<Longrightarrow> s < length heap \<and> ws_busy (heap ! s)"
    "flight d = Some (s, ph) \<Longrightarrow> flight d' = Some (s, ph') \<Longrightarrow> d = d'"
    "s \<in> set slots \<Longrightarrow> ws_busy (heap ! s) \<Longrightarrow> \<exists>d ph. flight d = Some (s, ph)"
    "s \<in> set slots \<Longrightarrow> \<not> ws_alive (heap ! s) \<Longrightarrow> \<exists>d. flight d = Some (s, Late)"
  using assms unfolding slots_fit_def by blast+

lemma upd_other: "fl e = Some (x, p) \<Longrightarrow> \<forall>p. fl d \<noteq> Some (x, p) \<Longrightarrow> \<exists>e. (fl(d := v)) e = Some (x, p)"
  by (rule exI [of _ e]) auto

lemma fit_start:
  assumes "fit st" "s \<in> set (wp_slots st)" "\<not> ws_busy (wp_heap st ! s)" "wp_flight st d = None"
  shows "fit (start_scan s d st)"
proof -
  note D = fitD [OF assms(1)]
  have len: "s < length (wp_heap st)" using D(2) assms(2) by blast
  then have alive: "ws_alive (wp_heap st ! s)" using D(6) [OF assms(2)] D(3) assms(3) by blast
  have free: "wp_flight st e \<noteq> Some (s, ph)" for e ph using D(3) assms(3) by blast
  have at: "wp_heap (start_scan s d st) ! x = (if x = s then (wp_heap st ! s)\<lparr>ws_busy := True, ws_waiter := Some d\<rparr> else wp_heap st ! x)"
    for x using len by (simp add: start_scan_def slot_update_heap nth_list_update)
  show ?thesis
  proof (rule fitI)
    fix e x ph assume "wp_flight (start_scan s d st) e = Some (x, ph)"
    then show "x < length (wp_heap (start_scan s d st)) \<and> ws_busy (wp_heap (start_scan s d st) ! x)"
      using D(3) [of e x ph] len by (auto simp: at split: if_splits)
  next
    fix e e' x ph ph' assume "wp_flight (start_scan s d st) e = Some (x, ph)" "wp_flight (start_scan s d st) e' = Some (x, ph')"
    then show "e = e'" using D(4) [of e x ph e' ph'] free by (auto split: if_splits)
  next
    fix x assume "x \<in> set (wp_slots (start_scan s d st))" "ws_busy (wp_heap (start_scan s d st) ! x)"
    then show "\<exists>e ph. wp_flight (start_scan s d st) e = Some (x, ph)"
      using D(5) [of x] assms(4) upd_other [of "wp_flight st" _ x _ d] by (cases "x = s") (fastforce simp: at)+
  next
    fix x assume "x \<in> set (wp_slots (start_scan s d st))" "\<not> ws_alive (wp_heap (start_scan s d st) ! x)"
    then show "\<exists>e. wp_flight (start_scan s d st) e = Some (x, Late)"
      using D(6) [of x] assms(4) alive upd_other [of "wp_flight st" _ x Late d] by (cases "x = s") (fastforce simp: at)+
  qed (use D(1,2) in auto)
qed

lemma idle_slot_Some: "idle_slot st = Some s \<Longrightarrow> s \<in> set (wp_slots st) \<and> \<not> ws_busy (wp_heap st ! s)"
  by (auto simp: idle_slot_def find_Some_iff)

lemma idle_slot_None: "idle_slot st = None \<longleftrightarrow> (\<forall>s \<in> set (wp_slots st). ws_busy (wp_heap st ! s))"
  by (auto simp: idle_slot_def find_None_iff)

lemma fit_pump_loop: "fit st \<Longrightarrow> distinct q \<Longrightarrow> set q \<inter> dom (wp_flight st) = {} \<Longrightarrow> fit (pump_loop q st)"
proof (induction q st rule: pump_loop.induct)
  case (2 d q st)
  show ?case
  proof (cases "idle_slot st")
    case None
    then show ?thesis using 2 by simp
  next
    case (Some s)
    have "fit (start_scan s d st)" using fit_start [OF "2.prems"(1)] idle_slot_Some [OF Some] "2.prems"(3) by auto
    moreover have "set q \<inter> dom (wp_flight (start_scan s d st)) = {}" using "2.prems" by auto
    moreover have "distinct q" using "2.prems"(2) by simp
    ultimately have "fit (pump_loop q (start_scan s d st))" using "2.IH" [OF Some] by blast
    then show ?thesis using Some by simp
  qed
qed simp

lemma fit_pump: "accounts st \<Longrightarrow> fit st \<Longrightarrow> fit (pump st)"
  unfolding pump_def by (rule fit_pump_loop) (auto simp: accounts_def)

lemma pump_ready: "wp_queue (pump st) = [] \<or> idle_slot (pump st) = None"
proof -
  have "wp_queue (pump_loop q st) = [] \<or> idle_slot (pump_loop q st) = None" for q
    by (induction q st rule: pump_loop.induct) (auto simp: idle_slot_def split: option.splits)
  then show ?thesis by (simp add: pump_def)
qed

lemma fit_waiter:
  assumes "fit st" "\<And>e x ph. fl e = Some (x, ph) \<Longrightarrow> \<exists>ph'. wp_flight st e = Some (x, ph') \<and> (ph' = Late \<longrightarrow> ph = Late)"
    "dom fl = dom (wp_flight st)"
  shows "slots_fit (wp_slots st) (wp_heap (slot_update s (\<lambda>w. w\<lparr>ws_waiter := y\<rparr>) st)) fl"
proof -
  note D = fitD [OF assms(1)]
  let ?heap = "wp_heap (slot_update s (\<lambda>w. w\<lparr>ws_waiter := y\<rparr>) st)"
  have at: "ws_busy (?heap ! x) = ws_busy (wp_heap st ! x)" "ws_alive (?heap ! x) = ws_alive (wp_heap st ! x)" for x
    by (cases "s < length (wp_heap st)"; cases "x = s"; simp add: slot_update_heap list_update_beyond)+
  have held: "\<exists>ph. fl e = Some (x, ph) \<and> (ph' = Late \<longrightarrow> ph = Late)" if e: "wp_flight st e = Some (x, ph')" for e x ph'
  proof -
    from e assms(3) obtain z ph where z: "fl e = Some (z, ph)" by (metis domD domI surj_pair)
    from assms(2) [OF this] e show ?thesis using z by auto
  qed
  show ?thesis
  proof (rule fitI)
    show "distinct (wp_slots st)" by (rule D)
    show "x < length ?heap" if "x \<in> set (wp_slots st)" for x using D(2) that by simp
    show "x < length ?heap \<and> ws_busy (?heap ! x)" if "fl e = Some (x, ph)" for e x ph
      using assms(2) [OF that] D(3) at by auto
    show "e = e'" if "fl e = Some (x, ph)" "fl e' = Some (x, ph')" for e e' x ph ph'
      using assms(2) [OF that(1)] assms(2) [OF that(2)] D(4) by blast
    show "\<exists>e ph. fl e = Some (x, ph)" if "x \<in> set (wp_slots st)" "ws_busy (?heap ! x)" for x
      using D(5) [OF that(1)] that(2) at held by blast
    show "\<exists>e. fl e = Some (x, Late)" if "x \<in> set (wp_slots st)" "\<not> ws_alive (?heap ! x)" for x
      using D(6) [OF that(1)] that(2) at held by blast
  qed
qed

lemma fit_deliver: "fit st \<Longrightarrow> fit (deliver_message s m st)"
proof -
  assume st: "fit st"
  have same: "fit (slot_update s (\<lambda>w. w\<lparr>ws_waiter := None\<rparr>) st)" using fit_waiter [OF st, of "wp_flight st" s None] by simp
  have upd: "slots_fit (wp_slots st) (wp_heap (slot_update s (\<lambda>w. w\<lparr>ws_waiter := None\<rparr>) st)) ((wp_flight st)(d \<mapsto> (x, Answered r)))"
    if "wp_flight st d = Some (x, Racing)" for d x r
    by (rule fit_waiter [OF st]) (use that in \<open>auto split: if_splits\<close>)
  show ?thesis
    using st same upd by (auto simp: deliver_message_def Let_def split: option.splits scan_phase.splits prod.splits)
qed

lemma fit_deadline: "fit st \<Longrightarrow> fit (deadline_hit d st)"
proof (cases "\<exists>s ph. wp_flight st d = Some (s, ph) \<and> ph \<noteq> Late")
  case True
  assume "fit st"
  note D = fitD [OF this]
  from True obtain s ph where f: "wp_flight st d = Some (s, ph)" "ph \<noteq> Late" by blast
  have len: "s < length (wp_heap st)" using D(3) f by blast
  have hit: "deadline_hit d st = (terminateQuietly s st)\<lparr>wp_flight := (wp_flight st)(d \<mapsto> (s, Late))\<rparr>"
    using f by (cases ph) (simp_all add: deadline_hit_def)
  have at: "wp_heap (terminateQuietly s st) ! x = (if x = s then (wp_heap st ! s)\<lparr>ws_alive := False\<rparr> else wp_heap st ! x)" for x
    using len by (simp add: terminateQuietly_def slot_update_heap nth_list_update)
  have fields: "length (wp_heap (terminateQuietly s st)) = length (wp_heap st)" "wp_slots (terminateQuietly s st) = wp_slots st"
    by (simp_all add: terminateQuietly_def)
  have "slots_fit (wp_slots st) (wp_heap (terminateQuietly s st)) ((wp_flight st)(d \<mapsto> (s, Late)))"
  proof (rule fitI)
    fix e x ph' assume "((wp_flight st)(d \<mapsto> (s, Late))) e = Some (x, ph')"
    then show "x < length (wp_heap (terminateQuietly s st)) \<and> ws_busy (wp_heap (terminateQuietly s st) ! x)"
      using D(3) [of e x ph'] D(3) [OF f(1)] by (auto simp: at fields split: if_splits)
  next
    fix e e' x p p' assume "((wp_flight st)(d \<mapsto> (s, Late))) e = Some (x, p)" "((wp_flight st)(d \<mapsto> (s, Late))) e' = Some (x, p')"
    then show "e = e'" using D(4) f(1) by (auto split: if_splits)
  next
    fix x assume "x \<in> set (wp_slots st)" "ws_busy (wp_heap (terminateQuietly s st) ! x)"
    then show "\<exists>e ph. ((wp_flight st)(d \<mapsto> (s, Late))) e = Some (x, ph)"
      using D(5) [of x] f(1) upd_other [of "wp_flight st" _ x _ d] by (cases "x = s") (fastforce simp: at)+
  next
    fix x assume "x \<in> set (wp_slots st)" "\<not> ws_alive (wp_heap (terminateQuietly s st) ! x)"
    then show "\<exists>e. ((wp_flight st)(d \<mapsto> (s, Late))) e = Some (x, Late)"
      using D(6) [of x] f upd_other [of "wp_flight st" _ x Late d] by (cases "x = s") (fastforce simp: at)+
  qed (use D(1,2) fields in auto)
  then show ?thesis by (simp add: hit fields)
next
  case False
  assume "fit st"
  moreover have "deadline_hit d st = st" using False by (auto simp: deadline_hit_def split: option.splits scan_phase.splits prod.splits)
  ultimately show ?thesis by simp
qed

lemma fit_terminate: "fit st \<Longrightarrow> wp_slots st = [] \<Longrightarrow> fit (fold terminateQuietly ss st)"
  by (auto simp: slots_fit_def terminate_all_heap)

text \<open>When a scan is over its slot is free again, or gone.\<close>

lemma fit_resume:
  assumes "fit st" "wp_flight st d = Some (s, Answered r)"
  shows "slots_fit (wp_slots st) (wp_heap (slot_update s (\<lambda>w. w\<lparr>ws_busy := False\<rparr>) st)) ((wp_flight st)(d := None))"
proof -
  note D = fitD [OF assms(1)]
  let ?heap = "wp_heap (slot_update s (\<lambda>w. w\<lparr>ws_busy := False\<rparr>) st)"
  have len: "s < length (wp_heap st)" using D(3) [OF assms(2)] by simp
  have at: "?heap ! x = (if x = s then (wp_heap st ! s)\<lparr>ws_busy := False\<rparr> else wp_heap st ! x)" for x
    using len by (simp add: slot_update_heap nth_list_update)
  have other: "x \<noteq> s" if "((wp_flight st)(d := None)) e = Some (x, ph)" for e x ph
    using that D(4) [of e x ph d] assms(2) by (auto split: if_splits)
  have prompt: "wp_flight st e \<noteq> Some (s, Late)" for e using D(4) [of e s Late d] assms(2) by auto
  show ?thesis
  proof (rule fitI)
    show "distinct (wp_slots st)" by (rule D)
    show "x < length ?heap" if "x \<in> set (wp_slots st)" for x using D(2) that by simp
    show "x < length ?heap \<and> ws_busy (?heap ! x)" if "((wp_flight st)(d := None)) e = Some (x, ph)" for e x ph
      using other [OF that] that D(3) [of e x ph] by (auto simp: at split: if_splits)
    show "e = e'" if "((wp_flight st)(d := None)) e = Some (x, p)" "((wp_flight st)(d := None)) e' = Some (x, p')" for e e' x p p'
      using that D(4) by (auto split: if_splits)
    show "\<exists>e p. ((wp_flight st)(d := None)) e = Some (x, p)" if "x \<in> set (wp_slots st)" "ws_busy (?heap ! x)" for x
      using that D(5) [of x] assms(2) upd_other [of "wp_flight st" _ x _ d] by (cases "x = s") (fastforce simp: at)+
    show "\<exists>e. ((wp_flight st)(d := None)) e = Some (x, Late)" if "x \<in> set (wp_slots st)" "\<not> ws_alive (?heap ! x)" for x
      using that D(6) [of x] assms(2) prompt upd_other [of "wp_flight st" _ x Late d] by (cases "x = s") (fastforce simp: at)+
  qed
qed

lemma fit_replaceSlot:
  assumes "fit st" "wp_flight st d = Some (s, Late)" "st' = st\<lparr>wp_flight := (wp_flight st)(d := None)\<rparr>"
  shows "fit (replaceSlot now s st')"
proof -
  note D = fitD [OF assms(1)]
  let ?n = "length (wp_heap st)" and ?heap = "wp_heap st @ [fresh_slot]" and ?fl = "(wp_flight st)(d := None)"
  let ?slots = "map (\<lambda>x. if x = s then ?n else x) (wp_slots st)"
  have len: "x < ?n" if "x \<in> set (wp_slots st)" for x using D(2) that .
  have other: "x \<noteq> s \<and> x < ?n \<and> ws_busy (wp_heap st ! x)" if "?fl e = Some (x, ph)" for e x ph
    using that D(3) [of e x ph] D(4) [of e x ph d] assms(2) by (auto split: if_splits)
  have slot: "x = ?n \<or> x \<in> set (wp_slots st) \<and> x \<noteq> s" if "x \<in> set ?slots" for x using that by (auto split: if_splits)
  have "slots_fit ?slots ?heap ?fl"
  proof (rule fitI)
    show "distinct ?slots" using D(1) len by (auto simp: distinct_map inj_on_def)
    show "x < length ?heap" if "x \<in> set ?slots" for x using slot [OF that] len [of x] by auto
    show "x < length ?heap \<and> ws_busy (?heap ! x)" if "?fl e = Some (x, ph)" for e x ph
      using other [OF that] by (simp add: nth_append)
    show "e = e'" if "?fl e = Some (x, p)" "?fl e' = Some (x, p')" for e e' x p p'
      using that D(4) by (auto split: if_splits)
    show "\<exists>e p. ?fl e = Some (x, p)" if "x \<in> set ?slots" "ws_busy (?heap ! x)" for x
    proof -
      note y = that
      have "x \<noteq> ?n" using that(2) by (auto simp: fresh_slot_def)
      then have x: "x \<in> set (wp_slots st)" "x \<noteq> s" using slot [OF that(1)] by auto
      then obtain e p where "wp_flight st e = Some (x, p)" using D(5) [of x] y(2) len [of x] by (auto simp: nth_append)
      then have "?fl e = Some (x, p)" using assms(2) x(2) by auto
      then show ?thesis by blast
    qed
    show "\<exists>e. ?fl e = Some (x, Late)" if "x \<in> set ?slots" "\<not> ws_alive (?heap ! x)" for x
    proof -
      note y = that
      have "x \<noteq> ?n" using that(2) by (auto simp: fresh_slot_def)
      then have x: "x \<in> set (wp_slots st)" "x \<noteq> s" using slot [OF that(1)] by auto
      then obtain e where "wp_flight st e = Some (x, Late)" using D(6) [of x] y(2) len [of x] by (auto simp: nth_append)
      then have "?fl e = Some (x, Late)" using assms(2) x(2) by auto
      then show ?thesis by blast
    qed
  qed
  then show ?thesis by (simp add: assms(3) cong: if_cong)
qed

lemma fit_wholePool: "fit st \<Longrightarrow> fit (replaceWholePool now st)"
proof -
  assume "fit st"
  note D = fitD [OF this]
  let ?st1 = "fold terminateQuietly (wp_slots st) (st\<lparr>wp_slots := []\<rparr>)"
  let ?n = "length (wp_heap st)"
  have old: "ws_busy (wp_heap ?st1 ! x) = ws_busy (wp_heap st ! x)" if "x < ?n" for x
    using terminate_all_heap [of x "st\<lparr>wp_slots := []\<rparr>"] that by simp
  have new: "(wp_heap ?st1 @ replicate (wp_size st) fresh_slot) ! x = fresh_slot" if "?n \<le> x" "x < ?n + wp_size st" for x
    using that by (simp add: nth_append)
  have "slots_fit [?n..<?n + wp_size st] (wp_heap ?st1 @ replicate (wp_size st) fresh_slot) (wp_flight st)"
  proof (rule fitI)
    fix d s ph assume "wp_flight st d = Some (s, ph)"
    then show "s < length (wp_heap ?st1 @ replicate (wp_size st) fresh_slot) \<and>
        ws_busy ((wp_heap ?st1 @ replicate (wp_size st) fresh_slot) ! s)"
      using D(3) [of d s ph] old [of s] by (simp add: nth_append)
  qed (use D(4) new in \<open>auto simp: fresh_slot_def\<close>)
  then show ?thesis by simp
qed

lemma fit_reportTimeout: "fit st \<Longrightarrow> fit (snd (reportTimeout_pool now st))"
  using fit_wholePool [of "st\<lparr>wp_timeouts := 0\<rparr>" now] by (simp add: reportTimeout_pool_def Let_def)

lemma accounts_freed:
  assumes "accounts st" "wp_queue st' = wp_queue st" "wp_flight st' = (wp_flight st)(d := None)" "fit st'"
  shows "fit (pump st')"
  unfolding pump_def by (rule fit_pump_loop [OF assms(4)]) (use assms(1-3) in \<open>auto simp: accounts_def\<close>)

lemma fit_act:
  assumes "accounts st" "fit st"
  shows "fit (act a st)"
proof (cases a)
  case Dispatch
  let ?st1 = "st\<lparr>wp_tasks := Suc (wp_tasks st), wp_queue := wp_queue st @ [wp_tasks st]\<rparr>"
  have "wp_tasks st \<notin> dom (wp_flight st) \<union> set (wp_queue st)" using assms(1) by (auto simp: accounts_def)
  then have "fit (pump ?st1)"
    unfolding pump_def by (intro fit_pump_loop) (use assms in \<open>auto simp: accounts_def\<close>)
  then show ?thesis using Dispatch assms(2) by (simp add: dispatch_def Let_def)
next
  case (Resume d)
  show ?thesis
  proof (cases "\<exists>s r. wp_flight st d = Some (s, Answered r)")
    case True
    then obtain s r where f: "wp_flight st d = Some (s, Answered r)" by blast
    let ?st1 = "(slot_update s (\<lambda>w. w\<lparr>ws_busy := False\<rparr>) st)\<lparr>wp_flight := (wp_flight st)(d := None)\<rparr>"
    have st1: "fit ?st1" using fit_resume [OF assms(2) f] by simp
    have "fit (pump ?st1)" by (rule accounts_freed [OF assms(1), where d = d]) (use st1 in simp_all)
    moreover have "fit (pump (reportSuccess_pool ?st1))"
      by (rule accounts_freed [OF assms(1), where d = d]) (use st1 in \<open>simp_all add: reportSuccess_pool_def\<close>)
    ultimately have "fit (pump ?st1)" "fit (pump (reportSuccess_pool ?st1))" by blast+
    then show ?thesis using Resume f by (cases r) (simp_all add: resume_answered_def Let_def pump_resolve)
  qed (simp add: Resume resume_idle assms(2))
next
  case (Worker_gone now d)
  show ?thesis
  proof (cases "\<exists>s. wp_flight st d = Some (s, Late)")
    case True
    then obtain s where f: "wp_flight st d = Some (s, Late)" by blast
    obtain w where w: "worker_gone now d st = resolve d TimedOut None (pump
       ((snd (reportTimeout_pool now (replaceSlot now s (st\<lparr>wp_flight := (wp_flight st)(d := None)\<rparr>))))\<lparr>wp_warnings := w\<rparr>))"
      using worker_gone_late [OF f] by blast
    have "fit (replaceSlot now s (st\<lparr>wp_flight := (wp_flight st)(d := None)\<rparr>))" by (rule fit_replaceSlot [OF assms(2) f refl])
    from fit_reportTimeout [OF this]
    show ?thesis unfolding Worker_gone act.simps w resolve_fields
      by (intro accounts_freed [OF assms(1), where d = d]) simp_all
  qed (simp add: Worker_gone gone_idle assms(2))
next
  case Close
  let ?st1 = "st\<lparr>wp_drained := True, wp_closing := True, wp_slots := []\<rparr>"
  let ?m = "worker_error (text_of ''pool_closed'')"
  have "fit ?st1" using assms(2) by (auto simp: slots_fit_def)
  then have "fit (fold (\<lambda>s. deliver_message s ?m) ss ?st1)" for ss
  proof (induction ss rule: rev_induct)
    case (snoc s ss)
    then show ?case using fit_deliver [of "fold (\<lambda>s. deliver_message s ?m) ss ?st1"] by simp
  qed simp
  then show ?thesis using Close assms(2) fit_terminate by (simp add: close_pool_def)
next
  case (Message s m)
  show ?thesis unfolding Message act.simps by (rule fit_deliver [OF assms(2)])
next
  case (Deadline d)
  show ?thesis unfolding Deadline act.simps by (rule fit_deadline [OF assms(2)])
next
  case Workers_closed
  show ?thesis using Workers_closed assms(2) by (simp add: closed_workers_def fail_all)
qed

subsection \<open>The pool keeps serving\<close>

definition serving :: "worker_pool \<Rightarrow> bool" where
  "serving st \<longleftrightarrow>
     (\<not> wp_drained st \<longrightarrow> length (wp_slots st) = wp_size st \<and> (wp_queue st = [] \<or> idle_slot st = None)) \<and>
     (wp_drained st \<and> \<not> wp_closing st \<longrightarrow> wp_queue st = []) \<and> (0 < wp_size st \<longrightarrow> wp_timeouts st < wp_size st)"

lemma pump_loop_empty: "wp_queue st = [] \<Longrightarrow> wp_queue (pump st) = []"
  by (simp add: pump_def)

lemma serving_pump:
  "(\<not> wp_drained st \<Longrightarrow> length (wp_slots st) = wp_size st) \<Longrightarrow> (wp_drained st \<and> \<not> wp_closing st \<longrightarrow> wp_queue st = []) \<Longrightarrow>
   (0 < wp_size st \<longrightarrow> wp_timeouts st < wp_size st) \<Longrightarrow> serving (pump st)"
  using pump_ready [of st] pump_loop_empty [of st] by (auto simp: serving_def)

lemma serving_resolve [simp]: "serving (resolve d x v st) = serving st"
  by (simp add: serving_def idle_slot_def)

lemma busy_same:
  assumes "serving st" "\<And>s. s < length (wp_heap st) \<Longrightarrow> ws_busy (wp_heap st' ! s) = ws_busy (wp_heap st ! s)" "fit st"
    "wp_slots st' = wp_slots st" "wp_size st' = wp_size st" "wp_queue st' = wp_queue st" "wp_drained st' = wp_drained st"
    "wp_closing st' = wp_closing st" "wp_timeouts st' = wp_timeouts st"
  shows "serving st'"
  using assms fitD(2) [OF assms(3)] by (simp add: serving_def idle_slot_None)

lemma deliver_busy: "ws_busy (wp_heap (deliver_message s m st) ! x) = ws_busy (wp_heap st ! x)"
proof -
  have "ws_busy (wp_heap (slot_update s (\<lambda>w. w\<lparr>ws_waiter := None\<rparr>) st) ! x) = ws_busy (wp_heap st ! x)"
    by (cases "x = s"; cases "s < length (wp_heap st)") (simp_all add: slot_update_heap list_update_beyond)
  then show ?thesis by (auto simp: deliver_message_def Let_def split: option.splits scan_phase.splits prod.splits)
qed

lemma deadline_busy: "ws_busy (wp_heap (deadline_hit d st) ! x) = ws_busy (wp_heap st ! x)"
proof -
  have "ws_busy (wp_heap (terminateQuietly s st) ! x) = ws_busy (wp_heap st ! x)" for s
    by (cases "x = s"; cases "s < length (wp_heap st)") (simp_all add: terminateQuietly_def slot_update_heap list_update_beyond)
  then show ?thesis by (auto simp: deadline_hit_def split: option.splits scan_phase.splits prod.splits)
qed

lemma deadline_fields [simp]:
  "wp_size (deadline_hit d st) = wp_size st" "wp_slots (deadline_hit d st) = wp_slots st"
  "wp_queue (deadline_hit d st) = wp_queue st" "wp_tasks (deadline_hit d st) = wp_tasks st"
  "wp_resolved (deadline_hit d st) = wp_resolved st" "wp_timeouts (deadline_hit d st) = wp_timeouts st"
  "wp_drained (deadline_hit d st) = wp_drained st" "wp_closing (deadline_hit d st) = wp_closing st"
  by (auto simp: deadline_hit_def terminateQuietly_def split: option.splits scan_phase.splits prod.splits)

lemma serving_act:
  assumes "serving st" "fit st"
  shows "serving (act a st)"
proof (cases a)
  case Dispatch
  show ?thesis
  proof (cases "wp_drained st")
    case True
    have "serving (st\<lparr>wp_tasks := Suc (wp_tasks st)\<rparr>)" using assms(1) by (simp add: serving_def idle_slot_def)
    then show ?thesis using Dispatch True by (simp add: dispatch_def Let_def)
  next
    case False
    show ?thesis using Dispatch False assms(1)
      by (auto simp: dispatch_def Let_def serving_def [of st] intro!: serving_pump)
  qed
next
  case (Message s m)
  show ?thesis using busy_same [OF assms(1) _ assms(2)] Message by (simp add: deliver_busy)
next
  case (Deadline d)
  show ?thesis using busy_same [OF assms(1) _ assms(2)] Deadline by (simp add: deadline_busy)
next
  case (Resume d)
  show ?thesis
  proof (cases "\<exists>s r. wp_flight st d = Some (s, Answered r)")
    case True
    then obtain s r where f: "wp_flight st d = Some (s, Answered r)" by blast
    let ?st1 = "(slot_update s (\<lambda>w. w\<lparr>ws_busy := False\<rparr>) st)\<lparr>wp_flight := (wp_flight st)(d := None)\<rparr>"
    have "serving (pump ?st1)" "serving (pump (reportSuccess_pool ?st1))"
      by (rule serving_pump; use assms(1) in \<open>simp add: serving_def reportSuccess_pool_def\<close>)+
    then show ?thesis using Resume f by (cases r) (simp_all add: resume_answered_def Let_def pump_resolve)
  qed (simp add: Resume resume_idle assms(1))
next
  case (Worker_gone now d)
  show ?thesis
  proof (cases "\<exists>s. wp_flight st d = Some (s, Late)")
    case True
    then obtain s where f: "wp_flight st d = Some (s, Late)" by blast
    obtain w where w: "worker_gone now d st = resolve d TimedOut None (pump
       ((snd (reportTimeout_pool now (replaceSlot now s (st\<lparr>wp_flight := (wp_flight st)(d := None)\<rparr>))))\<lparr>wp_warnings := w\<rparr>))"
      using worker_gone_late [OF f] by blast
    show ?thesis unfolding Worker_gone act.simps w serving_resolve
      by (rule serving_pump) (use assms(1) in \<open>auto simp: serving_def reportTimeout_pool_def Let_def\<close>)
  qed (simp add: Worker_gone gone_idle assms(1))
next
  case Close
  show ?thesis using Close assms(1) by (simp add: close_pool_def serving_def)
next
  case Workers_closed
  have idle: "idle_slot (fold (\<lambda>d. resolve d Failed None) ds st') = idle_slot st'" for ds st'
    by (simp add: idle_slot_def fail_all)
  show ?thesis using Workers_closed assms(1) by (auto simp: closed_workers_def serving_def fail_all idle)
qed

lemma init_fits: "fit (init_workers n)" "serving (init_workers n)" "accounts (init_workers n)"
proof -
  show "fit (init_workers n)" by (rule fitI) (auto simp: init_workers_def fresh_slot_def)
  show "serving (init_workers n)" by (simp add: serving_def init_workers_def)
  show "accounts (init_workers n)" by (simp add: accounts_def init_workers_def)
qed

lemma reach_invariants: "pool_reach n st \<Longrightarrow> accounts st \<and> fit st \<and> serving st"
proof (induction rule: pool_reach.induct)
  case start
  then show ?case using init_fits by blast
next
  case (acted st a)
  then show ?case using accounts_act fit_act serving_act by blast
qed

subsection \<open>Every scan gets an answer\<close>

text \<open>A schedule of actions, and the states it runs through.\<close>

primrec trace :: "nat \<Rightarrow> (nat \<Rightarrow> pool_action) \<Rightarrow> nat \<Rightarrow> worker_pool" where
  "trace n f 0 = init_workers n"
| "trace n f (Suc k) = act (f k) (trace n f k)"

text \<open>Timers fire, terminated workers end, and a closing pool gets there; the workers need not answer.\<close>

definition timers_fire :: "nat \<Rightarrow> (nat \<Rightarrow> pool_action) \<Rightarrow> bool" where
  "timers_fire n f \<longleftrightarrow>
     (\<forall>k d s ph. wp_flight (trace n f k) d = Some (s, ph) \<longrightarrow>
        (\<exists>j\<ge>k. if ph = Late then \<exists>now. f j = Worker_gone now d else f j = Deadline d)) \<and>
     (\<forall>k. wp_closing (trace n f k) \<longrightarrow> (\<exists>j\<ge>k. f j = Workers_closed))"

definition answered :: "worker_pool \<Rightarrow> nat set" where "answered st = fst ` set (wp_resolved st)"

lemma trace_reach: "pool_reach n (trace n f k)"
  by (induction k) (auto intro: pool_reach.intros)

lemma pump_loop_queue: "set (wp_queue (pump_loop q st)) \<subseteq> set q"
  by (induction q st rule: pump_loop.induct) (auto split: option.splits)

lemma pump_queue: "set (wp_queue (pump st)) \<subseteq> set (wp_queue st)"
  using pump_loop_queue by (simp add: pump_def)

lemma pump_loop_flight: "d \<notin> set q \<Longrightarrow> wp_flight (pump_loop q st) d = wp_flight st d"
  by (induction q st rule: pump_loop.induct) (auto split: option.splits)

lemma pump_flight: "d \<notin> set (wp_queue st) \<Longrightarrow> wp_flight (pump st) d = wp_flight st d"
  by (simp add: pump_def pump_loop_flight)

lemma gone_result:
  assumes "wp_flight st d = Some (s, Late)"
  shows "wp_resolved (worker_gone now d st) = wp_resolved st @ [(d, \<lparr>so_status = TimedOut, so_value = None, so_elapsed = 0\<rparr>)]"
    "wp_tasks (worker_gone now d st) = wp_tasks st" "wp_size (worker_gone now d st) = wp_size st"
    "set (wp_queue (worker_gone now d st)) \<subseteq> set (wp_queue st)"
    "e \<notin> set (wp_queue st) \<Longrightarrow> e \<noteq> d \<Longrightarrow> wp_flight (worker_gone now d st) e = wp_flight st e"
proof -
  obtain w where w: "worker_gone now d st = resolve d TimedOut None (pump
     ((snd (reportTimeout_pool now (replaceSlot now s (st\<lparr>wp_flight := (wp_flight st)(d := None)\<rparr>))))\<lparr>wp_warnings := w\<rparr>))"
    (is "_ = resolve _ _ _ (pump ?st1)") using worker_gone_late [OF assms] by blast
  show "wp_resolved (worker_gone now d st) = wp_resolved st @ [(d, \<lparr>so_status = TimedOut, so_value = None, so_elapsed = 0\<rparr>)]"
    unfolding w by (simp add: resolve_def)
  show "wp_tasks (worker_gone now d st) = wp_tasks st" "wp_size (worker_gone now d st) = wp_size st" unfolding w by simp_all
  show "set (wp_queue (worker_gone now d st)) \<subseteq> set (wp_queue st)" unfolding w using pump_queue [of ?st1] by simp
  show "wp_flight (worker_gone now d st) e = wp_flight st e" if "e \<notin> set (wp_queue st)" "e \<noteq> d"
    unfolding w using pump_flight [of e ?st1] that by simp
qed

lemma resume_result:
  assumes "wp_flight st d = Some (s, Answered r)"
  shows "map fst (wp_resolved (resume_answered d st)) = map fst (wp_resolved st) @ [d]"
    "wp_tasks (resume_answered d st) = wp_tasks st" "wp_size (resume_answered d st) = wp_size st"
    "set (wp_queue (resume_answered d st)) \<subseteq> set (wp_queue st)"
    "e \<notin> set (wp_queue st) \<Longrightarrow> e \<noteq> d \<Longrightarrow> wp_flight (resume_answered d st) e = wp_flight st e"
proof -
  let ?st1 = "(slot_update s (\<lambda>w. w\<lparr>ws_busy := False\<rparr>) st)\<lparr>wp_flight := (wp_flight st)(d := None)\<rparr>"
  let ?st2 = "case r of None \<Rightarrow> ?st1 | Some cs \<Rightarrow> reportSuccess_pool ?st1"
  have q: "wp_queue ?st2 = wp_queue st" "wp_flight ?st2 = (wp_flight st)(d := None)" "wp_resolved ?st2 = wp_resolved st"
    "wp_tasks ?st2 = wp_tasks st" "wp_size ?st2 = wp_size st"
    by (cases r; simp add: reportSuccess_pool_def)+
  have r: "\<exists>x v. resume_answered d st = resolve d x v (pump ?st2)"
    using assms by (cases r) (auto simp: resume_answered_def Let_def pump_resolve)
  then show "map fst (wp_resolved (resume_answered d st)) = map fst (wp_resolved st) @ [d]"
    "wp_tasks (resume_answered d st) = wp_tasks st" "wp_size (resume_answered d st) = wp_size st"
    using q by auto
  show "set (wp_queue (resume_answered d st)) \<subseteq> set (wp_queue st)" using r pump_queue [of ?st2] q(1) by auto
  show "wp_flight (resume_answered d st) e = wp_flight st e" if "e \<notin> set (wp_queue st)" "e \<noteq> d"
    using r pump_flight [of e ?st2] q(1,2) that by auto
qed

lemma act_size [simp]: "wp_size (act a st) = wp_size st"
proof (cases a)
  case (Resume d)
  then show ?thesis using resume_result(3) resume_idle by (metis act.simps(4))
next
  case (Worker_gone now d)
  then show ?thesis using gone_result(3) gone_idle by (metis act.simps(5))
qed (simp_all add: dispatch_def Let_def close_pool_def closed_workers_def fail_all)

lemma reach_size: "pool_reach n st \<Longrightarrow> wp_size st = n"
  by (induction rule: pool_reach.induct) (simp_all add: init_workers_def)

lemma act_monotone:
  "answered st \<subseteq> answered (act a st)" "wp_tasks st \<le> wp_tasks (act a st)"
  "set (wp_queue (act a st)) \<subseteq> insert (wp_tasks st) (set (wp_queue st))"
proof -
  have "answered st \<subseteq> answered (act a st) \<and> wp_tasks st \<le> wp_tasks (act a st) \<and>
    set (wp_queue (act a st)) \<subseteq> insert (wp_tasks st) (set (wp_queue st))"
  proof (cases a)
    case Dispatch
    then show ?thesis using pump_queue [of "st\<lparr>wp_tasks := Suc (wp_tasks st), wp_queue := wp_queue st @ [wp_tasks st]\<rparr>"]
      by (auto simp: dispatch_def Let_def answered_def resolve_def)
  next
    case (Resume d)
    show ?thesis
    proof (cases "\<exists>s r. wp_flight st d = Some (s, Answered r)")
      case True
      then obtain s r where f: "wp_flight st d = Some (s, Answered r)" by blast
      have "answered (resume_answered d st) = set (map fst (wp_resolved (resume_answered d st)))" by (simp add: answered_def)
      then show ?thesis using Resume resume_result(2,4) [OF f] unfolding resume_result(1) [OF f] by (auto simp: answered_def)
    qed (simp add: Resume resume_idle subset_insertI)
  next
    case (Worker_gone now d)
    show ?thesis
    proof (cases "\<exists>s. wp_flight st d = Some (s, Late)")
      case True
      then obtain s where f: "wp_flight st d = Some (s, Late)" by blast
      then show ?thesis using Worker_gone gone_result(1,2,4) [OF f, of now] by (auto simp: answered_def)
    qed (simp add: Worker_gone gone_idle subset_insertI)
  next
    case Workers_closed
    have "answered (closed_workers st) = set (map fst (wp_resolved (closed_workers st)))" by (simp add: answered_def)
    then have "answered st \<subseteq> answered (closed_workers st)" by (cases "wp_closing st") (auto simp: closed_workers_def fail_all answered_def)
    then show ?thesis using Workers_closed by (auto simp: closed_workers_def fail_all)
  qed (auto simp: answered_def close_pool_def)
  then show "answered st \<subseteq> answered (act a st)" "wp_tasks st \<le> wp_tasks (act a st)"
    "set (wp_queue (act a st)) \<subseteq> insert (wp_tasks st) (set (wp_queue st))" by blast+
qed

lemma flight_or_answered:
  assumes "accounts st" "d \<in> dom (wp_flight st)"
  shows "d \<in> dom (wp_flight (act a st)) \<or> d \<in> answered (act a st)"
proof -
  have "d < wp_tasks st" "d \<notin> set (wp_queue st)" using assms by (auto simp: accounts_def)
  then have "d < wp_tasks (act a st)" "d \<notin> set (wp_queue (act a st))" using act_monotone(2,3) [where st = st and a = a] by auto
  moreover have "dom (wp_flight (act a st)) \<union> set (wp_queue (act a st)) \<union> answered (act a st) = {..<wp_tasks (act a st)}"
    using accounts_act [OF assms(1), of a] by (simp add: accounts_def answered_def)
  ultimately show ?thesis by blast
qed

lemma late_stays:
  assumes "accounts st" "wp_flight st d = Some (s, Late)"
  shows "wp_flight (act a st) d = Some (s, Late) \<or> d \<in> answered (act a st)"
proof -
  have d: "d < wp_tasks st" "d \<notin> set (wp_queue st)" using assms by (auto simp: accounts_def)
  show ?thesis
  proof (cases a)
    case Dispatch
    then show ?thesis using d assms(2)
        pump_flight [of d "st\<lparr>wp_tasks := Suc (wp_tasks st), wp_queue := wp_queue st @ [wp_tasks st]\<rparr>"]
      by (simp add: dispatch_def Let_def)
  next
    case (Message x m)
    then show ?thesis using assms(2) by (auto simp: deliver_message_def Let_def split: option.splits scan_phase.splits prod.splits)
  next
    case (Deadline e)
    then show ?thesis using assms(2)
      by (auto simp: deadline_hit_def terminateQuietly_def split: option.splits scan_phase.splits prod.splits)
  next
    case (Resume e)
    then show ?thesis using assms(2) d(2) resume_idle [of st e] resume_result(5) [of st e _ _ d] by (cases "e = d") fastforce+
  next
    case (Worker_gone now e)
    then show ?thesis using assms(2) d(2) gone_idle [of st e] gone_result(1) [of st d s now] gone_result(5) [of st e _ d now]
      by (cases "e = d") (fastforce simp: answered_def)+
  next
    case Close
    have same: "wp_flight (fold (\<lambda>s. deliver_message s m) ss st') d = Some (s, Late)"
      if "wp_flight st' d = Some (s, Late)" for ss m st'
      using that
    proof (induction ss arbitrary: st')
      case (Cons x ss)
      have "wp_flight (deliver_message x m st') d = Some (s, Late)"
        using Cons.prems by (auto simp: deliver_message_def Let_def split: option.splits scan_phase.splits prod.splits)
      then show ?case using Cons.IH by simp
    qed simp
    show ?thesis using Close assms(2) same by (simp add: close_pool_def)
  next
    case Workers_closed
    then show ?thesis using assms(2) by (simp add: closed_workers_def fail_all)
  qed
qed

lemma trace_invariants: "accounts (trace n f k)" "fit (trace n f k)" "serving (trace n f k)" "wp_size (trace n f k) = n"
  using reach_invariants [OF trace_reach] reach_size [OF trace_reach] by blast+

lemma answered_later: "k \<le> j \<Longrightarrow> answered (trace n f k) \<subseteq> answered (trace n f j)"
  by (induction j rule: nat_induct_at_least [consumes 1, where m = k]) (auto dest: subsetD [OF act_monotone(1)])

lemma flight_later:
  "k \<le> j \<Longrightarrow> d \<in> dom (wp_flight (trace n f k)) \<Longrightarrow> d \<in> dom (wp_flight (trace n f j)) \<or> d \<in> answered (trace n f j)"
proof (induction j rule: nat_induct_at_least [consumes 1, where m = k])
  case (Suc j)
  then have "d \<in> dom (wp_flight (trace n f j)) \<or> d \<in> answered (trace n f j)" by blast
  then show ?case using flight_or_answered [OF trace_invariants(1)] act_monotone(1) by fastforce
qed simp

lemma late_later:
  "k \<le> j \<Longrightarrow> wp_flight (trace n f k) d = Some (s, Late) \<Longrightarrow>
   wp_flight (trace n f j) d = Some (s, Late) \<or> d \<in> answered (trace n f j)"
proof (induction j rule: nat_induct_at_least [consumes 1, where m = k])
  case (Suc j)
  then have "wp_flight (trace n f j) d = Some (s, Late) \<or> d \<in> answered (trace n f j)" by blast
  then show ?case using late_stays [OF trace_invariants(1)] act_monotone(1) by fastforce
qed simp

lemma late_ends:
  assumes "timers_fire n f" "wp_flight (trace n f k) d = Some (s, Late)"
  shows "\<exists>j\<ge>k. d \<in> answered (trace n f j)"
proof -
  obtain j now where j: "k \<le> j" "f j = Worker_gone now d" using assms unfolding timers_fire_def by fastforce
  from late_later [OF j(1) assms(2)] show ?thesis
  proof
    assume "wp_flight (trace n f j) d = Some (s, Late)"
    from gone_result(1) [OF this, of now] have "d \<in> answered (trace n f (Suc j))" using j(2) by (simp add: answered_def)
    then show ?thesis using j(1) le_SucI by blast
  qed (use j(1) in blast)
qed

lemma flight_ends:
  assumes "timers_fire n f" "d \<in> dom (wp_flight (trace n f k))"
  shows "\<exists>j\<ge>k. d \<in> answered (trace n f j)"
proof -
  obtain s ph where f: "wp_flight (trace n f k) d = Some (s, ph)" using assms(2) by auto
  show ?thesis
  proof (cases "ph = Late")
    case True
    then show ?thesis using late_ends assms(1) f by blast
  next
    case False
    then obtain j where j: "k \<le> j" "f j = Deadline d" using assms(1) f unfolding timers_fire_def by meson
    from flight_later [OF j(1) assms(2)] show ?thesis
    proof
      assume "d \<in> dom (wp_flight (trace n f j))"
      then obtain x p where "wp_flight (trace n f j) d = Some (x, p)" by auto
      then have "wp_flight (trace n f (Suc j)) d = Some (x, Late)" using j(2) by (cases p) (simp_all add: deadline_hit_def)
      from late_ends [OF assms(1) this] show ?thesis using j(1) by (meson Suc_leD order_trans)
    qed (use j(1) in blast)
  qed
qed

lemma drained_stays: "wp_drained st \<Longrightarrow> wp_drained (act a st)"
proof (cases a)
  case (Resume d)
  assume "wp_drained st"
  then show ?thesis unfolding Resume act.simps
    by (auto simp: resume_answered_def Let_def reportSuccess_pool_def split: option.splits scan_phase.splits)
next
  case (Worker_gone now d)
  assume "wp_drained st"
  then show ?thesis unfolding Worker_gone act.simps
  proof (cases "\<exists>s. wp_flight st d = Some (s, Late)")
    case True
    then obtain s where "wp_flight st d = Some (s, Late)" by blast
    from worker_gone_late [OF this, of now] show "wp_drained (worker_gone now d st)" using \<open>wp_drained st\<close> by auto
  qed (simp add: gone_idle)
qed (auto simp: dispatch_def Let_def close_pool_def closed_workers_def fail_all)

lemma placed:
  assumes "accounts st" "d < wp_tasks st"
  shows "d \<in> answered st \<or> d \<in> dom (wp_flight st) \<or> d \<in> set (wp_queue st)"
proof -
  have "dom (wp_flight st) \<union> set (wp_queue st) \<union> answered st = {..<wp_tasks st}"
    using assms(1) by (simp add: accounts_def answered_def)
  then show ?thesis using assms(2) by blast
qed

text \<open>The queue is served in order: whatever is under way came before what waits.\<close>

definition in_order :: "nat list \<Rightarrow> (nat \<Rightarrow> (nat \<times> scan_phase) option) \<Rightarrow> bool" where
  "in_order q flight \<longleftrightarrow> sorted_wrt (<) q \<and> (\<forall>e \<in> dom flight. \<forall>d \<in> set q. e < d)"

definition fifo :: "worker_pool \<Rightarrow> bool" where
  "fifo st \<longleftrightarrow> (\<not> wp_drained st \<longrightarrow> in_order (wp_queue st) (wp_flight st))"

lemma pump_loop_in_order:
  "in_order q (wp_flight st) \<Longrightarrow> in_order (wp_queue (pump_loop q st)) (wp_flight (pump_loop q st))"
proof (induction q st rule: pump_loop.induct)
  case (2 d q st)
  show ?case
  proof (cases "idle_slot st")
    case None
    then show ?thesis using 2 by simp
  next
    case (Some s)
    have started: "dom (wp_flight (start_scan s d st)) = insert d (dom (wp_flight st))" by simp
    have "in_order q (wp_flight (start_scan s d st))" using "2.prems" unfolding in_order_def started by auto
    from "2.IH" [OF Some this] show ?thesis using Some by simp
  qed
qed (simp add: in_order_def)

lemma pump_in_order: "in_order (wp_queue st) (wp_flight st) \<Longrightarrow> in_order (wp_queue (pump st)) (wp_flight (pump st))"
  by (simp add: pump_def pump_loop_in_order)

lemma in_order_removed: "in_order q fl \<Longrightarrow> in_order q (fl(d := None))"
  by (auto simp: in_order_def)

lemma fifo_act:
  assumes "accounts st" "fifo st"
  shows "fifo (act a st)"
proof (cases "wp_drained st")
  case True
  then show ?thesis using drained_stays by (simp add: fifo_def)
next
  case False
  then have o: "in_order (wp_queue st) (wp_flight st)" using assms(2) by (simp add: fifo_def)
  show ?thesis
  proof (cases a)
    case Dispatch
    have "dom (wp_flight st) \<subseteq> {..<wp_tasks st}" "set (wp_queue st) \<subseteq> {..<wp_tasks st}" using assms(1) by (auto simp: accounts_def)
    then have "in_order (wp_queue st @ [wp_tasks st]) (wp_flight st)"
      using o by (auto simp: in_order_def sorted_wrt_append)
    then show ?thesis
      using Dispatch False pump_in_order [of "st\<lparr>wp_tasks := Suc (wp_tasks st), wp_queue := wp_queue st @ [wp_tasks st]\<rparr>"]
      by (simp add: dispatch_def Let_def fifo_def)
  next
    case (Message s m)
    then show ?thesis using o by (simp add: fifo_def in_order_def)
  next
    case (Deadline d)
    have "dom (wp_flight (deadline_hit d st)) = dom (wp_flight st)"
      by (auto simp: deadline_hit_def terminateQuietly_def split: option.splits scan_phase.splits prod.splits)
    then show ?thesis using Deadline o by (simp add: fifo_def in_order_def)
  next
    case (Resume d)
    show ?thesis
    proof (cases "\<exists>s r. wp_flight st d = Some (s, Answered r)")
      case True
      then obtain s r where f: "wp_flight st d = Some (s, Answered r)" by blast
      let ?st1 = "(slot_update s (\<lambda>w. w\<lparr>ws_busy := False\<rparr>) st)\<lparr>wp_flight := (wp_flight st)(d := None)\<rparr>"
      show ?thesis
        using Resume f in_order_removed [OF o, of d] pump_in_order [of ?st1] pump_in_order [of "reportSuccess_pool ?st1"]
        by (cases r) (simp_all add: resume_answered_def Let_def pump_resolve fifo_def reportSuccess_pool_def)
    qed (simp add: Resume resume_idle assms(2))
  next
    case (Worker_gone now d)
    show ?thesis
    proof (cases "\<exists>s. wp_flight st d = Some (s, Late)")
      case True
      then obtain s where f: "wp_flight st d = Some (s, Late)" by blast
      obtain w where w: "worker_gone now d st = resolve d TimedOut None (pump
         ((snd (reportTimeout_pool now (replaceSlot now s (st\<lparr>wp_flight := (wp_flight st)(d := None)\<rparr>))))\<lparr>wp_warnings := w\<rparr>))"
        (is "_ = resolve _ _ _ (pump ?st1)") using worker_gone_late [OF f] by blast
      show ?thesis unfolding Worker_gone act.simps w
        unfolding fifo_def resolve_fields by (intro impI pump_in_order) (use in_order_removed [OF o, of d] in simp)
    qed (simp add: Worker_gone gone_idle assms(2))
  next
    case Close
    then show ?thesis using False by (simp add: fifo_def close_pool_def)
  next
    case Workers_closed
    then show ?thesis using o by (simp add: fifo_def closed_workers_def fail_all in_order_def)
  qed
qed

lemma reach_fifo: "pool_reach n st \<Longrightarrow> fifo st"
proof (induction rule: pool_reach.induct)
  case start
  then show ?case by (simp add: fifo_def in_order_def init_workers_def)
qed (use fifo_act reach_invariants in blast)

lemma tasks_later: "k \<le> j \<Longrightarrow> wp_tasks (trace n f k) \<le> wp_tasks (trace n f j)"
  by (induction j rule: nat_induct_at_least [consumes 1, where m = k]) (auto intro: order_trans [OF _ act_monotone(2)])

text \<open>How many of the first \<open>m\<close> scans have no answer yet.\<close>

definition unanswered :: "nat \<Rightarrow> worker_pool \<Rightarrow> nat" where "unanswered m st = card ({..<m} - answered st)"

lemma closing_ends:
  assumes "timers_fire n f" "wp_drained (trace n f k)" "d \<in> set (wp_queue (trace n f k))"
  shows "\<exists>j\<ge>k. d \<in> answered (trace n f j)"
proof -
  have later: "d \<in> set (wp_queue (trace n f j)) \<or> d \<in> dom (wp_flight (trace n f j)) \<or> d \<in> answered (trace n f j)" if "k \<le> j" for j
  proof -
    have "wp_tasks (trace n f k) \<le> wp_tasks (trace n f j)" by (rule tasks_later [OF that])
    moreover have "d < wp_tasks (trace n f k)" using assms(3) trace_invariants(1) [of n f k] by (auto simp: accounts_def)
    ultimately have "d < wp_tasks (trace n f j)" by simp
    then show ?thesis using placed [OF trace_invariants(1)] by blast
  qed
  have "wp_closing (trace n f k)" using trace_invariants(3) [of n f k] assms(2,3) by (auto simp: serving_def)
  then obtain j where j: "k \<le> j" "f j = Workers_closed" using assms(1) unfolding timers_fire_def by blast
  have drained: "wp_drained (trace n f j)" using j(1) assms(2)
  proof (induction j rule: nat_induct_at_least [consumes 1, where m = k])
    case (Suc j)
    then show ?case using drained_stays by simp
  qed simp
  have "wp_queue (trace n f (Suc j)) = []"
    using trace_invariants(3) [of n f j] drained j(2) by (auto simp: serving_def closed_workers_def fail_all)
  then have "d \<in> dom (wp_flight (trace n f (Suc j))) \<or> d \<in> answered (trace n f (Suc j))" using later [of "Suc j"] j(1) by auto
  then have "\<exists>i\<ge>Suc j. d \<in> answered (trace n f i)" using flight_ends [OF assms(1)] by blast
  then show ?thesis using j(1) by (meson Suc_leD order_trans)
qed

lemma scan_ends:
  assumes "timers_fire n f" "0 < n"
  shows "d < wp_tasks (trace n f k) \<Longrightarrow> \<exists>j\<ge>k. d \<in> answered (trace n f j)"
proof (induction "unanswered d (trace n f k)" arbitrary: k rule: less_induct)
  case less
  let ?st = "trace n f k"
  consider "d \<in> answered ?st" | "d \<in> dom (wp_flight ?st)" | "d \<in> set (wp_queue ?st)" "wp_drained ?st"
    | "d \<in> set (wp_queue ?st)" "\<not> wp_drained ?st"
    using less.prems(1) placed [OF trace_invariants(1)] by blast
  then show ?case
  proof cases
    case 4
    then have "length (wp_slots ?st) = n" "idle_slot ?st = None"
      using trace_invariants(3,4) [of n f k] by (auto simp: serving_def)
    then obtain s where "s \<in> set (wp_slots ?st)" "ws_busy (wp_heap ?st ! s)" using assms(2) idle_slot_None
      by (metis length_greater_0_conv list.set_sel(1))
    then obtain e where e: "e \<in> dom (wp_flight ?st)" using fitD(5) [OF trace_invariants(2)] by blast
    then have "e < d" "e \<notin> answered ?st"
      using reach_fifo [OF trace_reach] 4 trace_invariants(1) [of n f k]
      by (auto simp: fifo_def in_order_def accounts_def answered_def)
    obtain j where j: "k \<le> j" "e \<in> answered (trace n f j)" using flight_ends [OF assms(1) e] by blast
    have "{..<d} - answered (trace n f j) \<subset> {..<d} - answered ?st"
      using answered_later [OF j(1), of n f] j(2) \<open>e < d\<close> \<open>e \<notin> answered ?st\<close> by blast
    then have "unanswered d (trace n f j) < unanswered d ?st" unfolding unanswered_def by (intro psubset_card_mono) auto
    moreover have "d < wp_tasks (trace n f j)" using less.prems tasks_later [OF j(1), of n f] by simp
    ultimately show ?thesis using less.hyps j(1) order_trans by blast
  qed (use flight_ends [OF assms(1)] closing_ends [OF assms(1)] in blast)+
qed

lemma one_entry: "distinct (map fst rs) \<Longrightarrow> d \<in> fst ` set rs \<Longrightarrow> length (filter (\<lambda>(e, x). e = d) rs) = 1"
proof (induction rs)
  case (Cons r rs)
  show ?case
  proof (cases "fst r = d")
    case True
    then have none: "d \<notin> fst ` set rs" using Cons.prems(1) by simp
    have "filter (\<lambda>(e, x). e = d) rs = []"
      unfolding filter_empty_conv using none by (metis (mono_tags, lifting) case_prod_beta image_eqI)
    then show ?thesis using True by (cases r) simp
  next
    case False
    then have "d \<in> fst ` set rs" "distinct (map fst rs)" using Cons.prems by auto
    then show ?thesis using Cons.IH False by (cases r) simp
  qed
qed simp

text \<open>
  C6: no scan on the worker pool waits for ever: if timers fire and terminated workers come to an end, then
  every scan that was ever dispatched, in a pool that may lose workers to slow patterns, be replaced as a whole
  or be closed while scans are queued, gets an answer and never a second one; the workers themselves need
  not answer at all.
\<close>

theorem every_scan_gets_one_answer:
  assumes "timers_fire n f" "0 < n" "d < wp_tasks (trace n f k)"
  shows "\<exists>j\<ge>k. \<forall>i\<ge>j. length (filter (\<lambda>(e, outcome). e = d) (wp_resolved (trace n f i))) = 1"
proof -
  obtain j where j: "k \<le> j" "d \<in> answered (trace n f j)" using scan_ends assms by blast
  have "length (filter (\<lambda>(e, outcome). e = d) (wp_resolved (trace n f i))) = 1" if "j \<le> i" for i
  proof (rule one_entry)
    show "distinct (map fst (wp_resolved (trace n f i)))" using trace_invariants(1) [of n f i] by (simp add: accounts_def)
    show "d \<in> fst ` set (wp_resolved (trace n f i))" using answered_later [OF that, of n f] j(2) unfolding answered_def by blast
  qed
  then show ?thesis using j(1) by blast
qed

definition sample_schedule :: "nat \<Rightarrow> pool_action" where
  "sample_schedule i = (if i = 0 then Dispatch else if even i then Worker_gone 0 0 else Deadline 0)"

lemma sample_trace: "wp_tasks (trace 1 sample_schedule k) \<le> 1 \<and> \<not> wp_closing (trace 1 sample_schedule k)"
proof (induction k)
  case 0
  then show ?case by (simp add: init_workers_def)
next
  case (Suc k)
  have gone: "wp_tasks (worker_gone now d st) = wp_tasks st \<and> wp_closing (worker_gone now d st) = wp_closing st" for now d st
  proof (cases "\<exists>s. wp_flight st d = Some (s, Late)")
    case True
    then obtain s where "wp_flight st d = Some (s, Late)" by blast
    from worker_gone_late [OF this, of now] show ?thesis by auto
  qed (simp add: gone_idle)
  have first: "trace 1 sample_schedule 0 = init_workers 1" by simp
  show ?case
  proof (cases "k = 0")
    case True
    then show ?thesis by (simp add: sample_schedule_def dispatch_def init_workers_def Let_def)
  next
    case False
    then show ?thesis using Suc by (simp add: sample_schedule_def gone)
  qed
qed

lemma in_range: "accounts st \<Longrightarrow> d \<in> dom (wp_flight st) \<Longrightarrow> d < wp_tasks st"
  unfolding accounts_def by blast

lemma sample_fair: "timers_fire 1 sample_schedule"
  unfolding timers_fire_def
proof (intro conjI allI impI)
  fix k d s ph assume "wp_flight (trace 1 sample_schedule k) d = Some (s, ph)"
  then have "d \<in> dom (wp_flight (trace 1 sample_schedule k))" by blast
  then have "d < wp_tasks (trace 1 sample_schedule k)" using in_range [OF trace_invariants(1)] by blast
  then have d: "d = 0" using sample_trace [of k] by linarith
  have "sample_schedule (2 * k + 2) = Worker_gone 0 0" "sample_schedule (2 * k + 1) = Deadline 0"
    by (simp_all add: sample_schedule_def)
  moreover have "k \<le> 2 * k + 2" "k \<le> 2 * k + 1" by simp_all
  ultimately show "\<exists>j\<ge>k. if ph = Late then \<exists>now. sample_schedule j = Worker_gone now d else sample_schedule j = Deadline d"
    unfolding d by (cases "ph = Late") metis+
next
  fix k assume "wp_closing (trace 1 sample_schedule k)"
  then show "\<exists>j\<ge>k. sample_schedule j = Workers_closed" using sample_trace [of k] by simp
qed

theorem every_scan_gets_one_answer_witness:
  "\<exists>j\<ge>1. \<forall>i\<ge>j. length (filter (\<lambda>(e, outcome). e = 0) (wp_resolved (trace 1 sample_schedule i))) = 1"
proof -
  have "0 < wp_tasks (trace 1 sample_schedule 1)"
    by (simp add: sample_schedule_def dispatch_def init_workers_def Let_def)
  then show ?thesis using every_scan_gets_one_answer [OF sample_fair] by simp
qed

text \<open>
  The pool stays what it is for: in every state of a pool that has not been closed there are as many
  slots as it was built with, all different; a slot is busy exactly while a scan runs on it, no scan
  waits next to an idle slot, a worker is alive unless its scan is late, scans are started in the order
  they came in, and there are fewer timeouts in a row than it takes to replace the pool.
\<close>

theorem open_pool_serves:
  assumes "pool_reach n st" "0 < n" "\<not> wp_drained st"
  shows "length (wp_slots st) = n \<and> distinct (wp_slots st) \<and> wp_timeouts st < n \<and>
    (\<forall>s \<in> set (wp_slots st). ws_busy (wp_heap st ! s) = (\<exists>d ph. wp_flight st d = Some (s, ph))) \<and>
    (wp_queue st = [] \<or> (\<forall>s \<in> set (wp_slots st). ws_busy (wp_heap st ! s))) \<and>
    (\<forall>s \<in> set (wp_slots st). ws_alive (wp_heap st ! s) \<or> (\<exists>d. wp_flight st d = Some (s, Late))) \<and>
    sorted_wrt (<) (wp_queue st) \<and> (\<forall>e \<in> dom (wp_flight st). \<forall>d \<in> set (wp_queue st). e < d)"
proof -
  have inv: "accounts st" "fit st" "serving st" "fifo st" "wp_size st = n"
    using reach_invariants [OF assms(1)] reach_fifo [OF assms(1)] reach_size [OF assms(1)] by blast+
  note D = fitD [OF inv(2)]
  have "length (wp_slots st) = n" "wp_timeouts st < n" "wp_queue st = [] \<or> idle_slot st = None"
    using inv(3,5) assms(2,3) by (auto simp: serving_def)
  moreover have "sorted_wrt (<) (wp_queue st)" "\<forall>e \<in> dom (wp_flight st). \<forall>d \<in> set (wp_queue st). e < d"
    using inv(4) assms(3) by (simp_all add: fifo_def in_order_def)
  ultimately show ?thesis using D(1) D(3) D(5) D(6) unfolding idle_slot_None by blast
qed

theorem open_pool_serves_witness: "length (wp_slots (act Dispatch (init_workers 2))) = 2"
proof -
  have "pool_reach 2 (act Dispatch (init_workers 2))" by (intro pool_reach.intros)
  then show ?thesis using open_pool_serves [of 2 "act Dispatch (init_workers 2)"]
    by (simp add: dispatch_def init_workers_def Let_def)
qed

subsection \<open>Workers that are lost\<close>

text \<open>A worker that is alive although no slot of the pool and no scan refers to it.\<close>

definition lost :: "nat \<Rightarrow> worker_pool \<Rightarrow> bool" where
  "lost w st \<longleftrightarrow>
     w < length (wp_heap st) \<and> ws_alive (wp_heap st ! w) \<and> w \<notin> set (wp_slots st) \<and> (\<forall>d ph. wp_flight st d \<noteq> Some (w, ph))"

lemma lostI:
  assumes "w < length (wp_heap st)" "ws_alive (wp_heap st ! w)" "w \<notin> set (wp_slots st)" "\<And>d ph. wp_flight st d = Some (w, ph) \<Longrightarrow> False"
  shows "lost w st"
  using assms unfolding lost_def by blast

lemma slot_update_other: "w \<noteq> s \<Longrightarrow> wp_heap (slot_update s f st) ! w = wp_heap st ! w"
  by (simp add: slot_update_heap)

lemma slot_update_alive:
  "(\<And>x. ws_alive (f x) = ws_alive x) \<Longrightarrow> ws_alive (wp_heap (slot_update s f st) ! w) = ws_alive (wp_heap st ! w)"
  by (cases "w = s"; cases "s < length (wp_heap st)") (simp_all add: slot_update_heap list_update_beyond)

lemma lost_pump_loop: "lost w st \<Longrightarrow> lost w (pump_loop q st)"
proof (induction q st rule: pump_loop.induct)
  case (2 d q st)
  show ?case
  proof (cases "idle_slot st")
    case None
    then show ?thesis using "2.prems" by (simp add: lost_def)
  next
    case (Some s)
    have "w \<noteq> s" using idle_slot_Some [OF Some] "2.prems" by (auto simp: lost_def)
    then have "lost w (start_scan s d st)" using "2.prems" by (auto simp: lost_def start_scan_def slot_update_other)
    from "2.IH" [OF Some this] show ?thesis using Some by simp
  qed
qed (simp add: lost_def)

lemma lost_resolve [simp]: "lost w (resolve d x v st) = lost w st"
  by (simp add: lost_def)

lemma lost_terminate: "lost w st \<Longrightarrow> w \<notin> set ss \<Longrightarrow> lost w (fold terminateQuietly ss st)"
  by (simp add: lost_def terminate_all_heap)

lemma lost_replaceSlot: "lost w st \<Longrightarrow> lost w (replaceSlot now s st)"
  by (auto simp: lost_def nth_append)

lemma lost_wholePool: "lost w st \<Longrightarrow> lost w (replaceWholePool now st)"
  using terminate_all_heap [of w "st\<lparr>wp_slots := []\<rparr>" "wp_slots st"] by (auto simp: lost_def nth_append)

lemma lost_reportTimeout: "lost w st \<Longrightarrow> lost w (snd (reportTimeout_pool now st))"
  using lost_wholePool [of w "st\<lparr>wp_timeouts := 0\<rparr>" now] by (simp add: reportTimeout_pool_def Let_def lost_def)

lemma lost_deliver: "lost w st \<Longrightarrow> lost w (deliver_message s m st)"
proof -
  assume l: "lost w st"
  have alive: "ws_alive (wp_heap (deliver_message s m st) ! w) = ws_alive (wp_heap st ! w)"
    by (auto simp: deliver_message_def Let_def slot_update_alive split: option.splits scan_phase.splits prod.splits)
  have "\<exists>ph. wp_flight st d = Some (x, ph)" if "wp_flight (deliver_message s m st) d = Some (x, p)" for d x p
    using that by (auto simp: deliver_message_def Let_def split: option.splits scan_phase.splits prod.splits if_splits)
  then show ?thesis using l alive unfolding lost_def by (auto simp del: split_paired_All) blast
qed

lemma lost_deadline: "lost w st \<Longrightarrow> lost w (deadline_hit d st)"
proof (cases "wp_flight st d")
  case (Some f)
  assume l: "lost w st"
  obtain s ph where f: "f = (s, ph)" by (cases f)
  then have "w \<noteq> s" using l Some by (auto simp: lost_def)
  then show ?thesis using l Some f
    by (cases ph) (auto simp: lost_def deadline_hit_def terminateQuietly_def slot_update_other)
qed (simp add: deadline_hit_def)

lemma lost_act: "lost w st \<Longrightarrow> lost w (act a st)"
proof (cases a)
  case Dispatch
  assume "lost w st"
  then have "lost w (st\<lparr>wp_tasks := Suc (wp_tasks st)\<rparr>)" "lost w (st\<lparr>wp_tasks := Suc (wp_tasks st), wp_queue := wp_queue st @ [wp_tasks st]\<rparr>)"
    by (simp_all add: lost_def)
  then show ?thesis using Dispatch lost_pump_loop by (simp add: dispatch_def Let_def pump_def)
next
  case (Resume d)
  assume l: "lost w st"
  show ?thesis
  proof (cases "\<exists>s r. wp_flight st d = Some (s, Answered r)")
    case True
    then obtain s r where f: "wp_flight st d = Some (s, Answered r)" by blast
    let ?st1 = "(slot_update s (\<lambda>w. w\<lparr>ws_busy := False\<rparr>) st)\<lparr>wp_flight := (wp_flight st)(d := None)\<rparr>"
    have "lost w ?st1" "lost w (reportSuccess_pool ?st1)"
      using l by (auto simp: lost_def slot_update_alive reportSuccess_pool_def)
    then show ?thesis using Resume f lost_pump_loop
      by (cases r) (simp_all add: resume_answered_def Let_def pump_resolve pump_def)
  qed (simp add: Resume resume_idle l)
next
  case (Worker_gone now d)
  assume l: "lost w st"
  show ?thesis
  proof (cases "\<exists>s. wp_flight st d = Some (s, Late)")
    case True
    then obtain s where f: "wp_flight st d = Some (s, Late)" by blast
    obtain v where v: "worker_gone now d st = resolve d TimedOut None (pump
       ((snd (reportTimeout_pool now (replaceSlot now s (st\<lparr>wp_flight := (wp_flight st)(d := None)\<rparr>))))\<lparr>wp_warnings := v\<rparr>))"
      using worker_gone_late [OF f] by blast
    have "lost w (st\<lparr>wp_flight := (wp_flight st)(d := None)\<rparr>)" using l by (auto simp: lost_def)
    from lost_reportTimeout [OF lost_replaceSlot [OF this]]
    show ?thesis unfolding Worker_gone act.simps v lost_resolve pump_def by (intro lost_pump_loop) (simp add: lost_def)
  qed (simp add: Worker_gone gone_idle l)
next
  case Close
  assume l: "lost w st"
  let ?st1 = "st\<lparr>wp_drained := True, wp_closing := True, wp_slots := []\<rparr>"
  have "lost w ?st1" using l by (simp add: lost_def)
  then have "lost w (fold (\<lambda>s. deliver_message s m) ss ?st1)" for ss m
    by (induction ss rule: rev_induct) (simp_all add: lost_deliver)
  then show ?thesis using Close l by (auto simp: close_pool_def lost_def [of w st] intro!: lost_terminate)
next
  case Workers_closed
  assume "lost w st"
  then show ?thesis using Workers_closed by (simp add: closed_workers_def lost_def fail_all)
qed (simp_all add: lost_deliver lost_deadline)

lemma lost_for_ever: "lost w st \<Longrightarrow> lost w (fold act as st)"
  by (induction as arbitrary: st) (simp_all add: lost_act)

text \<open>
  A scan that outlives its slot costs a worker: when the pool was replaced as a whole, or closed, while
  a scan was under way, the end of that scan starts a worker that no slot refers to. Nothing the
  pool does afterwards, closing included, uses it or terminates it, so the number of threads is not bounded by
  the size of the pool, and a closed pool leaves threads behind.
\<close>

theorem stale_scan_leaks_a_worker:
  assumes "pool_reach n st" "wp_flight st d = Some (s, Late)" "s \<notin> set (wp_slots st)"
  shows "\<exists>w. w \<notin> set (wp_slots st) \<and> (\<forall>as. lost w (fold act as (act (Worker_gone now d) st)))"
proof -
  let ?w = "length (wp_heap st)" and ?st1 = "st\<lparr>wp_flight := (wp_flight st)(d := None)\<rparr>"
  note D = fitD [of "wp_slots st" "wp_heap st" "wp_flight st"]
  have f: "fit st" using reach_invariants [OF assms(1)] by blast
  have w: "?w \<notin> set (wp_slots st)" using D(2) [OF f] by blast
  have "lost ?w (replaceSlot now s ?st1)"
  proof (rule lostI)
    show "?w \<notin> set (wp_slots (replaceSlot now s ?st1))" using w assms(3) by auto
    show "wp_flight (replaceSlot now s ?st1) e = Some (?w, ph) \<Longrightarrow> False" for e ph
      using D(3) [OF f, of e ?w ph] by (auto split: if_splits)
  qed (simp_all add: fresh_slot_def)
  note first = lost_reportTimeout [OF this]
  obtain v where v: "worker_gone now d st = resolve d TimedOut None (pump
     ((snd (reportTimeout_pool now (replaceSlot now s ?st1)))\<lparr>wp_warnings := v\<rparr>))"
    using worker_gone_late [OF assms(2)] by blast
  have "lost ?w (act (Worker_gone now d) st)"
    unfolding act.simps v lost_resolve pump_def by (intro lost_pump_loop) (use first in \<open>simp add: lost_def\<close>)
  then show ?thesis using w lost_for_ever by blast
qed

text \<open>Two slow scans replace the pool under a third one.\<close>

definition overtaken :: "pool_action list" where
  "overtaken = [Dispatch, Dispatch, Deadline 0, Worker_gone 0 0, Dispatch, Deadline 1, Worker_gone 0 1, Deadline 2]"

lemma overtaken_reach: "pool_reach 2 (fold act overtaken (init_workers 2))"
  unfolding overtaken_def by (simp only: fold_simps) (intro pool_reach.intros)

lemma overtaken_state:
  "wp_flight (fold act overtaken (init_workers 2)) 2 = Some (2, Late)" "wp_slots (fold act overtaken (init_workers 2)) = [4, 5]"
  by code_simp+

theorem stale_scan_leaks_a_worker_witness:
  "\<exists>w. w \<notin> {4, 5} \<and> (\<forall>as. lost w (fold act as (act (Worker_gone 0 2) (fold act overtaken (init_workers 2)))))"
  using stale_scan_leaks_a_worker [OF overtaken_reach overtaken_state(1), of 0] by (simp add: overtaken_state(2))

subsection \<open>The verdict of a worker\<close>

lemma worker_loop_batch: "worker_loop re s i room = take room (findall_from re s i)"
proof (induction room arbitrary: i)
  case (Suc room)
  then show ?case by (subst findall_from.simps) (simp split: option.splits)
qed simp

lemma message_keys:
  "text_of ''workerError'' \<noteq> text_of ''candidates''" "text_of ''index'' \<noteq> text_of ''text''"
  "text_of ''groups'' \<noteq> text_of ''text''" "text_of ''groups'' \<noteq> text_of ''index''"
  by (simp_all add: text_of_def)

lemma text_values_texts: "text_values (map M_text ts) = ts"
  by (induction ts) simp_all

lemma candidate_read:
  "read_candidate (candidate_message m) = Some \<lparr>rc_text = mt_text m, rc_index = mt_index m, rc_groups = mt_text m # mt_groups m\<rparr>"
  using message_keys text_values_texts [of "mt_text m # mt_groups m"] by (simp add: read_candidate_def candidate_message_def)

lemma worker_answer:
  "answer_of (workerScript (Some re) content) =
   Some (map (\<lambda>m. \<lparr>rc_text = mt_text m, rc_index = mt_index m, rc_groups = mt_text m # mt_groups m\<rparr>)
     (take MAX_CANDIDATES_PER_SCAN (findall_from re content 0)))"
proof -
  have "List.map_filter read_candidate (map candidate_message ms) =
      map (\<lambda>m. \<lparr>rc_text = mt_text m, rc_index = mt_index m, rc_groups = mt_text m # mt_groups m\<rparr>) ms" for ms
    by (induction ms) (simp_all add: candidate_read)
  then show ?thesis
    using message_keys(1) by (simp add: answer_of_def workerScript_def extractCandidates_def worker_loop_batch)
qed

lemma findall_input: "m \<in> set (findall_from re s i) \<Longrightarrow> mt_input m = s"
proof (induction re s i rule: findall_from.induct)
  case (1 re s i)
  show ?case
  proof (cases "exec_from re s i")
    case None
    then show ?thesis using "1.prems" by (subst (asm) findall_from.simps) simp
  next
    case (Some x)
    then have "mt_input x = s" by (auto simp: exec_from_def dest: exec_at_index split: option.splits)
    moreover have "m = x \<or> m \<in> set (findall_from re s (if mt_text x = [] then Suc (match_end x) else match_end x))"
      using "1.prems" Some by (subst (asm) findall_from.simps) simp
    ultimately show ?thesis using "1.IH" [OF Some] by blast
  qed
qed

definition worker_verdict ::
  "pattern_tables \<Rightarrow> scan_pattern \<Rightarrow> jtext \<Rightarrow> jtext \<Rightarrow> nat list \<Rightarrow> rat \<Rightarrow> regex_threat option scan_outcome" where
  "worker_verdict T p content ctx binaryPrefix elapsed =
     run_worker_scan elapsed
       (\<lambda>cs. Some (firstAcceptedRegexThreat T (map (execArrayFromCandidate content) cs) (sc_compiled p) (sc_category p) ctx (Some binaryPrefix)))
       \<lparr>so_status = Completed, so_value = answer_of (workerScript (Some (cp_re (sc_compiled p) (sc_custom p))) content), so_elapsed = 0\<rparr>"

lemma worker_verdict_batch:
  "worker_verdict T p content ctx bp elapsed =
   \<lparr>so_status = Completed,
    so_value = Some (firstAcceptedRegexThreat T (take MAX_CANDIDATES_PER_SCAN (findall_from (cp_re (sc_compiled p) (sc_custom p)) content 0))
      (sc_compiled p) (sc_category p) ctx (Some bp)), so_elapsed = elapsed\<rparr>"
proof -
  let ?ms = "findall_from (cp_re (sc_compiled p) (sc_custom p)) content 0"
  have "execArrayFromCandidate content \<lparr>rc_text = mt_text m, rc_index = mt_index m, rc_groups = mt_text m # mt_groups m\<rparr> = m"
    if "m \<in> set (take MAX_CANDIDATES_PER_SCAN ?ms)" for m
    using findall_input [OF in_set_takeD [OF that]] by (simp add: execArrayFromCandidate_def)
  then have "map (execArrayFromCandidate content \<circ> (\<lambda>m. \<lparr>rc_text = mt_text m, rc_index = mt_index m, rc_groups = mt_text m # mt_groups m\<rparr>))
      (take MAX_CANDIDATES_PER_SCAN ?ms) = take MAX_CANDIDATES_PER_SCAN ?ms"
    by (intro map_idI) simp
  then show ?thesis by (simp add: worker_verdict_def worker_answer run_worker_scan_def)
qed

lemma plain_verdict:
  "\<not> hasStructuralMatcher T (sc_source p) \<Longrightarrow>
   checkRegexPattern T p content ctx bp =
     firstAcceptedRegexThreat T (findall_from (cp_re (sc_compiled p) (sc_custom p)) content 0) (sc_compiled p) (sc_category p) ctx (Some bp)"
  by (simp add: checkRegexPattern_def hasStructuralMatcher_def Let_def)

lemma first_accepted_take:
  "\<exists>m \<in> set (take n ms). buildRegexThreat T c' m cat ctx bp \<noteq> None \<Longrightarrow>
   firstAcceptedRegexThreat T (take n ms) c' cat ctx bp = firstAcceptedRegexThreat T ms c' cat ctx bp"
proof (induction ms arbitrary: n)
  case (Cons m ms)
  then show ?case by (cases n) (auto split: option.splits)
qed simp

text \<open>
  A scan on a worker has the verdict of the scan on the calling thread: for a pattern without a matcher of
  its own, the candidates that the worker finds, sends, and the pool reads back and validates, give the same
  threat, provided that they fit into one batch or that one of the batch is accepted.
\<close>

theorem worker_verdict_agrees:
  assumes "\<not> hasStructuralMatcher T (sc_source p)"
    "length (findall_from (cp_re (sc_compiled p) (sc_custom p)) content 0) \<le> MAX_CANDIDATES_PER_SCAN \<or>
     (\<exists>m \<in> set (take MAX_CANDIDATES_PER_SCAN (findall_from (cp_re (sc_compiled p) (sc_custom p)) content 0)).
        buildRegexThreat T (sc_compiled p) m (sc_category p) ctx (Some bp) \<noteq> None)"
  shows "worker_verdict T p content ctx bp elapsed =
    \<lparr>so_status = Completed, so_value = Some (checkRegexPattern T p content ctx bp), so_elapsed = elapsed\<rparr>"
proof -
  let ?ms = "findall_from (cp_re (sc_compiled p) (sc_custom p)) content 0"
  let ?first = "\<lambda>ms. firstAcceptedRegexThreat T ms (sc_compiled p) (sc_category p) ctx (Some bp)"
  have "?first (take MAX_CANDIDATES_PER_SCAN ?ms) = ?first ?ms" using assms(2)
  proof
    assume "length ?ms \<le> MAX_CANDIDATES_PER_SCAN"
    then show ?thesis by simp
  qed (rule first_accepted_take)
  then show ?thesis by (simp only: worker_verdict_batch plain_verdict [OF assms(1)])
qed

text \<open>
  A full batch hides an attack: if the first sixty-four matches of a pattern are rejected by its validator
  and a later one is accepted, the scan on the calling thread finds the threat and the worker reports a
  completed scan without one, so padding a request with harmless matches evades the pattern.
\<close>

theorem full_batch_hides_attack:
  assumes "\<not> hasStructuralMatcher T (sc_source p)"
    "\<forall>m \<in> set (take MAX_CANDIDATES_PER_SCAN (findall_from (cp_re (sc_compiled p) (sc_custom p)) content 0)).
       buildRegexThreat T (sc_compiled p) m (sc_category p) ctx (Some bp) = None"
    "m \<in> set (findall_from (cp_re (sc_compiled p) (sc_custom p)) content 0)"
    "buildRegexThreat T (sc_compiled p) m (sc_category p) ctx (Some bp) \<noteq> None"
  shows "checkRegexPattern T p content ctx bp \<noteq> None \<and>
    worker_verdict T p content ctx bp elapsed = \<lparr>so_status = Completed, so_value = Some None, so_elapsed = elapsed\<rparr>"
proof
  show "checkRegexPattern T p content ctx bp \<noteq> None"
    using assms(3,4) by (auto simp: plain_verdict [OF assms(1)] first_accepted_None)
  have "firstAcceptedRegexThreat T (take MAX_CANDIDATES_PER_SCAN (findall_from (cp_re (sc_compiled p) (sc_custom p)) content 0))
      (sc_compiled p) (sc_category p) ctx (Some bp) = None"
    using assms(2) unfolding first_accepted_None .
  then show "worker_verdict T p content ctx bp elapsed = \<lparr>so_status = Completed, so_value = Some None, so_elapsed = elapsed\<rparr>"
    by (simp only: worker_verdict_batch)
qed

text \<open>A pattern whose validator accepts from position 64 on, and a text of brackets.\<close>

definition late_tables :: pattern_tables where
  "late_tables = bare_tables\<lparr>tb_validators := [([60], \<lambda>m ctx. 64 \<le> mt_index m)]\<rparr>"

definition bracket_match :: "nat \<Rightarrow> nat \<Rightarrow> rx_match" where
  "bracket_match n j = \<lparr>mt_text = [60], mt_index = j, mt_groups = [], mt_input = replicate n 60\<rparr>"

lemma exec_brackets: "exec_from (cp_re bracket k) (replicate n 60) i = (if i < n then Some (bracket_match n i) else None)"
proof (cases "i < n")
  case True
  then have "[i..<Suc n] = i # [Suc i..<Suc n]" by (intro upt_conv_Cons) simp
  then show ?thesis using True
    by (simp add: exec_from_def exec_at_def bracket_def bracket_match_def take_Suc del: upt_Suc)
next
  case False
  then have "List.find (\<lambda>j. exec_at (cp_re bracket k) (replicate n 60) j \<noteq> None) [i..<Suc n] = None"
    by (auto simp: find_None_iff exec_at_def bracket_def)
  then show ?thesis using False by (simp add: exec_from_def del: upt_Suc)
qed

lemma all_brackets: "findall_from (cp_re bracket k) (replicate n 60) i = map (bracket_match n) [i..<n]"
proof (induction "n - i" arbitrary: i)
  case 0
  then show ?case by (subst findall_from.simps) (simp add: exec_brackets)
next
  case (Suc x)
  then have "i < n" by simp
  then show ?case using Suc(1) [of "Suc i"] Suc(2)
    by (subst findall_from.simps) (simp add: exec_brackets bracket_match_def match_end_def upt_conv_Cons)
qed

lemma brackets_plain: "\<not> hasStructuralMatcher late_tables (sc_source (table_pattern bracket_entry))"
  by (simp add: hasStructuralMatcher_def windowedFinderFor_def scanMatcherFor_def scanWindowBoundsFor_def late_tables_def bare_tables_def)

lemma late_built: "buildRegexThreat late_tables (sc_compiled (table_pattern bracket_entry)) m cat ctx bp = None \<longleftrightarrow> mt_index m < 64"
  by (auto simp: buildRegexThreat_def validatorFor_def late_tables_def bare_tables_def table_pattern_def bracket_entry_def bracket_def)

lemma bracket_parts: "cp_re (sc_compiled (table_pattern bracket_entry)) b = cp_re bracket b"
  by (simp add: table_pattern_def bracket_entry_def)

theorem worker_verdict_agrees_witness:
  "worker_verdict late_tables (table_pattern bracket_entry) (replicate 3 60) UNKNOWN [] 1 =
   \<lparr>so_status = Completed,
    so_value = Some (checkRegexPattern late_tables (table_pattern bracket_entry) (replicate 3 60) UNKNOWN []), so_elapsed = 1\<rparr>"
  by (rule worker_verdict_agrees [OF brackets_plain]) (simp add: bracket_parts all_brackets MAX_CANDIDATES_PER_SCAN_def)

theorem full_batch_hides_attack_witness:
  "checkRegexPattern late_tables (table_pattern bracket_entry) (replicate 65 60) UNKNOWN [] \<noteq> None \<and>
   worker_verdict late_tables (table_pattern bracket_entry) (replicate 65 60) UNKNOWN [] 1 =
     \<lparr>so_status = Completed, so_value = Some None, so_elapsed = 1\<rparr>"
  by (rule full_batch_hides_attack [OF brackets_plain, where m = "bracket_match 65 64"])
    (auto simp: bracket_parts all_brackets late_built MAX_CANDIDATES_PER_SCAN_def bracket_match_def take_map)

end
