(* ===== verification/Pattern_Monitor.thy ===== *)
theory Pattern_Monitor
  imports Bounded_Store Js_Text Complex_Main
begin

section \<open>Statistics of the patterns (detection-engine/monitor.ts)\<close>

text \<open>
  The monitor counts what every pattern did, reports anomalies to the agent and to callbacks, and answers
  questions about slow patterns. Times are reals, Infinity as the least time is \<open>None\<close>. A callback is a
  function from what it is given to the message of what it throws; what the monitor does to the outside
  is a list of effects. The clock is an argument. Everything that changes the state happens before the first
  \<open>await\<close>, so an operation is one function on the state.
\<close>

definition MAX_RECENT_TIMES :: nat where "MAX_RECENT_TIMES = 100"
definition MAX_PATTERN_LENGTH :: nat where "MAX_PATTERN_LENGTH = 100"
definition MIN_SAMPLES_FOR_STATS :: nat where "MIN_SAMPLES_FOR_STATS = 10"

record performance_metric =
  pm_pattern :: jtext
  pm_time :: real
  pm_size :: int
  pm_at :: real
  pm_matched :: bool
  pm_timeout :: bool

record pattern_stats =
  ps_pattern :: jtext
  ps_executions :: nat
  ps_matches :: nat
  ps_timeouts :: nat
  ps_avg :: real
  ps_max :: real
  ps_min :: "real option"
  ps_recent :: "real list"

record pattern_report =
  rp_pattern :: jtext
  rp_hash :: jtext
  rp_executions :: nat
  rp_matches :: nat
  rp_timeouts :: nat
  rp_match_rate :: real
  rp_timeout_rate :: real
  rp_avg :: real
  rp_max :: real
  rp_min :: real
  rp_issue :: "jtext option"

datatype pool_change = Quarantined_pattern | Released_pattern

datatype anomaly =
    Timeout_anomaly (an_pattern: jtext) int
  | Slow_execution (an_pattern: jtext) real int
  | Statistical_anomaly (an_pattern: jtext) real real real real

datatype monitor_note = Anomaly_note anomaly jtext | Pool_note pool_change jtext jtext

datatype monitor_event =
    Anomaly_event anomaly "jtext option"
  | Callback_error jtext monitor_note "jtext option"
  | Pool_change_event pool_change "jtext option"

datatype monitor_effect = To_agent monitor_event | To_callback nat monitor_note

type_synonym anomaly_callback = "monitor_note \<Rightarrow> jtext option"

record monitor =
  mo_anomaly_threshold :: real
  mo_slow_threshold :: real
  mo_history :: nat
  mo_tracked :: nat
  mo_cooldown :: real
  mo_last_emit :: "(jtext, real) omap"
  mo_stats :: "(jtext, pattern_stats) omap"
  mo_recent :: "performance_metric list"
  mo_callbacks :: "anomaly_callback list"

subsection \<open>Arithmetic and texts\<close>

definition mean :: "real list \<Rightarrow> real" where
  "mean xs = (if xs = [] then 0 else sum_list xs / real (length xs))"

definition stdev :: "real list \<Rightarrow> real" where
  "stdev xs =
     (if length xs \<le> 1 then 0
      else sqrt (sum_list (map (\<lambda>v. (v - mean xs)\<^sup>2) xs) / real (length xs - 1)))"

definition truncatePattern :: "jtext \<Rightarrow> jtext" where
  "truncatePattern p = (if 50 < length p then take 50 p @ text_of ''...'' else p)"

text \<open>\<open>(hash << 5) - hash + c\<close> is exact in doubles and \<open>hash |= 0\<close> wraps it, so the loop works on 32 bits.\<close>

definition hash_unit :: "32 word \<Rightarrow> nat \<Rightarrow> 32 word" where
  "hash_unit h c = push_bit 5 h - h + of_nat c"

definition patternHash :: "jtext \<Rightarrow> jtext" where
  "patternHash p = take 8 (text_of (show_int (sint (foldl hash_unit 0 p))))"

definition metric_key :: "jtext \<Rightarrow> jtext" where
  "metric_key p = (if MAX_PATTERN_LENGTH < length p then take MAX_PATTERN_LENGTH p @ text_of ''...[truncated]'' else p)"

definition clamp :: "'a \<Rightarrow> 'a \<Rightarrow> 'a \<Rightarrow> 'a :: linorder" where "clamp lo hi x = max lo (min hi x)"

definition new_monitor :: "real \<Rightarrow> real \<Rightarrow> nat \<Rightarrow> nat \<Rightarrow> real \<Rightarrow> monitor" where
  "new_monitor anomalyThreshold slowThreshold historySize maxTracked cooldownSeconds =
     \<lparr>mo_anomaly_threshold = clamp 1 10 anomalyThreshold, mo_slow_threshold = clamp (1 / 100) 10 slowThreshold,
      mo_history = clamp 100 10000 historySize, mo_tracked = clamp 100 5000 maxTracked,
      mo_cooldown = clamp 1 3600 cooldownSeconds, mo_last_emit = [], mo_stats = [], mo_recent = [], mo_callbacks = []\<rparr>"

subsection \<open>Recording\<close>

definition fresh_stats :: "jtext \<Rightarrow> pattern_stats" where
  "fresh_stats key =
     \<lparr>ps_pattern = key, ps_executions = 0, ps_matches = 0, ps_timeouts = 0, ps_avg = 0, ps_max = 0, ps_min = None, ps_recent = []\<rparr>"

definition push_capped :: "nat \<Rightarrow> 'a \<Rightarrow> 'a list \<Rightarrow> 'a list" where
  "push_capped n x xs = (let ys = xs @ [x] in if n < length ys then tl ys else ys)"

definition count_metric :: "performance_metric \<Rightarrow> pattern_stats \<Rightarrow> pattern_stats" where
  "count_metric m s =
     (let s1 = s\<lparr>ps_executions := Suc (ps_executions s),
                 ps_matches := ps_matches s + (if pm_matched m then 1 else 0),
                 ps_timeouts := ps_timeouts s + (if pm_timeout m then 1 else 0)\<rparr>
      in if pm_timeout m then s1
         else
           let recent = push_capped MAX_RECENT_TIMES (pm_time m) (ps_recent s1)
           in s1\<lparr>ps_recent := recent, ps_max := max (ps_max s1) (pm_time m),
                 ps_min := Some (case ps_min s1 of None \<Rightarrow> pm_time m | Some x \<Rightarrow> min x (pm_time m)),
                 ps_avg := (if recent \<noteq> [] then mean recent else ps_avg s1)\<rparr>)"

text \<open>A new pattern pushes out the one that was tracked first.\<close>

definition put_stats :: "nat \<Rightarrow> jtext \<Rightarrow> pattern_stats \<Rightarrow> (jtext, pattern_stats) omap \<Rightarrow> (jtext, pattern_stats) omap" where
  "put_stats n key s m =
     AList.update key s (if map_of m key = None \<and> n \<le> length m then tl m else m)"

definition stats_of :: "jtext \<Rightarrow> (jtext, pattern_stats) omap \<Rightarrow> pattern_stats" where
  "stats_of key m = (case map_of m key of Some s \<Rightarrow> s | None \<Rightarrow> fresh_stats key)"

definition found_anomalies :: "monitor \<Rightarrow> performance_metric \<Rightarrow> anomaly list" where
  "found_anomalies st m =
     (if pm_timeout m then [Timeout_anomaly (pm_pattern m) (pm_size m)]
      else if mo_slow_threshold st < pm_time m then [Slow_execution (pm_pattern m) (pm_time m) (pm_size m)] else []) @
     (case map_of (mo_stats st) (pm_pattern m) of
        None \<Rightarrow> []
      | Some s \<Rightarrow>
          if MIN_SAMPLES_FOR_STATS \<le> length (ps_recent s) then
            let avg = mean (ps_recent s); std = stdev (ps_recent s)
            in if 0 < std then
                 let z = (pm_time m - avg) / std
                 in if mo_anomaly_threshold st < \<bar>z\<bar>
                    then [Statistical_anomaly (pm_pattern m) (pm_time m) z avg std] else []
               else []
          else [])"

fun with_pattern :: "jtext \<Rightarrow> anomaly \<Rightarrow> anomaly" where
  "with_pattern p (Timeout_anomaly _ n) = Timeout_anomaly p n"
| "with_pattern p (Slow_execution _ t n) = Slow_execution p t n"
| "with_pattern p (Statistical_anomaly _ t z a s) = Statistical_anomaly p t z a s"

definition safe_note :: "anomaly \<Rightarrow> monitor_note" where
  "safe_note a = Anomaly_note (with_pattern (truncatePattern (an_pattern a)) a) (patternHash (an_pattern a))"

text \<open>A callback that throws is reported to the agent, if there is one.\<close>

definition call_anomaly :: "bool \<Rightarrow> jtext option \<Rightarrow> monitor_note \<Rightarrow> nat \<times> anomaly_callback \<Rightarrow> monitor_effect list" where
  "call_anomaly agent correlation note = (\<lambda>(i, callback).
     To_callback i note #
     (case callback note of
        Some msg \<Rightarrow> if agent then [To_agent (Callback_error msg note correlation)] else []
      | None \<Rightarrow> []))"

definition notify_callbacks :: "monitor \<Rightarrow> bool \<Rightarrow> jtext option \<Rightarrow> anomaly list \<Rightarrow> monitor_effect list" where
  "notify_callbacks st agent correlation as =
     concat (map (\<lambda>a. concat (map (call_anomaly agent correlation (safe_note a)) (List.enumerate 0 (mo_callbacks st)))) as)"

definition cooling :: "monitor \<Rightarrow> jtext \<Rightarrow> real \<Rightarrow> bool" where
  "cooling st p now \<longleftrightarrow> (case map_of (mo_last_emit st) p of None \<Rightarrow> False | Some last_time \<Rightarrow> now - last_time < mo_cooldown st)"

definition checkAnomalies ::
  "real \<Rightarrow> performance_metric \<Rightarrow> bool \<Rightarrow> jtext option \<Rightarrow> monitor \<Rightarrow> monitor_effect list \<times> monitor" where
  "checkAnomalies now m agent correlation st =
     (let as = found_anomalies st m
      in if agent \<and> as \<noteq> [] then
           (if cooling st (pm_pattern m) now then ([], st)
            else
              (map (\<lambda>a. To_agent (Anomaly_event a correlation)) as @ notify_callbacks st agent correlation as,
               st\<lparr>mo_last_emit := AList.update (pm_pattern m) now (mo_last_emit st)\<rparr>))
         else (notify_callbacks st agent correlation as, st))"

definition recordMetric ::
  "real \<Rightarrow> jtext \<Rightarrow> real \<Rightarrow> int \<Rightarrow> bool \<Rightarrow> bool \<Rightarrow> bool \<Rightarrow> jtext option \<Rightarrow> monitor \<Rightarrow> monitor_effect list \<times> monitor" where
  "recordMetric now p time len matched timeout agent correlation st =
     (let key = metric_key p;
          m = \<lparr>pm_pattern = key, pm_time = max 0 time, pm_size = max 0 len, pm_at = now, pm_matched = matched, pm_timeout = timeout\<rparr>
      in checkAnomalies now m agent correlation
           (st\<lparr>mo_recent := push_capped (mo_history st) m (mo_recent st),
               mo_stats := put_stats (mo_tracked st) key (count_metric m (stats_of key (mo_stats st))) (mo_stats st)\<rparr>))"

definition recordPoolEvent :: "pool_change \<Rightarrow> jtext \<Rightarrow> bool \<Rightarrow> jtext option \<Rightarrow> monitor \<Rightarrow> monitor_effect list" where
  "recordPoolEvent kind p agent correlation st =
     (if agent then [To_agent (Pool_change_event kind correlation)] else []) @
     map (\<lambda>i. To_callback i (Pool_note kind (truncatePattern p) (patternHash p))) [0..<length (mo_callbacks st)]"

subsection \<open>Reports\<close>

definition round4 :: "real \<Rightarrow> real" where "round4 x = of_int \<lfloor>x * 10000 + 1 / 2\<rfloor> / 10000"

definition getPatternReport :: "jtext \<Rightarrow> monitor \<Rightarrow> pattern_report option" where
  "getPatternReport p st =
     map_option (\<lambda>s.
       \<lparr>rp_pattern = truncatePattern (metric_key p), rp_hash = patternHash (metric_key p),
        rp_executions = ps_executions s, rp_matches = ps_matches s, rp_timeouts = ps_timeouts s,
        rp_match_rate = real (ps_matches s) / real (max (ps_executions s) 1),
        rp_timeout_rate = real (ps_timeouts s) / real (max (ps_executions s) 1),
        rp_avg = round4 (ps_avg s), rp_max = round4 (ps_max s),
        rp_min = round4 (case ps_min s of None \<Rightarrow> 0 | Some x \<Rightarrow> x), rp_issue = None\<rparr>)
     (map_of (mo_stats st) (metric_key p))"

definition getSlowPatterns :: "nat \<Rightarrow> monitor \<Rightarrow> pattern_report list" where
  "getSlowPatterns n st =
     List.map_filter (\<lambda>(p, s). getPatternReport p st)
       (take n (sort_key (\<lambda>(p, s). - ps_avg s) (filter (\<lambda>(p, s). ps_recent s \<noteq> []) (mo_stats st))))"

definition problem_of :: "monitor \<Rightarrow> pattern_stats \<Rightarrow> jtext option" where
  "problem_of st s =
     (if ps_executions s = 0 then None
      else if 1 / 10 < real (ps_timeouts s) / real (ps_executions s) then Some (text_of ''high_timeout_rate'')
      else if mo_slow_threshold st < ps_avg s then Some (text_of ''consistently_slow'')
      else None)"

definition getProblematicPatterns :: "monitor \<Rightarrow> pattern_report list" where
  "getProblematicPatterns st =
     List.map_filter (\<lambda>(p, s).
       (case problem_of st s of
          None \<Rightarrow> None
        | Some issue \<Rightarrow> map_option (\<lambda>r. r\<lparr>rp_issue := Some issue\<rparr>) (getPatternReport p st))) (mo_stats st)"

record summary_stats =
  sm_executions :: nat
  sm_avg :: real
  sm_max :: real
  sm_min :: real
  sm_timeout_rate :: real
  sm_match_rate :: real
  sm_patterns :: nat

text \<open>Without metrics the summary has four fields, all zero; \<open>None\<close> stands for it.\<close>

definition getSummaryStats :: "monitor \<Rightarrow> summary_stats option" where
  "getSummaryStats st =
     (if mo_recent st = [] then None
      else
        let times = map pm_time (filter (\<lambda>m. \<not> pm_timeout m) (mo_recent st)); n = length (mo_recent st)
        in Some \<lparr>sm_executions = n, sm_avg = (if times \<noteq> [] then mean times else 0),
                 sm_max = (if times \<noteq> [] then Max (set times) else 0), sm_min = (if times \<noteq> [] then Min (set times) else 0),
                 sm_timeout_rate = real (length (filter pm_timeout (mo_recent st))) / real n,
                 sm_match_rate = real (length (filter pm_matched (mo_recent st))) / real n,
                 sm_patterns = length (mo_stats st)\<rparr>)"

definition registerAnomalyCallback :: "anomaly_callback \<Rightarrow> monitor \<Rightarrow> monitor" where
  "registerAnomalyCallback callback st = st\<lparr>mo_callbacks := mo_callbacks st @ [callback]\<rparr>"

definition clearStats :: "monitor \<Rightarrow> monitor" where "clearStats st = st\<lparr>mo_stats := [], mo_recent := []\<rparr>"

definition removePatternStats :: "jtext \<Rightarrow> monitor \<Rightarrow> monitor" where
  "removePatternStats p st = st\<lparr>mo_stats := AList.delete p (mo_stats st)\<rparr>"

subsection \<open>The hash\<close>

text \<open>The value of a text as a polynomial in 31, the last unit first.\<close>

definition hash_value :: "jtext \<Rightarrow> nat" where
  "hash_value p = (\<Sum>i < length p. p ! i * 31 ^ (length p - 1 - i))"

lemma hash_value_snoc: "hash_value (p @ [c]) = 31 * hash_value p + c"
proof -
  have "(\<Sum>i < length p. (p @ [c]) ! i * 31 ^ (length p - i)) = (\<Sum>i < length p. 31 * (p ! i * 31 ^ (length p - 1 - i)))"
  proof (rule sum.cong)
    fix i assume "i \<in> {..<length p}"
    then have i: "i < length p" by simp
    then have "length p - i = Suc (length p - 1 - i)" by simp
    then show "(p @ [c]) ! i * 31 ^ (length p - i) = 31 * (p ! i * 31 ^ (length p - 1 - i))" using i by (simp add: nth_append)
  qed simp
  then show ?thesis by (simp add: hash_value_def sum_distrib_left)
qed

lemma hash_unit_31: "hash_unit h c = 31 * h + of_nat c"
  by (simp add: hash_unit_def push_bit_eq_mult algebra_simps)

lemma hash_word: "foldl hash_unit 0 p = of_nat (hash_value p)"
  by (induction p rule: rev_induct) (simp_all add: hash_value_def [of "[]"] hash_unit_31 hash_value_snoc)

text \<open>
  The hash that stands for a pattern in reports is the classical one: the polynomial in 31 over the
  units of the text, reduced to a signed number of 32 bits, cut to eight characters; the
  shift, the subtraction and the wrap of the loop compute exactly that for texts of every length.
\<close>

theorem pattern_hash_exact:
  "patternHash p = take 8 (text_of (show_int (signed_take_bit 31 (int (hash_value p)))))"
proof -
  have "sint (of_nat (hash_value p) :: 32 word) = signed_take_bit 31 (int (hash_value p))"
  proof -
    have "(of_nat (hash_value p) :: 32 word) = word_of_int (int (hash_value p))" by simp
    then show ?thesis by (simp only: sint_sbintrunc') simp
  qed
  then show ?thesis by (simp add: patternHash_def hash_word)
qed

subsection \<open>The states of a monitor\<close>

lemma metric_key_short: "length (metric_key p) \<le> 114"
  by (simp add: metric_key_def MAX_PATTERN_LENGTH_def text_of_def)

lemma metric_key_again [simp]: "metric_key (metric_key p) = metric_key p"
  by (simp add: metric_key_def MAX_PATTERN_LENGTH_def text_of_def)

definition sound_stats :: "pattern_stats \<Rightarrow> bool" where
  "sound_stats s \<longleftrightarrow>
     ps_matches s \<le> ps_executions s \<and> ps_timeouts s \<le> ps_executions s \<and> length (ps_recent s) \<le> MAX_RECENT_TIMES \<and>
     (ps_recent s \<noteq> [] \<longrightarrow> ps_avg s = mean (ps_recent s) \<and> ps_min s \<noteq> None) \<and>
     (\<forall>t \<in> set (ps_recent s). 0 \<le> t \<and> t \<le> ps_max s) \<and>
     (\<forall>t \<in> set (ps_recent s). \<forall>x. ps_min s = Some x \<longrightarrow> x \<le> t)"

definition sound :: "monitor \<Rightarrow> bool" where
  "sound st \<longleftrightarrow>
     om_ok (mo_stats st) \<and> 1 \<le> mo_tracked st \<and> length (mo_stats st) \<le> mo_tracked st \<and> length (mo_recent st) \<le> mo_history st \<and>
     mo_tracked st \<le> 5000 \<and> mo_history st \<le> 10000 \<and>
     (\<forall>(p, s) \<in> set (mo_stats st). metric_key p = p \<and> sound_stats s)"

lemma push_capped_length: "length xs \<le> n \<Longrightarrow> length (push_capped n x xs) \<le> n"
  by (simp add: push_capped_def Let_def)

lemma push_capped_set: "set (push_capped n x xs) \<subseteq> insert x (set xs)"
  by (cases xs) (auto simp: push_capped_def Let_def)

lemma push_capped_nonempty: "0 < n \<Longrightarrow> push_capped n x xs \<noteq> []"
  by (cases xs) (auto simp: push_capped_def Let_def)

lemma sound_fresh: "sound_stats (fresh_stats key)"
  by (simp add: sound_stats_def fresh_stats_def)

lemma sound_count:
  assumes "sound_stats s" "0 \<le> pm_time m"
  shows "sound_stats (count_metric m s)"
proof (cases "pm_timeout m")
  case True
  then show ?thesis using assms by (simp add: sound_stats_def count_metric_def Let_def)
next
  case False
  let ?r = "push_capped MAX_RECENT_TIMES (pm_time m) (ps_recent s)"
  have r: "?r \<noteq> []" "length ?r \<le> MAX_RECENT_TIMES" "set ?r \<subseteq> insert (pm_time m) (set (ps_recent s))"
    using push_capped_nonempty [of MAX_RECENT_TIMES "pm_time m"] push_capped_set [of MAX_RECENT_TIMES "pm_time m" "ps_recent s"]
      push_capped_length [of "ps_recent s" MAX_RECENT_TIMES "pm_time m"] assms(1)
    by (simp_all add: MAX_RECENT_TIMES_def sound_stats_def)
  have s: "0 \<le> t \<and> t \<le> ps_max s" "ps_min s = Some x \<longrightarrow> x \<le> t" "ps_min s \<noteq> None" if "t \<in> set (ps_recent s)" for t x
    using assms(1) that by (auto simp: sound_stats_def)
  have "0 \<le> t \<and> t \<le> max (ps_max s) (pm_time m)" if "t \<in> set ?r" for t
    using that r(3) s(1) assms(2) by (fastforce simp: max_def)
  moreover have "(case ps_min s of None \<Rightarrow> pm_time m | Some x \<Rightarrow> min x (pm_time m)) \<le> t" if "t \<in> set ?r" for t
    using that r(3) s(2,3) by (fastforce simp: min_def split: option.splits)
  ultimately show ?thesis using assms(1) False r by (simp add: sound_stats_def count_metric_def Let_def)
qed

lemma pushed_out: "om_ok m \<Longrightarrow> om_ok (tl m)" "map_of m k = None \<Longrightarrow> map_of (tl m) k = None"
  "map_of (tl m) k = None \<or> (om_ok m \<longrightarrow> map_of (tl m) k = map_of m k)"
proof -
  show "om_ok m \<Longrightarrow> om_ok (tl m)" by (cases m) auto
  show "map_of m k = None \<Longrightarrow> map_of (tl m) k = None" by (cases m) (auto split: if_splits)
  show "map_of (tl m) k = None \<or> (om_ok m \<longrightarrow> map_of (tl m) k = map_of m k)"
  proof (cases m)
    case (Cons x xs)
    then show ?thesis by (cases "k = fst x") (auto simp: map_of_eq_None_iff)
  qed simp
qed

definition tracked_ok :: "nat \<Rightarrow> (jtext, pattern_stats) omap \<Rightarrow> bool" where
  "tracked_ok n m \<longleftrightarrow> om_ok m \<and> length m \<le> n"

lemma put_stats_ok:
  assumes "tracked_ok (Suc n) m"
  shows "tracked_ok (Suc n) (put_stats (Suc n) key s m)"
  using assms pushed_out(1) [of m] pushed_out(2) [of m key] by (auto simp: tracked_ok_def put_stats_def om_size_update)

lemma put_stats_look: "map_of (put_stats n key s m) key = Some s"
  by (simp add: put_stats_def)

interpretation tracked: bounded_store "put_stats (Suc n)" map_of length "tracked_ok (Suc n)" "\<lambda>key. True" "Suc n" for n
proof unfold_locales
  fix m :: "(jtext, pattern_stats) omap" and k k' :: jtext and v
  assume m: "tracked_ok (Suc n) m"
  show "tracked_ok (Suc n) (put_stats (Suc n) k v m)" using m by (rule put_stats_ok)
  show "length m \<le> Suc n" using m by (simp add: tracked_ok_def)
  show "map_of (put_stats (Suc n) k v m) k = Some v" by (rule put_stats_look)
  assume neq: "k' \<noteq> k"
  show "map_of (put_stats (Suc n) k v m) k' = map_of m k'" if "length m < Suc n"
    using neq that by (simp add: put_stats_def)
  show "map_of (put_stats (Suc n) k v m) k' = map_of m k' \<or> map_of (put_stats (Suc n) k v m) k' = None"
    using neq m pushed_out(3) [of m k'] by (auto simp: put_stats_def tracked_ok_def)
qed

lemma put_stats_set: "set (put_stats n key s m) \<subseteq> insert (key, s) (set m)"
proof -
  have upd: "set (AList.update key s xs) \<subseteq> insert (key, s) (set xs)" for xs
    by (induction xs) auto
  show ?thesis using upd [of "tl m"] upd [of m] by (cases m) (auto simp: put_stats_def)
qed

inductive monitored :: "monitor \<Rightarrow> bool" where
  new: "monitored (new_monitor a t h n c)"
| recorded: "monitored st \<Longrightarrow> monitored (snd (recordMetric now p time len matched timeout agent correlation st))"
| registered: "monitored st \<Longrightarrow> monitored (registerAnomalyCallback f st)"
| cleared: "monitored st \<Longrightarrow> monitored (clearStats st)"
| removed: "monitored st \<Longrightarrow> monitored (removePatternStats p st)"

lemma checkAnomalies_keeps:
  "mo_stats (snd (checkAnomalies now m agent c st)) = mo_stats st" "mo_recent (snd (checkAnomalies now m agent c st)) = mo_recent st"
  "mo_tracked (snd (checkAnomalies now m agent c st)) = mo_tracked st" "mo_history (snd (checkAnomalies now m agent c st)) = mo_history st"
  "mo_cooldown (snd (checkAnomalies now m agent c st)) = mo_cooldown st"
  by (simp_all add: checkAnomalies_def Let_def)

lemma sound_record:
  assumes "sound st"
  shows "sound (snd (recordMetric now p time len matched timeout agent c st))"
proof -
  let ?key = "metric_key p" and ?m = "\<lparr>pm_pattern = metric_key p, pm_time = max 0 time, pm_size = max 0 len, pm_at = now, pm_matched = matched, pm_timeout = timeout\<rparr>"
  let ?s = "count_metric ?m (stats_of ?key (mo_stats st))"
  obtain n where n: "mo_tracked st = Suc n" using assms by (cases "mo_tracked st") (auto simp: sound_def)
  have "sound_stats (stats_of ?key (mo_stats st))"
    using assms sound_fresh by (auto simp: sound_def stats_of_def split: option.splits dest: map_of_SomeD)
  then have s: "sound_stats ?s" by (rule sound_count) simp
  have "tracked_ok (Suc n) (put_stats (Suc n) ?key ?s (mo_stats st))"
    using assms n by (intro put_stats_ok) (simp add: sound_def tracked_ok_def)
  moreover have "\<forall>(q, x) \<in> set (put_stats (Suc n) ?key ?s (mo_stats st)). metric_key q = q \<and> sound_stats x"
    using put_stats_set [of "Suc n" ?key ?s "mo_stats st"] assms s by (fastforce simp: sound_def)
  moreover have "length (push_capped (mo_history st) ?m (mo_recent st)) \<le> mo_history st"
    using assms by (intro push_capped_length) (simp add: sound_def)
  ultimately show ?thesis using assms n
    by (simp add: recordMetric_def Let_def sound_def checkAnomalies_keeps tracked_ok_def)
qed

lemma monitored_sound: "monitored st \<Longrightarrow> sound st"
proof (induction rule: monitored.induct)
  case (new a t h n c)
  then show ?case by (simp add: sound_def new_monitor_def clamp_def)
next
  case (removed st p)
  have "set (AList.delete p (mo_stats st)) \<subseteq> set (mo_stats st)" by (auto simp: AList.delete_eq)
  then show ?case using removed.IH length_delete_le [of p "mo_stats st"]
    by (auto simp: sound_def removePatternStats_def distinct_delete intro: order_trans)
qed (auto simp: sound_record, auto simp: sound_def registerAnomalyCallback_def clearStats_def)

lemma mean_between:
  assumes "xs \<noteq> []" "\<forall>t \<in> set xs. lo \<le> t \<and> t \<le> hi"
  shows "lo \<le> mean xs \<and> mean xs \<le> hi"
proof -
  have "real (length xs) * lo \<le> sum_list xs \<and> sum_list xs \<le> real (length xs) * hi"
    using assms(2) by (induction xs) (auto simp: algebra_simps)
  then show ?thesis using assms(1) by (simp add: mean_def field_simps)
qed

lemma round4_mono: "x \<le> y \<Longrightarrow> round4 x \<le> round4 y"
  by (simp add: round4_def divide_right_mono floor_mono)

text \<open>
  The statistics of a monitor make sense in every state its operations lead to, whatever is
  recorded: they are bounded by its limits, and in every report the rates are between nought and one,
  no pattern has more matches or timeouts than executions, and the mean time of a pattern that ran to
  its end lies between its least and its greatest time, after rounding too.
\<close>

theorem monitor_reports_sound:
  assumes "monitored st"
  shows "length (mo_stats st) \<le> 5000 \<and> length (mo_recent st) \<le> 10000 \<and>
    (\<forall>p r. getPatternReport p st = Some r \<longrightarrow>
       0 \<le> rp_match_rate r \<and> rp_match_rate r \<le> 1 \<and> 0 \<le> rp_timeout_rate r \<and> rp_timeout_rate r \<le> 1 \<and>
       rp_matches r \<le> rp_executions r \<and> rp_timeouts r \<le> rp_executions r \<and>
       (ps_recent (stats_of (metric_key p) (mo_stats st)) \<noteq> [] \<longrightarrow> rp_min r \<le> rp_avg r \<and> rp_avg r \<le> rp_max r))"
proof -
  have st: "sound st" using monitored_sound assms .
  have report: "0 \<le> rp_match_rate r \<and> rp_match_rate r \<le> 1 \<and> 0 \<le> rp_timeout_rate r \<and> rp_timeout_rate r \<le> 1 \<and>
       rp_matches r \<le> rp_executions r \<and> rp_timeouts r \<le> rp_executions r \<and>
       (ps_recent (stats_of (metric_key p) (mo_stats st)) \<noteq> [] \<longrightarrow> rp_min r \<le> rp_avg r \<and> rp_avg r \<le> rp_max r)"
    if r: "getPatternReport p st = Some r" for p r
  proof -
    obtain s where s: "map_of (mo_stats st) (metric_key p) = Some s" using r by (auto simp: getPatternReport_def)
    then have ok: "sound_stats s" using st by (auto simp: sound_def dest: map_of_SomeD)
    have avg: "(case ps_min s of None \<Rightarrow> 0 | Some x \<Rightarrow> x) \<le> ps_avg s \<and> ps_avg s \<le> ps_max s" if ne: "ps_recent s \<noteq> []"
    proof -
      obtain x where x: "ps_min s = Some x" using ok ne by (auto simp: sound_stats_def)
      have "x \<le> mean (ps_recent s) \<and> mean (ps_recent s) \<le> ps_max s"
        by (rule mean_between [OF ne]) (use ok x in \<open>auto simp: sound_stats_def\<close>)
      then show ?thesis using ok ne x by (simp add: sound_stats_def)
    qed
    have le: "ps_matches s \<le> ps_executions s" "ps_timeouts s \<le> ps_executions s" using ok by (simp_all add: sound_stats_def)
    show ?thesis using r s le avg round4_mono by (auto simp: getPatternReport_def stats_of_def)
  qed
  show ?thesis using st report by (auto simp: sound_def)
qed

theorem monitor_reports_sound_witness:
  "length (mo_stats (snd (recordMetric 0 [97] 1 1 True False False None (new_monitor 3 (1 / 10) 1000 1000 60)))) \<le> 5000"
  using monitor_reports_sound [OF monitored.recorded [OF monitored.new]] by blast

subsection \<open>The cooldown\<close>

record metric_call =
  mc_now :: real
  mc_pattern :: jtext
  mc_time :: real
  mc_size :: int
  mc_matched :: bool
  mc_timeout :: bool
  mc_agent :: bool
  mc_correlation :: "jtext option"

definition call_record :: "metric_call \<Rightarrow> monitor \<Rightarrow> monitor_effect list \<times> monitor" where
  "call_record c = recordMetric (mc_now c) (mc_pattern c) (mc_time c) (mc_size c) (mc_matched c) (mc_timeout c) (mc_agent c) (mc_correlation c)"

fun is_anomaly_event :: "monitor_effect \<Rightarrow> bool" where
  "is_anomaly_event (To_agent (Anomaly_event _ _)) = True"
| "is_anomaly_event _ = False"

text \<open>The pattern and the time of every call that sends anomaly events.\<close>

fun batches :: "metric_call list \<Rightarrow> monitor \<Rightarrow> (jtext \<times> real) list" where
  "batches [] st = []"
| "batches (c # cs) st =
     (case call_record c st of
        (es, st') \<Rightarrow> (if list_ex is_anomaly_event es then [(metric_key (mc_pattern c), mc_now c)] else []) @ batches cs st')"

lemma notify_no_event: "\<not> list_ex is_anomaly_event (notify_callbacks st agent c as)"
  by (auto simp: notify_callbacks_def call_anomaly_def list_ex_iff split: option.splits if_splits)

lemma record_emits:
  assumes "recordMetric now p time len matched timeout agent c st = (es, st')"
  shows "mo_cooldown st' = mo_cooldown st \<and>
    (if list_ex is_anomaly_event es
     then \<not> cooling st (metric_key p) now \<and> mo_last_emit st' = AList.update (metric_key p) now (mo_last_emit st)
     else mo_last_emit st' = mo_last_emit st \<or> mo_last_emit st' = AList.update (metric_key p) now (mo_last_emit st) \<and> \<not> cooling st (metric_key p) now)"
proof -
  define m where "m = \<lparr>pm_pattern = metric_key p, pm_time = max 0 time, pm_size = max 0 len, pm_at = now, pm_matched = matched, pm_timeout = timeout\<rparr>"
  define st1 where "st1 = st\<lparr>mo_recent := push_capped (mo_history st) m (mo_recent st),
    mo_stats := put_stats (mo_tracked st) (metric_key p) (count_metric m (stats_of (metric_key p) (mo_stats st))) (mo_stats st)\<rparr>"
  have c: "checkAnomalies now m agent c st1 = (es, st')" using assms by (simp add: recordMetric_def Let_def m_def st1_def)
  have same: "mo_last_emit st1 = mo_last_emit st" "mo_cooldown st1 = mo_cooldown st" "cooling st1 q now = cooling st q now" for q
    by (simp_all add: st1_def cooling_def cong: option.case_cong)
  have key: "pm_pattern m = metric_key p" by (simp add: m_def)
  let ?as = "found_anomalies st1 m"
  show ?thesis
  proof (cases "agent \<and> ?as \<noteq> []")
    case False
    then have "es = notify_callbacks st1 agent c ?as" "st' = st1" using c by (auto simp: checkAnomalies_def Let_def)
    then show ?thesis using notify_no_event [of st1 agent c ?as] same by simp
  next
    case True
    show ?thesis
    proof (cases "cooling st (metric_key p) now")
      case True
      then have "es = []" "st' = st1" using c \<open>agent \<and> ?as \<noteq> []\<close> key same by (auto simp: checkAnomalies_def Let_def)
      then show ?thesis using same by simp
    next
      case False
      then have "st' = st1\<lparr>mo_last_emit := AList.update (metric_key p) now (mo_last_emit st1)\<rparr>"
        using c True key same by (auto simp: checkAnomalies_def Let_def)
      then show ?thesis using False same by simp
    qed
  qed
qed

lemma batches_later:
  "(q, t) \<in> set (batches cs st) \<Longrightarrow> map_of (mo_last_emit st) q = Some u \<Longrightarrow> 0 < mo_cooldown st \<Longrightarrow> u + mo_cooldown st \<le> t"
proof (induction cs arbitrary: st u)
  case (Cons c cs)
  obtain es st' where c: "call_record c st = (es, st')" by (cases "call_record c st")
  let ?key = "metric_key (mc_pattern c)"
  note e = record_emits [OF c [unfolded call_record_def]]
  have cool: "\<not> cooling st ?key (mc_now c) \<Longrightarrow> q = ?key \<Longrightarrow> u + mo_cooldown st \<le> mc_now c"
    using Cons.prems(2) by (auto simp: cooling_def)
  show ?case
  proof (cases "(q, t) \<in> set (batches cs st')")
    case True
    show ?thesis
    proof (cases "mo_last_emit st' = mo_last_emit st")
      case True
      then show ?thesis using Cons.IH [OF \<open>(q, t) \<in> set (batches cs st')\<close>, of u] Cons.prems(2,3) e by auto
    next
      case False
      then have upd: "mo_last_emit st' = AList.update ?key (mc_now c) (mo_last_emit st)" "\<not> cooling st ?key (mc_now c)"
        using e by (auto split: if_splits)
      show ?thesis
      proof (cases "q = ?key")
        case True
        then have "mc_now c + mo_cooldown st \<le> t"
          using Cons.IH [OF \<open>(q, t) \<in> set (batches cs st')\<close>, of "mc_now c"] upd(1) e Cons.prems(3) by auto
        then show ?thesis using cool [OF upd(2) True] Cons.prems(3) by simp
      next
        case False
        then show ?thesis
          using Cons.IH [OF \<open>(q, t) \<in> set (batches cs st')\<close>, of u] upd(1) e Cons.prems(2,3) by (auto simp: update_conv')
      qed
    qed
  next
    case False
    then have "list_ex is_anomaly_event es" "q = ?key" "t = mc_now c" using Cons.prems(1) c by (auto split: if_splits)
    then show ?thesis using cool e by auto
  qed
qed simp

text \<open>
  The agent is not flooded: in every sequence of recorded scans, whatever the clock says, two batches of
  anomaly events for one pattern are at least the cooldown apart, and so in the order of their
  times; the constructor makes the cooldown at least one second.
\<close>

theorem anomaly_events_spaced:
  assumes "0 < mo_cooldown st"
  shows "sorted_wrt (\<lambda>(p, t) (q, u). p = q \<longrightarrow> t + mo_cooldown st \<le> u) (batches cs st)"
  using assms
proof (induction cs arbitrary: st)
  case (Cons c cs)
  obtain es st' where c: "call_record c st = (es, st')" by (cases "call_record c st")
  let ?key = "metric_key (mc_pattern c)"
  note e = record_emits [OF c [unfolded call_record_def]]
  have rest: "sorted_wrt (\<lambda>(p, t) (q, u). p = q \<longrightarrow> t + mo_cooldown st \<le> u) (batches cs st')"
    using Cons.IH [of st'] Cons.prems e by auto
  show ?case
  proof (cases "list_ex is_anomaly_event es")
    case True
    then have "map_of (mo_last_emit st') ?key = Some (mc_now c)" using e by simp
    then have "\<forall>(q, u) \<in> set (batches cs st'). ?key = q \<longrightarrow> mc_now c + mo_cooldown st \<le> u"
      using batches_later [of _ _ cs st' "mc_now c"] e Cons.prems by auto
    then show ?thesis using c rest True by auto
  next
    case False
    then show ?thesis using c rest by simp
  qed
qed simp

theorem anomaly_events_spaced_witness:
  "sorted_wrt (\<lambda>(p, t) (q, u). p = q \<longrightarrow> t + mo_cooldown (new_monitor 3 (1 / 10) 1000 1000 0) \<le> u)
     (batches [\<lparr>mc_now = 5, mc_pattern = [97], mc_time = 1, mc_size = 1, mc_matched = True, mc_timeout = True, mc_agent = True,
                mc_correlation = None\<rparr>] (new_monitor 3 (1 / 10) 1000 1000 0))"
  by (rule anomaly_events_spaced) (simp add: new_monitor_def clamp_def)

subsection \<open>What goes unnoticed\<close>

text \<open>
  The cooldown of the agent's events silences the callbacks as well: while a pattern is in its cooldown an
  anomaly calls nobody if there is an agent, and calls every callback if there is none.
\<close>

theorem cooldown_silences_callbacks:
  assumes "cooling st (pm_pattern m) now" "a \<in> set (found_anomalies st m)" "i < length (mo_callbacks st)"
  shows "fst (checkAnomalies now m True c st) = [] \<and> To_callback i (safe_note a) \<in> set (fst (checkAnomalies now m False c st))"
proof -
  have ne: "found_anomalies st m \<noteq> []" using assms(2) by (cases "found_anomalies st m") simp_all
  have "(i, mo_callbacks st ! i) \<in> set (List.enumerate 0 (mo_callbacks st))" using assms(3) by (simp add: in_set_enumerate_eq)
  then have "To_callback i (safe_note a) \<in> set (notify_callbacks st False c (found_anomalies st m))"
    using assms(2) unfolding notify_callbacks_def by (force simp: call_anomaly_def)
  then show ?thesis using assms(1) ne by (simp add: checkAnomalies_def Let_def)
qed

theorem cooldown_silences_callbacks_witness:
  "fst (checkAnomalies 10 \<lparr>pm_pattern = [97], pm_time = 1, pm_size = 1, pm_at = 10, pm_matched = True, pm_timeout = True\<rparr> True None
      ((new_monitor 3 (1 / 10) 1000 1000 60)\<lparr>mo_last_emit := [([97], 5)], mo_callbacks := [\<lambda>note. None]\<rparr>)) = []"
proof -
  let ?st = "(new_monitor 3 (1 / 10) 1000 1000 60)\<lparr>mo_last_emit := [([97], 5)], mo_callbacks := [\<lambda>note. None]\<rparr>"
  let ?m = "\<lparr>pm_pattern = [97], pm_time = 1, pm_size = 1, pm_at = 10, pm_matched = True, pm_timeout = True\<rparr>"
  have "cooling ?st (pm_pattern ?m) 10" by (simp add: cooling_def new_monitor_def clamp_def)
  moreover have "Timeout_anomaly [97] 1 \<in> set (found_anomalies ?st ?m)" by (simp add: found_anomalies_def new_monitor_def)
  ultimately show ?thesis using cooldown_silences_callbacks [of ?st ?m 10 "Timeout_anomaly [97] 1" 0 None] by simp
qed

text \<open>
  Only the statistics of short patterns are removed: statistics are kept under the truncated text, but
  removed under the text itself, so removing a pattern of more than a hundred units changes
  nothing in its report.
\<close>

theorem removal_misses_long_patterns:
  "getPatternReport p (removePatternStats p st) = (if metric_key p = p then None else getPatternReport p st)"
  by (auto simp: getPatternReport_def removePatternStats_def AList.delete_conv')

end
