(* ===== verification/Redaction.thy ===== *)
theory Redaction
  imports Pickle_Walk
begin

section \<open>Redaction of texts for logs (redaction.ts)\<close>

text \<open>
  Values of sensitive names are masked before a text is logged. The functions throw when a percent
  escape is malformed; \<open>None\<close> is that exception. The pair scanner is a state machine over the text: the
  run of name characters that ends at the current place, the unit before the run, and the text that is
  left. JSON parsing and printing, lower-casing beyond ASCII and \<open>encodeURIComponent\<close> are arguments.
\<close>

subsection \<open>Names\<close>

definition DEFAULT_SENSITIVE_LOG_HEADERS :: "jtext list" where
  "DEFAULT_SENSITIVE_LOG_HEADERS = map text_of [''authorization'', ''proxy-authorization'', ''cookie'', ''x-api-key'']"

definition DEFAULT_SENSITIVE_LOG_FIELDS :: "jtext list" where
  "DEFAULT_SENSITIVE_LOG_FIELDS = map text_of
     [''access_token'', ''refresh_token'', ''api_key'', ''apikey'', ''token'', ''password'', ''secret'', ''client_secret'',
      ''signature'']"

definition REDACTED :: jtext where "REDACTED = text_of ''[REDACTED]''"
definition MAX_NAME_DECODE_ROUNDS :: nat where "MAX_NAME_DECODE_ROUNDS = 3"
definition MAX_DECODED_NAME_LENGTH :: nat where "MAX_DECODED_NAME_LENGTH = 256"

datatype js_value = JV_scalar jtext | JV_text jtext | JV_array "js_value list" | JV_object "(jtext \<times> js_value) list"

record redaction_env =
  rd_parse :: "jtext \<Rightarrow> js_value option"
  rd_print :: "js_value \<Rightarrow> jtext"
  rd_lower :: "jtext \<Rightarrow> jtext"
  rd_encode :: "jtext \<Rightarrow> jtext option"

definition mergeSensitiveNames :: "redaction_env \<Rightarrow> jtext list \<Rightarrow> jtext list option \<Rightarrow> jtext list" where
  "mergeSensitiveNames R defaults extra = remdups (defaults @ (case extra of Some ns \<Rightarrow> map (rd_lower R) ns | None \<Rightarrow> []))"

definition configured_names :: "redaction_env \<Rightarrow> jtext list option \<Rightarrow> jtext list option \<Rightarrow> jtext list option \<Rightarrow> jtext list" where
  "configured_names R params body_fields headers =
     mergeSensitiveNames R DEFAULT_SENSITIVE_LOG_FIELDS
       (Some (map (rd_lower R) (concat (map (\<lambda>ns. case ns of Some xs \<Rightarrow> xs | None \<Rightarrow> []) [params, body_fields, headers]))))"

subsection \<open>Percent decoding\<close>

text \<open>The bytes of up to \<open>k\<close> escapes at the front; \<open>decodeURIComponent\<close> reads one character from them.\<close>

fun escape_bytes :: "nat \<Rightarrow> jtext \<Rightarrow> nat list" where
  "escape_bytes 0 s = []"
| "escape_bytes (Suc k) s =
     (case s of
        c # t \<Rightarrow> if c = 37 then (case hex_code 2 t of Some b \<Rightarrow> b # escape_bytes k (drop 2 t) | None \<Rightarrow> []) else []
      | [] \<Rightarrow> [])"

function decodeURIComponent :: "jtext \<Rightarrow> jtext option" where
  "decodeURIComponent [] = Some []"
| "decodeURIComponent (c # s) =
     (if c \<noteq> 37 then map_option (Cons c) (decodeURIComponent s)
      else
        (case utf8_first (escape_bytes 4 (c # s)) of
           None \<Rightarrow> None
         | Some (cp, n) \<Rightarrow> map_option (append (utf16 cp)) (decodeURIComponent (drop (3 * n - 1) s))))"
  by pat_completeness auto
termination by (relation "measure length") auto

fun decode_rounds :: "nat \<Rightarrow> jtext \<Rightarrow> jtext option" where
  "decode_rounds 0 decoded = Some decoded"
| "decode_rounds (Suc k) decoded =
     (case decodeURIComponent decoded of
        None \<Rightarrow> None
      | Some new \<Rightarrow> if new = decoded then Some decoded else decode_rounds k new)"

definition boundedPercentDecode :: "jtext \<Rightarrow> jtext option" where
  "boundedPercentDecode text =
     (if MAX_DECODED_NAME_LENGTH < length text then Some text
      else if 37 \<notin> set text \<and> 43 \<notin> set text then Some text
      else decode_rounds MAX_NAME_DECODE_ROUNDS text)"

subsection \<open>JSON\<close>

fun redact_json :: "(jtext \<Rightarrow> bool) \<Rightarrow> js_value \<Rightarrow> js_value" where
  "redact_json masked (JV_array vs) = JV_array (map (redact_json masked) vs)"
| "redact_json masked (JV_object kvs) =
     JV_object (map (\<lambda>(k, v). (k, if masked k then JV_text REDACTED else redact_json masked v)) kvs)"
| "redact_json masked v = v"

fun json_changed :: "(jtext \<Rightarrow> bool) \<Rightarrow> js_value \<Rightarrow> bool" where
  "json_changed masked (JV_array vs) = list_ex (json_changed masked) vs"
| "json_changed masked (JV_object kvs) = list_ex (\<lambda>(k, v). masked k \<or> json_changed masked v) kvs"
| "json_changed masked v = False"

fun is_container :: "js_value \<Rightarrow> bool" where
  "is_container (JV_array _) = True"
| "is_container (JV_object _) = True"
| "is_container _ = False"

definition redactJsonText :: "redaction_env \<Rightarrow> jtext \<Rightarrow> jtext list \<Rightarrow> jtext option" where
  "redactJsonText R text sensitive =
     (case rd_parse R text of
        None \<Rightarrow> None
      | Some v \<Rightarrow>
          let masked = (\<lambda>k. rd_lower R k \<in> set sensitive)
          in if is_container v \<and> json_changed masked v then Some (rd_print R (redact_json masked v)) else None)"

subsection \<open>Pairs\<close>

definition isPairNameChar :: "nat \<Rightarrow> bool" where
  "isPairNameChar c \<longleftrightarrow>
     (97 \<le> c \<and> c \<le> 122) \<or> (65 \<le> c \<and> c \<le> 90) \<or> (48 \<le> c \<and> c \<le> 57) \<or> c \<in> {95, 46, 45, 43, 37}"

definition is_quote :: "nat \<Rightarrow> bool" where "is_quote c \<longleftrightarrow> c = 34 \<or> c = 39"
definition is_separator_unit :: "nat \<Rightarrow> bool" where "is_separator_unit c \<longleftrightarrow> c = 61 \<or> c = 58"

definition value_delimiter :: "nat \<Rightarrow> bool" where
  "value_delimiter c \<longleftrightarrow> js_space c \<or> c \<in> {44, 59, 38, 124, 41, 39, 34}"

definition pairNameIsSensitive :: "redaction_env \<Rightarrow> jtext \<Rightarrow> jtext list \<Rightarrow> bool option" where
  "pairNameIsSensitive R name sensitive =
     map_option (\<lambda>d. rd_lower R (trim_js d) \<in> set sensitive) (boundedPercentDecode name)"

text \<open>The value at the front of a text, which is quoted or runs to the next delimiter.\<close>

definition pair_value :: "jtext \<Rightarrow> jtext" where
  "pair_value s =
     (case s of
        [] \<Rightarrow> []
      | q # t \<Rightarrow>
          if is_quote q then q # takeWhile (\<lambda>c. c \<noteq> q) t @ (if q \<in> set t then [q] else [])
          else takeWhile (\<lambda>c. \<not> value_delimiter c) s)"

definition pairValueEnd :: "jtext \<Rightarrow> nat" where "pairValueEnd s = length (pair_value s)"

text \<open>
  After a separator: the white space, the value if the name is sensitive, and the last unit that was passed.
\<close>

lemma rest_shorter: "length (dropWhile p (tl s)) - k \<le> length s" "length (dropWhile p s) - k \<le> length s"
  "length (dropWhile p (tl s)) \<le> length s"
  using length_dropWhile_le [of p "tl s"] length_dropWhile_le [of p s] by simp_all

function redact_loop :: "redaction_env \<Rightarrow> jtext list \<Rightarrow> nat option \<Rightarrow> jtext \<Rightarrow> jtext \<Rightarrow> jtext option" where
  "redact_loop R sensitive before run [] = Some run"
| "redact_loop R sensitive before run (c # s) =
     (let quoted_pair = is_quote c \<and> run \<noteq> [] \<and> before = Some c \<and> s \<noteq> [] \<and> is_separator_unit (hd s);
          plain_pair = is_separator_unit c \<and> run \<noteq> []
      in if quoted_pair \<or> plain_pair then
           let intro_text = (if quoted_pair then [c, hd s] else [c]);
               rest = (if quoted_pair then tl s else s);
               ws = takeWhile js_space rest;
               after = dropWhile js_space rest
           in (case pairNameIsSensitive R run sensitive of
                 None \<Rightarrow> None
               | Some True \<Rightarrow>
                   map_option (\<lambda>out. run @ intro_text @ ws @ REDACTED @ out)
                     (redact_loop R sensitive (Some (last (intro_text @ ws @ pair_value after))) [] (drop (pairValueEnd after) after))
               | Some False \<Rightarrow>
                   map_option (\<lambda>out. run @ intro_text @ ws @ out)
                     (redact_loop R sensitive (Some (last (intro_text @ ws))) [] after))
         else if is_quote c \<or> \<not> isPairNameChar c
         then map_option (\<lambda>out. run @ [c] @ out) (redact_loop R sensitive (Some c) [] s)
         else redact_loop R sensitive before (run @ [c]) s)"
  by pat_completeness auto
termination
  by (relation "measure (\<lambda>(R, sensitive, before, run, s). length s)")
    (auto simp: less_Suc_eq_le rest_shorter length_dropWhile_le)

definition redactPairsInText :: "redaction_env \<Rightarrow> jtext \<Rightarrow> jtext list \<Rightarrow> jtext option" where
  "redactPairsInText R text sensitive = redact_loop R sensitive None [] text"

subsection \<open>Texts and addresses\<close>

definition redactBlobForDisplay ::
  "redaction_env \<Rightarrow> jtext \<Rightarrow> jtext list option \<Rightarrow> jtext list option \<Rightarrow> jtext list option \<Rightarrow> jtext option" where
  "redactBlobForDisplay R text params body_fields headers =
     (if text = [] then Some text
      else
        let sensitive = configured_names R params body_fields headers
        in case redactJsonText R text sensitive of Some out \<Rightarrow> Some out | None \<Rightarrow> redactPairsInText R text sensitive)"

definition redactHeaderValueForDisplay ::
  "redaction_env \<Rightarrow> jtext \<Rightarrow> jtext list option \<Rightarrow> jtext list option \<Rightarrow> jtext list option \<Rightarrow> jtext option" where
  "redactHeaderValueForDisplay R v params body_fields headers =
     (if v = [] then Some v else redactBlobForDisplay R v params body_fields headers)"

definition redactPairsSegment :: "redaction_env \<Rightarrow> jtext \<Rightarrow> jtext list \<Rightarrow> jtext option" where
  "redactPairsSegment R segment sensitive =
     (case boundedPercentDecode segment of
        None \<Rightarrow> None
      | Some decoded \<Rightarrow>
          (case redactJsonText R decoded sensitive of
             Some out \<Rightarrow> rd_encode R out
           | None \<Rightarrow> redactPairsInText R segment sensitive))"

definition is_letter :: "nat \<Rightarrow> bool" where "is_letter c \<longleftrightarrow> (97 \<le> c \<and> c \<le> 122) \<or> (65 \<le> c \<and> c \<le> 90)"

definition scheme_char :: "nat \<Rightarrow> bool" where
  "scheme_char c \<longleftrightarrow> is_letter c \<or> (48 \<le> c \<and> c \<le> 57) \<or> c \<in> {43, 46, 45}"

text \<open>The scheme with its colon and whether two slashes follow, which then belong to it.\<close>

definition split_scheme :: "jtext \<Rightarrow> (jtext \<times> bool) option" where
  "split_scheme url =
     (let name = takeWhile scheme_char url; rest = dropWhile scheme_char url
      in if name \<noteq> [] \<and> is_letter (hd name) \<and> starts_with [58] rest
         then (if starts_with [58, 47, 47] rest then Some (name @ [58, 47, 47], True) else Some (name @ [58], False))
         else None)"

definition authority_end :: "nat \<Rightarrow> bool" where "authority_end c \<longleftrightarrow> c \<in> {47, 63, 35}"

text \<open>The user information ends at the last at sign, its password starts at the first colon.\<close>

definition mask_password :: "jtext \<Rightarrow> jtext" where
  "mask_password authority =
     (if 64 \<in> set authority then
        let host = rev (takeWhile (\<lambda>c. c \<noteq> 64) (rev authority));
            userInfo = take (length authority - Suc (length host)) authority
        in if 58 \<in> set userInfo then takeWhile (\<lambda>c. c \<noteq> 58) userInfo @ [58] @ REDACTED @ [64] @ host else authority
      else authority)"

definition after_unit :: "nat \<Rightarrow> jtext \<Rightarrow> jtext option" where
  "after_unit c s = (if c \<in> set s then Some (tl (dropWhile (\<lambda>u. u \<noteq> c) s)) else None)"

text \<open>Path, query and fragment.\<close>

definition split_target :: "jtext \<Rightarrow> jtext \<times> jtext option \<times> jtext option" where
  "split_target rest =
     (let front = takeWhile (\<lambda>c. c \<noteq> 35) rest
      in (takeWhile (\<lambda>c. c \<noteq> 63) front, after_unit 63 front, after_unit 35 rest))"

definition marked :: "nat \<Rightarrow> redaction_env \<Rightarrow> jtext list \<Rightarrow> jtext option \<Rightarrow> jtext option" where
  "marked c R sensitive segment =
     (case segment of None \<Rightarrow> Some [] | Some s \<Rightarrow> map_option (Cons c) (redactPairsSegment R s sensitive))"

definition redactUrlForDisplay ::
  "redaction_env \<Rightarrow> jtext \<Rightarrow> jtext list option \<Rightarrow> jtext list option \<Rightarrow> jtext list option \<Rightarrow> jtext option" where
  "redactUrlForDisplay R url params body_fields headers =
     (let sensitive = configured_names R params body_fields headers;
          (scheme, hasAuthority) = (case split_scheme url of Some x \<Rightarrow> x | None \<Rightarrow> ([], False));
          rest = drop (length scheme) url;
          authority = (if hasAuthority \<or> scheme = [] then takeWhile (\<lambda>c. \<not> authority_end c) rest else []);
          (path, query, fragment) = split_target (drop (length authority) rest)
      in case (redactPairsSegment R path sensitive, marked 63 R sensitive query, marked 35 R sensitive fragment) of
           (Some p, Some q, Some f) \<Rightarrow> Some (scheme @ mask_password authority @ p @ q @ f)
         | _ \<Rightarrow> None)"

definition redactEndpointForDisplay ::
  "redaction_env \<Rightarrow> jtext \<Rightarrow> jtext list option \<Rightarrow> jtext list option \<Rightarrow> jtext list option \<Rightarrow> jtext option" where
  "redactEndpointForDisplay = redactUrlForDisplay"

declare redact_loop.simps [simp del]

lemmas redact_loop_Nil = redact_loop.simps(1)

subsection \<open>Masked pairs\<close>

text \<open>A plain name has no escapes; a plain value neither quotes, separators nor delimiters.\<close>

definition plain_name :: "jtext \<Rightarrow> bool" where
  "plain_name n \<longleftrightarrow> n \<noteq> [] \<and> (\<forall>c \<in> set n. isPairNameChar c \<and> c \<noteq> 37 \<and> c \<noteq> 43)"

definition plain_value :: "jtext \<Rightarrow> bool" where
  "plain_value v \<longleftrightarrow> (\<forall>c \<in> set v. \<not> value_delimiter c \<and> \<not> is_separator_unit c)"

lemma name_char: "isPairNameChar c \<Longrightarrow> \<not> is_quote c \<and> \<not> is_separator_unit c \<and> \<not> js_space c"
  by (auto simp: isPairNameChar_def is_quote_def is_separator_unit_def js_space_def)

lemma loop_name:
  "\<forall>c \<in> set n. isPairNameChar c \<Longrightarrow> redact_loop R sens before run (n @ s) = redact_loop R sens before (run @ n) s"
proof (induction n arbitrary: run)
  case (Cons c n)
  then show ?case using name_char [of c] by (simp add: redact_loop.simps(2) Let_def)
qed simp

lemma loop_other:
  "\<not> isPairNameChar c \<Longrightarrow> \<not> is_quote c \<Longrightarrow> \<not> is_separator_unit c \<Longrightarrow>
   redact_loop R sens before run (c # s) = map_option (\<lambda>out. run @ c # out) (redact_loop R sens (Some c) [] s)"
  by (simp add: redact_loop.simps(2) Let_def)

lemma plain_units: "plain_value v \<Longrightarrow> c \<in> set v \<Longrightarrow> \<not> is_quote c \<and> \<not> is_separator_unit c \<and> \<not> js_space c"
  by (auto simp: plain_value_def value_delimiter_def is_quote_def)

text \<open>A plain value that is not masked is copied; the run it leaves ends at the next delimiter.\<close>

lemma loop_value:
  "\<forall>c \<in> set v. \<not> is_quote c \<and> \<not> is_separator_unit c \<Longrightarrow> \<not> isPairNameChar d \<Longrightarrow> \<not> is_quote d \<Longrightarrow> \<not> is_separator_unit d \<Longrightarrow>
   redact_loop R sens before run (v @ d # s) = map_option (\<lambda>out. run @ v @ d # out) (redact_loop R sens (Some d) [] s)"
proof (induction v arbitrary: before run)
  case Nil
  then show ?case by (simp add: loop_other)
next
  case (Cons c v)
  show ?case
  proof (cases "isPairNameChar c")
    case True
    then show ?thesis using Cons loop_name [of "[c]" R sens before run "v @ d # s"] by simp
  next
    case False
    then show ?thesis using Cons by (simp add: loop_other option.map_comp comp_def)
  qed
qed

lemma loop_value_end:
  "\<forall>c \<in> set v. \<not> is_quote c \<and> \<not> is_separator_unit c \<Longrightarrow> redact_loop R sens before run v = Some (run @ v)"
proof (induction v arbitrary: before run)
  case Nil
  then show ?case by (simp add: redact_loop_Nil)
next
  case (Cons c v)
  show ?case
  proof (cases "isPairNameChar c")
    case True
    then show ?thesis using Cons loop_name [of "[c]" R sens before run v] by simp
  next
    case False
    then show ?thesis using Cons by (simp add: loop_other)
  qed
qed

lemma plain_name_decoded: "plain_name n \<Longrightarrow> boundedPercentDecode n = Some n"
  by (auto simp: boundedPercentDecode_def plain_name_def)

lemma plain_name_trimmed: "\<forall>c \<in> set n. \<not> js_space c \<Longrightarrow> trim_js n = n"
proof -
  assume n: "\<forall>c \<in> set n. \<not> js_space c"
  have same: "dropWhile js_space xs = xs" if "\<forall>c \<in> set xs. \<not> js_space c" for xs using that by (cases xs) simp_all
  show ?thesis using n same [of n] same [of "rev n"] by (simp add: trim_js_def)
qed

lemma plain_name_sensitive:
  "plain_name n \<Longrightarrow> pairNameIsSensitive R n sens = Some (rd_lower R n \<in> set sens)"
  using name_char by (subst pairNameIsSensitive_def) (simp add: plain_name_decoded plain_name_trimmed plain_name_def)

lemma dropWhile_none: "\<forall>c \<in> set v. \<not> p c \<Longrightarrow> \<not> p d \<Longrightarrow> dropWhile p (v @ d # s) = v @ d # s \<and> takeWhile p (v @ d # s) = []"
  by (cases v) simp_all

lemma pair_value_plain: "plain_value v \<Longrightarrow> s = [] \<or> value_delimiter (hd s) \<and> \<not> is_quote (hd s) \<Longrightarrow> pair_value (v @ s) = v"
proof -
  assume v: "plain_value v" and s: "s = [] \<or> value_delimiter (hd s) \<and> \<not> is_quote (hd s)"
  have "takeWhile (\<lambda>c. \<not> value_delimiter c) (v @ s) = v"
    using v s by (cases s) (auto simp: plain_value_def takeWhile_eq_all_conv [THEN iffD2])
  then show ?thesis using plain_units [OF v] s by (cases "v @ s") (cases v; auto simp: pair_value_def)+
qed





definition ascii_env :: redaction_env where
  "ascii_env = \<lparr>rd_parse = (\<lambda>s. None), rd_print = (\<lambda>v. []), rd_lower = map (\<lambda>u. if 65 \<le> u \<and> u \<le> 90 then u + 32 else u),
     rd_encode = Some\<rparr>"


lemma sample_masked:
  "redactPairsInText ascii_env (text_of ''Token=x&a=y'') DEFAULT_SENSITIVE_LOG_FIELDS = Some (text_of ''Token=[REDACTED]&a=y'')"
  by code_simp

subsection \<open>What the mask leaves\<close>

text \<open>
  A header value with a scheme keeps its credentials: with a space in the value, as in an authorization header
  with a bearer token, only the part before the space is masked and the token stays in the text.
\<close>

theorem credentials_after_space_stay:
  assumes "plain_name n" "plain_value scheme" "scheme \<noteq> []" "plain_value credentials" "rd_lower R n \<in> set sens"
  shows "redactPairsInText R (n @ [58, 32] @ scheme @ [32] @ credentials) sens =
    Some (n @ [58, 32] @ REDACTED @ [32] @ credentials)"
proof -
  have n: "n \<noteq> []" "\<forall>c \<in> set n. isPairNameChar c" using assms(1) by (simp_all add: plain_name_def)
  let ?rest = "32 # credentials"
  obtain c t where c: "scheme = c # t" using assms(3) by (cases scheme) auto
  then have "\<not> js_space c" using plain_units [OF assms(2)] by simp
  then have ws: "takeWhile js_space (scheme @ ?rest) = []" "dropWhile js_space (scheme @ ?rest) = scheme @ ?rest" "js_space 32"
    using c by (simp_all add: js_space_def [of 32])
  have val: "pair_value (scheme @ ?rest) = scheme"
    by (rule pair_value_plain [OF assms(2)]) (simp add: value_delimiter_def js_space_def is_quote_def)
  have units: "\<forall>c \<in> set credentials. \<not> is_quote c \<and> \<not> is_separator_unit c" using plain_units [OF assms(4)] by blast
  have "redact_loop R sens before [] ?rest = Some ?rest" for before
    by (subst loop_other) (simp_all add: isPairNameChar_def is_quote_def is_separator_unit_def loop_value_end [OF units])
  then have "redact_loop R sens None n (58 # 32 # scheme @ ?rest) = Some (n @ [58, 32] @ REDACTED @ ?rest)"
    using n(1) plain_name_sensitive [OF assms(1), of R sens] assms(5)
    by (simp add: redact_loop.simps(2) [of R sens None n 58] Let_def is_quote_def is_separator_unit_def ws val pairValueEnd_def)
  then show ?thesis
    using loop_name [OF n(2), of R sens None "[]" "58 # 32 # scheme @ ?rest"] by (simp add: redactPairsInText_def)
qed

theorem credentials_after_space_stay_witness:
  "redactPairsInText ascii_env (text_of ''token'' @ [58, 32] @ text_of ''Bearer'' @ [32] @ text_of ''abc'') [text_of ''token''] =
   Some (text_of ''token'' @ [58, 32] @ REDACTED @ [32] @ text_of ''abc'')"
  by (rule credentials_after_space_stay)
    (simp_all add: plain_name_def plain_value_def isPairNameChar_def value_delimiter_def js_space_def is_separator_unit_def text_of_def ascii_env_def)

subsection \<open>Malformed escapes\<close>

lemma lone_bytes: "escape_bytes 4 [37] = []"
  by (simp add: eval_nat_numeral hex_code_def)

lemma lone_percent: "decodeURIComponent [37] = None"
  by (simp add: lone_bytes utf8_first_simps)

lemma lone_percent_name: "pairNameIsSensitive R [37] sens = None"
  by (simp add: pairNameIsSensitive_def boundedPercentDecode_def MAX_DECODED_NAME_LENGTH_def MAX_NAME_DECODE_ROUNDS_def
      numeral_3_eq_3 lone_percent del: decodeURIComponent.simps)

text \<open>
  A client can make the redaction of a header throw: any text without quotes and separators, such as a user
  agent that is refused, followed by a space, a percent sign and an equals sign, has no redacted form,
  since the name in front of the separator is decoded and the exception is not caught.
\<close>

theorem malformed_escape_stops_redaction:
  assumes "\<forall>c \<in> set v. \<not> is_quote c \<and> \<not> is_separator_unit c" "rd_parse R (v @ [32, 37, 61]) = None"
  shows "redactHeaderValueForDisplay R (v @ [32, 37, 61]) params body_fields headers = None"
proof -
  let ?sens = "configured_names R params body_fields headers"
  have space: "\<not> isPairNameChar 32" "\<not> is_quote 32" "\<not> is_separator_unit 32" "isPairNameChar 37"
    by (simp_all add: isPairNameChar_def is_quote_def is_separator_unit_def)
  have "redact_loop R ?sens (Some 32) [37] [61] = None"
    using lone_percent_name [of R ?sens] by (simp add: redact_loop.simps(2) Let_def is_quote_def is_separator_unit_def)
  then have "redact_loop R ?sens (Some 32) [] [37, 61] = None"
    using loop_name [of "[37]" R ?sens "Some 32" "[]" "[61]"] space(4) by simp
  then have "redactPairsInText R (v @ [32, 37, 61]) ?sens = None"
    using loop_value [OF assms(1) space(1-3), of R ?sens None "[]" "[37, 61]"] by (simp add: redactPairsInText_def)
  then show ?thesis
    using assms(2) by (simp add: redactHeaderValueForDisplay_def redactBlobForDisplay_def redactJsonText_def Let_def)
qed

theorem malformed_escape_stops_redaction_witness:
  "redactHeaderValueForDisplay ascii_env (text_of ''sqlmap/1.0'' @ [32, 37, 61]) None None None = None"
  by (rule malformed_escape_stops_redaction) (simp_all add: text_of_def is_quote_def is_separator_unit_def ascii_env_def)

lemma decode_plain: "37 \<notin> set s \<Longrightarrow> decodeURIComponent s = Some s"
  by (induction s) simp_all

text \<open>
  The same holds for paths: a path of at most 256 units with an escape that cannot be decoded, a single percent sign
  for example, has no redacted form, so a block event or a block hook for such a request throws.
\<close>

theorem malformed_path_stops_redaction:
  assumes "63 \<notin> set p" "35 \<notin> set p" "length p < MAX_DECODED_NAME_LENGTH" "decodeURIComponent (47 # p) = None"
  shows "redactUrlForDisplay R (47 # p) params body_fields headers = None"
proof -
  have "37 \<in> set (47 # p)" using decode_plain [of "47 # p"] assms(4) by (metis option.distinct(1))
  then have "boundedPercentDecode (47 # p) = None"
    using assms(3,4) by (simp add: boundedPercentDecode_def MAX_NAME_DECODE_ROUNDS_def numeral_3_eq_3 del: decodeURIComponent.simps)
  then have segment: "redactPairsSegment R (47 # p) sens = None" for sens by (simp add: redactPairsSegment_def)
  have scheme: "split_scheme (47 # p) = None" by (simp add: split_scheme_def Let_def scheme_char_def is_letter_def)
  have "takeWhile (\<lambda>c. c \<noteq> 35) p = p" "takeWhile (\<lambda>c. c \<noteq> 63) p = p"
    using assms(1,2) by auto
  then have target: "split_target (47 # p) = (47 # p, None, None)"
    using assms(1,2) by (simp add: split_target_def Let_def after_unit_def del: takeWhile_eq_all_conv)
  show ?thesis
    by (simp add: redactUrlForDisplay_def scheme Let_def authority_end_def target segment)
qed

theorem malformed_path_stops_redaction_witness:
  "redactUrlForDisplay ascii_env (47 # [97, 37]) None None None = None"
proof (rule malformed_path_stops_redaction)
  show "decodeURIComponent (47 # [97, 37]) = None" using lone_percent by simp
qed (simp_all add: MAX_DECODED_NAME_LENGTH_def)

subsection \<open>JSON\<close>

text \<open>No value of a masked key is left, at any depth.\<close>

fun all_masked :: "(jtext \<Rightarrow> bool) \<Rightarrow> js_value \<Rightarrow> bool" where
  "all_masked masked (JV_array vs) = list_all (all_masked masked) vs"
| "all_masked masked (JV_object kvs) = list_all (\<lambda>(k, v). (masked k \<longrightarrow> v = JV_text REDACTED) \<and> all_masked masked v) kvs"
| "all_masked masked v = True"

lemma masked_after: "all_masked masked (redact_json masked v)"
  by (induction masked v rule: redact_json.induct) (fastforce simp: list_all_iff)+

lemma masked_same: "all_masked masked v \<Longrightarrow> redact_json masked v = v"
  by (induction masked v rule: redact_json.induct) (auto simp: list_all_iff intro!: map_idI)

text \<open>
  JSON bodies are masked at every depth: after the walk no sensitive key of any object, however deep in arrays and
  objects, has a value other than the mask; a value without such keys comes back as it was, and walking
  twice changes nothing.
\<close>

theorem json_values_masked:
  "all_masked masked (redact_json masked v) \<and> redact_json masked (redact_json masked v) = redact_json masked v \<and>
   (\<not> json_changed masked v \<longrightarrow> redact_json masked v = v)"
proof -
  have "\<not> json_changed masked v \<Longrightarrow> redact_json masked v = v"
    by (induction masked v rule: redact_json.induct) (fastforce simp: list_ex_iff intro!: map_idI)+
  then show ?thesis using masked_after masked_same by blast
qed

theorem json_values_masked_witness:
  "redact_json (\<lambda>k. k = [112]) (JV_array [JV_object [([97], JV_text [98])]]) = JV_array [JV_object [([97], JV_text [98])]]"
  using json_values_masked [of "\<lambda>k. k = [112]" "JV_array [JV_object [([97], JV_text [98])]]"] by simp

end
