(* ===== verification/Spec2Isabelle.thy ===== *)
theory Spec2Isabelle
  imports WebSocket_Guard Rate_Limit_By_Ip Request_Scan Behavior Adapter_Requests Security_Headers
    Decorators Body_Reader Telemetry Sus_Patterns Form_Scan Worker_Pool Pattern_Monitor Redaction
begin

text \<open>
  Verification development of guard-core-ts, the request-security engine of
  \<open>packages/core/src\<close>: a pipeline of seventeen checks that decides, for every HTTP request,
  whether it goes on, the managers the checks share, and the framework adapters
  (\<open>packages/express\<close>, \<open>nestjs\<close>, \<open>fastify\<close>, \<open>hono\<close>) that call it.

  Parts of the program and the theories that model them
  \<^item> \<open>Guard_Prelude\<close>: JavaScript strings and insertion-ordered maps. \<open>Guard_Types\<close>: requests,
    responses, route configuration, resolved configuration, events (\<open>models/\<close>, \<open>protocols/\<close>,
    \<open>errors.ts\<close>). \<open>Guard_Effects\<close>: the mutable state of the engine (\<open>world\<close>), its surroundings
    (\<open>env\<close>), and the type \<open>eff\<close> of an \<open>async\<close> method, which returns an error or a value and the
    new state; \<open>keeps\<close>, \<open>returns\<close>, \<open>never_raises\<close> and \<open>yields\<close> are the judgements every component
    proves about its operations, with one introduction rule per combinator.
  \<^item> \<open>Guard_Logging\<close>: logging, agent events, block and error hooks, metrics (\<open>utils.ts\<close>,
    \<open>core/block-events.ts\<close>, \<open>core/events\<close>). \<open>Redis_Manager\<close>: \<open>handlers/redis.ts\<close>.
  \<^item> \<open>Bounded_Store\<close> and \<open>Sliding_Window\<close>: the contracts of the capped stores and of the request
    windows, as locales; \<open>IP_Ban\<close> (\<open>handlers/ip-ban.ts\<close>), \<open>Violation_Counts\<close>
    (\<open>core/checks/helpers.ts\<close>), \<open>Rate_Limit\<close> (\<open>handlers/rate-limit.ts\<close>), \<open>Rate_Limit_By_Ip\<close>
    (\<open>handlers/rate-limit-by-ip.ts\<close>) and \<open>Behavior\<close> (\<open>handlers/behavior.ts\<close>,
    \<open>core/behavioral/processor.ts\<close>) interpret them on their own stores.
  \<^item> \<open>Path_Matching\<close> (\<open>core/validation/path-matching.ts\<close>), \<open>Ip_Access\<close> (\<open>utils.ts\<close>,
    \<open>core/checks/ip-access.ts\<close>, the lookups of \<open>handlers/cloud.ts\<close>), \<open>Response_Factory\<close>,
    \<open>Routing\<close> (\<open>core/routing\<close>, \<open>core/validation\<close>, \<open>core/bypass\<close>), \<open>Cloud_Refresh\<close>
    (\<open>handlers/cloud.ts\<close>, \<open>handlers/cloud-ip-stores.ts\<close>), \<open>Request_Scan\<close> (the request surfaces
    and the scan budget of \<open>utils.ts\<close>).
  \<^item> \<open>Check_Helpers\<close>, \<open>Request_Checks\<close>, \<open>Client_Checks\<close>: the seventeen checks of
    \<open>core/checks/implementations\<close>. \<open>Pipeline\<close>: \<open>core/checks/pipeline.ts\<close>, with the list of checks
    \<open>middleware-support.ts\<close> builds. \<open>WebSocket_Guard\<close>: \<open>core/websocket-guard.ts\<close>.
  \<^item> \<open>Adapters\<close>: what each adapter does with a request and with the response of the application, as
    effects that answer or forward; \<open>Adapter_Requests\<close>: the request each adapter presents to the
    engine and the route identities that select a decorator configuration.
  \<^item> \<open>Security_Headers\<close> (\<open>handlers/security-headers.ts\<close>), \<open>Rule_Snapshot\<close> and \<open>Dynamic_Rules\<close>
    (\<open>models/dynamic-rules.ts\<close>, \<open>models/dynamic-rule-snapshot.ts\<close>, \<open>handlers/dynamic-rules.ts\<close>),
    \<open>Decorators\<close> (\<open>decorators/\<close>), \<open>Body_Reader\<close> (\<open>core/bounded-body-reader.ts\<close>), \<open>Telemetry\<close>
    (\<open>core/events/enricher.ts\<close>, \<open>core/events/composite-handler.ts\<close>): managers with their own state,
    each a record and functions from state to state.
  \<^item> The detection engine (\<open>detection-engine/\<close>), texts and decoders: \<open>Js_Text\<close> (UTF-16 texts, slices,
    global replacement), \<open>Encoding_Decoders\<close> (\<open>encoding-decoders.ts\<close>: escapes, overlong and
    percent-encoded UTF-8), \<open>Html_Entity_Table\<close> (\<open>html-entities.ts\<close>) and \<open>Html_Unescape\<close>,
    \<open>Base64_Decode\<close> (\<open>base64-decode.ts\<close>), \<open>Binary_Content\<close> (\<open>binary.ts\<close>, \<open>binary-islands.ts\<close>) and
    \<open>Preprocessor\<close> (\<open>preprocessor.ts\<close>, \<open>truncation.ts\<close>, \<open>base64-view.ts\<close>) and \<open>Form_Scan\<close>
    (\<open>body-form-scan.ts\<close>: form pairs and the parts of multipart bodies), pure functions on texts that thread the gunzip budget and the decoding errors.
  \<^item> The detection engine, patterns: \<open>Pattern_Engine\<close> (\<open>regex-compat.ts\<close>, \<open>scan-window.ts\<close>: source
    translation, anchored searches, windows over an abstract \<open>RegExp\<close>), \<open>Legacy_Ipv4\<close> and
    \<open>Pickle_Walk\<close> (the validators of \<open>patterns/ldap-ipv4.ts\<close> and \<open>patterns/pickle.ts\<close>),
    \<open>Pattern_Threats\<close> (\<open>patterns/index.ts\<close>), \<open>Scan_Pool\<close> (\<open>scan-pool.ts\<close>: deadline and quarantine),
    \<open>Worker_Pool\<close> (\<open>scan-worker-pool.ts\<close>: a heap of slots and a list of actions, one per turn of the event
    loop, with the scans under way as a map from scans to slots and phases).
    \<open>Pattern_Scan\<close> and \<open>Sus_Patterns\<close> (\<open>handlers/sus-patterns.ts\<close>) compose them: a pass folds
    the applicable patterns over the state of the manager, each scan run by the supervisor, and a detection
    chains the passes over the views, merges what they find and concludes. What a pass needs of its
    runner is the locale \<open>scan_runner\<close>, interpreted on the inline path. \<open>Pattern_Monitor\<close>
    (\<open>monitor.ts\<close>) is the statistics of the patterns, with its anomaly events and callbacks as a list
    of effects.
  \<^item> \<open>Redaction\<close> (\<open>redaction.ts\<close>): the masking of sensitive values in texts, addresses and JSON before
    they are logged; the pair scanner is a state machine over the text, an exception is \<open>None\<close>.
  \<^item> \<open>Guard_Examples\<close>: one concrete deployment for the witnesses.

  What the lemmas show
  \<^item> Pipeline: failing secure, a request passes
    only when all checks pass; in passive mode nothing of the engine blocks; the whitelist and
    exemption flags are earned by the lists.
  \<^item> Checks: exact conditions of passing for IP security and authentication; threats are counted
    in both modes.
  \<^item> Managers: bans hold until they expire; windows count exactly the live hits; violation
    counters, thresholds, caps; cached ranges survive encoding.
  \<^item> Paths, routes, scan: path exclusion is prefix on normalised segments; the longest route wins;
    a clean scan is silent, nesting is bounded, excluded and disabled surfaces do not matter.
  \<^item> Adapters: a request reaches the application only after the whole pipeline passed; captured bodies are bounded prefixes.
  \<^item> Headers, rules, decorators, body, telemetry: header values stay clean and the header cache
    transparent; rule updates follow an abstract transition, versions and expiry included, and
    survive a restart; decorators touch one route and keep authentication modes apart; reads stay
    in their budget and their cap; every sink gets every event.
  \<^item> Decoding: the UTF-8 reader finds exactly the well-formed characters and says what it makes of
    them; escapes, overlong forms, entities and base64 payloads come back as the text they encode;
    form pairs and the parts of a multipart body come back as they were written, a part that hides behind
    a foreign boundary does not; the decode loop stops within sixteen rounds; binary density and islands agree with their
    declarative meaning; truncation keeps to the cap and cuts no match it has room for.
  \<^item> Detection: an attack in the processed text is a threat whatever else happens, what is reported
    can be traced to a pattern and a view, slow scans fail closed, score and verdict agree; a pass with a
    prompt engine is exactly the list of the accepted matches; bounded searches lose no match; the
    supervisor refines an abstract pool, quarantines are earned and end; on worker threads every scan
    gets exactly one answer if timers fire, the open pool keeps its slots, and the verdict is that of the
    calling thread as long as the matches fit into a batch; the opcode walk decides a
    declarative step relation; all states of a manager are well-formed; custom patterns survive a restart.
  \<^item> Monitor and redaction: reports stay sound and bounded in every state of a monitor, anomaly events
    of a pattern are a cooldown apart, the hash is the polynomial one; the values of sensitive names in a
    query are masked and nothing else, JSON at every depth, and malformed escapes make the masking throw.
  \<^item> Several theorems pin down behaviour that departs from what the code's comments promise (a
    ban on a fresh manager, counters shared by tiers, reports doubled).

  Bounds and fuel. Percent decoding runs at most \<open>MAX_DECODE_ROUNDS\<close> rounds, as in the code; the
  JSON scan recurses on the value and stops at \<open>MAX_JSON_DEPTH\<close>; the decode loop runs at most
  \<open>maxDecodeIterations\<close> rounds, as in the code; the segments of a file name are at most as many as the
  parameters they come from; nested containers are finitely many because a payload is shorter than its
  body. No other definition needs fuel: the walk over a
  pickle stream stops because every opcode consumes input, within the code's window of 4096 bytes, and
  the loops over matches because every round moves on.
  Times are exact rationals instead of doubles; strings of the checks are code units below
  256, paths lists of code points, texts of the detection engine lists of UTF-16 units; ratios are
  rationals.

  Not modelled. Parameters of \<open>env\<close>: ipaddr.js, \<open>RegExp\<close>, \<open>URL\<close>, SHA-256, the Redis client and
  server, the agent, GeoIP, redaction and the detector (functions to the checks, although \<open>Redaction\<close> and
  \<open>Sus_Patterns\<close> model them, since the checks work on other strings),
  form and multipart splitting (as \<open>Form_Scan\<close> models them on UTF-16 texts). The request scan takes the body it reads as a parameter, and the checks the header contents. Arguments of single definitions: JSON and date texts of the rule
  snapshot, the file system's outcomes, what a body reader yields, the sinks' outcomes, the
  framework's route stack, Unicode's NFKC, the decompression stream and the places the attack
  indicators match, the regular expressions and the rows of the pattern table with the matchers that are
  built from them, the clock's readings, the run of a worker (\<open>Worker_Pool\<close> models the pool on
  its own, since a scan there spans several turns of the event loop), the semantic analysis, the safety check of
  patterns, and for redaction the texts of JSON, lower-casing and the encoder of addresses. Passes of one detection are taken to run without other operations in between. The remaining
  parts (the matchers of \<open>patterns/\<close>,
  configuration schema, exporters, start-up of the adapters) are listed with reasons in the manifest.
\<close>

end
